(* ===== verification/Prelude.thy ===== *)
theory Prelude
  imports Main "HOL-Library.AList" "HOL-Library.Multiset"
begin

text \<open>
  Shared vocabulary of the development: the JavaScript standard-library containers the client
  uses, results that can be thrown errors, and decimal numerals.

  A JavaScript \<open>Map\<close> enumerates its keys in insertion order, \<open>set\<close> on a present key keeps
  the key's position and \<open>set\<close> on a new key appends.  That is an association list with
  distinct keys under \<open>AList.update\<close> and \<open>AList.delete\<close>; the abbreviations below give
  these the names of the JavaScript methods.  A \<open>Set\<close> is a list with distinct elements.
\<close>

section \<open>Collections of facts\<close>

named_theorems jsmap_simps \<open>look-up after an update of a JavaScript map or set\<close>
named_theorems wf_intros \<open>well-formedness of a map or set after an update\<close>

section \<open>JavaScript Map\<close>

type_synonym ('k, 'v) jsmap = "('k \<times> 'v) list"

abbreviation map_get :: "('k, 'v) jsmap \<Rightarrow> 'k \<Rightarrow> 'v option" where
  "map_get m k \<equiv> map_of m k"

abbreviation map_set :: "'k \<Rightarrow> 'v \<Rightarrow> ('k, 'v) jsmap \<Rightarrow> ('k, 'v) jsmap" where
  "map_set k v m \<equiv> AList.update k v m"

abbreviation map_delete :: "'k \<Rightarrow> ('k, 'v) jsmap \<Rightarrow> ('k, 'v) jsmap" where
  "map_delete k m \<equiv> AList.delete k m"

abbreviation map_keys :: "('k, 'v) jsmap \<Rightarrow> 'k list" where
  "map_keys m \<equiv> map fst m"

abbreviation map_values :: "('k, 'v) jsmap \<Rightarrow> 'v list" where
  "map_values m \<equiv> map snd m"

definition map_has :: "('k, 'v) jsmap \<Rightarrow> 'k \<Rightarrow> bool" where
  "map_has m k \<longleftrightarrow> map_of m k \<noteq> None"

definition map_wf :: "('k, 'v) jsmap \<Rightarrow> bool" where
  "map_wf m \<longleftrightarrow> distinct (map fst m)"

lemma map_get_set [jsmap_simps, simp]:
  "map_get (map_set k v m) k' = (if k' = k then Some v else map_get m k')"
  by (simp add: update_conv')

lemma map_get_delete [jsmap_simps, simp]:
  "map_get (map_delete k m) k' = (if k' = k then None else map_get m k')"
  by (simp add: delete_conv')

lemma map_has_set [jsmap_simps, simp]: "map_has (map_set k v m) k' \<longleftrightarrow> k' = k \<or> map_has m k'"
  by (simp add: map_has_def)

lemma map_has_delete [jsmap_simps, simp]: "map_has (map_delete k m) k' \<longleftrightarrow> k' \<noteq> k \<and> map_has m k'"
  by (simp add: map_has_def)

lemma map_has_Nil [simp]: "\<not> map_has [] k"
  by (simp add: map_has_def)

lemma map_has_iff: "map_has m k \<longleftrightarrow> k \<in> set (map_keys m)"
  using map_of_eq_None_iff [of m k] by (auto simp: map_has_def simp del: map_of_eq_None_iff)

lemma map_wf_Nil [wf_intros, simp]: "map_wf []"
  by (simp add: map_wf_def)

lemma map_wf_set [wf_intros, simp]: "map_wf m \<Longrightarrow> map_wf (map_set k v m)"
  by (simp add: map_wf_def distinct_update)

lemma map_wf_delete [wf_intros, simp]: "map_wf m \<Longrightarrow> map_wf (map_delete k m)"
  by (simp add: map_wf_def distinct_delete)

lemma map_wf_filter [wf_intros, simp]: "map_wf m \<Longrightarrow> map_wf (filter P m)"
  by (auto simp: map_wf_def distinct_map inj_on_def)

lemma map_wf_get: "map_wf m \<Longrightarrow> map_get m k = Some v \<longleftrightarrow> (k, v) \<in> set m"
  by (simp add: map_wf_def)

lemma map_wf_filter_get:
  assumes "map_wf m"
  shows "map_get (filter P m) k =
    (case map_get m k of None \<Rightarrow> None | Some v \<Rightarrow> if P (k, v) then Some v else None)"
proof (cases "map_get m k")
  case None
  then have "k \<notin> fst ` set m" by (simp add: map_of_eq_None_iff)
  then have "k \<notin> fst ` set (filter P m)" by auto
  then have "map_get (filter P m) k = None" by (simp only: map_of_eq_None_iff not_False_eq_True)
  then show ?thesis using None by simp
next
  case (Some v)
  then have mem: "(k, v) \<in> set m" by (rule map_of_SomeD)
  show ?thesis
  proof (cases "P (k, v)")
    case True
    with mem have "(k, v) \<in> set (filter P m)" by simp
    with assms have "map_get (filter P m) k = Some v"
      by (simp add: map_wf_get)
    with True Some show ?thesis by simp
  next
    case False
    have "k \<notin> fst ` set (filter P m)"
      using False assms mem by (force simp: map_wf_get[symmetric])
    with False Some show ?thesis by (simp add: map_of_eq_None_iff)
  qed
qed

lemma map_wf_map_snd [simp]: "map_wf (map (\<lambda>(k, v). (k, f k v)) m) = map_wf m"
  by (simp add: map_wf_def comp_def case_prod_beta)

lemma map_get_map_snd: "map_get (map (\<lambda>(k, v). (k, f k v)) m) k = map_option (f k) (map_get m k)"
  by (induction m) auto

lemma length_map_set:
  "length (map_set k v m) = (if map_has m k then length m else Suc (length m))"
  by (induction m) (auto simp: map_has_def)

lemma map_set_present [simp]: "map_get m k = Some v \<Longrightarrow> map_set k v m = m"
  by (induction m) (auto split: if_splits)

lemma map_set_overwrite [simp]: "map_set k v (map_set k u m) = map_set k v m"
  by (induction m) auto

lemma map_set_mem: "x \<in> set (map_set k v m) \<Longrightarrow> x = (k, v) \<or> x \<in> set m"
  by (induction m) (auto split: if_splits)

lemma map_set_swap:
  "k \<noteq> k' \<Longrightarrow> map_has m k \<Longrightarrow> map_has m k' \<Longrightarrow> map_set k v (map_set k' u m) = map_set k' u (map_set k v m)"
  by (induction m) (auto simp: map_has_def split: if_splits)

section \<open>JavaScript Set\<close>

definition set_add :: "'a \<Rightarrow> 'a list \<Rightarrow> 'a list" where
  "set_add x xs = (if x \<in> set xs then xs else xs @ [x])"

definition set_remove :: "'a \<Rightarrow> 'a list \<Rightarrow> 'a list" where
  "set_remove x xs = filter (\<lambda>y. y \<noteq> x) xs"

definition set_of_list :: "'a list \<Rightarrow> 'a list" where
  "set_of_list xs = fold set_add xs []"

lemma set_set_add [jsmap_simps, simp]: "set (set_add x xs) = insert x (set xs)"
  by (auto simp: set_add_def)

lemma distinct_set_add [wf_intros, simp]: "distinct (set_add x xs) = distinct xs"
  by (auto simp: set_add_def)

lemma set_set_remove [jsmap_simps, simp]: "set (set_remove x xs) = set xs - {x}"
  by (auto simp: set_remove_def)

lemma distinct_set_remove [wf_intros, simp]: "distinct xs \<Longrightarrow> distinct (set_remove x xs)"
  by (simp add: set_remove_def)

lemma set_remove_absent [simp]: "x \<notin> set xs \<Longrightarrow> set_remove x xs = xs"
  by (induction xs) (auto simp: set_remove_def)

lemma set_fold_set_add: "set (fold set_add xs ys) = set xs \<union> set ys"
  by (induction xs arbitrary: ys) auto

lemma distinct_fold_set_add [simp]: "distinct (fold set_add xs ys) = distinct ys"
  by (induction xs arbitrary: ys) auto

lemma set_set_of_list [simp]: "set (set_of_list xs) = set xs"
  by (simp add: set_of_list_def set_fold_set_add)

lemma distinct_set_of_list [simp]: "distinct (set_of_list xs)"
  by (simp add: set_of_list_def)

lemma find_SomeD: "find P xs = Some x \<Longrightarrow> x \<in> set xs \<and> P x"
  by (induction xs) (auto split: if_splits)

section \<open>Optional texts\<close>

text \<open>An optional text under JavaScript truthiness: the empty text counts as absent.\<close>

definition truthy_text :: "string option \<Rightarrow> string option" where
  "truthy_text s = (if s = Some [] then None else s)"

lemma truthy_text_id [simp]: "s \<noteq> Some [] \<Longrightarrow> truthy_text s = s"
  by (simp add: truthy_text_def)

section \<open>Results that may be a thrown error\<close>

fun bind_result :: "'e + 'a \<Rightarrow> ('a \<Rightarrow> 'e + 'b) \<Rightarrow> 'e + 'b" where
  "bind_result (Inl e) f = Inl e"
| "bind_result (Inr x) f = f x"

fun map_result :: "('a \<Rightarrow> 'b) \<Rightarrow> 'e + 'a \<Rightarrow> 'e + 'b" where
  "map_result f (Inl e) = Inl e"
| "map_result f (Inr x) = Inr (f x)"

lemma bind_result_Inr: "bind_result r f = Inr y \<longleftrightarrow> (\<exists>x. r = Inr x \<and> f x = Inr y)"
  by (cases r) auto

lemma map_result_Inr: "map_result f r = Inr y \<longleftrightarrow> (\<exists>x. r = Inr x \<and> y = f x)"
  by (cases r) auto

text \<open>
  A loop of the source whose body may throw: the state is threaded through the list and the
  first error ends the loop.
\<close>

fun fold_result :: "('a \<Rightarrow> 's \<Rightarrow> 'e + 's) \<Rightarrow> 'a list \<Rightarrow> 's \<Rightarrow> 'e + 's" where
  "fold_result f [] s = Inr s"
| "fold_result f (x # xs) s = bind_result (f x s) (fold_result f xs)"

lemma fold_result_append:
  "fold_result f (xs @ ys) s = bind_result (fold_result f xs s) (fold_result f ys)"
proof (induction xs arbitrary: s)
  case (Cons x xs)
  then show ?case by (cases "f x s") auto
qed simp

lemma fold_result_invariant:
  assumes "fold_result f xs s = Inr s'" and "P s"
    and "\<And>x s s'. x \<in> set xs \<Longrightarrow> P s \<Longrightarrow> f x s = Inr s' \<Longrightarrow> P s'"
  shows "P s'"
  using assms
proof (induction xs arbitrary: s)
  case (Cons x xs)
  then obtain s1 where "f x s = Inr s1" "fold_result f xs s1 = Inr s'"
    by (auto simp: bind_result_Inr)
  with Cons show ?case by (metis list.set_intros)
qed simp

lemma fold_invariant:
  "P s \<Longrightarrow> (\<And>x s. x \<in> set xs \<Longrightarrow> P s \<Longrightarrow> P (f x s)) \<Longrightarrow> P (fold f xs s)"
  by (induction xs arbitrary: s) auto

section \<open>Loops that delete or replace the entries of a Map\<close>

text \<open>
  The loops \<open>for (const [key, value] of map.entries())\<close> whose body leaves the entry (\<open>None\<close>),
  deletes it (\<open>Some None\<close>) or replaces its value (\<open>Some (Some v)\<close>).  \<open>rewrite_values\<close> is the
  variant that iterates the values and addresses the entry by an id read off the value.
\<close>

definition rewrite_entry :: "'k \<Rightarrow> 'v option option \<Rightarrow> ('k, 'v) jsmap \<Rightarrow> ('k, 'v) jsmap" where
  "rewrite_entry k r m =
    (case r of None \<Rightarrow> m | Some None \<Rightarrow> map_delete k m | Some (Some v) \<Rightarrow> map_set k v m)"

definition rewrite_entries :: "('v \<Rightarrow> 'v option option) \<Rightarrow> ('k, 'v) jsmap \<Rightarrow> ('k, 'v) jsmap" where
  "rewrite_entries g m = fold (\<lambda>(k, v). rewrite_entry k (g v)) m m"

definition rewrite_values :: "('v \<Rightarrow> 'k) \<Rightarrow> ('v \<Rightarrow> 'v option option) \<Rightarrow> ('k, 'v) jsmap \<Rightarrow> ('k, 'v) jsmap" where
  "rewrite_values idf g m = fold (\<lambda>v. rewrite_entry (idf v) (g v)) (map_values m) m"

definition keyed_by :: "('v \<Rightarrow> 'k) \<Rightarrow> ('k, 'v) jsmap \<Rightarrow> bool" where
  "keyed_by idf m \<longleftrightarrow> map_wf m \<and> (\<forall>(k, v) \<in> set m. idf v = k)"

abbreviation rewritten :: "('v \<Rightarrow> 'v option option) \<Rightarrow> 'v \<Rightarrow> 'v option" where
  "rewritten g v \<equiv> (case g v of None \<Rightarrow> Some v | Some r \<Rightarrow> r)"

lemma map_get_rewrite_entry:
  "map_get (rewrite_entry k r m) k' =
    (if k' = k then (case r of None \<Rightarrow> map_get m k | Some r' \<Rightarrow> r') else map_get m k')"
  by (auto simp: rewrite_entry_def split: option.splits)

lemma map_wf_rewrite_entry [wf_intros]: "map_wf m \<Longrightarrow> map_wf (rewrite_entry k r m)"
  by (auto simp: rewrite_entry_def split: option.splits)

lemma map_get_fold_rewrite:
  "distinct (map fst es) \<Longrightarrow> map_get (fold (\<lambda>(k, v). rewrite_entry k (g v)) es m) k =
    (case map_of es k of None \<Rightarrow> map_get m k
     | Some v \<Rightarrow> (case g v of None \<Rightarrow> map_get m k | Some r \<Rightarrow> r))"
proof (induction es arbitrary: m)
  case (Cons e es)
  obtain k' v where e: "e = (k', v)" by (cases e)
  have "k = k' \<Longrightarrow> map_of es k = None" using Cons.prems by (simp add: e map_of_eq_None_iff)
  then show ?case using Cons by (auto simp: e map_get_rewrite_entry split: option.splits)
qed simp

lemma map_get_rewrite_entries [jsmap_simps]:
  "map_wf m \<Longrightarrow> map_get (rewrite_entries g m) k = Option.bind (map_get m k) (rewritten g)"
  unfolding rewrite_entries_def
  by (subst map_get_fold_rewrite) (auto simp: map_wf_def split: option.splits)

lemma map_wf_rewrite_entries [wf_intros]: "map_wf m \<Longrightarrow> map_wf (rewrite_entries g m)"
  unfolding rewrite_entries_def by (rule fold_invariant) (auto intro: wf_intros)

lemma rewrite_values_entries: "keyed_by idf m \<Longrightarrow> rewrite_values idf g m = rewrite_entries g m"
  unfolding rewrite_values_def rewrite_entries_def fold_map keyed_by_def
  by (intro fold_cong) (auto simp: comp_def)

lemma keyed_by_wf: "keyed_by idf m \<Longrightarrow> map_wf m"
  by (simp add: keyed_by_def)

lemma keyed_by_iff: "keyed_by idf m \<longleftrightarrow> map_wf m \<and> (\<forall>k v. map_get m k = Some v \<longrightarrow> idf v = k)"
  by (auto simp: keyed_by_def map_wf_get)

lemma map_get_rewrite_values [jsmap_simps]:
  "keyed_by idf m \<Longrightarrow> map_get (rewrite_values idf g m) k = Option.bind (map_get m k) (rewritten g)"
  by (simp add: rewrite_values_entries map_get_rewrite_entries keyed_by_wf)

lemma keyed_by_Nil [simp]: "keyed_by idf []"
  by (simp add: keyed_by_def)

lemma keyed_by_set [wf_intros]: "keyed_by idf m \<Longrightarrow> idf v = k \<Longrightarrow> keyed_by idf (map_set k v m)"
  by (auto simp: keyed_by_iff)

lemma keyed_by_delete [wf_intros]: "keyed_by idf m \<Longrightarrow> keyed_by idf (map_delete k m)"
  by (auto simp: keyed_by_iff split: if_splits)

lemma keyed_by_rewrite_entries [wf_intros]:
  "keyed_by idf m \<Longrightarrow> (\<And>v v'. g v = Some (Some v') \<Longrightarrow> idf v' = idf v) \<Longrightarrow> keyed_by idf (rewrite_entries g m)"
  unfolding keyed_by_iff
  by (auto simp: map_get_rewrite_entries bind_eq_Some_conv intro: wf_intros split: option.splits)

lemma keyed_by_rewrite_values [wf_intros]:
  "keyed_by idf m \<Longrightarrow> (\<And>v v'. g v = Some (Some v') \<Longrightarrow> idf v' = idf v) \<Longrightarrow> keyed_by idf (rewrite_values idf g m)"
  by (simp add: rewrite_values_entries keyed_by_rewrite_entries)

section \<open>Array.sort and Array.slice\<close>

text \<open>
  \<open>sort\<close> with a comparator, as a stable insertion sort: the order of a consistent comparator is
  the one ECMAScript prescribes.
\<close>

fun js_insert :: "('a \<Rightarrow> 'a \<Rightarrow> int) \<Rightarrow> 'a \<Rightarrow> 'a list \<Rightarrow> 'a list" where
  "js_insert cmp x [] = [x]"
| "js_insert cmp x (y # ys) = (if cmp x y < 0 then x # y # ys else y # js_insert cmp x ys)"

definition js_sort :: "('a \<Rightarrow> 'a \<Rightarrow> int) \<Rightarrow> 'a list \<Rightarrow> 'a list" where
  "js_sort cmp xs = fold (js_insert cmp) xs []"

lemma js_insert_sort_key:
  assumes "\<And>a b. cmp a b < 0 \<longleftrightarrow> f a < f b"
  shows "js_insert cmp x (sort_key f xs) = sort_key f (xs @ [x])"
proof -
  have ins: "mset (js_insert cmp x ys) = add_mset x (mset ys)" for ys
    by (induction ys) auto
  have srt: "sorted (map f ys) \<Longrightarrow> sorted (map f (js_insert cmp x ys))" for ys
  proof (induction ys)
    case (Cons y ys)
    have "set (js_insert cmp x ys) = insert x (set ys)" using ins [of ys] by (metis set_mset_add_mset_insert set_mset_mset)
    with Cons show ?case by (auto simp: assms)
  qed simp
  have flt: "sorted (map f ys) \<Longrightarrow> filter (\<lambda>y. f y = k) (js_insert cmp x ys) =
      filter (\<lambda>y. f y = k) ys @ (if f x = k then [x] else [])" for ys k
  proof (induction ys)
    case (Cons y ys)
    have "filter (\<lambda>z. f z = f x) ys = []" if "f x < f y"
      using Cons.prems that by (auto simp: filter_empty_conv)
    with Cons show ?case by (auto simp: assms)
  qed simp
  show ?thesis
  proof (rule properties_for_sort_key [symmetric])
    show "mset (js_insert cmp x (sort_key f xs)) = mset (xs @ [x])" by (simp add: ins)
    show "sorted (map f (js_insert cmp x (sort_key f xs)))" by (simp add: srt)
    show "filter (\<lambda>y. f k = f y) (js_insert cmp x (sort_key f xs)) = filter (\<lambda>y. f k = f y) (xs @ [x])" for k
      using flt [of "sort_key f xs" "f k"] sort_key_stable [of f "f k" xs] by (simp add: eq_commute [of "f k"])
  qed
qed

lemma js_sort_sort_key:
  assumes "\<And>a b. cmp a b < 0 \<longleftrightarrow> f a < f b"
  shows "js_sort cmp xs = sort_key f xs"
proof (induction xs rule: rev_induct)
  case (snoc x xs)
  then show ?case by (simp add: js_sort_def js_insert_sort_key [of cmp f, OF assms])
qed (simp add: js_sort_def)

definition slice_index :: "int \<Rightarrow> nat \<Rightarrow> nat" where
  "slice_index i n = (if i < 0 then nat (max (int n + i) 0) else min (nat i) n)"

definition js_slice :: "int \<Rightarrow> int option \<Rightarrow> 'a list \<Rightarrow> 'a list" where
  "js_slice start end' xs =
    (let n = length xs; a = slice_index start n;
         b = (case end' of Some e \<Rightarrow> slice_index e n | None \<Rightarrow> n)
     in take (b - a) (drop a xs))"

lemma js_slice_from [simp]: "js_slice (int k) None xs = drop k xs"
  by (cases "k \<le> length xs") (simp_all add: js_slice_def slice_index_def Let_def)

lemma js_slice_upto [simp]: "js_slice 0 (Some (int k)) xs = take k xs"
  by (cases "k \<le> length xs") (simp_all add: js_slice_def slice_index_def Let_def)

section \<open>Decimal numerals\<close>

definition digit_char :: "nat \<Rightarrow> char" where
  "digit_char d = char_of (48 + d)"

definition char_is_digit :: "char \<Rightarrow> bool" where
  "char_is_digit c \<longleftrightarrow> 48 \<le> (of_char c :: nat) \<and> (of_char c :: nat) \<le> 57"

definition digit_value :: "char \<Rightarrow> nat" where
  "digit_value c = of_char c - 48"

fun show_nat :: "nat \<Rightarrow> string" where
  "show_nat n = (if n < 10 then [digit_char n] else show_nat (n div 10) @ [digit_char (n mod 10)])"

declare show_nat.simps [simp del]

definition digits_to_nat :: "string \<Rightarrow> nat" where
  "digits_to_nat ds = foldl (\<lambda>acc c. acc * 10 + digit_value c) 0 ds"

lemma of_char_digit_char [simp]: "d < 10 \<Longrightarrow> (of_char (digit_char d) :: nat) = 48 + d"
  by (simp add: digit_char_def of_char_of)

lemma char_is_digit_digit_char [simp]: "d < 10 \<Longrightarrow> char_is_digit (digit_char d)"
  by (simp add: char_is_digit_def)

lemma digit_value_digit_char [simp]: "d < 10 \<Longrightarrow> digit_value (digit_char d) = d"
  by (simp add: digit_value_def)

lemma show_nat_digits: "c \<in> set (show_nat n) \<Longrightarrow> char_is_digit c"
proof (induction n rule: show_nat.induct)
  case (1 n)
  then show ?case by (auto simp: show_nat.simps[of n] split: if_splits)
qed

lemma show_nat_nonempty [simp]: "show_nat n \<noteq> []"
  by (subst show_nat.simps) simp

lemma digits_to_nat_show_nat [simp]: "digits_to_nat (show_nat n) = n"
proof (induction n rule: show_nat.induct)
  case (1 n)
  show ?case
  proof (cases "n < 10")
    case True
    then show ?thesis by (simp add: show_nat.simps digits_to_nat_def)
  next
    case False
    with 1 have "digits_to_nat (show_nat (n div 10)) = n div 10" by simp
    with False show ?thesis
      by (subst show_nat.simps) (simp add: digits_to_nat_def)
  qed
qed

lemma show_nat_inj [simp]: "show_nat m = show_nat n \<longleftrightarrow> m = n"
  by (metis digits_to_nat_show_nat)

section \<open>Pairs of a key and a value\<close>

lemma sort_key_map_pair: "sort_key fst (map (\<lambda>e. (f e, e)) xs) = map (\<lambda>e. (f e, e)) (sort_key f xs)"
proof (induction xs)
  case (Cons x xs)
  have "insort_key fst (f x, x) (map (\<lambda>e. (f e, e)) ys) = map (\<lambda>e. (f e, e)) (insort_key f x ys)" for ys
    by (induction ys) auto
  with Cons show ?case by simp
qed simp

lemma map_snd_pair: "\<forall>(q, e) \<in> set xs. q = f e \<Longrightarrow> map (\<lambda>e. (f e, e)) (map snd xs) = xs"
  by (induction xs) auto

lemma last_sort_key:
  assumes "xs \<noteq> []"
  shows "f (last (sort_key f xs)) = Max (f ` set xs)" and "x \<in> set xs \<Longrightarrow> f x \<le> f (last (sort_key f xs))"
proof -
  have "sort_key f xs \<noteq> []" using assms by (metis length_0_conv length_sort)
  then obtain ys y where s: "sort_key f xs = ys @ [y]" by (cases "sort_key f xs" rule: rev_cases) auto
  have st: "set xs = insert y (set ys)" by (metis s set_sort set_append list.simps(15) empty_set Un_insert_right sup_bot_right)
  have "sorted (map f ys @ [f y])" by (metis s sorted_sort_key map_append list.simps(8,9))
  then have le: "f x \<le> f y" if "x \<in> set xs" for x using that by (auto simp: st sorted_append)
  then show "f (last (sort_key f xs)) = Max (f ` set xs)"
    unfolding s by (subst eq_commute) (auto simp: st intro!: Max_eqI)
  show "x \<in> set xs \<Longrightarrow> f x \<le> f (last (sort_key f xs))" using le by (simp add: s)
qed

end
