(* ===== verification/JsValue.thy ===== *)
theory JsValue
  imports Prelude
begin

text \<open>
  The JavaScript values that command data, read models and cache-key parameters are made of
  (TypeScript's \<open>unknown\<close>), with the property access, spread and element assignment the client
  uses on them, and the entity references of \<^verbatim>\<open>packages/client/src/types/entities.ts\<close>.

  Values are JSON-shaped: own properties of an object are an association list, an array is the
  list of its elements (a hole reads as \<open>undefined\<close> and is stored as such).  A property that is
  not an own property is looked up on the built-in prototypes; what is found there is a
  function, kept as \<open>JBuiltin\<close> with its name.  Numbers are the integers; the order in which an
  object enumerates integer-like keys is not modelled.
\<close>

section \<open>Values\<close>

datatype jsval =
    JUndef
  | JNull
  | JBool bool
  | JNum int
  | JStr string
  | JBuiltin string
  | JArr "jsval list"
  | JObj "(string, jsval) jsmap"

text \<open>\<open>typeof v === 'object' && v !== null\<close>\<close>

fun is_object :: "jsval \<Rightarrow> bool" where
  "is_object (JArr _) = True"
| "is_object (JObj _) = True"
| "is_object _ = False"

fun is_string :: "jsval \<Rightarrow> bool" where
  "is_string (JStr _) = True"
| "is_string _ = False"

text \<open>The names found on \<open>Object.prototype\<close> and \<open>Array.prototype\<close>.\<close>

definition object_proto :: "string list" where
  "object_proto =
    [''__defineGetter__'', ''__defineSetter__'', ''__lookupGetter__'', ''__lookupSetter__'',
     ''__proto__'', ''constructor'', ''hasOwnProperty'', ''isPrototypeOf'',
     ''propertyIsEnumerable'', ''toLocaleString'', ''toString'', ''valueOf'']"

definition array_proto :: "string list" where
  "array_proto =
    [''at'', ''concat'', ''copyWithin'', ''entries'', ''every'', ''fill'', ''filter'', ''find'',
     ''findIndex'', ''findLast'', ''findLastIndex'', ''flat'', ''flatMap'', ''forEach'',
     ''includes'', ''indexOf'', ''join'', ''keys'', ''lastIndexOf'', ''map'', ''pop'', ''push'',
     ''reduce'', ''reduceRight'', ''reverse'', ''shift'', ''slice'', ''some'', ''sort'',
     ''splice'', ''toReversed'', ''toSorted'', ''toSpliced'', ''unshift'', ''values'', ''with'']"

text \<open>A property name that is an array index, in canonical decimal form.\<close>

definition array_index :: "string \<Rightarrow> nat option" where
  "array_index n =
    (if list_all char_is_digit n \<and> show_nat (digits_to_nat n) = n
     then Some (digits_to_nat n) else None)"

definition elem_at :: "jsval list \<Rightarrow> nat \<Rightarrow> jsval" where
  "elem_at xs i = (if i < length xs then xs ! i else JUndef)"

text \<open>\<open>v[n]\<close> for a property name \<open>n\<close>, on an object or an array.\<close>

fun js_member :: "jsval \<Rightarrow> string \<Rightarrow> jsval" where
  "js_member (JObj kvs) n =
    (case map_get kvs n of
       Some v \<Rightarrow> v
     | None \<Rightarrow> if n \<in> set object_proto then JBuiltin n else JUndef)"
| "js_member (JArr xs) n =
    (if n = ''length'' then JNum (int (length xs))
     else case array_index n of
       Some i \<Rightarrow> elem_at xs i
     | None \<Rightarrow> if n \<in> set array_proto \<or> n \<in> set object_proto then JBuiltin n else JUndef)"
| "js_member _ n = JUndef"

text \<open>The own enumerable properties that \<open>{...v}\<close> and \<open>Object.entries(v)\<close> see.\<close>

fun own_entries :: "jsval \<Rightarrow> (string, jsval) jsmap" where
  "own_entries (JObj kvs) = kvs"
| "own_entries (JArr xs) = map (\<lambda>(i, x). (show_nat i, x)) (enumerate 0 xs)"
| "own_entries _ = []"

text \<open>\<open>{...v, [n]: x}\<close>\<close>

definition spread_set :: "jsval \<Rightarrow> string \<Rightarrow> jsval \<Rightarrow> jsval" where
  "spread_set v n x = JObj (map_set n x (own_entries v))"

text \<open>\<open>arr[i] = x\<close>: an index past the end extends the array with holes.\<close>

definition set_index :: "jsval list \<Rightarrow> nat \<Rightarrow> jsval \<Rightarrow> jsval list" where
  "set_index xs i x =
    (if i < length xs then xs[i := x] else xs @ replicate (i - length xs) JUndef @ [x])"

lemma is_object_cases [case_names Arr Obj]:
  assumes "is_object v"
  obtains xs where "v = JArr xs" | kvs where "v = JObj kvs"
  using assms by (cases v) auto

lemma js_member_spread_set [simp]:
  "js_member (spread_set v n x) m = (if m = n then x else js_member (JObj (own_entries v)) m)"
  by (simp add: spread_set_def)

lemma spread_set_overwrite [simp]: "spread_set (JObj (map_set n x kvs)) n = spread_set (JObj kvs) n"
  by (rule ext) (simp add: spread_set_def)

lemma elem_at_set_index [simp]:
  "elem_at (set_index xs i x) j = (if j = i then x else elem_at xs j)"
  by (auto simp: elem_at_def set_index_def nth_append nth_Cons')

lemma set_index_elem_at [simp]: "i < length xs \<Longrightarrow> set_index xs i (elem_at xs i) = xs"
  by (simp add: set_index_def elem_at_def)

lemma set_index_same [simp]: "set_index (set_index xs i x) i y = set_index xs i y"
  by (simp add: set_index_def list_update_append)

lemma elem_at_undef: "elem_at xs i \<noteq> JUndef \<Longrightarrow> i < length xs"
  by (auto simp: elem_at_def split: if_splits)

section \<open>Entity references\<close>

text \<open>
  An \<open>EntityRef\<close> is an object with the discriminant \<open>__entityRef: true\<close> and the fields
  \<open>entityId\<close>, \<open>commandId\<close> and \<open>idStrategy\<close>; an \<open>EntityId\<close> is a string or an \<open>EntityRef\<close>.
\<close>

datatype idStrategy = Temporary | Permanent

fun idStrategy_string :: "idStrategy \<Rightarrow> string" where
  "idStrategy_string Temporary = ''temporary''"
| "idStrategy_string Permanent = ''permanent''"

definition createEntityRef :: "string \<Rightarrow> string \<Rightarrow> idStrategy \<Rightarrow> jsval" where
  "createEntityRef entityId commandId strategy =
    JObj [(''__entityRef'', JBool True), (''entityId'', JStr entityId),
          (''commandId'', JStr commandId), (''idStrategy'', JStr (idStrategy_string strategy))]"

definition isEntityRef :: "jsval \<Rightarrow> bool" where
  "isEntityRef v \<longleftrightarrow> is_object v \<and> js_member v ''__entityRef'' = JBool True"

definition isEntityId :: "jsval \<Rightarrow> bool" where
  "isEntityId v \<longleftrightarrow> is_string v \<or> isEntityRef v"

definition entityIdToString :: "jsval \<Rightarrow> jsval" where
  "entityIdToString v =
    (if is_string v then v
     else if isEntityRef v then js_member v ''entityId''
     else JUndef)"

definition entityIdEquals :: "jsval \<Rightarrow> jsval \<Rightarrow> bool" where
  "entityIdEquals a b =
    (if a = JUndef \<and> b = JUndef then True
     else if is_string a \<and> is_string b then a = b
     else if isEntityRef a \<and> isEntityRef b then
       js_member a ''entityId'' = js_member b ''entityId'' \<and>
       js_member a ''commandId'' = js_member b ''commandId''
     else False)"

definition entityIdMatches :: "jsval \<Rightarrow> jsval \<Rightarrow> bool" where
  "entityIdMatches a b \<longleftrightarrow> entityIdToString a = entityIdToString b"

lemma isEntityRef_createEntityRef [simp]: "isEntityRef (createEntityRef e c s)"
  by (simp add: isEntityRef_def createEntityRef_def)

lemma js_member_createEntityRef [simp]:
  "js_member (createEntityRef e c s) ''entityId'' = JStr e"
  "js_member (createEntityRef e c s) ''commandId'' = JStr c"
  by (simp_all add: createEntityRef_def)

lemma is_string_createEntityRef [simp]: "\<not> is_string (createEntityRef e c s)"
  by (simp add: createEntityRef_def)

lemma entityIdToString_simps [simp]:
  "entityIdToString (JStr s) = JStr s"
  "entityIdToString JUndef = JUndef"
  "entityIdToString (createEntityRef e c s') = JStr e"
  by (simp_all add: entityIdToString_def isEntityRef_def [of JUndef])

lemma isEntityRef_simps [simp]: "\<not> isEntityRef JUndef" "\<not> isEntityRef (JStr s)"
  by (simp_all add: isEntityRef_def)

lemma createEntityRef_neq [simp]:
  "createEntityRef e c s \<noteq> JUndef" "JUndef \<noteq> createEntityRef e c s"
  by (simp_all add: createEntityRef_def)

lemma isEntityRef_not_string: "isEntityRef v \<Longrightarrow> \<not> is_string v"
  by (cases v) (auto simp: isEntityRef_def)

lemma entityIdToString_ref: "isEntityRef v \<Longrightarrow> entityIdToString v = js_member v ''entityId''"
  using isEntityRef_not_string by (auto simp: entityIdToString_def)

text \<open>The values of type \<open>EntityId | undefined\<close>: strings, well-formed references, \<open>undefined\<close>.\<close>

definition wf_entity_id :: "jsval \<Rightarrow> bool" where
  "wf_entity_id v \<longleftrightarrow> v = JUndef \<or> is_string v \<or> (\<exists>e c s. v = createEntityRef e c s)"

lemma wf_entity_id_cases [consumes 1, case_names Undef Str Ref]:
  assumes "wf_entity_id v"
  obtains "v = JUndef" | s where "v = JStr s" | e c s where "v = createEntityRef e c s"
  using assms by (auto simp: wf_entity_id_def elim: is_string.elims)

section \<open>Properties\<close>

lemma entity_id_comparisons_parts:
  assumes "wf_entity_id a" and "wf_entity_id b"
  shows "entityIdEquals a a"
    and "entityIdEquals a b = entityIdEquals b a"
    and "entityIdEquals a b \<Longrightarrow> entityIdMatches a b"
    and "\<not> entityIdEquals (JStr e) (createEntityRef e' c s)"
    and "entityIdMatches (JStr e) (createEntityRef e' c s) \<longleftrightarrow> e = e'"
    and "a \<noteq> JUndef \<Longrightarrow> is_string (entityIdToString a)"
  using assms
  by (auto simp: entityIdEquals_def entityIdMatches_def split: if_splits elim!: wf_entity_id_cases)

text \<open>
  the two comparisons of entity ids.  On values of type \<open>EntityId | undefined\<close> strict equality
  is reflexive and symmetric and implies the lenient match, a plain string is never strictly equal
  to a reference but matches exactly the references that carry it, and converting to a string
  forgets nothing but the lifecycle state.
\<close>
theorem entity_id_comparisons:
  assumes "wf_entity_id a" and "wf_entity_id b"
  shows "entityIdEquals a a \<and> entityIdEquals a b = entityIdEquals b a
    \<and> (entityIdEquals a b \<longrightarrow> entityIdMatches a b)
    \<and> \<not> entityIdEquals (JStr e) (createEntityRef e' c s)
    \<and> (entityIdMatches (JStr e) (createEntityRef e' c s) \<longleftrightarrow> e = e')
    \<and> (a \<noteq> JUndef \<longrightarrow> is_string (entityIdToString a))"
  using entity_id_comparisons_parts [OF assms] by blast

theorem entity_id_comparisons_witness:
  "entityIdMatches (JStr ''e1'') (createEntityRef ''e1'' ''c1'' Temporary) \<and>
   entityIdEquals (JStr ''e1'') (JStr ''e1'')"
proof -
  have wf: "wf_entity_id (JStr ''e1'')" "wf_entity_id (createEntityRef ''e1'' ''c1'' Temporary)"
    by (auto simp: wf_entity_id_def)
  show ?thesis
    using entity_id_comparisons [OF wf(1) wf(2), of "''e1''" "''e1''" "''c1''" Temporary]
    by simp
qed

end
