(* ===== verification/RefPath.thy ===== *)
theory RefPath
  imports JsValue
begin

text \<open>
  The JSONPath subset of \<^verbatim>\<open>packages/client/src/core/entity-ref/ref-path.ts\<close>: parsing and
  printing of paths, reading and writing at a path, expansion of wildcards against data, and
  the extraction, stripping and restoring of entity references.

  A path is a string; \<open>parsePath\<close> consumes it from left to right, so the index \<open>i\<close> of the source
  is the rest of the string here.  Every \<open>throw\<close> is a constructor of \<open>pathError\<close>.  Index numerals
  are unbounded naturals: the source reads them as doubles, which is exact up to 2 to the 53.
\<close>

section \<open>Segments and parsing\<close>

datatype pathSegment = SegMember string | SegIndex nat | SegWildcard

datatype pathError =
    MustStartWithDollar string
  | EmptyMemberName
  | UnterminatedBracketMember
  | ExpectedCloseAfterMember
  | ExpectedCloseAfterWildcard
  | UnterminatedIndex
  | InvalidIndex string
  | UnexpectedCharacter char
  | WildcardNotSupported

abbreviation dot :: char where "dot \<equiv> CHR ''.''"
abbreviation open_bracket :: char where "open_bracket \<equiv> CHR ''[''"
abbreviation close_bracket :: char where "close_bracket \<equiv> CHR '']''"
abbreviation star :: char where "star \<equiv> CHR ''*''"
abbreviation dollar :: char where "dollar \<equiv> CHR ''$''"
abbreviation single_quote :: char where "single_quote \<equiv> CHR 0x27"
abbreviation double_quote :: char where "double_quote \<equiv> CHR 0x22"

text \<open>White space that \<open>parseInt\<close> skips, among the code units up to 255.\<close>

definition char_is_space :: "char \<Rightarrow> bool" where
  "char_is_space c \<longleftrightarrow>
    (9 \<le> (of_char c :: nat) \<and> (of_char c :: nat) \<le> 13) \<or> (of_char c :: nat) \<in> {32, 160}"

text \<open>\<open>parseInt(s, 10)\<close>; \<open>None\<close> is \<open>NaN\<close>.\<close>

definition parse_int :: "string \<Rightarrow> int option" where
  "parse_int s =
    (let s1 = dropWhile char_is_space s;
         negative = (s1 \<noteq> [] \<and> hd s1 = CHR ''-'');
         s2 = (if s1 \<noteq> [] \<and> (hd s1 = CHR ''-'' \<or> hd s1 = CHR ''+'') then tl s1 else s1);
         ds = takeWhile char_is_digit s2
     in if ds = [] then None
        else Some (if negative then - int (digits_to_nat ds) else int (digits_to_nat ds)))"

text \<open>What follows an opening bracket: the segment and the rest of the path.\<close>

definition parse_bracket :: "string \<Rightarrow> pathError + (pathSegment \<times> string)" where
  "parse_bracket cs =
    (case cs of
       q # cs1 \<Rightarrow>
         if q = single_quote \<or> q = double_quote then
           (let name = takeWhile (\<lambda>c. c \<noteq> q) cs1
            in case dropWhile (\<lambda>c. c \<noteq> q) cs1 of
                 [] \<Rightarrow> Inl UnterminatedBracketMember
               | _ # cs2 \<Rightarrow>
                   (case cs2 of
                      c # cs3 \<Rightarrow>
                        if c = close_bracket then Inr (SegMember name, cs3)
                        else Inl ExpectedCloseAfterMember
                    | [] \<Rightarrow> Inl ExpectedCloseAfterMember))
         else if q = star then
           (case cs1 of
              c # cs2 \<Rightarrow>
                if c = close_bracket then Inr (SegWildcard, cs2) else Inl ExpectedCloseAfterWildcard
            | [] \<Rightarrow> Inl ExpectedCloseAfterWildcard)
         else
           (let numStr = takeWhile (\<lambda>c. c \<noteq> close_bracket) cs
            in case dropWhile (\<lambda>c. c \<noteq> close_bracket) cs of
                 [] \<Rightarrow> Inl UnterminatedIndex
               | _ # cs2 \<Rightarrow>
                   (case parse_int numStr of
                      Some n \<Rightarrow>
                        if n < 0 then Inl (InvalidIndex numStr) else Inr (SegIndex (nat n), cs2)
                    | None \<Rightarrow> Inl (InvalidIndex numStr)))
     | [] \<Rightarrow> Inl UnterminatedIndex)"

lemma length_dropWhile_Cons: "dropWhile P xs = y # ys \<Longrightarrow> length ys < length xs"
  using length_dropWhile_le [of P xs] by simp

lemma parse_bracket_shorter:
  "parse_bracket cs = Inr (seg, rest) \<Longrightarrow> length rest < Suc (length cs)"
  by (auto simp: parse_bracket_def Let_def split: list.splits if_splits option.splits
      dest!: length_dropWhile_Cons)

function parse_segments :: "string \<Rightarrow> pathError + pathSegment list" where
  "parse_segments [] = Inr []"
| "parse_segments (c # cs) =
    (if c = dot then
       (let name = takeWhile (\<lambda>x. x \<noteq> dot \<and> x \<noteq> open_bracket) cs;
            rest = dropWhile (\<lambda>x. x \<noteq> dot \<and> x \<noteq> open_bracket) cs
        in if name = [] then Inl EmptyMemberName
           else map_result ((#) (SegMember name)) (parse_segments rest))
     else if c = open_bracket then
       (case parse_bracket cs of
          Inl e \<Rightarrow> Inl e
        | Inr (seg, rest) \<Rightarrow> map_result ((#) seg) (parse_segments rest))
     else Inl (UnexpectedCharacter c))"
  by pat_completeness auto
termination
  by (relation "measure length")
    (auto simp: le_imp_less_Suc length_dropWhile_le dest: parse_bracket_shorter)

declare parse_segments.simps(2) [simp del]

definition parsePath :: "string \<Rightarrow> pathError + pathSegment list" where
  "parsePath path =
    (case path of
       c # cs \<Rightarrow> if c = dollar then parse_segments cs else Inl (MustStartWithDollar path)
     | [] \<Rightarrow> Inl (MustStartWithDollar path))"

section \<open>Printing\<close>

text \<open>The regular expression \<^verbatim>\<open>/^[a-zA-Z_$][a-zA-Z0-9_$]*$/\<close>\<close>

definition char_is_alpha :: "char \<Rightarrow> bool" where
  "char_is_alpha c \<longleftrightarrow>
    (65 \<le> (of_char c :: nat) \<and> (of_char c :: nat) \<le> 90) \<or>
    (97 \<le> (of_char c :: nat) \<and> (of_char c :: nat) \<le> 122)"

definition ident_start :: "char \<Rightarrow> bool" where
  "ident_start c \<longleftrightarrow> char_is_alpha c \<or> c = CHR ''_'' \<or> c = dollar"

definition ident_part :: "char \<Rightarrow> bool" where
  "ident_part c \<longleftrightarrow> ident_start c \<or> char_is_digit c"

definition simple_identifier :: "string \<Rightarrow> bool" where
  "simple_identifier name \<longleftrightarrow> name \<noteq> [] \<and> ident_start (hd name) \<and> list_all ident_part (tl name)"

fun segment_to_string :: "pathSegment \<Rightarrow> string" where
  "segment_to_string (SegMember name) =
    (if \<not> simple_identifier name
     then [open_bracket, single_quote] @ name @ [single_quote, close_bracket]
     else dot # name)"
| "segment_to_string (SegIndex index) = open_bracket # show_nat index @ [close_bracket]"
| "segment_to_string SegWildcard = [open_bracket, star, close_bracket]"

definition segmentsToPath :: "pathSegment list \<Rightarrow> string" where
  "segmentsToPath segs = dollar # concat (map segment_to_string segs)"

definition validatePath :: "string \<Rightarrow> pathError + unit" where
  "validatePath path = map_result (\<lambda>_. ()) (parsePath path)"

definition pathHasWildcard :: "string \<Rightarrow> pathError + bool" where
  "pathHasWildcard path = map_result (\<lambda>segs. SegWildcard \<in> set segs) (parsePath path)"

section \<open>Reading and writing at a path\<close>

fun collectValues :: "jsval \<Rightarrow> pathSegment list \<Rightarrow> jsval list" where
  "collectValues current [] = (if current \<noteq> JUndef then [current] else [])"
| "collectValues current (seg # segs) =
    (if \<not> is_object current then []
     else case seg of
       SegMember name \<Rightarrow> collectValues (js_member current name) segs
     | SegIndex i \<Rightarrow>
         (case current of JArr xs \<Rightarrow> collectValues (elem_at xs i) segs | _ \<Rightarrow> [])
     | SegWildcard \<Rightarrow>
         (case current of JArr xs \<Rightarrow> concat (map (\<lambda>x. collectValues x segs) xs) | _ \<Rightarrow> []))"

definition getValuesAtPath :: "jsval \<Rightarrow> string \<Rightarrow> pathError + jsval list" where
  "getValuesAtPath obj path = map_result (collectValues obj) (parsePath path)"

fun get_segments :: "jsval \<Rightarrow> pathSegment list \<Rightarrow> pathError + jsval" where
  "get_segments current [] = Inr current"
| "get_segments current (seg # segs) =
    (if \<not> is_object current then Inr JUndef
     else case seg of
       SegMember name \<Rightarrow> get_segments (js_member current name) segs
     | SegIndex i \<Rightarrow>
         (case current of JArr xs \<Rightarrow> get_segments (elem_at xs i) segs | _ \<Rightarrow> Inr JUndef)
     | SegWildcard \<Rightarrow> Inl WildcardNotSupported)"

definition getAtPath :: "jsval \<Rightarrow> string \<Rightarrow> pathError + jsval" where
  "getAtPath obj path = bind_result (parsePath path) (get_segments obj)"

text \<open>The container a write goes into: the value itself when it has the right shape, else a new one.\<close>

definition as_record :: "jsval \<Rightarrow> jsval" where
  "as_record v = (if is_object v then v else JObj [])"

fun as_array :: "jsval \<Rightarrow> jsval list" where
  "as_array (JArr xs) = xs"
| "as_array _ = []"

fun setAtSegments :: "jsval \<Rightarrow> pathSegment list \<Rightarrow> jsval \<Rightarrow> pathError + jsval" where
  "setAtSegments obj [] v = Inr v"
| "setAtSegments obj (SegMember name # segs) v =
    map_result (spread_set (as_record obj) name)
      (setAtSegments (js_member (as_record obj) name) segs v)"
| "setAtSegments obj (SegIndex i # segs) v =
    map_result (\<lambda>x. JArr (set_index (as_array obj) i x))
      (setAtSegments (elem_at (as_array obj) i) segs v)"
| "setAtSegments obj (SegWildcard # segs) v = Inl WildcardNotSupported"

definition setAtPath :: "jsval \<Rightarrow> string \<Rightarrow> jsval \<Rightarrow> pathError + jsval" where
  "setAtPath obj path v = bind_result (parsePath path) (\<lambda>segs. setAtSegments obj segs v)"

section \<open>Expanding wildcards against data\<close>

fun walkSegments ::
  "jsval \<Rightarrow> pathSegment list \<Rightarrow> pathSegment list \<Rightarrow> (jsval \<Rightarrow> bool) \<Rightarrow> (string \<times> jsval) list" where
  "walkSegments current [] concretePath predicate =
    (if current = JUndef then []
     else if predicate current then [(segmentsToPath concretePath, current)] else [])"
| "walkSegments current (seg # segs) concretePath predicate =
    (if \<not> is_object current then []
     else case seg of
       SegMember name \<Rightarrow>
         walkSegments (js_member current name) segs (concretePath @ [seg]) predicate
     | SegIndex i \<Rightarrow>
         (case current of
            JArr xs \<Rightarrow> walkSegments (elem_at xs i) segs (concretePath @ [seg]) predicate
          | _ \<Rightarrow> [])
     | SegWildcard \<Rightarrow>
         (case current of
            JArr xs \<Rightarrow>
              concat (map (\<lambda>i. walkSegments (elem_at xs i) segs (concretePath @ [SegIndex i]) predicate)
                [0..<length xs])
          | _ \<Rightarrow> []))"

definition findMatchingPaths ::
  "jsval \<Rightarrow> string \<Rightarrow> (jsval \<Rightarrow> bool) \<Rightarrow> pathError + (string \<times> jsval) list" where
  "findMatchingPaths data pattern predicate =
    map_result (\<lambda>segs. walkSegments data segs [] predicate) (parsePath pattern)"

text \<open>\<open>Record<JSONPathExpression, EntityRef>\<close>: concrete path to the reference found there.\<close>

type_synonym refPaths = "(string, jsval) jsmap"

definition resolveRefPaths :: "jsval \<Rightarrow> string list \<Rightarrow> pathError + refPaths" where
  "resolveRefPaths data patterns =
    fold_result
      (\<lambda>pattern result.
        map_result (\<lambda>matches. fold (\<lambda>(path, v). map_set path v) matches result)
          (findMatchingPaths data pattern isEntityRef))
      patterns []"

definition extractTopLevelEntityRefs :: "jsval \<Rightarrow> refPaths" where
  "extractTopLevelEntityRefs data =
    (if \<not> is_object data then []
     else fold (\<lambda>(key, v) result. if isEntityRef v then map_set (dollar # dot # key) v result else result)
       (own_entries data) [])"

text \<open>The virtual root \<open>{ data, path, headers }\<close> that command paths are rooted at.\<close>

definition command_view :: "jsval \<Rightarrow> jsval \<Rightarrow> jsval \<Rightarrow> jsval" where
  "command_view data path headers =
    JObj [(''data'', data), (''path'', path), (''headers'', headers)]"

definition extractCommandIdPaths ::
  "jsval \<Rightarrow> jsval \<Rightarrow> jsval \<Rightarrow> string list \<Rightarrow> pathError + refPaths" where
  "extractCommandIdPaths data path headers commandIdReferencePaths =
    resolveRefPaths (command_view data path headers) commandIdReferencePaths"

definition stripEntityRefs :: "jsval \<Rightarrow> refPaths \<Rightarrow> pathError + jsval" where
  "stripEntityRefs data commandIdPaths =
    fold_result (\<lambda>(path, ref) result. setAtPath result path (js_member ref ''entityId''))
      commandIdPaths data"

definition restoreEntityRefs :: "jsval \<Rightarrow> refPaths \<Rightarrow> pathError + jsval" where
  "restoreEntityRefs data commandIdPaths =
    fold_result (\<lambda>(path, ref) result. setAtPath result path ref) commandIdPaths data"

section \<open>Parsing what was printed\<close>

text \<open>A segment whose name the printer can quote: \<open>segmentsToPath\<close> does not escape quotes.\<close>

fun printable :: "pathSegment \<Rightarrow> bool" where
  "printable (SegMember name) = (single_quote \<notin> set name)"
| "printable _ = True"

lemma takeWhile_stop [simp]:
  assumes "\<And>x. x \<in> set xs \<Longrightarrow> P x" and "ys = [] \<or> \<not> P (hd ys)"
  shows "takeWhile P (xs @ ys) = xs"
  using assms by (cases ys) (auto simp: takeWhile_append takeWhile_eq_all_conv)

lemma dropWhile_stop [simp]:
  assumes "\<And>x. x \<in> set xs \<Longrightarrow> P x" and "ys = [] \<or> \<not> P (hd ys)"
  shows "dropWhile P (xs @ ys) = ys"
  using assms by (cases ys) (auto simp: dropWhile_append dropWhile_eq_Nil_conv)

lemma of_char_punctuation:
  "\<not> ident_part dot" "\<not> ident_part open_bracket" "\<not> char_is_digit close_bracket"
  "\<not> char_is_digit single_quote" "\<not> char_is_digit double_quote" "\<not> char_is_digit star"
  "\<not> char_is_digit CHR ''-''" "\<not> char_is_digit CHR ''+''"
  by (simp_all add: ident_part_def ident_start_def char_is_alpha_def char_is_digit_def)

lemma char_is_digit_not_space: "char_is_digit c \<Longrightarrow> \<not> char_is_space c"
  by (auto simp: char_is_digit_def char_is_space_def)

lemma simple_identifier_chars:
  assumes "simple_identifier name" and "c \<in> set name"
  shows "c \<noteq> dot" and "c \<noteq> open_bracket"
proof -
  from assms have "ident_part c"
    by (cases name) (auto simp: simple_identifier_def ident_part_def list_all_iff)
  then show "c \<noteq> dot" and "c \<noteq> open_bracket"
    using of_char_punctuation by blast+
qed

lemma parse_int_show_nat [simp]: "parse_int (show_nat n) = Some (int n)"
proof -
  obtain c cs where c: "show_nat n = c # cs" by (cases "show_nat n") auto
  have digits: "\<And>x. x \<in> set (c # cs) \<Longrightarrow> char_is_digit x"
    using show_nat_digits c by metis
  have tw: "takeWhile char_is_digit (c # cs) = c # cs"
    using digits by (simp add: takeWhile_eq_all_conv)
  have cd: "char_is_digit c" using digits by simp
  have c1: "\<not> char_is_space c" using cd by (rule char_is_digit_not_space)
  have c2: "c \<noteq> CHR ''-''" and c3: "c \<noteq> CHR ''+''"
    using cd of_char_punctuation by blast+
  have "digits_to_nat (c # cs) = n" using digits_to_nat_show_nat [of n] by (simp add: c)
  then show ?thesis using c1 c2 c3 tw by (simp add: parse_int_def c Let_def)
qed

lemma parse_bracket_member:
  "single_quote \<notin> set name \<Longrightarrow>
   parse_bracket (single_quote # name @ [single_quote, close_bracket] @ rest)
     = Inr (SegMember name, rest)"
proof -
  assume q: "single_quote \<notin> set name"
  have "takeWhile (\<lambda>c. c \<noteq> single_quote) (name @ single_quote # close_bracket # rest) = name"
    by (rule takeWhile_stop) (use q in auto)
  moreover have "dropWhile (\<lambda>c. c \<noteq> single_quote) (name @ single_quote # close_bracket # rest)
      = single_quote # close_bracket # rest"
    by (rule dropWhile_stop) (use q in auto)
  ultimately show ?thesis by (simp add: parse_bracket_def Let_def)
qed

lemma parse_bracket_index:
  "parse_bracket (show_nat n @ close_bracket # rest) = Inr (SegIndex n, rest)"
proof -
  obtain c cs where c: "show_nat n = c # cs" by (cases "show_nat n") auto
  have digits: "\<And>x. x \<in> set (c # cs) \<Longrightarrow> x \<noteq> close_bracket"
    using show_nat_digits of_char_punctuation c by metis
  have cd: "char_is_digit c" using show_nat_digits [of c n] c by simp
  have c2: "c \<noteq> single_quote" "c \<noteq> double_quote" "c \<noteq> star"
    using cd of_char_punctuation by blast+
  have "takeWhile (\<lambda>c. c \<noteq> close_bracket) ((c # cs) @ close_bracket # rest) = c # cs"
    by (rule takeWhile_stop) (use digits in auto)
  moreover have "dropWhile (\<lambda>c. c \<noteq> close_bracket) ((c # cs) @ close_bracket # rest) = close_bracket # rest"
    by (rule dropWhile_stop) (use digits in auto)
  moreover have "parse_int (c # cs) = Some (int n)"
    using parse_int_show_nat [of n] by (simp only: c)
  ultimately show ?thesis using c2 by (simp add: parse_bracket_def Let_def c)
qed

lemma parse_segments_print:
  assumes "printable seg" and "rest = [] \<or> hd rest = dot \<or> hd rest = open_bracket"
  shows "parse_segments (segment_to_string seg @ rest) = map_result ((#) seg) (parse_segments rest)"
proof (cases seg)
  case (SegMember name)
  show ?thesis
  proof (cases "simple_identifier name")
    case True
    have "takeWhile (\<lambda>x. x \<noteq> dot \<and> x \<noteq> open_bracket) (name @ rest) = name"
      by (rule takeWhile_stop) (use True assms simple_identifier_chars in auto)
    moreover have "dropWhile (\<lambda>x. x \<noteq> dot \<and> x \<noteq> open_bracket) (name @ rest) = rest"
      by (rule dropWhile_stop) (use True assms simple_identifier_chars in auto)
    moreover have "name \<noteq> []" using True by (simp add: simple_identifier_def)
    ultimately show ?thesis using True SegMember by (simp add: parse_segments.simps Let_def)
  next
    case False
    with SegMember assms show ?thesis
      using parse_bracket_member [of name rest] by (simp add: parse_segments.simps)
  qed
next
  case (SegIndex n)
  then show ?thesis using parse_bracket_index [of n rest] by (simp add: parse_segments.simps)
next
  case SegWildcard
  then show ?thesis by (simp add: parse_segments.simps parse_bracket_def)
qed

lemma segment_to_string_head:
  "segment_to_string seg \<noteq> [] \<and> hd (segment_to_string seg) \<in> {dot, open_bracket}"
  by (cases seg) auto

lemma concat_segments_head:
  "concat (map segment_to_string segs) = [] \<or>
   hd (concat (map segment_to_string segs)) \<in> {dot, open_bracket}"
  using segment_to_string_head by (cases segs) (auto simp: hd_append)

lemma parse_segments_concat:
  "list_all printable segs \<Longrightarrow> parse_segments (concat (map segment_to_string segs)) = Inr segs"
proof (induction segs)
  case (Cons seg segs)
  then show ?case
    using parse_segments_print [of seg "concat (map segment_to_string segs)"]
      concat_segments_head [of segs] by auto
qed simp

lemma parsePath_segmentsToPath:
  "list_all printable segs \<Longrightarrow> parsePath (segmentsToPath segs) = Inr segs"
  by (simp add: parsePath_def segmentsToPath_def parse_segments_concat)

section \<open>Facts about walking\<close>

definition no_wildcard :: "pathSegment list \<Rightarrow> bool" where
  "no_wildcard segs \<longleftrightarrow> SegWildcard \<notin> set segs"

text \<open>A concrete path is an instance of a pattern: a wildcard stands for any index.\<close>

fun instance_of :: "pathSegment list \<Rightarrow> pathSegment list \<Rightarrow> bool" where
  "instance_of [] [] = True"
| "instance_of (c # cs) (p # ps) =
    ((if p = SegWildcard then (\<exists>i. c = SegIndex i) else c = p) \<and> instance_of cs ps)"
| "instance_of _ _ = False"

lemma instance_of_printable:
  "instance_of cs ps \<Longrightarrow> list_all printable ps \<Longrightarrow> list_all printable cs"
  by (induction cs ps rule: instance_of.induct) (auto split: if_splits)

lemma instance_of_no_wildcard: "instance_of cs ps \<Longrightarrow> no_wildcard cs"
  by (induction cs ps rule: instance_of.induct) (auto simp: no_wildcard_def split: if_splits)

lemma walk_sound:
  "(path, v) \<in> set (walkSegments current segs concretePath predicate) \<Longrightarrow>
   \<exists>cs. path = segmentsToPath (concretePath @ cs) \<and> instance_of cs segs \<and>
        get_segments current cs = Inr v \<and> predicate v \<and> v \<noteq> JUndef"
proof (induction segs arbitrary: current concretePath)
  case Nil
  then show ?case by (auto intro: exI [of _ "[]"] split: if_splits)
next
  case (Cons seg segs)
  from Cons.prems have obj: "is_object current" by (auto split: if_splits)
  obtain c next_value where step:
    "(path, v) \<in> set (walkSegments next_value segs (concretePath @ [c]) predicate)"
    "\<And>cs. get_segments current (c # cs) = get_segments next_value cs"
    "instance_of [c] [seg]"
  proof (cases seg)
    case (SegMember name)
    with Cons.prems obj show ?thesis by (intro that [of "js_member current name" seg]) auto
  next
    case (SegIndex i)
    with Cons.prems obj obtain xs where "current = JArr xs" by (auto split: jsval.splits)
    with SegIndex Cons.prems show ?thesis by (intro that [of "elem_at xs i" seg]) auto
  next
    case SegWildcard
    with Cons.prems obj obtain xs i where "current = JArr xs"
      "(path, v) \<in> set (walkSegments (elem_at xs i) segs (concretePath @ [SegIndex i]) predicate)"
      by (auto split: jsval.splits)
    with SegWildcard show ?thesis by (intro that [of "elem_at xs i" "SegIndex i"]) auto
  qed
  from Cons.IH [OF step(1)] obtain cs where "path = segmentsToPath ((concretePath @ [c]) @ cs)"
    "instance_of cs segs" "get_segments next_value cs = Inr v" "predicate v" "v \<noteq> JUndef"
    by blast
  with step(2,3) show ?case by (intro exI [of _ "c # cs"]) auto
qed

lemma get_undef [simp]: "no_wildcard cs \<Longrightarrow> get_segments JUndef cs = Inr JUndef"
  by (cases cs) auto

lemma walk_complete:
  "instance_of cs segs \<Longrightarrow> get_segments current cs = Inr v \<Longrightarrow> v \<noteq> JUndef \<Longrightarrow> predicate v \<Longrightarrow>
   (segmentsToPath (concretePath @ cs), v) \<in> set (walkSegments current segs concretePath predicate)"
proof (induction cs segs arbitrary: current concretePath rule: instance_of.induct)
  case (2 c cs p ps)
  then have obj: "is_object current" by (auto split: if_splits)
  have inst: "instance_of cs ps" using "2.prems" by simp
  have nw: "no_wildcard cs" using inst by (rule instance_of_no_wildcard)
  have step: "(segmentsToPath (concretePath @ c # cs), v)
      \<in> set (walkSegments u ps (concretePath @ [c]) predicate)" if "get_segments u cs = Inr v" for u
    using "2.IH" [OF inst that "2.prems"(3,4), of "concretePath @ [c]"] by simp
  show ?case
  proof (cases p)
    case (SegMember name)
    with "2.prems" obj step [of "js_member current name"] show ?thesis by simp
  next
    case (SegIndex i)
    with "2.prems" obj obtain xs where "current = JArr xs" by (auto split: jsval.splits)
    with SegIndex "2.prems" step [of "elem_at xs i"] show ?thesis by simp
  next
    case SegWildcard
    with "2.prems" obtain i where c: "c = SegIndex i" by auto
    with "2.prems" obj obtain xs where xs: "current = JArr xs" by (auto split: jsval.splits)
    with c "2.prems" have g: "get_segments (elem_at xs i) cs = Inr v" by simp
    have "i < length xs"
      using g nw "2.prems"(3) by (cases "i < length xs") (auto simp: elem_at_def)
    with step [OF g] SegWildcard xs c show ?thesis by auto
  qed
qed auto

lemma collect_eq_walk:
  "collectValues current segs = map snd (walkSegments current segs concretePath (\<lambda>_. True))"
proof (induction segs arbitrary: current concretePath)
  case (Cons seg segs)
  show ?case
  proof (cases seg)
    case SegWildcard
    have "map (\<lambda>x. collectValues x segs) xs =
        map (\<lambda>i. map snd (walkSegments (elem_at xs i) segs (concretePath @ [SegIndex i]) (\<lambda>_. True)))
          [0..<length xs]" for xs
      by (rule nth_equalityI) (auto simp: elem_at_def Cons.IH [symmetric])
    with SegWildcard show ?thesis
      by (auto simp: map_concat comp_def split: jsval.splits)
  qed (auto simp: Cons.IH [symmetric] split: jsval.splits)
qed simp

lemma collect_eq_get:
  "no_wildcard segs \<Longrightarrow> get_segments current segs = Inr v \<Longrightarrow>
   collectValues current segs = (if v = JUndef then [] else [v])"
  by (induction segs arbitrary: current)
    (auto simp: no_wildcard_def split: pathSegment.splits jsval.splits)

lemma get_segments_total: "no_wildcard segs \<Longrightarrow> \<exists>v. get_segments current segs = Inr v"
  by (induction segs arbitrary: current)
    (auto simp: no_wildcard_def split: pathSegment.splits jsval.splits)

section \<open>Facts about writing\<close>

lemma set_segments_total: "no_wildcard segs \<Longrightarrow> \<exists>v'. setAtSegments obj segs v = Inr v'"
proof (induction segs arbitrary: obj)
  case (Cons seg segs)
  then have "no_wildcard segs" by (simp add: no_wildcard_def)
  then have IH: "\<And>obj. \<exists>v'. setAtSegments obj segs v = Inr v'" by (rule Cons.IH)
  with Cons.prems show ?case
    by (cases seg) (auto simp: no_wildcard_def map_result_Inr)
qed simp

lemma set_segments_wildcard: "\<not> no_wildcard segs \<Longrightarrow> setAtSegments obj segs v = Inl WildcardNotSupported"
  by (induction obj segs v rule: setAtSegments.induct) (auto simp: no_wildcard_def)

lemma set_segments_no_wildcard: "setAtSegments obj segs v = Inr v' \<Longrightarrow> no_wildcard segs"
  using set_segments_wildcard [of segs obj v] by force

lemma get_set_segments:
  "setAtSegments obj segs v = Inr obj' \<Longrightarrow> get_segments obj' segs = Inr v"
  by (induction obj segs v arbitrary: obj' rule: setAtSegments.induct)
    (auto simp: map_result_Inr spread_set_def)

text \<open>The own value at a path: what a write along the path replaces without changing any shape.\<close>

fun own_at :: "jsval \<Rightarrow> pathSegment list \<Rightarrow> jsval option" where
  "own_at v [] = Some v"
| "own_at (JObj kvs) (SegMember name # segs) =
    (case map_get kvs name of None \<Rightarrow> None | Some x \<Rightarrow> own_at x segs)"
| "own_at (JArr xs) (SegIndex i # segs) =
    (if i < length xs then own_at (xs ! i) segs else None)"
| "own_at _ _ = None"

lemma own_at_get: "own_at v segs = Some x \<Longrightarrow> get_segments v segs = Inr x"
  by (induction v segs rule: own_at.induct) (auto simp: elem_at_def split: option.splits if_splits)

lemma set_own_same: "own_at v segs = Some x \<Longrightarrow> setAtSegments v segs x = Inr v"
proof (induction v segs rule: own_at.induct)
  case (2 kvs name segs)
  then obtain y where "map_get kvs name = Some y" "own_at y segs = Some x"
    by (auto split: option.splits)
  with 2 show ?case by (simp add: as_record_def spread_set_def)
next
  case (3 xs i segs)
  then show ?case by (auto simp: elem_at_def set_index_def split: if_splits)
qed auto

lemma own_at_set:
  "own_at v segs = Some x \<Longrightarrow>
   \<exists>v'. setAtSegments v segs y = Inr v' \<and> own_at v' segs = Some y \<and>
        (\<forall>z. setAtSegments v' segs z = setAtSegments v segs z)"
proof (induction v segs rule: own_at.induct)
  case (2 kvs name segs)
  then obtain u where u: "map_get kvs name = Some u" "own_at u segs = Some x"
    by (auto split: option.splits)
  with 2 obtain u' where "setAtSegments u segs y = Inr u'" "own_at u' segs = Some y"
    "\<forall>z. setAtSegments u' segs z = setAtSegments u segs z"
    by blast
  moreover have "spread_set (JObj (map_set name u' kvs)) name = spread_set (JObj kvs) name"
    by (simp add: spread_set_def fun_eq_iff)
  ultimately show ?case
    using u by (auto simp: as_record_def spread_set_def)
next
  case (3 xs i segs)
  then have i: "i < length xs" and own: "own_at (xs ! i) segs = Some x" by (auto split: if_splits)
  with 3 obtain u' where u': "setAtSegments (xs ! i) segs y = Inr u'" "own_at u' segs = Some y"
    "\<And>z. setAtSegments u' segs z = setAtSegments (xs ! i) segs z"
    by blast
  with i show ?case by (auto simp: elem_at_def set_index_def)
qed auto

text \<open>Two paths diverge when neither is a prefix of the other.\<close>

fun diverge :: "pathSegment list \<Rightarrow> pathSegment list \<Rightarrow> bool" where
  "diverge (a # as) (b # bs) = (if a = b then diverge as bs else True)"
| "diverge _ _ = False"

lemma diverge_sym: "diverge p q = diverge q p"
  by (induction p q rule: diverge.induct) (auto split: if_splits)

lemma set_commute:
  "diverge p q \<Longrightarrow> own_at v p = Some x \<Longrightarrow> own_at v q = Some y \<Longrightarrow>
   setAtSegments v p x' = Inr v1 \<Longrightarrow> setAtSegments v q y' = Inr v2 \<Longrightarrow>
   own_at v1 q = Some y \<and> setAtSegments v2 p x' = setAtSegments v1 q y'"
proof (induction p q arbitrary: v v1 v2 rule: diverge.induct)
  case (1 a as b bs)
  show ?case
  proof (cases v)
    case (JObj kvs)
    with "1.prems" obtain n m xa ya where ab: "a = SegMember n" "b = SegMember m"
      and own: "map_get kvs n = Some xa" "own_at xa as = Some x"
        "map_get kvs m = Some ya" "own_at ya bs = Some y"
      by (cases a; cases b) (auto split: option.splits)
    from "1.prems" JObj ab own obtain u w where u: "setAtSegments xa as x' = Inr u"
      "v1 = JObj (map_set n u kvs)" and w: "setAtSegments ya bs y' = Inr w"
      "v2 = JObj (map_set m w kvs)"
      by (auto simp: as_record_def spread_set_def map_result_Inr)
    show ?thesis
    proof (cases "n = m")
      case True
      with own have eq: "ya = xa" by simp
      have "diverge as bs" using "1.prems"(1) ab True by simp
      with "1.IH" [of xa u w] ab True own u w eq
      have "own_at u bs = Some y \<and> setAtSegments w as x' = setAtSegments u bs y'" by simp
      with u w ab True show ?thesis by (simp add: as_record_def)
    next
      case False
      have "map_set n u (map_set m w kvs) = map_set m w (map_set n u kvs)"
        using False own by (intro map_set_swap) (auto simp: map_has_def)
      with False u w ab own show ?thesis
        by (simp add: as_record_def) (simp add: spread_set_def)
    qed
  next
    case (JArr xs)
    with "1.prems" obtain i j where ab: "a = SegIndex i" "b = SegIndex j"
      and own: "i < length xs" "own_at (xs ! i) as = Some x"
        "j < length xs" "own_at (xs ! j) bs = Some y"
      by (cases a; cases b) (auto split: if_splits)
    from "1.prems" JArr ab own obtain u w where u: "setAtSegments (xs ! i) as x' = Inr u"
      "v1 = JArr (xs[i := u])" and w: "setAtSegments (xs ! j) bs y' = Inr w"
      "v2 = JArr (xs[j := w])"
      by (auto simp: elem_at_def set_index_def map_result_Inr)
    show ?thesis
    proof (cases "i = j")
      case True
      have "diverge as bs" using "1.prems"(1) ab True by simp
      with "1.IH" [of "xs ! i" u w] ab True own u w
      have "own_at u bs = Some y \<and> setAtSegments w as x' = setAtSegments u bs y'" by simp
      with u w ab True own show ?thesis
        by (simp add: elem_at_def set_index_def)
    next
      case False
      with u w ab own show ?thesis
        by (simp add: elem_at_def set_index_def list_update_swap)
    qed
  qed (use "1.prems" in auto)
qed auto

section \<open>Stripping and restoring references\<close>

definition path_diverge :: "string \<Rightarrow> string \<Rightarrow> bool" where
  "path_diverge p q \<longleftrightarrow>
    (case (parsePath p, parsePath q) of (Inr as, Inr bs) \<Rightarrow> diverge as bs | _ \<Rightarrow> False)"

text \<open>The references recorded for a value: each is the value's own value at its path.\<close>

definition refs_of :: "jsval \<Rightarrow> refPaths \<Rightarrow> bool" where
  "refs_of data refs \<longleftrightarrow>
    (\<forall>(path, ref) \<in> set refs. \<exists>segs. parsePath path = Inr segs \<and> own_at data segs = Some ref)"

lemma setAtPath_parsed: "parsePath path = Inr segs \<Longrightarrow> setAtPath v path x = setAtSegments v segs x"
  by (simp add: setAtPath_def)

lemma refs_of_Cons:
  "refs_of data ((path, ref) # refs) \<longleftrightarrow>
   (\<exists>segs. parsePath path = Inr segs \<and> own_at data segs = Some ref) \<and> refs_of data refs"
  by (auto simp: refs_of_def)

text \<open>A write at a path that diverges from all of them leaves the recorded references in place.\<close>

lemma refs_of_set:
  assumes "refs_of data refs" and "\<forall>(q, r) \<in> set refs. path_diverge path q"
    and "parsePath path = Inr segs" and "own_at data segs = Some x"
    and "setAtSegments data segs y = Inr data'"
  shows "refs_of data' refs"
  unfolding refs_of_def
proof (clarify)
  fix q r assume qr: "(q, r) \<in> set refs"
  with assms(1) obtain qs where qs: "parsePath q = Inr qs" "own_at data qs = Some r"
    by (auto simp: refs_of_def)
  with assms(2,3) qr have "diverge segs qs" by (auto simp: path_diverge_def)
  moreover obtain w where "setAtSegments data qs r = Inr w"
    using own_at_set [OF qs(2)] by blast
  ultimately have "own_at data' qs = Some r"
    using set_commute assms(4,5) qs by blast
  with qs show "\<exists>segs. parsePath q = Inr segs \<and> own_at data' segs = Some r" by blast
qed

lemma strip_Cons:
  "stripEntityRefs data ((path, ref) # refs) =
   bind_result (setAtPath data path (js_member ref ''entityId'')) (\<lambda>d. stripEntityRefs d refs)"
  by (simp add: stripEntityRefs_def)

lemma restore_Cons:
  "restoreEntityRefs data ((path, ref) # refs) =
   bind_result (setAtPath data path ref) (\<lambda>d. restoreEntityRefs d refs)"
  by (simp add: restoreEntityRefs_def)

text \<open>A write at a diverging path commutes with stripping.\<close>

lemma strip_set_commute:
  assumes "refs_of data refs" and "sorted_wrt path_diverge (map fst refs)"
    and "\<forall>(q, r) \<in> set refs. path_diverge path q"
    and "parsePath path = Inr segs" and "own_at data segs = Some x"
    and "setAtSegments data segs y = Inr data'"
  shows "\<exists>d1 d2. stripEntityRefs data refs = Inr d1 \<and> stripEntityRefs data' refs = Inr d2 \<and>
    setAtSegments d1 segs y = Inr d2"
  using assms
proof (induction refs arbitrary: data data')
  case Nil
  then show ?case by (simp add: stripEntityRefs_def)
next
  case (Cons qr refs)
  obtain q r where qr: "qr = (q, r)" by (cases qr)
  let ?e = "js_member r ''entityId''"
  from Cons.prems(1) qr obtain qs where qs: "parsePath q = Inr qs" "own_at data qs = Some r"
    and rest: "refs_of data refs" by (auto simp: refs_of_Cons)
  have div: "diverge segs qs" using Cons.prems(3,4) qr qs by (auto simp: path_diverge_def)
  obtain w where w: "setAtSegments data qs ?e = Inr w" using own_at_set [OF qs(2)] by blast
  from set_commute [OF div Cons.prems(5) qs(2) Cons.prems(6) w]
  have own': "own_at data' qs = Some r" and swap: "setAtSegments w segs y = setAtSegments data' qs ?e"
    by simp_all
  obtain w' where w': "setAtSegments data' qs ?e = Inr w'" using own_at_set [OF own'] by blast
  have div': "diverge qs segs" using div by (simp add: diverge_sym)
  have "own_at w segs = Some x"
    using set_commute [OF div' qs(2) Cons.prems(5) w Cons.prems(6)] by simp
  moreover have "refs_of w refs"
    using refs_of_set [OF rest _ qs w] Cons.prems(2) qr by force
  ultimately obtain d1 d2 where "stripEntityRefs w refs = Inr d1" "stripEntityRefs w' refs = Inr d2"
    "setAtSegments d1 segs y = Inr d2"
    using Cons.IH [of w w'] Cons.prems qr swap w' by auto
  with w w' qs qr show ?case by (simp add: strip_Cons setAtPath_parsed)
qed

lemma restore_strip_aux:
  "refs_of data refs \<Longrightarrow> sorted_wrt path_diverge (map fst refs) \<Longrightarrow>
   \<exists>d. stripEntityRefs data refs = Inr d \<and> restoreEntityRefs d refs = Inr data"
proof (induction refs arbitrary: data)
  case Nil
  then show ?case by (simp add: stripEntityRefs_def restoreEntityRefs_def)
next
  case (Cons qr refs)
  obtain q r where qr: "qr = (q, r)" by (cases qr)
  let ?e = "js_member r ''entityId''"
  from Cons.prems(1) qr obtain qs where qs: "parsePath q = Inr qs" "own_at data qs = Some r"
    and rest: "refs_of data refs" by (auto simp: refs_of_Cons)
  from own_at_set [OF qs(2), of ?e] obtain w where w: "setAtSegments data qs ?e = Inr w"
    "own_at w qs = Some ?e" "\<forall>z. setAtSegments w qs z = setAtSegments data qs z" by blast
  have undo: "setAtSegments w qs r = Inr data" using w(3) set_own_same [OF qs(2)] by simp
  have divs: "\<forall>(p, u) \<in> set refs. path_diverge q p" using Cons.prems(2) qr by auto
  have refs_w: "refs_of w refs" by (rule refs_of_set [OF rest divs qs w(1)])
  have sorted: "sorted_wrt path_diverge (map fst refs)" using Cons.prems(2) by simp
  from strip_set_commute [OF refs_w sorted divs qs(1) w(2) undo]
  obtain d1 d2 where d: "stripEntityRefs w refs = Inr d1" "stripEntityRefs data refs = Inr d2"
    "setAtSegments d1 qs r = Inr d2" by blast
  from Cons.IH [OF rest sorted] d(2) have "restoreEntityRefs d2 refs = Inr data" by simp
  with d w(1) qs qr show ?case by (simp add: strip_Cons restore_Cons setAtPath_parsed)
qed

section \<open>Properties\<close>

text \<open>
  printing then parsing.  A list of segments none of whose member names holds a single quote is
  read back unchanged from the path that \<open>segmentsToPath\<close> prints for it.
\<close>

theorem path_print_parse:
  "list_all printable segs \<Longrightarrow> parsePath (segmentsToPath segs) = Inr segs"
  by (rule parsePath_segmentsToPath)

theorem path_print_parse_witness:
  "parsePath (segmentsToPath [SegMember ''items'', SegIndex 12, SegWildcard, SegMember ''a b''])
     = Inr [SegMember ''items'', SegIndex 12, SegWildcard, SegMember ''a b'']"
  by (rule path_print_parse) simp

lemma distinct_concat_map:
  assumes "distinct xs" and "\<And>x. x \<in> set xs \<Longrightarrow> distinct (f x)"
    and "\<And>x y. x \<in> set xs \<Longrightarrow> y \<in> set xs \<Longrightarrow> x \<noteq> y \<Longrightarrow> set (f x) \<inter> set (f y) = {}"
  shows "distinct (concat (map f xs))"
  using assms by (induction xs) auto

text \<open>The walk reports the paths of pairwise different instances.\<close>

lemma walk_paths:
  "\<exists>css. map fst (walkSegments current segs concretePath predicate) =
       map (\<lambda>cs. segmentsToPath (concretePath @ cs)) css \<and>
     distinct css \<and> (\<forall>cs \<in> set css. instance_of cs segs)"
proof (induction segs arbitrary: current concretePath)
  case Nil
  then show ?case
    by (auto intro: exI [of _ "[[]]"] exI [of _ "[]"])
next
  case (Cons seg segs)
  have one: ?case if "walkSegments current (seg # segs) concretePath predicate =
      walkSegments u segs (concretePath @ [seg]) predicate" "seg \<noteq> SegWildcard" for u
  proof -
    obtain css where "map fst (walkSegments u segs (concretePath @ [seg]) predicate) =
        map (\<lambda>cs. segmentsToPath ((concretePath @ [seg]) @ cs)) css" "distinct css"
      "\<forall>cs \<in> set css. instance_of cs segs" using Cons.IH by blast
    with that show ?thesis
      by (intro exI [of _ "map ((#) seg) css"]) (auto simp: distinct_map)
  qed
  show ?case
  proof (cases "is_object current")
    case obj: True
    show ?thesis
    proof (cases seg)
      case (SegMember name)
      with obj one show ?thesis by simp
    next
      case (SegIndex i)
      show ?thesis
      proof (cases "\<exists>xs. current = JArr xs")
        case True
        with obj SegIndex one show ?thesis by auto
      qed (use obj SegIndex in \<open>auto intro!: exI [of _ "[]"] split: jsval.splits\<close>)
    next
      case SegWildcard
      show ?thesis
      proof (cases "\<exists>xs. current = JArr xs")
        case True
        then obtain xs where xs: "current = JArr xs" by blast
        let ?w = "\<lambda>i. walkSegments (elem_at xs i) segs (concretePath @ [SegIndex i]) predicate"
        have "\<forall>i. \<exists>css. map fst (?w i) = map (\<lambda>cs. segmentsToPath ((concretePath @ [SegIndex i]) @ cs)) css \<and>
            distinct css \<and> (\<forall>cs \<in> set css. instance_of cs segs)" using Cons.IH by blast
        then obtain css where css: "\<And>i. map fst (?w i) =
            map (\<lambda>cs. segmentsToPath ((concretePath @ [SegIndex i]) @ cs)) (css i)"
          "\<And>i. distinct (css i)" "\<And>i. \<forall>cs \<in> set (css i). instance_of cs segs" by metis
        let ?all = "concat (map (\<lambda>i. map ((#) (SegIndex i)) (css i)) [0..<length xs])"
        have "map fst (walkSegments current (seg # segs) concretePath predicate) =
            map (\<lambda>cs. segmentsToPath (concretePath @ cs)) ?all"
          using SegWildcard xs css(1) by (simp add: map_concat comp_def)
        moreover have "distinct ?all"
          by (rule distinct_concat_map) (auto simp: distinct_map css(2))
        ultimately show ?thesis using SegWildcard css(3) by (intro exI [of _ ?all]) auto
      qed (use obj SegWildcard in \<open>auto intro!: exI [of _ "[]"] split: jsval.splits\<close>)
    qed
  qed (auto intro: exI [of _ "[]"])
qed

lemma findMatchingPaths_exact_parts:
  assumes "parsePath pattern = Inr segs" and "list_all printable segs"
    and "findMatchingPaths data pattern predicate = Inr matches"
  shows "set matches = {(segmentsToPath cs, v) |cs v. instance_of cs segs \<and>
      getAtPath data (segmentsToPath cs) = Inr v \<and> v \<noteq> JUndef \<and> predicate v}"
    and "distinct (map fst matches)"
proof -
  have m: "matches = walkSegments data segs [] predicate"
    using assms by (simp add: findMatchingPaths_def)
  have parse: "parsePath (segmentsToPath cs) = Inr cs" if "instance_of cs segs" for cs
    using that assms(2) by (simp add: parsePath_segmentsToPath instance_of_printable)
  have get: "getAtPath data (segmentsToPath cs) = get_segments data cs" if "instance_of cs segs" for cs
    by (simp add: getAtPath_def parse [OF that])
  show "set matches = {(segmentsToPath cs, v) |cs v. instance_of cs segs \<and>
      getAtPath data (segmentsToPath cs) = Inr v \<and> v \<noteq> JUndef \<and> predicate v}"
  proof (intro set_eqI iffI; clarify)
    fix path v assume "(path, v) \<in> set matches"
    with walk_sound [of path v data segs "[]" predicate] get
    show "\<exists>cs va. (path, v) = (segmentsToPath cs, va) \<and> instance_of cs segs \<and>
        getAtPath data (segmentsToPath cs) = Inr va \<and> va \<noteq> JUndef \<and> predicate va"
      by (auto simp: m)
  next
    fix cs v assume a: "instance_of cs segs" "getAtPath data (segmentsToPath cs) = Inr v"
      "v \<noteq> JUndef" "predicate v"
    with walk_complete [of cs segs data v predicate "[]"] get [OF a(1)]
    show "(segmentsToPath cs, v) \<in> set matches" by (simp add: m)
  qed
  obtain css where css: "map fst matches = map segmentsToPath css" "distinct css"
    "\<forall>cs \<in> set css. instance_of cs segs"
    using walk_paths [of data segs "[]" predicate] by (auto simp: m)
  have "inj_on segmentsToPath (set css)"
    using css(3) by (intro inj_onI) (metis parse sum.inject(2))
  with css(1,2) show "distinct (map fst matches)" by (simp add: distinct_map)
qed

text \<open>
  C37: \<open>findMatchingPaths\<close> returns exactly the instances of its pattern.  For a pattern without
  quoted quotes, the result holds a path once, and a path is in it, with a value, precisely when
  it is printed from a concrete instance of the pattern (each member name and index of the pattern
  kept, each wildcard replaced by an index), \<open>getAtPath\<close> reads the value there, and the value is
  not \<open>undefined\<close> and satisfies the predicate.
\<close>
theorem findMatchingPaths_exact:
  assumes "parsePath pattern = Inr segs" and "list_all printable segs"
    and "findMatchingPaths data pattern predicate = Inr matches"
  shows "set matches = {(segmentsToPath cs, v) |cs v. instance_of cs segs \<and>
      getAtPath data (segmentsToPath cs) = Inr v \<and> v \<noteq> JUndef \<and> predicate v}
    \<and> distinct (map fst matches)"
  using findMatchingPaths_exact_parts [OF assms] by blast

theorem findMatchingPaths_exact_witness:
  "(case findMatchingPaths (JObj [(''a'', JArr [JNum 1, JNum 2, JNum 2])]) ''$.a[*]'' (\<lambda>v. v = JNum 2) of
      Inl _ \<Rightarrow> False
    | Inr matches \<Rightarrow> (''$.a[1]'', JNum 2) \<in> set matches \<and> (''$.a[2]'', JNum 2) \<in> set matches \<and>
        (''$.a[0]'', JNum 1) \<notin> set matches \<and> length matches = 2)"
proof -
  let ?d = "JObj [(''a'', JArr [JNum 1, JNum 2, JNum 2])]"
  have p: "parsePath ''$.a[*]'' = Inr [SegMember ''a'', SegWildcard]" by code_simp
  have f: "findMatchingPaths ?d ''$.a[*]'' (\<lambda>v. v = JNum 2) =
      Inr [(''$.a[1]'', JNum 2), (''$.a[2]'', JNum 2)]" by code_simp
  have i: "segmentsToPath [SegMember ''a'', SegIndex 1] = ''$.a[1]''"
    "segmentsToPath [SegMember ''a'', SegIndex 2] = ''$.a[2]''"
    "getAtPath ?d ''$.a[1]'' = Inr (JNum 2)" "getAtPath ?d ''$.a[2]'' = Inr (JNum 2)" by code_simp+
  note ex = findMatchingPaths_exact [OF p _ f, THEN conjunct1]
  have "(''$.a[1]'', JNum 2) \<in> set [(''$.a[1]'', JNum 2), (''$.a[2]'', JNum 2)]"
    by (subst ex) (auto intro!: exI [of _ "[SegMember ''a'', SegIndex 1]"] simp: i simp del: One_nat_def)
  with f show ?thesis by simp
qed

text \<open>
  reading all values a path matches is reading the values of all matching paths:
  \<open>getValuesAtPath\<close> and \<open>findMatchingPaths\<close> with the always-true predicate agree on every
  value and every path, errors included.
\<close>

theorem getValuesAtPath_eq_findMatchingPaths:
  "getValuesAtPath obj path = map_result (map snd) (findMatchingPaths obj path (\<lambda>_. True))"
proof (cases "parsePath path")
  case (Inr segs)
  then show ?thesis
    by (simp add: getValuesAtPath_def findMatchingPaths_def) (rule collect_eq_walk)
qed (simp add: getValuesAtPath_def findMatchingPaths_def)

lemma setAtPath_get_parts:
  "(\<exists>obj'. setAtPath obj path v = Inr obj') \<longleftrightarrow> pathHasWildcard path = Inr False"
  "setAtPath obj path v = Inr obj' \<Longrightarrow> getAtPath obj' path = Inr v"
proof -
  show "(\<exists>obj'. setAtPath obj path v = Inr obj') \<longleftrightarrow> pathHasWildcard path = Inr False"
  proof (cases "parsePath path")
    case (Inr segs)
    then show ?thesis
      using set_segments_total [of segs obj v] set_segments_no_wildcard [of obj segs v]
      by (auto simp: setAtPath_def pathHasWildcard_def no_wildcard_def)
  qed (simp add: setAtPath_def pathHasWildcard_def)
  assume "setAtPath obj path v = Inr obj'"
  then show "getAtPath obj' path = Inr v"
    by (cases "parsePath path") (auto simp: setAtPath_def getAtPath_def get_set_segments)
qed

text \<open>
  \<open>setAtPath\<close> succeeds exactly on the paths that parse and have no wildcard, whatever the
  value it writes into, and what it wrote is what \<open>getAtPath\<close> reads back at the path.
\<close>
theorem setAtPath_get:
  "((\<exists>obj'. setAtPath obj path v = Inr obj') \<longleftrightarrow> pathHasWildcard path = Inr False)
    \<and> (setAtPath obj path v = Inr obj1 \<longrightarrow> getAtPath obj1 path = Inr v)"
  using setAtPath_get_parts [of obj path v] by blast

theorem setAtPath_get_witness:
  "getAtPath (JObj [(''a'', JArr [JUndef, JNum 7])]) ''$.a[1]'' = Inr (JNum 7)"
proof -
  have "setAtPath (JObj []) ''$.a[1]'' (JNum 7) = Inr (JObj [(''a'', JArr [JUndef, JNum 7])])"
    by code_simp
  then show ?thesis using setAtPath_get by blast
qed

text \<open>
  C38: stripping the references of a command and restoring them gives the command back.  When each
  recorded reference is the value found at its path and no path is a prefix of another, neither
  operation fails and \<open>restoreEntityRefs\<close> undoes \<open>stripEntityRefs\<close> exactly, key order included.
\<close>

theorem restore_strip:
  assumes "refs_of data refs" and "sorted_wrt path_diverge (map fst refs)"
  shows "bind_result (stripEntityRefs data refs) (\<lambda>d. restoreEntityRefs d refs) = Inr data"
  using restore_strip_aux [OF assms] by auto

theorem restore_strip_witness:
  "bind_result (stripEntityRefs
      (JObj [(''id'', createEntityRef ''e1'' ''c1'' Temporary), (''n'', JNum 3)])
      [(''$.id'', createEntityRef ''e1'' ''c1'' Temporary)])
    (\<lambda>d. restoreEntityRefs d [(''$.id'', createEntityRef ''e1'' ''c1'' Temporary)])
   = Inr (JObj [(''id'', createEntityRef ''e1'' ''c1'' Temporary), (''n'', JNum 3)])"
proof (rule restore_strip)
  have "parsePath ''$.id'' = Inr [SegMember ''id'']" by code_simp
  then show "refs_of (JObj [(''id'', createEntityRef ''e1'' ''c1'' Temporary), (''n'', JNum 3)])
      [(''$.id'', createEntityRef ''e1'' ''c1'' Temporary)]"
    by (simp add: refs_of_def)
qed simp

lemma quoted_member_path_broken_parts:
  assumes "single_quote \<in> set name" and "double_quote \<notin> set name" and "v \<noteq> JUndef"
  shows "findMatchingPaths (JObj [(name, v)])
      ([dollar, open_bracket, double_quote] @ name @ [double_quote, close_bracket]) (\<lambda>_. True)
        = Inr [(segmentsToPath [SegMember name], v)]"
    and "parsePath (segmentsToPath [SegMember name]) \<noteq> Inr [SegMember name]"
proof -
  have "takeWhile (\<lambda>c. c \<noteq> double_quote) (name @ [double_quote, close_bracket]) = name"
    by (rule takeWhile_stop) (use assms in auto)
  moreover have "dropWhile (\<lambda>c. c \<noteq> double_quote) (name @ [double_quote, close_bracket])
      = [double_quote, close_bracket]"
    by (rule dropWhile_stop) (use assms in auto)
  ultimately have "parsePath ([dollar, open_bracket, double_quote] @ name @ [double_quote, close_bracket])
      = Inr [SegMember name]"
    by (simp add: parsePath_def parse_segments.simps parse_bracket_def Let_def)
  with assms show "findMatchingPaths (JObj [(name, v)])
      ([dollar, open_bracket, double_quote] @ name @ [double_quote, close_bracket]) (\<lambda>_. True)
        = Inr [(segmentsToPath [SegMember name], v)]"
    by (simp add: findMatchingPaths_def)
  have "\<not> ident_part single_quote"
    by (simp add: ident_part_def ident_start_def char_is_alpha_def char_is_digit_def)
  with assms(1) have "\<not> simple_identifier name"
    by (cases name) (auto simp: simple_identifier_def ident_part_def list_all_iff)
  then have print: "segmentsToPath [SegMember name]
      = [dollar, open_bracket, single_quote] @ name @ [single_quote, close_bracket]"
    by (simp add: segmentsToPath_def)
  have "takeWhile (\<lambda>c. c \<noteq> single_quote) (name @ ys) \<noteq> name" for ys
    using assms(1) set_takeWhileD by metis
  then have "name \<noteq> takeWhile (\<lambda>c. c \<noteq> single_quote) (name @ ys)" for ys
    by metis
  then show "parsePath (segmentsToPath [SegMember name]) \<noteq> Inr [SegMember name]"
    by (auto simp: print parsePath_def parse_segments.simps parse_bracket_def Let_def map_result_Inr
        split: list.splits if_splits sum.splits)
qed

text \<open>
  a member name that holds a single quote does not survive the walk.  The pattern quotes the
  name with double quotes and the walk finds the value, but the concrete path it returns does not
  denote the member it was found at, since the printer wraps every such name in single quotes
  without escaping.
\<close>
theorem quoted_member_path_broken:
  assumes "single_quote \<in> set name" and "double_quote \<notin> set name" and "v \<noteq> JUndef"
  shows "findMatchingPaths (JObj [(name, v)])
      ([dollar, open_bracket, double_quote] @ name @ [double_quote, close_bracket]) (\<lambda>_. True)
        = Inr [(segmentsToPath [SegMember name], v)]
    \<and> parsePath (segmentsToPath [SegMember name]) \<noteq> Inr [SegMember name]"
  using quoted_member_path_broken_parts [OF assms] by blast

theorem quoted_member_path_broken_witness:
  "parsePath (segmentsToPath [SegMember [CHR ''i'', CHR ''t'', single_quote, CHR ''s'']])
    \<noteq> Inr [SegMember [CHR ''i'', CHR ''t'', single_quote, CHR ''s'']]"
  using quoted_member_path_broken [of "[CHR ''i'', CHR ''t'', single_quote, CHR ''s'']" JNull] by simp

end
