(* ===== verification/EntityRefs.thy ===== *)
theory EntityRefs
  imports RefPath
begin

text \<open>
  Id references of commands: aggregates and their link matchers
  (\<^verbatim>\<open>packages/client/src/types/aggregates.ts\<close>), and the three walks over declared id paths in
  \<^verbatim>\<open>packages/client/src/core/entity-ref/\<close>: \<^verbatim>\<open>extract-aggregate-id.ts\<close>, \<^verbatim>\<open>rewrite-command.ts\<close> and
  \<^verbatim>\<open>resolve-command-ids.ts\<close>.

  An aggregate is a \<open>ClientAggregate\<close>, the only implementation of \<open>AggregateConfig\<close> in the
  repository: its \<open>service\<close> property is always present and may be \<open>undefined\<close>.  The mapping store
  that \<open>resolveCommandIds\<close> consults is the argument \<open>lookup\<close>, the server id it holds for a client
  id.
\<close>

section \<open>Aggregates and links\<close>

record aggregateConfig =
  agg_service :: "string option"
  agg_type :: string
  agg_getStreamId :: "jsval \<Rightarrow> string"

definition opt_str :: "string option \<Rightarrow> jsval" where
  "opt_str s = (case s of None \<Rightarrow> JUndef | Some x \<Rightarrow> JStr x)"

definition getLinkMatcher :: "aggregateConfig \<Rightarrow> jsval" where
  "getLinkMatcher agg =
    (case agg_service agg of
       Some s \<Rightarrow> if s = [] then JObj [(''type'', JStr (agg_type agg))]
         else JObj [(''service'', JStr s), (''type'', JStr (agg_type agg))]
     | None \<Rightarrow> JObj [(''type'', JStr (agg_type agg))])"

definition matchesAggregate :: "jsval \<Rightarrow> aggregateConfig \<Rightarrow> bool" where
  "matchesAggregate link agg =
    (if js_member link ''service'' \<noteq> opt_str (agg_service agg) then False
     else JStr (agg_type agg) = js_member link ''type'')"

definition isEntityIdLink :: "jsval \<Rightarrow> bool" where
  "isEntityIdLink v =
    (if \<not> is_object v then False
     else if \<not> is_string (js_member v ''type'') then False
     else if \<not> is_string (js_member v ''id'') \<and> \<not> isEntityRef (js_member v ''id'') then False
     else if js_member v ''service'' \<noteq> JUndef \<and> \<not> is_string (js_member v ''service'') then False
     else True)"

datatype idReference =
    DirectIdReference aggregateConfig string
  | LinkIdReference "aggregateConfig list" string

section \<open>Extracting the id of an aggregate\<close>

definition link_to :: "aggregateConfig \<Rightarrow> jsval \<Rightarrow> bool" where
  "link_to agg v \<longleftrightarrow> isEntityIdLink v \<and> matchesAggregate v agg"

text \<open>The result \<open>None\<close> is \<open>undefined\<close>; the id read from a malformed reference may be any value.\<close>

fun extract_from_refs ::
  "jsval \<Rightarrow> aggregateConfig \<Rightarrow> idReference list \<Rightarrow> pathError + jsval option" where
  "extract_from_refs view target [] = Inr None"
| "extract_from_refs view target (DirectIdReference agg path # refs) =
    (if \<not> matchesAggregate (getLinkMatcher agg) target then extract_from_refs view target refs
     else bind_result (findMatchingPaths view path isEntityId) (\<lambda>matches.
       case matches of
         match # _ \<Rightarrow> Inr (Some (entityIdToString (snd match)))
       | [] \<Rightarrow> extract_from_refs view target refs))"
| "extract_from_refs view target (LinkIdReference aggs path # refs) =
    (if \<not> (\<exists>a \<in> set aggs. matchesAggregate (getLinkMatcher a) target)
     then extract_from_refs view target refs
     else bind_result (findMatchingPaths view path (link_to target)) (\<lambda>matches.
       case matches of
         match # _ \<Rightarrow> Inr (Some (entityIdToString (js_member (snd match) ''id'')))
       | [] \<Rightarrow> extract_from_refs view target refs))"

definition extractAggregateId ::
  "jsval \<Rightarrow> jsval \<Rightarrow> idReference list \<Rightarrow> aggregateConfig \<Rightarrow> pathError + jsval option" where
  "extractAggregateId data path idReferences targetAggregate =
    extract_from_refs (JObj [(''data'', data), (''path'', path)]) targetAggregate idReferences"

datatype extractError = PathFailure pathError | NoAggregateDeclared string

definition extractPrimaryAggregateId ::
  "jsval \<Rightarrow> jsval \<Rightarrow> string \<Rightarrow> aggregateConfig option \<Rightarrow> idReference list \<Rightarrow> extractError + jsval option"
where
  "extractPrimaryAggregateId data path commandType aggregate commandIdReferences =
    (case aggregate of
       None \<Rightarrow> Inl (NoAggregateDeclared commandType)
     | Some primary \<Rightarrow>
         (case extractAggregateId data path commandIdReferences primary of
            Inl e \<Rightarrow> Inl (PathFailure e)
          | Inr r \<Rightarrow> Inr r))"

section \<open>Rewriting a command with resolved ids\<close>

record rewriteIdEntry =
  entry_clientId :: string
  entry_serverId :: string
  entry_aggregate :: aggregateConfig

text \<open>The command surface a walk works on, with whether it was written to.\<close>

type_synonym viewState = "jsval \<times> bool"

definition write_at :: "string \<Rightarrow> jsval \<Rightarrow> viewState \<Rightarrow> pathError + viewState" where
  "write_at path v st = map_result (\<lambda>view. (view, True)) (setAtPath (fst st) path v)"

definition rewrite_direct ::
  "rewriteIdEntry \<Rightarrow> aggregateConfig \<Rightarrow> string \<Rightarrow> viewState \<Rightarrow> pathError + viewState" where
  "rewrite_direct entry agg path st =
    (if \<not> matchesAggregate (getLinkMatcher agg) (entry_aggregate entry) then Inr st
     else bind_result
       (findMatchingPaths (fst st) path (\<lambda>v. entityIdToString v = JStr (entry_clientId entry)))
       (\<lambda>matches.
         fold_result (\<lambda>(p, v). write_at p (JStr (entry_serverId entry))) matches st))"

definition rewrite_link ::
  "rewriteIdEntry \<Rightarrow> aggregateConfig list \<Rightarrow> string \<Rightarrow> viewState \<Rightarrow> pathError + viewState" where
  "rewrite_link entry aggs path st =
    (if \<not> (\<exists>a \<in> set aggs. matchesAggregate (getLinkMatcher a) (entry_aggregate entry)) then Inr st
     else bind_result
       (findMatchingPaths (fst st) path
         (\<lambda>v. isEntityIdLink v \<and> matchesAggregate v (entry_aggregate entry) \<and>
              entityIdToString (js_member v ''id'') = JStr (entry_clientId entry)))
       (\<lambda>matches.
         fold_result (\<lambda>(p, v). write_at p (spread_set v ''id'' (JStr (entry_serverId entry)))) matches st))"

fun rewrite_ref :: "rewriteIdEntry \<Rightarrow> idReference \<Rightarrow> viewState \<Rightarrow> pathError + viewState" where
  "rewrite_ref entry (DirectIdReference agg path) st = rewrite_direct entry agg path st"
| "rewrite_ref entry (LinkIdReference aggs path) st = rewrite_link entry aggs path st"

record commandSurface =
  surf_data :: jsval
  surf_path :: jsval
  surf_headers :: jsval
  surf_commandIdPaths :: "refPaths option"
  surf_changed :: bool

definition prune_paths :: "rewriteIdEntry list \<Rightarrow> refPaths \<Rightarrow> refPaths option" where
  "prune_paths entries paths =
    (let resolvedIds = map (\<lambda>e. JStr (entry_clientId e)) entries;
         kept = filter (\<lambda>(p, ref). js_member ref ''entityId'' \<notin> set resolvedIds) paths
     in if kept \<noteq> [] then Some kept else None)"

definition rewriteCommandWithIdMap ::
  "jsval \<Rightarrow> jsval \<Rightarrow> jsval \<Rightarrow> refPaths option \<Rightarrow> rewriteIdEntry list \<Rightarrow> idReference list
   \<Rightarrow> pathError + commandSurface" where
  "rewriteCommandWithIdMap data path headers commandIdPaths entries idReferences =
    (if entries = [] \<or> idReferences = [] then
       Inr \<lparr>surf_data = data, surf_path = path, surf_headers = headers,
            surf_commandIdPaths = commandIdPaths, surf_changed = False\<rparr>
     else map_result (\<lambda>(view, changed).
         \<lparr>surf_data = js_member view ''data'', surf_path = js_member view ''path'',
          surf_headers = js_member view ''headers'',
          surf_commandIdPaths =
            (case commandIdPaths of
               Some paths \<Rightarrow> if changed then prune_paths entries paths else Some paths
             | None \<Rightarrow> None),
          surf_changed = changed\<rparr>)
       (fold_result (\<lambda>entry. fold_result (rewrite_ref entry) idReferences) entries
         (command_view data path headers, False)))"

section \<open>Resolving the ids of a command against the mapping store\<close>

type_synonym resolveState = "jsval \<times> refPaths \<times> bool"

definition lookup_id :: "(string \<Rightarrow> string option) \<Rightarrow> jsval \<Rightarrow> string option" where
  "lookup_id lookup clientId = (case clientId of JStr c \<Rightarrow> lookup c | _ \<Rightarrow> None)"

definition resolves_to :: "(string \<Rightarrow> string option) \<Rightarrow> jsval \<Rightarrow> string option" where
  "resolves_to lookup clientId =
    (case lookup_id lookup clientId of
       Some serverId \<Rightarrow> if JStr serverId \<noteq> clientId then Some serverId else None
     | None \<Rightarrow> None)"

fun resolve_direct_match ::
  "(string \<Rightarrow> string option) \<Rightarrow> string \<times> jsval \<Rightarrow> resolveState \<Rightarrow> pathError + resolveState" where
  "resolve_direct_match lookup (p, v) (view, paths, changed) =
    (case resolves_to lookup (entityIdToString v) of
       Some serverId \<Rightarrow>
         map_result (\<lambda>view'. (view', paths, True)) (setAtPath view p (JStr serverId))
     | None \<Rightarrow>
         if isEntityRef v then Inr (view, map_set p v paths, changed)
         else Inr (view, paths, changed))"

fun resolve_link_match ::
  "(string \<Rightarrow> string option) \<Rightarrow> string \<times> jsval \<Rightarrow> resolveState \<Rightarrow> pathError + resolveState" where
  "resolve_link_match lookup (p, v) (view, paths, changed) =
    (case resolves_to lookup (entityIdToString (js_member v ''id'')) of
       Some serverId \<Rightarrow>
         map_result (\<lambda>view'. (view', paths, True))
           (setAtPath view p (spread_set v ''id'' (JStr serverId)))
     | None \<Rightarrow> Inr (view, paths, changed))"

fun resolve_ref ::
  "(string \<Rightarrow> string option) \<Rightarrow> idReference \<Rightarrow> resolveState \<Rightarrow> pathError + resolveState" where
  "resolve_ref lookup (DirectIdReference agg path) st =
    bind_result (findMatchingPaths (fst st) path isEntityId)
      (\<lambda>matches. fold_result (resolve_direct_match lookup) matches st)"
| "resolve_ref lookup (LinkIdReference aggs path) st =
    bind_result
      (findMatchingPaths (fst st) path
        (\<lambda>v. isEntityIdLink v \<and> (\<exists>agg \<in> set aggs. matchesAggregate v agg)))
      (\<lambda>matches. fold_result (resolve_link_match lookup) matches st)"

definition resolveCommandIds ::
  "jsval \<Rightarrow> jsval \<Rightarrow> jsval \<Rightarrow> idReference list \<Rightarrow> (string \<Rightarrow> string option)
   \<Rightarrow> pathError + commandSurface" where
  "resolveCommandIds data path headers idReferences lookup =
    map_result (\<lambda>(view, paths, changed).
        \<lparr>surf_data = js_member view ''data'', surf_path = js_member view ''path'',
         surf_headers = js_member view ''headers'',
         surf_commandIdPaths = (if paths \<noteq> [] then Some paths else None),
         surf_changed = changed\<rparr>)
      (fold_result (resolve_ref lookup) idReferences (command_view data path headers, [], False))"

section \<open>Facts about the walks\<close>

lemma write_at_changed: "write_at p v st = Inr st' \<Longrightarrow> snd st'"
  by (auto simp: write_at_def map_result_Inr)

lemma write_all_unchanged:
  assumes "fold_result (\<lambda>(p, v). write_at p (f v)) matches st = Inr st'" and "\<not> snd st'"
  shows "st' = st"
proof (cases matches rule: rev_cases)
  case Nil
  with assms show ?thesis by simp
next
  case (snoc ms m)
  with assms(1) obtain st1 where "(case m of (p, v) \<Rightarrow> write_at p (f v)) st1 = Inr st'"
    by (auto simp: fold_result_append bind_result_Inr)
  then have "snd st'" by (cases m) (auto dest: write_at_changed)
  with assms(2) show ?thesis by simp
qed

lemma rewrite_ref_unchanged:
  "rewrite_ref entry ref st = Inr st' \<Longrightarrow> \<not> snd st' \<Longrightarrow> st' = st"
  by (cases ref)
    (auto simp: rewrite_direct_def rewrite_link_def bind_result_Inr split: if_splits
      dest: write_all_unchanged [where f = "\<lambda>_. JStr (entry_serverId entry)"]
        write_all_unchanged [where f = "\<lambda>v. spread_set v ''id'' (JStr (entry_serverId entry))"])

lemma write_all_flag:
  assumes "fold_result (\<lambda>(p, v). write_at p (f v)) matches st = Inr st'" and "snd st"
  shows "snd st'"
  using assms(1,2) by (rule fold_result_invariant) (auto dest: write_at_changed)

lemma rewrite_ref_flag: "rewrite_ref entry ref st = Inr st' \<Longrightarrow> snd st \<Longrightarrow> snd st'"
  by (cases ref)
    (auto simp: rewrite_direct_def rewrite_link_def bind_result_Inr split: if_splits
      dest: write_all_flag [where f = "\<lambda>_. JStr (entry_serverId entry)"]
        write_all_flag [where f = "\<lambda>v. spread_set v ''id'' (JStr (entry_serverId entry))"])

text \<open>A loop whose body either leaves the state alone or raises the flag for good.\<close>

lemma flagged_loop:
  assumes unchanged: "\<And>x s s'. f x s = Inr s' \<Longrightarrow> \<not> snd s' \<Longrightarrow> s' = s"
    and flag: "\<And>x s s'. f x s = Inr s' \<Longrightarrow> snd s \<Longrightarrow> snd s'"
  shows "fold_result f xs st = Inr st' \<Longrightarrow> (snd st \<longrightarrow> snd st') \<and> (\<not> snd st' \<longrightarrow> st' = st)"
proof (induction xs arbitrary: st)
  case (Cons x xs)
  from Cons.prems obtain s1 where s1: "f x st = Inr s1" "fold_result f xs s1 = Inr st'"
    by (auto simp: bind_result_Inr)
  have later: "snd s1 \<longrightarrow> snd st'" "\<not> snd st' \<longrightarrow> st' = s1" using Cons.IH [OF s1(2)] by simp_all
  show ?case
  proof (intro conjI impI)
    assume "snd st" then show "snd st'" using flag [OF s1(1)] later(1) by simp
  next
    assume neg: "\<not> snd st'"
    with later(1) have "\<not> snd s1" by simp
    then have "s1 = st" by (rule unchanged [OF s1(1)])
    with neg later(2) show "st' = st" by simp
  qed
qed simp

lemma rewrite_loop:
  "fold_result (\<lambda>entry. fold_result (rewrite_ref entry) refs) entries st = Inr st' \<Longrightarrow>
   \<not> snd st' \<Longrightarrow> st' = st"
proof -
  have inner: "fold_result (rewrite_ref entry) refs s = Inr s' \<Longrightarrow>
      (snd s \<longrightarrow> snd s') \<and> (\<not> snd s' \<longrightarrow> s' = s)" for entry s s'
    by (rule flagged_loop [where f = "rewrite_ref entry"])
      (blast intro: rewrite_ref_unchanged rewrite_ref_flag)+
  assume "fold_result (\<lambda>entry. fold_result (rewrite_ref entry) refs) entries st = Inr st'"
    and "\<not> snd st'"
  then show ?thesis
    using flagged_loop [of "\<lambda>entry. fold_result (rewrite_ref entry) refs" entries st st'] inner
    by blast
qed

lemma js_member_command_view [simp]:
  "js_member (command_view d p h) ''data'' = d"
  "js_member (command_view d p h) ''path'' = p"
  "js_member (command_view d p h) ''headers'' = h"
  by (simp_all add: command_view_def)

lemma walk_filter:
  "walkSegments current segs concretePath (\<lambda>v. P v \<and> Q v)
    = filter (\<lambda>(p, v). Q v) (walkSegments current segs concretePath P)"
proof (induction segs arbitrary: current concretePath)
  case (Cons seg segs)
  then show ?case
    by (auto simp: filter_concat comp_def split: pathSegment.splits jsval.splits)
qed auto

lemma walk_EntityRef:
  "walkSegments current segs concretePath isEntityRef
    = filter (\<lambda>(p, v). isEntityRef v) (walkSegments current segs concretePath isEntityId)"
proof -
  have "isEntityRef = (\<lambda>v. isEntityId v \<and> isEntityRef v)"
    by (auto simp: isEntityId_def)
  then show ?thesis using walk_filter [of current segs concretePath isEntityId isEntityRef] by simp
qed

lemma resolve_direct_none:
  "fold_result (resolve_direct_match (\<lambda>_. None)) matches (view, paths, changed)
    = Inr (view, fold (\<lambda>(p, v). map_set p v) (filter (\<lambda>(p, v). isEntityRef v) matches) paths, changed)"
  by (induction matches arbitrary: paths)
    (auto simp: resolves_to_def lookup_id_def split: jsval.splits)

lemma resolve_link_none:
  "fold_result (resolve_link_match (\<lambda>_. None)) matches (view, paths, changed)
    = Inr (view, paths, changed)"
  by (induction matches) (auto simp: resolves_to_def lookup_id_def split: jsval.splits)

lemma case_matches_None:
  "bind_result r (\<lambda>ms. case ms of m # _ \<Rightarrow> Inr (Some (f m)) | [] \<Rightarrow> Inr None) = Inr None \<longleftrightarrow> r = Inr []"
proof (cases r)
  case (Inr ms)
  then show ?thesis by (cases ms) auto
qed simp

lemma extract_skip:
  assumes "extract_from_refs view target [ref] = Inr None"
  shows "extract_from_refs view target (ref # rs) = extract_from_refs view target rs"
  using assms by (cases ref) (auto simp: case_matches_None split: if_splits)

text \<open>What the resolution keeps of the paths it records as pending.\<close>

definition pending_ok :: "(string \<Rightarrow> string option) \<Rightarrow> resolveState \<Rightarrow> bool" where
  "pending_ok lookup st \<longleftrightarrow> (\<forall>(p, ref) \<in> set (fst (snd st)).
    isEntityRef ref \<and> resolves_to lookup (entityIdToString ref) = None)"

lemma resolve_direct_match_pending:
  "resolve_direct_match lookup m st = Inr st' \<Longrightarrow> pending_ok lookup st \<Longrightarrow> pending_ok lookup st'"
  by (cases m; cases st)
    (auto simp: pending_ok_def map_result_Inr split: option.splits if_splits dest!: map_set_mem)

lemma resolve_link_match_pending:
  "resolve_link_match lookup m st = Inr st' \<Longrightarrow> pending_ok lookup st \<Longrightarrow> pending_ok lookup st'"
  by (cases m; cases st) (auto simp: pending_ok_def map_result_Inr split: option.splits)

lemma resolve_ref_pending:
  assumes "resolve_ref lookup ref st = Inr st'" and "pending_ok lookup st"
  shows "pending_ok lookup st'"
proof (cases ref)
  case (DirectIdReference agg path)
  with assms(1) obtain ms where "fold_result (resolve_direct_match lookup) ms st = Inr st'"
    by (auto simp: bind_result_Inr)
  then show ?thesis
    using assms(2) by (rule fold_result_invariant) (rule resolve_direct_match_pending)
next
  case (LinkIdReference aggs path)
  with assms(1) obtain ms where "fold_result (resolve_link_match lookup) ms st = Inr st'"
    by (auto simp: bind_result_Inr)
  then show ?thesis
    using assms(2) by (rule fold_result_invariant) (rule resolve_link_match_pending)
qed

section \<open>Properties\<close>

text \<open>The paths a declaration list has direct references at.\<close>

fun direct_paths :: "idReference list \<Rightarrow> string list" where
  "direct_paths [] = []"
| "direct_paths (DirectIdReference agg path # refs) = path # direct_paths refs"
| "direct_paths (LinkIdReference aggs path # refs) = direct_paths refs"

fun link_paths :: "idReference list \<Rightarrow> string list" where
  "link_paths [] = []"
| "link_paths (DirectIdReference agg path # refs) = link_paths refs"
| "link_paths (LinkIdReference aggs path # refs) = path # link_paths refs"

lemma resolve_none_loop:
  assumes "\<forall>p \<in> set (link_paths refs). \<exists>segs. parsePath p = Inr segs"
  shows "fold_result (resolve_ref (\<lambda>_. None)) refs (view, paths, changed)
    = map_result (\<lambda>paths'. (view, paths', changed))
        (fold_result (\<lambda>pattern result.
            map_result (\<lambda>matches. fold (\<lambda>(path, v). map_set path v) matches result)
              (findMatchingPaths view pattern isEntityRef)) (direct_paths refs) paths)"
  using assms
proof (induction refs arbitrary: paths)
  case (Cons ref refs)
  show ?case
  proof (cases ref)
    case (DirectIdReference agg path)
    with Cons show ?thesis
      by (cases "parsePath path")
        (simp_all add: findMatchingPaths_def resolve_direct_none walk_EntityRef)
  next
    case (LinkIdReference aggs path)
    with Cons.prems obtain segs where "parsePath path = Inr segs" by auto
    with LinkIdReference Cons show ?thesis
      by (simp add: findMatchingPaths_def resolve_link_none)
  qed
qed simp

lemma rewrite_command_changed_parts:
  assumes "rewriteCommandWithIdMap data path headers paths entries refs = Inr r"
  shows "\<not> surf_changed r \<Longrightarrow>
      surf_data r = data \<and> surf_path r = path \<and> surf_headers r = headers \<and>
      surf_commandIdPaths r = paths"
    and "surf_changed r \<Longrightarrow> surf_commandIdPaths r = Some kept \<Longrightarrow>
      kept = filter (\<lambda>(p, ref). js_member ref ''entityId'' \<notin> (JStr \<circ> entry_clientId) ` set entries)
        (the paths)"
proof -
  have "(\<not> surf_changed r \<longrightarrow> surf_data r = data \<and> surf_path r = path \<and> surf_headers r = headers \<and>
      surf_commandIdPaths r = paths) \<and>
    (surf_changed r \<longrightarrow> surf_commandIdPaths r =
      (case paths of None \<Rightarrow> None | Some ps \<Rightarrow> prune_paths entries ps))"
  proof (cases "entries = [] \<or> refs = []")
    case True
    then show ?thesis using assms by (auto simp: rewriteCommandWithIdMap_def)
  next
    case False
    with assms obtain st where
      loop: "fold_result (\<lambda>entry. fold_result (rewrite_ref entry) refs) entries
        (command_view data path headers, False) = Inr st" and
      r: "r = \<lparr>surf_data = js_member (fst st) ''data'', surf_path = js_member (fst st) ''path'',
          surf_headers = js_member (fst st) ''headers'',
          surf_commandIdPaths =
            (case paths of Some ps \<Rightarrow> if snd st then prune_paths entries ps else Some ps
             | None \<Rightarrow> None),
          surf_changed = snd st\<rparr>"
      by (cases "fold_result (\<lambda>entry. fold_result (rewrite_ref entry) refs) entries
          (command_view data path headers, False)")
        (auto simp: rewriteCommandWithIdMap_def split_def)
    show ?thesis
    proof (cases "snd st")
      case False
      then have "st = (command_view data path headers, False)" by (rule rewrite_loop [OF loop])
      then show ?thesis using r by (auto split: option.splits)
    qed (auto simp: r split: option.splits)
  qed
  moreover have "kept = filter (\<lambda>(p, ref). js_member ref ''entityId'' \<notin> (JStr \<circ> entry_clientId) ` set entries) ps"
    if "prune_paths entries ps = Some kept" for ps
    using that by (auto simp: prune_paths_def Let_def image_comp split: if_splits)
  ultimately show "\<not> surf_changed r \<Longrightarrow>
      surf_data r = data \<and> surf_path r = path \<and> surf_headers r = headers \<and>
      surf_commandIdPaths r = paths"
    and "surf_changed r \<Longrightarrow> surf_commandIdPaths r = Some kept \<Longrightarrow>
      kept = filter (\<lambda>(p, ref). js_member ref ''entityId'' \<notin> (JStr \<circ> entry_clientId) ` set entries)
        (the paths)"
    by (auto split: option.splits)
qed

text \<open>
  rewriting a command reports truthfully whether it changed it.  When \<open>changed\<close> is false, the
  data, path, headers and recorded references are the ones passed in; when it is true, no
  recorded reference to one of the resolved client ids survives, and the others are kept in
  their order.
\<close>
theorem rewrite_command_changed:
  assumes "rewriteCommandWithIdMap data path headers paths entries refs = Inr r"
  shows "(\<not> surf_changed r \<longrightarrow>
      surf_data r = data \<and> surf_path r = path \<and> surf_headers r = headers \<and>
      surf_commandIdPaths r = paths)
    \<and> (surf_changed r \<and> surf_commandIdPaths r = Some kept \<longrightarrow>
      kept = filter (\<lambda>(p, ref). js_member ref ''entityId'' \<notin> (JStr \<circ> entry_clientId) ` set entries)
        (the paths))"
  using rewrite_command_changed_parts [OF assms] by blast

theorem rewrite_command_changed_witness:
  "\<exists>r. rewriteCommandWithIdMap (JObj [(''id'', JStr ''c9'')]) JUndef JUndef None
        [\<lparr>entry_clientId = ''c1'', entry_serverId = ''s1'',
          entry_aggregate = \<lparr>agg_service = None, agg_type = ''Todo'', agg_getStreamId = (\<lambda>_. [])\<rparr>\<rparr>]
        [DirectIdReference \<lparr>agg_service = None, agg_type = ''Todo'', agg_getStreamId = (\<lambda>_. [])\<rparr>
           ''$.data.id''] = Inr r \<and> surf_data r = JObj [(''id'', JStr ''c9'')]"
proof -
  let ?agg = "\<lparr>agg_service = None, agg_type = ''Todo'', agg_getStreamId = (\<lambda>_. [])\<rparr>"
  let ?e = "\<lparr>entry_clientId = ''c1'', entry_serverId = ''s1'', entry_aggregate = ?agg\<rparr>"
  have p: "parsePath ''$.data.id'' = Inr [SegMember ''data'', SegMember ''id'']" by code_simp
  have "\<exists>r. rewriteCommandWithIdMap (JObj [(''id'', JStr ''c9'')]) JUndef JUndef None [?e]
      [DirectIdReference ?agg ''$.data.id''] = Inr r \<and> \<not> surf_changed r"
    by (simp add: rewriteCommandWithIdMap_def rewrite_direct_def findMatchingPaths_def p command_view_def)
  then show ?thesis using rewrite_command_changed by blast
qed

lemma resolve_command_ids_pending_parts:
  assumes "resolveCommandIds data path headers refs lookup = Inr r"
  shows "surf_commandIdPaths r \<noteq> Some []"
    and "surf_commandIdPaths r = Some paths \<Longrightarrow> (p, ref) \<in> set paths \<Longrightarrow>
      isEntityRef ref \<and> resolves_to lookup (entityIdToString ref) = None"
proof -
  obtain st where st: "fold_result (resolve_ref lookup) refs (command_view data path headers, [], False)
      = Inr st" and r: "surf_commandIdPaths r = (if fst (snd st) \<noteq> [] then Some (fst (snd st)) else None)"
    using assms by (auto simp: resolveCommandIds_def map_result_Inr)
  have "pending_ok lookup st"
    by (rule fold_result_invariant [OF st]) (auto simp: pending_ok_def [of _ "(_, [], _)"] resolve_ref_pending)
  then show "surf_commandIdPaths r \<noteq> Some []"
    and "surf_commandIdPaths r = Some paths \<Longrightarrow> (p, ref) \<in> set paths \<Longrightarrow>
      isEntityRef ref \<and> resolves_to lookup (entityIdToString ref) = None"
    by (auto simp: r pending_ok_def split: if_splits)
qed

text \<open>
  what \<open>resolveCommandIds\<close> leaves pending is really pending: each recorded path holds an entity
  reference whose client id the mapping store does not map to a different server id, and the
  record is absent exactly when there is no such path.
\<close>
theorem resolve_command_ids_pending:
  assumes "resolveCommandIds data path headers refs lookup = Inr r"
  shows "surf_commandIdPaths r \<noteq> Some []
    \<and> (surf_commandIdPaths r = Some paths \<and> (p, ref) \<in> set paths \<longrightarrow>
      isEntityRef ref \<and> resolves_to lookup (entityIdToString ref) = None)"
  using resolve_command_ids_pending_parts [OF assms] by blast

theorem resolve_command_ids_pending_witness:
  "\<exists>r. resolveCommandIds (JObj [(''id'', createEntityRef ''e1'' ''c1'' Temporary)]) JUndef JUndef
        [DirectIdReference \<lparr>agg_service = None, agg_type = ''Todo'', agg_getStreamId = (\<lambda>_. [])\<rparr>
           ''$.data.id''] (\<lambda>_. None) = Inr r \<and>
      surf_commandIdPaths r = Some [(''$.data.id'', createEntityRef ''e1'' ''c1'' Temporary)] \<and>
      resolves_to (\<lambda>_. None) (entityIdToString (createEntityRef ''e1'' ''c1'' Temporary)) = None"
proof -
  let ?agg = "\<lparr>agg_service = None, agg_type = ''Todo'', agg_getStreamId = (\<lambda>_. [])\<rparr>"
  let ?ref = "createEntityRef ''e1'' ''c1'' Temporary"
  have p: "parsePath ''$.data.id'' = Inr [SegMember ''data'', SegMember ''id'']" by code_simp
  have q: "segmentsToPath [SegMember ''data'', SegMember ''id''] = ''$.data.id''" by code_simp
  have i: "isEntityId ?ref" by (simp add: isEntityId_def)
  obtain r where r: "resolveCommandIds (JObj [(''id'', ?ref)]) JUndef JUndef
      [DirectIdReference ?agg ''$.data.id''] (\<lambda>_. None) = Inr r"
    "surf_commandIdPaths r = Some [(''$.data.id'', ?ref)]"
    by (simp add: resolveCommandIds_def findMatchingPaths_def p q i command_view_def
        resolves_to_def lookup_id_def)
  with resolve_command_ids_pending [OF r(1), of "[(''$.data.id'', ?ref)]" "''$.data.id''" ?ref] show ?thesis by auto
qed

text \<open>
  the single-pass resolution replaces the two passes it stands for.  With no mapping to apply it
  returns the command surface unchanged together with exactly the references that
  \<open>extractCommandIdPaths\<close> finds at the directly declared paths, and fails exactly where that fails.
\<close>

theorem resolve_command_ids_extract:
  assumes "\<forall>p \<in> set (link_paths refs). \<exists>segs. parsePath p = Inr segs"
  shows "resolveCommandIds data path headers refs (\<lambda>_. None)
    = map_result (\<lambda>paths.
        \<lparr>surf_data = data, surf_path = path, surf_headers = headers,
         surf_commandIdPaths = (if paths \<noteq> [] then Some paths else None), surf_changed = False\<rparr>)
      (extractCommandIdPaths data path headers (direct_paths refs))"
  unfolding resolveCommandIds_def extractCommandIdPaths_def resolveRefPaths_def
    resolve_none_loop [OF assms]
  by (cases "fold_result (\<lambda>pattern result.
      map_result (\<lambda>matches. fold (\<lambda>(path, v). map_set path v) matches result)
        (findMatchingPaths (command_view data path headers) pattern isEntityRef))
      (direct_paths refs) []") simp_all

theorem resolve_command_ids_extract_witness:
  "resolveCommandIds JNull JNull JNull
      [LinkIdReference [] ''$.data.link'', DirectIdReference
        \<lparr>agg_service = None, agg_type = ''Todo'', agg_getStreamId = (\<lambda>_. [])\<rparr> ''$.data.id''] (\<lambda>_. None)
    = Inr \<lparr>surf_data = JNull, surf_path = JNull, surf_headers = JNull,
        surf_commandIdPaths = None, surf_changed = False\<rparr>"
proof -
  let ?refs = "[LinkIdReference [] ''$.data.link'', DirectIdReference
        \<lparr>agg_service = None, agg_type = ''Todo'', agg_getStreamId = (\<lambda>_. [])\<rparr> ''$.data.id'']"
  have "\<exists>segs. parsePath ''$.data.link'' = Inr segs"
    by (intro exI [of _ "[SegMember ''data'', SegMember ''link'']"]) code_simp
  then have links: "\<forall>p \<in> set (link_paths ?refs). \<exists>segs. parsePath p = Inr segs" by simp
  have "parsePath ''$.data.id'' = Inr [SegMember ''data'', SegMember ''id'']" by code_simp
  then have "extractCommandIdPaths JNull JNull JNull (direct_paths ?refs) = Inr []"
    by (simp add: extractCommandIdPaths_def resolveRefPaths_def findMatchingPaths_def command_view_def)
  then show ?thesis
    by (simp only: resolve_command_ids_extract [OF links] map_result.simps) simp
qed

text \<open>
  an extracted aggregate id comes from a declared reference that targets the aggregate: either
  a direct one at whose path the id value sits, or a link one at whose path a link to the
  aggregate carries it; the references declared before it yield no value.
\<close>

theorem extract_aggregate_id_sound:
  assumes "extract_from_refs view target refs = Inr (Some x)"
  shows "\<exists>before after. (\<exists>agg path p v ms. refs = before @ DirectIdReference agg path # after \<and>
        matchesAggregate (getLinkMatcher agg) target \<and>
        findMatchingPaths view path isEntityId = Inr ((p, v) # ms) \<and> x = entityIdToString v \<and>
        extract_from_refs view target before = Inr None) \<or>
      (\<exists>aggs path p v ms. refs = before @ LinkIdReference aggs path # after \<and>
        (\<exists>a \<in> set aggs. matchesAggregate (getLinkMatcher a) target) \<and>
        findMatchingPaths view path (link_to target) = Inr ((p, v) # ms) \<and>
        x = entityIdToString (js_member v ''id'') \<and>
        extract_from_refs view target before = Inr None)"
  using assms
proof (induction refs)
  case (Cons ref refs)
  show ?case
  proof (cases "extract_from_refs view target [ref] = Inr None")
    case True
    then have skip: "extract_from_refs view target (ref # rs) = extract_from_refs view target rs" for rs
      by (rule extract_skip)
    with Cons show ?thesis
      by (metis append_Cons)
  next
    case False
    with Cons.prems show ?thesis
      by (cases ref) (fastforce simp: bind_result_Inr split: if_splits list.splits)+
  qed
qed simp

theorem extract_aggregate_id_sound_witness:
  "\<exists>x. extract_from_refs (JObj [(''data'', JObj [(''id'', JStr ''t1'')])])
      \<lparr>agg_service = None, agg_type = ''Todo'', agg_getStreamId = (\<lambda>_. [])\<rparr>
      [DirectIdReference \<lparr>agg_service = None, agg_type = ''Todo'', agg_getStreamId = (\<lambda>_. [])\<rparr>
         ''$.data.id''] = Inr (Some x) \<and> x = JStr ''t1''"
proof -
  let ?agg = "\<lparr>agg_service = None, agg_type = ''Todo'', agg_getStreamId = (\<lambda>_. [])\<rparr>"
  let ?view = "JObj [(''data'', JObj [(''id'', JStr ''t1'')])]"
  have "parsePath ''$.data.id'' = Inr [SegMember ''data'', SegMember ''id'']" by code_simp
  then have find: "findMatchingPaths ?view ''$.data.id'' isEntityId
      = Inr [(segmentsToPath [SegMember ''data'', SegMember ''id''], JStr ''t1'')]"
    by (simp add: findMatchingPaths_def isEntityId_def)
  have m: "matchesAggregate (getLinkMatcher ?agg) ?agg"
    by (simp add: matchesAggregate_def getLinkMatcher_def opt_str_def object_proto_def)
  have e: "extract_from_refs ?view ?agg [DirectIdReference ?agg ''$.data.id''] = Inr (Some (JStr ''t1''))"
    by (simp add: find m)
  from extract_aggregate_id_sound [OF e] find e show ?thesis by auto
qed

end
