(* ===== verification/GapDetector.thy ===== *)
theory GapDetector
  imports Prelude "HOL-Library.Multiset"
begin

text \<open>
  Gap detection for event streams, \<^verbatim>\<open>packages/client/src/core/event-cache/GapDetector.ts\<close>: the
  function \<open>detectGaps\<close> and the class \<open>GapBuffer\<close>.  Positions are JavaScript \<open>bigint\<close>s, hence
  unbounded integers.  The two private maps of \<open>GapBuffer\<close> are the fields of the record
  \<open>gapBuffer\<close>; the locale \<open>stream_buffer\<close> is what the event cache relies on.
\<close>

section \<open>Detecting gaps in a list of positions\<close>

record eventGap =
  fromPosition :: int
  toPosition :: int

record gapDetectionResult =
  hasGaps :: bool
  gaps :: "eventGap list"
  highestPosition :: int

definition gap_between :: "int \<Rightarrow> int \<Rightarrow> eventGap list" where
  "gap_between prev cur =
    (if cur > prev + 1 then [\<lparr>fromPosition = prev, toPosition = cur\<rparr>] else [])"

fun internal_gaps :: "int list \<Rightarrow> eventGap list" where
  "internal_gaps (prev # cur # rest) = gap_between prev cur @ internal_gaps (cur # rest)"
| "internal_gaps _ = []"

definition detectGaps :: "int list \<Rightarrow> int option \<Rightarrow> gapDetectionResult" where
  "detectGaps positions knownHighest =
    (if positions = [] then
       \<lparr>hasGaps = False, gaps = [],
        highestPosition = (case knownHighest of Some k \<Rightarrow> k | None \<Rightarrow> 0)\<rparr>
     else
       (let sorted = sort positions;
            leading = (case knownHighest of Some k \<Rightarrow> gap_between k (hd sorted) | None \<Rightarrow> []);
            found = leading @ internal_gaps sorted
        in \<lparr>hasGaps = found \<noteq> [], gaps = found, highestPosition = last sorted\<rparr>))"

section \<open>The gap buffer\<close>

record 'e gapBuffer =
  buffer :: "(string, (int \<times> 'e) list) jsmap"
  knownPositions :: "(string, int) jsmap"

definition new_gapBuffer :: "'e gapBuffer" where
  "new_gapBuffer = \<lparr>buffer = [], knownPositions = []\<rparr>"

definition buffered :: "'e gapBuffer \<Rightarrow> string \<Rightarrow> (int \<times> 'e) list" where
  "buffered gb streamId = (case map_get (buffer gb) streamId of Some es \<Rightarrow> es | None \<Rightarrow> [])"

definition gap_add :: "string \<Rightarrow> int \<Rightarrow> 'e \<Rightarrow> 'e gapBuffer \<Rightarrow> bool \<times> 'e gapBuffer" where
  "gap_add streamId position event gb =
    (let gb1 = gb\<lparr>buffer := map_set streamId (buffered gb streamId @ [(position, event)]) (buffer gb)\<rparr>;
         knownHighest = map_get (knownPositions gb) streamId
     in case knownHighest of
          Some k \<Rightarrow>
            if position > k + 1 then (True, gb1)
            else if position > k then
              (False, gb1\<lparr>knownPositions := map_set streamId position (knownPositions gb)\<rparr>)
            else (False, gb1)
        | None \<Rightarrow> (False, gb1\<lparr>knownPositions := map_set streamId position (knownPositions gb)\<rparr>))"

definition getEvents :: "'e gapBuffer \<Rightarrow> string \<Rightarrow> (int \<times> 'e) list" where
  "getEvents gb streamId = sort_key fst (buffered gb streamId)"

definition clearUpTo :: "string \<Rightarrow> int \<Rightarrow> 'e gapBuffer \<Rightarrow> 'e gapBuffer" where
  "clearUpTo streamId upToPosition gb =
    (case map_get (buffer gb) streamId of
       None \<Rightarrow> gb
     | Some events \<Rightarrow>
         (let remaining = filter (\<lambda>(p, e). p > upToPosition) events
          in if remaining = [] then gb\<lparr>buffer := map_delete streamId (buffer gb)\<rparr>
             else gb\<lparr>buffer := map_set streamId remaining (buffer gb)\<rparr>))"

definition clearStream :: "string \<Rightarrow> 'e gapBuffer \<Rightarrow> 'e gapBuffer" where
  "clearStream streamId gb =
    \<lparr>buffer = map_delete streamId (buffer gb),
     knownPositions = map_delete streamId (knownPositions gb)\<rparr>"

definition gap_clear :: "'e gapBuffer \<Rightarrow> 'e gapBuffer" where
  "gap_clear gb = \<lparr>buffer = [], knownPositions = []\<rparr>"

definition getGaps :: "'e gapBuffer \<Rightarrow> (string, eventGap list) jsmap" where
  "getGaps gb =
    map (\<lambda>(streamId, events).
        (streamId, gaps (detectGaps (map fst events) (map_get (knownPositions gb) streamId))))
      (filter (\<lambda>(streamId, events).
          hasGaps (detectGaps (map fst events) (map_get (knownPositions gb) streamId)))
        (buffer gb))"

definition setKnownPosition :: "string \<Rightarrow> int \<Rightarrow> 'e gapBuffer \<Rightarrow> 'e gapBuffer" where
  "setKnownPosition streamId position gb =
    gb\<lparr>knownPositions := map_set streamId position (knownPositions gb)\<rparr>"

lemmas gapBuffer_defs =
  gap_add_def clearUpTo_def clearStream_def gap_clear_def setKnownPosition_def new_gapBuffer_def

section \<open>Facts about gaps\<close>

definition in_gap :: "eventGap list \<Rightarrow> int \<Rightarrow> bool" where
  "in_gap gs p \<longleftrightarrow> (\<exists>g \<in> set gs. fromPosition g < p \<and> p < toPosition g)"

lemma in_gap_Nil [simp]: "\<not> in_gap [] p"
  by (simp add: in_gap_def)

lemma in_gap_append [simp]: "in_gap (xs @ ys) p \<longleftrightarrow> in_gap xs p \<or> in_gap ys p"
  by (auto simp: in_gap_def)

lemma in_gap_between [simp]: "in_gap (gap_between a b) p \<longleftrightarrow> a < p \<and> p < b"
  by (auto simp: in_gap_def gap_between_def)

lemma in_internal_gaps:
  "sorted xs \<Longrightarrow> xs \<noteq> [] \<Longrightarrow>
   in_gap (internal_gaps xs) p \<longleftrightarrow> p \<notin> set xs \<and> hd xs < p \<and> p < last xs"
proof (induction xs rule: internal_gaps.induct)
  case (1 a b xs)
  then have IH: "in_gap (internal_gaps (b # xs)) p \<longleftrightarrow> p \<notin> set (b # xs) \<and> b < p \<and> p < last (b # xs)"
    by simp
  have "b \<le> last (b # xs)" and le: "a \<le> b" and all: "\<forall>x \<in> set xs. b \<le> x"
    using 1 by (auto simp: last_in_set)
  then show ?case using IH by (auto simp: less_le)
qed auto

lemma gap_between_nonempty: "g \<in> set (gap_between a b) \<Longrightarrow> fromPosition g + 1 < toPosition g"
  by (auto simp: gap_between_def split: if_splits)

lemma internal_gaps_nonempty: "g \<in> set (internal_gaps xs) \<Longrightarrow> fromPosition g + 1 < toPosition g"
  by (induction xs rule: internal_gaps.induct) (auto dest: gap_between_nonempty)

lemma hd_sort: "xs \<noteq> [] \<Longrightarrow> hd (sort xs) = Min (set (xs :: int list))"
proof -
  assume "xs \<noteq> []"
  then obtain y ys where s: "sort xs = y # ys" by (cases "sort xs") (auto dest: arg_cong [of _ _ length])
  have "sorted (y # ys)" by (metis s sorted_sort)
  moreover have "set xs = set (y # ys)" by (metis s set_sort)
  ultimately show ?thesis
    by (simp add: s) (rule Min_eqI [symmetric], auto)
qed

lemma last_sort: "xs \<noteq> [] \<Longrightarrow> last (sort xs) = Max (set (xs :: int list))"
proof -
  assume "xs \<noteq> []"
  then obtain y ys where s: "sort xs = ys @ [y]"
    by (cases "sort xs" rule: rev_cases) (auto dest: arg_cong [of _ _ length])
  have "sorted (ys @ [y])" by (metis s sorted_sort)
  moreover have "set xs = set (ys @ [y])" by (metis s set_sort)
  ultimately show ?thesis
    by (simp add: s) (rule Max_eqI [symmetric], auto simp: sorted_append)
qed

section \<open>The contract the event cache relies on\<close>

text \<open>
  A stream buffer holds positioned events per stream: \<open>contents\<close> is what is buffered, \<open>add\<close> appends,
  \<open>clear_to\<close> drops a prefix of positions, \<open>clear_stream\<close> forgets a stream, and no operation on one
  stream is seen on another.
\<close>

locale stream_buffer =
  fixes contents :: "'s \<Rightarrow> string \<Rightarrow> (int \<times> 'e) list"
    and add :: "string \<Rightarrow> int \<Rightarrow> 'e \<Rightarrow> 's \<Rightarrow> bool \<times> 's"
    and clear_to :: "string \<Rightarrow> int \<Rightarrow> 's \<Rightarrow> 's"
    and clear_stream :: "string \<Rightarrow> 's \<Rightarrow> 's"
    and inv :: "'s \<Rightarrow> bool"
  assumes contents_add: "inv s \<Longrightarrow> contents (snd (add k p e s)) k' =
      (if k' = k then contents s k @ [(p, e)] else contents s k')"
    and contents_clear_to: "inv s \<Longrightarrow> contents (clear_to k p s) k' =
      (if k' = k then filter (\<lambda>(q, e). p < q) (contents s k) else contents s k')"
    and contents_clear_stream: "inv s \<Longrightarrow> contents (clear_stream k s) k' =
      (if k' = k then [] else contents s k')"
    and inv_add: "inv s \<Longrightarrow> inv (snd (add k p e s))"
    and inv_clear_to: "inv s \<Longrightarrow> inv (clear_to k p s)"
    and inv_clear_stream: "inv s \<Longrightarrow> inv (clear_stream k s)"
begin

fun add_all :: "(string \<times> int \<times> 'e) list \<Rightarrow> 's \<Rightarrow> 's" where
  "add_all [] s = s"
| "add_all ((k, p, e) # xs) s = add_all xs (snd (add k p e s))"

lemma contents_add_all:
  "inv s \<Longrightarrow> inv (add_all xs s) \<and>
    contents (add_all xs s) k = contents s k @ map snd (filter (\<lambda>x. fst x = k) xs)"
  by (induction xs s rule: add_all.induct) (auto simp: contents_add inv_add)

lemma clear_streams:
  "inv s \<Longrightarrow> inv (fold clear_stream ks s) \<and>
    contents (fold clear_stream ks s) k = (if k \<in> set ks then [] else contents s k)"
  by (induction ks arbitrary: s) (auto simp: contents_clear_stream inv_clear_stream)

lemma drained:
  "inv s \<Longrightarrow> \<forall>(q, e) \<in> set (contents s k). q \<le> p \<Longrightarrow> contents (clear_to k p s) k = []"
  by (auto simp: contents_clear_to filter_empty_conv)

end

text \<open>\<open>GapBuffer\<close> keeps no empty buffer: that is its invariant, beside the maps being maps.\<close>

definition gapBuffer_inv :: "'e gapBuffer \<Rightarrow> bool" where
  "gapBuffer_inv gb \<longleftrightarrow>
    map_wf (buffer gb) \<and> map_wf (knownPositions gb) \<and> (\<forall>(k, es) \<in> set (buffer gb). es \<noteq> [])"

lemma buffered_set [simp]:
  "buffered (gb\<lparr>buffer := map_set k es b\<rparr>) k' =
    (if k' = k then es else case map_get b k' of Some es \<Rightarrow> es | None \<Rightarrow> [])"
  "buffered (gb\<lparr>knownPositions := m\<rparr>) k' = buffered gb k'"
  by (auto simp: buffered_def)

lemma mem_delete: "x \<in> set (map_delete k m) \<Longrightarrow> x \<in> set m"
  by (induction m) (auto split: if_splits)

lemma gapBuffer_inv_new [simp]: "gapBuffer_inv new_gapBuffer"
  by (simp add: gapBuffer_inv_def new_gapBuffer_def)

lemma gapBuffer_inv_clear [simp]: "gapBuffer_inv (gap_clear gb)"
  by (simp add: gapBuffer_inv_def gap_clear_def)

lemma gapBuffer_inv_setKnown [simp]: "gapBuffer_inv gb \<Longrightarrow> gapBuffer_inv (setKnownPosition k p gb)"
  by (simp add: gapBuffer_inv_def setKnownPosition_def)

interpretation gap_buf: stream_buffer buffered gap_add clearUpTo clearStream gapBuffer_inv
proof unfold_locales
  fix s :: "'e gapBuffer" and k k' p e
  assume inv: "gapBuffer_inv s"
  show "buffered (snd (gap_add k p e s)) k' =
      (if k' = k then buffered s k @ [(p, e)] else buffered s k')"
    by (auto simp: gap_add_def Let_def buffered_def split: option.splits)
  show "buffered (clearUpTo k p s) k' =
      (if k' = k then filter (\<lambda>(q, e). p < q) (buffered s k) else buffered s k')"
    by (auto simp: clearUpTo_def Let_def buffered_def split: option.splits)
  show "buffered (clearStream k s) k' = (if k' = k then [] else buffered s k')"
    by (auto simp: clearStream_def buffered_def)
  show "gapBuffer_inv (snd (gap_add k p e s))"
    using inv by (auto simp: gap_add_def Let_def gapBuffer_inv_def split: option.splits dest!: map_set_mem)
  show "gapBuffer_inv (clearUpTo k p s)"
    using inv by (auto simp: clearUpTo_def Let_def gapBuffer_inv_def split: option.splits
        dest!: map_set_mem mem_delete)
  show "gapBuffer_inv (clearStream k s)"
    using inv by (auto simp: clearStream_def gapBuffer_inv_def dest!: mem_delete)
qed

section \<open>Properties\<close>

lemma detectGaps_gaps:
  assumes "positions \<noteq> []"
  shows "in_gap (gaps (detectGaps positions known)) p \<longleftrightarrow>
    p \<notin> set positions \<and> p < Max (set positions) \<and>
    ((\<exists>k. known = Some k \<and> k < p) \<and> p < Min (set positions) \<or> Min (set positions) < p)"
proof -
  let ?s = "sort positions"
  have ne: "?s \<noteq> []" using assms by (metis set_empty set_sort)
  have mem: "Min (set positions) \<le> Max (set positions)"
    "p < Min (set positions) \<longrightarrow> p \<notin> set positions"
    using assms by (auto intro: order_trans [OF Min_le Max_ge])
  have "in_gap (internal_gaps ?s) p \<longleftrightarrow>
      p \<notin> set positions \<and> Min (set positions) < p \<and> p < Max (set positions)"
    using in_internal_gaps [of ?s p] ne assms by (simp add: hd_sort last_sort)
  moreover have "in_gap (gaps (detectGaps positions known)) p \<longleftrightarrow>
      (\<exists>k. known = Some k \<and> k < p) \<and> p < Min (set positions) \<or> in_gap (internal_gaps ?s) p"
    using assms by (cases known) (simp_all add: detectGaps_def Let_def hd_sort)
  ultimately show ?thesis using mem by (cases "p < Min (set positions)") auto
qed

lemma filter_sort_fst:
  "filter (\<lambda>x. fst x = q) (sort_key fst (xs :: (int \<times> 'e) list)) = filter (\<lambda>x. fst x = q) xs"
  by (rule sort_key_stable)

lemma gap_add_inv: "gapBuffer_inv gb \<Longrightarrow> gapBuffer_inv (snd (gap_add k p e gb))"
  by (rule gap_buf.inv_add)

lemma detectGaps_sort_key:
  "detectGaps (map fst (sort_key fst es)) known = detectGaps (map fst es) known"
proof -
  have "sort (map fst (sort_key fst es)) = sort (map fst es)"
    by (rule properties_for_sort) simp_all
  then show ?thesis
    by (auto simp: detectGaps_def dest: arg_cong [of _ _ length])
qed

text \<open>
  The gaps \<open>detectGaps\<close> reports are exactly the missing positions. For a non-empty list of
  received positions in any order, with duplicates or not, a position lies strictly inside a
  reported gap if and only if it was not received, lies below the highest received position and
  lies above the known highest position or above some received position (the lowest received one
  when nothing is known or when it is below the known one); every
  reported gap contains a missing position; \<open>hasGaps\<close> says whether the list is non-empty; and
  \<open>highestPosition\<close> is the maximum received.
\<close>
theorem detectGaps_exact:
  assumes "positions \<noteq> []"
  shows "(in_gap (gaps (detectGaps positions known)) p \<longleftrightarrow>
          p \<notin> set positions \<and> p < Max (set positions) \<and>
          ((\<exists>k. known = Some k \<and> k < p) \<and> p < Min (set positions) \<or> Min (set positions) < p))
    \<and> (g \<in> set (gaps (detectGaps positions known)) \<longrightarrow> fromPosition g + 1 < toPosition g)
    \<and> (hasGaps (detectGaps positions known) \<longleftrightarrow> gaps (detectGaps positions known) \<noteq> [])
    \<and> highestPosition (detectGaps positions known) = Max (set positions)"
  using assms
  by (intro conjI detectGaps_gaps)
    (auto simp: detectGaps_def Let_def last_sort split: option.splits
      dest: gap_between_nonempty internal_gaps_nonempty)

theorem detectGaps_exact_witness:
  "gaps (detectGaps [7, 3, 4, 3] (Some 1)) = [\<lparr>fromPosition = 1, toPosition = 3\<rparr>, \<lparr>fromPosition = 4, toPosition = 7\<rparr>]
   \<and> in_gap (gaps (detectGaps [7, 3, 4, 3] (Some 1))) 5
   \<and> \<not> in_gap (gaps (detectGaps [7, 3, 4, 3] (Some 1))) 4"
  using detectGaps_exact [of "[7, 3, 4, 3]" "Some 1" 5] detectGaps_exact [of "[7, 3, 4, 3]" "Some 1" 4]
  by (simp add: detectGaps_def gap_between_def Let_def)

text \<open>
  Buffering an event. In a well-formed gap buffer, \<open>add\<close> reports a gap exactly when the
  position is beyond the successor of the known highest position of that stream; the event is
  then buffered without moving the known position, and otherwise the known position becomes the
  larger of the two. The events of the stream are returned in position order, equal positions in
  order of arrival, and no other stream's events or known position change.
\<close>
theorem gap_add_spec:
  assumes "gapBuffer_inv gb"
  shows "(fst (gap_add k p e gb) \<longleftrightarrow> (\<exists>h. map_get (knownPositions gb) k = Some h \<and> p > h + 1))
    \<and> map_get (knownPositions (snd (gap_add k p e gb))) k' =
      (if k' = k \<and> \<not> fst (gap_add k p e gb)
       then Some (case map_get (knownPositions gb) k of Some h \<Rightarrow> max h p | None \<Rightarrow> p)
       else map_get (knownPositions gb) k')
    \<and> (k' \<noteq> k \<longrightarrow> getEvents (snd (gap_add k p e gb)) k' = getEvents gb k')
    \<and> sorted (map fst (getEvents (snd (gap_add k p e gb)) k))
    \<and> filter (\<lambda>x. fst x = q) (getEvents (snd (gap_add k p e gb)) k) =
      filter (\<lambda>x. fst x = q) (getEvents gb k) @ (if p = q then [(p, e)] else [])"
proof (intro conjI)
  have ev: "getEvents (snd (gap_add k p e gb)) k' =
      (if k' = k then sort_key fst (buffered gb k @ [(p, e)]) else getEvents gb k')" for k'
    using gap_buf.contents_add [OF assms] by (simp add: getEvents_def)
  show "filter (\<lambda>x. fst x = q) (getEvents (snd (gap_add k p e gb)) k) =
      filter (\<lambda>x. fst x = q) (getEvents gb k) @ (if p = q then [(p, e)] else [])"
    unfolding ev by (auto simp: getEvents_def filter_sort_fst)
  show "k' \<noteq> k \<longrightarrow> getEvents (snd (gap_add k p e gb)) k' = getEvents gb k'" by (simp add: ev)
  show "sorted (map fst (getEvents (snd (gap_add k p e gb)) k))" by (simp add: ev)
qed (auto simp: gap_add_def Let_def split: option.splits)

theorem gap_add_spec_witness:
  "fst (gap_add ''s'' 6 True (setKnownPosition ''s'' 4 new_gapBuffer))
   \<and> \<not> fst (gap_add ''s'' 5 True (setKnownPosition ''s'' 4 new_gapBuffer))"
proof -
  have inv: "gapBuffer_inv (setKnownPosition ''s'' 4 (new_gapBuffer :: bool gapBuffer))" by simp
  have known: "map_get (knownPositions (setKnownPosition ''s'' 4 (new_gapBuffer :: bool gapBuffer))) ''s'' = Some 4"
    by (simp add: setKnownPosition_def)
  show ?thesis
    using gap_add_spec [OF inv, of "''s''" 6 True "''s''" 6] gap_add_spec [OF inv, of "''s''" 5 True "''s''" 5]
    unfolding known by simp
qed

text \<open>
  \<open>getGaps\<close> reports, for each stream with buffered events, exactly the gaps of that stream
  measured from its known position, and lists no stream without a gap.
\<close>
theorem getGaps_exact:
  assumes "gapBuffer_inv gb"
  shows "map_get (getGaps gb) k =
    (let d = detectGaps (map fst (getEvents gb k)) (map_get (knownPositions gb) k)
     in if hasGaps d then Some (gaps d) else None)"
proof -
  let ?G = "\<lambda>k es. detectGaps (map fst es) (map_get (knownPositions gb) k)"
  have wf: "map_wf (buffer gb)" using assms by (simp add: gapBuffer_inv_def)
  have "map_get (getGaps gb) k =
      (case map_get (buffer gb) k of None \<Rightarrow> None
       | Some es \<Rightarrow> if hasGaps (?G k es) then Some (gaps (?G k es)) else None)"
    using wf by (auto simp: getGaps_def map_get_map_snd map_wf_filter_get split: option.splits)
  then show ?thesis
    by (auto simp: Let_def getEvents_def buffered_def detectGaps_sort_key split: option.splits)
      (simp_all add: detectGaps_def)
qed

theorem getGaps_exact_witness:
  "map_get (getGaps (snd (gap_add ''s'' 6 True (setKnownPosition ''s'' 4 new_gapBuffer)))) ''s'' =
    Some [\<lparr>fromPosition = 4, toPosition = 6\<rparr>]"
  using getGaps_exact [of "snd (gap_add ''s'' 6 True (setKnownPosition ''s'' 4 new_gapBuffer))" "''s''"]
  by (simp add: gap_add_inv getEvents_def buffered_def gap_add_def setKnownPosition_def
      new_gapBuffer_def gapBuffer_inv_def map_wf_def detectGaps_def gap_between_def Let_def)

end
