(* ===== verification/ChainRegistry.thy ===== *)
theory ChainRegistry
  imports Prelude
begin

text \<open>
  The registry of aggregate chains,
  \<^verbatim>\<open>packages/client/src/core/command-queue/AggregateChainRegistry.ts\<close>.  Chains are mutable
  objects reachable under two keys, so the model has an explicit store: a chain reference is an
  address, \<open>chainHeap\<close> holds the objects ever allocated and \<open>byStreamId\<close> the registry's map from
  stream ids to addresses.  \<open>registry_step\<close> is what the registry's callers may do to it.
\<close>

section \<open>State\<close>

record aggregateChain =
  clientStreamId :: "string option"
  serverStreamId :: "string option"
  createCommandId :: "string option"
  createdEntityId :: "string option"
  latestCommandId :: "string option"
  lastKnownRevision :: "string option"

type_synonym chain_ref = nat

record chainRegistry =
  chainHeap :: "aggregateChain list"
  byStreamId :: "(string, chain_ref) jsmap"

definition new_registry :: chainRegistry where
  "new_registry = \<lparr>chainHeap = [], byStreamId = []\<rparr>"

abbreviation chain_at :: "chainRegistry \<Rightarrow> chain_ref \<Rightarrow> aggregateChain" where
  "chain_at r a \<equiv> chainHeap r ! a"

section \<open>Operations\<close>

definition registry_get :: "chainRegistry \<Rightarrow> string \<Rightarrow> chain_ref option" where
  "registry_get r streamId = map_get (byStreamId r) streamId"

definition registry_has :: "chainRegistry \<Rightarrow> string \<Rightarrow> bool" where
  "registry_has r streamId = map_has (byStreamId r) streamId"

definition bind_opt :: "string option \<Rightarrow> chain_ref \<Rightarrow> (string, chain_ref) jsmap \<Rightarrow> (string, chain_ref) jsmap" where
  "bind_opt streamId a m = (case streamId of Some s \<Rightarrow> map_set s a m | None \<Rightarrow> m)"

definition unbind_opt :: "string option \<Rightarrow> (string, chain_ref) jsmap \<Rightarrow> (string, chain_ref) jsmap" where
  "unbind_opt streamId m = (case streamId of Some s \<Rightarrow> map_delete s m | None \<Rightarrow> m)"

definition bound_opt :: "chainRegistry \<Rightarrow> string option \<Rightarrow> bool" where
  "bound_opt r streamId = (case streamId of Some s \<Rightarrow> map_has (byStreamId r) s | None \<Rightarrow> False)"

definition registry_create :: "aggregateChain \<Rightarrow> chainRegistry \<Rightarrow> string + chain_ref \<times> chainRegistry" where
  "registry_create init r =
    (if clientStreamId init = None \<and> serverStreamId init = None then
       Inl ''AggregateChain must be created with at least one of clientStreamId or serverStreamId''
     else if bound_opt r (clientStreamId init) then
       Inl (''clientStreamId already bound: '' @ the (clientStreamId init))
     else if bound_opt r (serverStreamId init) then
       Inl (''serverStreamId already bound: '' @ the (serverStreamId init))
     else
       (let a = length (chainHeap r)
        in Inr (a, \<lparr>chainHeap = chainHeap r @ [init],
          byStreamId = bind_opt (serverStreamId init) a (bind_opt (clientStreamId init) a (byStreamId r))\<rparr>)))"

definition attachServerStreamId :: "chain_ref \<Rightarrow> string \<Rightarrow> chainRegistry \<Rightarrow> string + chainRegistry" where
  "attachServerStreamId a streamId r =
    (case serverStreamId (chain_at r a) of
       Some s \<Rightarrow> Inl (''chain already has serverStreamId='' @ s)
     | None \<Rightarrow>
         if map_has (byStreamId r) streamId then Inl (''serverStreamId already bound: '' @ streamId)
         else Inr \<lparr>chainHeap = (chainHeap r)[a := (chain_at r a)\<lparr>serverStreamId := Some streamId\<rparr>],
                   byStreamId = map_set streamId a (byStreamId r)\<rparr>)"

definition attachClientStreamId :: "chain_ref \<Rightarrow> string \<Rightarrow> chainRegistry \<Rightarrow> string + chainRegistry" where
  "attachClientStreamId a streamId r =
    (case clientStreamId (chain_at r a) of
       Some s \<Rightarrow> Inl (''chain already has clientStreamId='' @ s)
     | None \<Rightarrow>
         if map_has (byStreamId r) streamId then Inl (''clientStreamId already bound: '' @ streamId)
         else Inr \<lparr>chainHeap = (chainHeap r)[a := (chain_at r a)\<lparr>clientStreamId := Some streamId\<rparr>],
                   byStreamId = map_set streamId a (byStreamId r)\<rparr>)"

definition registry_remove :: "chain_ref \<Rightarrow> chainRegistry \<Rightarrow> chainRegistry" where
  "registry_remove a r =
    r\<lparr>byStreamId := unbind_opt (serverStreamId (chain_at r a))
        (unbind_opt (clientStreamId (chain_at r a)) (byStreamId r))\<rparr>"

definition registry_chains :: "chainRegistry \<Rightarrow> chain_ref list" where
  "registry_chains r = set_of_list (map_values (byStreamId r))"

definition registry_find :: "(aggregateChain \<Rightarrow> bool) \<Rightarrow> chainRegistry \<Rightarrow> chain_ref option" where
  "registry_find predicate r = find (\<lambda>a. predicate (chain_at r a)) (registry_chains r)"

definition cleanup_chain :: "string \<Rightarrow> aggregateChain \<Rightarrow> aggregateChain" where
  "cleanup_chain commandId chain =
    (let c1 = (if createCommandId chain = Some commandId
               then chain\<lparr>createCommandId := None, createdEntityId := None\<rparr> else chain)
     in if latestCommandId c1 = Some commandId then c1\<lparr>latestCommandId := None\<rparr> else c1)"

fun cleanup_loop :: "string \<Rightarrow> string list \<Rightarrow> chain_ref list \<Rightarrow> chainRegistry \<Rightarrow> chainRegistry" where
  "cleanup_loop commandId [] seen r = r"
| "cleanup_loop commandId (streamId # streamIds) seen r =
    (case map_get (byStreamId r) streamId of
       None \<Rightarrow> cleanup_loop commandId streamIds seen r
     | Some a \<Rightarrow>
         if a \<in> set seen then cleanup_loop commandId streamIds seen r
         else cleanup_loop commandId streamIds (a # seen)
           (r\<lparr>chainHeap := (chainHeap r)[a := cleanup_chain commandId (chain_at r a)]\<rparr>))"

definition onCommandCleanup :: "string \<Rightarrow> string list \<Rightarrow> chainRegistry \<Rightarrow> chainRegistry" where
  "onCommandCleanup commandId streamIds r = cleanup_loop commandId streamIds [] r"

definition registry_clear :: "chainRegistry \<Rightarrow> chainRegistry" where
  "registry_clear r = r\<lparr>byStreamId := []\<rparr>"

definition registry_size :: "chainRegistry \<Rightarrow> nat" where
  "registry_size r = length (set_of_list (map_values (byStreamId r)))"

section \<open>What callers may do\<close>

definition live :: "chainRegistry \<Rightarrow> chain_ref \<Rightarrow> bool" where
  "live r a \<longleftrightarrow> a \<in> set (map_values (byStreamId r))"

text \<open>
  Callers hold references they got from the registry.  They write every field but the two stream
  ids in place (\<open>Write\<close>) and do not use a chain after it was removed.
\<close>

inductive registry_step :: "chainRegistry \<Rightarrow> chainRegistry \<Rightarrow> bool" where
  Create: "registry_create init r = Inr (a, r') \<Longrightarrow> registry_step r r'"
| AttachServer: "live r a \<Longrightarrow> attachServerStreamId a s r = Inr r' \<Longrightarrow> registry_step r r'"
| AttachClient: "live r a \<Longrightarrow> attachClientStreamId a s r = Inr r' \<Longrightarrow> registry_step r r'"
| Remove: "live r a \<Longrightarrow> registry_step r (registry_remove a r)"
| Cleanup: "registry_step r (onCommandCleanup c ss r)"
| Clear: "registry_step r (registry_clear r)"
| Write: "live r a \<Longrightarrow> clientStreamId c = clientStreamId (chain_at r a) \<Longrightarrow>
    serverStreamId c = serverStreamId (chain_at r a) \<Longrightarrow>
    registry_step r (r\<lparr>chainHeap := (chainHeap r)[a := c]\<rparr>)"

inductive registry_reachable :: "chainRegistry \<Rightarrow> bool" where
  Init: "registry_reachable new_registry"
| Step: "registry_reachable r \<Longrightarrow> registry_step r r' \<Longrightarrow> registry_reachable r'"

inductive_cases registry_stepE: "registry_step r r'"

section \<open>The invariant of the two index entries\<close>

definition chain_ids :: "aggregateChain \<Rightarrow> string set" where
  "chain_ids c = {s. clientStreamId c = Some s \<or> serverStreamId c = Some s}"

text \<open>
  Each key of the map is one of the two ids its chain records, and each id a live chain records is
  a key bound to that chain.
\<close>

definition registry_inv :: "chainRegistry \<Rightarrow> bool" where
  "registry_inv r \<longleftrightarrow> map_wf (byStreamId r) \<and>
    (\<forall>s a. map_get (byStreamId r) s = Some a \<longrightarrow> a < length (chainHeap r) \<and> s \<in> chain_ids (chain_at r a)) \<and>
    (\<forall>s a s'. map_get (byStreamId r) s = Some a \<longrightarrow> s' \<in> chain_ids (chain_at r a) \<longrightarrow>
      map_get (byStreamId r) s' = Some a)"

lemma live_iff: "map_wf (byStreamId r) \<Longrightarrow> live r a \<longleftrightarrow> (\<exists>s. map_get (byStreamId r) s = Some a)"
  by (force simp: live_def map_wf_get)

lemma nth_upd: "j < length xs \<Longrightarrow> xs[i := x] ! j = (if i = j then x else xs ! j)"
  by (cases "i < length xs") (auto simp: nth_list_update)

lemma map_get_bind_opt: "map_get (bind_opt o' a m) s = (if o' = Some s then Some a else map_get m s)"
  by (auto simp: bind_opt_def split: option.splits)

lemma map_get_unbind_opt: "map_get (unbind_opt o' m) s = (if o' = Some s then None else map_get m s)"
  by (auto simp: unbind_opt_def split: option.splits)

lemma map_wf_bind_opt [simp]: "map_wf m \<Longrightarrow> map_wf (bind_opt o' a m)"
  by (simp add: bind_opt_def split: option.splits)

lemma map_wf_unbind_opt [simp]: "map_wf m \<Longrightarrow> map_wf (unbind_opt o' m)"
  by (simp add: unbind_opt_def split: option.splits)

lemmas index_lookups = map_get_bind_opt map_get_unbind_opt

lemma chain_ids_cleanup [simp]:
  "clientStreamId (cleanup_chain c ch) = clientStreamId ch"
  "serverStreamId (cleanup_chain c ch) = serverStreamId ch"
  "lastKnownRevision (cleanup_chain c ch) = lastKnownRevision ch"
  by (simp_all add: cleanup_chain_def Let_def)

lemma cleanup_chain_idem [simp]: "cleanup_chain c (cleanup_chain c ch) = cleanup_chain c ch"
  by (auto simp: cleanup_chain_def Let_def)

text \<open>A rewrite of live chains that keeps their ids keeps the invariant.\<close>

lemma registry_inv_heap:
  assumes "registry_inv r" and "byStreamId r' = byStreamId r"
    and "length (chainHeap r') = length (chainHeap r)"
    and "\<And>a. a < length (chainHeap r) \<Longrightarrow> chain_ids (chain_at r' a) = chain_ids (chain_at r a)"
  shows "registry_inv r'"
  using assms unfolding registry_inv_def by metis

lemma cleanup_loop_index [simp]: "byStreamId (cleanup_loop c ss seen r) = byStreamId r"
  by (induction c ss seen r rule: cleanup_loop.induct) (auto split: option.splits)

lemma cleanup_loop_length [simp]: "length (chainHeap (cleanup_loop c ss seen r)) = length (chainHeap r)"
  by (induction c ss seen r rule: cleanup_loop.induct) (auto split: option.splits)

lemma cleanup_loop_at:
  "a < length (chainHeap r) \<Longrightarrow> chain_at (cleanup_loop c ss seen r) a =
    (if a \<notin> set seen \<and> (\<exists>s \<in> set ss. map_get (byStreamId r) s = Some a)
     then cleanup_chain c (chain_at r a) else chain_at r a)"
  by (induction c ss seen r rule: cleanup_loop.induct)
    (auto simp: nth_upd split: option.splits)

lemma cleanup_at:
  "a < length (chainHeap r) \<Longrightarrow> chain_at (onCommandCleanup c ss r) a =
    (if \<exists>s \<in> set ss. map_get (byStreamId r) s = Some a
     then cleanup_chain c (chain_at r a) else chain_at r a)"
  by (simp add: onCommandCleanup_def cleanup_loop_at)

lemma cleanup_index [simp]: "byStreamId (onCommandCleanup c ss r) = byStreamId r"
  "length (chainHeap (onCommandCleanup c ss r)) = length (chainHeap r)"
  by (simp_all add: onCommandCleanup_def)

lemma cleanup_inv: "registry_inv r \<Longrightarrow> registry_inv (onCommandCleanup c ss r)"
  by (erule registry_inv_heap) (auto simp: cleanup_at chain_ids_def)

lemma write_inv:
  assumes "registry_inv r" "clientStreamId c = clientStreamId (chain_at r a)"
    "serverStreamId c = serverStreamId (chain_at r a)"
  shows "registry_inv (r\<lparr>chainHeap := (chainHeap r)[a := c]\<rparr>)"
  by (rule registry_inv_heap [OF assms(1)]) (use assms in \<open>auto simp: nth_upd chain_ids_def\<close>)

lemma registry_invI:
  assumes "map_wf (byStreamId r)"
    and "\<And>s a. map_get (byStreamId r) s = Some a \<Longrightarrow> a < length (chainHeap r) \<and> s \<in> chain_ids (chain_at r a)"
    and "\<And>s a s'. map_get (byStreamId r) s = Some a \<Longrightarrow> s' \<in> chain_ids (chain_at r a) \<Longrightarrow>
      map_get (byStreamId r) s' = Some a"
  shows "registry_inv r"
  unfolding registry_inv_def using assms by blast

lemma registry_invD:
  assumes "registry_inv r"
  shows "map_wf (byStreamId r)"
    and "map_get (byStreamId r) s = Some a \<Longrightarrow> a < length (chainHeap r)"
    and "map_get (byStreamId r) s = Some a \<Longrightarrow> s \<in> chain_ids (chain_at r a)"
    and "map_get (byStreamId r) s = Some a \<Longrightarrow> s' \<in> chain_ids (chain_at r a) \<Longrightarrow>
      map_get (byStreamId r) s' = Some a"
  using assms unfolding registry_inv_def by blast+

lemma live_ids:
  assumes "registry_inv r" and "live r a"
  shows "a < length (chainHeap r)"
    and "s \<in> chain_ids (chain_at r a) \<longleftrightarrow> map_get (byStreamId r) s = Some a"
proof -
  obtain s0 where "map_get (byStreamId r) s0 = Some a"
    using assms live_iff registry_invD(1) by blast
  then show "a < length (chainHeap r)" "s \<in> chain_ids (chain_at r a) \<longleftrightarrow> map_get (byStreamId r) s = Some a"
    using registry_invD [OF assms(1)] by blast+
qed

text \<open>Giving a chain new ids that nobody holds, at an address that is live or fresh.\<close>

lemma bind_inv:
  assumes inv: "registry_inv r" and wf: "map_wf (byStreamId r')"
    and a: "a < length (chainHeap r')" and len: "length (chainHeap r) \<le> length (chainHeap r')"
    and get: "\<And>s. map_get (byStreamId r') s =
      (if s \<in> new then Some a else map_get (byStreamId r) s)"
    and free: "\<And>s. s \<in> new \<Longrightarrow> map_get (byStreamId r) s = None"
    and ids: "chain_ids (chain_at r' a) = new \<union> {s. map_get (byStreamId r) s = Some a}"
    and rest: "\<And>b. b \<noteq> a \<Longrightarrow> b < length (chainHeap r) \<Longrightarrow> chain_at r' b = chain_at r b"
  shows "registry_inv r'"
proof (rule registry_invI [OF wf])
  fix s b assume b: "map_get (byStreamId r') s = Some b"
  show "b < length (chainHeap r') \<and> s \<in> chain_ids (chain_at r' b)"
  proof (cases "b = a")
    case True
    with a ids b show ?thesis by (auto simp: get split: if_splits)
  next
    case False
    with b have "map_get (byStreamId r) s = Some b" by (simp add: get split: if_splits)
    with registry_invD [OF inv] rest False len show ?thesis by (metis le_trans not_le_imp_less not_less)
  qed
  fix s' assume s': "s' \<in> chain_ids (chain_at r' b)"
  show "map_get (byStreamId r') s' = Some b"
  proof (cases "b = a")
    case True
    with s' ids show ?thesis by (auto simp: get)
  next
    case False
    with b have old: "map_get (byStreamId r) s = Some b" by (simp add: get split: if_splits)
    with registry_invD [OF inv] rest False s' have "map_get (byStreamId r) s' = Some b" by metis
    with free show ?thesis by (auto simp: get)
  qed
qed

lemma create_inv:
  assumes inv: "registry_inv r" and ok: "registry_create init r = Inr (a, r')"
  shows "registry_inv r'"
proof (rule bind_inv [OF inv, where a = a and new = "chain_ids init"])
  have fresh: "\<not> bound_opt r (clientStreamId init)" "\<not> bound_opt r (serverStreamId init)"
    and r': "r' = \<lparr>chainHeap = chainHeap r @ [init], byStreamId =
      bind_opt (serverStreamId init) a (bind_opt (clientStreamId init) a (byStreamId r))\<rparr>"
    and a: "a = length (chainHeap r)"
    using ok by (auto simp: registry_create_def Let_def split: if_splits)
  note registry_invD [OF inv]
  show "map_wf (byStreamId r')" using registry_invD(1) [OF inv] by (simp add: r')
  show "a < length (chainHeap r')" "length (chainHeap r) \<le> length (chainHeap r')" by (simp_all add: r' a)
  show "map_get (byStreamId r') s = (if s \<in> chain_ids init then Some a else map_get (byStreamId r) s)" for s
    by (simp add: r' index_lookups chain_ids_def)
  show "s \<in> chain_ids init \<Longrightarrow> map_get (byStreamId r) s = None" for s
    using fresh by (auto simp: bound_opt_def chain_ids_def map_has_def)
  have "{s. map_get (byStreamId r) s = Some a} = {}" using registry_invD(2) [OF inv] a by blast
  then show "chain_ids (chain_at r' a) = chain_ids init \<union> {s. map_get (byStreamId r) s = Some a}"
    by (simp add: r' a)
  show "chain_at r' b = chain_at r b" if "b < length (chainHeap r)" for b
    using that by (simp add: r' nth_append)
qed

lemma attach_inv:
  assumes inv: "registry_inv r" and live: "live r a" and free: "\<not> map_has (byStreamId r) s"
    and ids: "chain_ids c = insert s (chain_ids (chain_at r a))"
  shows "registry_inv \<lparr>chainHeap = (chainHeap r)[a := c], byStreamId = map_set s a (byStreamId r)\<rparr>"
    (is "registry_inv ?r'")
proof (rule bind_inv [OF inv, where a = a and new = "{s}"])
  have "chain_ids (chain_at r a) = {s. map_get (byStreamId r) s = Some a}"
    using live_ids(2) [OF inv live] by blast
  then show "chain_ids (chain_at ?r' a) = {s} \<union> {s. map_get (byStreamId r) s = Some a}"
    using ids live_ids(1) [OF inv live] by simp
  show "map_wf (byStreamId ?r')" using registry_invD(1) [OF inv] by simp
  show "a < length (chainHeap ?r')" using live_ids(1) [OF inv live] by simp
  show "s' \<in> {s} \<Longrightarrow> map_get (byStreamId r) s' = None" for s'
    using free by (simp add: map_has_def)
qed simp_all

lemma remove_inv:
  assumes inv: "registry_inv r" and live: "live r a"
  shows "registry_inv (registry_remove a r)"
proof (rule registry_invI)
  have get: "map_get (byStreamId (registry_remove a r)) s =
      (if map_get (byStreamId r) s = Some a then None else map_get (byStreamId r) s)" for s
    using live_ids(2) [OF inv live, of s] by (auto simp: registry_remove_def index_lookups chain_ids_def)
  have heap: "chainHeap (registry_remove a r) = chainHeap r" by (simp add: registry_remove_def)
  show "map_wf (byStreamId (registry_remove a r))"
    using registry_invD(1) [OF inv] by (simp add: registry_remove_def)
  fix s b assume "map_get (byStreamId (registry_remove a r)) s = Some b"
  then have b: "map_get (byStreamId r) s = Some b" "b \<noteq> a" by (auto simp: get split: if_splits)
  then show "b < length (chainHeap (registry_remove a r)) \<and> s \<in> chain_ids (chain_at (registry_remove a r) b)"
    unfolding heap using registry_invD(2,3) [OF inv b(1)] by blast
  fix s' assume "s' \<in> chain_ids (chain_at (registry_remove a r) b)"
  then have "map_get (byStreamId r) s' = Some b"
    unfolding heap by (rule registry_invD(4) [OF inv b(1)])
  with b show "map_get (byStreamId (registry_remove a r)) s' = Some b" by (simp add: get)
qed

lemma attach_server_inv:
  assumes "registry_inv r" "live r a" "attachServerStreamId a s r = Inr r'"
  shows "registry_inv r'"
proof -
  have "serverStreamId (chain_at r a) = None" "\<not> map_has (byStreamId r) s"
    and r': "r' = \<lparr>chainHeap = (chainHeap r)[a := (chain_at r a)\<lparr>serverStreamId := Some s\<rparr>],
      byStreamId = map_set s a (byStreamId r)\<rparr>"
    using assms(3) by (auto simp: attachServerStreamId_def split: option.splits if_splits)
  then show ?thesis
    unfolding r' by (intro attach_inv assms) (auto simp: chain_ids_def)
qed

lemma attach_client_inv:
  assumes "registry_inv r" "live r a" "attachClientStreamId a s r = Inr r'"
  shows "registry_inv r'"
proof -
  have "clientStreamId (chain_at r a) = None" "\<not> map_has (byStreamId r) s"
    and r': "r' = \<lparr>chainHeap = (chainHeap r)[a := (chain_at r a)\<lparr>clientStreamId := Some s\<rparr>],
      byStreamId = map_set s a (byStreamId r)\<rparr>"
    using assms(3) by (auto simp: attachClientStreamId_def split: option.splits if_splits)
  then show ?thesis
    unfolding r' by (intro attach_inv assms) (auto simp: chain_ids_def)
qed

lemma clear_inv: "registry_inv (registry_clear r)"
  by (simp add: registry_clear_def registry_inv_def)

lemma step_inv: "registry_step r r' \<Longrightarrow> registry_inv r \<Longrightarrow> registry_inv r'"
proof (induction rule: registry_step.induct)
  case Create then show ?case by (rule create_inv [rotated])
next
  case AttachServer then show ?case by (rule attach_server_inv [rotated])
next
  case AttachClient then show ?case by (rule attach_client_inv [rotated])
next
  case Remove then show ?case by (rule remove_inv [rotated])
next
  case Cleanup then show ?case by (rule cleanup_inv)
next
  case Clear show ?case by (rule clear_inv)
next
  case Write show ?case by (rule write_inv [OF Write.prems Write.hyps(2,3)])
qed

lemma reachable_inv: "registry_reachable r \<Longrightarrow> registry_inv r"
proof (induction rule: registry_reachable.induct)
  case Init
  show ?case by (simp add: new_registry_def registry_inv_def)
qed (rule step_inv)

section \<open>Properties\<close>

text \<open>
  C35: The two index entries of a chain stay in step. In every registry its callers can reach from
  the empty one by creating chains, attaching ids, writing the chains in place, cleaning up after
  commands, removing and clearing, a stream id is bound to a live chain if and only if that chain
  records it as its client or server id: each id of a live chain finds that very chain, and no key
  finds a chain that does not carry it.
\<close>
theorem chain_index_consistent:
  assumes "registry_reachable r" and "live r a"
  shows "registry_get r s = Some a \<longleftrightarrow>
    clientStreamId (chain_at r a) = Some s \<or> serverStreamId (chain_at r a) = Some s"
  using live_ids(2) [OF reachable_inv [OF assms(1)] assms(2), of s]
  by (auto simp: registry_get_def chain_ids_def)

definition example_chain :: aggregateChain where
  "example_chain = \<lparr>clientStreamId = Some ''todo-tmp'', serverStreamId = None,
    createCommandId = Some ''c1'', createdEntityId = Some ''tmp'', latestCommandId = Some ''c2'',
    lastKnownRevision = Some ''7''\<rparr>"

definition example_registry :: chainRegistry where
  "example_registry = \<lparr>chainHeap = [example_chain\<lparr>serverStreamId := Some ''todo-1''\<rparr>],
    byStreamId = [(''todo-tmp'', 0), (''todo-1'', 0)]\<rparr>"

lemma example_reachable: "registry_reachable example_registry"
proof -
  let ?r = "\<lparr>chainHeap = [example_chain], byStreamId = [(''todo-tmp'', 0)]\<rparr>"
  have "registry_step new_registry ?r"
    by (rule Create [where init = example_chain and a = 0])
      (simp add: registry_create_def new_registry_def example_chain_def bound_opt_def bind_opt_def)
  moreover have "registry_step ?r example_registry"
    by (rule AttachServer [where a = 0 and s = "''todo-1''"])
      (simp_all add: live_def attachServerStreamId_def example_registry_def example_chain_def map_has_def)
  ultimately show ?thesis by (meson Init Step)
qed

theorem chain_index_consistent_witness:
  "registry_get example_registry ''todo-tmp'' = Some 0 \<and> registry_get example_registry ''todo-1'' = Some 0"
proof -
  have "live example_registry 0" by (simp add: live_def example_registry_def)
  note w = chain_index_consistent [OF example_reachable this]
  show ?thesis
    using w [of "''todo-tmp''"] w [of "''todo-1''"] by (simp add: example_registry_def example_chain_def)
qed

text \<open>
  Cleaning up after a command. \<open>onCommandCleanup\<close> rewrites exactly the chains that one of
  the given stream ids finds, each once whether it is found under one id or under both: a chain
  whose pending create is the command loses \<open>createCommandId\<close> and \<open>createdEntityId\<close>, one whose
  latest command it is loses \<open>latestCommandId\<close>, every other field, the last known revision among
  them, and every other chain is as before, the map does not change, and doing it again changes
  nothing.
\<close>
theorem command_cleanup_spec:
  assumes "registry_reachable r" and "a < length (chainHeap r)"
  shows "chain_at (onCommandCleanup c ss r) a =
      (if \<exists>s \<in> set ss. registry_get r s = Some a
       then (chain_at r a)
         \<lparr>createCommandId := (if createCommandId (chain_at r a) = Some c then None
             else createCommandId (chain_at r a)),
          createdEntityId := (if createCommandId (chain_at r a) = Some c then None
             else createdEntityId (chain_at r a)),
          latestCommandId := (if latestCommandId (chain_at r a) = Some c then None
             else latestCommandId (chain_at r a))\<rparr>
       else chain_at r a)
    \<and> registry_get (onCommandCleanup c ss r) s = registry_get r s
    \<and> onCommandCleanup c ss (onCommandCleanup c ss r) = onCommandCleanup c ss r"
proof (intro conjI)
  have "chain_at (onCommandCleanup c ss (onCommandCleanup c ss r)) i = chain_at (onCommandCleanup c ss r) i"
    if "i < length (chainHeap r)" for i
    using that by (simp add: cleanup_at)
  then have "chainHeap (onCommandCleanup c ss (onCommandCleanup c ss r)) = chainHeap (onCommandCleanup c ss r)"
    by (intro nth_equalityI) simp_all
  then show "onCommandCleanup c ss (onCommandCleanup c ss r) = onCommandCleanup c ss r"
    by simp
qed (use assms(2) in \<open>simp_all add: cleanup_at registry_get_def cleanup_chain_def Let_def\<close>)

theorem command_cleanup_spec_witness:
  "chain_at (onCommandCleanup ''c1'' [''todo-1'', ''todo-tmp''] example_registry) 0 =
    (chain_at example_registry 0)\<lparr>createCommandId := None, createdEntityId := None\<rparr>"
  using command_cleanup_spec [OF example_reachable, of 0 "''c1''" "[''todo-1'', ''todo-tmp'']"]
  by (simp add: example_registry_def example_chain_def registry_get_def)

text \<open>
  Enumerating chains. In a reachable registry \<open>chains\<close> lists each live chain exactly once,
  however many of its ids are bound, \<open>size\<close> is their number, \<open>find\<close> returns a live chain that
  satisfies the predicate and returns none only when no live chain does, and after \<open>remove\<close> the
  removed chain is listed no more while every other one is.
\<close>
theorem chains_enumeration:
  assumes "registry_reachable r"
  shows "distinct (registry_chains r) \<and> (a \<in> set (registry_chains r) \<longleftrightarrow> live r a)
    \<and> registry_size r = length (registry_chains r)
    \<and> (registry_find P r = Some b \<longrightarrow> live r b \<and> P (chain_at r b))
    \<and> (registry_find P r = None \<longleftrightarrow> (\<forall>b. live r b \<longrightarrow> \<not> P (chain_at r b)))
    \<and> (live r a \<longrightarrow> (live (registry_remove a r) b \<longleftrightarrow> live r b \<and> b \<noteq> a))"
proof (intro conjI)
  note inv = reachable_inv [OF assms]
  show "registry_find P r = Some b \<longrightarrow> live r b \<and> P (chain_at r b)"
    by (auto simp: registry_find_def registry_chains_def live_def dest: find_SomeD)
  show "live r a \<longrightarrow> (live (registry_remove a r) b \<longleftrightarrow> live r b \<and> b \<noteq> a)"
  proof
    assume live: "live r a"
    note inv' = remove_inv [OF inv live]
    have "map_get (byStreamId (registry_remove a r)) s =
        (if map_get (byStreamId r) s = Some a then None else map_get (byStreamId r) s)" for s
      using live_ids(2) [OF inv live, of s] by (auto simp: registry_remove_def index_lookups chain_ids_def)
    then show "live (registry_remove a r) b \<longleftrightarrow> live r b \<and> b \<noteq> a"
      using live_iff [OF registry_invD(1) [OF inv]] live_iff [OF registry_invD(1) [OF inv']]
      by (metis option.distinct(1) option.inject)
  qed
qed (auto simp: registry_chains_def live_def registry_size_def registry_find_def find_None_iff)

theorem chains_enumeration_witness:
  "registry_chains example_registry = [0] \<and> registry_size example_registry = 1
   \<and> registry_find (\<lambda>c. latestCommandId c = Some ''c2'') example_registry = Some 0
   \<and> distinct (registry_chains example_registry)"
proof (intro conjI)
  show one: "registry_chains example_registry = [0]"
    by (simp add: registry_chains_def example_registry_def set_of_list_def set_add_def)
  show "registry_find (\<lambda>c. latestCommandId c = Some ''c2'') example_registry = Some 0"
    unfolding registry_find_def one by (simp add: example_registry_def example_chain_def)
  show "registry_size example_registry = 1"
    by (simp add: registry_size_def example_registry_def set_of_list_def set_add_def)
qed (rule chains_enumeration [OF example_reachable, THEN conjunct1])

end
