(* ===== verification/SeedStatus.thy ===== *)
theory SeedStatus
  imports Prelude
begin

text \<open>
  The dual index of seed statuses,
  \<^verbatim>\<open>packages/client/src/core/sync-manager/SeedStatusIndex.ts\<close>.  Both nested maps hold references
  to the same status objects, so the model keeps the objects in a store, \<open>statusHeap\<close>, and the
  two maps hold addresses.  A status passed to \<open>set\<close> is an object the caller allocated.
\<close>

section \<open>State\<close>

record collectionSyncStatus =
  st_collection :: string
  st_cacheKey :: string
  st_seeded :: bool
  st_lastSyncedPosition :: "int option"
  st_syncing :: bool
  st_error :: "string option"

type_synonym status_ref = nat
type_synonym nested_index = "(string, (string, status_ref) jsmap) jsmap"

record seedStatusIndex =
  statusHeap :: "collectionSyncStatus list"
  byCollection :: nested_index
  byCacheKey :: nested_index

definition new_seedIndex :: seedStatusIndex where
  "new_seedIndex = \<lparr>statusHeap = [], byCollection = [], byCacheKey = []\<rparr>"

section \<open>Operations\<close>

definition nested_get :: "nested_index \<Rightarrow> string \<Rightarrow> string \<Rightarrow> status_ref option" where
  "nested_get m outer inner = Option.bind (map_get m outer) (\<lambda>im. map_get im inner)"

definition nested_set :: "string \<Rightarrow> string \<Rightarrow> status_ref \<Rightarrow> nested_index \<Rightarrow> nested_index" where
  "nested_set outer inner a m =
    map_set outer (map_set inner a (case map_get m outer of Some im \<Rightarrow> im | None \<Rightarrow> [])) m"

definition nested_delete :: "string \<Rightarrow> string \<Rightarrow> nested_index \<Rightarrow> nested_index" where
  "nested_delete outer inner m =
    (case map_get m outer of
       None \<Rightarrow> m
     | Some im \<Rightarrow>
         (let im' = map_delete inner im
          in if im' = [] then map_delete outer m else map_set outer im' m))"

definition seed_alloc :: "collectionSyncStatus \<Rightarrow> seedStatusIndex \<Rightarrow> status_ref \<times> seedStatusIndex" where
  "seed_alloc status ix = (length (statusHeap ix), ix\<lparr>statusHeap := statusHeap ix @ [status]\<rparr>)"

definition seed_get :: "seedStatusIndex \<Rightarrow> string \<Rightarrow> string \<Rightarrow> status_ref option" where
  "seed_get ix collection cacheKey = nested_get (byCollection ix) collection cacheKey"

definition getByCollection :: "seedStatusIndex \<Rightarrow> string \<Rightarrow> (string, status_ref) jsmap option" where
  "getByCollection ix collection = map_get (byCollection ix) collection"

definition getByCacheKey :: "seedStatusIndex \<Rightarrow> string \<Rightarrow> (string, status_ref) jsmap option" where
  "getByCacheKey ix cacheKey = map_get (byCacheKey ix) cacheKey"

definition seed_set :: "string \<Rightarrow> string \<Rightarrow> status_ref \<Rightarrow> seedStatusIndex \<Rightarrow> seedStatusIndex" where
  "seed_set collection cacheKey status ix =
    ix\<lparr>byCollection := nested_set collection cacheKey status (byCollection ix),
       byCacheKey := nested_set cacheKey collection status (byCacheKey ix)\<rparr>"

text \<open>\<open>updates\<close> is the effect of \<open>Object.assign\<close> with the caller's partial record.\<close>

definition seed_update ::
  "string \<Rightarrow> string \<Rightarrow> (collectionSyncStatus \<Rightarrow> collectionSyncStatus) \<Rightarrow> seedStatusIndex \<Rightarrow> seedStatusIndex" where
  "seed_update collection cacheKey updates ix =
    (case nested_get (byCollection ix) collection cacheKey of
       None \<Rightarrow> ix
     | Some a \<Rightarrow> ix\<lparr>statusHeap := (statusHeap ix)[a := updates (statusHeap ix ! a)]\<rparr>)"

definition seed_has :: "seedStatusIndex \<Rightarrow> string \<Rightarrow> string \<Rightarrow> bool" where
  "seed_has ix collection cacheKey = (nested_get (byCollection ix) collection cacheKey \<noteq> None)"

definition seed_delete :: "string \<Rightarrow> string \<Rightarrow> seedStatusIndex \<Rightarrow> seedStatusIndex" where
  "seed_delete collection cacheKey ix =
    ix\<lparr>byCollection := nested_delete collection cacheKey (byCollection ix),
       byCacheKey := nested_delete cacheKey collection (byCacheKey ix)\<rparr>"

definition deleteAllForCacheKey :: "string \<Rightarrow> seedStatusIndex \<Rightarrow> seedStatusIndex" where
  "deleteAllForCacheKey cacheKey ix =
    (case map_get (byCacheKey ix) cacheKey of
       None \<Rightarrow> ix
     | Some cacheKeyMap \<Rightarrow>
         ix\<lparr>byCollection := fold (\<lambda>collection. nested_delete collection cacheKey)
              (map_keys cacheKeyMap) (byCollection ix),
            byCacheKey := map_delete cacheKey (byCacheKey ix)\<rparr>)"

definition seed_clear :: "seedStatusIndex \<Rightarrow> seedStatusIndex" where
  "seed_clear ix = ix\<lparr>byCollection := [], byCacheKey := []\<rparr>"

definition seed_values :: "seedStatusIndex \<Rightarrow> status_ref list" where
  "seed_values ix = concat (map (\<lambda>(c, inner). map_values inner) (byCollection ix))"

section \<open>Nested maps without empty inner maps\<close>

definition nested_wf :: "nested_index \<Rightarrow> bool" where
  "nested_wf m \<longleftrightarrow> map_wf m \<and> (\<forall>(k, im) \<in> set m. map_wf im \<and> im \<noteq> [])"

lemma nested_wf_inner: "nested_wf m \<Longrightarrow> map_get m k = Some im \<Longrightarrow> map_wf im \<and> im \<noteq> []"
  by (auto simp: nested_wf_def dest!: map_of_SomeD)

lemma nested_get_set [jsmap_simps]:
  "nested_get (nested_set x y a m) c k = (if c = x \<and> k = y then Some a else nested_get m c k)"
  by (auto simp: nested_get_def nested_set_def split: option.splits)

lemma delete_empty: "map_delete k m = [] \<Longrightarrow> k' \<noteq> k \<Longrightarrow> map_get m k' = None"
  by (metis map_get_delete map_of.simps(1))

lemma nested_get_delete [jsmap_simps]:
  "nested_get (nested_delete x y m) c k = (if c = x \<and> k = y then None else nested_get m c k)"
  by (auto simp: nested_get_def nested_delete_def Let_def delete_empty split: option.splits)

lemma map_set_nonempty [simp]: "map_set k v m \<noteq> []"
  by (metis map_get_set map_of.simps(1) option.distinct(1))

lemma nested_wf_map_set:
  "nested_wf m \<Longrightarrow> map_wf im \<Longrightarrow> im \<noteq> [] \<Longrightarrow> nested_wf (map_set x im m)"
  by (auto simp: nested_wf_def dest!: map_set_mem)

lemma nested_wf_set [wf_intros]: "nested_wf m \<Longrightarrow> nested_wf (nested_set x y a m)"
  unfolding nested_set_def by (rule nested_wf_map_set) (auto simp: map_wf_def [of "[_]"] intro: wf_intros dest: nested_wf_inner split: option.splits)

lemma mem_map_delete: "x \<in> set (map_delete k m) \<Longrightarrow> x \<in> set m"
  by (induction m) (auto split: if_splits)

lemma nested_wf_map_delete: "nested_wf m \<Longrightarrow> nested_wf (map_delete x m)"
  by (auto simp: nested_wf_def dest!: mem_map_delete)

lemma nested_wf_delete [wf_intros]: "nested_wf m \<Longrightarrow> nested_wf (nested_delete x y m)"
  by (auto simp: nested_delete_def Let_def intro!: nested_wf_map_set nested_wf_map_delete
      dest: nested_wf_inner split: option.splits)

lemma fold_nested_delete:
  "nested_get (fold (\<lambda>c. nested_delete c k) cs m) c' k' =
    (if c' \<in> set cs \<and> k' = k then None else nested_get m c' k')"
  by (induction cs arbitrary: m) (auto simp: jsmap_simps)

lemma fold_nested_delete_wf: "nested_wf m \<Longrightarrow> nested_wf (fold (\<lambda>c. nested_delete c k) cs m)"
  by (rule fold_invariant [of nested_wf]) (auto intro: wf_intros)

section \<open>Agreement of the two indexes\<close>

definition seed_inv :: "seedStatusIndex \<Rightarrow> bool" where
  "seed_inv ix \<longleftrightarrow> nested_wf (byCollection ix) \<and> nested_wf (byCacheKey ix) \<and>
    (\<forall>c k. nested_get (byCacheKey ix) k c = nested_get (byCollection ix) c k)"

lemma seed_inv_new: "seed_inv new_seedIndex"
  by (simp add: seed_inv_def new_seedIndex_def nested_wf_def nested_get_def)

lemma seed_inv_set: "seed_inv ix \<Longrightarrow> seed_inv (seed_set c k a ix)"
  by (auto simp: seed_inv_def seed_set_def jsmap_simps wf_intros)

lemma seed_inv_delete: "seed_inv ix \<Longrightarrow> seed_inv (seed_delete c k ix)"
  by (auto simp: seed_inv_def seed_delete_def jsmap_simps wf_intros)

lemma seed_inv_update: "seed_inv ix \<Longrightarrow> seed_inv (seed_update c k f ix)"
  by (simp add: seed_inv_def seed_update_def split: option.splits)

lemma seed_inv_clear: "seed_inv (seed_clear ix)"
  by (simp add: seed_inv_def seed_clear_def nested_wf_def nested_get_def)

lemma nested_get_map_delete: "nested_get (map_delete x m) c k = (if c = x then None else nested_get m c k)"
  by (simp add: nested_get_def)

lemma deleteAll_get:
  assumes "seed_inv ix"
  shows "nested_get (byCollection (deleteAllForCacheKey x ix)) c k =
    (if k = x then None else nested_get (byCollection ix) c k)"
proof (cases "map_get (byCacheKey ix) x")
  case None
  then have "nested_get (byCacheKey ix) x c = None" for c by (simp add: nested_get_def)
  with assms None show ?thesis by (simp add: deleteAllForCacheKey_def seed_inv_def)
next
  case (Some im)
  have "nested_get (byCollection ix) c x = nested_get (byCacheKey ix) x c"
    using assms by (simp add: seed_inv_def)
  then have "nested_get (byCollection ix) c x = map_get im c"
    using Some by (simp add: nested_get_def)
  moreover have "c \<notin> set (map_keys im) \<Longrightarrow> map_get im c = None"
    by (simp add: map_of_eq_None_iff)
  ultimately show ?thesis
    using Some by (simp add: deleteAllForCacheKey_def fold_nested_delete)
qed

lemma seed_inv_deleteAll:
  assumes "seed_inv ix"
  shows "seed_inv (deleteAllForCacheKey x ix)"
proof -
  have "nested_get (byCacheKey (deleteAllForCacheKey x ix)) k c =
      (if k = x then None else nested_get (byCacheKey ix) k c)" for k c
    by (auto simp: deleteAllForCacheKey_def nested_get_def split: option.splits)
  moreover have "nested_wf (byCollection (deleteAllForCacheKey x ix))"
    "nested_wf (byCacheKey (deleteAllForCacheKey x ix))"
    using assms by (simp_all add: seed_inv_def deleteAllForCacheKey_def nested_wf_map_delete
        fold_nested_delete_wf split: option.splits)
  ultimately show ?thesis
    using assms by (simp add: seed_inv_def [of "deleteAllForCacheKey x ix"] deleteAll_get)
      (simp add: seed_inv_def)
qed

inductive seed_reachable :: "seedStatusIndex \<Rightarrow> bool" where
  Empty: "seed_reachable new_seedIndex"
| Set: "seed_reachable ix \<Longrightarrow> seed_reachable (seed_set c k (fst (seed_alloc s ix)) (snd (seed_alloc s ix)))"
| Update: "seed_reachable ix \<Longrightarrow> seed_reachable (seed_update c k f ix)"
| Delete: "seed_reachable ix \<Longrightarrow> seed_reachable (seed_delete c k ix)"
| DeleteAll: "seed_reachable ix \<Longrightarrow> seed_reachable (deleteAllForCacheKey k ix)"
| Clear: "seed_reachable ix \<Longrightarrow> seed_reachable (seed_clear ix)"

text \<open>Beside the agreement: every address is allocated and no two entries share an object.\<close>

definition seed_owned :: "seedStatusIndex \<Rightarrow> bool" where
  "seed_owned ix \<longleftrightarrow>
    (\<forall>c k a. seed_get ix c k = Some a \<longrightarrow> a < length (statusHeap ix) \<and>
      (\<forall>c' k'. seed_get ix c' k' = Some a \<longrightarrow> c' = c \<and> k' = k))"

lemma seed_get_ops:
  "seed_get (seed_set c k a ix) c' k' = (if c' = c \<and> k' = k then Some a else seed_get ix c' k')"
  "seed_get (seed_delete c k ix) c' k' = (if c' = c \<and> k' = k then None else seed_get ix c' k')"
  "seed_get (seed_update c k f ix) c' k' = seed_get ix c' k'"
  "seed_get (seed_clear ix) c' k' = None"
  "seed_get (snd (seed_alloc s ix)) c' k' = seed_get ix c' k'"
  "seed_inv ix \<Longrightarrow> seed_get (deleteAllForCacheKey k ix) c' k' = (if k' = k then None else seed_get ix c' k')"
  by (auto simp: seed_get_def seed_set_def seed_delete_def seed_update_def seed_clear_def seed_alloc_def
      jsmap_simps nested_get_def [of "[]"] deleteAll_get split: option.splits)

lemma heap_length_ops:
  "length (statusHeap (seed_set c k a ix)) = length (statusHeap ix)"
  "length (statusHeap (seed_delete c k ix)) = length (statusHeap ix)"
  "length (statusHeap (seed_update c k f ix)) = length (statusHeap ix)"
  "length (statusHeap (seed_clear ix)) = length (statusHeap ix)"
  "length (statusHeap (snd (seed_alloc s ix))) = Suc (length (statusHeap ix))"
  "fst (seed_alloc s ix) = length (statusHeap ix)"
  "length (statusHeap (deleteAllForCacheKey k ix)) = length (statusHeap ix)"
  by (simp_all add: seed_set_def seed_delete_def seed_update_def seed_clear_def seed_alloc_def
      deleteAllForCacheKey_def split: option.splits)

lemma seed_reachable_inv: "seed_reachable ix \<Longrightarrow> seed_inv ix"
proof (induction rule: seed_reachable.induct)
  case (Set ix c k s)
  then have "seed_inv (snd (seed_alloc s ix))" by (simp add: seed_inv_def seed_alloc_def)
  then show ?case by (rule seed_inv_set)
qed (simp_all only: seed_inv_new seed_inv_update seed_inv_delete seed_inv_clear seed_inv_deleteAll)

lemma seed_reachable_owned: "seed_reachable ix \<Longrightarrow> seed_owned ix"
proof (induction rule: seed_reachable.induct)
  case Empty
  show ?case by (simp add: seed_owned_def seed_get_def nested_get_def new_seedIndex_def)
next
  case (Set ix c k s)
  then show ?case
    unfolding seed_owned_def seed_get_ops heap_length_ops
    by (metis less_Suc_eq less_irrefl option.inject)
next
  case (Update ix c k f)
  then show ?case unfolding seed_owned_def seed_get_ops heap_length_ops by blast
next
  case (Delete ix c k)
  then show ?case unfolding seed_owned_def seed_get_ops heap_length_ops
    by (metis option.distinct(1))
next
  case (DeleteAll ix k)
  then show ?case
    unfolding seed_owned_def heap_length_ops seed_get_ops(6) [OF seed_reachable_inv [OF DeleteAll.hyps]]
    by (metis option.distinct(1))
next
  case (Clear ix)
  show ?case by (simp add: seed_owned_def seed_get_ops)
qed

section \<open>Properties\<close>

definition status_of :: "seedStatusIndex \<Rightarrow> string \<Rightarrow> string \<Rightarrow> collectionSyncStatus option" where
  "status_of ix c k = map_option (\<lambda>a. statusHeap ix ! a) (seed_get ix c k)"

definition status_by_key :: "seedStatusIndex \<Rightarrow> string \<Rightarrow> string \<Rightarrow> collectionSyncStatus option" where
  "status_by_key ix c k =
    Option.bind (getByCacheKey ix k) (\<lambda>inner. map_option (\<lambda>a. statusHeap ix ! a) (map_get inner c))"

lemma status_by_key_eq: "seed_inv ix \<Longrightarrow> status_by_key ix c k = status_of ix c k"
proof -
  assume "seed_inv ix"
  then have "nested_get (byCacheKey ix) k c = nested_get (byCollection ix) c k" by (simp add: seed_inv_def)
  moreover have "status_by_key ix c k = map_option (\<lambda>a. statusHeap ix ! a) (nested_get (byCacheKey ix) k c)"
    by (cases "map_get (byCacheKey ix) k") (simp_all add: status_by_key_def getByCacheKey_def nested_get_def)
  ultimately show ?thesis by (simp add: status_of_def seed_get_def)
qed

text \<open>The statuses as triples: collection, cache key, address.\<close>

definition nested_triples :: "nested_index \<Rightarrow> (string \<times> string \<times> status_ref) list" where
  "nested_triples m = concat (map (\<lambda>(c, im). map (\<lambda>(k, a). (c, k, a)) im) m)"

lemma nested_triples_Cons [simp]:
  "nested_triples ((c, im) # m) = map (\<lambda>(k, a). (c, k, a)) im @ nested_triples m"
  "nested_triples [] = []"
  by (simp_all add: nested_triples_def)

lemma nested_wf_Cons [simp]:
  "nested_wf ((c, im) # m) \<longleftrightarrow> c \<notin> fst ` set m \<and> map_wf im \<and> im \<noteq> [] \<and> nested_wf m"
  by (auto simp: nested_wf_def map_wf_def)

lemma fst_nested_triples: "(c, k, a) \<in> set (nested_triples m) \<Longrightarrow> c \<in> fst ` set m"
  by (force simp: nested_triples_def)

lemma distinct_nested_triples: "nested_wf m \<Longrightarrow> distinct (nested_triples m)"
proof (induction m)
  case (Cons x m)
  then show ?case
    by (cases x) (auto simp: distinct_map map_wf_def inj_on_def dest: fst_nested_triples)
qed simp

lemma mem_nested_triples:
  "nested_wf m \<Longrightarrow> (c, k, a) \<in> set (nested_triples m) \<longleftrightarrow> nested_get m c k = Some a"
proof (induction m)
  case (Cons x m)
  then obtain c' im where x: "x = (c', im)" by (cases x)
  have "c' \<notin> fst ` set m" "map_wf im" using Cons.prems x by auto
  then show ?case
    using Cons x by (cases "c = c'") (auto simp: nested_get_def map_wf_get dest: fst_nested_triples)
qed (simp add: nested_get_def)

lemma seed_values_triples: "seed_values ix = map (snd \<circ> snd) (nested_triples (byCollection ix))"
  by (simp add: seed_values_def nested_triples_def map_concat comp_def case_prod_unfold)

lemma seed_values_once:
  assumes "seed_reachable ix"
  shows "distinct (seed_values ix)" and "a \<in> set (seed_values ix) \<longleftrightarrow> (\<exists>c k. seed_get ix c k = Some a)"
proof -
  have wf: "nested_wf (byCollection ix)" using seed_reachable_inv [OF assms] by (simp add: seed_inv_def)
  have mem: "(c, k, b) \<in> set (nested_triples (byCollection ix)) \<longleftrightarrow> seed_get ix c k = Some b" for c k b
    by (simp add: mem_nested_triples [OF wf] seed_get_def)
  have "inj_on (snd \<circ> snd) (set (nested_triples (byCollection ix)))"
  proof (rule inj_onI)
    fix x y assume "x \<in> set (nested_triples (byCollection ix))" "y \<in> set (nested_triples (byCollection ix))"
      and "(snd \<circ> snd) x = (snd \<circ> snd) y"
    moreover obtain c k b c' k' b' where "x = (c, k, b)" "y = (c', k', b')" by (metis prod_cases3)
    ultimately show "x = y"
      using seed_reachable_owned [OF assms] unfolding seed_owned_def mem by (simp add: mem)
  qed
  then show "distinct (seed_values ix)"
    by (simp add: seed_values_triples distinct_map distinct_nested_triples wf)
  show "a \<in> set (seed_values ix) \<longleftrightarrow> (\<exists>c k. seed_get ix c k = Some a)"
    by (force simp: seed_values_triples image_iff simp flip: mem)
qed

text \<open>
  The two indexes of seed statuses never disagree. In every index reachable by setting freshly
  built statuses, updating, deleting and clearing, the status found under the cache key is the one
  found under the collection, an update of one pair is seen under both and changes no other pair,
  and neither index keeps an empty inner map: a collection or a cache key is listed only when it
  has a status.
\<close>
theorem seed_indexes_agree:
  assumes "seed_reachable ix"
  shows "status_by_key ix c k = status_of ix c k
    \<and> status_of (seed_update c k f ix) c' k' =
       (if c' = c \<and> k' = k then map_option f (status_of ix c k) else status_of ix c' k')
    \<and> status_by_key (seed_update c k f ix) c' k' = status_of (seed_update c k f ix) c' k'
    \<and> (getByCollection ix c \<noteq> None \<longleftrightarrow> (\<exists>k. seed_has ix c k))
    \<and> (getByCacheKey ix k \<noteq> None \<longleftrightarrow> (\<exists>c. seed_has ix c k))"
proof (intro conjI)
  note inv = seed_reachable_inv [OF assms] and owned = seed_reachable_owned [OF assms]
  show "status_by_key ix c k = status_of ix c k" by (rule status_by_key_eq [OF inv])
  show "status_by_key (seed_update c k f ix) c' k' = status_of (seed_update c k f ix) c' k'"
    by (rule status_by_key_eq [OF seed_inv_update [OF inv]])
  show "status_of (seed_update c k f ix) c' k' =
       (if c' = c \<and> k' = k then map_option f (status_of ix c k) else status_of ix c' k')"
  proof (cases "seed_get ix c k")
    case None
    then show ?thesis by (simp add: status_of_def seed_get_ops)
      (simp add: seed_update_def seed_get_def)
  next
    case (Some a)
    then have heap: "statusHeap (seed_update c k f ix) = (statusHeap ix)[a := f (statusHeap ix ! a)]"
      by (simp add: seed_update_def seed_get_def)
    have a: "a < length (statusHeap ix)" "\<And>c' k'. seed_get ix c' k' = Some a \<Longrightarrow> c' = c \<and> k' = k"
      using owned Some unfolding seed_owned_def by blast+
    show ?thesis
    proof (cases "c' = c \<and> k' = k")
      case True
      with a(1) Some show ?thesis by (simp add: status_of_def seed_get_ops heap)
    next
      case False
      then have "seed_get ix c' k' \<noteq> Some a" using a(2) by blast
      with False show ?thesis
        by (cases "seed_get ix c' k'") (auto simp: status_of_def seed_get_ops heap)
    qed
  qed
  have col: "\<exists>k. map_get inner k \<noteq> None" if "map_get m c = Some inner" "nested_wf m"
    for inner c and m :: nested_index
    using nested_wf_inner [OF that(2,1)] by (cases inner) auto
  show "getByCollection ix c \<noteq> None \<longleftrightarrow> (\<exists>k. seed_has ix c k)"
    using inv col [of "byCollection ix" c] unfolding getByCollection_def seed_has_def nested_get_def
    by (cases "map_get (byCollection ix) c") (simp_all add: seed_inv_def)
  have "(\<exists>c. seed_has ix c k) \<longleftrightarrow> (\<exists>c. nested_get (byCacheKey ix) k c \<noteq> None)"
    using inv unfolding seed_inv_def seed_has_def by metis
  then show "getByCacheKey ix k \<noteq> None \<longleftrightarrow> (\<exists>c. seed_has ix c k)"
    using inv col [of "byCacheKey ix" k] unfolding getByCacheKey_def nested_get_def
    by (cases "map_get (byCacheKey ix) k") (simp_all add: seed_inv_def)
qed

definition example_status :: collectionSyncStatus where
  "example_status = \<lparr>st_collection = ''todos'', st_cacheKey = ''k1'', st_seeded = False,
    st_lastSyncedPosition = None, st_syncing = True, st_error = None\<rparr>"

theorem seed_indexes_agree_witness:
  "status_by_key (seed_update ''todos'' ''k1'' (st_seeded_update (\<lambda>_. True))
     (seed_set ''todos'' ''k1'' 0 (snd (seed_alloc example_status new_seedIndex)))) ''todos'' ''k1'' =
   Some (example_status\<lparr>st_seeded := True\<rparr>)"
proof -
  let ?ix = "seed_set ''todos'' ''k1'' 0 (snd (seed_alloc example_status new_seedIndex))"
  have r: "seed_reachable ?ix"
    using Set [OF Empty, of "''todos''" "''k1''" example_status] by (simp add: heap_length_ops new_seedIndex_def)
  have s: "status_of ?ix ''todos'' ''k1'' = Some example_status"
    unfolding status_of_def seed_get_ops by (simp add: seed_set_def seed_alloc_def new_seedIndex_def)
  show ?thesis
    using seed_indexes_agree [OF r, of "''todos''" "''k1''" "st_seeded_update (\<lambda>_. True)" "''todos''" "''k1''"] s
    by simp
qed

text \<open>
  Evicting a cache key. \<open>deleteAllForCacheKey\<close> removes exactly the statuses of that cache key,
  from both indexes, and \<open>values\<close> then lists the remaining statuses once each: an address occurs in
  it, once, if and only if some remaining pair has it.
\<close>
theorem delete_all_for_cache_key:
  assumes "seed_reachable ix"
  shows "seed_get (deleteAllForCacheKey x ix) c k = (if k = x then None else seed_get ix c k)
    \<and> getByCacheKey (deleteAllForCacheKey x ix) k = (if k = x then None else getByCacheKey ix k)
    \<and> distinct (seed_values (deleteAllForCacheKey x ix))
    \<and> (a \<in> set (seed_values (deleteAllForCacheKey x ix)) \<longleftrightarrow> (\<exists>c k. k \<noteq> x \<and> seed_get ix c k = Some a))"
proof (intro conjI)
  note inv = seed_reachable_inv [OF assms]
  have r: "seed_reachable (deleteAllForCacheKey x ix)" using assms by (rule DeleteAll)
  show get: "seed_get (deleteAllForCacheKey x ix) c k = (if k = x then None else seed_get ix c k)" for c k
    by (simp add: seed_get_ops inv)
  show "getByCacheKey (deleteAllForCacheKey x ix) k = (if k = x then None else getByCacheKey ix k)"
    by (auto simp: getByCacheKey_def deleteAllForCacheKey_def split: option.splits)
  show "distinct (seed_values (deleteAllForCacheKey x ix))" by (rule seed_values_once(1) [OF r])
  show "a \<in> set (seed_values (deleteAllForCacheKey x ix)) \<longleftrightarrow> (\<exists>c k. k \<noteq> x \<and> seed_get ix c k = Some a)"
    unfolding seed_values_once(2) [OF r] get by (metis option.distinct(1))
qed

theorem delete_all_for_cache_key_witness:
  "seed_get (deleteAllForCacheKey ''k2'' (seed_set ''todos'' ''k1'' 0 (snd (seed_alloc example_status new_seedIndex))))
     ''todos'' ''k1'' = Some 0
   \<and> seed_get (deleteAllForCacheKey ''k1'' (seed_set ''todos'' ''k1'' 0 (snd (seed_alloc example_status new_seedIndex))))
     ''todos'' ''k1'' = None"
proof -
  let ?ix = "seed_set ''todos'' ''k1'' 0 (snd (seed_alloc example_status new_seedIndex))"
  have r: "seed_reachable ?ix"
    using Set [OF Empty, of "''todos''" "''k1''" example_status] by (simp add: heap_length_ops new_seedIndex_def)
  show ?thesis
    using delete_all_for_cache_key [OF r, of "''k2''" "''todos''" "''k1''"]
      delete_all_for_cache_key [OF r, of "''k1''" "''todos''" "''k1''"]
    by (simp add: seed_get_ops)
qed

end
