(* ===== verification/WriteQueue.thy ===== *)
theory WriteQueue
  imports Prelude "HOL-Library.Multiset"
begin

text \<open>
  The write queue, \<^verbatim>\<open>packages/client/src/core/write-queue/\<close> (\<^verbatim>\<open>WriteQueue.ts\<close>,
  \<^verbatim>\<open>operations.ts\<close>, \<^verbatim>\<open>IWriteQueue.ts\<close>): it serialises every mutation of local storage.

  The class is asynchronous.  Its code runs to completion between two \<open>await\<close>s, so each such
  stretch is one function on the state: \<open>wq_enqueue\<close>, \<open>wq_resetSession\<close> and \<open>wq_destroy\<close> are the
  calls of a client, \<open>runLoop_start\<close> is a scheduled microtask, \<open>handler_done\<close> the return of an
  awaited handler, \<open>reset_settled\<close> and \<open>reset_done\<close> the two continuations of a session reset.
  \<open>wq_step\<close> lets them interleave in any order.  Suspended activations are part of the state:
  \<open>wq_inflight\<close> lists the loop activations that await a handler with the entry each took, and
  \<open>wq_resets\<close> the suspended resets.  A promise is its settling calls, recorded in order in
  \<open>wq_settled\<close>.
\<close>

section \<open>State\<close>

datatype opType = ApplyRecords | ApplySeedEvents | ApplyAnticipated | ApplyGapRepair
  | EvictCacheKey | FlushCacheKeys | ReconcileWsEvents

definition all_op_types :: "opType list" where
  "all_op_types = [ApplyRecords, ApplySeedEvents, ApplyAnticipated, ApplyGapRepair,
    EvictCacheKey, FlushCacheKeys, ReconcileWsEvents]"

record 'p writeQueueOp =
  op_type :: opType
  op_payload :: 'p

datatype wqException = SessionResetException string | WriteQueueDestroyedException

datatype wqOutcome = ResolveOk | ResolveErr wqException | Reject string

record 'p pendingEntry =
  opId :: nat
  entry_op :: "'p writeQueueOp"
  entry_priority :: int

type_synonym loop_id = nat

datatype queueStatus = Idle | Processing loop_id | Resetting string | Destroyed

text \<open>A suspended reset waits for the loop that was active when it was called, if any, to settle;
  then it awaits the session reset callback.\<close>

datatype resetPhase = WaitSettled "loop_id option" | CallbackRunning

record 'p writeQueue =
  wq_handlers :: "opType list"
  wq_evictionHandlers :: "opType list"
  wq_pending :: "'p pendingEntry list"
  wq_resetHandler :: bool
  wq_status :: queueStatus
  wq_currentOp :: "'p writeQueueOp option"
  wq_opIdCounter :: nat
  wq_loopCounter :: nat
  wq_scheduled :: nat
  wq_inflight :: "(loop_id \<times> 'p pendingEntry) list"
  wq_resets :: "(string \<times> resetPhase) list"
  wq_settled :: "(nat \<times> wqOutcome) list"
  wq_evicted :: "(nat \<times> wqException) list"

definition new_writeQueue :: "'p writeQueue" where
  "new_writeQueue = \<lparr>wq_handlers = [], wq_evictionHandlers = [], wq_pending = [],
    wq_resetHandler = False, wq_status = Idle, wq_currentOp = None, wq_opIdCounter = 0,
    wq_loopCounter = 0, wq_scheduled = 0, wq_inflight = [], wq_resets = [], wq_settled = [],
    wq_evicted = []\<rparr>"

section \<open>Bootstrap\<close>

definition wq_register :: "opType \<Rightarrow> 'p writeQueue \<Rightarrow> string + 'p writeQueue" where
  "wq_register ty q =
    (if ty \<in> set (wq_handlers q) then Inl ''WriteQueue: handler already registered''
     else Inr (q\<lparr>wq_handlers := wq_handlers q @ [ty]\<rparr>))"

definition wq_registerEviction :: "opType \<Rightarrow> 'p writeQueue \<Rightarrow> string + 'p writeQueue" where
  "wq_registerEviction ty q =
    (if ty \<in> set (wq_evictionHandlers q) then Inl ''WriteQueue: eviction handler already registered''
     else Inr (q\<lparr>wq_evictionHandlers := wq_evictionHandlers q @ [ty]\<rparr>))"

definition wq_setSessionResetHandler :: "'p writeQueue \<Rightarrow> string + 'p writeQueue" where
  "wq_setSessionResetHandler q =
    (if wq_resetHandler q then Inl ''WriteQueue: session reset handler already set''
     else Inr (q\<lparr>wq_resetHandler := True\<rparr>))"

text \<open>The check the constructor schedules for the first tick.\<close>

definition wq_bootstrapValidation :: "'p writeQueue \<Rightarrow> string + unit" where
  "wq_bootstrapValidation q =
    (if filter (\<lambda>ty. ty \<notin> set (wq_handlers q)) all_op_types \<noteq> [] then
       Inl ''WriteQueue: missing handlers for operation types''
     else if filter (\<lambda>ty. ty \<notin> set (wq_evictionHandlers q)) all_op_types \<noteq> [] then
       Inl ''WriteQueue: missing eviction handlers for operation types''
     else if \<not> wq_resetHandler q then Inl ''WriteQueue: session reset handler not set''
     else Inr ())"

section \<open>Client calls\<close>

definition insert_entry :: "'p pendingEntry \<Rightarrow> 'p pendingEntry list \<Rightarrow> 'p pendingEntry list" where
  "insert_entry e pending =
    takeWhile (\<lambda>x. \<not> entry_priority x < entry_priority e) pending
      @ e # dropWhile (\<lambda>x. \<not> entry_priority x < entry_priority e) pending"

definition settle :: "nat \<Rightarrow> wqOutcome \<Rightarrow> 'p writeQueue \<Rightarrow> 'p writeQueue" where
  "settle i r q = q\<lparr>wq_settled := wq_settled q @ [(i, r)]\<rparr>"

definition scheduleProcessing :: "'p writeQueue \<Rightarrow> 'p writeQueue" where
  "scheduleProcessing q =
    (if wq_status q \<noteq> Idle then q
     else if wq_pending q = [] then q
     else q\<lparr>wq_scheduled := wq_scheduled q + 1\<rparr>)"

text \<open>\<open>Inl\<close> is a promise that is already resolved with the exception, \<open>Inr\<close> the id of the
  accepted operation.\<close>

definition wq_enqueue ::
  "'p writeQueueOp \<Rightarrow> int option \<Rightarrow> 'p writeQueue \<Rightarrow> (wqException + nat) \<times> 'p writeQueue" where
  "wq_enqueue op priority q =
    (case wq_status q of
       Destroyed \<Rightarrow> (Inl WriteQueueDestroyedException, q)
     | Resetting reason \<Rightarrow> (Inl (SessionResetException reason), q)
     | _ \<Rightarrow>
         (let i = wq_opIdCounter q + 1;
              e = \<lparr>opId = i, entry_op = op,
                   entry_priority = (case priority of Some p \<Rightarrow> p | None \<Rightarrow> 0)\<rparr>
          in (Inr i, scheduleProcessing
                (q\<lparr>wq_opIdCounter := i, wq_pending := insert_entry e (wq_pending q)\<rparr>))))"

text \<open>
  Both ways of discarding walk over the pending entries: resolve, then call the eviction handler,
  whose absence is a failed assertion that ends the walk.  \<open>None\<close> is a completed walk.
\<close>

fun evict_entries ::
  "wqException \<Rightarrow> 'p pendingEntry list \<Rightarrow> 'p writeQueue \<Rightarrow> string option \<times> 'p writeQueue" where
  "evict_entries ex [] q = (None, q)"
| "evict_entries ex (e # es) q =
    (let q1 = settle (opId e) (ResolveErr ex) q
     in if op_type (entry_op e) \<in> set (wq_evictionHandlers q1)
        then evict_entries ex es (q1\<lparr>wq_evicted := wq_evicted q1 @ [(opId e, ex)]\<rparr>)
        else (Some ''WriteQueue: no eviction handler registered'', q1))"

definition discardPendingOps :: "string \<Rightarrow> 'p writeQueue \<Rightarrow> string option \<times> 'p writeQueue" where
  "discardPendingOps reason q =
    (case evict_entries (SessionResetException reason) (wq_pending q) q of
       (Some msg, q1) \<Rightarrow> (Some msg, q1)
     | (None, q1) \<Rightarrow> (None, q1\<lparr>wq_pending := []\<rparr>))"

text \<open>\<open>resetSession\<close> up to its first \<open>await\<close>; \<open>None\<close> means that it did not throw.\<close>

definition wq_resetSession :: "string \<Rightarrow> 'p writeQueue \<Rightarrow> string option \<times> 'p writeQueue" where
  "wq_resetSession reason q =
    (case wq_status q of
       Destroyed \<Rightarrow> (None, q)
     | Resetting _ \<Rightarrow> (None, q)
     | _ \<Rightarrow>
         (let processingSettled = (case wq_status q of Processing l \<Rightarrow> Some l | _ \<Rightarrow> None)
          in case discardPendingOps reason q of
               (Some msg, q1) \<Rightarrow> (Some msg, q1)
             | (None, q1) \<Rightarrow>
                 (None, q1\<lparr>wq_status := Resetting reason,
                           wq_resets := wq_resets q1 @ [(reason, WaitSettled processingSettled)]\<rparr>)))"

definition wq_destroy :: "'p writeQueue \<Rightarrow> string option \<times> 'p writeQueue" where
  "wq_destroy q =
    (case evict_entries WriteQueueDestroyedException (wq_pending q) q of
       (Some msg, q1) \<Rightarrow> (Some msg, q1)
     | (None, q1) \<Rightarrow> (None, q1\<lparr>wq_pending := [], wq_currentOp := None, wq_status := Destroyed\<rparr>))"

record debugState =
  dbg_status :: queueStatus
  dbg_pendingCount :: nat
  dbg_currentOpType :: "opType option"
  dbg_pendingByType :: "(opType, nat) jsmap"

definition wq_getDebugState :: "'p writeQueue \<Rightarrow> debugState" where
  "wq_getDebugState q =
    \<lparr>dbg_status = wq_status q,
     dbg_pendingCount = length (wq_pending q),
     dbg_currentOpType = map_option op_type (wq_currentOp q),
     dbg_pendingByType =
       fold (\<lambda>e m. map_set (op_type (entry_op e))
              ((case map_get m (op_type (entry_op e)) of Some n \<Rightarrow> n | None \<Rightarrow> 0) + 1) m)
         (wq_pending q) []\<rparr>"

section \<open>The processing loop\<close>

text \<open>
  From the head of the \<open>while\<close> to the next \<open>await\<close> or to the end of the loop.  An operation
  without a handler is rejected at once and the loop goes on.
\<close>

fun loop_next :: "loop_id \<Rightarrow> 'p pendingEntry list \<Rightarrow> 'p writeQueue \<Rightarrow> 'p writeQueue" where
  "loop_next l [] q = (case wq_status q of Processing _ \<Rightarrow> q\<lparr>wq_status := Idle\<rparr> | _ \<Rightarrow> q)"
| "loop_next l (e # es) q =
    (case wq_status q of
       Processing _ \<Rightarrow>
         (let q1 = q\<lparr>wq_pending := es, wq_currentOp := Some (entry_op e)\<rparr>
          in if op_type (entry_op e) \<in> set (wq_handlers q1)
             then q1\<lparr>wq_inflight := wq_inflight q1 @ [(l, e)]\<rparr>
             else loop_next l es
               ((settle (opId e) (Reject ''WriteQueue: no handler registered'') q1)\<lparr>wq_currentOp := None\<rparr>))
     | _ \<Rightarrow> q)"

definition runLoop_start :: "'p writeQueue \<Rightarrow> 'p writeQueue" where
  "runLoop_start q =
    (let q1 = q\<lparr>wq_scheduled := wq_scheduled q - 1\<rparr>
     in if wq_status q1 \<noteq> Idle then q1
        else (let l = wq_loopCounter q1 + 1;
                  q2 = q1\<lparr>wq_loopCounter := l, wq_status := Processing l\<rparr>
              in loop_next l (wq_pending q2) q2))"

text \<open>The awaited handler of a suspended loop returns (\<open>None\<close>) or throws.\<close>

definition handler_done :: "nat \<Rightarrow> string option \<Rightarrow> 'p writeQueue \<Rightarrow> 'p writeQueue" where
  "handler_done n thrown q =
    (let (l, e) = wq_inflight q ! n;
         q1 = settle (opId e) (case thrown of None \<Rightarrow> ResolveOk | Some msg \<Rightarrow> Reject msg)
           (q\<lparr>wq_inflight := take n (wq_inflight q) @ drop (Suc n) (wq_inflight q)\<rparr>);
         q2 = q1\<lparr>wq_currentOp := None\<rparr>
     in loop_next l (wq_pending q2) q2)"

section \<open>The continuations of a session reset\<close>

definition loop_settled :: "loop_id option \<Rightarrow> 'p writeQueue \<Rightarrow> bool" where
  "loop_settled lo q = (case lo of None \<Rightarrow> True | Some l \<Rightarrow> l \<notin> fst ` set (wq_inflight q))"

text \<open>\<open>resetSession\<close>'s \<open>finally\<close>: back to idle unless the queue was destroyed meanwhile.\<close>

definition reset_done :: "nat \<Rightarrow> 'p writeQueue \<Rightarrow> 'p writeQueue" where
  "reset_done n q =
    (let q1 = q\<lparr>wq_resets := take n (wq_resets q) @ drop (Suc n) (wq_resets q)\<rparr>
     in case wq_status q1 of Resetting _ \<Rightarrow> q1\<lparr>wq_status := Idle\<rparr> | _ \<Rightarrow> q1)"

definition reset_settled :: "nat \<Rightarrow> 'p writeQueue \<Rightarrow> 'p writeQueue" where
  "reset_settled n q =
    (if \<not> wq_resetHandler q then reset_done n q
     else q\<lparr>wq_resets := (wq_resets q)[n := (fst (wq_resets q ! n), CallbackRunning)]\<rparr>)"

section \<open>Interleavings\<close>

text \<open>A queue that passed the bootstrap check and has not run yet.\<close>

definition wq_ready :: "'p writeQueue \<Rightarrow> bool" where
  "wq_ready q \<longleftrightarrow> wq_bootstrapValidation q = Inr ()"

definition wq_started :: "'p writeQueue" where
  "wq_started = new_writeQueue\<lparr>wq_handlers := all_op_types, wq_evictionHandlers := all_op_types,
    wq_resetHandler := True\<rparr>"

inductive wq_step :: "'p writeQueue \<Rightarrow> 'p writeQueue \<Rightarrow> bool" where
  Enqueue: "wq_step q (snd (wq_enqueue op priority q))"
| ResetSession: "wq_step q (snd (wq_resetSession reason q))"
| Destroy: "wq_step q (snd (wq_destroy q))"
| Microtask: "wq_scheduled q > 0 \<Longrightarrow> wq_step q (runLoop_start q)"
| HandlerDone: "n < length (wq_inflight q) \<Longrightarrow> wq_step q (handler_done n thrown q)"
| ResetSettled: "n < length (wq_resets q) \<Longrightarrow> wq_resets q ! n = (reason, WaitSettled lo) \<Longrightarrow>
    loop_settled lo q \<Longrightarrow> wq_step q (reset_settled n q)"
| ResetDone: "n < length (wq_resets q) \<Longrightarrow> wq_resets q ! n = (reason, CallbackRunning) \<Longrightarrow>
    wq_step q (reset_done n q)"

inductive wq_reachable :: "'p writeQueue \<Rightarrow> bool" where
  Start: "wq_reachable wq_started"
| Step: "wq_reachable q \<Longrightarrow> wq_step q q' \<Longrightarrow> wq_reachable q'"

inductive_cases wq_stepE: "wq_step q q'"

section \<open>The steps of a bootstrapped queue\<close>

text \<open>A bootstrapped queue has every handler, so no assertion fails and the steps simplify.\<close>

definition wq_complete :: "'p writeQueue \<Rightarrow> bool" where
  "wq_complete q \<longleftrightarrow> (\<forall>ty. ty \<in> set (wq_handlers q)) \<and> (\<forall>ty. ty \<in> set (wq_evictionHandlers q)) \<and>
    wq_resetHandler q"

lemma all_op_types_complete [simp]: "ty \<in> set all_op_types"
  by (cases ty) (simp_all add: all_op_types_def)

lemma wq_ready_complete: "wq_ready q \<longleftrightarrow> wq_complete q"
  by (auto simp: wq_ready_def wq_bootstrapValidation_def wq_complete_def filter_empty_conv)

lemma wq_complete_started [simp]: "wq_complete wq_started"
  by (simp add: wq_complete_def wq_started_def)

lemma evict_entries_complete:
  "wq_complete q \<Longrightarrow> evict_entries ex es q =
    (None, q\<lparr>wq_settled := wq_settled q @ map (\<lambda>e. (opId e, ResolveErr ex)) es,
             wq_evicted := wq_evicted q @ map (\<lambda>e. (opId e, ex)) es\<rparr>)"
  by (induction ex es q rule: evict_entries.induct) (auto simp: settle_def wq_complete_def)

lemma discard_complete:
  "wq_complete q \<Longrightarrow> discardPendingOps reason q =
    (None, q\<lparr>wq_settled := wq_settled q @ map (\<lambda>e. (opId e, ResolveErr (SessionResetException reason))) (wq_pending q),
             wq_evicted := wq_evicted q @ map (\<lambda>e. (opId e, SessionResetException reason)) (wq_pending q),
             wq_pending := []\<rparr>)"
  by (simp add: discardPendingOps_def evict_entries_complete)

lemma destroy_complete:
  "wq_complete q \<Longrightarrow> snd (wq_destroy q) =
    q\<lparr>wq_settled := wq_settled q @ map (\<lambda>e. (opId e, ResolveErr WriteQueueDestroyedException)) (wq_pending q),
      wq_evicted := wq_evicted q @ map (\<lambda>e. (opId e, WriteQueueDestroyedException)) (wq_pending q),
      wq_pending := [], wq_currentOp := None, wq_status := Destroyed\<rparr>"
  by (simp add: wq_destroy_def evict_entries_complete)

lemma reset_complete:
  "wq_complete q \<Longrightarrow> snd (wq_resetSession reason q) =
    (if wq_status q = Destroyed \<or> (\<exists>r. wq_status q = Resetting r) then q
     else q\<lparr>wq_settled := wq_settled q @ map (\<lambda>e. (opId e, ResolveErr (SessionResetException reason))) (wq_pending q),
            wq_evicted := wq_evicted q @ map (\<lambda>e. (opId e, SessionResetException reason)) (wq_pending q),
            wq_pending := [], wq_status := Resetting reason,
            wq_resets := wq_resets q @
              [(reason, WaitSettled (case wq_status q of Processing l \<Rightarrow> Some l | _ \<Rightarrow> None))]\<rparr>)"
  by (simp add: wq_resetSession_def discard_complete split: queueStatus.splits)

lemma loop_next_complete:
  "wq_complete q \<Longrightarrow> loop_next l (wq_pending q) q =
    (case wq_status q of
       Processing _ \<Rightarrow>
         (case wq_pending q of
            [] \<Rightarrow> q\<lparr>wq_status := Idle\<rparr>
          | e # es \<Rightarrow> q\<lparr>wq_pending := es, wq_currentOp := Some (entry_op e),
                        wq_inflight := wq_inflight q @ [(l, e)]\<rparr>)
     | _ \<Rightarrow> q)"
  by (cases "wq_pending q") (simp_all add: wq_complete_def Let_def split: queueStatus.splits)

lemma runLoop_complete:
  "wq_complete q \<Longrightarrow> runLoop_start q =
    (let q1 = q\<lparr>wq_scheduled := wq_scheduled q - 1\<rparr>
     in if wq_status q \<noteq> Idle then q1
        else case wq_pending q of
            [] \<Rightarrow> q1\<lparr>wq_loopCounter := wq_loopCounter q + 1\<rparr>
          | e # es \<Rightarrow> q1\<lparr>wq_loopCounter := wq_loopCounter q + 1, wq_status := Processing (wq_loopCounter q + 1),
               wq_pending := es, wq_currentOp := Some (entry_op e),
               wq_inflight := wq_inflight q @ [(wq_loopCounter q + 1, e)]\<rparr>)"
  by (cases "wq_pending q") (simp_all add: runLoop_start_def wq_complete_def Let_def)

lemma handler_done_complete:
  "wq_complete q \<Longrightarrow> wq_inflight q = [(l, e)] \<Longrightarrow> n = 0 \<Longrightarrow> handler_done n thrown q =
    (let q1 = q\<lparr>wq_inflight := [], wq_currentOp := None,
        wq_settled := wq_settled q @ [(opId e, case thrown of None \<Rightarrow> ResolveOk | Some msg \<Rightarrow> Reject msg)]\<rparr>
     in case wq_status q of
          Processing _ \<Rightarrow>
            (case wq_pending q of
               [] \<Rightarrow> q1\<lparr>wq_status := Idle\<rparr>
             | e' # es \<Rightarrow> q1\<lparr>wq_pending := es, wq_currentOp := Some (entry_op e'), wq_inflight := [(l, e')]\<rparr>)
        | _ \<Rightarrow> q1)"
  by (cases "wq_pending q")
    (simp_all add: handler_done_def settle_def wq_complete_def Let_def split: queueStatus.splits)

lemma enqueue_open:
  "snd (wq_enqueue op priority q) =
    (if wq_status q = Destroyed \<or> (\<exists>r. wq_status q = Resetting r) then q
     else q\<lparr>wq_opIdCounter := wq_opIdCounter q + 1,
            wq_pending := insert_entry \<lparr>opId = wq_opIdCounter q + 1, entry_op = op,
              entry_priority = (case priority of Some p \<Rightarrow> p | None \<Rightarrow> 0)\<rparr> (wq_pending q),
            wq_scheduled := wq_scheduled q + (if wq_status q = Idle then 1 else 0)\<rparr>)"
  by (auto simp: wq_enqueue_def scheduleProcessing_def Let_def insert_entry_def split: queueStatus.splits)

lemma reset_done_complete:
  "wq_resets q = [x] \<Longrightarrow> n = 0 \<Longrightarrow> reset_done n q =
    q\<lparr>wq_resets := [], wq_status := (case wq_status q of Resetting _ \<Rightarrow> Idle | s \<Rightarrow> s)\<rparr>"
  by (simp add: reset_done_def split: queueStatus.splits)

lemma reset_settled_complete:
  "wq_complete q \<Longrightarrow> wq_resets q = [(r, p)] \<Longrightarrow> n = 0 \<Longrightarrow>
    reset_settled n q = q\<lparr>wq_resets := [(r, CallbackRunning)]\<rparr>"
  by (simp add: reset_settled_def wq_complete_def)

lemmas complete_simps = destroy_complete reset_complete runLoop_complete handler_done_complete
  enqueue_open reset_done_complete reset_settled_complete

section \<open>The control invariant\<close>

text \<open>Who may be suspended in which status: at most one loop, at most one reset, and a reset whose
  callback runs excludes a loop.\<close>

fun reset_waits_for :: "resetPhase \<Rightarrow> (loop_id \<times> 'p pendingEntry) list \<Rightarrow> bool" where
  "reset_waits_for (WaitSettled None) fl \<longleftrightarrow> fl = []"
| "reset_waits_for (WaitSettled (Some l)) fl \<longleftrightarrow> fl = [] \<or> (\<exists>e. fl = [(l, e)])"
| "reset_waits_for CallbackRunning fl \<longleftrightarrow> fl = []"

definition wq_control :: "'p writeQueue \<Rightarrow> bool" where
  "wq_control q \<longleftrightarrow> wq_complete q \<and>
    (case wq_status q of
       Idle \<Rightarrow> wq_inflight q = [] \<and> wq_resets q = [] \<and> (wq_pending q \<noteq> [] \<longrightarrow> wq_scheduled q > 0)
     | Processing l \<Rightarrow> (\<exists>e. wq_inflight q = [(l, e)]) \<and> wq_resets q = []
     | Resetting r \<Rightarrow> wq_pending q = [] \<and>
         (\<exists>p. wq_resets q = [(r, p)] \<and> reset_waits_for p (wq_inflight q))
     | Destroyed \<Rightarrow> wq_pending q = [] \<and>
         (wq_resets q = [] \<and> length (wq_inflight q) \<le> 1 \<or>
          (\<exists>r p. wq_resets q = [(r, p)] \<and> reset_waits_for p (wq_inflight q))))"

lemma reset_waits_length: "reset_waits_for p fl \<Longrightarrow> length fl \<le> 1"
  by (induction p fl rule: reset_waits_for.induct) auto

lemma wq_control_length: "wq_control q \<Longrightarrow> length (wq_inflight q) \<le> 1 \<and> length (wq_resets q) \<le> 1"
  by (auto simp: wq_control_def dest: reset_waits_length split: queueStatus.splits)

lemma wq_complete_update [simp]:
  "wq_complete (q\<lparr>wq_pending := a\<rparr>) = wq_complete q" "wq_complete (q\<lparr>wq_status := b\<rparr>) = wq_complete q"
  "wq_complete (q\<lparr>wq_currentOp := c\<rparr>) = wq_complete q" "wq_complete (q\<lparr>wq_opIdCounter := d\<rparr>) = wq_complete q"
  "wq_complete (q\<lparr>wq_loopCounter := d\<rparr>) = wq_complete q" "wq_complete (q\<lparr>wq_scheduled := d\<rparr>) = wq_complete q"
  "wq_complete (q\<lparr>wq_inflight := e\<rparr>) = wq_complete q" "wq_complete (q\<lparr>wq_resets := f\<rparr>) = wq_complete q"
  "wq_complete (q\<lparr>wq_settled := g\<rparr>) = wq_complete q" "wq_complete (q\<lparr>wq_evicted := h\<rparr>) = wq_complete q"
  by (simp_all add: wq_complete_def)

lemma singleton_nth: "n < length xs \<Longrightarrow> length xs \<le> 1 \<Longrightarrow> n = 0 \<and> (\<exists>x. xs = [x])"
  by (cases xs) auto

lemma wq_control_complete: "wq_control q \<Longrightarrow> wq_complete q"
  by (simp add: wq_control_def)

text \<open>The cases of a step of a queue under the control invariant, with the new state written out.\<close>

lemma wq_step_cases [consumes 2, case_names Enqueue ResetSession Destroy Microtask HandlerDone ResetSettled ResetDone]:
  assumes "wq_step q q'" and "wq_control q"
  obtains op priority where "q' = snd (wq_enqueue op priority q)"
  | reason where "q' = snd (wq_resetSession reason q)"
  | "q' = snd (wq_destroy q)"
  | "wq_scheduled q > 0" "q' = runLoop_start q"
  | l e thrown where "wq_inflight q = [(l, e)]" "q' = handler_done 0 thrown q"
  | r lo where "wq_resets q = [(r, WaitSettled lo)]" "loop_settled lo q" "q' = reset_settled 0 q"
  | r where "wq_resets q = [(r, CallbackRunning)]" "q' = reset_done 0 q"
  using assms(1)
proof (cases rule: wq_step.cases)
  case (HandlerDone n thrown)
  then obtain x where "n = 0" "wq_inflight q = [x]"
    using singleton_nth wq_control_length [OF assms(2)] by blast
  then show thesis using HandlerDone that(5) by (cases x) auto
next
  case (ResetSettled n reason lo)
  then have "n = 0" "wq_resets q = [(reason, WaitSettled lo)]"
    using singleton_nth [of n "wq_resets q"] wq_control_length [OF assms(2)] by auto
  then show thesis using ResetSettled that(6) by blast
next
  case (ResetDone n reason)
  then have "n = 0" "wq_resets q = [(reason, CallbackRunning)]"
    using singleton_nth [of n "wq_resets q"] wq_control_length [OF assms(2)] by auto
  then show thesis using ResetDone that(7) by blast
qed (use that in blast)+

lemma wq_control_step:
  assumes step: "wq_step q q'" and c: "wq_control q"
  shows "wq_control q'"
  using step c
proof (cases rule: wq_step_cases)
  case (Enqueue op priority)
  with c Enqueue show ?thesis
    by (auto simp: wq_control_def enqueue_open split: queueStatus.splits)
next
  case (ResetSession reason)
  with c ResetSession show ?thesis
    by (auto simp: wq_control_def reset_complete split: queueStatus.splits)
next
  case Destroy
  with c Destroy show ?thesis
    by (auto simp: wq_control_def destroy_complete dest: reset_waits_length split: queueStatus.splits)
next
  case Microtask
  with c Microtask show ?thesis
    by (auto simp: wq_control_def runLoop_complete Let_def split: queueStatus.splits list.splits)
next
  case (HandlerDone l e thrown)
  with c HandlerDone show ?thesis
    by (auto simp: wq_control_def handler_done_complete Let_def elim!: reset_waits_for.elims
        split: queueStatus.splits list.splits)
next
  case (ResetSettled r lo)
  with c ResetSettled show ?thesis
    by (auto simp: wq_control_def reset_settled_complete loop_settled_def
        split: queueStatus.splits option.splits)
next
  case (ResetDone r)
  with c ResetDone show ?thesis
    by (auto simp: wq_control_def reset_done_complete split: queueStatus.splits)
qed

lemma wq_reachable_control: "wq_reachable q \<Longrightarrow> wq_control q"
proof (induction rule: wq_reachable.induct)
  case Start
  show ?case by (simp add: wq_control_def) (simp add: wq_started_def new_writeQueue_def)
qed (rule wq_control_step)

section \<open>The ledger of promises\<close>

text \<open>
  What a client of a queue relies on: each accepted operation has one promise, identified by a
  number, that is outstanding until it is settled.
\<close>

locale promise_ledger =
  fixes reach :: "'s \<Rightarrow> bool"
    and trans :: "'s \<Rightarrow> 's \<Rightarrow> bool"
    and issued :: "'s \<Rightarrow> nat"
    and outstanding :: "'s \<Rightarrow> nat list"
    and settled :: "'s \<Rightarrow> (nat \<times> 'r) list"
  assumes reach_trans: "reach s \<Longrightarrow> trans s s' \<Longrightarrow> reach s'"
    and balance: "reach s \<Longrightarrow> mset (outstanding s) + mset (map fst (settled s)) = mset [1..<Suc (issued s)]"
    and append_only: "reach s \<Longrightarrow> trans s s' \<Longrightarrow> \<exists>xs. settled s' = settled s @ xs"
begin

lemma ids_distinct: "reach s \<Longrightarrow> distinct (outstanding s @ map fst (settled s))"
  using balance [of s] by (metis distinct_upt mset_append mset_eq_imp_distinct_iff)

lemma ids_issued: "reach s \<Longrightarrow> i \<in> set (outstanding s) \<union> fst ` set (settled s) \<longleftrightarrow> 1 \<le> i \<and> i \<le> issued s"
proof -
  assume "reach s"
  then have "set (outstanding s @ map fst (settled s)) = set [1..<Suc (issued s)]"
    using balance [of s] by (metis mset_append mset_eq_setD)
  then show ?thesis by (auto simp: set_eq_iff less_Suc_eq_le)
qed

lemma settled_final:
  "trans\<^sup>*\<^sup>* s s' \<Longrightarrow> reach s \<Longrightarrow> reach s' \<and> (\<exists>xs. settled s' = settled s @ xs)"
proof (induction rule: rtranclp_induct)
  case (step s1 s2)
  then obtain xs where "settled s1 = settled s @ xs" and r: "reach s1" by blast
  then show ?case using append_only [OF r step.hyps(2)] reach_trans [OF r step.hyps(2)] by auto
qed simp

lemma outcome_final:
  assumes "reach s" "trans\<^sup>*\<^sup>* s s'" "(i, r) \<in> set (settled s)" "(i, r') \<in> set (settled s')"
  shows "r' = r"
proof -
  have "reach s'" "(i, r) \<in> set (settled s')" using settled_final [OF assms(2,1)] assms(3) by auto
  then show ?thesis
    using ids_distinct [of s'] assms(4) by (auto dest: eq_key_imp_eq_value)
qed

end

definition wq_outstanding :: "'p writeQueue \<Rightarrow> nat list" where
  "wq_outstanding q = map opId (wq_pending q) @ map (\<lambda>(l, e). opId e) (wq_inflight q)"

definition wq_ledger :: "'p writeQueue \<Rightarrow> bool" where
  "wq_ledger q \<longleftrightarrow>
    mset (wq_outstanding q) + mset (map fst (wq_settled q)) = mset [1..<Suc (wq_opIdCounter q)]"

lemma mset_insert_entry: "mset (insert_entry e es) = add_mset e (mset es)"
proof -
  have "mset (takeWhile P es) + mset (dropWhile P es) = mset es" for P
    by (metis mset_append takeWhile_dropWhile_id)
  then show ?thesis by (simp add: insert_entry_def)
qed

lemma wq_ledger_step:
  assumes step: "wq_step q q'" and c: "wq_control q" and l: "wq_ledger q"
  shows "wq_ledger q'"
  using step c
proof (cases rule: wq_step_cases)
  case (Enqueue op priority)
  have "mset [1..<Suc (n + 1)] = add_mset (n + 1) (mset [1..<Suc n])" for n by simp
  with Enqueue l show ?thesis
    unfolding wq_ledger_def wq_outstanding_def enqueue_open
    by (simp add: mset_insert_entry del: upt_Suc)
next
  case (ResetSession reason)
  with l wq_control_complete [OF c] show ?thesis
    by (auto simp: wq_ledger_def wq_outstanding_def reset_complete multiset.map_comp comp_def ac_simps simp del: upt_Suc)
next
  case Destroy
  with l wq_control_complete [OF c] show ?thesis
    by (auto simp: wq_ledger_def wq_outstanding_def destroy_complete multiset.map_comp comp_def ac_simps simp del: upt_Suc)
next
  case Microtask
  with l wq_control_complete [OF c] show ?thesis
    by (auto simp: wq_ledger_def wq_outstanding_def runLoop_complete Let_def simp del: upt_Suc split: list.splits)
next
  case (HandlerDone k e thrown)
  with l wq_control_complete [OF c] show ?thesis
    by (auto simp: wq_ledger_def wq_outstanding_def handler_done_complete Let_def
        simp del: upt_Suc split: queueStatus.splits list.splits)
next
  case (ResetSettled r lo)
  with l wq_control_complete [OF c] show ?thesis
    by (simp add: wq_ledger_def wq_outstanding_def reset_settled_complete del: upt_Suc)
next
  case (ResetDone r)
  with l show ?thesis by (simp add: wq_ledger_def wq_outstanding_def reset_done_complete del: upt_Suc)
qed

lemma wq_reachable_ledger: "wq_reachable q \<Longrightarrow> wq_ledger q"
proof (induction rule: wq_reachable.induct)
  case Start
  show ?case by (simp add: wq_ledger_def wq_outstanding_def wq_started_def new_writeQueue_def)
next
  case (Step q q')
  then show ?case by (blast intro: wq_ledger_step wq_reachable_control)
qed

lemma wq_settled_step:
  assumes step: "wq_step q q'" and c: "wq_control q"
  shows "\<exists>xs. wq_settled q' = wq_settled q @ xs"
  using step c
proof (cases rule: wq_step_cases)
  case (HandlerDone k e thrown)
  with wq_control_complete [OF c] show ?thesis
    by (auto simp: handler_done_complete Let_def split: queueStatus.splits list.splits)
qed (use wq_control_complete [OF c] in
    \<open>auto simp: complete_simps(1,2,3,5,6,7) Let_def split: list.splits\<close>)

interpretation wq_promises: promise_ledger wq_reachable wq_step wq_opIdCounter wq_outstanding wq_settled
proof unfold_locales
  fix q q' :: "'p writeQueue"
  assume r: "wq_reachable q"
  show "wq_step q q' \<Longrightarrow> wq_reachable q'" using r by (rule wq_reachable.Step)
  show "mset (wq_outstanding q) + mset (map fst (wq_settled q)) = mset [1..<Suc (wq_opIdCounter q)]"
    using wq_reachable_ledger [OF r] by (simp add: wq_ledger_def)
  show "wq_step q q' \<Longrightarrow> \<exists>xs. wq_settled q' = wq_settled q @ xs"
    by (rule wq_settled_step [OF _ wq_reachable_control [OF r]])
qed

section \<open>Order of processing\<close>

definition entry_before :: "'p pendingEntry \<Rightarrow> 'p pendingEntry \<Rightarrow> bool" where
  "entry_before a b \<longleftrightarrow> entry_priority b < entry_priority a \<or>
    entry_priority b = entry_priority a \<and> opId a < opId b"

lemma dropWhile_priority:
  "sorted_wrt entry_before es \<Longrightarrow> x \<in> set (dropWhile (\<lambda>x. \<not> entry_priority x < p) es) \<Longrightarrow> entry_priority x < p"
  by (induction es) (auto simp: entry_before_def split: if_splits)

lemma sorted_insert_entry:
  assumes sorted: "sorted_wrt entry_before es" and new: "\<And>x. x \<in> set es \<Longrightarrow> opId x < opId e"
  shows "sorted_wrt entry_before (insert_entry e es)"
proof -
  let ?P = "\<lambda>x. \<not> entry_priority x < entry_priority e"
  have "sorted_wrt entry_before (takeWhile ?P es @ dropWhile ?P es)" using sorted by simp
  moreover have "entry_before x e" if "x \<in> set (takeWhile ?P es)" for x
    using set_takeWhileD [OF that] new by (auto simp: entry_before_def)
  moreover have "entry_before e x" if "x \<in> set (dropWhile ?P es)" for x
    using dropWhile_priority [OF sorted that] by (simp add: entry_before_def)
  ultimately show ?thesis
    unfolding insert_entry_def sorted_wrt_append by auto
qed

lemma wq_order_step:
  assumes step: "wq_step q q'" and r: "wq_reachable q" and s: "sorted_wrt entry_before (wq_pending q)"
  shows "sorted_wrt entry_before (wq_pending q')"
  using step wq_reachable_control [OF r]
proof (cases rule: wq_step_cases)
  case (Enqueue op priority)
  have "opId x \<le> wq_opIdCounter q" if "x \<in> set (wq_pending q)" for x
    using wq_promises.ids_issued [OF r, of "opId x"] that by (auto simp: wq_outstanding_def)
  then have "sorted_wrt entry_before (insert_entry \<lparr>opId = wq_opIdCounter q + 1, entry_op = op,
      entry_priority = p\<rparr> (wq_pending q))" for p
    by (intro sorted_insert_entry [OF s]) (auto simp: less_Suc_eq_le)
  with Enqueue s show ?thesis by (simp add: enqueue_open)
next
  case (HandlerDone k e thrown)
  with s wq_control_complete [OF wq_reachable_control [OF r]] show ?thesis
    by (auto simp: handler_done_complete Let_def split: queueStatus.splits list.splits)
qed (use s wq_control_complete [OF wq_reachable_control [OF r]] in
    \<open>auto simp: complete_simps(1,2,3,5,6,7) Let_def split: list.splits\<close>)

lemma wq_reachable_sorted: "wq_reachable q \<Longrightarrow> sorted_wrt entry_before (wq_pending q)"
proof (induction rule: wq_reachable.induct)
  case Start
  show ?case by (simp add: wq_started_def new_writeQueue_def)
next
  case (Step q q')
  then show ?case by (blast intro: wq_order_step)
qed

section \<open>Progress\<close>

text \<open>The steps the queue takes by itself, given that awaited handlers return or throw.\<close>

inductive wq_internal :: "'p writeQueue \<Rightarrow> 'p writeQueue \<Rightarrow> bool" where
  Tick: "wq_scheduled q > 0 \<Longrightarrow> wq_internal q (runLoop_start q)"
| Return: "n < length (wq_inflight q) \<Longrightarrow> wq_internal q (handler_done n thrown q)"

inductive_cases wq_internalE: "wq_internal q q'"

definition wq_work :: "'p writeQueue \<Rightarrow> nat" where
  "wq_work q = length (wq_pending q) + length (wq_inflight q) + wq_scheduled q"

lemma wq_internal_step: "wq_internal q q' \<Longrightarrow> wq_step q q'"
  by (erule wq_internalE) (auto intro: wq_step.intros)

lemma wq_internal_work:
  assumes "wq_control q" and "wq_internal q q'"
  shows "wq_work q' < wq_work q"
  using assms(2)
proof (cases rule: wq_internal.cases)
  case Tick
  then show ?thesis
    using wq_control_complete [OF assms(1)]
    by (auto simp: wq_work_def runLoop_complete Let_def split: list.splits)
next
  case (Return n thrown)
  then obtain l e where "n = 0" "wq_inflight q = [(l, e)]"
    using singleton_nth [of n "wq_inflight q"] wq_control_length [OF assms(1)] by auto
  then show ?thesis
    using Return wq_control_complete [OF assms(1)]
    by (auto simp: wq_work_def handler_done_complete Let_def split: queueStatus.splits list.splits)
qed

lemma wq_internal_enabled:
  assumes "wq_control q" and "wq_outstanding q \<noteq> []"
  shows "\<exists>q'. wq_internal q q'"
proof (cases "wq_inflight q")
  case Nil
  with assms have "wq_scheduled q > 0"
    by (auto simp: wq_control_def wq_outstanding_def split: queueStatus.splits)
  then show ?thesis by (blast intro: Tick)
next
  case (Cons x xs)
  then have "0 < length (wq_inflight q)" by simp
  then show ?thesis by (blast intro: Return)
qed

section \<open>Properties\<close>

text \<open>
  C17: Writes are serialised. In every interleaving of client calls, microtasks, handler returns
  and reset continuations of a bootstrapped queue at most one operation handler is running, and it
  belongs to the loop the status names while the queue is processing; no handler runs while the
  queue is idle; at most one session reset is under way, and none when the queue is idle or
  processing; and while the session reset callback runs no operation handler runs.
\<close>
theorem write_queue_exclusion:
  assumes "wq_reachable q"
  shows "length (wq_inflight q) \<le> 1 \<and> length (wq_resets q) \<le> 1
    \<and> (wq_status q = Processing l \<longrightarrow> map fst (wq_inflight q) = [l] \<and> wq_resets q = [])
    \<and> (wq_status q = Idle \<longrightarrow> wq_inflight q = [] \<and> wq_resets q = [])
    \<and> ((r, CallbackRunning) \<in> set (wq_resets q) \<longrightarrow> wq_inflight q = [])"
  using wq_reachable_control [OF assms] wq_control_length [OF wq_reachable_control [OF assms]]
  by (auto simp: wq_control_def split: queueStatus.splits)

definition sample_op :: "unit writeQueueOp" where
  "sample_op = \<lparr>op_type = FlushCacheKeys, op_payload = ()\<rparr>"

definition sample_queue :: "unit writeQueue" where
  "sample_queue = runLoop_start (snd (wq_enqueue sample_op (Some 5)
    (snd (wq_enqueue sample_op None (snd (wq_enqueue sample_op None wq_started))))))"

lemma sample_reachable: "wq_reachable sample_queue"
proof -
  let ?q = "snd (wq_enqueue sample_op (Some 5)
    (snd (wq_enqueue sample_op None (snd (wq_enqueue sample_op None wq_started)))))"
  have "wq_reachable ?q" by (intro wq_reachable.Step [OF _ wq_step.Enqueue] wq_reachable.Start)
  moreover have "wq_scheduled ?q > 0" by (simp add: enqueue_open wq_started_def new_writeQueue_def)
  ultimately show ?thesis unfolding sample_queue_def by (blast intro: wq_reachable.Step wq_step.Microtask)
qed

lemma sample_queue_eval:
  "wq_inflight sample_queue = [(1, \<lparr>opId = 3, entry_op = sample_op, entry_priority = 5\<rparr>)]
   \<and> map opId (wq_pending sample_queue) = [1, 2] \<and> wq_status sample_queue = Processing 1
   \<and> wq_settled sample_queue = [] \<and> wq_opIdCounter sample_queue = 3"
proof -
  have "op_type sample_op \<in> set all_op_types" by simp
  then show ?thesis
    by (simp add: sample_queue_def wq_enqueue_def wq_started_def new_writeQueue_def scheduleProcessing_def
        insert_entry_def runLoop_start_def Let_def)
qed

theorem write_queue_exclusion_witness:
  "wq_status sample_queue = Processing 1 \<and> map fst (wq_inflight sample_queue) = [1]"
  using write_queue_exclusion [OF sample_reachable] sample_queue_eval by blast

text \<open>
  C18: Every promise is settled exactly once. Of the operations accepted so far (numbered from 1)
  each is either waiting, or in flight, or settled, never two of these and never twice; and once
  settled, with success, with a discarding exception or with a rejection, it keeps that outcome
  in every later state.
\<close>
theorem write_queue_settles_once:
  assumes "wq_reachable q" and "wq_step\<^sup>*\<^sup>* q q'"
  shows "distinct (wq_outstanding q @ map fst (wq_settled q))
    \<and> (i \<in> set (wq_outstanding q) \<union> fst ` set (wq_settled q) \<longleftrightarrow> 1 \<le> i \<and> i \<le> wq_opIdCounter q)
    \<and> ((i, out) \<in> set (wq_settled q) \<and> (i, out') \<in> set (wq_settled q') \<longrightarrow> out' = out)
    \<and> set (wq_settled q) \<subseteq> set (wq_settled q')"
proof (intro conjI impI)
  show "distinct (wq_outstanding q @ map fst (wq_settled q))"
    by (rule wq_promises.ids_distinct [OF assms(1)])
  show "i \<in> set (wq_outstanding q) \<union> fst ` set (wq_settled q) \<longleftrightarrow> 1 \<le> i \<and> i \<le> wq_opIdCounter q"
    by (rule wq_promises.ids_issued [OF assms(1)])
  show "out' = out" if "(i, out) \<in> set (wq_settled q) \<and> (i, out') \<in> set (wq_settled q')"
    using wq_promises.outcome_final [OF assms] that by blast
  show "set (wq_settled q) \<subseteq> set (wq_settled q')"
    using wq_promises.settled_final [OF assms(2,1)] by auto
qed

theorem write_queue_settles_once_witness:
  "wq_step\<^sup>*\<^sup>* sample_queue (handler_done 0 None sample_queue)
   \<and> distinct (wq_outstanding sample_queue @ map fst (wq_settled sample_queue))"
proof
  show "wq_step\<^sup>*\<^sup>* sample_queue (handler_done 0 None sample_queue)"
    by (rule r_into_rtranclp, rule wq_step.HandlerDone) (simp add: sample_queue_eval)
  then show "distinct (wq_outstanding sample_queue @ map fst (wq_settled sample_queue))"
    using write_queue_settles_once [OF sample_reachable] by blast
qed

text \<open>
  C20: Order of processing. The pending list is always ordered by descending priority and, within
  one priority, by order of acceptance; so the operation the loop takes next has no pending
  operation of higher priority and none of the same priority that was accepted earlier.
\<close>
theorem write_queue_order:
  assumes "wq_reachable q" and "wq_pending q = e # es" and "x \<in> set es"
  shows "entry_priority x < entry_priority e \<or>
    entry_priority x = entry_priority e \<and> opId e < opId x"
  using wq_reachable_sorted [OF assms(1)] assms(2,3) by (auto simp: entry_before_def)

theorem write_queue_order_witness:
  "\<exists>e x. wq_pending sample_queue = [e, x] \<and> entry_priority x \<le> entry_priority e"
proof -
  have "length (wq_pending sample_queue) = 2"
    using sample_queue_eval by (metis length_map length_Cons list.size(3) numeral_2_eq_2)
  then obtain e x where ex: "wq_pending sample_queue = [e, x]"
    by (metis (no_types) length_0_conv length_Suc_conv numeral_2_eq_2)
  show ?thesis
    using write_queue_order [OF sample_reachable ex, of x] ex by auto
qed

text \<open>
  C19: No operation is forgotten. Whenever an accepted operation is waiting or in flight, the queue
  can go on by itself, by running a scheduled microtask or when the awaited handler returns; each
  such step uses up work, so there are no infinite runs of them; and a run that cannot go on has
  settled every operation that was outstanding at its start and left none waiting.
\<close>
theorem write_queue_drains:
  assumes "wq_reachable q"
  shows "(wq_outstanding q \<noteq> [] \<longrightarrow> (\<exists>q'. wq_internal q q'))
    \<and> (wq_internal q q' \<longrightarrow> wq_work q' < wq_work q)
    \<and> (wq_internal\<^sup>*\<^sup>* q q' \<and> \<not> (\<exists>q''. wq_internal q' q'') \<longrightarrow>
        wq_outstanding q' = [] \<and> set (wq_outstanding q) \<subseteq> fst ` set (wq_settled q'))"
proof (intro conjI impI)
  note c = wq_reachable_control [OF assms]
  show "wq_outstanding q \<noteq> [] \<Longrightarrow> \<exists>q'. wq_internal q q'" by (rule wq_internal_enabled [OF c])
  show "wq_internal q q' \<Longrightarrow> wq_work q' < wq_work q" by (rule wq_internal_work [OF c])
  assume run: "wq_internal\<^sup>*\<^sup>* q q' \<and> \<not> (\<exists>q''. wq_internal q' q'')"
  have "wq_step\<^sup>*\<^sup>* q q' \<and> wq_opIdCounter q' \<ge> wq_opIdCounter q"
    using conjunct1 [OF run]
  proof (induction rule: rtranclp_induct)
    case (step q1 q2)
    then have "wq_reachable q1" using wq_promises.settled_final [OF _ assms] by blast
    then have c1: "wq_control q1" by (rule wq_reachable_control)
    have "wq_opIdCounter q2 = wq_opIdCounter q1"
      using wq_internal_step [OF step.hyps(2)] c1 step.hyps(2)
    proof (cases rule: wq_internal.cases [OF step.hyps(2)])
      case 1
      then show ?thesis
        using wq_control_complete [OF c1] by (auto simp: runLoop_complete Let_def split: list.splits)
    next
      case (2 n thrown)
      then obtain l e where "n = 0" "wq_inflight q1 = [(l, e)]"
        using singleton_nth [of n "wq_inflight q1"] wq_control_length [OF c1] by auto
      then show ?thesis
        using 2 wq_control_complete [OF c1]
        by (auto simp: handler_done_complete Let_def split: queueStatus.splits list.splits)
    qed
    then show ?case using step wq_internal_step by (metis rtranclp.rtrancl_into_rtrancl)
  qed simp
  then have r': "wq_reachable q'" and le: "wq_opIdCounter q \<le> wq_opIdCounter q'"
    using wq_promises.settled_final [OF _ assms] by blast+
  show empty: "wq_outstanding q' = []"
    using wq_internal_enabled [OF wq_reachable_control [OF r']] run by blast
  show "set (wq_outstanding q) \<subseteq> fst ` set (wq_settled q')"
  proof
    fix i assume "i \<in> set (wq_outstanding q)"
    then have "1 \<le> i \<and> i \<le> wq_opIdCounter q'" using wq_promises.ids_issued [OF assms, of i] le by auto
    then show "i \<in> fst ` set (wq_settled q')" using wq_promises.ids_issued [OF r', of i] empty by simp
  qed
qed

theorem write_queue_drains_witness:
  "wq_outstanding sample_queue = [1, 2, 3] \<and> (\<exists>q'. wq_internal sample_queue q')"
proof
  show "wq_outstanding sample_queue = [1, 2, 3]" by (simp add: wq_outstanding_def sample_queue_eval)
  then show "\<exists>q'. wq_internal sample_queue q'" using write_queue_drains [OF sample_reachable] by auto
qed

text \<open>
  Resetting a session. On a running queue \<open>resetSession\<close> does not throw, resolves every
  waiting operation with the reset exception and calls its eviction handler, in queue order, leaves
  nothing waiting, does not touch the operation in flight, and closes the queue: an enqueue is
  refused with that exception and no effect until the reset is done.
\<close>
theorem reset_session_spec:
  assumes "wq_reachable q" and "wq_status q = Idle \<or> wq_status q = Processing l"
  shows "fst (wq_resetSession reason q) = None
    \<and> wq_settled (snd (wq_resetSession reason q)) = wq_settled q @
        map (\<lambda>e. (opId e, ResolveErr (SessionResetException reason))) (wq_pending q)
    \<and> wq_evicted (snd (wq_resetSession reason q)) = wq_evicted q @
        map (\<lambda>e. (opId e, SessionResetException reason)) (wq_pending q)
    \<and> wq_pending (snd (wq_resetSession reason q)) = []
    \<and> wq_inflight (snd (wq_resetSession reason q)) = wq_inflight q
    \<and> wq_enqueue op prio (snd (wq_resetSession reason q)) =
        (Inl (SessionResetException reason), snd (wq_resetSession reason q))"
proof -
  note c = wq_control_complete [OF wq_reachable_control [OF assms(1)]]
  show ?thesis
    using assms(2) by (auto simp: wq_resetSession_def discard_complete [OF c] wq_enqueue_def)
qed

theorem reset_session_spec_witness:
  "map fst (wq_settled (snd (wq_resetSession ''logout'' sample_queue))) = [1, 2]
   \<and> length (wq_inflight (snd (wq_resetSession ''logout'' sample_queue))) = 1"
proof -
  have "wq_status sample_queue = Idle \<or> wq_status sample_queue = Processing 1" by (simp add: sample_queue_eval)
  from reset_session_spec [OF sample_reachable this, of "''logout''"]
  show ?thesis by (simp add: sample_queue_eval comp_def)
qed

text \<open>
  Destruction is final. \<open>destroy\<close> does not throw and resolves and evicts every waiting
  operation with the destroyed exception; in every later state the queue is destroyed, has nothing
  waiting and refuses every enqueue, so the only operation that can still run is the one that was
  in flight.
\<close>
theorem destroy_final:
  assumes "wq_reachable q" and "wq_step\<^sup>*\<^sup>* (snd (wq_destroy q)) q'"
  shows "fst (wq_destroy q) = None
    \<and> wq_settled (snd (wq_destroy q)) = wq_settled q @
        map (\<lambda>e. (opId e, ResolveErr WriteQueueDestroyedException)) (wq_pending q)
    \<and> wq_status q' = Destroyed \<and> wq_pending q' = []
    \<and> wq_enqueue op prio q' = (Inl WriteQueueDestroyedException, q')
    \<and> set (wq_inflight q') \<subseteq> set (wq_inflight q)"
proof -
  note c = wq_reachable_control [OF assms(1)]
  note cc = wq_control_complete [OF c]
  have r0: "wq_reachable (snd (wq_destroy q))" by (rule wq_reachable.Step [OF assms(1) wq_step.Destroy])
  have "wq_status q' = Destroyed \<and> set (wq_inflight q') \<subseteq> set (wq_inflight q)"
    using assms(2)
  proof (induction rule: rtranclp_induct)
    case base
    show ?case by (simp add: destroy_complete [OF cc])
  next
    case (step q1 q2)
    have r1: "wq_reachable q1" using wq_promises.settled_final [OF step.hyps(1) r0] by blast
    note c1 = wq_reachable_control [OF r1]
    from step.hyps(2) c1 show ?case
    proof (cases rule: wq_step_cases)
      case (HandlerDone l e thrown)
      then show ?thesis
        using step.IH wq_control_complete [OF c1] by (simp add: handler_done_complete Let_def)
    qed (use step.IH wq_control_complete [OF c1] in \<open>simp_all add: complete_simps(1,2,3,5,6,7) Let_def\<close>)
  qed
  moreover have "wq_reachable q'" using wq_promises.settled_final [OF assms(2) r0] by blast
  ultimately show ?thesis
    using wq_reachable_control [of q'] by (simp add: wq_control_def wq_enqueue_def)
      (simp add: wq_destroy_def evict_entries_complete [OF cc])
qed

theorem destroy_final_witness:
  "wq_status (snd (wq_destroy sample_queue)) = Destroyed
   \<and> map fst (wq_settled (snd (wq_destroy sample_queue))) = [1, 2]"
  using destroy_final [OF sample_reachable rtranclp.rtrancl_refl]
  by (simp add: sample_queue_eval comp_def)

end
