(* ===== verification/StorageTypes.thy ===== *)
theory StorageTypes
  imports Prelude "HOL-Library.Product_Lexorder"
begin

text \<open>
  The records that live in client storage, \<^verbatim>\<open>packages/client/src/storage/IStorage.ts\<close>, and the
  command record with its statuses and list filter, \<^verbatim>\<open>packages/client/src/types/commands.ts\<close>.
  Timestamps are integers.  Positions and revisions are stored as the decimal text of a
  \<open>bigint\<close>; the model keeps the number.  Columns that hold JSON text stay texts, and the fields of
  a command that only its sender reads are its opaque \<open>cmd_body\<close>.
\<close>

section \<open>Commands\<close>

datatype commandStatus = Pending | Blocked | Sending | Succeeded | Applied | Failed | Cancelled

fun isTerminalStatus :: "commandStatus \<Rightarrow> bool" where
  "isTerminalStatus Applied = True"
| "isTerminalStatus Succeeded = True"
| "isTerminalStatus Failed = True"
| "isTerminalStatus Cancelled = True"
| "isTerminalStatus _ = False"

definition isConfirmedStatus :: "commandStatus \<Rightarrow> bool" where
  "isConfirmedStatus s \<longleftrightarrow> s = Succeeded \<or> s = Applied"

datatype dependencySource = EntityRefSource | AggregateChainSource | ExplicitSource

record commandDependency =
  dep_commandId :: string
  dep_source :: dependencySource

record 'c commandRecord =
  commandId :: string
  cmd_cacheKey :: string
  cmd_service :: string
  cmd_type :: string
  cmd_status :: commandStatus
  dependsOn :: "commandDependency list"
  blockedBy :: "string list"
  attempts :: nat
  cmd_seq :: int
  cmd_createdAt :: int
  cmd_updatedAt :: int
  cmd_body :: 'c

text \<open>A filter field that is a value or an array of values.\<close>

datatype 'a oneOrMany = One 'a | Many "'a list"

fun many :: "'a oneOrMany \<Rightarrow> 'a list" where
  "many (One x) = [x]"
| "many (Many xs) = xs"

record commandFilter =
  flt_status :: "commandStatus oneOrMany option"
  flt_type :: "string oneOrMany option"
  flt_service :: "string option"
  flt_createdAfter :: "int option"
  flt_createdBefore :: "int option"
  flt_limit :: "int option"
  flt_offset :: "int option"

definition no_filter :: commandFilter where
  "no_filter = \<lparr>flt_status = None, flt_type = None, flt_service = None, flt_createdAfter = None,
    flt_createdBefore = None, flt_limit = None, flt_offset = None\<rparr>"

section \<open>Sessions and cache keys\<close>

record sessionRecord =
  userId :: string
  ses_createdAt :: int
  lastSeenAt :: int

datatype evictionPolicy = Ephemeral | Persistent

text \<open>Ephemeral keys are evicted before persistent ones: the order of the constructors.\<close>

instantiation evictionPolicy :: linorder
begin

definition less_eq_evictionPolicy :: "evictionPolicy \<Rightarrow> evictionPolicy \<Rightarrow> bool" where
  "less_eq_evictionPolicy p q \<longleftrightarrow> p = Ephemeral \<or> q = Persistent"

definition less_evictionPolicy :: "evictionPolicy \<Rightarrow> evictionPolicy \<Rightarrow> bool" where
  "less_evictionPolicy p q \<longleftrightarrow> p = Ephemeral \<and> q = Persistent"

instance
proof
  fix p q r :: evictionPolicy
  show "(p < q) = (p \<le> q \<and> \<not> q \<le> p)" by (cases p; cases q; simp add: less_eq_evictionPolicy_def less_evictionPolicy_def)
  show "p \<le> p" by (cases p; simp add: less_eq_evictionPolicy_def)
  show "p \<le> q \<Longrightarrow> q \<le> r \<Longrightarrow> p \<le> r" by (cases p; cases q; cases r; simp add: less_eq_evictionPolicy_def)
  show "p \<le> q \<Longrightarrow> q \<le> p \<Longrightarrow> p = q" by (cases p; cases q; simp add: less_eq_evictionPolicy_def)
  show "p \<le> q \<or> q \<le> p" by (cases p; cases q; simp add: less_eq_evictionPolicy_def)
qed

end

datatype cacheKeyKind = EntityKind | ScopeKind

record cacheKeyRecord =
  ck_key :: string
  ck_kind :: cacheKeyKind
  ck_linkService :: "string option"
  ck_linkType :: "string option"
  ck_linkId :: "string option"
  ck_service :: "string option"
  ck_scopeType :: "string option"
  ck_scopeParams :: "string option"
  ck_parentKey :: "string option"
  ck_evictionPolicy :: evictionPolicy
  ck_frozen :: bool
  ck_frozenAt :: "int option"
  ck_inheritedFrozen :: bool
  ck_lastAccessedAt :: int
  ck_expiresAt :: "int option"
  ck_createdAt :: int
  ck_holdCount :: nat
  ck_estimatedSizeBytes :: "int option"
  ck_pendingIdMappings :: "string option"

section \<open>Events, read models, id mappings\<close>

datatype eventPersistence = PermanentEvent | StatefulEvent | EphemeralEvent | AnticipatedEvent

record cachedEventRecord =
  ev_id :: string
  ev_type :: string
  ev_streamId :: string
  ev_persistence :: eventPersistence
  ev_data :: string
  ev_metadata :: "string option"
  ev_position :: "int option"
  ev_revision :: "int option"
  ev_commandId :: "string option"
  ev_cacheKeys :: "string list"
  ev_createdAt :: int
  ev_processedAt :: "int option"

record clientMetadata =
  cm_clientId :: string
  cm_reconciledAt :: "int option"

record readModelRecord =
  rm_id :: string
  rm_collection :: string
  rm_cacheKeys :: "string list"
  rm_serverData :: "string option"
  rm_effectiveData :: string
  rm_hasLocalChanges :: bool
  rm_updatedAt :: int
  rm_revision :: "int option"
  rm_position :: "int option"
  rm_clientMetadata :: "clientMetadata option"

record commandIdMappingRecord =
  map_clientId :: string
  map_serverId :: string
  map_createdAt :: int

datatype sortDirection = Asc | Desc

record storageSortTerm =
  sort_column :: string
  sort_direction :: sortDirection

record migrateReadModelIdParams =
  mig_collection :: string
  mig_fromId :: string
  mig_toId :: string
  mig_effectiveData :: string
  mig_serverData :: "string option"
  mig_hasLocalChanges :: bool
  mig_updatedAt :: int

end
