(* ===== verification/SortReadModels.thy ===== *)
theory SortReadModels
  imports StorageTypes JsValue "HOL-Library.List_Lexorder" "HOL-Library.Char_ord"
begin

text \<open>
  Composite ordering of read-model records,
  \<^verbatim>\<open>packages/client/src/storage/sort-read-models.ts\<close>.  \<open>JSON.parse\<close> (\<open>None\<close> when it throws) and
  the string coercion \<open>String(x)\<close> are functions of the JavaScript engine and are parameters, as are
  the resolvers a consumer declares.  Strings compare by code unit.
\<close>

record sortColumnResolver =
  readValue :: "(jsval \<Rightarrow> jsval) option"
  compareStrings :: "(string \<Rightarrow> string \<Rightarrow> int) option"

type_synonym sortResolverLookup = "string \<Rightarrow> sortColumnResolver option"

record jsEngine =
  parse_json :: "string \<Rightarrow> jsval option"
  to_js_string :: "jsval \<Rightarrow> string"

definition opt_numeral_text :: "int option \<Rightarrow> jsval" where
  "opt_numeral_text p = (case p of
     None \<Rightarrow> JNull
   | Some i \<Rightarrow> JStr (if i < 0 then CHR ''-'' # show_nat (nat (- i)) else show_nat (nat i)))"

definition readSortValue :: "jsEngine \<Rightarrow> readModelRecord \<Rightarrow> string \<Rightarrow> sortResolverLookup \<Rightarrow> jsval" where
  "readSortValue js r column resolveColumn =
    (if column = ''id'' then JStr (rm_id r)
     else if column = ''updated_at'' then JNum (rm_updatedAt r)
     else if column = ''_revision'' then opt_numeral_text (rm_revision r)
     else if column = ''_position'' then opt_numeral_text (rm_position r)
     else if column = ''_has_local_changes'' then JBool (rm_hasLocalChanges r)
     else case parse_json js (rm_effectiveData r) of
        None \<Rightarrow> JUndef
      | Some data \<Rightarrow>
          (case Option.bind (resolveColumn column) readValue of
             Some f \<Rightarrow> f data
           | None \<Rightarrow> js_member data column))"

text \<open>For unequal operands only; the result is \<open>-1\<close> or \<open>1\<close>.\<close>

definition compareSortValues ::
  "jsEngine \<Rightarrow> jsval \<Rightarrow> jsval \<Rightarrow> (string \<Rightarrow> string \<Rightarrow> int) option \<Rightarrow> int" where
  "compareSortValues js a b stringComparator =
    (case (a, b) of
       (JNum x, JNum y) \<Rightarrow> if x < y then -1 else 1
     | (JStr x, JStr y) \<Rightarrow>
         (case stringComparator of
            Some f \<Rightarrow> if f x y < 0 then -1 else 1
          | None \<Rightarrow> if x < y then -1 else 1)
     | (JBool x, JBool y) \<Rightarrow> if x then 1 else -1
     | _ \<Rightarrow> if to_js_string js a < to_js_string js b then -1 else 1)"

text \<open>\<open>===\<close> on values read off two records: objects parsed from two texts are never identical.\<close>

definition strict_eq :: "jsval \<Rightarrow> jsval \<Rightarrow> bool" where
  "strict_eq a b \<longleftrightarrow> \<not> is_object a \<and> \<not> is_object b \<and> a = b"

fun compareTerms ::
  "jsEngine \<Rightarrow> sortResolverLookup \<Rightarrow> storageSortTerm list \<Rightarrow> readModelRecord \<Rightarrow> readModelRecord \<Rightarrow> int" where
  "compareTerms js resolveColumn [] a b = 0"
| "compareTerms js resolveColumn (t # ts) a b =
    (let aVal = readSortValue js a (sort_column t) resolveColumn;
         bVal = readSortValue js b (sort_column t) resolveColumn
     in if strict_eq aVal bVal then compareTerms js resolveColumn ts a b
        else if aVal = JUndef then (if sort_direction t = Asc then -1 else 1)
        else if bVal = JUndef then (if sort_direction t = Asc then 1 else -1)
        else (let cmp = compareSortValues js aVal bVal
                    (Option.bind (resolveColumn (sort_column t)) compareStrings)
              in if sort_direction t = Asc then cmp else - cmp))"

definition sortReadModelRecords ::
  "jsEngine \<Rightarrow> readModelRecord list \<Rightarrow> storageSortTerm list \<Rightarrow> sortResolverLookup \<Rightarrow> readModelRecord list" where
  "sortReadModelRecords js records terms resolveColumn =
    (if terms = [] then records else js_sort (compareTerms js resolveColumn terms) records)"

section \<open>Facts\<close>

lemma mset_js_insert [simp]: "mset (js_insert cmp x ys) = add_mset x (mset ys)"
  by (induction ys) auto

lemma mset_js_sort [simp]: "mset (js_sort cmp xs) = mset xs"
proof -
  have "mset (fold (js_insert cmp) xs ys) = mset xs + mset ys" for ys
    by (induction xs arbitrary: ys) auto
  then show ?thesis by (simp add: js_sort_def)
qed

definition no_resolver :: sortResolverLookup where
  "no_resolver c = None"

definition recency_sort :: "storageSortTerm list" where
  "recency_sort = [\<lparr>sort_column = ''updated_at'', sort_direction = Desc\<rparr>,
                   \<lparr>sort_column = ''id'', sort_direction = Asc\<rparr>]"

lemma recency_compare:
  "compareTerms js no_resolver recency_sort a b < 0 \<longleftrightarrow>
    (- rm_updatedAt a, rm_id a) < (- rm_updatedAt b, rm_id b)"
  by (auto simp: recency_sort_def readSortValue_def compareSortValues_def strict_eq_def no_resolver_def Let_def)

text \<open>
  Composite sort. Whatever the sort terms, resolvers and values, \<open>sortReadModelRecords\<close>
  returns a permutation of its input; and sorting by \<open>updated_at\<close> descending then \<open>id\<close> ascending
  is the stable sort by that pair: the most recently updated record first, ties in id order.
\<close>
theorem sort_read_models_spec:
  "mset (sortReadModelRecords js records terms resolveColumn) = mset records
   \<and> sortReadModelRecords js records recency_sort no_resolver =
      sort_key (\<lambda>r. (- rm_updatedAt r, rm_id r)) records"
proof
  show "mset (sortReadModelRecords js records terms resolveColumn) = mset records"
    by (simp add: sortReadModelRecords_def)
  have "recency_sort \<noteq> []" by (simp add: recency_sort_def)
  then show "sortReadModelRecords js records recency_sort no_resolver =
      sort_key (\<lambda>r. (- rm_updatedAt r, rm_id r)) records"
    by (simp add: sortReadModelRecords_def js_sort_sort_key [OF recency_compare])
qed

end
