(* ===== verification/Storage.thy ===== *)
theory Storage
  imports SortReadModels
begin

text \<open>
  The in-memory storage backend, \<^verbatim>\<open>packages/client/src/storage/InMemoryStorage.ts\<close>: seven maps and
  the operations of \<open>IStorage\<close> on them.  Every method is one stretch of synchronous code behind an
  \<open>async\<close> signature, so an operation is a function on the state; the clock (\<open>Date.now()\<close>) is an
  argument.  Records are values: a caller that goes on mutating an object it has saved is outside
  the model.  \<open>Partial\<close> updates are functions on the record.
\<close>

section \<open>State\<close>

record 'c inMemoryStorage =
  session :: "sessionRecord option"
  cacheKeys :: "(string, cacheKeyRecord) jsmap"
  commands :: "(string, 'c commandRecord) jsmap"
  cachedEvents :: "(string, cachedEventRecord) jsmap"
  readModels :: "(string, readModelRecord) jsmap"
  mappingsByClientId :: "(string, commandIdMappingRecord) jsmap"
  mappingsByServerId :: "(string, commandIdMappingRecord) jsmap"
  initialized :: bool

definition new_storage :: "'c inMemoryStorage" where
  "new_storage = \<lparr>session = None, cacheKeys = [], commands = [], cachedEvents = [], readModels = [],
    mappingsByClientId = [], mappingsByServerId = [], initialized = False\<rparr>"

definition storage_initialize :: "'c inMemoryStorage \<Rightarrow> 'c inMemoryStorage" where
  "storage_initialize st = st\<lparr>initialized := True\<rparr>"

definition storage_close :: "'c inMemoryStorage \<Rightarrow> 'c inMemoryStorage" where
  "storage_close st = st\<lparr>initialized := False\<rparr>"

definition storage_clear :: "'c inMemoryStorage \<Rightarrow> 'c inMemoryStorage" where
  "storage_clear st =
    st\<lparr>session := None, cacheKeys := [], commands := [], cachedEvents := [], readModels := []\<rparr>"

section \<open>Session\<close>

definition saveSession :: "sessionRecord \<Rightarrow> 'c inMemoryStorage \<Rightarrow> 'c inMemoryStorage" where
  "saveSession s st = st\<lparr>session := Some s\<rparr>"

definition deleteSession :: "'c inMemoryStorage \<Rightarrow> 'c inMemoryStorage" where
  "deleteSession st =
    st\<lparr>session := None, cacheKeys := [], commands := [], cachedEvents := [], readModels := []\<rparr>"

definition touchSession :: "int \<Rightarrow> 'c inMemoryStorage \<Rightarrow> 'c inMemoryStorage" where
  "touchSession now st =
    (case session st of Some s \<Rightarrow> st\<lparr>session := Some (s\<lparr>lastSeenAt := now\<rparr>)\<rparr> | None \<Rightarrow> st)"

section \<open>Events (the parts other sections need)\<close>

text \<open>Deletes an event whose last cache key is \<open>cacheKey\<close>, strips the key off any other.\<close>

definition strip_event_key :: "string \<Rightarrow> cachedEventRecord \<Rightarrow> cachedEventRecord option option" where
  "strip_event_key cacheKey e =
    (if cacheKey \<notin> set (ev_cacheKeys e) then None
     else (let remaining = filter (\<lambda>k. k \<noteq> cacheKey) (ev_cacheKeys e)
           in if remaining = [] then Some None else Some (Some (e\<lparr>ev_cacheKeys := remaining\<rparr>))))"

definition removeCacheKeyFromEvents :: "string \<Rightarrow> 'c inMemoryStorage \<Rightarrow> string list \<times> 'c inMemoryStorage" where
  "removeCacheKeyFromEvents cacheKey st =
    (map ev_id (filter (\<lambda>e. strip_event_key cacheKey e = Some None) (map_values (cachedEvents st))),
     st\<lparr>cachedEvents := rewrite_values ev_id (strip_event_key cacheKey) (cachedEvents st)\<rparr>)"

definition delete_events_where :: "(cachedEventRecord \<Rightarrow> bool) \<Rightarrow> 'c inMemoryStorage \<Rightarrow> 'c inMemoryStorage" where
  "delete_events_where P st =
    st\<lparr>cachedEvents := rewrite_values ev_id (\<lambda>e. if P e then Some None else None) (cachedEvents st)\<rparr>"

definition deleteAnticipatedEventsByCommand :: "string \<Rightarrow> 'c inMemoryStorage \<Rightarrow> 'c inMemoryStorage" where
  "deleteAnticipatedEventsByCommand cid =
    delete_events_where (\<lambda>e. ev_persistence e = AnticipatedEvent \<and> ev_commandId e = Some cid)"

text \<open>\<open>event.commandId &&\<close> is false for the empty id.\<close>

definition deleteAnticipatedEventsByCommands :: "string list \<Rightarrow> 'c inMemoryStorage \<Rightarrow> 'c inMemoryStorage" where
  "deleteAnticipatedEventsByCommands cids st =
    (if set_of_list cids = [] then st
     else delete_events_where (\<lambda>e. ev_persistence e = AnticipatedEvent \<and>
       (case ev_commandId e of Some c \<Rightarrow> c \<noteq> [] \<and> c \<in> set (set_of_list cids) | None \<Rightarrow> False)) st)"

section \<open>Read models (the parts other sections need)\<close>

definition getReadModelKey :: "string \<Rightarrow> string \<Rightarrow> string" where
  "getReadModelKey collection i = collection @ '':'' @ i"

definition strip_model_key :: "string \<Rightarrow> readModelRecord \<Rightarrow> readModelRecord option option" where
  "strip_model_key cacheKey r =
    (if cacheKey \<notin> set (rm_cacheKeys r) then None
     else (let remaining = filter (\<lambda>k. k \<noteq> cacheKey) (rm_cacheKeys r)
           in if remaining = [] then Some None else Some (Some (r\<lparr>rm_cacheKeys := remaining\<rparr>))))"

definition removeCacheKeyFromReadModels :: "string \<Rightarrow> 'c inMemoryStorage \<Rightarrow> 'c inMemoryStorage" where
  "removeCacheKeyFromReadModels cacheKey st =
    st\<lparr>readModels := rewrite_entries (strip_model_key cacheKey) (readModels st)\<rparr>"

section \<open>Cache keys\<close>

definition getCacheKey :: "'c inMemoryStorage \<Rightarrow> string \<Rightarrow> cacheKeyRecord option" where
  "getCacheKey st k = map_get (cacheKeys st) k"

definition getAllCacheKeys :: "'c inMemoryStorage \<Rightarrow> cacheKeyRecord list" where
  "getAllCacheKeys st = map_values (cacheKeys st)"

definition saveCacheKey :: "cacheKeyRecord \<Rightarrow> 'c inMemoryStorage \<Rightarrow> 'c inMemoryStorage" where
  "saveCacheKey r st = st\<lparr>cacheKeys := map_set (ck_key r) r (cacheKeys st)\<rparr>"

definition deleteCacheKey :: "string \<Rightarrow> 'c inMemoryStorage \<Rightarrow> 'c inMemoryStorage" where
  "deleteCacheKey k st =
    (let st1 = st\<lparr>cacheKeys := map_delete k (cacheKeys st)\<rparr>;
         st2 = snd (removeCacheKeyFromEvents k st1)
     in removeCacheKeyFromReadModels k st2)"

definition deleteCacheKeys :: "string list \<Rightarrow> 'c inMemoryStorage \<Rightarrow> 'c inMemoryStorage" where
  "deleteCacheKeys ks st = fold deleteCacheKey ks st"

definition saveCacheKeys :: "cacheKeyRecord list \<Rightarrow> 'c inMemoryStorage \<Rightarrow> 'c inMemoryStorage" where
  "saveCacheKeys rs st = st\<lparr>cacheKeys := fold (\<lambda>r. map_set (ck_key r) r) rs (cacheKeys st)\<rparr>"

definition holdCacheKey :: "string \<Rightarrow> 'c inMemoryStorage \<Rightarrow> 'c inMemoryStorage" where
  "holdCacheKey k st =
    (case map_get (cacheKeys st) k of
       Some r \<Rightarrow> st\<lparr>cacheKeys := map_set k (r\<lparr>ck_holdCount := ck_holdCount r + 1\<rparr>) (cacheKeys st)\<rparr>
     | None \<Rightarrow> st)"

definition releaseCacheKey :: "string \<Rightarrow> 'c inMemoryStorage \<Rightarrow> 'c inMemoryStorage" where
  "releaseCacheKey k st =
    (case map_get (cacheKeys st) k of
       Some r \<Rightarrow>
         if ck_holdCount r > 0
         then st\<lparr>cacheKeys := map_set k (r\<lparr>ck_holdCount := ck_holdCount r - 1\<rparr>) (cacheKeys st)\<rparr>
         else st
     | None \<Rightarrow> st)"

definition touchCacheKey :: "int \<Rightarrow> string \<Rightarrow> 'c inMemoryStorage \<Rightarrow> 'c inMemoryStorage" where
  "touchCacheKey now k st =
    (case map_get (cacheKeys st) k of
       Some r \<Rightarrow> st\<lparr>cacheKeys := map_set k (r\<lparr>ck_lastAccessedAt := now\<rparr>) (cacheKeys st)\<rparr>
     | None \<Rightarrow> st)"

definition getChildCacheKeys :: "'c inMemoryStorage \<Rightarrow> string \<Rightarrow> cacheKeyRecord list" where
  "getChildCacheKeys st parent = filter (\<lambda>r. ck_parentKey r = Some parent) (map_values (cacheKeys st))"

definition evictable :: "'c inMemoryStorage \<Rightarrow> cacheKeyRecord \<Rightarrow> bool" where
  "evictable st r =
    (if ck_holdCount r > 0 then False
     else if ck_frozen r then False
     else if ck_inheritedFrozen r then False
     else if list_ex (\<lambda>c. ck_parentKey c = Some (ck_key r)) (map_values (cacheKeys st)) then False
     else True)"

definition eviction_compare :: "cacheKeyRecord \<Rightarrow> cacheKeyRecord \<Rightarrow> int" where
  "eviction_compare a b =
    (if ck_evictionPolicy a \<noteq> ck_evictionPolicy b
     then (if ck_evictionPolicy a = Ephemeral then -1 else 1)
     else ck_lastAccessedAt a - ck_lastAccessedAt b)"

definition getEvictableCacheKeys :: "'c inMemoryStorage \<Rightarrow> int \<Rightarrow> cacheKeyRecord list" where
  "getEvictableCacheKeys st limit =
    js_slice 0 (Some limit) (js_sort eviction_compare (filter (evictable st) (map_values (cacheKeys st))))"

definition filterExistingCacheKeys :: "'c inMemoryStorage \<Rightarrow> string list \<Rightarrow> string list" where
  "filterExistingCacheKeys st ks = filter (map_has (cacheKeys st)) ks"

section \<open>Commands\<close>

definition getCommandSequence :: "'c inMemoryStorage \<Rightarrow> int" where
  "getCommandSequence st = fold (\<lambda>c m. if cmd_seq c > m then cmd_seq c else m) (map_values (commands st)) 0"

definition getCommand :: "'c inMemoryStorage \<Rightarrow> string \<Rightarrow> 'c commandRecord option" where
  "getCommand st i = map_get (commands st) i"

definition getCommandsByIds :: "'c inMemoryStorage \<Rightarrow> string list \<Rightarrow> (string, 'c commandRecord) jsmap" where
  "getCommandsByIds st ids =
    fold (\<lambda>i m. case map_get (commands st) i of Some c \<Rightarrow> map_set i c m | None \<Rightarrow> m) ids []"

text \<open>The tests of a filter in the order the code applies them; an empty string is no filter.\<close>

definition filter_matches :: "commandFilter \<Rightarrow> 'c commandRecord \<Rightarrow> bool" where
  "filter_matches f c \<longleftrightarrow>
    (case flt_status f of Some ss \<Rightarrow> cmd_status c \<in> set (many ss) | None \<Rightarrow> True) \<and>
    (case flt_type f of Some ts \<Rightarrow> ts = One '''' \<or> cmd_type c \<in> set (many ts) | None \<Rightarrow> True) \<and>
    (case flt_service f of Some s \<Rightarrow> s = '''' \<or> cmd_service c = s | None \<Rightarrow> True) \<and>
    (case flt_createdAfter f of Some t \<Rightarrow> cmd_createdAt c > t | None \<Rightarrow> True) \<and>
    (case flt_createdBefore f of Some t \<Rightarrow> cmd_createdAt c < t | None \<Rightarrow> True)"

definition by_seq :: "'c commandRecord \<Rightarrow> 'c commandRecord \<Rightarrow> int" where
  "by_seq a b = cmd_seq a - cmd_seq b"

definition getCommands :: "'c inMemoryStorage \<Rightarrow> commandFilter option \<Rightarrow> 'c commandRecord list" where
  "getCommands st flt =
    (case flt of
       None \<Rightarrow> map_values (commands st)
     | Some f \<Rightarrow>
         (let cs = js_sort by_seq (filter (filter_matches f) (map_values (commands st)));
              cs1 = (case flt_offset f of Some i \<Rightarrow> js_slice i None cs | None \<Rightarrow> cs)
          in case flt_limit f of Some n \<Rightarrow> js_slice 0 (Some n) cs1 | None \<Rightarrow> cs1))"

definition getCommandsByStatus :: "'c inMemoryStorage \<Rightarrow> commandStatus oneOrMany \<Rightarrow> 'c commandRecord list" where
  "getCommandsByStatus st status = getCommands st (Some (no_filter\<lparr>flt_status := Some status\<rparr>))"

definition getCommandsBlockedBy :: "'c inMemoryStorage \<Rightarrow> string \<Rightarrow> 'c commandRecord list" where
  "getCommandsBlockedBy st i = filter (\<lambda>c. i \<in> set (blockedBy c)) (map_values (commands st))"

definition saveCommand :: "'c commandRecord \<Rightarrow> 'c inMemoryStorage \<Rightarrow> 'c inMemoryStorage" where
  "saveCommand c st = st\<lparr>commands := map_set (commandId c) c (commands st)\<rparr>"

definition updateCommand ::
  "int \<Rightarrow> string \<Rightarrow> ('c commandRecord \<Rightarrow> 'c commandRecord) \<Rightarrow> 'c inMemoryStorage \<Rightarrow> 'c inMemoryStorage" where
  "updateCommand now i patch st =
    (case map_get (commands st) i of
       Some c \<Rightarrow> st\<lparr>commands := map_set i ((patch c)\<lparr>cmd_updatedAt := now\<rparr>) (commands st)\<rparr>
     | None \<Rightarrow> st)"

definition updateCommands ::
  "int \<Rightarrow> (string \<times> ('c commandRecord \<Rightarrow> 'c commandRecord)) list \<Rightarrow> 'c inMemoryStorage \<Rightarrow> 'c inMemoryStorage" where
  "updateCommands now updates st = fold (\<lambda>(i, patch). updateCommand now i patch) updates st"

definition deleteCommand :: "string \<Rightarrow> 'c inMemoryStorage \<Rightarrow> 'c inMemoryStorage" where
  "deleteCommand i st =
    deleteAnticipatedEventsByCommand i (st\<lparr>commands := map_delete i (commands st)\<rparr>)"

definition deleteAllCommands :: "'c inMemoryStorage \<Rightarrow> 'c inMemoryStorage" where
  "deleteAllCommands st =
    delete_events_where (\<lambda>e. ev_persistence e = AnticipatedEvent) (st\<lparr>commands := []\<rparr>)"

section \<open>Event cache\<close>

definition getCachedEvent :: "'c inMemoryStorage \<Rightarrow> string \<Rightarrow> cachedEventRecord option" where
  "getCachedEvent st i = map_get (cachedEvents st) i"

definition getExistingCachedEventIds :: "'c inMemoryStorage \<Rightarrow> string list \<Rightarrow> string list" where
  "getExistingCachedEventIds st ids = set_of_list (filter (map_has (cachedEvents st)) ids)"

definition getCachedEventsByCacheKey :: "'c inMemoryStorage \<Rightarrow> string \<Rightarrow> cachedEventRecord list" where
  "getCachedEventsByCacheKey st k = filter (\<lambda>e. k \<in> set (ev_cacheKeys e)) (map_values (cachedEvents st))"

definition stream_compare :: "cachedEventRecord \<Rightarrow> cachedEventRecord \<Rightarrow> int" where
  "stream_compare a b =
    (case (ev_position a, ev_position b) of
       (Some p, Some q) \<Rightarrow> if p < q then -1 else 1
     | _ \<Rightarrow> ev_createdAt a - ev_createdAt b)"

definition getCachedEventsByStream :: "'c inMemoryStorage \<Rightarrow> string \<Rightarrow> cachedEventRecord list" where
  "getCachedEventsByStream st streamId =
    js_sort stream_compare (filter (\<lambda>e. ev_streamId e = streamId) (map_values (cachedEvents st)))"

definition getAnticipatedEventsByCommand :: "'c inMemoryStorage \<Rightarrow> string \<Rightarrow> cachedEventRecord list" where
  "getAnticipatedEventsByCommand st cid =
    filter (\<lambda>e. ev_persistence e = AnticipatedEvent \<and> ev_commandId e = Some cid) (map_values (cachedEvents st))"

definition getAllAnticipatedEvents :: "'c inMemoryStorage \<Rightarrow> cachedEventRecord list" where
  "getAllAnticipatedEvents st = filter (\<lambda>e. ev_persistence e = AnticipatedEvent) (map_values (cachedEvents st))"

definition saveCachedEvent :: "cachedEventRecord \<Rightarrow> 'c inMemoryStorage \<Rightarrow> 'c inMemoryStorage" where
  "saveCachedEvent e st = st\<lparr>cachedEvents := map_set (ev_id e) e (cachedEvents st)\<rparr>"

definition saveCachedEvents :: "cachedEventRecord list \<Rightarrow> 'c inMemoryStorage \<Rightarrow> 'c inMemoryStorage" where
  "saveCachedEvents es st = fold saveCachedEvent es st"

definition deleteCachedEvent :: "string \<Rightarrow> 'c inMemoryStorage \<Rightarrow> 'c inMemoryStorage" where
  "deleteCachedEvent i st = st\<lparr>cachedEvents := map_delete i (cachedEvents st)\<rparr>"

definition mark_processed :: "int \<Rightarrow> string \<Rightarrow> 'c inMemoryStorage \<Rightarrow> 'c inMemoryStorage" where
  "mark_processed now i st =
    (case map_get (cachedEvents st) i of
       Some e \<Rightarrow> st\<lparr>cachedEvents := map_set i (e\<lparr>ev_processedAt := Some now\<rparr>) (cachedEvents st)\<rparr>
     | None \<Rightarrow> st)"

definition markCachedEventsProcessed :: "int \<Rightarrow> string list \<Rightarrow> 'c inMemoryStorage \<Rightarrow> 'c inMemoryStorage" where
  "markCachedEventsProcessed now ids st = fold (mark_processed now) ids st"

definition processed_before :: "int \<Rightarrow> cachedEventRecord \<Rightarrow> bool" where
  "processed_before t e = (case ev_processedAt e of Some p \<Rightarrow> p < t | None \<Rightarrow> False)"

definition deleteProcessedCachedEvents :: "int \<Rightarrow> 'c inMemoryStorage \<Rightarrow> nat \<times> 'c inMemoryStorage" where
  "deleteProcessedCachedEvents olderThan st =
    (length (filter (processed_before olderThan) (map_values (cachedEvents st))),
     delete_events_where (processed_before olderThan) st)"

definition addCacheKeysToEvents :: "(string \<times> string list) list \<Rightarrow> 'c inMemoryStorage \<Rightarrow> 'c inMemoryStorage" where
  "addCacheKeysToEvents entries st =
    fold (\<lambda>(i, ks) s. case map_get (cachedEvents s) i of
        None \<Rightarrow> s
      | Some e \<Rightarrow> s\<lparr>cachedEvents := map_set i
          (e\<lparr>ev_cacheKeys := fold set_add ks (set_of_list (ev_cacheKeys e))\<rparr>) (cachedEvents s)\<rparr>)
      entries st"

section \<open>Read models\<close>

definition getReadModel :: "'c inMemoryStorage \<Rightarrow> string \<Rightarrow> string \<Rightarrow> readModelRecord option" where
  "getReadModel st collection i = map_get (readModels st) (getReadModelKey collection i)"

text \<open>\<open>None\<close> for a row whose text does not parse: the generator throws there.\<close>

definition iterateReadModels :: "jsEngine \<Rightarrow> 'c inMemoryStorage \<Rightarrow> string \<Rightarrow> (string \<times> jsval option \<times> bool) list" where
  "iterateReadModels js st collection =
    map (\<lambda>r. (rm_id r, parse_json js (rm_effectiveData r), rm_hasLocalChanges r))
      (filter (\<lambda>r. rm_collection r = collection) (map_values (readModels st)))"

record listOptions =
  opt_cacheKey :: "string option"
  opt_predicate :: "(readModelRecord \<Rightarrow> bool) option"
  opt_sort :: "storageSortTerm list"
  opt_offset :: "int option"
  opt_limit :: "int option"

definition getReadModelsByCollection ::
  "jsEngine \<Rightarrow> sortResolverLookup \<Rightarrow> 'c inMemoryStorage \<Rightarrow> string \<Rightarrow> listOptions \<Rightarrow> readModelRecord list" where
  "getReadModelsByCollection js resolveColumn st collection o' =
    (let rs = filter (\<lambda>r. rm_collection r = collection \<and>
                (case opt_cacheKey o' of Some k \<Rightarrow> k \<in> set (rm_cacheKeys r) | None \<Rightarrow> True) \<and>
                (case opt_predicate o' of Some p \<Rightarrow> p r | None \<Rightarrow> True)) (map_values (readModels st));
         rs1 = (if opt_sort o' = [] then rs else sortReadModelRecords js rs (opt_sort o') resolveColumn);
         rs2 = (case opt_offset o' of Some i \<Rightarrow> js_slice i None rs1 | None \<Rightarrow> rs1)
     in case opt_limit o' of Some n \<Rightarrow> js_slice 0 (Some n) rs2 | None \<Rightarrow> rs2)"

definition getReadModelsByCacheKey :: "'c inMemoryStorage \<Rightarrow> string \<Rightarrow> readModelRecord list" where
  "getReadModelsByCacheKey st k =
    js_sort (\<lambda>a b. rm_updatedAt a - rm_updatedAt b)
      (filter (\<lambda>r. k \<in> set (rm_cacheKeys r)) (map_values (readModels st)))"

text \<open>Here an empty cache key is no restriction.\<close>

definition countReadModels ::
  "'c inMemoryStorage \<Rightarrow> string \<Rightarrow> string option \<Rightarrow> (readModelRecord \<Rightarrow> bool) option \<Rightarrow> nat" where
  "countReadModels st collection cacheKey predicate =
    length (filter (\<lambda>r. rm_collection r = collection \<and>
      (case cacheKey of Some k \<Rightarrow> k = '''' \<or> k \<in> set (rm_cacheKeys r) | None \<Rightarrow> True) \<and>
      (case predicate of Some p \<Rightarrow> p r | None \<Rightarrow> True)) (map_values (readModels st)))"

definition saveReadModel :: "readModelRecord \<Rightarrow> 'c inMemoryStorage \<Rightarrow> 'c inMemoryStorage" where
  "saveReadModel r st =
    st\<lparr>readModels := map_set (getReadModelKey (rm_collection r) (rm_id r)) r (readModels st)\<rparr>"

definition saveReadModels :: "readModelRecord list \<Rightarrow> 'c inMemoryStorage \<Rightarrow> 'c inMemoryStorage" where
  "saveReadModels rs st = fold saveReadModel rs st"

definition deleteReadModel :: "string \<Rightarrow> string \<Rightarrow> 'c inMemoryStorage \<Rightarrow> 'c inMemoryStorage" where
  "deleteReadModel collection i st =
    st\<lparr>readModels := map_delete (getReadModelKey collection i) (readModels st)\<rparr>"

definition deleteReadModels :: "(string \<times> string) list \<Rightarrow> 'c inMemoryStorage \<Rightarrow> 'c inMemoryStorage" where
  "deleteReadModels entries st = fold (\<lambda>(c, i). deleteReadModel c i) entries st"

definition getReadModels :: "'c inMemoryStorage \<Rightarrow> (string \<times> string) list \<Rightarrow> (string, readModelRecord) jsmap" where
  "getReadModels st pairs =
    fold (\<lambda>(c, i) m. case getReadModel st c i of Some r \<Rightarrow> map_set (c @ '':'' @ i) r m | None \<Rightarrow> m) pairs []"

definition migrate_one :: "migrateReadModelIdParams \<Rightarrow> 'c inMemoryStorage \<Rightarrow> 'c inMemoryStorage" where
  "migrate_one p st =
    (let fromKey = getReadModelKey (mig_collection p) (mig_fromId p);
         toKey = getReadModelKey (mig_collection p) (mig_toId p)
     in case map_get (readModels st) fromKey of
          None \<Rightarrow> st
        | Some existing \<Rightarrow>
            (let m = map_set toKey (existing\<lparr>rm_id := mig_toId p, rm_effectiveData := mig_effectiveData p,
                       rm_serverData := mig_serverData p, rm_hasLocalChanges := mig_hasLocalChanges p,
                       rm_updatedAt := mig_updatedAt p\<rparr>) (readModels st)
             in st\<lparr>readModels := (if fromKey \<noteq> toKey then map_delete fromKey m else m)\<rparr>))"

definition migrateReadModelIds :: "migrateReadModelIdParams list \<Rightarrow> 'c inMemoryStorage \<Rightarrow> 'c inMemoryStorage" where
  "migrateReadModelIds batch st = fold migrate_one batch st"

definition addCacheKeysToReadModel :: "string \<Rightarrow> string \<Rightarrow> string list \<Rightarrow> 'c inMemoryStorage \<Rightarrow> 'c inMemoryStorage" where
  "addCacheKeysToReadModel collection i ks st =
    (let key = getReadModelKey collection i
     in case map_get (readModels st) key of
          None \<Rightarrow> st
        | Some r \<Rightarrow> st\<lparr>readModels := map_set key
            (r\<lparr>rm_cacheKeys := fold set_add ks (set_of_list (rm_cacheKeys r))\<rparr>) (readModels st)\<rparr>)"

definition addCacheKeysToReadModels :: "(string \<times> string \<times> string list) list \<Rightarrow> 'c inMemoryStorage \<Rightarrow> 'c inMemoryStorage" where
  "addCacheKeysToReadModels entries st = fold (\<lambda>(c, i, ks). addCacheKeysToReadModel c i ks) entries st"

definition deleteReadModelsByCollection :: "string \<Rightarrow> 'c inMemoryStorage \<Rightarrow> 'c inMemoryStorage" where
  "deleteReadModelsByCollection collection st =
    st\<lparr>readModels := rewrite_entries (\<lambda>r. if rm_collection r = collection then Some None else None) (readModels st)\<rparr>"

definition getReadModelCount :: "'c inMemoryStorage \<Rightarrow> nat" where
  "getReadModelCount st = length (readModels st)"

definition getReadModelRevisions :: "'c inMemoryStorage \<Rightarrow> string \<Rightarrow> (string \<times> int) list" where
  "getReadModelRevisions st collection =
    map (\<lambda>r. (rm_id r, the (rm_revision r)))
      (filter (\<lambda>r. rm_collection r = collection \<and> rm_revision r \<noteq> None) (map_values (readModels st)))"

section \<open>Command id mappings\<close>

definition getCommandIdMapping :: "'c inMemoryStorage \<Rightarrow> string \<Rightarrow> commandIdMappingRecord option" where
  "getCommandIdMapping st clientId = map_get (mappingsByClientId st) clientId"

definition getCommandIdMappingByServerId :: "'c inMemoryStorage \<Rightarrow> string \<Rightarrow> commandIdMappingRecord option" where
  "getCommandIdMappingByServerId st serverId = map_get (mappingsByServerId st) serverId"

definition saveCommandIdMapping :: "commandIdMappingRecord \<Rightarrow> 'c inMemoryStorage \<Rightarrow> 'c inMemoryStorage" where
  "saveCommandIdMapping r st =
    st\<lparr>mappingsByClientId := map_set (map_clientId r) r (mappingsByClientId st),
       mappingsByServerId := map_set (map_serverId r) r (mappingsByServerId st)\<rparr>"

definition saveCommandIdMappings :: "commandIdMappingRecord list \<Rightarrow> 'c inMemoryStorage \<Rightarrow> 'c inMemoryStorage" where
  "saveCommandIdMappings rs st = fold saveCommandIdMapping rs st"

definition purge_mapping :: "int \<Rightarrow> string \<times> commandIdMappingRecord \<Rightarrow> 'c inMemoryStorage \<Rightarrow> 'c inMemoryStorage" where
  "purge_mapping t kr st =
    (if map_createdAt (snd kr) < t
     then st\<lparr>mappingsByClientId := map_delete (fst kr) (mappingsByClientId st),
             mappingsByServerId := map_delete (map_serverId (snd kr)) (mappingsByServerId st)\<rparr>
     else st)"

definition deleteCommandIdMappingsOlderThan :: "int \<Rightarrow> 'c inMemoryStorage \<Rightarrow> 'c inMemoryStorage" where
  "deleteCommandIdMappingsOlderThan t st = fold (purge_mapping t) (mappingsByClientId st) st"

definition loadAndPurgeCommandIdMappings ::
  "int \<Rightarrow> 'c inMemoryStorage \<Rightarrow> commandIdMappingRecord list \<times> 'c inMemoryStorage" where
  "loadAndPurgeCommandIdMappings t st =
    (let st1 = deleteCommandIdMappingsOlderThan t st in (map_values (mappingsByClientId st1), st1))"

definition deleteAllCommandIdMappings :: "'c inMemoryStorage \<Rightarrow> 'c inMemoryStorage" where
  "deleteAllCommandIdMappings st = st\<lparr>mappingsByClientId := [], mappingsByServerId := []\<rparr>"

section \<open>The contract of a keyed store\<close>

text \<open>What the stores above storage rely on: a put is seen by the gets of its key only, a delete
  removes its key only.\<close>

locale keyed_store =
  fixes get :: "'s \<Rightarrow> string \<Rightarrow> 'r option"
    and put :: "'r \<Rightarrow> 's \<Rightarrow> 's"
    and del :: "string \<Rightarrow> 's \<Rightarrow> 's"
    and key_of :: "'r \<Rightarrow> string"
  assumes get_put: "get (put r s) k = (if k = key_of r then Some r else get s k)"
    and get_del: "get (del k s) k' = (if k' = k then None else get s k')"
begin

lemma get_put_all:
  "get (fold put rs s) k = (case find (\<lambda>r. key_of r = k) (rev rs) of Some r \<Rightarrow> Some r | None \<Rightarrow> get s k)"
proof (induction rs rule: rev_induct)
  case (snoc r rs)
  then show ?case by (auto simp: get_put)
qed simp

lemma get_del_all: "get (fold del ks s) k = (if k \<in> set ks then None else get s k)"
  by (induction ks arbitrary: s) (auto simp: get_del)

lemma get_put_other: "k \<notin> key_of ` set rs \<Longrightarrow> get (fold put rs s) k = get s k"
  by (induction rs arbitrary: s) (auto simp: get_put)

lemma get_put_member:
  "distinct (map key_of rs) \<Longrightarrow> r \<in> set rs \<Longrightarrow> get (fold put rs s) (key_of r) = Some r"
proof (induction rs arbitrary: s)
  case (Cons x xs)
  then show ?case
    using get_put_other [of "key_of x" xs "put x s"] by (auto simp: get_put)
qed simp

end

interpretation event_records: keyed_store getCachedEvent saveCachedEvent deleteCachedEvent ev_id
  by unfold_locales (auto simp: getCachedEvent_def saveCachedEvent_def deleteCachedEvent_def)

lemma deleteCommand_commands [simp]: "commands (deleteCommand i st) = map_delete i (commands st)"
  by (simp add: deleteCommand_def deleteAnticipatedEventsByCommand_def delete_events_where_def)

interpretation command_records: keyed_store getCommand saveCommand deleteCommand commandId
  by unfold_locales (auto simp: getCommand_def saveCommand_def)

lemma deleteCacheKey_fields [simp]:
  "cacheKeys (deleteCacheKey k st) = map_delete k (cacheKeys st)"
  "cachedEvents (deleteCacheKey k st) = rewrite_values ev_id (strip_event_key k) (cachedEvents st)"
  "readModels (deleteCacheKey k st) = rewrite_entries (strip_model_key k) (readModels st)"
  "commands (deleteCacheKey k st) = commands st"
  "session (deleteCacheKey k st) = session st"
  "mappingsByClientId (deleteCacheKey k st) = mappingsByClientId st"
  "mappingsByServerId (deleteCacheKey k st) = mappingsByServerId st"
  by (simp_all add: deleteCacheKey_def removeCacheKeyFromEvents_def removeCacheKeyFromReadModels_def Let_def)

interpretation cache_key_records: keyed_store getCacheKey saveCacheKey deleteCacheKey ck_key
  by unfold_locales (auto simp: getCacheKey_def saveCacheKey_def)

section \<open>The maps are keyed by their records\<close>

abbreviation model_key :: "readModelRecord \<Rightarrow> string" where
  "model_key r \<equiv> getReadModelKey (rm_collection r) (rm_id r)"

text \<open>Collection names without a colon: the two parts of a read-model key can be told apart.\<close>

definition plain_collection :: "string \<Rightarrow> bool" where
  "plain_collection c \<longleftrightarrow> CHR '':'' \<notin> set c"

lemma getReadModelKey_inj:
  "plain_collection c \<Longrightarrow> plain_collection c' \<Longrightarrow> getReadModelKey c i = getReadModelKey c' i' \<longleftrightarrow> c = c' \<and> i = i'"
proof -
  have split: "takeWhile (\<lambda>x. x \<noteq> CHR '':'') (getReadModelKey c i) = c \<and>
      dropWhile (\<lambda>x. x \<noteq> CHR '':'') (getReadModelKey c i) = CHR '':'' # i" if "plain_collection c" for c i
    using that by (induction c) (auto simp: plain_collection_def getReadModelKey_def)
  assume "plain_collection c" "plain_collection c'"
  then show ?thesis using split by (metis list.inject)
qed

definition storage_inv :: "'c inMemoryStorage \<Rightarrow> bool" where
  "storage_inv st \<longleftrightarrow> keyed_by ck_key (cacheKeys st) \<and> keyed_by commandId (commands st) \<and>
    keyed_by ev_id (cachedEvents st) \<and> keyed_by model_key (readModels st) \<and>
    keyed_by map_clientId (mappingsByClientId st) \<and> keyed_by map_serverId (mappingsByServerId st) \<and>
    (\<forall>k r. map_get (readModels st) k = Some r \<longrightarrow> plain_collection (rm_collection r))"

lemma storage_invD:
  assumes "storage_inv st"
  shows "keyed_by ck_key (cacheKeys st)" "keyed_by commandId (commands st)" "keyed_by ev_id (cachedEvents st)"
    "keyed_by model_key (readModels st)" "keyed_by map_clientId (mappingsByClientId st)"
    "keyed_by map_serverId (mappingsByServerId st)"
    "map_get (readModels st) k = Some r \<Longrightarrow> plain_collection (rm_collection r)"
  using assms unfolding storage_inv_def by blast+

text \<open>The mutating operations; a command patch does not change the id of its command, and
  collection names have no colon.\<close>

inductive storage_op :: "'c inMemoryStorage \<Rightarrow> 'c inMemoryStorage \<Rightarrow> bool" where
  "storage_op st (storage_initialize st)"
| "storage_op st (storage_close st)"
| "storage_op st (storage_clear st)"
| "storage_op st (saveSession s st)"
| "storage_op st (deleteSession st)"
| "storage_op st (touchSession now st)"
| "storage_op st (saveCacheKey r st)"
| "storage_op st (deleteCacheKey k st)"
| "storage_op st (deleteCacheKeys ks st)"
| "storage_op st (saveCacheKeys rs st)"
| "storage_op st (holdCacheKey k st)"
| "storage_op st (releaseCacheKey k st)"
| "storage_op st (touchCacheKey now k st)"
| "storage_op st (saveCommand c st)"
| "(\<And>c. commandId (patch c) = commandId c) \<Longrightarrow> storage_op st (updateCommand now i patch st)"
| "(\<And>i patch c. (i, patch) \<in> set us \<Longrightarrow> commandId (patch c) = commandId c) \<Longrightarrow>
    storage_op st (updateCommands now us st)"
| "storage_op st (deleteCommand i st)"
| "storage_op st (deleteAllCommands st)"
| "storage_op st (saveCachedEvents es st)"
| "storage_op st (deleteCachedEvent i st)"
| "storage_op st (markCachedEventsProcessed now ids st)"
| "storage_op st (snd (deleteProcessedCachedEvents t st))"
| "storage_op st (deleteAnticipatedEventsByCommand i st)"
| "storage_op st (deleteAnticipatedEventsByCommands ids st)"
| "storage_op st (snd (removeCacheKeyFromEvents k st))"
| "storage_op st (addCacheKeysToEvents eks st)"
| "(\<And>r. r \<in> set ms \<Longrightarrow> plain_collection (rm_collection r)) \<Longrightarrow> storage_op st (saveReadModels ms st)"
| "storage_op st (deleteReadModels cis st)"
| "(\<And>p. p \<in> set batch \<Longrightarrow> plain_collection (mig_collection p)) \<Longrightarrow>
    storage_op st (migrateReadModelIds batch st)"
| "storage_op st (removeCacheKeyFromReadModels k st)"
| "storage_op st (addCacheKeysToReadModels rks st)"
| "storage_op st (deleteReadModelsByCollection col st)"
| "storage_op st (saveCommandIdMappings mps st)"
| "storage_op st (snd (loadAndPurgeCommandIdMappings t st))"
| "storage_op st (deleteAllCommandIdMappings st)"

lemma map_get_keyed: "keyed_by idf m \<Longrightarrow> map_get m k = Some v \<Longrightarrow> idf v = k"
  by (simp add: keyed_by_iff)

lemma strip_event_id: "strip_event_key k e = Some (Some e') \<Longrightarrow> ev_id e' = ev_id e"
  by (auto simp: strip_event_key_def Let_def split: if_splits)

lemma strip_model_id: "strip_model_key k r = Some (Some r') \<Longrightarrow> model_key r' = model_key r"
  by (auto simp: strip_model_key_def Let_def split: if_splits)

lemma inv_fold: "storage_inv st \<Longrightarrow> (\<And>x s. x \<in> set xs \<Longrightarrow> storage_inv s \<Longrightarrow> storage_inv (f x s)) \<Longrightarrow>
  storage_inv (fold f xs st)"
  by (rule fold_invariant)

lemma inv_delete_events: "storage_inv st \<Longrightarrow> storage_inv (delete_events_where P st)"
  by (auto simp: storage_inv_def delete_events_where_def intro!: keyed_by_rewrite_values split: if_splits)

lemma model_updates:
  "map_get (rewrite_entries (strip_model_key k) m) i = Some r \<Longrightarrow> map_wf m \<Longrightarrow>
    \<exists>r0. map_get m i = Some r0 \<and> rm_collection r = rm_collection r0"
  by (auto simp: map_get_rewrite_entries bind_eq_Some_conv strip_model_key_def Let_def split: if_splits)

lemma inv_strip_models:
  assumes "storage_inv st"
  shows "keyed_by model_key (rewrite_entries (strip_model_key k) (readModels st))"
    and "map_get (rewrite_entries (strip_model_key k) (readModels st)) i = Some r \<Longrightarrow>
      plain_collection (rm_collection r)"
proof -
  note inv = storage_invD [OF assms]
  show "keyed_by model_key (rewrite_entries (strip_model_key k) (readModels st))"
    by (rule keyed_by_rewrite_entries [OF inv(4) strip_model_id])
  show "map_get (rewrite_entries (strip_model_key k) (readModels st)) i = Some r \<Longrightarrow>
      plain_collection (rm_collection r)"
    using model_updates [OF _ keyed_by_wf [OF inv(4)]] inv(7) by metis
qed

lemma inv_removeModelKey: "storage_inv st \<Longrightarrow> storage_inv (removeCacheKeyFromReadModels k st)"
  using inv_strip_models [of st k] by (simp add: storage_inv_def removeCacheKeyFromReadModels_def)

lemma inv_removeEventKey: "storage_inv st \<Longrightarrow> storage_inv (snd (removeCacheKeyFromEvents k st))"
  using strip_event_id by (simp add: storage_inv_def removeCacheKeyFromEvents_def keyed_by_rewrite_values)

lemma inv_deleteCacheKey: "storage_inv st \<Longrightarrow> storage_inv (deleteCacheKey k st)"
proof -
  assume "storage_inv st"
  then have "storage_inv (st\<lparr>cacheKeys := map_delete k (cacheKeys st)\<rparr>)"
    by (simp add: storage_inv_def keyed_by_delete)
  then show ?thesis
    unfolding deleteCacheKey_def Let_def by (intro inv_removeModelKey inv_removeEventKey)
qed

lemma inv_updateCommand:
  "storage_inv st \<Longrightarrow> (\<And>c. commandId (patch c) = commandId c) \<Longrightarrow> storage_inv (updateCommand now i patch st)"
  by (auto simp: storage_inv_def updateCommand_def intro!: keyed_by_set dest: map_get_keyed split: option.splits)

lemma inv_saveCommand: "storage_inv st \<Longrightarrow> storage_inv (saveCommand c st)"
  by (simp add: storage_inv_def saveCommand_def keyed_by_set)

lemma inv_deleteCommand: "storage_inv st \<Longrightarrow> storage_inv (deleteCommand i st)"
  unfolding deleteCommand_def deleteAnticipatedEventsByCommand_def
  by (rule inv_delete_events) (simp add: storage_inv_def keyed_by_delete)

lemma inv_saveCacheKey: "storage_inv st \<Longrightarrow> storage_inv (saveCacheKey r st)"
  by (simp add: storage_inv_def saveCacheKey_def keyed_by_set)

lemma saveCacheKeys_fold: "saveCacheKeys rs st = fold saveCacheKey rs st"
proof -
  have "fold saveCacheKey rs st = st\<lparr>cacheKeys := fold (\<lambda>r. map_set (ck_key r) r) rs (cacheKeys st)\<rparr>"
    by (induction rs arbitrary: st) (simp_all add: saveCacheKey_def)
  then show ?thesis by (simp add: saveCacheKeys_def)
qed

lemma inv_touch:
  "storage_inv st \<Longrightarrow> storage_inv (holdCacheKey k st)"
  "storage_inv st \<Longrightarrow> storage_inv (releaseCacheKey k st)"
  "storage_inv st \<Longrightarrow> storage_inv (touchCacheKey now k st)"
  by (auto simp: storage_inv_def holdCacheKey_def releaseCacheKey_def touchCacheKey_def
      intro!: keyed_by_set dest: map_get_keyed split: option.splits)

lemma inv_saveCachedEvent: "storage_inv st \<Longrightarrow> storage_inv (saveCachedEvent e st)"
  by (simp add: storage_inv_def saveCachedEvent_def keyed_by_set)

lemma inv_deleteCachedEvent: "storage_inv st \<Longrightarrow> storage_inv (deleteCachedEvent i st)"
  by (simp add: storage_inv_def deleteCachedEvent_def keyed_by_delete)

lemma inv_mark: "storage_inv st \<Longrightarrow> storage_inv (mark_processed now i st)"
  by (auto simp: storage_inv_def mark_processed_def intro!: keyed_by_set dest: map_get_keyed split: option.splits)

lemma inv_addEventKeys: "storage_inv st \<Longrightarrow> storage_inv (addCacheKeysToEvents eks st)"
  unfolding addCacheKeysToEvents_def
proof (erule fold_invariant)
  fix x :: "string \<times> string list" and s :: "'a inMemoryStorage"
  assume inv: "storage_inv s"
  obtain i ks where x: "x = (i, ks)" by (cases x)
  show "storage_inv ((\<lambda>(i, ks) s. case map_get (cachedEvents s) i of
        None \<Rightarrow> s
      | Some e \<Rightarrow> s\<lparr>cachedEvents := map_set i
          (e\<lparr>ev_cacheKeys := fold set_add ks (set_of_list (ev_cacheKeys e))\<rparr>) (cachedEvents s)\<rparr>) x s)"
    using inv map_get_keyed [OF storage_invD(3) [OF inv], of i]
    by (auto simp: x storage_inv_def intro!: keyed_by_set split: option.splits)
qed

lemma inv_saveReadModel:
  "storage_inv st \<Longrightarrow> plain_collection (rm_collection r) \<Longrightarrow> storage_inv (saveReadModel r st)"
  by (auto simp: storage_inv_def saveReadModel_def intro!: keyed_by_set)

lemma inv_deleteReadModel: "storage_inv st \<Longrightarrow> storage_inv (deleteReadModel c i st)"
  by (simp add: storage_inv_def deleteReadModel_def keyed_by_delete)

lemma inv_addKeysModel: "storage_inv st \<Longrightarrow> storage_inv (addCacheKeysToReadModel c i ks st)"
  by (auto simp: storage_inv_def addCacheKeysToReadModel_def Let_def intro!: keyed_by_set
      dest: map_get_keyed split: option.splits)

lemma migrate_source:
  assumes "storage_inv st" "plain_collection c" "map_get (readModels st) (getReadModelKey c i) = Some r"
  shows "rm_collection r = c" and "rm_id r = i"
proof -
  note inv = storage_invD [OF assms(1)]
  have "model_key r = getReadModelKey c i" "plain_collection (rm_collection r)"
    using map_get_keyed [OF inv(4) assms(3)] inv(7) [OF assms(3)] by auto
  then show "rm_collection r = c" "rm_id r = i" using getReadModelKey_inj assms(2) by blast+
qed

lemma inv_models:
  assumes "storage_inv st" "keyed_by model_key m"
    and "\<And>k r. map_get m k = Some r \<Longrightarrow> plain_collection (rm_collection r)"
  shows "storage_inv (st\<lparr>readModels := m\<rparr>)"
  using assms by (simp add: storage_inv_def)

lemma inv_migrate:
  assumes inv: "storage_inv st" and plain: "plain_collection (mig_collection p)"
  shows "storage_inv (migrate_one p st)"
proof (cases "map_get (readModels st) (getReadModelKey (mig_collection p) (mig_fromId p))")
  case None
  then show ?thesis using inv by (simp add: migrate_one_def)
next
  case (Some r)
  note D = storage_invD [OF inv]
  define r' where "r' = r\<lparr>rm_id := mig_toId p, rm_effectiveData := mig_effectiveData p,
    rm_serverData := mig_serverData p, rm_hasLocalChanges := mig_hasLocalChanges p,
    rm_updatedAt := mig_updatedAt p\<rparr>"
  let ?to = "getReadModelKey (mig_collection p) (mig_toId p)"
  have key: "model_key r' = ?to" and col: "rm_collection r' = mig_collection p"
    using migrate_source [OF inv plain Some] by (simp_all add: r'_def)
  have m: "keyed_by model_key (map_set ?to r' (readModels st))"
    using D(4) key by (rule keyed_by_set)
  have c: "map_get (map_set ?to r' (readModels st)) k = Some s \<Longrightarrow> plain_collection (rm_collection s)" for k s
    using D(7) [of k s] col plain by (simp split: if_splits)
  show ?thesis
    unfolding migrate_one_def Let_def Some option.case r'_def [symmetric]
    using m c by (auto intro!: inv_models [OF inv] keyed_by_delete split: if_splits)
qed

lemma inv_deleteCollection: "storage_inv st \<Longrightarrow> storage_inv (deleteReadModelsByCollection c st)"
  by (auto simp: storage_inv_def deleteReadModelsByCollection_def map_get_rewrite_entries keyed_by_wf
      bind_eq_Some_conv intro!: keyed_by_rewrite_entries split: if_splits)

lemma inv_saveMapping: "storage_inv st \<Longrightarrow> storage_inv (saveCommandIdMapping r st)"
  by (simp add: storage_inv_def saveCommandIdMapping_def keyed_by_set)

lemma inv_purge: "storage_inv st \<Longrightarrow> storage_inv (purge_mapping t kr st)"
  by (simp add: storage_inv_def purge_mapping_def keyed_by_delete)

lemma inv_trivial:
  "storage_inv st \<Longrightarrow> storage_inv (storage_initialize st)" "storage_inv st \<Longrightarrow> storage_inv (storage_close st)"
  "storage_inv st \<Longrightarrow> storage_inv (saveSession s st)" "storage_inv st \<Longrightarrow> storage_inv (touchSession now st)"
  "storage_inv st \<Longrightarrow> storage_inv (storage_clear st)" "storage_inv st \<Longrightarrow> storage_inv (deleteSession st)"
  "storage_inv st \<Longrightarrow> storage_inv (deleteAllCommandIdMappings st)"
  by (simp_all add: storage_inv_def storage_initialize_def storage_close_def saveSession_def touchSession_def
      storage_clear_def deleteSession_def deleteAllCommandIdMappings_def split: option.splits)

lemma storage_op_inv: "storage_op st st' \<Longrightarrow> storage_inv st \<Longrightarrow> storage_inv st'"
proof (induction rule: storage_op.induct)
  case (9 st ks)
  then show ?case unfolding deleteCacheKeys_def by (intro inv_fold inv_deleteCacheKey)
next
  case (10 st rs)
  then show ?case unfolding saveCacheKeys_fold by (intro inv_fold inv_saveCacheKey)
next
  case (16 us st now)
  then show ?case
    unfolding updateCommands_def by (intro inv_fold) (auto intro: inv_updateCommand)
next
  case (18 st)
  then show ?case unfolding deleteAllCommands_def
    by (intro inv_delete_events) (simp add: storage_inv_def)
next
  case (19 st es)
  then show ?case unfolding saveCachedEvents_def by (intro inv_fold inv_saveCachedEvent)
next
  case (21 st now ids)
  then show ?case unfolding markCachedEventsProcessed_def by (intro inv_fold inv_mark)
next
  case (24 st ids)
  then show ?case by (simp add: deleteAnticipatedEventsByCommands_def inv_delete_events)
next
  case (27 ms st)
  then show ?case unfolding saveReadModels_def by (intro inv_fold inv_saveReadModel)
next
  case (28 st cis)
  then show ?case unfolding deleteReadModels_def by (intro inv_fold) (auto intro: inv_deleteReadModel)
next
  case (29 batch st)
  then show ?case unfolding migrateReadModelIds_def by (intro inv_fold inv_migrate)
next
  case (31 st rks)
  then show ?case unfolding addCacheKeysToReadModels_def by (intro inv_fold) (auto intro: inv_addKeysModel)
next
  case (33 st mps)
  then show ?case unfolding saveCommandIdMappings_def by (intro inv_fold inv_saveMapping)
next
  case (34 st t)
  then show ?case
    by (simp add: loadAndPurgeCommandIdMappings_def deleteCommandIdMappingsOlderThan_def Let_def)
      (intro inv_fold inv_purge)
qed (simp_all add: inv_trivial inv_saveCacheKey inv_deleteCacheKey inv_touch inv_saveCommand inv_updateCommand
    inv_deleteCommand inv_deleteCachedEvent deleteProcessedCachedEvents_def deleteAnticipatedEventsByCommand_def
    inv_delete_events inv_removeEventKey inv_addEventKeys inv_removeModelKey inv_deleteCollection)

lemma storage_inv_new: "storage_inv new_storage"
  by (simp add: storage_inv_def new_storage_def)

section \<open>Properties\<close>

text \<open>
  Every map of the store is keyed by the id of its own records. Starting from the empty store,
  whatever sequence of operations is run, each map has one entry per key and each record is stored
  under the id it carries (read models under the pair of collection and id), given that command
  patches keep the command's id and collection names have no colon: two read models with different
  collection or id then never share an entry.
\<close>
theorem storage_keys_consistent:
  assumes "storage_op\<^sup>*\<^sup>* new_storage st"
  shows "(map_get (cacheKeys st) k = Some r \<longrightarrow> ck_key r = k)
    \<and> (map_get (commands st) k = Some c \<longrightarrow> commandId c = k)
    \<and> (map_get (cachedEvents st) k = Some e \<longrightarrow> ev_id e = k)
    \<and> (plain_collection col \<and> getReadModel st col i = Some m \<longrightarrow> rm_collection m = col \<and> rm_id m = i)
    \<and> map_wf (cacheKeys st) \<and> map_wf (commands st) \<and> map_wf (cachedEvents st) \<and> map_wf (readModels st)"
proof -
  have inv: "storage_inv st"
    using assms by (induction rule: rtranclp_induct) (auto intro: storage_op_inv simp: storage_inv_new)
  note D = storage_invD [OF inv]
  show ?thesis
    using D(1-4) migrate_source [OF inv, of col i m]
    by (auto simp: getReadModel_def dest: map_get_keyed keyed_by_wf)
qed

definition sample_key :: "string \<Rightarrow> evictionPolicy \<Rightarrow> int \<Rightarrow> cacheKeyRecord" where
  "sample_key k policy t = \<lparr>ck_key = k, ck_kind = ScopeKind, ck_linkService = None, ck_linkType = None,
    ck_linkId = None, ck_service = None, ck_scopeType = Some ''all'', ck_scopeParams = None,
    ck_parentKey = None, ck_evictionPolicy = policy, ck_frozen = False, ck_frozenAt = None,
    ck_inheritedFrozen = False, ck_lastAccessedAt = t, ck_expiresAt = None, ck_createdAt = t,
    ck_holdCount = 0, ck_estimatedSizeBytes = None, ck_pendingIdMappings = None\<rparr>"

definition sample_event :: "string \<Rightarrow> int option \<Rightarrow> int \<Rightarrow> string list \<Rightarrow> cachedEventRecord" where
  "sample_event i position created keys = \<lparr>ev_id = i, ev_type = ''TodoAdded'', ev_streamId = ''s'',
    ev_persistence = PermanentEvent, ev_data = ''{}'', ev_metadata = None, ev_position = position,
    ev_revision = None, ev_commandId = None, ev_cacheKeys = keys, ev_createdAt = created,
    ev_processedAt = None\<rparr>"

theorem storage_keys_consistent_witness:
  "storage_op\<^sup>*\<^sup>* new_storage (saveCacheKey (sample_key ''k1'' Persistent 1) new_storage)
   \<and> map_wf (cacheKeys (saveCacheKey (sample_key ''k1'' Persistent 1) new_storage))"
proof
  show "storage_op\<^sup>*\<^sup>* new_storage (saveCacheKey (sample_key ''k1'' Persistent 1) new_storage)"
    by (rule r_into_rtranclp) (rule storage_op.intros)
  then show "map_wf (cacheKeys (saveCacheKey (sample_key ''k1'' Persistent 1) new_storage))"
    using storage_keys_consistent by blast
qed

lemma rewritten_strip_event:
  "rewritten (strip_event_key k) e = (if k \<notin> set (ev_cacheKeys e) then Some e
    else if set (ev_cacheKeys e) = {k} then None
    else Some (e\<lparr>ev_cacheKeys := filter (\<lambda>x. x \<noteq> k) (ev_cacheKeys e)\<rparr>))"
proof -
  have "k \<in> set xs \<Longrightarrow> filter (\<lambda>x. x \<noteq> k) xs = [] \<longleftrightarrow> set xs = {k}" for xs
    by (auto simp: filter_empty_conv)
  from this [of "ev_cacheKeys e"] show ?thesis by (simp add: strip_event_key_def Let_def)
qed

text \<open>
  C32: Deleting a cache key cascades to exactly the data nothing else holds. In a consistent store
  \<open>deleteCacheKey\<close> removes the key's record; an event or read model remains if and only if it was
  there and did not carry the key, in which case it is unchanged, or carried another key too, in
  which case it only loses the deleted one; and sessions, commands and id mappings are unchanged.
\<close>
theorem delete_cache_key_cascade:
  assumes "storage_inv st"
  shows "getCacheKey (deleteCacheKey k st) k' = (if k' = k then None else getCacheKey st k')
    \<and> getCachedEvent (deleteCacheKey k st) i =
        (case getCachedEvent st i of
           None \<Rightarrow> None
         | Some e \<Rightarrow> if k \<notin> set (ev_cacheKeys e) then Some e
                     else if set (ev_cacheKeys e) = {k} then None
                     else Some (e\<lparr>ev_cacheKeys := filter (\<lambda>x. x \<noteq> k) (ev_cacheKeys e)\<rparr>))
    \<and> getReadModel (deleteCacheKey k st) col i =
        (case getReadModel st col i of
           None \<Rightarrow> None
         | Some r \<Rightarrow> if k \<notin> set (rm_cacheKeys r) then Some r
                     else if set (rm_cacheKeys r) = {k} then None
                     else Some (r\<lparr>rm_cacheKeys := filter (\<lambda>x. x \<noteq> k) (rm_cacheKeys r)\<rparr>))
    \<and> commands (deleteCacheKey k st) = commands st
    \<and> mappingsByClientId (deleteCacheKey k st) = mappingsByClientId st"
proof -
  note D = storage_invD [OF assms]
  have single: "k \<in> set xs \<Longrightarrow> filter (\<lambda>x. x \<noteq> k) xs = [] \<longleftrightarrow> set xs = {k}" for xs
    by (auto simp: filter_empty_conv)
  have rm: "rewritten (strip_model_key k) r = (if k \<notin> set (rm_cacheKeys r) then Some r
      else if set (rm_cacheKeys r) = {k} then None
      else Some (r\<lparr>rm_cacheKeys := filter (\<lambda>x. x \<noteq> k) (rm_cacheKeys r)\<rparr>))" for r
    using single [of "rm_cacheKeys r"] by (simp add: strip_model_key_def Let_def)
  show ?thesis
    unfolding getCachedEvent_def getReadModel_def deleteCacheKey_fields
      map_get_rewrite_values [OF D(3)] map_get_rewrite_entries [OF keyed_by_wf [OF D(4)]]
    by (simp add: cache_key_records.get_del Option.bind_def rewritten_strip_event rm split: option.splits)
qed

definition sample_store :: "unit inMemoryStorage" where
  "sample_store = saveCachedEvent (sample_event ''e1'' (Some 7) 1 [''k1''])
    (saveCachedEvent (sample_event ''e2'' (Some 8) 1 [''k1'', ''k2'']) new_storage)"

theorem delete_cache_key_cascade_witness:
  "getCachedEvent (deleteCacheKey ''k1'' sample_store) ''e1'' = None
   \<and> map_option ev_cacheKeys (getCachedEvent (deleteCacheKey ''k1'' sample_store) ''e2'') = Some [''k2'']"
proof -
  have inv: "storage_inv sample_store" unfolding sample_store_def by (intro inv_saveCachedEvent storage_inv_new)
  have get: "getCachedEvent sample_store ''e1'' = Some (sample_event ''e1'' (Some 7) 1 [''k1''])"
    "getCachedEvent sample_store ''e2'' = Some (sample_event ''e2'' (Some 8) 1 [''k1'', ''k2''])"
    by (simp_all add: sample_store_def event_records.get_put sample_event_def)
  show ?thesis
    using delete_cache_key_cascade [OF inv, of "''k1''" "''k1''" "''e1''"]
      delete_cache_key_cascade [OF inv, of "''k1''" "''k1''" "''e2''"]
    by (simp add: get) (simp add: sample_event_def)
qed

lemma getEvictable_sorted:
  "getEvictableCacheKeys st (int n) =
    take n (sort_key (\<lambda>r. (ck_evictionPolicy r, ck_lastAccessedAt r))
      (filter (evictable st) (map_values (cacheKeys st))))"
proof -
  have "eviction_compare a b < 0 \<longleftrightarrow>
      (ck_evictionPolicy a, ck_lastAccessedAt a) < (ck_evictionPolicy b, ck_lastAccessedAt b)" for a b
    by (cases "ck_evictionPolicy a"; cases "ck_evictionPolicy b")
      (auto simp: eviction_compare_def less_eq_evictionPolicy_def less_evictionPolicy_def)
  then show ?thesis
    by (simp add: getEvictableCacheKeys_def
        js_sort_sort_key [of eviction_compare "\<lambda>r. (ck_evictionPolicy r, ck_lastAccessedAt r)"])
qed

text \<open>
  Eviction candidates. \<open>getEvictableCacheKeys\<close> returns at most \<open>limit\<close> stored keys, none of
  which is held, frozen, frozen by an ancestor or the parent of a stored key; they come ephemeral
  before persistent and, within a policy, least recently used first; and a key that could be evicted
  is left out only when the limit is reached and it comes no earlier in that order than any
  returned one.
\<close>
theorem evictable_keys_spec:
  "length (getEvictableCacheKeys st (int n)) \<le> n
   \<and> (r \<in> set (getEvictableCacheKeys st (int n)) \<longrightarrow>
        r \<in> set (map_values (cacheKeys st)) \<and> ck_holdCount r = 0 \<and> \<not> ck_frozen r \<and> \<not> ck_inheritedFrozen r
        \<and> (\<forall>c \<in> set (map_values (cacheKeys st)). ck_parentKey c \<noteq> Some (ck_key r)))
   \<and> sorted (map (\<lambda>r. (ck_evictionPolicy r, ck_lastAccessedAt r)) (getEvictableCacheKeys st (int n)))
   \<and> (s \<in> set (map_values (cacheKeys st)) \<and> evictable st s \<and> s \<notin> set (getEvictableCacheKeys st (int n)) \<longrightarrow>
        length (getEvictableCacheKeys st (int n)) = n \<and>
        (\<forall>r \<in> set (getEvictableCacheKeys st (int n)).
           (ck_evictionPolicy r, ck_lastAccessedAt r) \<le> (ck_evictionPolicy s, ck_lastAccessedAt s)))"
proof -
  let ?f = "\<lambda>r. (ck_evictionPolicy r, ck_lastAccessedAt r)"
  let ?ks = "sort_key ?f (filter (evictable st) (map_values (cacheKeys st)))"
  have E: "getEvictableCacheKeys st (int n) = take n ?ks" by (rule getEvictable_sorted)
  have srt: "sorted (map ?f ?ks)" by simp
  then have srt': "sorted (map ?f (take n ?ks) @ map ?f (drop n ?ks))"
    by (metis append_take_drop_id map_append)
  have rest: "s \<in> set (drop n ?ks)" if "s \<in> set (map_values (cacheKeys st))" "evictable st s" "s \<notin> set (take n ?ks)"
  proof -
    have "s \<in> set ?ks" using that(1,2) by simp
    then show ?thesis using that(3) by (metis UnE append_take_drop_id set_append)
  qed
  show ?thesis
    unfolding E
  proof (intro conjI impI)
    assume s: "s \<in> set (map_values (cacheKeys st)) \<and> evictable st s \<and> s \<notin> set (take n ?ks)"
    then have d: "s \<in> set (drop n ?ks)" using rest by blast
    then have "n < length ?ks" by (metis drop_all empty_iff leI list.set(1))
    then show "length (take n ?ks) = n" by simp
    show "\<forall>r \<in> set (take n ?ks). ?f r \<le> ?f s"
      using srt' d unfolding sorted_append by auto
  next
    assume "r \<in> set (take n ?ks)"
    then have "r \<in> set ?ks" by (rule in_set_takeD)
    then have r: "r \<in> set (map_values (cacheKeys st))" "evictable st r" by simp_all
    then show "r \<in> set (map_values (cacheKeys st))" "ck_holdCount r = 0" "\<not> ck_frozen r" "\<not> ck_inheritedFrozen r"
      "\<forall>c \<in> set (map_values (cacheKeys st)). ck_parentKey c \<noteq> Some (ck_key r)"
      by (simp_all add: evictable_def list_ex_iff split: if_splits)
  next
    show "sorted (map ?f (take n ?ks))" using srt' unfolding sorted_append by blast
  qed simp
qed

theorem evictable_keys_spec_witness:
  "map ck_key (getEvictableCacheKeys (saveCacheKeys [sample_key ''a'' Persistent 1, sample_key ''b'' Ephemeral 2]
      (new_storage :: unit inMemoryStorage)) (int 1)) = [''b'']
   \<and> (ck_evictionPolicy (sample_key ''b'' Ephemeral 2), ck_lastAccessedAt (sample_key ''b'' Ephemeral 2))
     \<le> (ck_evictionPolicy (sample_key ''a'' Persistent 1), ck_lastAccessedAt (sample_key ''a'' Persistent 1))"
proof
  let ?st = "saveCacheKeys [sample_key ''a'' Persistent 1, sample_key ''b'' Ephemeral 2] (new_storage :: unit inMemoryStorage)"
  have ev: "getEvictableCacheKeys ?st (int 1) = [sample_key ''b'' Ephemeral 2]"
    unfolding getEvictable_sorted
    by (simp add: saveCacheKeys_def new_storage_def sample_key_def evictable_def
        less_eq_evictionPolicy_def less_evictionPolicy_def)
  then show "map ck_key (getEvictableCacheKeys ?st (int 1)) = [''b'']" by (simp add: sample_key_def)
  have "sample_key ''a'' Persistent 1 \<in> set (map_values (cacheKeys ?st))" "evictable ?st (sample_key ''a'' Persistent 1)"
    by (simp_all add: saveCacheKeys_def new_storage_def sample_key_def evictable_def)
  moreover have "sample_key ''a'' Persistent 1 \<notin> set (getEvictableCacheKeys ?st (int 1))"
    unfolding ev by (simp add: sample_key_def)
  ultimately show "(ck_evictionPolicy (sample_key ''b'' Ephemeral 2), ck_lastAccessedAt (sample_key ''b'' Ephemeral 2))
     \<le> (ck_evictionPolicy (sample_key ''a'' Persistent 1), ck_lastAccessedAt (sample_key ''a'' Persistent 1))"
    using evictable_keys_spec [of ?st 1 undefined "sample_key ''a'' Persistent 1"] unfolding ev by auto
qed

text \<open>
  Listing commands. With a filter, \<open>getCommands\<close> is the stored commands that satisfy every
  test of the filter, in order of their sequence number, with the first \<open>offset\<close> of them dropped
  and then at most \<open>limit\<close> kept.
\<close>
theorem get_commands_spec:
  "getCommands st (Some (f\<lparr>flt_offset := Some (int m), flt_limit := Some (int n)\<rparr>)) =
     take n (drop m (sort_key cmd_seq (filter (filter_matches f) (map_values (commands st)))))
   \<and> getCommandsByStatus st status =
     sort_key cmd_seq (filter (\<lambda>c. cmd_status c \<in> set (many status)) (map_values (commands st)))"
proof -
  have sorting: "js_sort by_seq = sort_key (cmd_seq :: 'a commandRecord \<Rightarrow> int)"
    by (rule ext, rule js_sort_sort_key) (simp add: by_seq_def)
  have tests: "filter_matches (f\<lparr>flt_offset := a, flt_limit := b\<rparr>) = filter_matches f" for a b
    by (rule ext) (simp add: filter_matches_def)
  have status: "filter_matches (no_filter\<lparr>flt_status := Some status\<rparr>) = (\<lambda>c. cmd_status c \<in> set (many status))"
    by (rule ext) (simp add: filter_matches_def no_filter_def)
  show ?thesis
    by (simp add: getCommands_def getCommandsByStatus_def sorting tests status Let_def)
      (simp add: no_filter_def)
qed

text \<open>
  Ending a session keeps the id mappings of commands. \<open>deleteSession\<close> empties the session,
  the cache keys, the commands, the events and the read models, but a client id resolved in the
  old session is still resolved in the next one: the mappings, which belong to the session's data
  and which the SQL backend deletes, are untouched, and so they are by \<open>clear\<close>.
\<close>
theorem delete_session_keeps_mappings:
  "session (deleteSession st) = None \<and> cacheKeys (deleteSession st) = [] \<and> commands (deleteSession st) = []
   \<and> cachedEvents (deleteSession st) = [] \<and> readModels (deleteSession st) = []
   \<and> getCommandIdMapping (deleteSession (saveCommandIdMapping r st)) (map_clientId r) = Some r
   \<and> getCommandIdMapping (storage_clear (saveCommandIdMapping r st)) (map_clientId r) = Some r"
  by (simp add: deleteSession_def storage_clear_def getCommandIdMapping_def saveCommandIdMapping_def)

text \<open>
  The events of a stream come in position order when every one of them has a position: the
  result is a permutation of the stored events of that stream with non-decreasing positions. With
  anticipated events among them the comparator is not an order: three events can each sort before
  the next in a circle.
\<close>
theorem stream_order:
  "((\<forall>e \<in> set (map_values (cachedEvents st)). ev_streamId e = s \<longrightarrow> ev_position e \<noteq> None) \<longrightarrow>
     sorted (map (\<lambda>e. the (ev_position e)) (getCachedEventsByStream st s)))
   \<and> mset (getCachedEventsByStream st s) =
      mset (filter (\<lambda>e. ev_streamId e = s) (map_values (cachedEvents st)))
   \<and> stream_compare (sample_event ''a'' (Some 2) 1 []) (sample_event ''b'' None 2 []) < 0
   \<and> stream_compare (sample_event ''b'' None 2 []) (sample_event ''c'' (Some 1) 3 []) < 0
   \<and> stream_compare (sample_event ''c'' (Some 1) 3 []) (sample_event ''a'' (Some 2) 1 []) < 0"
proof (intro conjI impI)
  let ?es = "filter (\<lambda>e. ev_streamId e = s) (map_values (cachedEvents st))"
  let ?p = "\<lambda>e. the (ev_position e)"
  assume pos: "\<forall>e \<in> set (map_values (cachedEvents st)). ev_streamId e = s \<longrightarrow> ev_position e \<noteq> None"
  have ins: "sorted (map ?p (js_insert stream_compare x ys))"
    if "sorted (map ?p ys)" "\<forall>y \<in> set (x # ys). ev_position y \<noteq> None" for x ys
    using that
  proof (induction ys)
    case (Cons y ys)
    have set: "set (js_insert stream_compare x ys) = insert x (set ys)"
      by (metis mset_js_insert set_mset_add_mset_insert set_mset_mset)
    have cmp: "stream_compare x y < 0 \<longleftrightarrow> ?p x < ?p y"
      using Cons.prems(2) by (auto simp: stream_compare_def split: if_splits)
    then show ?case using Cons set by auto
  qed simp
  have "sorted (map ?p (fold (js_insert stream_compare) xs ys))"
    if "sorted (map ?p ys)" "\<forall>y \<in> set (xs @ ys). ev_position y \<noteq> None" for xs ys
    using that
  proof (induction xs arbitrary: ys)
    case (Cons x xs)
    have "set (js_insert stream_compare x ys) = insert x (set ys)"
      by (metis mset_js_insert set_mset_add_mset_insert set_mset_mset)
    then show ?case using Cons ins [of ys x] by auto
  qed simp
  from this [of "[]" ?es] show "sorted (map ?p (getCachedEventsByStream st s))"
    using pos by (auto simp: getCachedEventsByStream_def js_sort_def)
qed (simp_all add: getCachedEventsByStream_def stream_compare_def sample_event_def)

theorem stream_order_witness:
  "sorted (map (\<lambda>e. the (ev_position e)) (getCachedEventsByStream sample_store ''s''))"
proof -
  have "\<forall>e \<in> set (map_values (cachedEvents sample_store)). ev_streamId e = ''s'' \<longrightarrow> ev_position e \<noteq> None"
    by (simp add: sample_store_def saveCachedEvent_def new_storage_def sample_event_def)
  then show ?thesis using stream_order [of sample_store "''s''"] by blast
qed

end
