(* ===== verification/CommandStore.thy ===== *)
theory CommandStore
  imports Storage
begin

text \<open>
  The command store, \<^verbatim>\<open>packages/client/src/core/command-store/CommandStore.ts\<close>: commands that are
  still in play in an active map, finished ones in a cache with a time to live, and a queue of
  changes to write to storage.  A record is a value: the object that the store mutates in place is
  replaced in its map, and what storage holds changes only when the store writes to it, as it does
  behind the SQL backend.  A flush is two stretches of code, \<open>flush_snapshot\<close> and \<open>flush_write\<close>,
  between which other calls may run; \<open>cs_doFlush\<close> is both in a row.  The clock is an argument.
\<close>

section \<open>State\<close>

fun isInMemoryStatus :: "commandStatus \<Rightarrow> bool" where
  "isInMemoryStatus Pending = True"
| "isInMemoryStatus Blocked = True"
| "isInMemoryStatus Sending = True"
| "isInMemoryStatus Succeeded = True"
| "isInMemoryStatus _ = False"

definition in_memory_statuses :: "commandStatus list" where
  "in_memory_statuses = [Pending, Blocked, Sending, Succeeded]"

definition classifyStatuses :: "commandStatus list \<Rightarrow> commandStatus list \<times> commandStatus list" where
  "classifyStatuses ss = (filter isInMemoryStatus ss, filter (\<lambda>s. \<not> isInMemoryStatus s) ss)"

record 'c ttlEntry =
  ttl_command :: "'c commandRecord"
  ttl_expiresAt :: int

record 'c commandStore =
  cs_active :: "(string, 'c commandRecord) jsmap"
  cs_ttlCache :: "(string, 'c ttlEntry) jsmap"
  cs_dirty :: "string list"
  cs_pendingDeletes :: "string list"
  cs_initialized :: bool
  cs_flushInFlight :: bool
  cs_nextSeq :: int
  cs_terminalTtlMs :: int
  cs_storage :: "'c inMemoryStorage"

definition new_commandStore :: "int \<Rightarrow> 'c inMemoryStorage \<Rightarrow> 'c commandStore" where
  "new_commandStore ttl st = \<lparr>cs_active = [], cs_ttlCache = [], cs_dirty = [], cs_pendingDeletes = [],
    cs_initialized = False, cs_flushInFlight = False, cs_nextSeq = 1, cs_terminalTtlMs = ttl, cs_storage = st\<rparr>"

definition cs_initialize :: "'c commandStore \<Rightarrow> string + 'c commandStore" where
  "cs_initialize s =
    (if cs_initialized s then Inl ''CommandStore.initialize() must only be called once''
     else Inr (s\<lparr>cs_active := fold (\<lambda>c. map_set (commandId c) c)
                   (getCommandsByStatus (cs_storage s) (Many in_memory_statuses)) (cs_active s),
                 cs_nextSeq := getCommandSequence (cs_storage s) + 1,
                 cs_initialized := True\<rparr>))"

section \<open>Reading\<close>

definition addToTtlCache :: "int \<Rightarrow> 'c commandRecord \<Rightarrow> 'c commandStore \<Rightarrow> 'c commandStore" where
  "addToTtlCache now c s =
    s\<lparr>cs_ttlCache := map_set (commandId c) \<lparr>ttl_command = c, ttl_expiresAt = now + cs_terminalTtlMs s\<rparr>
        (cs_ttlCache s)\<rparr>"

definition refresh_ttl :: "int \<Rightarrow> string \<Rightarrow> 'c ttlEntry \<Rightarrow> 'c commandStore \<Rightarrow> 'c commandStore" where
  "refresh_ttl now i e s =
    s\<lparr>cs_ttlCache := map_set i (e\<lparr>ttl_expiresAt := now + cs_terminalTtlMs s\<rparr>) (cs_ttlCache s)\<rparr>"

definition cs_get :: "int \<Rightarrow> string \<Rightarrow> 'c commandStore \<Rightarrow> 'c commandRecord option \<times> 'c commandStore" where
  "cs_get now i s =
    (case map_get (cs_active s) i of
       Some c \<Rightarrow> (Some c, s)
     | None \<Rightarrow>
         (case map_get (cs_ttlCache s) i of
            Some e \<Rightarrow> (Some (ttl_command e), refresh_ttl now i e s)
          | None \<Rightarrow>
              (case getCommand (cs_storage s) i of
                 Some c \<Rightarrow> (Some c, if isTerminalStatus (cmd_status c) then addToTtlCache now c s else s)
               | None \<Rightarrow> (None, s))))"

fun collect_ids ::
  "int \<Rightarrow> string list \<Rightarrow> (string, 'c commandRecord) jsmap \<Rightarrow> string list \<Rightarrow> 'c commandStore \<Rightarrow>
   (string, 'c commandRecord) jsmap \<times> string list \<times> 'c commandStore" where
  "collect_ids now [] result needStorage s = (result, needStorage, s)"
| "collect_ids now (i # ids) result needStorage s =
    (case map_get (cs_active s) i of
       Some c \<Rightarrow> collect_ids now ids (map_set i c result) needStorage s
     | None \<Rightarrow>
         (case map_get (cs_ttlCache s) i of
            Some e \<Rightarrow> collect_ids now ids (map_set i (ttl_command e) result) needStorage (refresh_ttl now i e s)
          | None \<Rightarrow> collect_ids now ids result (needStorage @ [i]) s))"

definition cs_getByIds ::
  "int \<Rightarrow> string list \<Rightarrow> 'c commandStore \<Rightarrow> (string, 'c commandRecord) jsmap \<times> 'c commandStore" where
  "cs_getByIds now ids s =
    (let (result, needStorage, s1) = collect_ids now ids [] [] s
     in if needStorage = [] then (result, s1)
        else fold (\<lambda>(i, c) (m, s'). (map_set i c m,
               if isTerminalStatus (cmd_status c) then addToTtlCache now c s' else s'))
             (getCommandsByIds (cs_storage s1) needStorage) (result, s1))"

definition cs_getByStatus :: "commandStatus oneOrMany \<Rightarrow> 'c commandStore \<Rightarrow> 'c commandRecord list" where
  "cs_getByStatus status s =
    (let (inMemory, storageOnly) = classifyStatuses (many status);
         fromMemory = (if inMemory = [] then []
           else filter (\<lambda>c. cmd_status c \<in> set inMemory) (map_values (cs_active s)));
         fromStorage = (if storageOnly = [] then [] else getCommandsByStatus (cs_storage s) (Many storageOnly))
     in js_sort by_seq (fromMemory @ fromStorage))"

definition filterActive :: "commandFilter option \<Rightarrow> 'c commandStore \<Rightarrow> 'c commandRecord list" where
  "filterActive flt s =
    (case flt of None \<Rightarrow> map_values (cs_active s) | Some f \<Rightarrow> filter (filter_matches f) (map_values (cs_active s)))"

definition cs_list :: "commandFilter option \<Rightarrow> 'c commandStore \<Rightarrow> 'c commandRecord list" where
  "cs_list flt s =
    (let filterStatuses = Option.bind flt (\<lambda>f. map_option many (flt_status f));
         needsStorage = (case filterStatuses of None \<Rightarrow> True | Some ss \<Rightarrow> snd (classifyStatuses ss) \<noteq> []);
         inMemory = filterActive flt s;
         results = (if needsStorage
           then inMemory @ filter (\<lambda>c. commandId c \<notin> commandId ` set inMemory) (getCommands (cs_storage s) flt)
           else inMemory);
         sorted = js_sort by_seq results
     in case flt of
          None \<Rightarrow> sorted
        | Some f \<Rightarrow>
            if flt_offset f = None \<and> flt_limit f = None then sorted
            else (let offset = (case flt_offset f of Some i \<Rightarrow> i | None \<Rightarrow> 0);
                      limit = (case flt_limit f of Some n \<Rightarrow> n | None \<Rightarrow> int (length sorted))
                  in js_slice offset (Some (offset + limit)) sorted))"

definition cs_getBlockedBy :: "string \<Rightarrow> 'c commandStore \<Rightarrow> 'c commandRecord list" where
  "cs_getBlockedBy i s = filter (\<lambda>c. i \<in> set (blockedBy c)) (map_values (cs_active s))"

section \<open>Writing\<close>

definition cs_save :: "'c commandRecord \<Rightarrow> 'c commandStore \<Rightarrow> 'c commandStore" where
  "cs_save c s =
    (let c' = c\<lparr>cmd_seq := cs_nextSeq s\<rparr>
     in s\<lparr>cs_nextSeq := cs_nextSeq s + 1,
          cs_active := map_set (commandId c') c' (cs_active s),
          cs_storage := saveCommand c' (cs_storage s)\<rparr>)"

definition cs_scheduleFlush :: "'c commandStore \<Rightarrow> 'c commandStore" where
  "cs_scheduleFlush s = (if cs_flushInFlight s then s else s\<lparr>cs_flushInFlight := True\<rparr>)"

definition updateInPlace ::
  "int \<Rightarrow> string \<Rightarrow> ('c commandRecord \<Rightarrow> 'c commandRecord) \<Rightarrow> 'c commandStore \<Rightarrow> bool \<times> 'c commandStore" where
  "updateInPlace now i updates s =
    (case map_get (cs_active s) i of
       Some c \<Rightarrow>
         (let c' = updates c;
              s1 = s\<lparr>cs_active := map_set i c' (cs_active s), cs_dirty := set_add i (cs_dirty s)\<rparr>
          in (True, if \<not> isInMemoryStatus (cmd_status c')
                    then addToTtlCache now c' (s1\<lparr>cs_active := map_delete i (cs_active s1)\<rparr>)
                    else s1))
     | None \<Rightarrow>
         (case map_get (cs_ttlCache s) i of
            Some e \<Rightarrow>
              (True, s\<lparr>cs_ttlCache := map_set i \<lparr>ttl_command = updates (ttl_command e),
                           ttl_expiresAt = now + cs_terminalTtlMs s\<rparr> (cs_ttlCache s),
                       cs_dirty := set_add i (cs_dirty s)\<rparr>)
          | None \<Rightarrow> (False, s)))"

definition cs_update ::
  "int \<Rightarrow> string \<Rightarrow> ('c commandRecord \<Rightarrow> 'c commandRecord) \<Rightarrow> 'c commandStore \<Rightarrow> bool \<times> 'c commandStore" where
  "cs_update now i updates s =
    (let (found, s1) = updateInPlace now i updates s in (found, if found then cs_scheduleFlush s1 else s1))"

definition cs_batchUpdate ::
  "int \<Rightarrow> (string \<times> ('c commandRecord \<Rightarrow> 'c commandRecord)) list \<Rightarrow> 'c commandStore \<Rightarrow> nat \<times> 'c commandStore" where
  "cs_batchUpdate now updates s =
    (let (count, s1) = fold (\<lambda>(i, u) (n, s'). let (found, s'') = updateInPlace now i u s'
                               in (if found then n + 1 else n, s'')) updates (0, s)
     in (count, if count > 0 then cs_scheduleFlush s1 else s1))"

definition cs_delete :: "string \<Rightarrow> 'c commandStore \<Rightarrow> 'c commandStore" where
  "cs_delete i s =
    cs_scheduleFlush (s\<lparr>cs_active := map_delete i (cs_active s), cs_ttlCache := map_delete i (cs_ttlCache s),
      cs_dirty := set_remove i (cs_dirty s), cs_pendingDeletes := set_add i (cs_pendingDeletes s)\<rparr>)"

definition sweepTtlCache :: "int \<Rightarrow> 'c commandStore \<Rightarrow> 'c commandStore" where
  "sweepTtlCache now s =
    s\<lparr>cs_ttlCache := rewrite_entries (\<lambda>e. if ttl_expiresAt e \<le> now then Some None else None) (cs_ttlCache s)\<rparr>"

section \<open>Flushing\<close>

definition memory_get :: "'c commandStore \<Rightarrow> string \<Rightarrow> 'c commandRecord option" where
  "memory_get s i =
    (case map_get (cs_active s) i of
       Some c \<Rightarrow> Some c
     | None \<Rightarrow> map_option ttl_command (map_get (cs_ttlCache s) i))"

type_synonym 'c flushBatch = "(string \<times> ('c commandRecord \<Rightarrow> 'c commandRecord)) list \<times> string list"

text \<open>The patch \<open>{...command}\<close> replaces every field.\<close>

definition flush_snapshot :: "'c commandStore \<Rightarrow> 'c flushBatch \<times> 'c commandStore" where
  "flush_snapshot s =
    ((map (\<lambda>i. (i, \<lambda>_. the (memory_get s i))) (filter (\<lambda>i. memory_get s i \<noteq> None) (cs_dirty s)),
      cs_pendingDeletes s),
     s\<lparr>cs_dirty := [], cs_pendingDeletes := []\<rparr>)"

definition flush_write :: "int \<Rightarrow> 'c flushBatch \<Rightarrow> 'c commandStore \<Rightarrow> 'c commandStore" where
  "flush_write now batch s =
    s\<lparr>cs_storage := fold deleteCommand (snd batch) (updateCommands now (fst batch) (cs_storage s))\<rparr>"

definition cs_doFlush :: "int \<Rightarrow> 'c commandStore \<Rightarrow> 'c commandStore" where
  "cs_doFlush now s = (let (batch, s1) = flush_snapshot s in flush_write now batch s1)"

definition flush_needed :: "'c commandStore \<Rightarrow> bool" where
  "flush_needed s \<longleftrightarrow> cs_dirty s \<noteq> [] \<or> cs_pendingDeletes s \<noteq> []"

text \<open>\<open>flush\<close> first awaits the flush in flight, which schedules another if there is work again.\<close>

definition cs_flush :: "int \<Rightarrow> 'c commandStore \<Rightarrow> 'c commandStore" where
  "cs_flush now s =
    (let s1 = (if cs_flushInFlight s
               then (let s' = (cs_doFlush now s)\<lparr>cs_flushInFlight := False\<rparr>
                     in if flush_needed s' then cs_scheduleFlush s' else s')
               else s)
     in if flush_needed s1 then cs_doFlush now s1 else s1)"

definition cs_deleteAll :: "'c commandStore \<Rightarrow> 'c commandStore" where
  "cs_deleteAll s =
    s\<lparr>cs_active := [], cs_ttlCache := [], cs_dirty := [], cs_pendingDeletes := [], cs_flushInFlight := False,
      cs_storage := deleteAllCommands (cs_storage s), cs_nextSeq := 1\<rparr>"

section \<open>The invariant of the two maps\<close>

text \<open>
  Active commands are in an in-memory status and no command is both active and cached.
\<close>

definition cs_inv :: "'c commandStore \<Rightarrow> bool" where
  "cs_inv s \<longleftrightarrow> keyed_by commandId (cs_active s) \<and> map_wf (cs_ttlCache s) \<and>
    (\<forall>i e. map_get (cs_ttlCache s) i = Some e \<longrightarrow> commandId (ttl_command e) = i \<and> map_get (cs_active s) i = None) \<and>
    (\<forall>i c. map_get (cs_active s) i = Some c \<longrightarrow> isInMemoryStatus (cmd_status c)) \<and>
    storage_inv (cs_storage s)"

lemma cs_invD:
  assumes "cs_inv s"
  shows "keyed_by commandId (cs_active s)" "map_wf (cs_ttlCache s)" "storage_inv (cs_storage s)"
    "map_get (cs_ttlCache s) i = Some e \<Longrightarrow> commandId (ttl_command e) = i"
    "map_get (cs_ttlCache s) i = Some e \<Longrightarrow> map_get (cs_active s) i = None"
    "map_get (cs_active s) i = Some c \<Longrightarrow> isInMemoryStatus (cmd_status c)"
    "map_get (cs_active s) i = Some c \<Longrightarrow> commandId c = i"
  using assms unfolding cs_inv_def by (blast dest: map_get_keyed)+

lemma cs_scheduleFlush_fields [simp]:
  "cs_active (cs_scheduleFlush s) = cs_active s" "cs_ttlCache (cs_scheduleFlush s) = cs_ttlCache s"
  "cs_dirty (cs_scheduleFlush s) = cs_dirty s" "cs_pendingDeletes (cs_scheduleFlush s) = cs_pendingDeletes s"
  "cs_storage (cs_scheduleFlush s) = cs_storage s" "cs_nextSeq (cs_scheduleFlush s) = cs_nextSeq s"
  by (simp_all add: cs_scheduleFlush_def)

lemma cs_scheduleFlush_inFlight [simp]: "cs_flushInFlight (cs_scheduleFlush s)"
  by (simp add: cs_scheduleFlush_def)

lemma cs_inv_cong:
  "cs_active s' = cs_active s \<Longrightarrow> cs_ttlCache s' = cs_ttlCache s \<Longrightarrow> cs_storage s' = cs_storage s \<Longrightarrow>
    cs_inv s' = cs_inv s"
  by (simp add: cs_inv_def)

lemma cs_inv_scheduleFlush [simp]: "cs_inv (cs_scheduleFlush s) = cs_inv s"
  by (rule cs_inv_cong) simp_all

lemma memory_get_ops:
  "memory_get (cs_scheduleFlush s) i = memory_get s i"
  "memory_get (s\<lparr>cs_dirty := d\<rparr>) i = memory_get s i" "memory_get (s\<lparr>cs_pendingDeletes := d\<rparr>) i = memory_get s i"
  "memory_get (s\<lparr>cs_storage := t\<rparr>) i = memory_get s i" "memory_get (s\<lparr>cs_flushInFlight := b\<rparr>) i = memory_get s i"
  by (simp_all add: memory_get_def split: option.split)

lemma updateInPlace_cases:
  assumes "cs_inv s"
  obtains (Stay) c where "map_get (cs_active s) i = Some c" "isInMemoryStatus (cmd_status (u c))"
      "updateInPlace now i u s =
        (True, s\<lparr>cs_active := map_set i (u c) (cs_active s), cs_dirty := set_add i (cs_dirty s)\<rparr>)"
  | (Move) c where "map_get (cs_active s) i = Some c" "\<not> isInMemoryStatus (cmd_status (u c))"
      "updateInPlace now i u s =
        (True, addToTtlCache now (u c) (s\<lparr>cs_dirty := set_add i (cs_dirty s), cs_active := map_delete i (cs_active s)\<rparr>))"
  | (Cached) e where "map_get (cs_active s) i = None" "map_get (cs_ttlCache s) i = Some e"
      "updateInPlace now i u s =
        (True, s\<lparr>cs_ttlCache := map_set i \<lparr>ttl_command = u (ttl_command e),
           ttl_expiresAt = now + cs_terminalTtlMs s\<rparr> (cs_ttlCache s), cs_dirty := set_add i (cs_dirty s)\<rparr>)"
  | (Absent) "map_get (cs_active s) i = None" "map_get (cs_ttlCache s) i = None"
      "updateInPlace now i u s = (False, s)"
proof (cases "map_get (cs_active s) i")
  case (Some c)
  have "map_delete i (map_set i (u c) (cs_active s)) = map_delete i (cs_active s)"
    by (rule delete_update_same)
  then show thesis
    using Some that(1,2) [of c] by (cases "isInMemoryStatus (cmd_status (u c))") (simp_all add: updateInPlace_def Let_def)
next
  case None
  then show thesis
    using that(3,4) by (cases "map_get (cs_ttlCache s) i") (simp_all add: updateInPlace_def)
qed

lemma updateInPlace_memory:
  assumes inv: "cs_inv s" and u: "\<And>c. commandId (u c) = commandId c"
  shows "fst (updateInPlace now i u s) \<longleftrightarrow> memory_get s i \<noteq> None"
    and "memory_get (snd (updateInPlace now i u s)) j =
      (if j = i then map_option u (memory_get s i) else memory_get s j)"
    and "cs_inv (snd (updateInPlace now i u s))"
    and "cs_storage (snd (updateInPlace now i u s)) = cs_storage s"
    and "cs_dirty (snd (updateInPlace now i u s)) =
      (if memory_get s i \<noteq> None then set_add i (cs_dirty s) else cs_dirty s)"
proof -
  note D = cs_invD [OF inv]
  show "fst (updateInPlace now i u s) \<longleftrightarrow> memory_get s i \<noteq> None"
    by (rule updateInPlace_cases [OF inv, of i u now]) (simp_all add: memory_get_def)
  show "memory_get (snd (updateInPlace now i u s)) j =
      (if j = i then map_option u (memory_get s i) else memory_get s j)"
    by (rule updateInPlace_cases [OF inv, of i u now])
      (auto simp: memory_get_def addToTtlCache_def D(7) u split: option.split)
  show "cs_inv (snd (updateInPlace now i u s))"
  proof (rule updateInPlace_cases [OF inv, of i u now])
    fix c assume c: "map_get (cs_active s) i = Some c" "isInMemoryStatus (cmd_status (u c))"
      and eq: "updateInPlace now i u s =
        (True, s\<lparr>cs_active := map_set i (u c) (cs_active s), cs_dirty := set_add i (cs_dirty s)\<rparr>)"
    have "map_get (cs_ttlCache s) i = None"
      using D(5) [of i] c(1) by (cases "map_get (cs_ttlCache s) i") auto
    then show ?thesis
      using inv c D(7) [of i c] u [of c] unfolding eq cs_inv_def
      by (auto intro!: keyed_by_set split: if_splits)
  next
    fix c assume "map_get (cs_active s) i = Some c"
      and eq: "updateInPlace now i u s = (True, addToTtlCache now (u c)
        (s\<lparr>cs_dirty := set_add i (cs_dirty s), cs_active := map_delete i (cs_active s)\<rparr>))"
    then show ?thesis
      using inv D(7) [of i c] u [of c] unfolding eq cs_inv_def
      by (auto simp: addToTtlCache_def intro!: keyed_by_delete wf_intros split: if_splits)
  next
    fix e assume "map_get (cs_active s) i = None" "map_get (cs_ttlCache s) i = Some e"
      and eq: "updateInPlace now i u s =
        (True, s\<lparr>cs_ttlCache := map_set i \<lparr>ttl_command = u (ttl_command e),
           ttl_expiresAt = now + cs_terminalTtlMs s\<rparr> (cs_ttlCache s), cs_dirty := set_add i (cs_dirty s)\<rparr>)"
    then show ?thesis
      using inv D(4) [of i e] u [of "ttl_command e"] unfolding eq cs_inv_def
      by (auto intro!: wf_intros split: if_splits)
  qed (use inv in simp)
  show "cs_storage (snd (updateInPlace now i u s)) = cs_storage s"
    "cs_dirty (snd (updateInPlace now i u s)) =
      (if memory_get s i \<noteq> None then set_add i (cs_dirty s) else cs_dirty s)"
    by (rule updateInPlace_cases [OF inv, of i u now]; simp add: memory_get_def addToTtlCache_def)+
qed

section \<open>What a flush writes\<close>

text \<open>Equal but for the time of the last update.\<close>

definition same_command :: "'c commandRecord \<Rightarrow> 'c commandRecord \<Rightarrow> bool" where
  "same_command a b \<longleftrightarrow> a\<lparr>cmd_updatedAt := 0\<rparr> = b\<lparr>cmd_updatedAt := 0\<rparr>"

lemma same_command_refl [simp]: "same_command c c"
  by (simp add: same_command_def)

lemma same_command_touch [simp]: "same_command c (c\<lparr>cmd_updatedAt := t\<rparr>)"
  by (simp add: same_command_def)

lemma getCommand_updateCommand:
  "getCommand (updateCommand now i u st) j =
    (if j = i then map_option (\<lambda>c. (u c)\<lparr>cmd_updatedAt := now\<rparr>) (getCommand st i) else getCommand st j)"
  by (auto simp: updateCommand_def getCommand_def split: option.splits)

lemma getCommand_updateCommands:
  "distinct ids \<Longrightarrow> getCommand (updateCommands now (map (\<lambda>i. (i, \<lambda>_. f i)) ids) st) j =
    (if j \<in> set ids then map_option (\<lambda>_. (f j)\<lparr>cmd_updatedAt := now\<rparr>) (getCommand st j) else getCommand st j)"
proof (induction ids arbitrary: st)
  case (Cons i ids)
  then show ?case
    by (auto simp: updateCommands_def getCommand_updateCommand)
qed (simp add: updateCommands_def)

lemma doFlush_storage:
  assumes "distinct (cs_dirty s)"
  shows "getCommand (cs_storage (cs_doFlush now s)) j =
    (if j \<in> set (cs_pendingDeletes s) then None
     else if j \<in> set (cs_dirty s) \<and> memory_get s j \<noteq> None
       then map_option (\<lambda>_. (the (memory_get s j))\<lparr>cmd_updatedAt := now\<rparr>) (getCommand (cs_storage s) j)
     else getCommand (cs_storage s) j)"
  using assms
  by (simp add: cs_doFlush_def flush_snapshot_def flush_write_def command_records.get_del_all
      getCommand_updateCommands)

lemma doFlush_fields:
  "cs_dirty (cs_doFlush now s) = []" "cs_pendingDeletes (cs_doFlush now s) = []"
  "memory_get (cs_doFlush now s) i = memory_get s i"
  by (simp_all add: cs_doFlush_def flush_snapshot_def flush_write_def memory_get_ops)

lemma flush_eq:
  "flush_needed s \<Longrightarrow> cs_storage (cs_flush now s) = cs_storage (cs_doFlush now s)"
  "\<not> flush_needed s \<Longrightarrow> cs_storage (cs_flush now s) = cs_storage s"
  "cs_dirty (cs_flush now s) = [] \<and> cs_pendingDeletes (cs_flush now s) = []"
  "memory_get (cs_flush now s) i = memory_get s i"
proof -
  have empty: "\<not> flush_needed ((cs_doFlush now s)\<lparr>cs_flushInFlight := False\<rparr>)"
    by (simp add: flush_needed_def doFlush_fields)
  have none: "cs_storage (cs_doFlush now s) = cs_storage s" if "\<not> flush_needed s"
    using that by (simp add: flush_needed_def cs_doFlush_def flush_snapshot_def flush_write_def updateCommands_def)
  show "flush_needed s \<Longrightarrow> cs_storage (cs_flush now s) = cs_storage (cs_doFlush now s)"
    "\<not> flush_needed s \<Longrightarrow> cs_storage (cs_flush now s) = cs_storage s"
    "memory_get (cs_flush now s) i = memory_get s i"
    using empty none by (simp_all add: cs_flush_def Let_def doFlush_fields memory_get_ops)
  show "cs_dirty (cs_flush now s) = [] \<and> cs_pendingDeletes (cs_flush now s) = []"
    using empty by (auto simp: cs_flush_def Let_def doFlush_fields flush_needed_def)
qed

text \<open>
  What is in memory is in storage too, up to changes that are marked dirty, and the ids to be
  deleted are not in memory.
\<close>

definition cs_tracked :: "'c commandStore \<Rightarrow> bool" where
  "cs_tracked s \<longleftrightarrow> distinct (cs_dirty s) \<and>
    (\<forall>i c. memory_get s i = Some c \<longrightarrow> i \<notin> set (cs_pendingDeletes s) \<and>
      (\<exists>c'. getCommand (cs_storage s) i = Some c' \<and> (i \<notin> set (cs_dirty s) \<longrightarrow> same_command c c')))"

lemma cs_tracked_update:
  assumes "cs_inv s" "cs_tracked s" "\<And>c. commandId (u c) = commandId c"
  shows "cs_tracked (snd (updateInPlace now i u s))"
proof -
  note M = updateInPlace_memory [OF assms(1,3)]
  have dels: "cs_pendingDeletes (snd (updateInPlace now i u s)) = cs_pendingDeletes s"
    by (rule updateInPlace_cases [OF assms(1), of i u now]) (simp_all add: addToTtlCache_def)
  show ?thesis
    using assms(2) unfolding cs_tracked_def M(2,4,5) dels
    by (cases "memory_get s i") auto
qed

lemma cs_getByStatus_memory:
  assumes "\<And>x. x \<in> set (many status) \<Longrightarrow> isInMemoryStatus x"
  shows "cs_getByStatus status s =
    sort_key cmd_seq (filter (\<lambda>c. cmd_status c \<in> set (many status)) (map_values (cs_active s)))"
proof -
  have f: "filter isInMemoryStatus (many status) = many status"
    "filter (\<lambda>x. \<not> isInMemoryStatus x) (many status) = []"
    using assms by (simp_all add: filter_empty_conv filter_id_conv)
  have sorting: "js_sort by_seq = sort_key (cmd_seq :: 'a commandRecord \<Rightarrow> int)"
    by (rule ext, rule js_sort_sort_key) (simp add: by_seq_def)
  show ?thesis by (simp add: cs_getByStatus_def classifyStatuses_def f sorting) 
qed

section \<open>Properties\<close>

definition cmd :: "string \<Rightarrow> commandStatus \<Rightarrow> int \<Rightarrow> unit commandRecord" where
  "cmd i status n = \<lparr>commandId = i, cmd_cacheKey = ''k'', cmd_service = ''svc'', cmd_type = ''AddTodo'',
    cmd_status = status, dependsOn = [], blockedBy = [], attempts = 0, cmd_seq = n, cmd_createdAt = 0,
    cmd_updatedAt = 0, cmd_body = ()\<rparr>"

definition sample_commands :: "unit commandStore" where
  "sample_commands = (new_commandStore 60000 (saveCommand (cmd ''c1'' Pending 1) (saveCommand (cmd ''c2'' Failed 2) new_storage)))
    \<lparr>cs_active := [(''c1'', cmd ''c1'' Pending 1)],
     cs_ttlCache := [(''c2'', \<lparr>ttl_command = cmd ''c2'' Failed 2, ttl_expiresAt = 60000\<rparr>)]\<rparr>"

lemma sample_commands_inv: "cs_inv sample_commands"
  unfolding cs_inv_def
  by (auto simp: sample_commands_def new_commandStore_def cmd_def keyed_by_def map_wf_def
      intro!: inv_saveCommand storage_inv_new)

lemma sample_commands_tracked: "cs_tracked sample_commands"
  by (auto simp: cs_tracked_def sample_commands_def new_commandStore_def memory_get_def
      command_records.get_put cmd_def split: if_splits)

text \<open>
  An update in memory. On a well-formed store \<open>update\<close> reports whether the command is in
  memory; it changes that command and no other, as far as reads of memory can tell; a command that
  leaves the in-memory statuses moves from the active map to the cache; the command is marked for
  the next flush and a flush is scheduled; and the store stays well-formed.
\<close>
theorem update_spec:
  assumes "cs_inv s" and "\<And>c. commandId (u c) = commandId c"
  shows "fst (cs_update now i u s) = (memory_get s i \<noteq> None)
    \<and> memory_get (snd (cs_update now i u s)) j =
        (if j = i then map_option u (memory_get s i) else memory_get s j)
    \<and> (map_get (cs_active s) i = Some c \<longrightarrow>
        map_get (cs_active (snd (cs_update now i u s))) i =
          (if isInMemoryStatus (cmd_status (u c)) then Some (u c) else None))
    \<and> (memory_get s i \<noteq> None \<longrightarrow> i \<in> set (cs_dirty (snd (cs_update now i u s)))
        \<and> cs_flushInFlight (snd (cs_update now i u s)))
    \<and> cs_inv (snd (cs_update now i u s))"
proof -
  note M = updateInPlace_memory [OF assms(1), of u now i, OF assms(2)]
  have upd: "cs_update now i u s = (fst (updateInPlace now i u s),
      if fst (updateInPlace now i u s) then cs_scheduleFlush (snd (updateInPlace now i u s))
      else snd (updateInPlace now i u s))"
    by (simp add: cs_update_def case_prod_beta Let_def)
  have act: "map_get (cs_active s) i = Some c \<longrightarrow>
      map_get (cs_active (snd (updateInPlace now i u s))) i =
        (if isInMemoryStatus (cmd_status (u c)) then Some (u c) else None)"
    by (rule updateInPlace_cases [OF assms(1), of i u now]) (auto simp: addToTtlCache_def)
  show ?thesis
    using M act by (auto simp: upd memory_get_ops)
qed

theorem update_spec_witness:
  "fst (cs_update 5 ''c1'' (\<lambda>c. c\<lparr>cmd_status := Cancelled\<rparr>) sample_commands)
   \<and> map_get (cs_active (snd (cs_update 5 ''c1'' (\<lambda>c. c\<lparr>cmd_status := Cancelled\<rparr>) sample_commands))) ''c1'' = None"
proof -
  have a: "map_get (cs_active sample_commands) ''c1'' = Some (cmd ''c1'' Pending 1)"
    by (simp add: sample_commands_def)
  have u: "\<And>c. commandId ((\<lambda>c :: unit commandRecord. c\<lparr>cmd_status := Cancelled\<rparr>) c) = commandId c" by simp
  show ?thesis
    using update_spec [OF sample_commands_inv u, of 5 "''c1''" _ "cmd ''c1'' Pending 1"] a
    by (simp add: memory_get_def)
qed

text \<open>
  C33: A flush makes storage agree with memory. Starting from a store whose memory and storage differ
  at most by changes marked dirty, \<open>flush\<close>, whether or not one is in flight, leaves nothing to
  write: every command in memory is in storage with the same contents (but for the time of the
  update), every deleted id is gone from storage, every other stored command is unchanged, and what
  memory holds is unchanged.
\<close>
theorem flush_converges:
  assumes "cs_tracked s"
  shows "cs_dirty (cs_flush now s) = [] \<and> cs_pendingDeletes (cs_flush now s) = []
    \<and> memory_get (cs_flush now s) i = memory_get s i
    \<and> (memory_get s i = Some c \<longrightarrow> (\<exists>c'. getCommand (cs_storage (cs_flush now s)) i = Some c' \<and> same_command c c'))
    \<and> (i \<in> set (cs_pendingDeletes s) \<longrightarrow> getCommand (cs_storage (cs_flush now s)) i = None)
    \<and> (i \<notin> set (cs_pendingDeletes s) \<and> i \<notin> set (cs_dirty s) \<longrightarrow>
        getCommand (cs_storage (cs_flush now s)) i = getCommand (cs_storage s) i)"
proof -
  have T: "distinct (cs_dirty s)"
    "memory_get s i = Some c \<Longrightarrow> i \<notin> set (cs_pendingDeletes s) \<and>
      (\<exists>c'. getCommand (cs_storage s) i = Some c' \<and> (i \<notin> set (cs_dirty s) \<longrightarrow> same_command c c'))"
    using assms by (simp_all add: cs_tracked_def)
  show ?thesis
  proof (cases "flush_needed s")
    case True
    then show ?thesis
      using T by (auto simp: flush_eq doFlush_storage)
  next
    case False
    then show ?thesis
      using T by (auto simp: flush_eq flush_needed_def)
  qed
qed

theorem flush_converges_witness:
  "\<exists>c'. getCommand (cs_storage (cs_flush 9 (snd (updateInPlace 5 ''c1'' (\<lambda>c. c\<lparr>attempts := 1\<rparr>) sample_commands)))) ''c1''
     = Some c' \<and> same_command ((cmd ''c1'' Pending 1)\<lparr>attempts := 1\<rparr>) c'"
proof -
  let ?u = "\<lambda>c :: unit commandRecord. c\<lparr>attempts := 1\<rparr>"
  have u: "\<And>c. commandId (?u c) = commandId c" by simp
  have t: "cs_tracked (snd (updateInPlace 5 ''c1'' ?u sample_commands))"
    by (rule cs_tracked_update [OF sample_commands_inv sample_commands_tracked u])
  have m: "memory_get sample_commands ''c1'' = Some (cmd ''c1'' Pending 1)"
    by (simp add: memory_get_def sample_commands_def)
  have "memory_get (snd (updateInPlace 5 ''c1'' ?u sample_commands)) ''c1'' = Some (?u (cmd ''c1'' Pending 1))"
    unfolding updateInPlace_memory(2) [where u = ?u, OF sample_commands_inv u] m by simp
  then show ?thesis using flush_converges [OF t, of 9 "''c1''" "?u (cmd ''c1'' Pending 1)"] by blast
qed

text \<open>
  A retried command is lost to the queue. When a failed command that is still in the cache is
  updated back to \<open>pending\<close>, as retrying it does, the update reports success and a read of the
  command returns it as pending; but the command stays in the cache and out of the active map, so
  no look-up by any in-memory status, the one the queue takes its pending commands from included,
  ever returns it.
\<close>
theorem retried_command_not_listed:
  assumes "cs_inv s" and "map_get (cs_ttlCache s) i = Some e" and "cmd_status (ttl_command e) = Failed"
    and "\<And>x. x \<in> set (many status) \<Longrightarrow> isInMemoryStatus x"
  shows "fst (cs_update now i (\<lambda>c. c\<lparr>cmd_status := Pending\<rparr>) s)
    \<and> map_option cmd_status (fst (cs_get later i (snd (cs_update now i (\<lambda>c. c\<lparr>cmd_status := Pending\<rparr>) s)))) = Some Pending
    \<and> i \<notin> commandId ` set (cs_getByStatus status (snd (cs_update now i (\<lambda>c. c\<lparr>cmd_status := Pending\<rparr>) s)))"
proof -
  note D = cs_invD [OF assms(1)]
  have none: "map_get (cs_active s) i = None" by (rule D(5) [OF assms(2)])
  let ?s' = "snd (cs_update now i (\<lambda>c. c\<lparr>cmd_status := Pending\<rparr>) s)"
  have upd: "updateInPlace now i (\<lambda>c. c\<lparr>cmd_status := Pending\<rparr>) s =
      (True, s\<lparr>cs_ttlCache := map_set i \<lparr>ttl_command = (ttl_command e)\<lparr>cmd_status := Pending\<rparr>,
         ttl_expiresAt = now + cs_terminalTtlMs s\<rparr> (cs_ttlCache s), cs_dirty := set_add i (cs_dirty s)\<rparr>)"
    using none assms(2) by (simp add: updateInPlace_def)
  have act: "cs_active ?s' = cs_active s" by (simp add: cs_update_def upd)
  have ids: "c \<in> set (map_values (cs_active s)) \<Longrightarrow> commandId c \<noteq> i" for c
    using D(1) none by (auto simp: keyed_by_def map_of_eq_None_iff image_iff) force
  have "fst (cs_get later i ?s') = Some ((ttl_command e)\<lparr>cmd_status := Pending\<rparr>)"
    using none by (simp add: cs_get_def act) (simp add: cs_update_def upd)
  moreover have "i \<notin> commandId ` set (cs_getByStatus status ?s')"
  proof -
    have "set (cs_getByStatus status ?s') \<subseteq> set (map_values (cs_active s))"
      using cs_getByStatus_memory [of status ?s', OF assms(4)] by (auto simp: act)
    then show ?thesis using ids by blast
  qed
  ultimately show ?thesis by (simp add: cs_update_def upd)
qed

theorem retried_command_not_listed_witness:
  "fst (cs_update 7 ''c2'' (\<lambda>c. c\<lparr>cmd_status := Pending\<rparr>) sample_commands)
   \<and> ''c2'' \<notin> commandId ` set (cs_getByStatus (One Pending)
        (snd (cs_update 7 ''c2'' (\<lambda>c. c\<lparr>cmd_status := Pending\<rparr>) sample_commands)))"
proof -
  have e: "map_get (cs_ttlCache sample_commands) ''c2'' =
      Some \<lparr>ttl_command = cmd ''c2'' Failed 2, ttl_expiresAt = 60000\<rparr>"
    by (simp add: sample_commands_def)
  show ?thesis
    using retried_command_not_listed [OF sample_commands_inv e, of "One Pending" 7 7] by (simp add: cmd_def)
qed

text \<open>
  Paging through all commands skips twice. When memory holds no command beyond what storage
  does (here: nothing is active) and no status is asked for, a page of \<open>list\<close> with an offset
  and a limit is a page of the page that storage returned: the offset is applied to the result
  a second time, so it drops the first \<open>m\<close> of the page, not of the list; the second of two
  commands cannot be listed with offset 1.
\<close>
theorem list_applies_offset_twice:
  assumes "cs_active s = []" and "flt_status f = None"
  shows "cs_list (Some (f\<lparr>flt_offset := Some (int m), flt_limit := Some (int n)\<rparr>)) s =
    take n (drop m (take n (drop m
      (sort_key cmd_seq (filter (filter_matches f) (map_values (commands (cs_storage s))))))))"
proof -
  let ?f = "f\<lparr>flt_offset := Some (int m), flt_limit := Some (int n)\<rparr>"
  let ?page = "take n (drop m (sort_key cmd_seq (filter (filter_matches f) (map_values (commands (cs_storage s))))))"
  have sorting: "js_sort by_seq = sort_key (cmd_seq :: 'a commandRecord \<Rightarrow> int)"
    by (rule ext, rule js_sort_sort_key) (simp add: by_seq_def)
  have tests: "filter_matches ?f = filter_matches f"
    by (rule ext) (simp add: filter_matches_def)
  have page: "getCommands (cs_storage s) (Some ?f) = ?page"
    by (simp add: getCommands_def sorting tests Let_def)
  have "sorted (map cmd_seq ?page)"
    by (simp add: sorted_wrt_take sorted_wrt_drop flip: take_map drop_map)
  then have srt: "sort_key cmd_seq ?page = ?page" by (simp add: sort_key_id_if_sorted)
  have slice: "js_slice (int m) (Some (int m + int n)) xs = take n (drop m xs)" for xs :: "'a commandRecord list"
    by (auto simp: js_slice_def slice_index_def Let_def min_def nat_add_distrib)
  have "filter (\<lambda>c. True) ?page = ?page" by simp
  then show ?thesis
    using assms by (simp add: cs_list_def filterActive_def page sorting srt slice Let_def del: take_all drop_all)
qed

theorem list_applies_offset_twice_witness:
  "map commandId (cs_list (Some (no_filter\<lparr>flt_offset := Some (int 1), flt_limit := Some (int 1)\<rparr>))
     (sample_commands\<lparr>cs_active := []\<rparr>)) = []"
proof -
  have "cs_list (Some (no_filter\<lparr>flt_offset := Some (int 1), flt_limit := Some (int 1)\<rparr>))
      (sample_commands\<lparr>cs_active := []\<rparr>) = take 1 (drop 1 (take 1 (drop 1
      (sort_key cmd_seq (filter (filter_matches no_filter) (map_values (commands (cs_storage (sample_commands\<lparr>cs_active := []\<rparr>)))))))))"
    by (rule list_applies_offset_twice) (simp_all add: no_filter_def)
  then show ?thesis by simp
qed

end
