(* ===== verification/IdMapping.thy ===== *)
theory IdMapping
  imports Storage
begin

text \<open>
  The store of client-to-server id mappings,
  \<^verbatim>\<open>packages/client/src/core/command-id-mapping-store/CommandIdMappingStore.ts\<close>: two in-memory
  indexes over the same records, a set of dirty client ids, and a flush to storage.  Reads and
  writes before \<open>initialize\<close> fail an assertion (\<open>Inl\<close>).  The locale \<open>id_index\<close> is what its
  readers, the id resolution and the read-model reconciliation, rely on.
\<close>

section \<open>State\<close>

record 'c idMappingStore =
  ims_byClientId :: "(string, commandIdMappingRecord) jsmap"
  ims_byServerId :: "(string, commandIdMappingRecord) jsmap"
  ims_dirty :: "string list"
  ims_initialized :: bool
  ims_flushInFlight :: bool
  ims_ttlMs :: int
  ims_storage :: "'c inMemoryStorage"

definition new_idMappingStore :: "int \<Rightarrow> 'c inMemoryStorage \<Rightarrow> 'c idMappingStore" where
  "new_idMappingStore ttl st = \<lparr>ims_byClientId = [], ims_byServerId = [], ims_dirty = [],
    ims_initialized = False, ims_flushInFlight = False, ims_ttlMs = ttl, ims_storage = st\<rparr>"

definition not_initialized :: string where
  "not_initialized = ''CommandIdMappingStore.initialize() must be awaited before reading or writing''"

section \<open>Operations\<close>

definition load_record :: "commandIdMappingRecord \<Rightarrow> 'c idMappingStore \<Rightarrow> 'c idMappingStore" where
  "load_record r s = s\<lparr>ims_byClientId := map_set (map_clientId r) r (ims_byClientId s),
    ims_byServerId := map_set (map_serverId r) r (ims_byServerId s)\<rparr>"

definition ims_initialize :: "int \<Rightarrow> 'c idMappingStore \<Rightarrow> string + 'c idMappingStore" where
  "ims_initialize now s =
    (if ims_initialized s then Inl ''CommandIdMappingStore.initialize() must only be called once''
     else (let (records, st) = loadAndPurgeCommandIdMappings (now - ims_ttlMs s) (ims_storage s)
           in Inr ((fold load_record records (s\<lparr>ims_storage := st\<rparr>))\<lparr>ims_initialized := True\<rparr>)))"

definition ims_get :: "'c idMappingStore \<Rightarrow> string \<Rightarrow> string + commandIdMappingRecord option" where
  "ims_get s clientId =
    (if ims_initialized s then Inr (map_get (ims_byClientId s) clientId) else Inl not_initialized)"

definition ims_getByServerId :: "'c idMappingStore \<Rightarrow> string \<Rightarrow> string + commandIdMappingRecord option" where
  "ims_getByServerId s serverId =
    (if ims_initialized s then Inr (map_get (ims_byServerId s) serverId) else Inl not_initialized)"

definition ims_getMany ::
  "'c idMappingStore \<Rightarrow> string list \<Rightarrow> string + (string, commandIdMappingRecord) jsmap" where
  "ims_getMany s ids =
    (if ims_initialized s
     then Inr (fold (\<lambda>i m. case map_get (ims_byClientId s) i of Some r \<Rightarrow> map_set i r m | None \<Rightarrow> m) ids [])
     else Inl not_initialized)"

definition writeInPlace :: "commandIdMappingRecord \<Rightarrow> 'c idMappingStore \<Rightarrow> 'c idMappingStore" where
  "writeInPlace r s =
    (let byServer = (case map_get (ims_byClientId s) (map_clientId r) of
            Some existing \<Rightarrow>
              if map_serverId existing \<noteq> map_serverId r
              then map_delete (map_serverId existing) (ims_byServerId s) else ims_byServerId s
          | None \<Rightarrow> ims_byServerId s)
     in s\<lparr>ims_byServerId := map_set (map_serverId r) r byServer,
          ims_byClientId := map_set (map_clientId r) r (ims_byClientId s),
          ims_dirty := set_add (map_clientId r) (ims_dirty s)\<rparr>)"

definition ims_scheduleFlush :: "'c idMappingStore \<Rightarrow> 'c idMappingStore" where
  "ims_scheduleFlush s = (if ims_flushInFlight s then s else s\<lparr>ims_flushInFlight := True\<rparr>)"

definition ims_save :: "commandIdMappingRecord \<Rightarrow> 'c idMappingStore \<Rightarrow> string + 'c idMappingStore" where
  "ims_save r s = (if ims_initialized s then Inr (ims_scheduleFlush (writeInPlace r s)) else Inl not_initialized)"

definition ims_saveMany :: "commandIdMappingRecord list \<Rightarrow> 'c idMappingStore \<Rightarrow> string + 'c idMappingStore" where
  "ims_saveMany rs s =
    (if \<not> ims_initialized s then Inl not_initialized
     else if rs = [] then Inr s
     else Inr (ims_scheduleFlush (fold writeInPlace rs s)))"

definition ims_doFlush :: "'c idMappingStore \<Rightarrow> 'c idMappingStore" where
  "ims_doFlush s =
    (let records = map (\<lambda>i. the (map_get (ims_byClientId s) i))
                     (filter (map_has (ims_byClientId s)) (ims_dirty s))
     in s\<lparr>ims_dirty := [],
          ims_storage := (if records \<noteq> [] then saveCommandIdMappings records (ims_storage s) else ims_storage s)\<rparr>)"

definition ims_flush :: "'c idMappingStore \<Rightarrow> 'c idMappingStore" where
  "ims_flush s =
    (let s1 = (if ims_flushInFlight s
               then (let s' = (ims_doFlush s)\<lparr>ims_flushInFlight := False\<rparr>
                     in if ims_dirty s' \<noteq> [] then ims_scheduleFlush s' else s')
               else s)
     in if ims_dirty s1 \<noteq> [] then ims_doFlush s1 else s1)"

definition ims_deleteAll :: "'c idMappingStore \<Rightarrow> 'c idMappingStore" where
  "ims_deleteAll s = s\<lparr>ims_byClientId := [], ims_byServerId := [], ims_dirty := [],
    ims_flushInFlight := False, ims_storage := deleteAllCommandIdMappings (ims_storage s)\<rparr>"

definition ims_size :: "'c idMappingStore \<Rightarrow> nat" where
  "ims_size s = length (ims_byClientId s)"

definition evict_mapping :: "int \<Rightarrow> string \<times> commandIdMappingRecord \<Rightarrow> 'c idMappingStore \<Rightarrow> 'c idMappingStore" where
  "evict_mapping cutoff kr s =
    (if map_createdAt (snd kr) < cutoff
     then s\<lparr>ims_byClientId := map_delete (fst kr) (ims_byClientId s),
            ims_byServerId := map_delete (map_serverId (snd kr)) (ims_byServerId s),
            ims_dirty := set_remove (fst kr) (ims_dirty s)\<rparr>
     else s)"

definition ims_sweep :: "int \<Rightarrow> 'c idMappingStore \<Rightarrow> 'c idMappingStore" where
  "ims_sweep now s =
    (let cutoff = now - ims_ttlMs s;
         s1 = fold (evict_mapping cutoff) (ims_byClientId s) s
     in s1\<lparr>ims_storage := deleteCommandIdMappingsOlderThan cutoff (ims_storage s1)\<rparr>)"

section \<open>Invariant\<close>

text \<open>
  Records sit under their own ids, and the reverse index is contained in the forward one.  The
  converse holds while no two clients map to one server id: \<open>ims_injective\<close>.
\<close>

definition ims_inv :: "'c idMappingStore \<Rightarrow> bool" where
  "ims_inv s \<longleftrightarrow> map_wf (ims_byClientId s) \<and> map_wf (ims_byServerId s) \<and>
    (\<forall>c r. map_get (ims_byClientId s) c = Some r \<longrightarrow> map_clientId r = c) \<and>
    (\<forall>v r. map_get (ims_byServerId s) v = Some r \<longrightarrow>
       map_serverId r = v \<and> map_get (ims_byClientId s) (map_clientId r) = Some r)"

definition ims_injective :: "'c idMappingStore \<Rightarrow> bool" where
  "ims_injective s \<longleftrightarrow>
    (\<forall>c r. map_get (ims_byClientId s) c = Some r \<longrightarrow> map_get (ims_byServerId s) (map_serverId r) = Some r)"

lemma ims_invD:
  assumes "ims_inv s"
  shows "map_wf (ims_byClientId s)" "map_wf (ims_byServerId s)"
    "map_get (ims_byClientId s) c = Some r \<Longrightarrow> map_clientId r = c"
    "map_get (ims_byServerId s) v = Some r \<Longrightarrow> map_serverId r = v"
    "map_get (ims_byServerId s) v = Some r \<Longrightarrow> map_get (ims_byClientId s) (map_clientId r) = Some r"
  using assms unfolding ims_inv_def by blast+

lemma writeInPlace_get:
  assumes "ims_inv s"
  shows "map_get (ims_byClientId (writeInPlace r s)) c =
      (if c = map_clientId r then Some r else map_get (ims_byClientId s) c)"
    and "map_get (ims_byServerId (writeInPlace r s)) v =
      (if v = map_serverId r then Some r
       else if map_option map_serverId (map_get (ims_byClientId s) (map_clientId r)) = Some v then None
       else map_get (ims_byServerId s) v)"
  by (auto simp: writeInPlace_def Let_def split: option.splits)

lemma writeInPlace_inv:
  assumes inv: "ims_inv s"
  shows "ims_inv (writeInPlace r s)"
proof -
  note D = ims_invD [OF inv] and W = writeInPlace_get [OF inv]
  have "map_wf (ims_byClientId (writeInPlace r s))" "map_wf (ims_byServerId (writeInPlace r s))"
    using D(1,2) by (simp_all add: writeInPlace_def Let_def split: option.splits)
  moreover have "map_serverId q = v \<and> map_get (ims_byClientId (writeInPlace r s)) (map_clientId q) = Some q"
    if "map_get (ims_byServerId (writeInPlace r s)) v = Some q" for v q
  proof (cases "v = map_serverId r")
    case True
    with that show ?thesis by (simp add: W)
  next
    case False
    with that have q: "map_get (ims_byServerId s) v = Some q"
      and ne: "map_option map_serverId (map_get (ims_byClientId s) (map_clientId r)) \<noteq> Some v"
      by (auto simp: W split: if_splits)
    have "map_serverId q = v" "map_get (ims_byClientId s) (map_clientId q) = Some q"
      using D(4,5) [OF q] by auto
    moreover from this ne have "map_clientId q \<noteq> map_clientId r" by auto
    ultimately show ?thesis by (simp add: W)
  qed
  moreover have "map_clientId q = c" if "map_get (ims_byClientId (writeInPlace r s)) c = Some q" for c q
    using that D(3) [of c q] by (auto simp: W split: if_splits)
  ultimately show ?thesis by (simp add: ims_inv_def)
qed

lemma writeInPlace_injective:
  assumes inv: "ims_inv s" and inj: "ims_injective s"
    and fresh: "\<And>c q. map_get (ims_byClientId s) c = Some q \<Longrightarrow> c \<noteq> map_clientId r \<Longrightarrow> map_serverId q \<noteq> map_serverId r"
  shows "ims_injective (writeInPlace r s)"
  unfolding ims_injective_def
proof (intro allI impI)
  note W = writeInPlace_get [OF inv] and D = ims_invD [OF inv]
  fix c q assume q: "map_get (ims_byClientId (writeInPlace r s)) c = Some q"
  show "map_get (ims_byServerId (writeInPlace r s)) (map_serverId q) = Some q"
  proof (cases "c = map_clientId r")
    case True
    with q show ?thesis by (simp add: W)
  next
    case False
    with q have q0: "map_get (ims_byClientId s) c = Some q" by (simp add: W)
    then have s: "map_get (ims_byServerId s) (map_serverId q) = Some q" using inj by (simp add: ims_injective_def)
    have "map_option map_serverId (map_get (ims_byClientId s) (map_clientId r)) \<noteq> Some (map_serverId q)"
    proof
      assume "map_option map_serverId (map_get (ims_byClientId s) (map_clientId r)) = Some (map_serverId q)"
      then obtain e where e: "map_get (ims_byClientId s) (map_clientId r) = Some e" "map_serverId e = map_serverId q"
        by auto
      then have "map_get (ims_byServerId s) (map_serverId q) = Some e" using inj by (metis ims_injective_def)
      with s D(3) [OF e(1)] D(3) [OF q0] False show False by auto
    qed
    with fresh [OF q0 False] s show ?thesis by (simp add: W)
  qed
qed

text \<open>Sweeping, while no server id is shared, keeps both indexes and removes exactly the expired.\<close>

lemma evict_fold_client:
  "map_get (ims_byClientId (fold (evict_mapping cutoff) krs s)) c =
    (if \<exists>r. (c, r) \<in> set krs \<and> map_createdAt r < cutoff then None else map_get (ims_byClientId s) c)"
proof (induction krs arbitrary: s)
  case (Cons kr krs)
  obtain k r where kr: "kr = (k, r)" by (cases kr)
  show ?case
    unfolding fold_simps comp_apply kr Cons.IH by (cases "map_createdAt r < cutoff") (auto simp: evict_mapping_def)
qed simp

lemma evict_fold_server:
  "map_get (ims_byServerId (fold (evict_mapping cutoff) krs s)) v =
    (if \<exists>r \<in> snd ` set krs. map_createdAt r < cutoff \<and> map_serverId r = v then None
     else map_get (ims_byServerId s) v)"
proof (induction krs arbitrary: s)
  case (Cons kr krs)
  show ?case
    unfolding fold_simps comp_apply Cons.IH
    by (cases "map_createdAt (snd kr) < cutoff"; cases "map_serverId (snd kr) = v") (auto simp: evict_mapping_def)
qed simp

lemma sweep_get:
  assumes "ims_inv s"
  shows "map_get (ims_byClientId (ims_sweep now s)) c =
      (case map_get (ims_byClientId s) c of
         Some r \<Rightarrow> if map_createdAt r < now - ims_ttlMs s then None else Some r
       | None \<Rightarrow> None)"
    and "map_get (ims_byServerId (ims_sweep now s)) v =
      (if \<exists>c r. map_get (ims_byClientId s) c = Some r \<and> map_createdAt r < now - ims_ttlMs s \<and> map_serverId r = v
       then None else map_get (ims_byServerId s) v)"
proof -
  have mem: "(c, r) \<in> set (ims_byClientId s) \<longleftrightarrow> map_get (ims_byClientId s) c = Some r" for c r
    using map_wf_get [OF ims_invD(1) [OF assms]] by metis
  show "map_get (ims_byClientId (ims_sweep now s)) c =
      (case map_get (ims_byClientId s) c of
         Some r \<Rightarrow> if map_createdAt r < now - ims_ttlMs s then None else Some r
       | None \<Rightarrow> None)"
    by (cases "map_get (ims_byClientId s) c") (simp_all add: ims_sweep_def Let_def evict_fold_client mem)
  have ex: "(\<exists>r \<in> snd ` set (ims_byClientId s). P r) \<longleftrightarrow> (\<exists>c r. map_get (ims_byClientId s) c = Some r \<and> P r)" for P
    by (force simp: mem [symmetric])
  show "map_get (ims_byServerId (ims_sweep now s)) v =
      (if \<exists>c r. map_get (ims_byClientId s) c = Some r \<and> map_createdAt r < now - ims_ttlMs s \<and> map_serverId r = v
       then None else map_get (ims_byServerId s) v)"
  proof -
    have "ims_byServerId (ims_sweep now s) =
        ims_byServerId (fold (evict_mapping (now - ims_ttlMs s)) (ims_byClientId s) s)"
      by (simp add: ims_sweep_def Let_def)
    then show ?thesis unfolding evict_fold_server ex by (simp only: evict_fold_server ex)
  qed
qed

section \<open>The contract of a two-way index\<close>

locale id_index =
  fixes forward :: "'s \<Rightarrow> string \<Rightarrow> commandIdMappingRecord option"
    and backward :: "'s \<Rightarrow> string \<Rightarrow> commandIdMappingRecord option"
    and upsert :: "commandIdMappingRecord \<Rightarrow> 's \<Rightarrow> 's"
    and inv :: "'s \<Rightarrow> bool"
  assumes inv_write: "inv s \<Longrightarrow> inv (upsert r s)"
    and forward_write: "inv s \<Longrightarrow> forward (upsert r s) c = (if c = map_clientId r then Some r else forward s c)"
    and backward_own: "inv s \<Longrightarrow> backward (upsert r s) (map_serverId r) = Some r"
    and backward_forward: "inv s \<Longrightarrow> backward s v = Some r \<Longrightarrow> map_serverId r = v \<and> forward s (map_clientId r) = Some r"
begin

lemma inv_writes: "inv s \<Longrightarrow> inv (fold upsert rs s)"
  by (rule fold_invariant) (auto intro: inv_write)

lemma forward_writes:
  "inv s \<Longrightarrow> forward (fold upsert rs s) c =
    (case find (\<lambda>r. map_clientId r = c) (rev rs) of Some r \<Rightarrow> Some r | None \<Rightarrow> forward s c)"
proof (induction rs rule: rev_induct)
  case (snoc r rs)
  then show ?case by (auto simp: forward_write inv_writes)
qed simp

text \<open>Going from a server id to the client and back ends where it started.\<close>

lemma round_trip: "inv s \<Longrightarrow> backward s v = Some r \<Longrightarrow> map_option map_serverId (forward s (map_clientId r)) = Some v"
  using backward_forward by fastforce

end

definition byClient :: "'c idMappingStore \<Rightarrow> string \<Rightarrow> commandIdMappingRecord option" where
  "byClient s c = map_get (ims_byClientId s) c"

definition byServer :: "'c idMappingStore \<Rightarrow> string \<Rightarrow> commandIdMappingRecord option" where
  "byServer s v = map_get (ims_byServerId s) v"

interpretation mappings: id_index byClient byServer writeInPlace ims_inv
proof unfold_locales
  fix s :: "'c idMappingStore" and r c v
  assume inv: "ims_inv s"
  show "ims_inv (writeInPlace r s)" by (rule writeInPlace_inv [OF inv])
  show "byClient (writeInPlace r s) c = (if c = map_clientId r then Some r else byClient s c)"
    by (simp add: byClient_def writeInPlace_get [OF inv])
  show "byServer (writeInPlace r s) (map_serverId r) = Some r"
    by (simp add: byServer_def writeInPlace_get [OF inv])
  show "byServer s v = Some r \<Longrightarrow> map_serverId r = v \<and> byClient s (map_clientId r) = Some r"
    using ims_invD(4,5) [OF inv] by (auto simp: byServer_def byClient_def)
qed

section \<open>Properties\<close>

definition mapping :: "string \<Rightarrow> string \<Rightarrow> int \<Rightarrow> commandIdMappingRecord" where
  "mapping c v t = \<lparr>map_clientId = c, map_serverId = v, map_createdAt = t\<rparr>"

definition ready_mappings :: "unit idMappingStore" where
  "ready_mappings = (new_idMappingStore 300 new_storage)\<lparr>ims_initialized := True\<rparr>"

lemma ready_mappings_inv: "ims_inv ready_mappings"
  by (simp add: ims_inv_def ready_mappings_def new_idMappingStore_def)

lemma ims_inv_scheduleFlush [simp]: "ims_inv (ims_scheduleFlush s) = ims_inv s"
  by (simp add: ims_scheduleFlush_def ims_inv_def)

text \<open>
  Saving id mappings. On an initialized, consistent store \<open>saveMany\<close> succeeds; a client id
  then finds the last record saved for it, or the one it had; a server id that finds a record finds
  one that carries it and that its client id finds too, so no stale reverse pointer survives a
  remapping; and the store stays consistent. Before initialization every access is an error.
\<close>
theorem save_mappings_spec:
  assumes "ims_inv s" and "ims_initialized s"
  shows "\<exists>s'. ims_saveMany rs s = Inr s' \<and> ims_inv s'
    \<and> ims_get s' c = Inr (case find (\<lambda>r. map_clientId r = c) (rev rs) of
         Some r \<Rightarrow> Some r | None \<Rightarrow> map_get (ims_byClientId s) c)
    \<and> (ims_getByServerId s' v = Inr (Some r) \<longrightarrow>
         map_serverId r = v \<and> ims_get s' (map_clientId r) = Inr (Some r))
    \<and> ims_get (s\<lparr>ims_initialized := False\<rparr>) c = Inl not_initialized"
proof -
  define s' where "s' = (if rs = [] then s else ims_scheduleFlush (fold writeInPlace rs s))"
  have save: "ims_saveMany rs s = Inr s'" using assms(2) by (simp add: ims_saveMany_def s'_def)
  have same: "ims_byClientId s' = ims_byClientId (fold writeInPlace rs s)"
    "ims_byServerId s' = ims_byServerId (fold writeInPlace rs s)"
    "ims_initialized s' = ims_initialized (fold writeInPlace rs s)"
    by (simp_all add: s'_def ims_scheduleFlush_def)
  have init: "ims_initialized (fold writeInPlace rs s)"
    by (rule fold_invariant [where P = ims_initialized]) (simp_all add: assms writeInPlace_def Let_def)
  have inv: "ims_inv s'" using mappings.inv_writes [OF assms(1), of rs] assms(1) by (simp add: s'_def)
  have fwd: "ims_get s' c = Inr (case find (\<lambda>r. map_clientId r = c) (rev rs) of
      Some r \<Rightarrow> Some r | None \<Rightarrow> map_get (ims_byClientId s) c)"
    using mappings.forward_writes [OF assms(1), of rs c] init by (simp add: ims_get_def same byClient_def [abs_def] split: option.split)
  have "ims_getByServerId s' v = Inr (Some r) \<longrightarrow>
      map_serverId r = v \<and> ims_get s' (map_clientId r) = Inr (Some r)"
    using mappings.backward_forward [OF inv, of v r] init
    by (simp add: ims_get_def ims_getByServerId_def same byServer_def byClient_def)
  with save inv fwd show ?thesis by (simp add: ims_get_def)
qed

theorem save_mappings_spec_witness:
  "\<exists>s'. ims_saveMany [mapping ''t1'' ''s1'' 1, mapping ''t1'' ''s2'' 2] ready_mappings = Inr s'
    \<and> ims_get s' ''t1'' = Inr (Some (mapping ''t1'' ''s2'' 2))"
proof -
  have i: "ims_initialized ready_mappings" by (simp add: ready_mappings_def)
  show ?thesis
    using save_mappings_spec [OF ready_mappings_inv i, of "[mapping ''t1'' ''s1'' 1, mapping ''t1'' ''s2'' 2]" "''t1''"]
    by (auto simp: mapping_def)
qed

text \<open>
  Expiry of id mappings. On a consistent store in which no two clients map to one server id,
  a sweep removes exactly the mappings older than the time to live, from both indexes: a mapping
  is found under its client id afterwards if and only if it was there and is young enough, and it is
  then still found under its server id.
\<close>
theorem sweep_mappings_spec:
  assumes "ims_inv s" and "ims_injective s"
  shows "byClient (ims_sweep now s) c =
      (case byClient s c of Some r \<Rightarrow> if map_createdAt r < now - ims_ttlMs s then None else Some r | None \<Rightarrow> None)
    \<and> byServer (ims_sweep now s) v =
      (case byServer s v of Some r \<Rightarrow> if map_createdAt r < now - ims_ttlMs s then None else Some r | None \<Rightarrow> None)"
proof
  note G = sweep_get [OF assms(1)]
  show "byClient (ims_sweep now s) c =
      (case byClient s c of Some r \<Rightarrow> if map_createdAt r < now - ims_ttlMs s then None else Some r | None \<Rightarrow> None)"
    by (simp add: byClient_def G)
  have own: "map_get (ims_byClientId s) d = Some q \<Longrightarrow> map_get (ims_byServerId s) (map_serverId q) = Some q" for d q
    using assms(2) by (simp add: ims_injective_def)
  show "byServer (ims_sweep now s) v =
      (case byServer s v of Some r \<Rightarrow> if map_createdAt r < now - ims_ttlMs s then None else Some r | None \<Rightarrow> None)"
  proof (cases "map_get (ims_byServerId s) v")
    case None
    then show ?thesis by (simp add: byServer_def G)
  next
    case (Some r)
    have "(\<exists>d q. map_get (ims_byClientId s) d = Some q \<and> map_createdAt q < now - ims_ttlMs s \<and> map_serverId q = v)
        \<longleftrightarrow> map_createdAt r < now - ims_ttlMs s"
      using own Some ims_invD(4,5) [OF assms(1) Some] by (metis option.inject)
    with Some show ?thesis by (simp add: byServer_def G)
  qed
qed

theorem sweep_mappings_spec_witness:
  "byClient (ims_sweep 1000 (writeInPlace (mapping ''t1'' ''s1'' 1) ready_mappings)) ''t1'' = None
   \<and> byServer (ims_sweep 200 (writeInPlace (mapping ''t1'' ''s1'' 1) ready_mappings)) ''s1'' = Some (mapping ''t1'' ''s1'' 1)"
proof -
  let ?s = "writeInPlace (mapping ''t1'' ''s1'' 1) ready_mappings"
  have inv: "ims_inv ?s" by (rule writeInPlace_inv [OF ready_mappings_inv])
  have inj: "ims_injective ?s"
    by (rule writeInPlace_injective [OF ready_mappings_inv])
      (simp_all add: ims_injective_def ready_mappings_def new_idMappingStore_def)
  have ttl: "ims_ttlMs ?s = 300" by (simp add: writeInPlace_def Let_def ready_mappings_def new_idMappingStore_def)
  have get: "byClient ?s ''t1'' = Some (mapping ''t1'' ''s1'' 1)" "byServer ?s ''s1'' = Some (mapping ''t1'' ''s1'' 1)"
    using mappings.forward_write [OF ready_mappings_inv, of "mapping ''t1'' ''s1'' 1"]
      mappings.backward_own [OF ready_mappings_inv, of "mapping ''t1'' ''s1'' 1"] by (simp_all add: mapping_def)
  show ?thesis
    using sweep_mappings_spec [OF inv inj, of 1000 "''t1''" "''s1''"]
      sweep_mappings_spec [OF inv inj, of 200 "''t1''" "''s1''"] get
    by (simp add: ttl) (simp add: mapping_def)
qed

end
