(* ===== verification/EventCache.thy ===== *)
theory EventCache
  imports Storage GapDetector
begin

text \<open>
  The event cache, \<^verbatim>\<open>packages/client/src/core/event-cache/EventCache.ts\<close>: server events and
  anticipated events in storage under the cache keys that need them, the gap buffer of the permanent
  ones, and the index from a cache key to the streams cached under it.  Server events come from the
  event-sourcing library as \<open>IPersistedEvent\<close>; \<open>serverEvent\<close> has the fields the client reads.
  \<open>JSON.stringify\<close>, the reading of a date and the generated ids are arguments.
\<close>

section \<open>Events and their records\<close>

record serverEvent =
  se_id :: string
  se_type :: string
  se_streamId :: string
  se_persistence :: "eventPersistence option"
  se_data :: jsval
  se_metadata :: jsval
  se_position :: int
  se_revision :: int
  se_created :: string

record anticipatedEvent =
  an_type :: string
  an_streamId :: string
  an_data :: jsval
  an_metadata :: "jsval option"

record eventCodec =
  stringify :: "jsval \<Rightarrow> string"
  epoch :: "string \<Rightarrow> int"

definition normalizeEventPersistence :: "serverEvent \<Rightarrow> eventPersistence" where
  "normalizeEventPersistence e = (case se_persistence e of Some p \<Rightarrow> p | None \<Rightarrow> PermanentEvent)"

definition extractCommandId :: "serverEvent \<Rightarrow> string option" where
  "extractCommandId e = (case js_member (se_metadata e) ''commandId'' of JStr i \<Rightarrow> Some i | _ \<Rightarrow> None)"

definition server_record :: "eventCodec \<Rightarrow> serverEvent \<Rightarrow> string list \<Rightarrow> cachedEventRecord" where
  "server_record cd e keys =
    \<lparr>ev_id = se_id e, ev_type = se_type e, ev_streamId = se_streamId e,
     ev_persistence = normalizeEventPersistence e, ev_data = stringify cd (se_data e),
     ev_metadata = Some (stringify cd (se_metadata e)), ev_position = Some (se_position e),
     ev_revision = Some (se_revision e), ev_commandId = extractCommandId e, ev_cacheKeys = keys,
     ev_createdAt = epoch cd (se_created e), ev_processedAt = None\<rparr>"

definition anticipated_record ::
  "eventCodec \<Rightarrow> int \<Rightarrow> string \<Rightarrow> anticipatedEvent \<Rightarrow> string \<Rightarrow> string list \<Rightarrow> cachedEventRecord" where
  "anticipated_record cd now i e cid keys =
    \<lparr>ev_id = i, ev_type = an_type e, ev_streamId = an_streamId e, ev_persistence = AnticipatedEvent,
     ev_data = stringify cd (an_data e), ev_metadata = map_option (stringify cd) (an_metadata e),
     ev_position = None, ev_revision = None, ev_commandId = Some cid, ev_cacheKeys = keys,
     ev_createdAt = now, ev_processedAt = None\<rparr>"

section \<open>State\<close>

record 'c eventCache =
  ec_storage :: "'c inMemoryStorage"
  ec_gapBuffer :: "serverEvent gapBuffer"
  ec_cacheKeyStreams :: "(string, string list) jsmap"
  ec_cleanupTimer :: "int option"

definition new_eventCache :: "'c inMemoryStorage \<Rightarrow> 'c eventCache" where
  "new_eventCache st = \<lparr>ec_storage = st, ec_gapBuffer = new_gapBuffer, ec_cacheKeyStreams = [],
    ec_cleanupTimer = None\<rparr>"

definition streams_of :: "'c eventCache \<Rightarrow> string \<Rightarrow> string list" where
  "streams_of ec k = (case map_get (ec_cacheKeyStreams ec) k of Some ss \<Rightarrow> ss | None \<Rightarrow> [])"

definition trackCacheKeyStream :: "string \<Rightarrow> string \<Rightarrow> 'c eventCache \<Rightarrow> 'c eventCache" where
  "trackCacheKeyStream cacheKey streamId ec =
    ec\<lparr>ec_cacheKeyStreams := map_set cacheKey (set_add streamId (streams_of ec cacheKey)) (ec_cacheKeyStreams ec)\<rparr>"

section \<open>Caching events\<close>

text \<open>What is kept in memory about an event that was just stored.\<close>

definition track_event :: "serverEvent \<Rightarrow> string list \<Rightarrow> 'c eventCache \<Rightarrow> 'c eventCache" where
  "track_event e keys ec =
    (let ec1 = fold (\<lambda>k. trackCacheKeyStream k (se_streamId e)) keys ec
     in if normalizeEventPersistence e = PermanentEvent
        then ec1\<lparr>ec_gapBuffer := snd (gap_add (se_streamId e) (se_revision e) e (ec_gapBuffer ec1))\<rparr>
        else ec1)"

definition cacheServerEvent ::
  "eventCodec \<Rightarrow> serverEvent \<Rightarrow> string list \<Rightarrow> 'c eventCache \<Rightarrow> bool \<times> 'c eventCache" where
  "cacheServerEvent cd e keys ec =
    (if getCachedEvent (ec_storage ec) (se_id e) \<noteq> None then (False, ec)
     else (True, track_event e keys
             (ec\<lparr>ec_storage := saveCachedEvent (server_record cd e keys) (ec_storage ec)\<rparr>)))"

definition cacheServerEventsWithKeys ::
  "eventCodec \<Rightarrow> (serverEvent \<times> string list) list \<Rightarrow> 'c eventCache \<Rightarrow> nat \<times> 'c eventCache" where
  "cacheServerEventsWithKeys cd entries ec =
    (length entries,
     fold (\<lambda>(e, keys). track_event e keys) entries
       (ec\<lparr>ec_storage := saveCachedEvents (map (\<lambda>(e, keys). server_record cd e keys) entries) (ec_storage ec)\<rparr>))"

definition cacheAnticipatedEvent ::
  "eventCodec \<Rightarrow> int \<Rightarrow> string \<Rightarrow> anticipatedEvent \<Rightarrow> string \<Rightarrow> string list \<Rightarrow> 'c eventCache \<Rightarrow> string \<times> 'c eventCache" where
  "cacheAnticipatedEvent cd now newId e cid keys ec =
    (newId, ec\<lparr>ec_storage := saveCachedEvent (anticipated_record cd now newId e cid keys) (ec_storage ec)\<rparr>)"

text \<open>\<open>newId n\<close> is the id of the \<open>n\<close>-th event of the batch.\<close>

definition cacheAnticipatedEvents ::
  "eventCodec \<Rightarrow> int \<Rightarrow> (nat \<Rightarrow> string) \<Rightarrow> anticipatedEvent list \<Rightarrow> string \<Rightarrow> string list \<Rightarrow> 'c eventCache \<Rightarrow>
   string list \<times> 'c eventCache" where
  "cacheAnticipatedEvents cd now newId es cid keys ec =
    (let ids = map newId [0..<length es];
         records = map2 (\<lambda>i e. anticipated_record cd now i e cid keys) ids es
     in (ids, if records \<noteq> [] then ec\<lparr>ec_storage := saveCachedEvents records (ec_storage ec)\<rparr> else ec))"

definition ec_addCacheKeysToEvents :: "(serverEvent \<times> string list) list \<Rightarrow> 'c eventCache \<Rightarrow> 'c eventCache" where
  "ec_addCacheKeysToEvents entries ec =
    fold (\<lambda>(e, keys). fold (\<lambda>k. trackCacheKeyStream k (se_streamId e)) keys) entries
      (ec\<lparr>ec_storage := addCacheKeysToEvents (map (\<lambda>(e, keys). (se_id e, keys)) entries) (ec_storage ec)\<rparr>)"

section \<open>Reading and removing events\<close>

definition getEvent :: "'c eventCache \<Rightarrow> string \<Rightarrow> cachedEventRecord option" where
  "getEvent ec i = getCachedEvent (ec_storage ec) i"

definition getExistingEventIds :: "'c eventCache \<Rightarrow> string list \<Rightarrow> string list" where
  "getExistingEventIds ec ids = getExistingCachedEventIds (ec_storage ec) ids"

definition getEventsByCacheKey :: "'c eventCache \<Rightarrow> string \<Rightarrow> cachedEventRecord list" where
  "getEventsByCacheKey ec k = getCachedEventsByCacheKey (ec_storage ec) k"

definition getEventsByStream :: "'c eventCache \<Rightarrow> string \<Rightarrow> cachedEventRecord list" where
  "getEventsByStream ec s = getCachedEventsByStream (ec_storage ec) s"

definition ec_getAnticipatedEventsByCommand :: "'c eventCache \<Rightarrow> string \<Rightarrow> cachedEventRecord list" where
  "ec_getAnticipatedEventsByCommand ec cid = getAnticipatedEventsByCommand (ec_storage ec) cid"

definition ec_getAllAnticipatedEvents :: "'c eventCache \<Rightarrow> cachedEventRecord list" where
  "ec_getAllAnticipatedEvents ec = getAllAnticipatedEvents (ec_storage ec)"

definition deleteAnticipatedEvents :: "string \<Rightarrow> 'c eventCache \<Rightarrow> 'c eventCache" where
  "deleteAnticipatedEvents cid ec = ec\<lparr>ec_storage := deleteAnticipatedEventsByCommand cid (ec_storage ec)\<rparr>"

definition deleteAnticipatedEventsForCommands :: "string list \<Rightarrow> 'c eventCache \<Rightarrow> 'c eventCache" where
  "deleteAnticipatedEventsForCommands cids ec =
    ec\<lparr>ec_storage := deleteAnticipatedEventsByCommands cids (ec_storage ec)\<rparr>"

definition markProcessed :: "int \<Rightarrow> string list \<Rightarrow> 'c eventCache \<Rightarrow> 'c eventCache" where
  "markProcessed now ids ec =
    (if ids = [] then ec else ec\<lparr>ec_storage := markCachedEventsProcessed now ids (ec_storage ec)\<rparr>)"

text \<open>\<open>startCleanup\<close> keeps the grace window; \<open>cleanup_tick\<close> is its timer going off.\<close>

definition startCleanup :: "int \<Rightarrow> 'c eventCache \<Rightarrow> 'c eventCache" where
  "startCleanup ttlMs ec = (if ec_cleanupTimer ec \<noteq> None then ec else ec\<lparr>ec_cleanupTimer := Some ttlMs\<rparr>)"

definition cleanup_tick :: "int \<Rightarrow> 'c eventCache \<Rightarrow> 'c eventCache" where
  "cleanup_tick now ec =
    (case ec_cleanupTimer ec of
       None \<Rightarrow> ec
     | Some ttlMs \<Rightarrow> ec\<lparr>ec_storage := snd (deleteProcessedCachedEvents (now - ttlMs) (ec_storage ec))\<rparr>)"

section \<open>Gaps\<close>

definition getStreamGaps :: "'c eventCache \<Rightarrow> string \<Rightarrow> eventGap list" where
  "getStreamGaps ec s = (case map_get (getGaps (ec_gapBuffer ec)) s of Some gs \<Rightarrow> gs | None \<Rightarrow> [])"

definition getBufferedEvents :: "'c eventCache \<Rightarrow> string \<Rightarrow> (int \<times> serverEvent) list" where
  "getBufferedEvents ec s = getEvents (ec_gapBuffer ec) s"

definition ec_hasGaps :: "'c eventCache \<Rightarrow> bool" where
  "ec_hasGaps ec \<longleftrightarrow> list_ex (\<lambda>gs. gs \<noteq> []) (map_values (getGaps (ec_gapBuffer ec)))"

definition ec_setKnownPosition :: "string \<Rightarrow> int \<Rightarrow> 'c eventCache \<Rightarrow> 'c eventCache" where
  "ec_setKnownPosition s p ec = ec\<lparr>ec_gapBuffer := setKnownPosition s p (ec_gapBuffer ec)\<rparr>"

definition clearGapBuffer :: "string option \<Rightarrow> int option \<Rightarrow> 'c eventCache \<Rightarrow> 'c eventCache" where
  "clearGapBuffer streamId upToPosition ec =
    (case streamId of
       Some s \<Rightarrow> (case upToPosition of
           Some p \<Rightarrow> ec\<lparr>ec_gapBuffer := clearUpTo s p (ec_gapBuffer ec)\<rparr>
         | None \<Rightarrow> ec\<lparr>ec_gapBuffer := clearStream s (ec_gapBuffer ec)\<rparr>)
     | None \<Rightarrow> ec\<lparr>ec_gapBuffer := gap_clear (ec_gapBuffer ec), ec_cacheKeyStreams := []\<rparr>)"

definition clearByCacheKey :: "string \<Rightarrow> 'c eventCache \<Rightarrow> string list \<times> 'c eventCache" where
  "clearByCacheKey cacheKey ec =
    (let ec1 = ec\<lparr>ec_storage := snd (removeCacheKeyFromEvents cacheKey (ec_storage ec))\<rparr>
     in case map_get (ec_cacheKeyStreams ec1) cacheKey of
          None \<Rightarrow> ([], ec1)
        | Some cleared \<Rightarrow>
            (cleared, ec1\<lparr>ec_gapBuffer := fold clearStream cleared (ec_gapBuffer ec1),
               ec_cacheKeyStreams := map_delete cacheKey (ec_cacheKeyStreams ec1)\<rparr>))"

definition ec_destroy :: "'c eventCache \<Rightarrow> 'c eventCache" where
  "ec_destroy ec = ec\<lparr>ec_cleanupTimer := None, ec_gapBuffer := gap_clear (ec_gapBuffer ec),
    ec_cacheKeyStreams := []\<rparr>"

section \<open>The invariant and what the operations change\<close>

definition ec_inv :: "'c eventCache \<Rightarrow> bool" where
  "ec_inv ec \<longleftrightarrow> storage_inv (ec_storage ec) \<and> gapBuffer_inv (ec_gapBuffer ec)"

lemma ec_inv_new: "storage_inv st \<Longrightarrow> ec_inv (new_eventCache st)"
  by (simp add: ec_inv_def new_eventCache_def)

lemma track_streams_fields [simp]:
  "ec_storage (fold (\<lambda>k. trackCacheKeyStream k s) keys ec) = ec_storage ec"
  "ec_gapBuffer (fold (\<lambda>k. trackCacheKeyStream k s) keys ec) = ec_gapBuffer ec"
  by (induction keys arbitrary: ec) (simp_all add: trackCacheKeyStream_def)

lemma track_event_storage [simp]: "ec_storage (track_event e keys ec) = ec_storage ec"
  by (simp add: track_event_def Let_def)

lemma track_events_storage [simp]: "ec_storage (fold (\<lambda>(e, keys). track_event e keys) entries ec) = ec_storage ec"
  by (induction entries arbitrary: ec) (auto simp: case_prod_beta)

definition gap_entry :: "serverEvent \<Rightarrow> string \<times> int \<times> serverEvent" where
  "gap_entry e = (se_streamId e, se_revision e, e)"

definition permanents :: "serverEvent list \<Rightarrow> serverEvent list" where
  "permanents es = filter (\<lambda>e. normalizeEventPersistence e = PermanentEvent) es"

lemma permanents_simps [simp]:
  "permanents [] = []"
  "permanents (e # es) = (if normalizeEventPersistence e = PermanentEvent then e # permanents es else permanents es)"
  "permanents (es @ es') = permanents es @ permanents es'"
  by (simp_all add: permanents_def)

lemma track_event_gapBuffer:
  "ec_gapBuffer (track_event e keys ec) =
    gap_buf.add_all (map gap_entry (permanents [e])) (ec_gapBuffer ec)"
  by (simp add: track_event_def Let_def gap_entry_def)

lemma track_events_gapBuffer:
  "ec_gapBuffer (fold (\<lambda>(e, keys). track_event e keys) entries ec) =
    gap_buf.add_all (map gap_entry (permanents (map fst entries))) (ec_gapBuffer ec)"
proof (induction entries arbitrary: ec)
  case (Cons x xs)
  obtain e keys where x: "x = (e, keys)" by (cases x)
  show ?case by (simp add: x Cons.IH track_event_gapBuffer gap_entry_def)
qed simp

lemma add_all_buffered:
  assumes "gapBuffer_inv gb"
  shows "gapBuffer_inv (gap_buf.add_all (map gap_entry es) gb)"
    and "buffered (gap_buf.add_all (map gap_entry es) gb) s =
      buffered gb s @ map (\<lambda>e. (se_revision e, e)) (filter (\<lambda>e. se_streamId e = s) es)"
proof -
  have "map snd (filter (\<lambda>x. fst x = s) (map gap_entry es)) =
      map (\<lambda>e. (se_revision e, e)) (filter (\<lambda>e. se_streamId e = s) es)"
    by (induction es) (auto simp: gap_entry_def)
  then show "gapBuffer_inv (gap_buf.add_all (map gap_entry es) gb)"
    and "buffered (gap_buf.add_all (map gap_entry es) gb) s =
      buffered gb s @ map (\<lambda>e. (se_revision e, e)) (filter (\<lambda>e. se_streamId e = s) es)"
    using gap_buf.contents_add_all [OF assms, of "map gap_entry es" s] by auto
qed

text \<open>The storage side of caching a batch: the last record of an id stays.\<close>

lemma saveCachedEvents_get:
  "getCachedEvent (saveCachedEvents rs st) i =
    (case find (\<lambda>r. ev_id r = i) (rev rs) of Some r \<Rightarrow> Some r | None \<Rightarrow> getCachedEvent st i)"
proof (induction rs rule: rev_induct)
  case Nil
  show ?case by (simp add: saveCachedEvents_def)
next
  case (snoc r rs)
  have "saveCachedEvents (rs @ [r]) st = saveCachedEvent r (saveCachedEvents rs st)"
    by (simp add: saveCachedEvents_def)
  then show ?case using snoc by (auto simp: event_records.get_put)
qed

lemma inv_saveCachedEvents: "storage_inv st \<Longrightarrow> storage_inv (saveCachedEvents rs st)"
  unfolding saveCachedEvents_def by (intro inv_fold inv_saveCachedEvent)

lemma cache_batch_fields:
  "ec_storage (snd (cacheServerEventsWithKeys cd entries ec)) =
    saveCachedEvents (map (\<lambda>(e, keys). server_record cd e keys) entries) (ec_storage ec)"
  "ec_gapBuffer (snd (cacheServerEventsWithKeys cd entries ec)) =
    gap_buf.add_all (map gap_entry (permanents (map fst entries))) (ec_gapBuffer ec)"
  by (simp_all add: cacheServerEventsWithKeys_def track_events_gapBuffer)

lemma cache_batch_inv: "ec_inv ec \<Longrightarrow> ec_inv (snd (cacheServerEventsWithKeys cd entries ec))"
  by (simp add: ec_inv_def cache_batch_fields inv_saveCachedEvents add_all_buffered)

lemma cache_batch_buffered:
  assumes "ec_inv ec"
  shows "buffered (ec_gapBuffer (snd (cacheServerEventsWithKeys cd entries ec))) s =
    buffered (ec_gapBuffer ec) s @
      map (\<lambda>e. (se_revision e, e)) (filter (\<lambda>e. se_streamId e = s) (permanents (map fst entries)))"
  using assms by (simp add: ec_inv_def cache_batch_fields add_all_buffered)

lemma track_streams_streams:
  "set (streams_of (fold (\<lambda>k. trackCacheKeyStream k s) keys ec) k) =
    set (streams_of ec k) \<union> (if k \<in> set keys then {s} else {})"
  by (induction keys arbitrary: ec) (auto simp: trackCacheKeyStream_def streams_of_def)

lemma track_event_streams:
  "set (streams_of (track_event e keys ec) k) =
    set (streams_of ec k) \<union> (if k \<in> set keys then {se_streamId e} else {})"
proof -
  have "streams_of (track_event e keys ec) k =
      streams_of (fold (\<lambda>k. trackCacheKeyStream k (se_streamId e)) keys ec) k"
    by (simp add: track_event_def Let_def streams_of_def)
  then show ?thesis by (simp add: track_streams_streams)
qed

lemma track_events_streams:
  "set (streams_of (fold (\<lambda>(e, keys). track_event e keys) entries ec) k) =
    set (streams_of ec k) \<union> {se_streamId e |e keys. (e, keys) \<in> set entries \<and> k \<in> set keys}"
proof (induction entries arbitrary: ec)
  case (Cons x xs)
  obtain e keys where x: "x = (e, keys)" by (cases x)
  show ?case by (auto simp: x Cons.IH track_event_streams)
qed simp

section \<open>Properties\<close>

text \<open>
  Caching a batch of new server events. When the ids of the batch are distinct and unknown to a
  well-formed cache, every event of the batch is stored under its cache keys, unprocessed, and every
  event stored before is unchanged; the gap buffer of a stream gains the permanent events of the
  stream at its end, in the order of the batch and at their revisions; a stream is indexed under a
  cache key if it was before or some event of the batch brings it there; and the number of entries
  is returned.
\<close>
theorem cache_server_events_spec:
  fixes cd ec entries
  defines "ec' \<equiv> snd (cacheServerEventsWithKeys cd entries ec)"
  assumes inv: "ec_inv ec" and dist: "distinct (map (se_id \<circ> fst) entries)"
    and fresh: "\<forall>(e, keys) \<in> set entries. getEvent ec (se_id e) = None"
  shows "ec_inv ec'
    \<and> (\<forall>(e, keys) \<in> set entries. getEvent ec' (se_id e) = Some (server_record cd e keys))
    \<and> (getEvent ec i \<noteq> None \<longrightarrow> getEvent ec' i = getEvent ec i)
    \<and> buffered (ec_gapBuffer ec') s = buffered (ec_gapBuffer ec) s @
        map (\<lambda>e. (se_revision e, e)) (filter (\<lambda>e. se_streamId e = s) (permanents (map fst entries)))
    \<and> set (streams_of ec' k) = set (streams_of ec k) \<union>
        {se_streamId e |e keys. (e, keys) \<in> set entries \<and> k \<in> set keys}
    \<and> fst (cacheServerEventsWithKeys cd entries ec) = length entries"
proof (intro conjI)
  let ?rs = "map (\<lambda>(e, keys). server_record cd e keys) entries"
  have id: "ev_id (server_record cd e keys) = se_id e" for e keys by (simp add: server_record_def)
  have dist': "distinct (map ev_id ?rs)" using dist by (simp add: comp_def case_prod_beta id)
  have store: "getEvent ec' i = getCachedEvent (saveCachedEvents ?rs (ec_storage ec)) i" for i
    by (simp add: ec'_def getEvent_def cache_batch_fields)
  show "\<forall>(e, keys) \<in> set entries. getEvent ec' (se_id e) = Some (server_record cd e keys)"
    unfolding store saveCachedEvents_def
    using event_records.get_put_member [OF dist', of _ "ec_storage ec"] by (force simp: id)
  show "getEvent ec i \<noteq> None \<longrightarrow> getEvent ec' i = getEvent ec i"
  proof
    assume "getEvent ec i \<noteq> None"
    then have "i \<notin> ev_id ` set ?rs" using fresh by (auto simp: id)
    then have "getEvent ec' i = getCachedEvent (ec_storage ec) i"
      unfolding store saveCachedEvents_def by (rule event_records.get_put_other)
    then show "getEvent ec' i = getEvent ec i" by (simp only: getEvent_def [of ec])
  qed
  show "buffered (ec_gapBuffer ec') s = buffered (ec_gapBuffer ec) s @
      map (\<lambda>e. (se_revision e, e)) (filter (\<lambda>e. se_streamId e = s) (permanents (map fst entries)))"
    unfolding ec'_def by (rule cache_batch_buffered [OF inv])
  show "ec_inv ec'" unfolding ec'_def by (rule cache_batch_inv [OF inv])
  show "set (streams_of ec' k) = set (streams_of ec k) \<union>
      {se_streamId e |e keys. (e, keys) \<in> set entries \<and> k \<in> set keys}"
  proof -
    have "streams_of (ec\<lparr>ec_storage := st\<rparr>) k = streams_of ec k" for st by (simp add: streams_of_def)
    then show ?thesis by (simp add: ec'_def cacheServerEventsWithKeys_def track_events_streams)
  qed
qed (simp add: cacheServerEventsWithKeys_def)

definition plain_codec :: eventCodec where
  "plain_codec = \<lparr>stringify = (\<lambda>v. case v of JStr s \<Rightarrow> s | _ \<Rightarrow> []), epoch = (\<lambda>s. int (length s))\<rparr>"

definition sample_server_event :: "string \<Rightarrow> string \<Rightarrow> int \<Rightarrow> serverEvent" where
  "sample_server_event i s n = \<lparr>se_id = i, se_type = ''NoteRenamed'', se_streamId = s, se_persistence = None,
    se_data = JObj [(''id'', JStr ''n1'')], se_metadata = JObj [(''commandId'', JStr ''c1'')],
    se_position = n, se_revision = n, se_created = []\<rparr>"

lemma sample_server_event_fields [simp]:
  "se_id (sample_server_event i s n) = i" "se_streamId (sample_server_event i s n) = s"
  "se_revision (sample_server_event i s n) = n" "se_position (sample_server_event i s n) = n"
  "normalizeEventPersistence (sample_server_event i s n) = PermanentEvent"
  by (simp_all add: sample_server_event_def normalizeEventPersistence_def)

lemma getEvent_new [simp]: "getEvent (new_eventCache new_storage) i = None"
  by (simp add: getEvent_def new_eventCache_def getCachedEvent_def new_storage_def)

lemma buffered_new [simp]: "buffered (ec_gapBuffer (new_eventCache st)) s = []"
  by (simp add: buffered_def new_eventCache_def new_gapBuffer_def)

lemma ec_inv_empty [simp]: "ec_inv (new_eventCache new_storage)"
  by (simp add: ec_inv_new storage_inv_new)

definition empty_cache :: "nat eventCache" where
  "empty_cache = new_eventCache new_storage"

lemma empty_cache [simp]: "ec_inv empty_cache" "getEvent empty_cache i = None"
  "buffered (ec_gapBuffer empty_cache) s = []"
  by (simp_all add: empty_cache_def)

theorem cache_server_events_spec_witness:
  "buffered (ec_gapBuffer (snd (cacheServerEventsWithKeys plain_codec
      [(sample_server_event ''e1'' ''s'' 0, [''k'']), (sample_server_event ''e2'' ''t'' 0, [])]
      empty_cache))) ''s'' = [(0, sample_server_event ''e1'' ''s'' 0)]"
  using cache_server_events_spec [of empty_cache
      "[(sample_server_event ''e1'' ''s'' 0, [''k'']), (sample_server_event ''e2'' ''t'' 0, [])]"
      plain_codec "''e1''" "''s''" "''k''"]
  by simp

lemma clear_streams_known:
  "map_get (knownPositions (fold clearStream ss gb)) s = (if s \<in> set ss then None else map_get (knownPositions gb) s)"
  by (induction ss arbitrary: gb) (auto simp: clearStream_def)

lemma clear_by_cache_key_parts:
  assumes "ec_inv ec"
  shows "ec_inv (snd (clearByCacheKey k ec))"
    and "buffered (ec_gapBuffer (snd (clearByCacheKey k ec))) s =
      (if s \<in> set (streams_of ec k) then [] else buffered (ec_gapBuffer ec) s)"
    and "map_get (knownPositions (ec_gapBuffer (snd (clearByCacheKey k ec)))) s =
      (if s \<in> set (streams_of ec k) then None else map_get (knownPositions (ec_gapBuffer ec)) s)"
proof -
  have store: "ec_storage (snd (clearByCacheKey k ec)) = snd (removeCacheKeyFromEvents k (ec_storage ec))"
    and gb: "ec_gapBuffer (snd (clearByCacheKey k ec)) = fold clearStream (streams_of ec k) (ec_gapBuffer ec)"
    by (simp_all add: clearByCacheKey_def streams_of_def Let_def split: option.splits)
  have inv0: "storage_inv (ec_storage ec)" "gapBuffer_inv (ec_gapBuffer ec)" using assms by (simp_all add: ec_inv_def)
  note clear = gap_buf.clear_streams [OF inv0(2), of "streams_of ec k"]
  show "ec_inv (snd (clearByCacheKey k ec))"
    using clear inv_removeEventKey [OF inv0(1)] by (simp add: ec_inv_def store gb)
  show "buffered (ec_gapBuffer (snd (clearByCacheKey k ec))) s =
      (if s \<in> set (streams_of ec k) then [] else buffered (ec_gapBuffer ec) s)"
    using clear by (simp add: gb)
  show "map_get (knownPositions (ec_gapBuffer (snd (clearByCacheKey k ec)))) s =
      (if s \<in> set (streams_of ec k) then None else map_get (knownPositions (ec_gapBuffer ec)) s)"
    by (simp add: gb clear_streams_known)
qed

lemma listed_event:
  assumes kb: "keyed_by ev_id (cachedEvents (ec_storage ec))"
  shows "(\<exists>q \<in> set (getEventsByCacheKey ec k). ev_id q = i) \<longleftrightarrow>
    (\<exists>q. getEvent ec i = Some q \<and> k \<in> set (ev_cacheKeys q))"
proof -
  have mem: "(j, q) \<in> set (cachedEvents (ec_storage ec)) \<longleftrightarrow> getEvent ec j = Some q" for j q
    using keyed_by_wf [OF kb] by (simp add: map_wf_get getEvent_def getCachedEvent_def)
  have id: "ev_id q = j" if "(j, q) \<in> set (cachedEvents (ec_storage ec))" for j q
    using kb that by (auto simp: keyed_by_def)
  have "(\<exists>q \<in> set (getEventsByCacheKey ec k). ev_id q = i) \<longleftrightarrow>
      (\<exists>(j, q) \<in> set (cachedEvents (ec_storage ec)). k \<in> set (ev_cacheKeys q) \<and> ev_id q = i)"
    by (force simp: getEventsByCacheKey_def getCachedEventsByCacheKey_def)
  also have "\<dots> \<longleftrightarrow> (\<exists>q. (i, q) \<in> set (cachedEvents (ec_storage ec)) \<and> k \<in> set (ev_cacheKeys q))"
    using id by blast
  finally show ?thesis by (simp only: mem)
qed

text \<open>
  Caching a known event again forgets it. The batch operation leaves duplicates to the storage,
  which in memory replaces the record: after an event that is stored and processed is cached again
  under other cache keys, as a seed page or a gap repair does, it is no longer listed under the keys
  it had, it counts as unprocessed, and removing the new keys' data deletes it although an old key
  still needs it.
\<close>
theorem recached_event_forgotten:
  fixes cd ec e keys
  defines "ec' \<equiv> snd (cacheServerEventsWithKeys cd [(e, keys)] ec)"
  assumes inv: "ec_inv ec" and known: "getEvent ec (se_id e) = Some r"
    and old: "k \<in> set (ev_cacheKeys r)" "k \<notin> set keys" and new: "keys = [k']"
  shows "(\<exists>q \<in> set (getEventsByCacheKey ec k). ev_id q = se_id e)
    \<and> \<not> (\<exists>q \<in> set (getEventsByCacheKey ec' k). ev_id q = se_id e)
    \<and> map_option ev_processedAt (getEvent ec' (se_id e)) = Some None
    \<and> getEvent (snd (clearByCacheKey k' ec')) (se_id e) = None"
proof (intro conjI)
  have keyed: "keyed_by ev_id (cachedEvents (ec_storage ec))" "keyed_by ev_id (cachedEvents (ec_storage ec'))"
    using inv cache_batch_inv [OF inv] by (simp_all add: ec'_def ec_inv_def storage_inv_def)
  have now: "getEvent ec' (se_id e) = Some (server_record cd e keys)"
    by (simp add: ec'_def getEvent_def cache_batch_fields saveCachedEvents_def event_records.get_put
        server_record_def [of cd e keys])
  have wf: "map_wf (cachedEvents (ec_storage ec'))" by (rule keyed_by_wf [OF keyed(2)])
  show "\<exists>q \<in> set (getEventsByCacheKey ec k). ev_id q = se_id e"
    using known old(1) by (simp add: listed_event [OF keyed(1)])
  show "\<not> (\<exists>q \<in> set (getEventsByCacheKey ec' k). ev_id q = se_id e)"
    using old(2) by (simp add: listed_event [OF keyed(2)] now server_record_def)
  show "map_option ev_processedAt (getEvent ec' (se_id e)) = Some None"
    by (simp add: now server_record_def)
  have "ec_storage (snd (clearByCacheKey k' ec')) = snd (removeCacheKeyFromEvents k' (ec_storage ec'))"
    by (simp add: clearByCacheKey_def Let_def split: option.splits)
  then show "getEvent (snd (clearByCacheKey k' ec')) (se_id e) = None"
    using now keyed(2) by (simp add: getEvent_def getCachedEvent_def removeCacheKeyFromEvents_def
        map_get_rewrite_values strip_event_key_def server_record_def new)
qed

definition two_key_cache :: "nat eventCache" where
  "two_key_cache = snd (cacheServerEventsWithKeys plain_codec
     [(sample_server_event ''e1'' ''s'' 0, [''k1''])] empty_cache)"

theorem recached_event_forgotten_witness:
  "getEvent (snd (clearByCacheKey ''k2'' (snd (cacheServerEventsWithKeys plain_codec
     [(sample_server_event ''e1'' ''s'' 0, [''k2''])] two_key_cache)))) ''e1'' = None"
proof -
  have inv: "ec_inv two_key_cache" unfolding two_key_cache_def by (intro cache_batch_inv empty_cache)
  have "getEvent two_key_cache (se_id (sample_server_event ''e1'' ''s'' 0)) =
      Some (server_record plain_codec (sample_server_event ''e1'' ''s'' 0) [''k1''])"
    by (simp add: two_key_cache_def getEvent_def cache_batch_fields saveCachedEvents_def
        event_records.get_put server_record_def)
  from recached_event_forgotten [OF inv this, of "''k1''" "[''k2'']" "''k2''"] show ?thesis
    by (simp add: server_record_def)
qed

text \<open>
  Dropping a cache key's events. After \<open>clearByCacheKey\<close> on a well-formed cache, an event is
  stored exactly if it was and it is held by another key or was not held by this one, and it lost
  this key only; the streams that are returned are those indexed under the key, they have neither
  buffered events nor a known position any more, and every other stream keeps both; and the key has
  no streams in the index while the other keys keep theirs.
\<close>
theorem clear_by_cache_key_spec:
  fixes k ec
  defines "ec' \<equiv> snd (clearByCacheKey k ec)"
  assumes inv: "ec_inv ec"
  shows "ec_inv ec'
    \<and> getEvent ec' i = (case getEvent ec i of
        None \<Rightarrow> None
      | Some r \<Rightarrow> if k \<notin> set (ev_cacheKeys r) then Some r
                  else if set (ev_cacheKeys r) = {k} then None
                  else Some (r\<lparr>ev_cacheKeys := filter (\<lambda>x. x \<noteq> k) (ev_cacheKeys r)\<rparr>))
    \<and> fst (clearByCacheKey k ec) = streams_of ec k
    \<and> getBufferedEvents ec' s = (if s \<in> set (streams_of ec k) then [] else getBufferedEvents ec s)
    \<and> map_get (knownPositions (ec_gapBuffer ec')) s =
        (if s \<in> set (streams_of ec k) then None else map_get (knownPositions (ec_gapBuffer ec)) s)
    \<and> streams_of ec' k' = (if k' = k then [] else streams_of ec k')"
proof -
  note parts = clear_by_cache_key_parts [OF inv, of k]
  have kb: "keyed_by ev_id (cachedEvents (ec_storage ec))" using inv by (simp add: ec_inv_def storage_inv_def)
  have "ec_storage ec' = snd (removeCacheKeyFromEvents k (ec_storage ec))"
    by (simp add: ec'_def clearByCacheKey_def Let_def split: option.splits)
  then have "getEvent ec' i = (case getEvent ec i of None \<Rightarrow> None | Some r \<Rightarrow> rewritten (strip_event_key k) r)"
    by (simp add: getEvent_def getCachedEvent_def removeCacheKeyFromEvents_def map_get_rewrite_values [OF kb]
        split: option.split)
  note this [unfolded rewritten_strip_event]
  moreover have "fst (clearByCacheKey k ec) = streams_of ec k \<and>
      streams_of ec' k' = (if k' = k then [] else streams_of ec k')"
    by (auto simp: ec'_def clearByCacheKey_def streams_of_def Let_def split: option.splits)
  ultimately show ?thesis
    using parts by (simp add: ec'_def getBufferedEvents_def getEvents_def)
qed

theorem clear_by_cache_key_spec_witness:
  "fst (clearByCacheKey ''k1'' two_key_cache) = [''s'']
   \<and> getBufferedEvents (snd (clearByCacheKey ''k1'' two_key_cache)) ''s'' = []"
proof -
  have inv: "ec_inv two_key_cache" unfolding two_key_cache_def by (intro cache_batch_inv empty_cache)
  have "streams_of two_key_cache ''k1'' = [''s'']"
    by (simp add: two_key_cache_def cacheServerEventsWithKeys_def track_event_def Let_def
        trackCacheKeyStream_def streams_of_def new_eventCache_def empty_cache_def set_add_def)
  with clear_by_cache_key_spec [OF inv, of "''k1''" "''e1''" "''s''" "''k1''"] show ?thesis by simp
qed

end
