(* ===== verification/WsPipeline.thy ===== *)
theory WsPipeline
  imports EventCache
begin

text \<open>
  The path of a server event through \<^verbatim>\<open>packages/client/src/core/sync-manager/SyncManager.ts\<close>: arrival
  over the WebSocket or in a command response, the drain that removes duplicates, fills the baseline
  revisions and detects gaps, and the repair of a gap
  (\<^verbatim>\<open>packages/client/src/core/sync-manager/GapRepairCoordinator.ts\<close>).

  A write handler runs alone (theory \<open>WriteQueue\<close>), so each handler is one function of the state.
  What the reconcile core is given is recorded in \<open>pl_applied\<close>;
  theories \<open>ServerFold\<close> and \<open>ReconcilePersist\<close> model the core.  Operations put on
  the write queue, fetches in flight and scheduled refetches are recorded too.  A cache key stands
  for its identity object.  The consumer's collections, the revisions stored with read models
  (\<open>baseline\<close>) and the clock are arguments.
\<close>

section \<open>State\<close>

record collectionConfig =
  col_name :: string
  col_matchesStream :: "string \<Rightarrow> bool"
  col_fetchStreamEvents :: bool

record wsEntry =
  we_event :: serverEvent
  we_cacheKeys :: "string list"

datatype pipelineOp =
    ReconcileWsEvents
  | ApplyGapRepair string "string list" "serverEvent list"

record repairFetch =
  rf_streamId :: string
  rf_afterRevision :: int
  rf_cacheKeys :: "string list"

text \<open>
  What the pipeline sees of the write queue's state: it takes operations, or a session reset has discarded them and
  waits for the running one, or the reset wipes the session.  Theory \<open>WriteQueue\<close> models the queue itself.
\<close>

datatype queuePhase = Accepting | Discarding | Wiping

record 'c pipeline =
  pl_cache :: "'c eventCache"
  pl_known :: "(string, int) jsmap"
  pl_repairing :: "string list"
  pl_pending :: "wsEntry list"
  pl_wsReconcilePending :: bool
  pl_ops :: "pipelineOp list"
  pl_fetches :: "repairFetch list"
  pl_refetches :: "(string \<times> string list) list"
  pl_applied :: "wsEntry list"
  pl_queue :: queuePhase

definition new_pipeline :: "'c eventCache \<Rightarrow> 'c pipeline" where
  "new_pipeline ec = \<lparr>pl_cache = ec, pl_known = [], pl_repairing = [], pl_pending = [],
    pl_wsReconcilePending = False, pl_ops = [], pl_fetches = [], pl_refetches = [], pl_applied = [],
    pl_queue = Accepting\<rparr>"

section \<open>Arrival\<close>

text \<open>
  \<open>WriteQueue.enqueue\<close> answers with an error while a reset is under way, and no eviction handler runs; the two
  callers here do not look at the answer.
\<close>

definition pl_enqueue :: "pipelineOp \<Rightarrow> 'c pipeline \<Rightarrow> 'c pipeline" where
  "pl_enqueue op p = (if pl_queue p = Accepting then p\<lparr>pl_ops := pl_ops p @ [op]\<rparr> else p)"

lemma pl_enqueue_fields [simp]:
  "pl_cache (pl_enqueue op p) = pl_cache p" "pl_known (pl_enqueue op p) = pl_known p"
  "pl_repairing (pl_enqueue op p) = pl_repairing p" "pl_pending (pl_enqueue op p) = pl_pending p"
  "pl_wsReconcilePending (pl_enqueue op p) = pl_wsReconcilePending p" "pl_fetches (pl_enqueue op p) = pl_fetches p"
  "pl_refetches (pl_enqueue op p) = pl_refetches p" "pl_applied (pl_enqueue op p) = pl_applied p"
  "pl_queue (pl_enqueue op p) = pl_queue p"
  "pl_ops (pl_enqueue op p) = (if pl_queue p = Accepting then pl_ops p @ [op] else pl_ops p)"
  by (simp_all add: pl_enqueue_def)

definition scheduleWsReconcile :: "'c pipeline \<Rightarrow> 'c pipeline" where
  "scheduleWsReconcile p =
    (if pl_wsReconcilePending p \<or> pl_pending p = [] then p
     else pl_enqueue ReconcileWsEvents (p\<lparr>pl_wsReconcilePending := True\<rparr>))"

definition handleNewWsEvent :: "serverEvent \<Rightarrow> string list \<Rightarrow> 'c pipeline \<Rightarrow> 'c pipeline" where
  "handleNewWsEvent e keys p =
    scheduleWsReconcile (p\<lparr>pl_pending := pl_pending p @ [\<lparr>we_event = e, we_cacheKeys = keys\<rparr>]\<rparr>)"

text \<open>\<open>exists\<close> is \<open>cacheManager.existsSync\<close>.\<close>

definition handleCommandResponseEvents ::
  "(string \<Rightarrow> bool) \<Rightarrow> serverEvent list \<Rightarrow> string \<Rightarrow> 'c pipeline \<Rightarrow> 'c pipeline" where
  "handleCommandResponseEvents existsSync es key p =
    (if es = [] \<or> \<not> existsSync key then p
     else scheduleWsReconcile
       (p\<lparr>pl_pending := pl_pending p @ map (\<lambda>e. \<lparr>we_event = e, we_cacheKeys = [key]\<rparr>) es\<rparr>))"

section \<open>The set-up of a drain\<close>

definition merge_entry :: "wsEntry \<Rightarrow> (string, wsEntry) jsmap \<Rightarrow> (string, wsEntry) jsmap" where
  "merge_entry entry m =
    (case map_get m (se_id (we_event entry)) of
       None \<Rightarrow> map_set (se_id (we_event entry)) entry m
     | Some existing \<Rightarrow> map_set (se_id (we_event entry))
         (existing\<lparr>we_cacheKeys := fold set_add (we_cacheKeys entry) (we_cacheKeys existing)\<rparr>) m)"

definition dedup_batch :: "wsEntry list \<Rightarrow> wsEntry list" where
  "dedup_batch batch = map_values (fold merge_entry (filter (\<lambda>e. we_cacheKeys e \<noteq> []) batch) [])"

definition primary_collection :: "collectionConfig list \<Rightarrow> string \<Rightarrow> collectionConfig option" where
  "primary_collection cols streamId = find (\<lambda>c. col_matchesStream c streamId) cols"

text \<open>The targets of a batch: \<open>(collection, id)\<close> and the stream of its first event.\<close>

fun batch_targets ::
  "collectionConfig list \<Rightarrow> wsEntry list \<Rightarrow> (string \<times> string, string) jsmap \<Rightarrow> (string \<times> string, string) jsmap" where
  "batch_targets cols [] targets = targets"
| "batch_targets cols (entry # entries) targets =
    (let e = we_event entry
     in batch_targets cols entries
          (case (primary_collection cols (se_streamId e), js_member (se_data e) ''id'') of
             (Some c, JStr i) \<Rightarrow>
               if map_has targets (col_name c, i) then targets
               else map_set (col_name c, i) (se_streamId e) targets
           | _ \<Rightarrow> targets))"

definition populate_known ::
  "(string \<Rightarrow> string \<Rightarrow> int option) \<Rightarrow> (string \<times> string, string) jsmap \<Rightarrow> (string, int) jsmap \<Rightarrow> (string, int) jsmap" where
  "populate_known baseline targets known =
    fold (\<lambda>((c, i), streamId) m.
        if map_has m streamId then m
        else (case baseline c i of Some r \<Rightarrow> map_set streamId r m | None \<Rightarrow> m))
      targets known"

definition setupWsReconcileBatch ::
  "(string \<Rightarrow> string \<Rightarrow> int option) \<Rightarrow> collectionConfig list \<Rightarrow> wsEntry list \<Rightarrow> 'c pipeline \<Rightarrow> 'c pipeline" where
  "setupWsReconcileBatch baseline cols entries p =
    p\<lparr>pl_known := populate_known baseline (batch_targets cols entries []) (pl_known p)\<rparr>"

section \<open>Gap detection and the start of a repair\<close>

datatype gapStatus = NoGap | Duplicate | HasGap | Invalidated

definition known_revision :: "'c pipeline \<Rightarrow> string \<Rightarrow> int" where
  "known_revision p streamId = (case map_get (pl_known p) streamId of Some r \<Rightarrow> r | None \<Rightarrow> -1)"

definition repairStreamGap :: "string \<Rightarrow> int \<Rightarrow> string list \<Rightarrow> 'c pipeline \<Rightarrow> 'c pipeline" where
  "repairStreamGap streamId fromRevision keys p =
    p\<lparr>pl_repairing := set_add streamId (pl_repairing p),
      pl_fetches := pl_fetches p @
        [\<lparr>rf_streamId = streamId, rf_afterRevision = fromRevision, rf_cacheKeys = keys\<rparr>]\<rparr>"

definition checkAndRepairGap ::
  "collectionConfig list \<Rightarrow> serverEvent \<Rightarrow> string \<Rightarrow> string list \<Rightarrow> 'c pipeline \<Rightarrow> gapStatus \<times> 'c pipeline" where
  "checkAndRepairGap cols e collectionName keys p =
    (let known = known_revision p (se_streamId e)
     in if se_revision e \<le> known then (Duplicate, p)
        else if se_revision e = known + 1 then (NoGap, p)
        else (case find (\<lambda>c. col_name c = collectionName) cols of
                None \<Rightarrow> (Invalidated, p)
              | Some c \<Rightarrow>
                  if \<not> col_fetchStreamEvents c then (Invalidated, p)
                  else if se_streamId e \<in> set (pl_repairing p) then (HasGap, p)
                  else (HasGap, repairStreamGap (se_streamId e) known keys p)))"

fun walk_stream ::
  "collectionConfig list \<Rightarrow> string \<Rightarrow> wsEntry list \<Rightarrow> wsEntry list \<Rightarrow> (string, int) jsmap \<Rightarrow> 'c pipeline \<Rightarrow>
   wsEntry list \<times> (string, int) jsmap \<times> 'c pipeline" where
  "walk_stream cols streamId [] kept advanced p = (kept, advanced, p)"
| "walk_stream cols streamId (entry # entries) kept advanced p =
    (let e = we_event entry; matching = filter (\<lambda>c. col_matchesStream c (se_streamId e)) cols
     in case matching of
          [] \<Rightarrow> walk_stream cols streamId entries kept advanced p
        | primary # _ \<Rightarrow>
            (let (status, p1) = checkAndRepairGap cols e (col_name primary) (we_cacheKeys entry) p
             in case status of
                  Invalidated \<Rightarrow>
                    (kept, advanced, p1\<lparr>pl_refetches := pl_refetches p1 @
                       map (\<lambda>c. (col_name c, we_cacheKeys entry)) matching\<rparr>)
                | HasGap \<Rightarrow> (kept, advanced, p1)
                | Duplicate \<Rightarrow> walk_stream cols streamId entries kept advanced p1
                | NoGap \<Rightarrow> walk_stream cols streamId entries (kept @ [entry])
                    (map_set streamId (se_revision e) advanced)
                    (p1\<lparr>pl_known := map_set streamId (se_revision e) (pl_known p1)\<rparr>)))"

definition is_stateful :: "wsEntry \<Rightarrow> bool" where
  "is_stateful entry \<longleftrightarrow> normalizeEventPersistence (we_event entry) = StatefulEvent"

definition stream_buckets :: "wsEntry list \<Rightarrow> (string, wsEntry list) jsmap" where
  "stream_buckets entries =
    fold (\<lambda>entry m. let s = se_streamId (we_event entry)
                    in map_set s ((case map_get m s of Some es \<Rightarrow> es | None \<Rightarrow> []) @ [entry]) m)
      (filter (\<lambda>e. \<not> is_stateful e) entries) []"

definition revision_compare :: "wsEntry \<Rightarrow> wsEntry \<Rightarrow> int" where
  "revision_compare a b =
    (if se_revision (we_event a) = se_revision (we_event b) then 0
     else if se_revision (we_event a) < se_revision (we_event b) then -1 else 1)"

definition gap_pass ::
  "collectionConfig list \<Rightarrow> wsEntry list \<Rightarrow> 'c pipeline \<Rightarrow> wsEntry list \<times> (string, int) jsmap \<times> 'c pipeline" where
  "gap_pass cols entries p =
    fold (\<lambda>(streamId, es) (kept, advanced, p'). walk_stream cols streamId (js_sort revision_compare es) kept advanced p')
      (stream_buckets entries) (filter is_stateful entries, [], p)"

section \<open>The drain\<close>

definition reconcileFromWsEvents :: "wsEntry list \<Rightarrow> 'c pipeline \<Rightarrow> 'c pipeline" where
  "reconcileFromWsEvents entries p = p\<lparr>pl_applied := pl_applied p @ entries\<rparr>"

definition settle_streams :: "(string, int) jsmap \<Rightarrow> 'c eventCache \<Rightarrow> 'c eventCache" where
  "settle_streams advanced ec =
    fold (\<lambda>(streamId, r) c. ec_setKnownPosition streamId r (clearGapBuffer (Some streamId) (Some r) c)) advanced ec"

definition cache_batch :: "eventCodec \<Rightarrow> wsEntry list \<Rightarrow> 'c eventCache \<Rightarrow> wsEntry list \<times> 'c eventCache" where
  "cache_batch cd entries ec =
    (let existing = getExistingEventIds ec (map (\<lambda>e. se_id (we_event e)) entries);
         seen = filter (\<lambda>e. se_id (we_event e) \<in> set existing) entries;
         fresh = filter (\<lambda>e. se_id (we_event e) \<notin> set existing) entries;
         pair = (\<lambda>e. (we_event e, we_cacheKeys e));
         ec1 = ec_addCacheKeysToEvents (map pair seen) ec
     in (fresh, snd (cacheServerEventsWithKeys cd (map pair fresh) ec1)))"

definition onReconcileWsEventsOp ::
  "eventCodec \<Rightarrow> int \<Rightarrow> (string \<Rightarrow> string \<Rightarrow> int option) \<Rightarrow> collectionConfig list \<Rightarrow> 'c pipeline \<Rightarrow> 'c pipeline" where
  "onReconcileWsEventsOp cd now baseline cols p =
    (let p1 = p\<lparr>pl_wsReconcilePending := False\<rparr>
     in if pl_pending p1 = [] then p1
        else
          (let batch = pl_pending p1;
               p2 = p1\<lparr>pl_pending := []\<rparr>;
               unique = dedup_batch batch
           in if unique = [] then p2
              else
                (let (filtered, ec) = cache_batch cd unique (pl_cache p2);
                     p3 = p2\<lparr>pl_cache := ec\<rparr>
                 in if filtered = [] then p3
                    else
                      (let p4 = setupWsReconcileBatch baseline cols filtered p3;
                           (kept, advanced, p5) = gap_pass cols filtered p4
                       in if kept = [] then p5
                          else
                            (let p6 = reconcileFromWsEvents kept p5;
                                 p7 = p6\<lparr>pl_cache := settle_streams advanced (pl_cache p6)\<rparr>
                             in p7\<lparr>pl_cache := markProcessed now (map (\<lambda>e. se_id (we_event e)) kept) (pl_cache p7)\<rparr>)))))"

section \<open>Repairing a gap\<close>

text \<open>
  What follows the fetch of the missing events: success puts an operation on the write queue, if it takes any.
\<close>

definition repair_fetched :: "repairFetch \<Rightarrow> serverEvent list \<Rightarrow> 'c pipeline \<Rightarrow> 'c pipeline" where
  "repair_fetched rf es p =
    pl_enqueue (ApplyGapRepair (rf_streamId rf) (rf_cacheKeys rf) es) (p\<lparr>pl_fetches := remove1 rf (pl_fetches p)\<rparr>)"

definition repair_failed :: "repairFetch \<Rightarrow> 'c pipeline \<Rightarrow> 'c pipeline" where
  "repair_failed rf p =
    p\<lparr>pl_fetches := remove1 rf (pl_fetches p), pl_repairing := set_remove (rf_streamId rf) (pl_repairing p)\<rparr>"

definition onApplyGapRepairEviction :: "string \<Rightarrow> 'c pipeline \<Rightarrow> 'c pipeline" where
  "onApplyGapRepairEviction streamId p = p\<lparr>pl_repairing := set_remove streamId (pl_repairing p)\<rparr>"

definition repair_reset :: "'c pipeline \<Rightarrow> 'c pipeline" where
  "repair_reset p = p\<lparr>pl_repairing := []\<rparr>"

definition onApplyGapRepair ::
  "eventCodec \<Rightarrow> (string \<Rightarrow> string \<Rightarrow> int option) \<Rightarrow> collectionConfig list \<Rightarrow>
   string \<Rightarrow> string list \<Rightarrow> serverEvent list \<Rightarrow> 'c pipeline \<Rightarrow> 'c pipeline" where
  "onApplyGapRepair cd baseline cols streamId keys es p =
    (let p1 = p\<lparr>pl_cache := snd (cacheServerEventsWithKeys cd (map (\<lambda>e. (e, keys)) es) (pl_cache p))\<rparr>;
         bufferedEvents = getBufferedEvents (pl_cache p1) streamId;
         p2 = (if bufferedEvents = [] then p1
           else
             (let entries = map (\<lambda>(_, e). \<lparr>we_event = e, we_cacheKeys = keys\<rparr>) bufferedEvents;
                  p' = reconcileFromWsEvents entries (setupWsReconcileBatch baseline cols entries p1);
                  (position, event) = last bufferedEvents
              in p'\<lparr>pl_cache := ec_setKnownPosition streamId position
                       (clearGapBuffer (Some streamId) (Some position) (pl_cache p')),
                    pl_known := map_set streamId (se_revision event) (pl_known p')\<rparr>))
     in p2\<lparr>pl_repairing := set_remove streamId (pl_repairing p2)\<rparr>)"

section \<open>Baselines\<close>

definition advance_known :: "string \<Rightarrow> int \<Rightarrow> (string, int) jsmap \<Rightarrow> (string, int) jsmap" where
  "advance_known streamId r known =
    (case map_get known streamId of
       Some c \<Rightarrow> if r > c then map_set streamId r known else known
     | None \<Rightarrow> map_set streamId r known)"

text \<open>The ids and revisions of a collection's read models, and its stream naming, are arguments.\<close>

definition restoreKnownRevisions ::
  "((string \<Rightarrow> string) \<times> (string \<times> int) list) list \<Rightarrow> 'c pipeline \<Rightarrow> 'c pipeline" where
  "restoreKnownRevisions cols p =
    p\<lparr>pl_known := fold (\<lambda>(getStreamId, entries).
        fold (\<lambda>(i, r). advance_known (getStreamId i) r) entries) cols (pl_known p)\<rparr>"

definition onApplySeedEvents ::
  "eventCodec \<Rightarrow> int \<Rightarrow> (string \<Rightarrow> string \<Rightarrow> int option) \<Rightarrow> collectionConfig list \<Rightarrow>
   string \<Rightarrow> serverEvent list \<Rightarrow> 'c pipeline \<Rightarrow> 'c pipeline" where
  "onApplySeedEvents cd now baseline cols key es p =
    (let p1 = p\<lparr>pl_cache := snd (cacheServerEventsWithKeys cd (map (\<lambda>e. (e, [key])) es) (pl_cache p))\<rparr>;
         entries = map (\<lambda>e. \<lparr>we_event = e, we_cacheKeys = [key]\<rparr>) es;
         p2 = reconcileFromWsEvents entries (setupWsReconcileBatch baseline cols entries p1);
         p3 = p2\<lparr>pl_known := fold (\<lambda>e. advance_known (se_streamId e) (se_revision e)) (permanents es) (pl_known p2)\<rparr>;
         ids = map se_id (filter (\<lambda>e. normalizeEventPersistence e \<noteq> AnticipatedEvent) es)
     in p3\<lparr>pl_cache := markProcessed now ids (pl_cache p3)\<rparr>)"

section \<open>The walk over one stream\<close>

abbreviation entry_stream :: "wsEntry \<Rightarrow> string" where
  "entry_stream en \<equiv> se_streamId (we_event en)"

abbreviation entry_revision :: "wsEntry \<Rightarrow> int" where
  "entry_revision en \<equiv> se_revision (we_event en)"

lemma known_revision_set [simp]:
  "known_revision (p\<lparr>pl_known := map_set s r m\<rparr>) t =
    (if t = s then r else (case map_get m t of Some r \<Rightarrow> r | None \<Rightarrow> -1))"
  by (simp add: known_revision_def)

lemma check_fields:
  "checkAndRepairGap cols e n keys p = (status, p') \<Longrightarrow>
    pl_known p' = pl_known p \<and> pl_cache p' = pl_cache p \<and> pl_applied p' = pl_applied p
    \<and> set (pl_repairing p) \<subseteq> set (pl_repairing p') \<and> pl_refetches p' = pl_refetches p
    \<and> (status = NoGap \<longleftrightarrow> se_revision e = known_revision p (se_streamId e) + 1)
    \<and> (status = Duplicate \<longleftrightarrow> se_revision e \<le> known_revision p (se_streamId e))
    \<and> (status = HasGap \<longrightarrow> se_streamId e \<in> set (pl_repairing p'))"
  by (auto simp: checkAndRepairGap_def Let_def repairStreamGap_def split: if_splits option.splits)

text \<open>What a walk leaves behind, for any order of the entries.\<close>

definition walk_result ::
  "string \<Rightarrow> wsEntry list \<Rightarrow> wsEntry list \<Rightarrow> (string, int) jsmap \<Rightarrow> 'c pipeline \<Rightarrow>
   wsEntry list \<Rightarrow> (string, int) jsmap \<Rightarrow> 'c pipeline \<Rightarrow> bool" where
  "walk_result s entries kept advanced p kept' advanced' p' \<longleftrightarrow>
    (\<exists>run. kept' = kept @ run \<and> set run \<subseteq> set entries
      \<and> map entry_revision run = [known_revision p s + 1 .. known_revision p' s]
      \<and> (\<forall>t. map_get advanced' t = (if t = s \<and> run \<noteq> [] then Some (known_revision p' s) else map_get advanced t)))
    \<and> known_revision p s \<le> known_revision p' s
    \<and> (\<forall>t. t \<noteq> s \<longrightarrow> map_get (pl_known p') t = map_get (pl_known p) t)
    \<and> pl_cache p' = pl_cache p \<and> pl_applied p' = pl_applied p
    \<and> set (pl_repairing p) \<subseteq> set (pl_repairing p') \<and> set (pl_refetches p) \<subseteq> set (pl_refetches p')"

lemma walk_result_stop:
  assumes "pl_known p' = pl_known p" "pl_cache p' = pl_cache p" "pl_applied p' = pl_applied p"
    "set (pl_repairing p) \<subseteq> set (pl_repairing p')" "set (pl_refetches p) \<subseteq> set (pl_refetches p')"
  shows "walk_result s entries kept advanced p kept advanced p'"
  using assms by (simp add: walk_result_def known_revision_def)

lemma walk_result_skip:
  assumes "walk_result s entries kept advanced p kept' advanced' p'"
  shows "walk_result s (en # entries) kept advanced p kept' advanced' p'"
  using assms by (fastforce simp: walk_result_def)

lemma walk_result_keep:
  assumes r: "entry_revision en = known_revision p s + 1"
    and w: "walk_result s entries (kept @ [en]) (map_set s (entry_revision en) advanced)
      (p\<lparr>pl_known := map_set s (entry_revision en) (pl_known p)\<rparr>) kept' advanced' p'"
  shows "walk_result s (en # entries) kept advanced p kept' advanced' p'"
proof -
  from w obtain run where run: "kept' = kept @ en # run" "set run \<subseteq> set entries"
      "map entry_revision run = [entry_revision en + 1 .. known_revision p' s]"
      "\<forall>t. map_get advanced' t = (if t = s \<and> run \<noteq> [] then Some (known_revision p' s)
         else if t = s then Some (entry_revision en) else map_get advanced t)"
    and le: "entry_revision en \<le> known_revision p' s"
    and rest: "\<forall>t. t \<noteq> s \<longrightarrow> map_get (pl_known p') t = map_get (pl_known p) t"
      "pl_cache p' = pl_cache p" "pl_applied p' = pl_applied p"
      "set (pl_repairing p) \<subseteq> set (pl_repairing p')" "set (pl_refetches p) \<subseteq> set (pl_refetches p')"
    by (auto simp: walk_result_def)
  have "run = [] \<Longrightarrow> known_revision p' s = entry_revision en" using run(3) le by simp
  then have "\<forall>t. map_get advanced' t = (if t = s \<and> en # run \<noteq> [] then Some (known_revision p' s) else map_get advanced t)"
    using run(4) by auto
  moreover have "map entry_revision (en # run) = [known_revision p s + 1 .. known_revision p' s]"
    using run(3) le r by (simp add: upto_rec1)
  ultimately show ?thesis
    unfolding walk_result_def using run(1,2) le r rest by (intro conjI exI [of _ "en # run"]) auto
qed

lemma walk_stream_result:
  assumes "\<forall>en \<in> set entries. entry_stream en = s"
    and "walk_stream cols s entries kept advanced p = (kept', advanced', p')"
  shows "walk_result s entries kept advanced p kept' advanced' p'"
  using assms
proof (induction cols s entries kept advanced p rule: walk_stream.induct)
  case (1 cols s kept advanced p)
  then show ?case by (auto intro: walk_result_stop)
next
  case (2 cols s en entries kept advanced p)
  show ?case
  proof (cases "filter (\<lambda>c. col_matchesStream c (entry_stream en)) cols")
    case Nil
    with 2 show ?thesis by (auto intro!: walk_result_skip)
  next
    case (Cons c cs)
    obtain status p1 where st: "checkAndRepairGap cols (we_event en) (col_name c) (we_cacheKeys en) p = (status, p1)"
      by (cases "checkAndRepairGap cols (we_event en) (col_name c) (we_cacheKeys en) p")
    note F = check_fields [OF st]
    have s: "entry_stream en = s" using 2 by simp
    note IH = "2.IH"(2,3) [OF refl refl Cons st [symmetric] refl]
    show ?thesis
    proof (cases status)
      case NoGap
      then have p1: "p1 = p" and r: "entry_revision en = known_revision p s + 1"
        using st F s by (auto simp: checkAndRepairGap_def Let_def split: if_splits option.splits)
      show ?thesis
        using 2(4,5) NoGap Cons st IH by (intro walk_result_keep [OF r]) (simp add: p1 Let_def)
    next
      case Duplicate
      then have p1: "p1 = p" using st by (auto simp: checkAndRepairGap_def Let_def split: if_splits option.splits)
      show ?thesis using 2(4,5) Duplicate Cons st IH by (intro walk_result_skip) (simp add: p1 Let_def)
    next
      case HasGap
      then show ?thesis using 2(5) Cons st F by (auto intro!: walk_result_stop)
    next
      case Invalidated
      then show ?thesis using 2(5) Cons st F by (auto intro!: walk_result_stop)
    qed
  qed
qed

text \<open>On a sorted bucket nothing is passed over: what is beyond the baseline waits for a repair or a refetch.\<close>

definition awaited :: "collectionConfig list \<Rightarrow> 'c pipeline \<Rightarrow> string \<Rightarrow> bool" where
  "awaited cols p s \<longleftrightarrow> s \<in> set (pl_repairing p) \<or>
    (\<exists>c \<in> set cols. \<exists>keys. col_matchesStream c s \<and> (col_name c, keys) \<in> set (pl_refetches p))"

lemma awaited_mono:
  "awaited cols p s \<Longrightarrow> set (pl_repairing p) \<subseteq> set (pl_repairing p') \<Longrightarrow>
    set (pl_refetches p) \<subseteq> set (pl_refetches p') \<Longrightarrow> awaited cols p' s"
  by (auto simp: awaited_def)

lemma walk_stream_complete:
  assumes "\<forall>en \<in> set entries. entry_stream en = s" "sorted (map entry_revision entries)"
    and "\<exists>c \<in> set cols. col_matchesStream c s"
    and "walk_stream cols s entries kept advanced p = (kept', advanced', p')"
  shows "\<forall>en \<in> set entries. entry_revision en \<le> known_revision p' s \<or> awaited cols p' s"
  using assms
proof (induction cols s entries kept advanced p rule: walk_stream.induct)
  case (1 cols s kept advanced p)
  then show ?case by simp
next
  case (2 cols s en entries kept advanced p)
  obtain c cs where Cons: "filter (\<lambda>c. col_matchesStream c (entry_stream en)) cols = c # cs"
    using 2(4,6) by (cases "filter (\<lambda>c. col_matchesStream c (entry_stream en)) cols") (auto simp: filter_empty_conv)
  then have c: "c \<in> set cols" "col_matchesStream c (entry_stream en)"
    using filter_set [of "\<lambda>c. col_matchesStream c (entry_stream en)" cols] by auto
  obtain status p1 where st: "checkAndRepairGap cols (we_event en) (col_name c) (we_cacheKeys en) p = (status, p1)"
    by (cases "checkAndRepairGap cols (we_event en) (col_name c) (we_cacheKeys en) p")
  note F = check_fields [OF st]
  have s: "entry_stream en = s" and rest: "\<forall>e \<in> set entries. entry_stream e = s" "sorted (map entry_revision entries)"
    using 2 by auto
  note IH = "2.IH"(2,3) [OF refl refl Cons st [symmetric] refl]
  note mono = walk_stream_result [OF rest(1), unfolded walk_result_def]
  show ?case
  proof (cases status)
    case NoGap
    then have p1: "p1 = p" and r: "entry_revision en = known_revision p s + 1"
      using st F s by (auto simp: checkAndRepairGap_def Let_def split: if_splits option.splits)
    let ?p = "p\<lparr>pl_known := map_set s (entry_revision en) (pl_known p)\<rparr>"
    have w: "walk_stream cols s entries (kept @ [en]) (map_set s (entry_revision en) advanced) ?p = (kept', advanced', p')"
      using 2(7) NoGap Cons st p1 by (simp add: Let_def)
    have "known_revision ?p s \<le> known_revision p' s" using mono [OF w] by blast
    moreover have "\<forall>e \<in> set entries. entry_revision e \<le> known_revision p' s \<or> awaited cols p' s"
      using IH(1) [OF NoGap rest 2(6)] w p1 by simp
    ultimately show ?thesis by simp
  next
    case Duplicate
    then have p1: "p1 = p" using st by (auto simp: checkAndRepairGap_def Let_def split: if_splits option.splits)
    have w: "walk_stream cols s entries kept advanced p = (kept', advanced', p')"
      using 2(7) Duplicate Cons st p1 by (simp add: Let_def)
    have "known_revision p s \<le> known_revision p' s" using mono [OF w] by blast
    moreover have "entry_revision en \<le> known_revision p s" using F Duplicate s by simp
    moreover have "\<forall>e \<in> set entries. entry_revision e \<le> known_revision p' s \<or> awaited cols p' s"
      using IH(2) [OF Duplicate rest 2(6)] w p1 by simp
    ultimately show ?thesis by fastforce
  next
    case HasGap
    then show ?thesis using 2(7) Cons st F s by (auto simp: awaited_def)
  next
    case Invalidated
    then have "p' = p1\<lparr>pl_refetches := pl_refetches p1 @ map (\<lambda>c. (col_name c, we_cacheKeys en)) (c # cs)\<rparr>"
      using 2(7) Cons st by simp
    then have "awaited cols p' s" using c s by (auto simp: awaited_def)
    then show ?thesis by simp
  qed
qed

section \<open>The pass over all streams\<close>

lemma stream_buckets_fold:
  "map_wf m \<Longrightarrow> map_wf (fold (\<lambda>entry m. let s = entry_stream entry
        in map_set s ((case map_get m s of Some es \<Rightarrow> es | None \<Rightarrow> []) @ [entry]) m) es m)
    \<and> map_get (fold (\<lambda>entry m. let s = entry_stream entry
        in map_set s ((case map_get m s of Some es \<Rightarrow> es | None \<Rightarrow> []) @ [entry]) m) es m) s =
      (case (map_get m s, filter (\<lambda>e. entry_stream e = s) es) of
         (None, []) \<Rightarrow> None
       | (None, xs) \<Rightarrow> Some xs
       | (Some ys, xs) \<Rightarrow> Some (ys @ xs))"
proof (induction es arbitrary: m)
  case (Cons e es)
  have "map_wf (map_set (entry_stream e) v m)" for v using Cons.prems by simp
  from Cons.IH [OF this] show ?case
    by (cases "s = entry_stream e"; cases "map_get m s") (auto simp: Let_def split: list.splits option.splits)
qed (auto split: option.splits)

lemma stream_buckets_get:
  "map_wf (stream_buckets entries)"
  "map_get (stream_buckets entries) s =
    (case filter (\<lambda>e. \<not> is_stateful e \<and> entry_stream e = s) entries of [] \<Rightarrow> None | xs \<Rightarrow> Some xs)"
  using stream_buckets_fold [OF map_wf_Nil, of "filter (\<lambda>e. \<not> is_stateful e) entries" s]
  by (auto simp: stream_buckets_def conj_commute split: list.splits)

lemma stream_buckets_mem:
  assumes "(s, es) \<in> set (stream_buckets entries)"
  shows "es = filter (\<lambda>e. \<not> is_stateful e \<and> entry_stream e = s) entries"
proof -
  have "map_get (stream_buckets entries) s = Some es"
    using assms stream_buckets_get(1) by (simp add: map_wf_get)
  then show ?thesis by (auto simp: stream_buckets_get(2) split: list.splits)
qed

lemma revision_compare_sort: "js_sort revision_compare es = sort_key entry_revision es"
  by (rule js_sort_sort_key) (simp add: revision_compare_def)

definition pass_result ::
  "collectionConfig list \<Rightarrow> (string, wsEntry list) jsmap \<Rightarrow> wsEntry list \<Rightarrow> (string, int) jsmap \<Rightarrow> 'c pipeline \<Rightarrow>
   wsEntry list \<Rightarrow> (string, int) jsmap \<Rightarrow> 'c pipeline \<Rightarrow> bool" where
  "pass_result cols bs kept advanced p kept' advanced' p' \<longleftrightarrow>
    (\<exists>runs. kept' = kept @ runs \<and> set runs \<subseteq> \<Union> (set ` snd ` set bs)
      \<and> (\<forall>s. map entry_revision (filter (\<lambda>e. entry_stream e = s) runs) =
              [known_revision p s + 1 .. known_revision p' s]))
    \<and> (\<forall>s. known_revision p s \<le> known_revision p' s)
    \<and> (\<forall>s. s \<notin> fst ` set bs \<longrightarrow> map_get (pl_known p') s = map_get (pl_known p) s \<and> map_get advanced' s = map_get advanced s)
    \<and> (\<forall>s \<in> fst ` set bs. map_get advanced' s = map_get advanced s \<or> map_get advanced' s = Some (known_revision p' s))
    \<and> (\<forall>(s, es) \<in> set bs. (\<exists>c \<in> set cols. col_matchesStream c s) \<longrightarrow>
          (\<forall>en \<in> set es. entry_revision en \<le> known_revision p' s \<or> awaited cols p' s))
    \<and> pl_cache p' = pl_cache p \<and> pl_applied p' = pl_applied p
    \<and> set (pl_repairing p) \<subseteq> set (pl_repairing p') \<and> set (pl_refetches p) \<subseteq> set (pl_refetches p')"

lemma pass_result_Cons:
  assumes w: "walk_result s (js_sort revision_compare es) kept advanced p kept1 advanced1 p1"
    and complete: "(\<exists>c \<in> set cols. col_matchesStream c s) \<longrightarrow>
      (\<forall>en \<in> set es. entry_revision en \<le> known_revision p1 s \<or> awaited cols p1 s)"
    and stream: "\<forall>en \<in> set es. entry_stream en = s"
    and others: "\<forall>(t, es') \<in> set bs. \<forall>en \<in> set es'. entry_stream en = t" "s \<notin> fst ` set bs"
    and rest: "pass_result cols bs kept1 advanced1 p1 kept' advanced' p'"
  shows "pass_result cols ((s, es) # bs) kept advanced p kept' advanced' p'"
proof -
  from w obtain run where run: "kept1 = kept @ run" "set run \<subseteq> set es"
      "map entry_revision run = [known_revision p s + 1 .. known_revision p1 s]"
      "\<And>t. map_get advanced1 t = (if t = s \<and> run \<noteq> [] then Some (known_revision p1 s) else map_get advanced t)"
    and W: "known_revision p s \<le> known_revision p1 s" "\<And>t. t \<noteq> s \<Longrightarrow> map_get (pl_known p1) t = map_get (pl_known p) t"
      "pl_cache p1 = pl_cache p" "pl_applied p1 = pl_applied p"
      "set (pl_repairing p) \<subseteq> set (pl_repairing p1)" "set (pl_refetches p) \<subseteq> set (pl_refetches p1)"
    by (auto simp: walk_result_def revision_compare_sort)
  from rest obtain runs where runs: "kept' = kept1 @ runs" "set runs \<subseteq> \<Union> (set ` snd ` set bs)"
      "\<And>t. map entry_revision (filter (\<lambda>e. entry_stream e = t) runs) = [known_revision p1 t + 1 .. known_revision p' t]"
    and R: "\<And>t. known_revision p1 t \<le> known_revision p' t"
      "\<And>t. t \<notin> fst ` set bs \<Longrightarrow> map_get (pl_known p') t = map_get (pl_known p1) t \<and> map_get advanced' t = map_get advanced1 t"
      "\<forall>t \<in> fst ` set bs. map_get advanced' t = map_get advanced1 t \<or> map_get advanced' t = Some (known_revision p' t)"
      "\<forall>(t, es) \<in> set bs. (\<exists>c \<in> set cols. col_matchesStream c t) \<longrightarrow>
          (\<forall>en \<in> set es. entry_revision en \<le> known_revision p' t \<or> awaited cols p' t)"
      "pl_cache p' = pl_cache p1" "pl_applied p' = pl_applied p1"
      "set (pl_repairing p1) \<subseteq> set (pl_repairing p')" "set (pl_refetches p1) \<subseteq> set (pl_refetches p')"
    unfolding pass_result_def by blast
  have ks: "known_revision p' s = known_revision p1 s"
    using R(2) [OF others(2)] by (simp add: known_revision_def)
  have kt: "known_revision p1 t = known_revision p t" if "t \<noteq> s" for t
    using W(2) [OF that] by (simp add: known_revision_def)
  have run_s: "filter (\<lambda>e. entry_stream e = t) run = (if t = s then run else [])" for t
    using run(2) stream by (auto simp: filter_id_conv filter_empty_conv)
  have runs_s: "filter (\<lambda>e. entry_stream e = s) runs = []"
    using runs(3) [of s] by (simp add: ks)
  have runs': "kept' = kept @ (run @ runs)" using runs(1) run(1) by simp
  have sub: "set (run @ runs) \<subseteq> \<Union> (set ` snd ` set ((s, es) # bs))" using runs(2) run(2) by auto
  have revs: "map entry_revision (filter (\<lambda>e. entry_stream e = t) (run @ runs)) =
      [known_revision p t + 1 .. known_revision p' t]" for t
    using run(3) runs(3) [of t] by (cases "t = s") (simp_all add: run_s runs_s ks kt)
  have known_mono: "known_revision p t \<le> known_revision p' t" for t
    using R(1) [of t] W(1) kt [of t] by (cases "t = s") auto
  have adv_s: "map_get advanced' s = map_get advanced s \<or> map_get advanced' s = Some (known_revision p' s)"
    using R(2) [OF others(2)] run(4) [of s] ks by auto
  have aw: "awaited cols p' s" if "awaited cols p1 s" by (rule awaited_mono [OF that R(7,8)])
  show ?thesis
    unfolding pass_result_def
  proof (intro conjI)
    show "\<exists>runs. kept' = kept @ runs \<and> set runs \<subseteq> \<Union> (set ` snd ` set ((s, es) # bs)) \<and>
        (\<forall>s. map entry_revision (filter (\<lambda>e. entry_stream e = s) runs) = [known_revision p s + 1 .. known_revision p' s])"
      using runs' sub revs by blast
    show "\<forall>t. t \<notin> fst ` set ((s, es) # bs) \<longrightarrow>
        map_get (pl_known p') t = map_get (pl_known p) t \<and> map_get advanced' t = map_get advanced t"
      using R(2) W(2) run(4) by auto
    show "\<forall>t \<in> fst ` set ((s, es) # bs). map_get advanced' t = map_get advanced t \<or>
        map_get advanced' t = Some (known_revision p' t)"
    proof
      fix t assume "t \<in> fst ` set ((s, es) # bs)"
      then consider "t = s" | "t \<noteq> s" "t \<in> fst ` set bs" by auto
      then show "map_get advanced' t = map_get advanced t \<or> map_get advanced' t = Some (known_revision p' t)"
      proof cases
        case 2
        then have "map_get advanced1 t = map_get advanced t" by (simp add: run(4))
        then show ?thesis using bspec [OF R(3) 2(2)] by (simp only:)
      qed (simp only: adv_s)
    qed
    show "\<forall>(t, es') \<in> set ((s, es) # bs). (\<exists>c \<in> set cols. col_matchesStream c t) \<longrightarrow>
        (\<forall>en \<in> set es'. entry_revision en \<le> known_revision p' t \<or> awaited cols p' t)"
      using R(4) complete aw ks by auto
  qed (use known_mono R W in auto)
qed

lemma gap_pass_fold:
  assumes "distinct (map fst bs)"
    and "\<forall>(s, es) \<in> set bs. \<forall>en \<in> set es. entry_stream en = s"
    and "fold (\<lambda>(s, es) (kept, advanced, p'). walk_stream cols s (js_sort revision_compare es) kept advanced p')
      bs (kept, advanced, p) = (kept', advanced', p')"
  shows "pass_result cols bs kept advanced p kept' advanced' p'"
  using assms
proof (induction bs arbitrary: kept advanced p)
  case Nil
  then show ?case by (simp add: pass_result_def)
next
  case (Cons b bs)
  obtain s es where b: "b = (s, es)" by (cases b)
  obtain kept1 advanced1 p1 where w: "walk_stream cols s (js_sort revision_compare es) kept advanced p = (kept1, advanced1, p1)"
    by (cases "walk_stream cols s (js_sort revision_compare es) kept advanced p") auto
  have st: "\<forall>en \<in> set (js_sort revision_compare es). entry_stream en = s"
    using Cons.prems(2) by (auto simp: b revision_compare_sort)
  have comp: "(\<exists>c \<in> set cols. col_matchesStream c s) \<longrightarrow>
      (\<forall>en \<in> set es. entry_revision en \<le> known_revision p1 s \<or> awaited cols p1 s)"
    using walk_stream_complete [OF st _ _ w] by (simp add: revision_compare_sort)
  have es: "\<forall>en \<in> set es. entry_stream en = s" and bs: "\<forall>(t, es') \<in> set bs. \<forall>en \<in> set es'. entry_stream en = t"
    and s: "s \<notin> fst ` set bs" "distinct (map fst bs)"
    using Cons.prems(1,2) by (simp_all add: b)
  have "pass_result cols bs kept1 advanced1 p1 kept' advanced' p'"
    using Cons.prems(3) by (intro Cons.IH [OF s(2) bs]) (simp add: b w)
  then show ?case unfolding b by (rule pass_result_Cons [OF walk_stream_result [OF st w] comp es bs s(1)])
qed

lemma walk_stream_wf:
  "map_wf advanced \<Longrightarrow> walk_stream cols s entries kept advanced p = (kept', advanced', p') \<Longrightarrow> map_wf advanced'"
  by (induction cols s entries kept advanced p rule: walk_stream.induct)
    (auto simp: Let_def split: list.splits prod.splits gapStatus.splits)

lemma gap_pass_fold_wf:
  "map_wf advanced \<Longrightarrow>
    fold (\<lambda>(s, es) (kept, advanced, p'). walk_stream cols s (js_sort revision_compare es) kept advanced p')
      bs (kept, advanced, p) = (kept', advanced', p') \<Longrightarrow> map_wf advanced'"
proof (induction bs arbitrary: kept advanced p)
  case (Cons b bs)
  obtain s es where b: "b = (s, es)" by (cases b)
  obtain kept1 advanced1 p1 where w: "walk_stream cols s (js_sort revision_compare es) kept advanced p = (kept1, advanced1, p1)"
    by (cases "walk_stream cols s (js_sort revision_compare es) kept advanced p") auto
  show ?case
    by (rule Cons.IH [OF walk_stream_wf [OF Cons.prems(1) w]]) (use Cons.prems(2) in \<open>simp add: b w\<close>)
qed simp

text \<open>What a pass does to the entries of one batch.\<close>

lemma gap_pass_result:
  assumes "gap_pass cols entries p = (kept, advanced, p')"
  shows "pass_result cols (stream_buckets entries) (filter is_stateful entries) [] p kept advanced p'"
    and "map_wf advanced"
proof -
  let ?bs = "stream_buckets entries"
  have "distinct (map fst ?bs)" using stream_buckets_get(1) by (simp add: map_wf_def)
  moreover have "\<forall>(s, es) \<in> set ?bs. \<forall>en \<in> set es. entry_stream en = s"
    using stream_buckets_mem by fastforce
  ultimately show "pass_result cols ?bs (filter is_stateful entries) [] p kept advanced p'"
    using assms by (intro gap_pass_fold) (simp_all add: gap_pass_def)
  show "map_wf advanced"
    using assms by (intro gap_pass_fold_wf [OF map_wf_Nil]) (simp add: gap_pass_def)
qed

lemma gap_pass_runs:
  assumes "gap_pass cols entries p = (kept, advanced, p')"
  shows "map entry_revision (filter (\<lambda>e. \<not> is_stateful e \<and> entry_stream e = s) kept) =
      [known_revision p s + 1 .. known_revision p' s]"
    and "filter is_stateful kept = filter is_stateful entries" "set kept \<subseteq> set entries"
    and "known_revision p s \<le> known_revision p' s"
    and "r \<in> set entries \<Longrightarrow> \<not> is_stateful r \<Longrightarrow> c \<in> set cols \<Longrightarrow> col_matchesStream c (entry_stream r) \<Longrightarrow>
      entry_revision r \<le> known_revision p' (entry_stream r) \<or> awaited cols p' (entry_stream r)"
    and "map_get advanced s = Some a \<Longrightarrow> a = known_revision p' s"
    and "pl_cache p' = pl_cache p" "pl_applied p' = pl_applied p"
proof -
  note R = gap_pass_result(1) [OF assms, unfolded pass_result_def]
  from R obtain runs where kept: "kept = filter is_stateful entries @ runs"
    and sub: "set runs \<subseteq> \<Union> (set ` snd ` set (stream_buckets entries))"
    and revs: "\<And>s. map entry_revision (filter (\<lambda>e. entry_stream e = s) runs) =
              [known_revision p s + 1 .. known_revision p' s]"
    by blast
  have plain: "\<not> is_stateful e \<and> e \<in> set entries" if "e \<in> set runs" for e
  proof -
    from that sub obtain s es where "(s, es) \<in> set (stream_buckets entries)" "e \<in> set es" by auto
    then show ?thesis using stream_buckets_mem [of s es entries] by auto
  qed
  have "filter (\<lambda>e. \<not> is_stateful e \<and> entry_stream e = s) runs = filter (\<lambda>e. entry_stream e = s) runs"
    using plain by (intro filter_cong) auto
  then show "map entry_revision (filter (\<lambda>e. \<not> is_stateful e \<and> entry_stream e = s) kept) =
      [known_revision p s + 1 .. known_revision p' s]"
    using revs [of s] by (simp add: kept filter_empty_conv)
  have "filter is_stateful runs = []" using plain by (auto simp: filter_empty_conv)
  then show "filter is_stateful kept = filter is_stateful entries" by (simp add: kept)
  show "set kept \<subseteq> set entries" using plain by (auto simp: kept)
  show "known_revision p s \<le> known_revision p' s" "pl_cache p' = pl_cache p" "pl_applied p' = pl_applied p"
    using R by blast+
  show "entry_revision r \<le> known_revision p' (entry_stream r) \<or> awaited cols p' (entry_stream r)"
    if r: "r \<in> set entries" "\<not> is_stateful r" and c: "c \<in> set cols" "col_matchesStream c (entry_stream r)"
  proof -
    let ?es = "filter (\<lambda>e. \<not> is_stateful e \<and> entry_stream e = entry_stream r) entries"
    have "r \<in> set ?es" using r by simp
    then have "?es \<noteq> []" by (metis empty_iff list.set(1))
    then have "map_get (stream_buckets entries) (entry_stream r) = Some ?es"
      unfolding stream_buckets_get(2) by (simp split: list.split)
    then have "(entry_stream r, ?es) \<in> set (stream_buckets entries)" by (rule map_of_SomeD)
    then show ?thesis using R \<open>r \<in> set ?es\<close> c by fastforce
  qed
  show "a = known_revision p' s" if "map_get advanced s = Some a"
    using R that by (metis (mono_tags) empty_iff list.set(1) map_of_eq_None_iff image_is_empty option.distinct(1) option.inject)
qed

section \<open>The drain as a whole\<close>

lemma cache_batch_Nil [simp]: "cache_batch cd [] ec = ([], ec)"
  by (simp add: cache_batch_def Let_def ec_addCacheKeysToEvents_def cacheServerEventsWithKeys_def
      addCacheKeysToEvents_def saveCachedEvents_def)

lemma gap_pass_Nil [simp]: "gap_pass cols [] p = ([], [], p)"
  by (simp add: gap_pass_def stream_buckets_def)

lemma setup_Nil [simp]: "setupWsReconcileBatch baseline cols [] p = p"
  by (simp add: setupWsReconcileBatch_def populate_known_def)

abbreviation drain_start :: "'c eventCache \<Rightarrow> 'c pipeline \<Rightarrow> 'c pipeline" where
  "drain_start ec p \<equiv> p\<lparr>pl_wsReconcilePending := False, pl_pending := [], pl_cache := ec\<rparr>"

lemma drain_fields:
  fixes now :: int
  assumes "cache_batch cd (dedup_batch (pl_pending p)) (pl_cache p) = (filtered, ec)"
    and "gap_pass cols filtered (setupWsReconcileBatch baseline cols filtered (drain_start ec p)) = (kept, advanced, p5)"
  defines "p' \<equiv> onReconcileWsEventsOp cd now baseline cols p"
  shows "pl_applied p' = pl_applied p @ kept" "pl_known p' = pl_known p5" "pl_repairing p' = pl_repairing p5"
    "pl_refetches p' = pl_refetches p5"
    "pl_cache p' = (if kept = [] then ec
       else markProcessed now (map (\<lambda>e. se_id (we_event e)) kept) (settle_streams advanced ec))"
proof -
  have p5: "pl_cache p5 = ec" "pl_applied p5 = pl_applied p"
    using gap_pass_runs(7,8) [OF assms(2)] by (simp_all add: setupWsReconcileBatch_def)
  have start: "p\<lparr>pl_wsReconcilePending := False, pl_pending := []\<rparr> = drain_start (pl_cache p) p" by simp
  consider "pl_pending p = []" | "pl_pending p \<noteq> []" "dedup_batch (pl_pending p) = []"
    | "pl_pending p \<noteq> []" "dedup_batch (pl_pending p) \<noteq> []" "filtered = []"
    | "pl_pending p \<noteq> []" "dedup_batch (pl_pending p) \<noteq> []" "filtered \<noteq> []" by blast
  then have "pl_applied p' = pl_applied p @ kept \<and> pl_known p' = pl_known p5 \<and> pl_repairing p' = pl_repairing p5
      \<and> pl_refetches p' = pl_refetches p5 \<and> pl_cache p' = (if kept = [] then ec
       else markProcessed now (map (\<lambda>e. se_id (we_event e)) kept) (settle_streams advanced ec))"
  proof cases
    case 1
    then have "dedup_batch (pl_pending p) = []" by (simp add: dedup_batch_def)
    with 1 show ?thesis using assms(1,2) by (auto simp: p'_def onReconcileWsEventsOp_def Let_def)
  next
    case 2
    then show ?thesis using assms(1,2) by (auto simp: p'_def onReconcileWsEventsOp_def Let_def)
  next
    case 3
    then show ?thesis using assms(1,2) by (auto simp: p'_def onReconcileWsEventsOp_def Let_def)
  next
    case 4
    then show ?thesis
      using assms(1,2) p5 by (auto simp: p'_def onReconcileWsEventsOp_def Let_def reconcileFromWsEvents_def)
  qed
  then show "pl_applied p' = pl_applied p @ kept" "pl_known p' = pl_known p5" "pl_repairing p' = pl_repairing p5"
    "pl_refetches p' = pl_refetches p5"
    "pl_cache p' = (if kept = [] then ec
       else markProcessed now (map (\<lambda>e. se_id (we_event e)) kept) (settle_streams advanced ec))" by blast+
qed

text \<open>The row an event is for, and the targets of a batch: each row with the stream of its first event.\<close>

definition entry_row :: "collectionConfig list \<Rightarrow> wsEntry \<Rightarrow> (string \<times> string) option" where
  "entry_row cols en =
    (case (primary_collection cols (entry_stream en), js_member (se_data (we_event en)) ''id'') of
       (Some c, JStr i) \<Rightarrow> Some (col_name c, i) | _ \<Rightarrow> None)"

definition first_for :: "collectionConfig list \<Rightarrow> wsEntry list \<Rightarrow> string \<times> string \<Rightarrow> wsEntry option" where
  "first_for cols entries row = find (\<lambda>en. entry_row cols en = Some row) entries"

lemma batch_targets_step:
  "batch_targets cols (en # entries) targets = batch_targets cols entries (case entry_row cols en of
     Some row \<Rightarrow> if map_has targets row then targets else map_set row (entry_stream en) targets | None \<Rightarrow> targets)"
  by (auto simp: entry_row_def Let_def split: option.split jsval.split)

lemma batch_targets_get:
  "map_wf targets \<Longrightarrow> map_wf (batch_targets cols entries targets) \<and>
   map_get (batch_targets cols entries targets) row = (case map_get targets row of
     Some t \<Rightarrow> Some t | None \<Rightarrow> map_option entry_stream (first_for cols entries row))"
proof (induction entries arbitrary: targets)
  case Nil
  then show ?case by (simp add: first_for_def split: option.split)
next
  case (Cons en entries)
  show ?case
    unfolding batch_targets_step
    using Cons.IH [of "case entry_row cols en of Some row \<Rightarrow>
        if map_has targets row then targets else map_set row (entry_stream en) targets | None \<Rightarrow> targets"] Cons.prems
    by (auto simp: first_for_def map_has_def intro: wf_intros split: option.split)
qed

lemma batch_targets_mem:
  "(row, t) \<in> set (batch_targets cols entries []) \<longleftrightarrow> map_option entry_stream (first_for cols entries row) = Some t"
  using batch_targets_get [OF map_wf_Nil, of cols entries row]
    map_wf_get [of "batch_targets cols entries []" row t] by simp

text \<open>The baseline of a stream, when it is not known, is a revision stored with one of its rows, or none is stored.\<close>

lemma populate_known_get:
  "(map_get known s = Some r \<longrightarrow> map_get (populate_known baseline targets known) s = Some r)
   \<and> (map_get known s = None \<longrightarrow>
      (case map_get (populate_known baseline targets known) s of
         Some r' \<Rightarrow> \<exists>c i. ((c, i), s) \<in> set targets \<and> baseline c i = Some r'
       | None \<Rightarrow> \<forall>c i. ((c, i), s) \<in> set targets \<longrightarrow> baseline c i = None))"
proof (induction targets arbitrary: known r)
  case Nil
  then show ?case by (simp add: populate_known_def)
next
  case (Cons t targets)
  obtain c i s' where t: "t = ((c, i), s')" by (metis prod.collapse)
  define known' where "known' = (if map_has known s' then known
      else (case baseline c i of Some r \<Rightarrow> map_set s' r known | None \<Rightarrow> known))"
  have step: "populate_known baseline (t # targets) known = populate_known baseline targets known'"
    by (simp add: populate_known_def t known'_def)
  have kept: "map_get known s = Some r \<Longrightarrow> map_get known' s = Some r"
    by (auto simp: known'_def map_has_def split: option.splits)
  show ?case
    unfolding step
  proof (intro conjI impI)
    assume "map_get known s = Some r"
    then show "map_get (populate_known baseline targets known') s = Some r" using Cons.IH [of known' r] kept by blast
  next
    assume none: "map_get known s = None"
    show "case map_get (populate_known baseline targets known') s of
         Some r' \<Rightarrow> \<exists>c' i'. ((c', i'), s) \<in> set (t # targets) \<and> baseline c' i' = Some r'
       | None \<Rightarrow> \<forall>c' i'. ((c', i'), s) \<in> set (t # targets) \<longrightarrow> baseline c' i' = None"
    proof (cases "map_get known' s")
      case None
      have "s' = s \<longrightarrow> baseline c i = None"
        using None none by (auto simp: known'_def map_has_def split: option.splits)
      then show ?thesis using Cons.IH [of known'] None by (auto simp: t split: option.splits)
    next
      case (Some x)
      then have "s' = s \<and> baseline c i = Some x" using none by (auto simp: known'_def split: if_splits option.splits)
      moreover have "map_get (populate_known baseline targets known') s = Some x" using Cons.IH [of known' x] Some by blast
      ultimately show ?thesis by (auto simp: t)
    qed
  qed
qed

lemma existing_ids: "i \<in> set (getExistingEventIds ec ids) \<longleftrightarrow> i \<in> set ids \<and> getEvent ec i \<noteq> None"
  by (auto simp: getExistingEventIds_def getExistingCachedEventIds_def getEvent_def getCachedEvent_def map_has_def)

lemma track_all_fields:
  "ec_gapBuffer (fold (\<lambda>(e, keys). fold (\<lambda>k. trackCacheKeyStream k (se_streamId e)) keys) xs c) = ec_gapBuffer c"
  "ec_storage (fold (\<lambda>(e, keys). fold (\<lambda>k. trackCacheKeyStream k (se_streamId e)) keys) xs c) = ec_storage c"
  by (induction xs arbitrary: c) (simp_all add: case_prod_beta)

lemma addKeys_fields [simp]:
  "ec_gapBuffer (ec_addCacheKeysToEvents entries ec) = ec_gapBuffer ec"
  "ec_storage (ec_addCacheKeysToEvents entries ec) =
    addCacheKeysToEvents (map (\<lambda>(e, keys). (se_id e, keys)) entries) (ec_storage ec)"
  by (simp_all add: ec_addCacheKeysToEvents_def track_all_fields)

text \<open>The drain's set-up keeps the new events and buffers the permanent ones among them.\<close>

lemma cache_batch_result:
  assumes inv: "ec_inv ec" and cb: "cache_batch cd entries ec = (filtered, ec')"
  shows "filtered = filter (\<lambda>en. getEvent ec (se_id (we_event en)) = None) entries" and "ec_inv ec'"
    and "buffered (ec_gapBuffer ec') s = buffered (ec_gapBuffer ec) s @
      map (\<lambda>e. (se_revision e, e)) (filter (\<lambda>e. se_streamId e = s) (permanents (map we_event filtered)))"
proof -
  let ?pair = "\<lambda>en. (we_event en, we_cacheKeys en)"
  let ?seen = "filter (\<lambda>en. se_id (we_event en) \<in> set (getExistingEventIds ec (map (\<lambda>e. se_id (we_event e)) entries))) entries"
  let ?ec1 = "ec_addCacheKeysToEvents (map ?pair ?seen) ec"
  have f: "filtered = filter (\<lambda>en. se_id (we_event en) \<notin>
      set (getExistingEventIds ec (map (\<lambda>e. se_id (we_event e)) entries))) entries"
    and ec': "ec' = snd (cacheServerEventsWithKeys cd (map ?pair filtered) ?ec1)"
    using cb by (auto simp: cache_batch_def Let_def)
  show "filtered = filter (\<lambda>en. getEvent ec (se_id (we_event en)) = None) entries"
    unfolding f by (intro filter_cong) (auto simp: existing_ids)
  have inv1: "ec_inv ?ec1" using inv by (simp add: ec_inv_def inv_addEventKeys)
  then show "ec_inv ec'" unfolding ec' by (rule cache_batch_inv)
  show "buffered (ec_gapBuffer ec') s = buffered (ec_gapBuffer ec) s @
      map (\<lambda>e. (se_revision e, e)) (filter (\<lambda>e. se_streamId e = s) (permanents (map we_event filtered)))"
    unfolding ec' using cache_batch_buffered [OF inv1, of cd "map ?pair filtered" s] by (simp add: comp_def)
qed

lemma cache_batch_fresh:
  "cache_batch cd entries ec = (filtered, ec') \<Longrightarrow>
    filtered = filter (\<lambda>en. getEvent ec (se_id (we_event en)) = None) entries"
  by (auto simp: cache_batch_def Let_def existing_ids intro!: filter_cong)

text \<open>What a drain has to look at: the pending events, duplicates merged, that the event cache does not hold.\<close>

definition fresh_entries :: "'c pipeline \<Rightarrow> wsEntry list" where
  "fresh_entries p = filter (\<lambda>en. getEvent (pl_cache p) (se_id (we_event en)) = None) (dedup_batch (pl_pending p))"

text \<open>
  C15: The drain applies the events of a stream in order and once. Whatever batch is pending, the events that a
  drain hands to the reconcile step are among those it has not seen before, and the revisions of those of one
  stream (stateful events apart) are the consecutive ones from the successor of a baseline to the stream's new
  known revision.  The baseline is the known revision; when none is known, it is the revision stored with a row
  of the stream, that is, one whose first event in the batch is an event of this stream, and it is -1 only if no
  revision is stored with any such row.  Nothing that was applied before is touched.
\<close>
theorem drain_in_order:
  fixes cd now baseline cols and p :: "'c pipeline"
  defines "p' \<equiv> onReconcileWsEventsOp cd now baseline cols p"
  shows "\<exists>new b. pl_applied p' = pl_applied p @ new \<and> set new \<subseteq> set (fresh_entries p)
    \<and> map entry_revision (filter (\<lambda>en. \<not> is_stateful en \<and> entry_stream en = s) new) = [b + 1 .. known_revision p' s]
    \<and> b \<le> known_revision p' s
    \<and> (case map_get (pl_known p) s of
         Some r \<Rightarrow> b = r
       | None \<Rightarrow>
           (\<exists>c i en. first_for cols (fresh_entries p) (c, i) = Some en \<and> entry_stream en = s \<and> baseline c i = Some b)
         \<or> b = -1 \<and> (\<forall>c i en. first_for cols (fresh_entries p) (c, i) = Some en \<longrightarrow> entry_stream en = s \<longrightarrow>
             baseline c i = None))"
proof -
  obtain filtered ec where cb: "cache_batch cd (dedup_batch (pl_pending p)) (pl_cache p) = (filtered, ec)"
    by (cases "cache_batch cd (dedup_batch (pl_pending p)) (pl_cache p)")
  define p4 where "p4 = setupWsReconcileBatch baseline cols filtered (drain_start ec p)"
  obtain kept advanced p5 where gp: "gap_pass cols filtered p4 = (kept, advanced, p5)"
    by (cases "gap_pass cols filtered p4") auto
  note D = drain_fields [OF cb gp [unfolded p4_def], where now = now, folded p'_def]
  have fresh: "filtered = fresh_entries p" unfolding fresh_entries_def by (rule cache_batch_fresh [OF cb])
  have known: "known_revision p' s = known_revision p5 s" by (simp add: known_revision_def D)
  have p4: "pl_known p4 = populate_known baseline (batch_targets cols (fresh_entries p) []) (pl_known p)"
    by (simp add: p4_def setupWsReconcileBatch_def fresh)
  have base: "case map_get (pl_known p) s of Some r \<Rightarrow> known_revision p4 s = r
      | None \<Rightarrow>
           (\<exists>c i en. first_for cols (fresh_entries p) (c, i) = Some en \<and> entry_stream en = s \<and>
              baseline c i = Some (known_revision p4 s))
         \<or> known_revision p4 s = -1 \<and> (\<forall>c i en. first_for cols (fresh_entries p) (c, i) = Some en \<longrightarrow>
             entry_stream en = s \<longrightarrow> baseline c i = None)"
  proof (cases "map_get (pl_known p) s")
    case None
    then have "case map_get (pl_known p4) s of
         Some r' \<Rightarrow> \<exists>c i. ((c, i), s) \<in> set (batch_targets cols (fresh_entries p) []) \<and> baseline c i = Some r'
       | None \<Rightarrow> \<forall>c i. ((c, i), s) \<in> set (batch_targets cols (fresh_entries p) []) \<longrightarrow> baseline c i = None"
      using populate_known_get [of "pl_known p" s] by (simp add: p4)
    then show ?thesis
      by (cases "map_get (pl_known p4) s") (auto simp: known_revision_def None batch_targets_mem)
  next
    case (Some r)
    then have "map_get (pl_known p4) s = Some r"
      using populate_known_get [of "pl_known p" s r] by (simp add: p4)
    then show ?thesis by (simp add: known_revision_def Some)
  qed
  show ?thesis
    using D(1) gap_pass_runs(1,4) [OF gp, of s] gap_pass_runs(3) [OF gp] base
    by (intro exI [of _ kept] exI [of _ "known_revision p4 s"]) (simp add: known fresh)
qed

definition notes_collection :: collectionConfig where
  "notes_collection = \<lparr>col_name = ''notes'', col_matchesStream = (\<lambda>s. True), col_fetchStreamEvents = True\<rparr>"

definition no_rows :: "string \<Rightarrow> string \<Rightarrow> int option" where
  "no_rows c i = None"

definition arrived :: "serverEvent list \<Rightarrow> nat pipeline" where
  "arrived es = fold (\<lambda>e. handleNewWsEvent e [''k'']) es (new_pipeline empty_cache)"

text \<open>A row stored at revision 4, whose next two events arrive in the wrong order.\<close>

definition one_row :: "string \<Rightarrow> string \<Rightarrow> int option" where
  "one_row c i = (if (c, i) = (''notes'', ''n1'') then Some 4 else None)"

theorem drain_in_order_witness:
  "\<exists>new. pl_applied (onReconcileWsEventsOp plain_codec 9 one_row [notes_collection]
        (arrived [sample_server_event ''e6'' ''s'' 6, sample_server_event ''e5'' ''s'' 5])) = new
    \<and> map entry_revision (filter (\<lambda>en. \<not> is_stateful en \<and> entry_stream en = ''s'') new) = [5, 6]"
proof -
  let ?p = "arrived [sample_server_event ''e6'' ''s'' 6, sample_server_event ''e5'' ''s'' 5]"
  have known: "pl_known ?p = []" "pl_applied ?p = []" by code_simp+
  have end': "known_revision (onReconcileWsEventsOp plain_codec 9 one_row [notes_collection] ?p) ''s'' = 6" by code_simp
  have first: "map_option entry_stream (first_for [notes_collection] (fresh_entries ?p) (''notes'', ''n1'')) = Some ''s''"
    by code_simp
  obtain new b where new: "pl_applied (onReconcileWsEventsOp plain_codec 9 one_row [notes_collection] ?p) = new"
    "map entry_revision (filter (\<lambda>en. \<not> is_stateful en \<and> entry_stream en = ''s'') new) = [b + 1 .. 6]"
    and b: "(\<exists>c i. one_row c i = Some b) \<or> (\<forall>c i en. first_for [notes_collection] (fresh_entries ?p) (c, i) = Some en \<longrightarrow>
        entry_stream en = ''s'' \<longrightarrow> one_row c i = None)"
    using drain_in_order [where p = ?p and cd = plain_codec and now = 9 and baseline = one_row
        and cols = "[notes_collection]" and s = "''s''"] by (auto simp: known end')
  have "b = 4" using b first by (auto simp: one_row_def split: if_splits)
  then have "[b + 1 .. 6] = [5, 6]" by (simp add: upto.simps)
  with new show ?thesis by auto
qed

lemma merge_entries_get:
  "map_wf m \<Longrightarrow> map_wf (fold merge_entry es m)
    \<and> (map_has (fold merge_entry es m) k \<longleftrightarrow> map_has m k \<or> k \<in> (\<lambda>en. se_id (we_event en)) ` set es)
    \<and> (map_get (fold merge_entry es m) k = Some u \<longrightarrow>
        (\<exists>en \<in> set es. we_event u = we_event en \<and> se_id (we_event en) = k)
        \<or> (\<exists>v. map_get m k = Some v \<and> we_event u = we_event v))"
proof (induction es arbitrary: m)
  case Nil
  then show ?case by auto
next
  case (Cons e es)
  let ?m = "merge_entry e m"
  have wf: "map_wf ?m" using Cons.prems by (simp add: merge_entry_def split: option.split)
  have has: "map_has ?m k \<longleftrightarrow> map_has m k \<or> k = se_id (we_event e)"
    by (auto simp: merge_entry_def split: option.split)
  have got: "map_get ?m k = Some v \<Longrightarrow> (we_event v = we_event e \<and> se_id (we_event e) = k) \<or>
      (\<exists>v'. map_get m k = Some v' \<and> we_event v = we_event v')" for v
    by (auto simp: merge_entry_def split: option.splits if_splits)
  show ?case
    using Cons.IH [OF wf] has got by (auto simp: fold_simps)
qed

lemma dedup_batch_mem:
  assumes "en \<in> set batch" "we_cacheKeys en \<noteq> []"
    and same: "\<forall>a \<in> set batch. \<forall>b \<in> set batch. se_id (we_event a) = se_id (we_event b) \<longrightarrow> we_event a = we_event b"
  shows "\<exists>u \<in> set (dedup_batch batch). we_event u = we_event en"
proof -
  let ?es = "filter (\<lambda>e. we_cacheKeys e \<noteq> []) batch" and ?k = "se_id (we_event en)"
  note M = merge_entries_get [OF map_wf_Nil, of ?es ?k]
  have "map_has (fold merge_entry ?es []) ?k" using M assms(1,2) by simp
  then obtain u where u: "map_get (fold merge_entry ?es []) ?k = Some u" by (auto simp: map_has_def)
  with M [of u] obtain e' where e': "e' \<in> set ?es" "we_event u = we_event e'" "se_id (we_event e') = ?k" by auto
  then have "we_event u = we_event en" using same assms(1) by auto
  moreover have "u \<in> set (dedup_batch batch)"
    using map_of_SomeD [OF u] by (force simp: dedup_batch_def)
  ultimately show ?thesis by blast
qed

lemma settle_buffered:
  assumes "gapBuffer_inv (ec_gapBuffer ec)" "x \<in> set (buffered (ec_gapBuffer ec) s)"
    and "\<And>r. (s, r) \<in> set advanced \<Longrightarrow> r < fst x"
  shows "x \<in> set (buffered (ec_gapBuffer (settle_streams advanced ec)) s)"
  using assms
proof (induction advanced arbitrary: ec)
  case (Cons a advanced)
  obtain t r where a: "a = (t, r)" by (cases a)
  let ?ec = "ec_setKnownPosition t r (clearGapBuffer (Some t) (Some r) ec)"
  have gb: "ec_gapBuffer ?ec = setKnownPosition t r (clearUpTo t r (ec_gapBuffer ec))"
    by (simp add: ec_setKnownPosition_def clearGapBuffer_def)
  have "gapBuffer_inv (ec_gapBuffer ?ec)" using gap_buf.inv_clear_to [OF Cons.prems(1)] by (simp add: gb)
  moreover have "x \<in> set (buffered (ec_gapBuffer ?ec) s)"
    using Cons.prems(2,3) gap_buf.contents_clear_to [OF Cons.prems(1), of t r s]
    by (auto simp: gb setKnownPosition_def a split: if_splits)
  ultimately have "x \<in> set (buffered (ec_gapBuffer (settle_streams advanced ?ec)) s)"
    by (rule Cons.IH) (use Cons.prems(3) a in auto)
  then show ?case by (simp add: settle_streams_def a)
qed (simp add: settle_streams_def)

lemma markProcessed_gapBuffer [simp]: "ec_gapBuffer (markProcessed now ids ec) = ec_gapBuffer ec"
  by (simp add: markProcessed_def)

text \<open>
  C16: The drain loses no event. Take an event that is pending under some cache key on a well-formed
  cache, not cached before, of a stream that a collection declares, in a batch where an id names one
  event.  After the drain, a stateful event is among the events handed on; any other event is at or
  below the known revision of its stream, or a repair of that stream is under way or a refetch of a
  declaring collection is scheduled, and then, if it is permanent, it waits in the gap buffer of the
  stream at its revision.
\<close>
theorem drain_loses_nothing:
  fixes cd now baseline cols and p :: "'c pipeline"
  defines "p' \<equiv> onReconcileWsEventsOp cd now baseline cols p"
  assumes inv: "ec_inv (pl_cache p)" and en: "en \<in> set (pl_pending p)" "we_cacheKeys en \<noteq> []"
    and same: "\<forall>a \<in> set (pl_pending p). \<forall>b \<in> set (pl_pending p).
      se_id (we_event a) = se_id (we_event b) \<longrightarrow> we_event a = we_event b"
    and fresh: "getEvent (pl_cache p) (se_id (we_event en)) = None"
    and col: "c \<in> set cols" "col_matchesStream c (entry_stream en)"
  shows "if is_stateful en then (\<exists>u \<in> set (drop (length (pl_applied p)) (pl_applied p')). we_event u = we_event en)
    else entry_revision en \<le> known_revision p' (entry_stream en)
      \<or> awaited cols p' (entry_stream en)
        \<and> (normalizeEventPersistence (we_event en) = PermanentEvent \<longrightarrow>
            (entry_revision en, we_event en) \<in> set (getBufferedEvents (pl_cache p') (entry_stream en)))"
proof -
  obtain filtered ec where cb: "cache_batch cd (dedup_batch (pl_pending p)) (pl_cache p) = (filtered, ec)"
    by (cases "cache_batch cd (dedup_batch (pl_pending p)) (pl_cache p)")
  define p4 where "p4 = setupWsReconcileBatch baseline cols filtered (drain_start ec p)"
  obtain kept advanced p5 where gp: "gap_pass cols filtered p4 = (kept, advanced, p5)"
    by (cases "gap_pass cols filtered p4") auto
  note D = drain_fields [OF cb gp [unfolded p4_def], where now = now, folded p'_def]
  note CB = cache_batch_result [OF inv cb] and G = gap_pass_runs [OF gp]
  let ?s = "entry_stream en"
  have known: "known_revision p' t = known_revision p5 t" for t by (simp add: known_revision_def D)
  obtain u where u: "u \<in> set (dedup_batch (pl_pending p))" "we_event u = we_event en"
    using dedup_batch_mem [OF en same] by blast
  then have uf: "u \<in> set filtered" using fresh by (simp add: CB(1))
  have st: "is_stateful u = is_stateful en" by (simp add: is_stateful_def u(2))
  show ?thesis
  proof (cases "is_stateful en")
    case True
    then have "u \<in> set (filter is_stateful kept)" using uf st G(2) by simp
    then have "u \<in> set (drop (length (pl_applied p)) (pl_applied p'))" by (simp add: D(1))
    with True u(2) show ?thesis by auto
  next
    case False
    have "entry_revision en \<le> known_revision p' ?s \<or> awaited cols p' ?s"
      using G(5) [OF uf] False st col by (simp add: u(2) known awaited_def D(3,4))
    moreover have "(entry_revision en, we_event en) \<in> set (getBufferedEvents (pl_cache p') ?s)"
      if beyond: "\<not> entry_revision en \<le> known_revision p' ?s" and perm: "normalizeEventPersistence (we_event en) = PermanentEvent"
    proof -
      have "we_event en \<in> set (permanents (map we_event filtered))" using imageI [OF uf, of we_event] u(2) perm by (simp add: permanents_def)
      then have b: "(entry_revision en, we_event en) \<in> set (buffered (ec_gapBuffer ec) ?s)"
        by (auto simp: CB(3))
      have "r < entry_revision en" if "(?s, r) \<in> set advanced" for r
        using G(6) [of ?s r] that gap_pass_result(2) [OF gp] beyond by (simp add: map_wf_get [symmetric] known)
      then have "(entry_revision en, we_event en) \<in> set (buffered (ec_gapBuffer (settle_streams advanced ec)) ?s)"
        using CB(2) b by (intro settle_buffered) (simp_all add: ec_inv_def)
      with b show ?thesis by (simp add: D(5) getBufferedEvents_def getEvents_def)
    qed
    ultimately show ?thesis using False by auto
  qed
qed

theorem drain_loses_nothing_witness:
  "(4, sample_server_event ''e1'' ''s'' 4) \<in> set (getBufferedEvents (pl_cache
    (onReconcileWsEventsOp plain_codec 9 no_rows [notes_collection] (arrived [sample_server_event ''e1'' ''s'' 4]))) ''s'')"
proof -
  let ?p = "arrived [sample_server_event ''e1'' ''s'' 4]"
  let ?en = "\<lparr>we_event = sample_server_event ''e1'' ''s'' 4, we_cacheKeys = [''k'']\<rparr>"
  have p: "pl_cache ?p = empty_cache" "pl_pending ?p = [?en]"
    by (simp_all add: arrived_def handleNewWsEvent_def scheduleWsReconcile_def new_pipeline_def)
  have "known_revision (onReconcileWsEventsOp plain_codec 9 no_rows [notes_collection] ?p) ''s'' = -1" by code_simp
  moreover have "\<not> is_stateful ?en" by (simp add: is_stateful_def)
  ultimately show ?thesis
    using drain_loses_nothing [where p = ?p and en = ?en and c = notes_collection and cols = "[notes_collection]"
        and cd = plain_codec and now = 9 and baseline = no_rows]
    by (simp add: p notes_collection_def)
qed

section \<open>Repairs\<close>

text \<open>
  C34: What a repair applies. On a well-formed cache the repair of a stream hands to the reconcile step
  everything in the stream's gap buffer together with every fetched permanent event of the stream, in
  revision order and under the cache keys of the operation; the buffer is then empty, the stream may
  be repaired again, and its known revision is the highest one handed over, whatever it was before.
  If there is nothing to apply the known revisions stay.
\<close>
theorem gap_repair_spec:
  fixes cd baseline cols s keys es and p :: "'c pipeline"
  defines "p' \<equiv> onApplyGapRepair cd baseline cols s keys es p"
    and "xs \<equiv> map snd (buffered (ec_gapBuffer (pl_cache p)) s) @ filter (\<lambda>e. se_streamId e = s) (permanents es)"
  assumes inv: "ec_inv (pl_cache p)"
    and at: "\<forall>(q, e) \<in> set (buffered (ec_gapBuffer (pl_cache p)) s). q = se_revision e"
  shows "pl_applied p' = pl_applied p @ map (\<lambda>e. \<lparr>we_event = e, we_cacheKeys = keys\<rparr>) (sort_key se_revision xs)
    \<and> getBufferedEvents (pl_cache p') s = []
    \<and> s \<notin> set (pl_repairing p')
    \<and> (if xs = [] then pl_known p' = pl_known p else known_revision p' s = Max (se_revision ` set xs))"
proof -
  let ?ec = "snd (cacheServerEventsWithKeys cd (map (\<lambda>e. (e, keys)) es) (pl_cache p))"
  let ?p1 = "p\<lparr>pl_cache := ?ec\<rparr>"
  let ?buf = "map (\<lambda>e. (se_revision e, e)) (sort_key se_revision xs)"
  have inv1: "ec_inv ?ec" by (rule cache_batch_inv [OF inv])
  have "buffered (ec_gapBuffer ?ec) s = map (\<lambda>e. (se_revision e, e)) xs"
    using map_snd_pair [of "buffered (ec_gapBuffer (pl_cache p)) s" se_revision, OF at]
    by (simp add: cache_batch_buffered [OF inv] xs_def comp_def)
  then have buf: "buffered (ec_gapBuffer ?ec) s = map (\<lambda>e. (se_revision e, e)) xs"
    "getBufferedEvents ?ec s = ?buf"
    by (simp_all add: getBufferedEvents_def getEvents_def sort_key_map_pair)
  show ?thesis
  proof (cases "xs = []")
    case True
    then show ?thesis using buf by (simp add: p'_def onApplyGapRepair_def Let_def)
  next
    case False
    let ?last = "last (sort_key se_revision xs)"
    note max = last_sort_key [OF False, where f = se_revision]
    have ne: "sort_key se_revision xs \<noteq> []" using False by (metis length_0_conv length_sort)
    let ?gb = "clearUpTo s (se_revision ?last) (ec_gapBuffer ?ec)"
    have "buffered ?gb s = []"
      using inv1 max(2) by (intro gap_buf.drained) (auto simp: ec_inv_def buf(1))
    then have "getBufferedEvents (pl_cache p') s = []"
      using ne buf(2) by (simp add: p'_def onApplyGapRepair_def Let_def last_map getBufferedEvents_def getEvents_def
          ec_setKnownPosition_def clearGapBuffer_def setKnownPosition_def reconcileFromWsEvents_def
          setupWsReconcileBatch_def)
    moreover have "pl_applied p' = pl_applied p @ map (\<lambda>e. \<lparr>we_event = e, we_cacheKeys = keys\<rparr>) (sort_key se_revision xs)"
      using ne buf(2) by (simp add: p'_def onApplyGapRepair_def Let_def last_map reconcileFromWsEvents_def
          setupWsReconcileBatch_def comp_def)
    moreover have "known_revision p' s = se_revision ?last" "s \<notin> set (pl_repairing p')"
      using ne buf(2) by (simp_all add: p'_def onApplyGapRepair_def Let_def last_map known_revision_def)
    ultimately show ?thesis using False max(1) by simp
  qed
qed

theorem gap_repair_spec_witness:
  "map we_event (pl_applied (onApplyGapRepair plain_codec no_rows [notes_collection] ''s'' [''k'']
      [sample_server_event ''e1'' ''s'' 1, sample_server_event ''e0'' ''s'' 0] (new_pipeline empty_cache))) =
    [sample_server_event ''e0'' ''s'' 0, sample_server_event ''e1'' ''s'' 1]"
  using gap_repair_spec [where p = "new_pipeline empty_cache" and cd = plain_codec and baseline = no_rows
      and cols = "[notes_collection]" and s = "''s''" and keys = "[''k'']"
      and es = "[sample_server_event ''e1'' ''s'' 1, sample_server_event ''e0'' ''s'' 0]"]
  by (simp add: new_pipeline_def)

text \<open>
  A repaired event is applied twice. An event that waits in the gap buffer because it arrived
  ahead of its turn is fetched again by the repair, which asks for everything after the last known
  revision, and caching what was fetched appends it to the same buffer: when the fetch returns an
  event that waits, the repair hands that event to the reconcile step at least twice.
\<close>
theorem gap_repair_applies_twice:
  fixes cd baseline cols s keys es and p :: "'c pipeline"
  defines "p' \<equiv> onApplyGapRepair cd baseline cols s keys es p"
  assumes inv: "ec_inv (pl_cache p)"
    and at: "\<forall>(q, e) \<in> set (buffered (ec_gapBuffer (pl_cache p)) s). q = se_revision e"
    and waiting: "e \<in> snd ` set (getBufferedEvents (pl_cache p) s)"
    and fetched: "e \<in> set es" "se_streamId e = s" "normalizeEventPersistence e = PermanentEvent"
  shows "2 \<le> count_list (map we_event (drop (length (pl_applied p)) (pl_applied p'))) e"
proof -
  let ?old = "map snd (buffered (ec_gapBuffer (pl_cache p)) s)"
  let ?new = "filter (\<lambda>e. se_streamId e = s) (permanents es)"
  have "e \<in> set ?old" using waiting by (auto simp: getBufferedEvents_def getEvents_def)
  then have "1 \<le> count_list ?old e" by (metis One_nat_def Suc_leI count_list_0_iff gr0I)
  moreover have "e \<in> set ?new" using fetched by (simp add: permanents_def)
  then have "1 \<le> count_list ?new e" by (metis One_nat_def Suc_leI count_list_0_iff gr0I)
  moreover have "count_list (sort_key se_revision (?old @ ?new)) e = count_list ?old e + count_list ?new e"
    by (metis mset_append mset_sort count_mset count_union)
  moreover have "map we_event (drop (length (pl_applied p)) (pl_applied p')) = sort_key se_revision (?old @ ?new)"
    using gap_repair_spec [OF inv at, of cd baseline cols keys es] by (simp add: p'_def comp_def)
  ultimately show ?thesis by simp
qed

definition waiting_event :: "nat pipeline" where
  "waiting_event = new_pipeline (snd (cacheServerEventsWithKeys plain_codec
     [(sample_server_event ''e1'' ''s'' 1, [''k''])] empty_cache))"

theorem gap_repair_applies_twice_witness:
  "2 \<le> count_list (map we_event (pl_applied (onApplyGapRepair plain_codec no_rows [notes_collection] ''s'' [''k'']
     [sample_server_event ''e0'' ''s'' 0, sample_server_event ''e1'' ''s'' 1] waiting_event)))
     (sample_server_event ''e1'' ''s'' 1)"
proof -
  have inv: "ec_inv (pl_cache waiting_event)"
    by (simp add: waiting_event_def new_pipeline_def cache_batch_inv)
  have buf: "buffered (ec_gapBuffer (pl_cache waiting_event)) ''s'' = [(1, sample_server_event ''e1'' ''s'' 1)]"
    by (simp add: waiting_event_def new_pipeline_def cache_batch_buffered permanents_def sample_server_event_def
        normalizeEventPersistence_def)
  have applied: "pl_applied waiting_event = []"
    by (simp add: waiting_event_def new_pipeline_def)
  have ev: "se_revision (sample_server_event i s r) = r" "se_streamId (sample_server_event i s r) = s"
    "normalizeEventPersistence (sample_server_event i s r) = PermanentEvent" for i s r
    by (simp_all add: sample_server_event_def normalizeEventPersistence_def)
  show ?thesis
    using gap_repair_applies_twice [where p = waiting_event and cd = plain_codec and baseline = no_rows
        and cols = "[notes_collection]" and s = "''s''" and keys = "[''k'']" and e = "sample_server_event ''e1'' ''s'' 1"
        and es = "[sample_server_event ''e0'' ''s'' 0, sample_server_event ''e1'' ''s'' 1]", OF inv]
    unfolding applied by (simp add: buf getBufferedEvents_def getEvents_def ev)
qed

text \<open>The drain keeps the cache well-formed and every buffered event at its own revision.\<close>

definition buffer_inv :: "'c eventCache \<Rightarrow> bool" where
  "buffer_inv ec \<longleftrightarrow> ec_inv ec \<and>
    (\<forall>s. \<forall>(q, e) \<in> set (buffered (ec_gapBuffer ec) s). q = se_revision e \<and> se_streamId e = s)"

lemma buffer_inv_new [simp]: "buffer_inv empty_cache"
  by (simp add: buffer_inv_def)

lemma buffer_inv_cong:
  "storage_inv (ec_storage ec') \<Longrightarrow> ec_gapBuffer ec' = ec_gapBuffer ec \<Longrightarrow> buffer_inv ec \<Longrightarrow> buffer_inv ec'"
  by (simp add: buffer_inv_def ec_inv_def)

lemma buffer_inv_sub:
  assumes "buffer_inv ec" "gapBuffer_inv gb" "\<And>s. set (buffered gb s) \<subseteq> set (buffered (ec_gapBuffer ec) s)"
  shows "buffer_inv (ec\<lparr>ec_gapBuffer := gb\<rparr>)"
  using assms by (force simp: buffer_inv_def ec_inv_def)

lemma buffer_inv_cacheServer:
  assumes "buffer_inv ec"
  shows "buffer_inv (snd (cacheServerEventsWithKeys cd entries ec))"
proof -
  have inv: "ec_inv ec" using assms by (simp add: buffer_inv_def)
  then show ?thesis
    using assms cache_batch_inv [OF inv] by (auto simp: buffer_inv_def cache_batch_buffered [OF inv] permanents_def)
qed

lemma buffer_inv_addKeys: "buffer_inv ec \<Longrightarrow> buffer_inv (ec_addCacheKeysToEvents entries ec)"
  by (rule buffer_inv_cong) (simp_all add: buffer_inv_def ec_inv_def inv_addEventKeys)

lemma buffer_inv_cache_batch: "buffer_inv ec \<Longrightarrow> buffer_inv (snd (cache_batch cd entries ec))"
  by (simp add: cache_batch_def Let_def buffer_inv_cacheServer buffer_inv_addKeys)

lemma buffer_inv_mark: "buffer_inv ec \<Longrightarrow> buffer_inv (markProcessed now ids ec)"
  by (rule buffer_inv_cong [of _ ec])
    (auto simp: buffer_inv_def ec_inv_def markProcessed_def markCachedEventsProcessed_def intro!: inv_fold inv_mark)

lemma buffer_inv_settle_one:
  assumes "buffer_inv ec"
  shows "buffer_inv (ec_setKnownPosition s r (clearGapBuffer (Some s) (Some r) ec))"
proof -
  have gb: "gapBuffer_inv (ec_gapBuffer ec)" using assms by (simp add: buffer_inv_def ec_inv_def)
  have "ec_setKnownPosition s r (clearGapBuffer (Some s) (Some r) ec) =
      ec\<lparr>ec_gapBuffer := setKnownPosition s r (clearUpTo s r (ec_gapBuffer ec))\<rparr>"
    by (simp add: ec_setKnownPosition_def clearGapBuffer_def)
  moreover have "set (buffered (setKnownPosition s r (clearUpTo s r (ec_gapBuffer ec))) t) \<subseteq>
      set (buffered (ec_gapBuffer ec) t)" for t
    using gap_buf.contents_clear_to [OF gb, of s r t] by (auto simp: setKnownPosition_def)
  ultimately show ?thesis
    using buffer_inv_sub [OF assms] gap_buf.inv_clear_to [OF gb] by simp
qed

lemma buffer_inv_settle: "buffer_inv ec \<Longrightarrow> buffer_inv (settle_streams advanced ec)"
  unfolding settle_streams_def by (rule fold_invariant) (auto intro: buffer_inv_settle_one)

lemma buffer_inv_clearByCacheKey:
  assumes "buffer_inv ec"
  shows "buffer_inv (snd (clearByCacheKey k ec))"
proof -
  have "ec_inv ec" using assms by (simp add: buffer_inv_def)
  from clear_by_cache_key_parts [OF this] show ?thesis
    using assms by (auto simp: buffer_inv_def split: if_splits)
qed

end
