(* ===== verification/PipelineSteps.thy ===== *)
theory PipelineSteps
  imports WsPipeline
begin

text \<open>
  The event pipeline of theory \<open>WsPipeline\<close> over several sessions: the steps it takes, the end of a session
  (\<open>WriteQueue.resetSession\<close>, whose handler is \<open>SyncManager.onSessionDestroyed\<close>) included, the invariant they
  keep, and what the end of a session leaves behind.
\<close>

section \<open>The end of a session\<close>

text \<open>What the write queue's eviction handlers do to the pipeline.\<close>

fun evict_op :: "pipelineOp \<Rightarrow> 'c pipeline \<Rightarrow> 'c pipeline" where
  "evict_op ReconcileWsEvents p = p\<lparr>pl_wsReconcilePending := False\<rparr>"
| "evict_op (ApplyGapRepair streamId _ _) p = onApplyGapRepairEviction streamId p"

text \<open>
  A reset discards the operations and closes the queue; when the running operation has settled, its handler
  clears the session, first at once, then, after waiting for the command queue, the storage and the event cache;
  then the queue is open again.  \<open>keys\<close> are the registered cache keys, which the cache manager deletes with
  their data.
\<close>

definition pl_beginReset :: "'c pipeline \<Rightarrow> 'c pipeline" where
  "pl_beginReset p = (fold evict_op (pl_ops p) (p\<lparr>pl_ops := []\<rparr>))\<lparr>pl_queue := Discarding\<rparr>"

definition pl_beginWipe :: "'c pipeline \<Rightarrow> 'c pipeline" where
  "pl_beginWipe p = (repair_reset (p\<lparr>pl_known := []\<rparr>))\<lparr>pl_refetches := [], pl_queue := Wiping\<rparr>"

definition pl_endWipe :: "string list \<Rightarrow> 'c pipeline \<Rightarrow> 'c pipeline" where
  "pl_endWipe keys p =
    (let ec = (pl_cache p)\<lparr>ec_storage := deleteCacheKeys keys (ec_storage (pl_cache p))\<rparr>
     in p\<lparr>pl_cache := clearGapBuffer None None ec, pl_queue := Accepting\<rparr>)"

definition pl_onSessionDestroyed :: "string list \<Rightarrow> 'c pipeline \<Rightarrow> 'c pipeline" where
  "pl_onSessionDestroyed keys p = pl_endWipe keys (pl_beginWipe p)"

definition pl_resetSession :: "string list \<Rightarrow> 'c pipeline \<Rightarrow> 'c pipeline" where
  "pl_resetSession keys p = pl_onSessionDestroyed keys (pl_beginReset p)"

section \<open>Other operations that touch the pipeline\<close>

text \<open>The part of \<open>onEvictCacheKey\<close> and of \<open>onApplyRecords\<close> that concerns the pipeline.\<close>

definition pl_onEvictCacheKey :: "string \<Rightarrow> 'c pipeline \<Rightarrow> 'c pipeline" where
  "pl_onEvictCacheKey key p =
    (case clearByCacheKey key (pl_cache p) of (streamIds, ec) \<Rightarrow>
      p\<lparr>pl_cache := ec, pl_known := fold map_delete streamIds (pl_known p)\<rparr>)"

definition pl_noteRevision :: "string \<Rightarrow> int \<Rightarrow> 'c pipeline \<Rightarrow> 'c pipeline" where
  "pl_noteRevision streamId revision p =
    (if (case map_get (pl_known p) streamId of None \<Rightarrow> True | Some current \<Rightarrow> revision > current)
     then p\<lparr>pl_known := map_set streamId revision (pl_known p),
            pl_cache := ec_setKnownPosition streamId revision (pl_cache p)\<rparr>
     else p)"

section \<open>Steps and their invariant\<close>

text \<open>
  Everything that happens to the pipeline.  While it is open the write queue runs an operation that was put on it;
  events and answers arrive whether it is open or not, over the WebSocket until the wipe has closed it; a fetch
  in flight ends one way or the other at any time; a session ends in the three stretches above, or its handler
  throws and the queue opens again.  The end of the queue itself (\<open>destroy\<close>) is no step: nothing runs after it.
  Nor is an operation that throws.
\<close>

inductive pipeline_step :: "collectionConfig list \<Rightarrow> 'c pipeline \<Rightarrow> 'c pipeline \<Rightarrow> bool"
  for cols :: "collectionConfig list" where
  arrive: "pl_queue p \<noteq> Wiping \<Longrightarrow> pipeline_step cols p (handleNewWsEvent e keys p)"
| response: "pipeline_step cols p (handleCommandResponseEvents known_key es key p)"
| drain: "pl_queue p = Accepting \<Longrightarrow> ReconcileWsEvents \<in> set (pl_ops p) \<Longrightarrow>
    pipeline_step cols p (onReconcileWsEventsOp cd now baseline cols (p\<lparr>pl_ops := remove1 ReconcileWsEvents (pl_ops p)\<rparr>))"
| repair: "pl_queue p = Accepting \<Longrightarrow> ApplyGapRepair s keys es \<in> set (pl_ops p) \<Longrightarrow>
    pipeline_step cols p (onApplyGapRepair cd baseline cols s keys es
      (p\<lparr>pl_ops := remove1 (ApplyGapRepair s keys es) (pl_ops p)\<rparr>))"
| fetched: "rf \<in> set (pl_fetches p) \<Longrightarrow> pipeline_step cols p (repair_fetched rf es p)"
| fetch_failed: "rf \<in> set (pl_fetches p) \<Longrightarrow> pipeline_step cols p (repair_failed rf p)"
| seed: "pl_queue p = Accepting \<Longrightarrow> pipeline_step cols p (onApplySeedEvents cd now baseline cols key es p)"
| records: "pl_queue p = Accepting \<Longrightarrow> pipeline_step cols p (fold (\<lambda>(s, r). pl_noteRevision s r) revisions p)"
| restore: "pipeline_step cols p (restoreKnownRevisions entries p)"
| evict_key: "pl_queue p = Accepting \<Longrightarrow> pipeline_step cols p (pl_onEvictCacheKey key p)"
| begin_reset: "pl_queue p = Accepting \<Longrightarrow> pipeline_step cols p (pl_beginReset p)"
| begin_wipe: "pl_queue p = Discarding \<Longrightarrow> pipeline_step cols p (pl_beginWipe p)"
| end_wipe: "pl_queue p = Wiping \<Longrightarrow> pipeline_step cols p (pl_endWipe keys p)"
| wipe_fails: "pl_queue p = Wiping \<Longrightarrow> pipeline_step cols p (p\<lparr>pl_queue := Accepting\<rparr>)"

text \<open>
  At most one drain is queued, and then the flag is set; the queue is empty while it is closed.  The converse, that
  the flag and pending events have their drain queued, needs that no event is left while the queue is closed.
\<close>

definition scheduled :: "'c pipeline \<Rightarrow> bool" where
  "scheduled p \<longleftrightarrow> (ReconcileWsEvents \<in> set (pl_ops p) \<longrightarrow> pl_wsReconcilePending p) \<and>
    count_list (pl_ops p) ReconcileWsEvents \<le> 1"

definition prompt :: "'c pipeline \<Rightarrow> bool" where
  "prompt p \<longleftrightarrow> (pl_wsReconcilePending p \<longrightarrow> ReconcileWsEvents \<in> set (pl_ops p)) \<and>
    (pl_pending p \<noteq> [] \<longrightarrow> pl_wsReconcilePending p)"

definition repair_under_way :: "'c pipeline \<Rightarrow> string \<Rightarrow> bool" where
  "repair_under_way p s \<longleftrightarrow> s \<in> rf_streamId ` set (pl_fetches p) \<or>
    (\<exists>keys es. ApplyGapRepair s keys es \<in> set (pl_ops p))"

definition pipeline_inv :: "'c pipeline \<Rightarrow> bool" where
  "pipeline_inv p \<longleftrightarrow> buffer_inv (pl_cache p) \<and> scheduled p \<and>
    (pl_queue p = Accepting \<longrightarrow> (\<forall>s \<in> set (pl_repairing p). repair_under_way p s)) \<and>
    (pl_queue p \<noteq> Accepting \<longrightarrow> pl_ops p = []) \<and> (pl_queue p = Wiping \<longrightarrow> pl_repairing p = [])"

lemma walk_stream_ops:
  "walk_stream cols s entries kept advanced p = (kept', advanced', p') \<Longrightarrow>
    pl_ops p' = pl_ops p \<and> pl_pending p' = pl_pending p \<and> pl_wsReconcilePending p' = pl_wsReconcilePending p \<and>
    pl_queue p' = pl_queue p \<and> ((\<forall>t \<in> set (pl_repairing p). repair_under_way p t) \<longrightarrow> (\<forall>t \<in> set (pl_repairing p'). repair_under_way p' t))"
proof (induction cols s entries kept advanced p rule: walk_stream.induct)
  case (2 cols s en entries kept advanced p)
  show ?case
  proof (cases "filter (\<lambda>c. col_matchesStream c (entry_stream en)) cols")
    case Nil
    with 2 show ?thesis by (simp add: Let_def)
  next
    case (Cons c cs)
    obtain status p1 where st: "checkAndRepairGap cols (we_event en) (col_name c) (we_cacheKeys en) p = (status, p1)"
      by (cases "checkAndRepairGap cols (we_event en) (col_name c) (we_cacheKeys en) p")
    have p1: "pl_ops p1 = pl_ops p \<and> pl_pending p1 = pl_pending p \<and> pl_wsReconcilePending p1 = pl_wsReconcilePending p \<and>
      pl_queue p1 = pl_queue p \<and> ((\<forall>t \<in> set (pl_repairing p). repair_under_way p t) \<longrightarrow> (\<forall>t \<in> set (pl_repairing p1). repair_under_way p1 t))"
      using st by (auto simp: checkAndRepairGap_def Let_def repairStreamGap_def repair_under_way_def
          split: if_splits option.splits) blast
    note IH = "2.IH"(2,3) [OF refl refl Cons st [symmetric] refl]
    have under: "repair_under_way (q\<lparr>pl_known := m\<rparr>) t = repair_under_way q t"
      "repair_under_way (q\<lparr>pl_refetches := r\<rparr>) t = repair_under_way q t" for q :: "'a pipeline" and m r t
      by (simp_all add: repair_under_way_def)
    show ?thesis
      using 2(4) Cons st p1 IH by (cases status) (auto simp: Let_def under)
  qed
qed simp

lemma gap_pass_ops:
  assumes "gap_pass cols entries p = (kept, advanced, p')"
  shows "pl_ops p' = pl_ops p \<and> pl_pending p' = pl_pending p \<and> pl_wsReconcilePending p' = pl_wsReconcilePending p \<and>
    pl_queue p' = pl_queue p \<and> ((\<forall>t \<in> set (pl_repairing p). repair_under_way p t) \<longrightarrow> (\<forall>t \<in> set (pl_repairing p'). repair_under_way p' t))"
proof -
  have "fold (\<lambda>(s, es) (kept, advanced, p'). walk_stream cols s (js_sort revision_compare es) kept advanced p')
      bs (kept0, advanced0, p) = (kept, advanced, p') \<Longrightarrow>
    pl_ops p' = pl_ops p \<and> pl_pending p' = pl_pending p \<and> pl_wsReconcilePending p' = pl_wsReconcilePending p \<and>
    pl_queue p' = pl_queue p \<and> ((\<forall>t \<in> set (pl_repairing p). repair_under_way p t) \<longrightarrow> (\<forall>t \<in> set (pl_repairing p'). repair_under_way p' t))"
    for bs kept0 advanced0
  proof (induction bs arbitrary: kept0 advanced0 p)
    case (Cons b bs)
    obtain s es where b: "b = (s, es)" by (cases b)
    obtain k1 a1 p1 where w: "walk_stream cols s (js_sort revision_compare es) kept0 advanced0 p = (k1, a1, p1)"
      by (cases "walk_stream cols s (js_sort revision_compare es) kept0 advanced0 p") auto
    have "fold (\<lambda>(s, es) (kept, advanced, p'). walk_stream cols s (js_sort revision_compare es) kept advanced p')
        bs (k1, a1, p1) = (kept, advanced, p')" using Cons.prems by (simp add: b w)
    from Cons.IH [OF this] walk_stream_ops [OF w] show ?case by simp
  qed simp
  then show ?thesis using assms unfolding gap_pass_def by blast
qed

lemma drain_ops:
  assumes cb: "cache_batch cd (dedup_batch (pl_pending p)) (pl_cache p) = (filtered, ec)"
    and gp: "gap_pass cols filtered (setupWsReconcileBatch baseline cols filtered (drain_start ec p)) = (kept, advanced, p5)"
  shows "pl_ops (onReconcileWsEventsOp cd now baseline cols p) = pl_ops p"
    "pl_pending (onReconcileWsEventsOp cd now baseline cols p) = []"
    "\<not> pl_wsReconcilePending (onReconcileWsEventsOp cd now baseline cols p)"
    "pl_fetches (onReconcileWsEventsOp cd now baseline cols p) = pl_fetches p5"
    "pl_queue (onReconcileWsEventsOp cd now baseline cols p) = pl_queue p"
proof -
  have p5: "pl_ops p5 = pl_ops p \<and> pl_pending p5 = [] \<and> \<not> pl_wsReconcilePending p5 \<and> pl_queue p5 = pl_queue p"
    using gap_pass_ops [OF gp] by (simp add: setupWsReconcileBatch_def)
  have triv: "filtered = [] \<Longrightarrow> p5 = drain_start ec p" using gp by simp
  have nil: "dedup_batch (pl_pending p) = [] \<Longrightarrow> filtered = []" using cb by simp
  have empty: "pl_pending p = [] \<Longrightarrow> dedup_batch (pl_pending p) = []" by (simp add: dedup_batch_def)
  let ?p' = "onReconcileWsEventsOp cd now baseline cols p"
  have "pl_ops ?p' = pl_ops p \<and> pl_pending ?p' = [] \<and> \<not> pl_wsReconcilePending ?p' \<and> pl_fetches ?p' = pl_fetches p5 \<and>
      pl_queue ?p' = pl_queue p"
    using cb gp p5 triv nil empty
    by (cases "pl_pending p = []"; cases "dedup_batch (pl_pending p) = []"; cases "filtered = []")
      (simp_all add: onReconcileWsEventsOp_def Let_def reconcileFromWsEvents_def)
  then show "pl_ops ?p' = pl_ops p" "pl_pending ?p' = []" "\<not> pl_wsReconcilePending ?p'" "pl_fetches ?p' = pl_fetches p5"
    "pl_queue ?p' = pl_queue p"
    by blast+
qed

lemma under_way_cong:
  "pl_fetches p' = pl_fetches p \<Longrightarrow> set (pl_ops p) \<subseteq> set (pl_ops p') \<Longrightarrow> repair_under_way p s \<Longrightarrow> repair_under_way p' s"
  by (auto simp: repair_under_way_def)

lemma pipeline_inv_cong:
  assumes "pipeline_inv p" "buffer_inv (pl_cache p')" "pl_ops p' = pl_ops p" "pl_queue p' = pl_queue p"
    "pl_wsReconcilePending p' = pl_wsReconcilePending p" "pl_fetches p' = pl_fetches p"
    "set (pl_repairing p') \<subseteq> set (pl_repairing p)"
  shows "pipeline_inv p'"
  using assms by (auto simp: pipeline_inv_def scheduled_def repair_under_way_def)

lemma count_list_remove1 [simp]: "count_list (remove1 x xs) y = (if x = y then count_list xs y - 1 else count_list xs y)"
  by (induction xs) auto

lemma schedule_fields [simp]:
  "pl_cache (scheduleWsReconcile p) = pl_cache p" "pl_repairing (scheduleWsReconcile p) = pl_repairing p"
  "pl_fetches (scheduleWsReconcile p) = pl_fetches p" "pl_pending (scheduleWsReconcile p) = pl_pending p"
  "pl_queue (scheduleWsReconcile p) = pl_queue p"
  by (simp_all add: scheduleWsReconcile_def)

lemma schedule_ops:
  "pl_wsReconcilePending (scheduleWsReconcile p) \<longleftrightarrow> pl_wsReconcilePending p \<or> pl_pending p \<noteq> []"
  "pl_ops (scheduleWsReconcile p) =
    (if \<not> pl_wsReconcilePending p \<and> pl_pending p \<noteq> [] \<and> pl_queue p = Accepting then pl_ops p @ [ReconcileWsEvents] else pl_ops p)"
  by (simp_all add: scheduleWsReconcile_def)

lemma arrival_inv:
  assumes inv: "pipeline_inv p"
  shows "pipeline_inv (scheduleWsReconcile (p\<lparr>pl_pending := pl_pending p @ new\<rparr>))"
proof -
  let ?q = "scheduleWsReconcile (p\<lparr>pl_pending := pl_pending p @ new\<rparr>)"
  have "repair_under_way ?q t" if "repair_under_way p t" for t
    using that by (rule under_way_cong [rotated -1]) (auto simp: schedule_ops)
  moreover have "ReconcileWsEvents \<notin> set (pl_ops p)" if "\<not> pl_wsReconcilePending p"
    using inv that by (auto simp: pipeline_inv_def scheduled_def)
  then have "scheduled ?q"
    using inv by (auto simp: pipeline_inv_def scheduled_def schedule_ops count_list_0_iff)
  ultimately show ?thesis using inv by (auto simp: pipeline_inv_def schedule_ops)
qed

lemma drain_inv:
  fixes cd now baseline cols
  assumes inv: "pipeline_inv p" and open_queue: "pl_queue p = Accepting" and op: "ReconcileWsEvents \<in> set (pl_ops p)"
  defines "p' \<equiv> onReconcileWsEventsOp cd now baseline cols (p\<lparr>pl_ops := remove1 ReconcileWsEvents (pl_ops p)\<rparr>)"
  shows "pipeline_inv p'" and "prompt p'" and "pl_queue p' = Accepting" and "pl_pending p' = []"
proof -
  let ?p = "p\<lparr>pl_ops := remove1 ReconcileWsEvents (pl_ops p)\<rparr>"
  obtain filtered ec where cb: "cache_batch cd (dedup_batch (pl_pending ?p)) (pl_cache ?p) = (filtered, ec)"
    by (cases "cache_batch cd (dedup_batch (pl_pending ?p)) (pl_cache ?p)")
  define p4 where "p4 = setupWsReconcileBatch baseline cols filtered (drain_start ec ?p)"
  obtain kept advanced p5 where gp: "gap_pass cols filtered p4 = (kept, advanced, p5)"
    by (cases "gap_pass cols filtered p4") auto
  note D = drain_fields [OF cb gp [unfolded p4_def], where now = now, folded p'_def]
  note O = drain_ops [OF cb gp [unfolded p4_def], where now = now, folded p'_def]
  have "count_list (pl_ops p) ReconcileWsEvents = 1"
    using inv op count_list_0_iff [of "pl_ops p" ReconcileWsEvents] unfolding pipeline_inv_def scheduled_def by linarith
  then have none: "count_list (pl_ops ?p) ReconcileWsEvents = 0" by simp
  then have no_op: "ReconcileWsEvents \<notin> set (pl_ops ?p)" by (rule iffD1 [OF count_list_0_iff])
  have sched: "scheduled p'" unfolding scheduled_def O(1) using none no_op by linarith
  have "buffer_inv ec"
    using buffer_inv_cache_batch [of "pl_cache p" cd "dedup_batch (pl_pending p)"] cb inv
    by (simp add: pipeline_inv_def)
  then have buf: "buffer_inv (pl_cache p')"
    unfolding D(5) by (auto intro: buffer_inv_mark buffer_inv_settle)
  have "\<forall>t \<in> set (pl_repairing p4). repair_under_way p4 t"
    using inv op open_queue by (auto simp: p4_def setupWsReconcileBatch_def pipeline_inv_def repair_under_way_def)
  then have "\<forall>t \<in> set (pl_repairing p5). repair_under_way p5 t" using gap_pass_ops [OF gp] by blast
  moreover have "pl_ops p5 = pl_ops ?p" using gap_pass_ops [OF gp] by (simp add: p4_def setupWsReconcileBatch_def)
  ultimately have "\<forall>t \<in> set (pl_repairing p'). repair_under_way p' t"
    by (simp add: D(3) repair_under_way_def O(1,4))
  with sched buf show "pipeline_inv p'" by (simp add: pipeline_inv_def O(5) open_queue)
  show "prompt p'" "pl_queue p' = Accepting" "pl_pending p' = []"
    using O(2,3) by (simp_all add: prompt_def O(5) open_queue)
qed

lemma repair_fields:
  fixes cd baseline cols s keys es and p :: "'c pipeline"
  defines "p' \<equiv> onApplyGapRepair cd baseline cols s keys es p"
  shows "pl_ops p' = pl_ops p" "pl_pending p' = pl_pending p" "pl_fetches p' = pl_fetches p"
    "pl_wsReconcilePending p' = pl_wsReconcilePending p" "pl_repairing p' = set_remove s (pl_repairing p)"
    "pl_queue p' = pl_queue p"
  by (auto simp: p'_def onApplyGapRepair_def Let_def reconcileFromWsEvents_def setupWsReconcileBatch_def split: prod.split)

lemma repair_inv:
  assumes inv: "pipeline_inv p" and open_queue: "pl_queue p = Accepting" and op: "ApplyGapRepair s keys es \<in> set (pl_ops p)"
  shows "pipeline_inv (onApplyGapRepair cd baseline cols s keys es
    (p\<lparr>pl_ops := remove1 (ApplyGapRepair s keys es) (pl_ops p)\<rparr>))"
proof -
  let ?p = "p\<lparr>pl_ops := remove1 (ApplyGapRepair s keys es) (pl_ops p)\<rparr>"
  let ?p' = "onApplyGapRepair cd baseline cols s keys es ?p"
  let ?ec = "snd (cacheServerEventsWithKeys cd (map (\<lambda>e. (e, keys)) es) (pl_cache p))"
  have ec: "buffer_inv ?ec" using inv by (intro buffer_inv_cacheServer) (simp add: pipeline_inv_def)
  have cache: "pl_cache ?p' = ?ec \<or> (\<exists>r. pl_cache ?p' = ec_setKnownPosition s r (clearGapBuffer (Some s) (Some r) ?ec))"
    by (auto simp: onApplyGapRepair_def Let_def reconcileFromWsEvents_def setupWsReconcileBatch_def split: prod.split)
  have "buffer_inv (pl_cache ?p')" using cache ec buffer_inv_settle_one [OF ec] by auto
  moreover have "scheduled ?p'"
    using inv unfolding pipeline_inv_def scheduled_def repair_fields by auto
  moreover have "repair_under_way ?p' t" if "t \<in> set (pl_repairing ?p')" for t
  proof -
    have "t \<noteq> s" "repair_under_way p t" using that inv open_queue by (auto simp: repair_fields pipeline_inv_def)
    then show ?thesis unfolding repair_under_way_def repair_fields by auto
  qed
  ultimately show ?thesis using open_queue by (simp add: pipeline_inv_def repair_fields(6))
qed

lemma fetch_end_under_way:
  assumes "repair_under_way p t" "pl_fetches p' = remove1 rf (pl_fetches p)" "set (pl_ops p) \<subseteq> set (pl_ops p')"
    and "t = rf_streamId rf \<longrightarrow> repair_under_way p' t"
  shows "repair_under_way p' t"
proof (cases "t = rf_streamId rf")
  case False
  then have "t \<in> rf_streamId ` set (pl_fetches p) \<Longrightarrow> t \<in> rf_streamId ` set (pl_fetches p')"
    unfolding assms(2) by (metis (mono_tags) image_iff in_set_remove1)
  then show ?thesis using assms(1,3) unfolding repair_under_way_def by blast
qed (use assms(4) in blast)

lemma fetch_end_inv:
  assumes inv: "pipeline_inv p"
  shows "pipeline_inv (repair_fetched rf es p)" and "pipeline_inv (repair_failed rf p)"
proof -
  have "repair_under_way (repair_fetched rf es p) t" if "pl_queue p = Accepting" "t \<in> set (pl_repairing p)" for t
    by (rule fetch_end_under_way [of p _ _ rf])
      (use that inv in \<open>auto simp: repair_fetched_def repair_under_way_def pipeline_inv_def\<close>)
  then show "pipeline_inv (repair_fetched rf es p)"
    using inv by (auto simp: pipeline_inv_def scheduled_def repair_fetched_def)
  have "repair_under_way (repair_failed rf p) t"
    if "pl_queue p = Accepting" "t \<in> set (pl_repairing p)" "t \<noteq> rf_streamId rf" for t
    by (rule fetch_end_under_way [of p _ _ rf]) (use that inv in \<open>simp_all add: repair_failed_def pipeline_inv_def\<close>)
  then show "pipeline_inv (repair_failed rf p)"
    using inv by (auto simp: pipeline_inv_def scheduled_def repair_failed_def)
qed

lemma evict_ops_fields:
  "pl_pending (fold evict_op ops p) = pl_pending p" "pl_ops (fold evict_op ops p) = pl_ops p"
  "pl_wsReconcilePending (fold evict_op ops p) \<longleftrightarrow> pl_wsReconcilePending p \<and> ReconcileWsEvents \<notin> set ops"
  "pl_cache (fold evict_op ops p) = pl_cache p"
proof (induction ops arbitrary: p)
  case (Cons op ops)
  { case 1 show ?case using Cons.IH(1) by (cases op) (simp_all add: onApplyGapRepairEviction_def) }
  { case 2 show ?case using Cons.IH(2) by (cases op) (simp_all add: onApplyGapRepairEviction_def) }
  { case 3 show ?case using Cons.IH(3) by (cases op) (auto simp: onApplyGapRepairEviction_def) }
  { case 4 show ?case using Cons.IH(4) by (cases op) (simp_all add: onApplyGapRepairEviction_def) }
qed simp_all

lemma reset_fields [simp]:
  "pl_pending (pl_beginReset p) = pl_pending p" "pl_ops (pl_beginReset p) = []" "pl_queue (pl_beginReset p) = Discarding"
  "pl_wsReconcilePending (pl_beginReset p) \<longleftrightarrow> pl_wsReconcilePending p \<and> ReconcileWsEvents \<notin> set (pl_ops p)"
  "pl_cache (pl_beginReset p) = pl_cache p"
  by (simp_all add: pl_beginReset_def evict_ops_fields)

lemma wipe_fields [simp]:
  "pl_pending (pl_beginWipe p) = pl_pending p" "pl_ops (pl_beginWipe p) = pl_ops p" "pl_queue (pl_beginWipe p) = Wiping"
  "pl_wsReconcilePending (pl_beginWipe p) = pl_wsReconcilePending p" "pl_repairing (pl_beginWipe p) = []"
  "pl_cache (pl_beginWipe p) = pl_cache p"
  "pl_pending (pl_endWipe keys p) = pl_pending p" "pl_ops (pl_endWipe keys p) = pl_ops p"
  "pl_queue (pl_endWipe keys p) = Accepting" "pl_wsReconcilePending (pl_endWipe keys p) = pl_wsReconcilePending p"
  "pl_repairing (pl_endWipe keys p) = pl_repairing p"
  by (simp_all add: pl_beginWipe_def pl_endWipe_def repair_reset_def)

lemma buffer_inv_endWipe:
  assumes "buffer_inv (pl_cache p)" shows "buffer_inv (pl_cache (pl_endWipe keys p))"
proof -
  have "storage_inv (deleteCacheKeys keys (ec_storage (pl_cache p)))"
    unfolding deleteCacheKeys_def
    by (rule inv_fold) (use assms in \<open>auto simp: buffer_inv_def ec_inv_def intro: inv_deleteCacheKey\<close>)
  then show ?thesis
    by (simp add: pl_endWipe_def clearGapBuffer_def buffer_inv_def ec_inv_def)
      (simp add: gap_clear_def buffered_def)
qed

text \<open>The other operations change the baselines and the cache only.\<close>

lemma note_keeps:
  "buffer_inv (pl_cache p) \<Longrightarrow> buffer_inv (pl_cache (pl_noteRevision s r p))"
  "pl_pending (pl_noteRevision s r p) = pl_pending p" "pl_ops (pl_noteRevision s r p) = pl_ops p"
  "pl_queue (pl_noteRevision s r p) = pl_queue p" "pl_fetches (pl_noteRevision s r p) = pl_fetches p"
  "pl_wsReconcilePending (pl_noteRevision s r p) = pl_wsReconcilePending p"
  "pl_repairing (pl_noteRevision s r p) = pl_repairing p"
proof -
  have "buffer_inv (ec_setKnownPosition s r ec)" if "buffer_inv ec" for ec :: "'a eventCache"
  proof -
    have "set (buffered (setKnownPosition s r (ec_gapBuffer ec)) t) \<subseteq> set (buffered (ec_gapBuffer ec) t)" for t
      by (simp add: setKnownPosition_def)
    with that have "buffer_inv (ec\<lparr>ec_gapBuffer := setKnownPosition s r (ec_gapBuffer ec)\<rparr>)"
      by (intro buffer_inv_sub) (simp_all add: buffer_inv_def ec_inv_def)
    then show ?thesis by (simp add: ec_setKnownPosition_def)
  qed
  then show "buffer_inv (pl_cache p) \<Longrightarrow> buffer_inv (pl_cache (pl_noteRevision s r p))"
    by (simp add: pl_noteRevision_def)
qed (simp_all add: pl_noteRevision_def)

lemma notes_keep:
  fixes revisions and p :: "'c pipeline"
  defines "p' \<equiv> fold (\<lambda>(s, r). pl_noteRevision s r) revisions p"
  shows "buffer_inv (pl_cache p) \<longrightarrow> buffer_inv (pl_cache p')"
    "pl_pending p' = pl_pending p \<and> pl_ops p' = pl_ops p \<and> pl_queue p' = pl_queue p \<and> pl_fetches p' = pl_fetches p \<and>
      pl_wsReconcilePending p' = pl_wsReconcilePending p \<and> pl_repairing p' = pl_repairing p"
  unfolding p'_def by (induction revisions arbitrary: p) (auto simp: note_keeps)

lemma seed_fields:
  fixes cd now baseline cols key es and p :: "'c pipeline"
  defines "p' \<equiv> onApplySeedEvents cd now baseline cols key es p"
  shows "pl_ops p' = pl_ops p" "pl_pending p' = pl_pending p" "pl_fetches p' = pl_fetches p"
    "pl_wsReconcilePending p' = pl_wsReconcilePending p" "pl_repairing p' = pl_repairing p" "pl_queue p' = pl_queue p"
  by (auto simp: p'_def onApplySeedEvents_def Let_def reconcileFromWsEvents_def setupWsReconcileBatch_def)

lemma small_fields [simp]:
  "pl_ops (restoreKnownRevisions x p) = pl_ops p" "pl_pending (restoreKnownRevisions x p) = pl_pending p"
  "pl_queue (restoreKnownRevisions x p) = pl_queue p" "pl_fetches (restoreKnownRevisions x p) = pl_fetches p"
  "pl_wsReconcilePending (restoreKnownRevisions x p) = pl_wsReconcilePending p"
  "pl_repairing (restoreKnownRevisions x p) = pl_repairing p" "pl_cache (restoreKnownRevisions x p) = pl_cache p"
  "pl_ops (pl_onEvictCacheKey key p) = pl_ops p" "pl_pending (pl_onEvictCacheKey key p) = pl_pending p"
  "pl_queue (pl_onEvictCacheKey key p) = pl_queue p" "pl_fetches (pl_onEvictCacheKey key p) = pl_fetches p"
  "pl_wsReconcilePending (pl_onEvictCacheKey key p) = pl_wsReconcilePending p"
  "pl_repairing (pl_onEvictCacheKey key p) = pl_repairing p"
  "pl_cache (pl_onEvictCacheKey key p) = snd (clearByCacheKey key (pl_cache p))"
  by (simp_all add: restoreKnownRevisions_def pl_onEvictCacheKey_def split: prod.split)

lemma pipeline_step_inv:
  assumes "pipeline_step cols p p'" "pipeline_inv p"
  shows "pipeline_inv p'"
  using assms
proof (cases rule: pipeline_step.cases)
  case (arrive e keys)
  then show ?thesis using arrival_inv [OF assms(2)] by (simp add: handleNewWsEvent_def)
next
  case (response known_key es key)
  then show ?thesis using arrival_inv [OF assms(2)] assms(2) by (simp add: handleCommandResponseEvents_def)
next
  case (drain cd now baseline)
  then show ?thesis using drain_inv(1) [OF assms(2)] by simp
next
  case (repair s keys es cd baseline)
  then show ?thesis using repair_inv [OF assms(2)] by simp
next
  case (fetched rf es)
  then show ?thesis using fetch_end_inv(1) [OF assms(2)] by simp
next
  case (fetch_failed rf)
  then show ?thesis using fetch_end_inv(2) [OF assms(2)] by simp
next
  case (seed cd now baseline key es)
  have "buffer_inv (pl_cache p')"
    using assms(2) unfolding seed(1)
    by (auto simp: onApplySeedEvents_def Let_def reconcileFromWsEvents_def setupWsReconcileBatch_def
        pipeline_inv_def intro!: buffer_inv_mark buffer_inv_cacheServer)
  then show ?thesis by (rule pipeline_inv_cong [OF assms(2)]) (simp_all add: seed(1) seed_fields)
next
  case (records revisions)
  have "buffer_inv (pl_cache p')" using assms(2) notes_keep(1) [of p revisions] by (simp add: records(1) pipeline_inv_def)
  then show ?thesis by (rule pipeline_inv_cong [OF assms(2)]) (simp_all add: records(1) notes_keep(2))
next
  case (restore entries)
  then show ?thesis using assms(2) by (intro pipeline_inv_cong [OF assms(2)]) (simp_all add: pipeline_inv_def)
next
  case (evict_key key)
  then show ?thesis using assms(2)
    by (intro pipeline_inv_cong [OF assms(2)]) (simp_all add: pipeline_inv_def buffer_inv_clearByCacheKey)
next
  case (end_wipe keys)
  then show ?thesis using assms(2) buffer_inv_endWipe [of p keys]
    by (simp add: pipeline_inv_def scheduled_def)
qed (auto simp: pipeline_inv_def scheduled_def)

lemma pipeline_run_inv:
  assumes "(pipeline_step cols)\<^sup>*\<^sup>* (new_pipeline (empty_cache :: nat eventCache)) p"
  shows "pipeline_inv p"
  using assms
proof (induction rule: rtranclp_induct)
  case base
  show ?case by (simp add: pipeline_inv_def new_pipeline_def scheduled_def)
next
  case (step q r)
  then show ?case using pipeline_step_inv by blast
qed

text \<open>A step after which no event is pending while the queue is closed.\<close>

definition orderly_step :: "collectionConfig list \<Rightarrow> 'c pipeline \<Rightarrow> 'c pipeline \<Rightarrow> bool" where
  "orderly_step cols p p' \<longleftrightarrow> pipeline_step cols p p' \<and> (pl_queue p' \<noteq> Accepting \<longrightarrow> pl_pending p' = [])"

lemma prompt_cong:
  "prompt p \<Longrightarrow> pl_ops p' = pl_ops p \<Longrightarrow> pl_pending p' = pl_pending p \<Longrightarrow>
    pl_wsReconcilePending p' = pl_wsReconcilePending p \<Longrightarrow> prompt p'"
  by (simp add: prompt_def)

lemma arrival_prompt:
  assumes "prompt p" "pl_queue p \<noteq> Accepting \<longrightarrow> pl_pending p @ new = []"
  shows "prompt (scheduleWsReconcile (p\<lparr>pl_pending := pl_pending p @ new\<rparr>))"
  using assms by (auto simp: prompt_def schedule_ops)

lemma orderly_step_prompt:
  assumes "orderly_step cols p p'" "pipeline_inv p" "prompt p"
  shows "prompt p'"
proof -
  have step: "pipeline_step cols p p'" and order: "pl_queue p' \<noteq> Accepting \<longrightarrow> pl_pending p' = []"
    using assms(1) by (simp_all add: orderly_step_def)
  from step show ?thesis
  proof (cases rule: pipeline_step.cases)
    case (arrive e keys)
    then show ?thesis using arrival_prompt [OF assms(3)] order by (simp add: handleNewWsEvent_def)
  next
    case (response known_key es key)
    then show ?thesis using arrival_prompt [OF assms(3)] assms(3) order
      by (auto simp: handleCommandResponseEvents_def)
  next
    case (drain cd now baseline)
    then show ?thesis using drain_inv(2) [OF assms(2)] by simp
  next
    case (repair s keys es cd baseline)
    then show ?thesis using assms(3) by (auto simp: prompt_def repair_fields)
  next
    case (fetched rf es)
    then show ?thesis using assms(3) by (auto simp: prompt_def repair_fetched_def)
  next
    case (fetch_failed rf)
    then show ?thesis using assms(3) by (auto simp: prompt_def repair_failed_def)
  next
    case (seed cd now baseline key es)
    then show ?thesis by (intro prompt_cong [OF assms(3)]) (simp_all add: seed_fields)
  next
    case (records revisions)
    then show ?thesis by (intro prompt_cong [OF assms(3)]) (simp_all add: notes_keep(2))
  qed (use assms(3) order in \<open>auto simp: prompt_def\<close>)
qed

section \<open>No stall while the queue is open\<close>

text \<open>
  C14: The pipeline does not stall.  Take any order of arrivals, responses, drains, fetches that succeed or fail,
  repairs, pages of seeds and records, evictions and ends of sessions.  In every state it leads to, at most one
  drain is queued; while the write queue is open, a stream that is marked as being repaired has its fetch in
  flight or its repair queued; and every event in the gap buffer of a stream belongs to the stream and sits at
  its own revision.  If no event was pending at any moment at which a session was being reset, then exactly one
  drain is queued whenever events are pending.  (\<open>closed_queue_stalls\<close> shows that the condition is needed.)
\<close>
theorem pipeline_never_stalls:
  assumes "(pipeline_step cols)\<^sup>*\<^sup>* (new_pipeline (empty_cache :: nat eventCache)) p"
  shows "count_list (pl_ops p) ReconcileWsEvents \<le> 1
    \<and> (pl_queue p = Accepting \<longrightarrow> (\<forall>s \<in> set (pl_repairing p). repair_under_way p s))
    \<and> (\<forall>(q, e) \<in> set (getBufferedEvents (pl_cache p) s). q = se_revision e \<and> se_streamId e = s)
    \<and> ((orderly_step cols)\<^sup>*\<^sup>* (new_pipeline empty_cache) p \<longrightarrow> pl_pending p \<noteq> [] \<longrightarrow>
        count_list (pl_ops p) ReconcileWsEvents = 1)"
proof -
  note inv = pipeline_run_inv [OF assms]
  have "pipeline_inv p \<and> prompt p" if "(orderly_step cols)\<^sup>*\<^sup>* (new_pipeline (empty_cache :: nat eventCache)) p"
    using that
  proof (induction rule: rtranclp_induct)
    case base
    show ?case by (simp add: pipeline_inv_def new_pipeline_def scheduled_def prompt_def)
  next
    case (step q r)
    then show ?case using pipeline_step_inv orderly_step_prompt by (metis orderly_step_def)
  qed
  with inv show ?thesis
    by (auto simp: pipeline_inv_def scheduled_def prompt_def buffer_inv_def getBufferedEvents_def getEvents_def le_Suc_eq
        count_list_0_iff)
qed

theorem pipeline_never_stalls_witness:
  "(orderly_step [notes_collection])\<^sup>*\<^sup>* (new_pipeline (empty_cache :: nat eventCache))
      (handleNewWsEvent (sample_server_event ''e1'' ''s'' 1) [''k''] (new_pipeline empty_cache))
   \<and> count_list (pl_ops (handleNewWsEvent (sample_server_event ''e1'' ''s'' 1) [''k''] (new_pipeline empty_cache)
        :: nat pipeline)) ReconcileWsEvents = 1"
proof
  let ?new = "new_pipeline (empty_cache :: nat eventCache)"
  let ?p = "handleNewWsEvent (sample_server_event ''e1'' ''s'' 1) [''k''] ?new"
  let ?step = "pipeline_step [notes_collection]"
  have step: "?step ?new ?p" by (rule pipeline_step.arrive) (simp add: new_pipeline_def)
  have fields: "pl_pending ?p \<noteq> []" "pl_queue ?p = Accepting" by (simp_all add: handleNewWsEvent_def new_pipeline_def)
  show run: "(orderly_step [notes_collection])\<^sup>*\<^sup>* ?new ?p"
    by (rule r_into_rtranclp) (simp add: orderly_step_def step fields)
  show "count_list (pl_ops ?p) ReconcileWsEvents = 1"
    using pipeline_never_stalls [OF r_into_rtranclp [of ?step, OF step]] run fields by blast
qed

section \<open>Events that arrive while the queue is closed\<close>

text \<open>The flag is set with no drain queued, and the events of \<open>xs\<close> come first among the pending ones.\<close>

definition stalled :: "wsEntry list \<Rightarrow> 'c pipeline \<Rightarrow> bool" where
  "stalled xs p \<longleftrightarrow> pl_wsReconcilePending p \<and> ReconcileWsEvents \<notin> set (pl_ops p) \<and> (\<exists>more. pl_pending p = xs @ more)"

lemma stalled_step:
  assumes "pipeline_step cols p p'" "stalled xs p"
  shows "stalled xs p'"
  using assms
proof (cases rule: pipeline_step.cases)
  case (repair s keys es cd baseline)
  then show ?thesis using assms(2) by (auto simp: stalled_def repair_fields dest: notin_set_remove1)
qed (auto simp: stalled_def handleNewWsEvent_def handleCommandResponseEvents_def schedule_ops repair_fetched_def
    repair_failed_def seed_fields notes_keep(2))

text \<open>
  An answer that comes in while a session is being reset stalls the pipeline for good.  The write queue
  refuses the drain, without the eviction that would take the flag back, so that the flag stays set: in every
  state that follows, in this session and the next ones, no drain is queued and the events of the answer are
  pending, with whatever has arrived since.
\<close>
theorem closed_queue_stalls:
  assumes "(pipeline_step cols)\<^sup>*\<^sup>* (new_pipeline (empty_cache :: nat eventCache)) p"
    and "pl_queue p \<noteq> Accepting" "es \<noteq> []" "existsSync key"
    and "(pipeline_step cols)\<^sup>*\<^sup>* (handleCommandResponseEvents existsSync es key p) p'"
  shows "pl_wsReconcilePending p' \<and> ReconcileWsEvents \<notin> set (pl_ops p')
    \<and> (\<exists>more. pl_pending p' = pl_pending p @ map (\<lambda>e. \<lparr>we_event = e, we_cacheKeys = [key]\<rparr>) es @ more)"
proof -
  let ?new = "map (\<lambda>e. \<lparr>we_event = e, we_cacheKeys = [key]\<rparr>) es"
  have "pl_ops p = []" using pipeline_run_inv [OF assms(1)] assms(2) by (simp add: pipeline_inv_def)
  then have "stalled (pl_pending p @ ?new) (handleCommandResponseEvents existsSync es key p)"
    using assms(2-4) by (simp add: stalled_def handleCommandResponseEvents_def schedule_ops)
  with assms(5) have "stalled (pl_pending p @ ?new) p'"
    by (induction rule: rtranclp_induct) (auto intro: stalled_step)
  then show ?thesis by (simp add: stalled_def)
qed

theorem closed_queue_stalls_witness:
  "pl_ops (handleNewWsEvent (sample_server_event ''e2'' ''s'' 1) [''k''] (pl_endWipe [] (pl_beginWipe
      (handleCommandResponseEvents (\<lambda>k. True) [sample_server_event ''e1'' ''s'' 0] ''k''
        (pl_beginReset (new_pipeline (empty_cache :: nat eventCache))))))) = []
   \<and> (\<exists>more. pl_pending (handleNewWsEvent (sample_server_event ''e2'' ''s'' 1) [''k''] (pl_endWipe [] (pl_beginWipe
      (handleCommandResponseEvents (\<lambda>k. True) [sample_server_event ''e1'' ''s'' 0] ''k''
        (pl_beginReset (new_pipeline (empty_cache :: nat eventCache))))))) =
      \<lparr>we_event = sample_server_event ''e1'' ''s'' 0, we_cacheKeys = [''k'']\<rparr> # more)"
proof -
  let ?new = "new_pipeline (empty_cache :: nat eventCache)" and ?e1 = "sample_server_event ''e1'' ''s'' 0"
  let ?p = "pl_beginReset ?new"
  let ?q = "handleCommandResponseEvents (\<lambda>k. True) [?e1] ''k'' ?p"
  let ?r = "pl_endWipe [] (pl_beginWipe ?q)"
  let ?p' = "handleNewWsEvent (sample_server_event ''e2'' ''s'' 1) [''k''] ?r"
  let ?step = "pipeline_step [notes_collection]"
  have p: "?step\<^sup>*\<^sup>* ?new ?p" by (rule r_into_rtranclp, rule pipeline_step.begin_reset) (simp add: new_pipeline_def)
  have q: "pl_queue ?q = Discarding" by (simp add: handleCommandResponseEvents_def)
  have "?step ?q (pl_beginWipe ?q)" by (rule pipeline_step.begin_wipe [OF q])
  moreover have "?step (pl_beginWipe ?q) ?r" by (rule pipeline_step.end_wipe) simp
  moreover have "?step ?r ?p'" by (rule pipeline_step.arrive) simp
  ultimately have run: "?step\<^sup>*\<^sup>* ?q ?p'" by (meson converse_rtranclp_into_rtranclp rtranclp.rtrancl_refl)
  have "ReconcileWsEvents \<notin> set (pl_ops ?p') \<and> (\<exists>more. pl_pending ?p' =
      pl_pending ?p @ map (\<lambda>e. \<lparr>we_event = e, we_cacheKeys = [''k'']\<rparr>) [?e1] @ more)"
    using closed_queue_stalls [OF p _ _ _ run] by simp
  then show ?thesis
    by (simp add: new_pipeline_def handleNewWsEvent_def schedule_ops handleCommandResponseEvents_def)
qed

section \<open>Events that are pending when a session ends\<close>

lemma addKeys_has: "map_has (cachedEvents (addCacheKeysToEvents eks st)) i \<longleftrightarrow> map_has (cachedEvents st) i"
  unfolding addCacheKeysToEvents_def
  by (induction eks arbitrary: st) (auto simp: map_has_def split: option.splits if_splits)

lemma mark_has: "map_has (cachedEvents (markCachedEventsProcessed now ids st)) i \<longleftrightarrow> map_has (cachedEvents st) i"
  unfolding markCachedEventsProcessed_def
  by (induction ids arbitrary: st) (auto simp: mark_processed_def map_has_def split: option.splits)

lemma settle_storage [simp]: "ec_storage (settle_streams advanced ec) = ec_storage ec"
  unfolding settle_streams_def
  by (induction advanced arbitrary: ec) (auto simp: ec_setKnownPosition_def clearGapBuffer_def)

abbreviation knows :: "'c eventCache \<Rightarrow> string \<Rightarrow> bool" where
  "knows ec i \<equiv> map_has (cachedEvents (ec_storage ec)) i"

lemma cache_batch_knows:
  assumes "en \<in> set entries" "cache_batch cd entries ec = (filtered, ec')"
  shows "knows ec' (se_id (we_event en))"
proof -
  let ?i = "se_id (we_event en)"
  have saved: "map_has (cachedEvents (saveCachedEvents rs st)) i \<longleftrightarrow> map_has (cachedEvents st) i \<or> i \<in> ev_id ` set rs"
    for rs i and st :: "'a inMemoryStorage"
    unfolding saveCachedEvents_def by (induction rs arbitrary: st) (auto simp: saveCachedEvent_def)
  have known: "?i \<in> set (getExistingEventIds ec ids) \<longleftrightarrow> ?i \<in> set ids \<and> knows ec ?i" for ids
    by (auto simp: getExistingEventIds_def getExistingCachedEventIds_def)
  have id [simp]: "ev_id (server_record cd e keys) = se_id e" for e keys by (simp add: server_record_def)
  have ec': "knows ec' i \<longleftrightarrow> knows ec i \<or> i \<in> (\<lambda>e. se_id (we_event e)) ` set filtered" for i
    using assms(2) by (auto simp: cache_batch_def Let_def cache_batch_fields saved addKeys_has image_image)
  show ?thesis
  proof (cases "knows ec ?i")
    case False
    then have "en \<in> set filtered" using assms by (auto simp: cache_batch_def Let_def known)
    then show ?thesis by (auto simp: ec')
  qed (simp add: ec')
qed

lemma drain_knows:
  assumes "en \<in> set (pl_pending p)" "we_cacheKeys en \<noteq> []"
  shows "knows (pl_cache (onReconcileWsEventsOp cd now baseline cols p)) (se_id (we_event en))"
proof -
  let ?k = "se_id (we_event en)"
  obtain filtered ec where cb: "cache_batch cd (dedup_batch (pl_pending p)) (pl_cache p) = (filtered, ec)"
    by (cases "cache_batch cd (dedup_batch (pl_pending p)) (pl_cache p)")
  define p4 where "p4 = setupWsReconcileBatch baseline cols filtered (drain_start ec p)"
  obtain kept advanced p5 where gp: "gap_pass cols filtered p4 = (kept, advanced, p5)"
    by (cases "gap_pass cols filtered p4") auto
  let ?es = "filter (\<lambda>e. we_cacheKeys e \<noteq> []) (pl_pending p)"
  note M = merge_entries_get [OF map_wf_Nil, of ?es ?k]
  have "map_has (fold merge_entry ?es []) ?k" using M assms by simp
  then obtain u where u: "map_get (fold merge_entry ?es []) ?k = Some u" by (auto simp: map_has_def)
  with M [of u] have "se_id (we_event u) = ?k" by auto
  moreover have "u \<in> set (dedup_batch (pl_pending p))"
    using map_of_SomeD [OF u] by (force simp: dedup_batch_def)
  ultimately have "knows ec ?k" using cache_batch_knows [OF _ cb] by metis
  then show ?thesis
    unfolding drain_fields(5) [OF cb gp [unfolded p4_def]] by (simp add: markProcessed_def mark_has)
qed

text \<open>
  Events of an ended session reach the next one. Ending a session empties the write queue and the
  storage but not the list of pending events: they stay, with no drain scheduled for them, and the
  first event of the next session schedules a drain that takes them too, so that each of them is
  stored again, in the next session's event cache.
\<close>
theorem pending_events_survive_session:
  assumes sched: "pl_wsReconcilePending p \<longrightarrow> ReconcileWsEvents \<in> set (pl_ops p)" and en: "en \<in> set (pl_pending p)" "we_cacheKeys en \<noteq> []"
  shows "pl_pending (pl_resetSession keys p) = pl_pending p
    \<and> pl_ops (pl_resetSession keys p) = []
    \<and> pl_ops (handleNewWsEvent e' keys' (pl_resetSession keys p)) = [ReconcileWsEvents]
    \<and> getEvent (pl_cache (onReconcileWsEventsOp cd now baseline cols
        (handleNewWsEvent e' keys' (pl_resetSession keys p)))) (se_id (we_event en)) \<noteq> None"
proof -
  let ?p = "pl_resetSession keys p"
  have fields: "pl_pending ?p = pl_pending p" "pl_ops ?p = []" "\<not> pl_wsReconcilePending ?p"
    "pl_queue ?p = Accepting"
    using sched by (auto simp: pl_resetSession_def pl_onSessionDestroyed_def)
  have next_ops: "pl_ops (handleNewWsEvent e' keys' ?p) = [ReconcileWsEvents]"
    by (simp add: handleNewWsEvent_def schedule_ops fields)
  have pend: "en \<in> set (pl_pending (handleNewWsEvent e' keys' ?p))"
    using en(1) by (simp add: handleNewWsEvent_def scheduleWsReconcile_def fields)
  show ?thesis
    using fields next_ops drain_knows [OF pend en(2), of cd now baseline cols]
    by (simp add: getEvent_def getCachedEvent_def map_has_def)
qed

theorem pending_events_survive_session_witness:
  "getEvent (pl_cache (onReconcileWsEventsOp plain_codec 9 no_rows [notes_collection]
     (handleNewWsEvent (sample_server_event ''e2'' ''t'' 0) [''k''] (pl_resetSession [''k'']
        (arrived [sample_server_event ''e1'' ''s'' 0]))))) ''e1'' \<noteq> None"
proof -
  let ?p = "arrived [sample_server_event ''e1'' ''s'' 0]"
  have "pl_wsReconcilePending ?p \<longrightarrow> ReconcileWsEvents \<in> set (pl_ops ?p)" "\<lparr>we_event = sample_server_event ''e1'' ''s'' 0, we_cacheKeys = [''k'']\<rparr> \<in> set (pl_pending ?p)"
    by (simp_all add: arrived_def handleNewWsEvent_def schedule_ops new_pipeline_def)
  from pending_events_survive_session [OF this] show ?thesis by simp
qed

end
