(* ===== verification/CacheKey.thy ===== *)
theory CacheKey
  imports RefPath SortReadModels
begin

text \<open>
  The identity of a cache key: \<^verbatim>\<open>packages/client/src/core/cache-manager/CacheKey.ts\<close>, the stable JSON
  of \<^verbatim>\<open>packages/client/src/utils/stableJson.ts\<close>, and the functions of
  \<^verbatim>\<open>packages/client/src/core/cache-manager/CacheManager.ts\<close> that read identities and templates.

  \<open>JSON.stringify\<close>, \<open>JSON.parse\<close> (\<open>None\<close> when it throws) and the version 5 UUID in the fixed
  namespace are a parameter, \<open>keyEngine\<close>.  An absent optional field is \<open>None\<close>; an empty text is
  falsy (\<open>truthy_text\<close>).  A template's link id is a string or an entity reference, an identity's is
  a string.  The ids an entity reference carries are strings.
\<close>

section \<open>Identities, templates, matchers\<close>

record keyEngine =
  ke_stringify :: "jsval \<Rightarrow> string"
  ke_parse :: "string \<Rightarrow> jsval option"
  ke_uuidv5 :: "string \<Rightarrow> string"

record 'i keyLink =
  lnk_service :: "string option"
  lnk_type :: string
  lnk_id :: 'i

datatype cacheKeyIdentity =
    EntityKey (idn_key: string) (idn_link: "string keyLink") (idn_parentKey: "string option")
  | ScopeKey (idn_key: string) (idn_service: "string option") (idn_scopeType: string)
      (idn_scopeParams: "jsval option") (idn_parentKey: "string option")

datatype 'i cacheKeyTemplate =
    EntityTemplate "'i keyLink" "string option"
  | ScopeTemplate "string option" string "jsval option" "string option" "string list option"

datatype cacheKeyMatcher = EntityMatcher "string option" string | ScopeMatcher string

record pendingIdMapping =
  pim_commandId :: string
  pim_clientId :: string
  pim_paramKey :: "string option"

fun isEntityCacheKey :: "cacheKeyIdentity \<Rightarrow> bool" where
  "isEntityCacheKey (EntityKey _ _ _) = True"
| "isEntityCacheKey (ScopeKey _ _ _ _ _) = False"

definition isScopeCacheKey :: "cacheKeyIdentity \<Rightarrow> bool" where
  "isScopeCacheKey k \<longleftrightarrow> \<not> isEntityCacheKey k"

fun templateToIdentity :: "string cacheKeyTemplate \<Rightarrow> string \<Rightarrow> cacheKeyIdentity" where
  "templateToIdentity (EntityTemplate link parent) key = EntityKey key link parent"
| "templateToIdentity (ScopeTemplate service scopeType params parent _) key =
    ScopeKey key service scopeType params parent"

fun matchesCacheKey :: "cacheKeyIdentity \<Rightarrow> cacheKeyMatcher \<Rightarrow> bool" where
  "matchesCacheKey (EntityKey _ link _) (EntityMatcher service type) =
    (if lnk_type link \<noteq> type then False
     else case service of
       Some s \<Rightarrow> (case lnk_service link of None \<Rightarrow> False | Some s' \<Rightarrow> s' = s)
     | None \<Rightarrow> True)"
| "matchesCacheKey (ScopeKey _ _ scopeType _ _) (ScopeMatcher scopeType') = (scopeType = scopeType')"
| "matchesCacheKey _ _ = False"

section \<open>Stable JSON and identity strings\<close>

text \<open>Assigning to \<open>sorted['__proto__']\<close> sets the prototype and makes no property.\<close>

fun sortObjectKeys :: "jsval \<Rightarrow> jsval" where
  "sortObjectKeys (JArr xs) = JArr (map sortObjectKeys xs)"
| "sortObjectKeys (JObj kvs) =
    JObj (sort_key fst (filter (\<lambda>(k, _). k \<noteq> ''__proto__'') (map (\<lambda>(k, v). (k, sortObjectKeys v)) kvs)))"
| "sortObjectKeys v = v"

definition stableStringify :: "keyEngine \<Rightarrow> jsval \<Rightarrow> string" where
  "stableStringify ke v = ke_stringify ke (sortObjectKeys v)"

fun join_colon :: "string list \<Rightarrow> string" where
  "join_colon [] = []"
| "join_colon [p] = p"
| "join_colon (p # q # ps) = p @ CHR '':'' # join_colon (q # ps)"

definition opt_part :: "string option \<Rightarrow> string list" where
  "opt_part s = (case s of Some t \<Rightarrow> [t] | None \<Rightarrow> [])"

definition nonempty_params :: "jsval option \<Rightarrow> jsval option" where
  "nonempty_params p = (case p of Some v \<Rightarrow> if own_entries v \<noteq> [] then Some v else None | None \<Rightarrow> None)"

definition params_part :: "keyEngine \<Rightarrow> jsval option \<Rightarrow> string list" where
  "params_part ke p = opt_part (map_option (stableStringify ke) (nonempty_params p))"

fun buildIdentityString :: "keyEngine \<Rightarrow> cacheKeyIdentity \<Rightarrow> string" where
  "buildIdentityString ke (EntityKey _ link _) =
    join_colon (''entity'' # opt_part (lnk_service link) @ [lnk_type link, lnk_id link])"
| "buildIdentityString ke (ScopeKey _ service scopeType params _) =
    join_colon (''scope'' # opt_part (truthy_text service) @ [scopeType] @ params_part ke params)"

fun buildIdentityStringFromTemplate :: "keyEngine \<Rightarrow> string cacheKeyTemplate \<Rightarrow> string" where
  "buildIdentityStringFromTemplate ke (EntityTemplate link _) =
    join_colon (''entity'' # opt_part (lnk_service link) @ [lnk_type link, lnk_id link])"
| "buildIdentityStringFromTemplate ke (ScopeTemplate service scopeType params _ _) =
    join_colon (''scope'' # opt_part (truthy_text service) @ [scopeType] @ params_part ke params)"

definition deriveScopeKey ::
  "keyEngine \<Rightarrow> string option \<Rightarrow> string \<Rightarrow> jsval option \<Rightarrow> string option \<Rightarrow> cacheKeyIdentity" where
  "deriveScopeKey ke service scopeType params parent =
    (let parts = opt_part (truthy_text service) @ [scopeType] @ params_part ke params
     in ScopeKey (ke_uuidv5 ke (''scope:'' @ join_colon parts)) service scopeType params parent)"

section \<open>Records\<close>

definition hydrateCacheKeyIdentity :: "keyEngine \<Rightarrow> cacheKeyRecord \<Rightarrow> cacheKeyIdentity option" where
  "hydrateCacheKeyIdentity ke r =
    (case ck_kind r of
       EntityKind \<Rightarrow> Some (EntityKey (ck_key r)
         \<lparr>lnk_service = truthy_text (ck_linkService r), lnk_type = case_option [] id (ck_linkType r),
          lnk_id = case_option [] id (ck_linkId r)\<rparr> (ck_parentKey r))
     | ScopeKind \<Rightarrow>
         (case truthy_text (ck_scopeParams r) of
            None \<Rightarrow> Some (ScopeKey (ck_key r) (ck_service r) (case_option [] id (ck_scopeType r)) None (ck_parentKey r))
          | Some text \<Rightarrow> map_option (\<lambda>p. ScopeKey (ck_key r) (ck_service r) (case_option [] id (ck_scopeType r))
              (Some p) (ck_parentKey r)) (ke_parse ke text)))"

definition identityToRecord ::
  "keyEngine \<Rightarrow> cacheKeyIdentity \<Rightarrow> evictionPolicy \<Rightarrow> int option \<Rightarrow> int \<Rightarrow> string option \<Rightarrow> cacheKeyRecord" where
  "identityToRecord ke k policy expires now pending =
    (let base = \<lparr>ck_key = idn_key k, ck_kind = (if isEntityCacheKey k then EntityKind else ScopeKind),
       ck_linkService = None, ck_linkType = None, ck_linkId = None, ck_service = None, ck_scopeType = None,
       ck_scopeParams = None, ck_parentKey = idn_parentKey k, ck_evictionPolicy = policy, ck_frozen = False,
       ck_frozenAt = None, ck_inheritedFrozen = False, ck_lastAccessedAt = now, ck_expiresAt = expires,
       ck_createdAt = now, ck_holdCount = 0, ck_estimatedSizeBytes = None, ck_pendingIdMappings = pending\<rparr>
     in case k of
       EntityKey _ link _ \<Rightarrow> base\<lparr>ck_linkType := Some (lnk_type link), ck_linkId := Some (lnk_id link),
         ck_linkService := lnk_service link\<rparr>
     | ScopeKey _ service scopeType params _ \<Rightarrow> base\<lparr>ck_service := service, ck_scopeType := Some scopeType,
         ck_scopeParams := map_option (ke_stringify ke) (nonempty_params params)\<rparr>)"

text \<open>The JSON of pending id mappings: \<open>JSON.stringify\<close> of the entries and the cast of what \<open>JSON.parse\<close> reads.\<close>

definition pending_json :: "pendingIdMapping list \<Rightarrow> jsval" where
  "pending_json es = JArr (map (\<lambda>e. JObj ([(''commandId'', JStr (pim_commandId e)), (''clientId'', JStr (pim_clientId e))]
     @ (case pim_paramKey e of Some p \<Rightarrow> [(''paramKey'', JStr p)] | None \<Rightarrow> []))) es)"

fun text_of :: "jsval \<Rightarrow> string" where
  "text_of (JStr s) = s"
| "text_of _ = []"

fun pending_of_json :: "jsval \<Rightarrow> pendingIdMapping list" where
  "pending_of_json (JArr xs) = map (\<lambda>v. \<lparr>pim_commandId = text_of (js_member v ''commandId''),
     pim_clientId = text_of (js_member v ''clientId''),
     pim_paramKey = (case js_member v ''paramKey'' of JStr p \<Rightarrow> Some p | _ \<Rightarrow> None)\<rparr>) xs"
| "pending_of_json _ = []"

section \<open>Entity references in a template\<close>

definition ref_pending :: "jsval \<Rightarrow> string option \<Rightarrow> pendingIdMapping" where
  "ref_pending ref paramKey = \<lparr>pim_commandId = text_of (js_member ref ''commandId''),
    pim_clientId = text_of (js_member ref ''entityId''), pim_paramKey = paramKey\<rparr>"

definition scan_top_level :: "(string, jsval) jsmap \<Rightarrow> (string, jsval) jsmap \<times> pendingIdMapping list" where
  "scan_top_level params =
    fold (\<lambda>(k, v) (resolved, pending).
        if isEntityRef v
        then (map_set k (js_member v ''entityId'') resolved, pending @ [ref_pending v (Some (dollar # dot # k))])
        else (resolved, pending))
      params (params, [])"

definition scan_declared ::
  "string list \<Rightarrow> jsval \<times> pendingIdMapping list \<Rightarrow> pathError + (jsval \<times> pendingIdMapping list)" where
  "scan_declared paths acc =
    bind_result (resolveRefPaths (fst acc) paths)
      (\<lambda>deepRefs. fold_result (\<lambda>(path, ref) (params, pending).
          if isEntityRef ref
          then map_result (\<lambda>params'. (params', pending @ [ref_pending ref (Some path)]))
            (setAtPath params path (js_member ref ''entityId''))
          else Inr (params, pending))
        deepRefs acc)"

fun scanTemplateForEntityRefs ::
  "jsval cacheKeyTemplate \<Rightarrow> pathError + (string cacheKeyTemplate \<times> pendingIdMapping list)" where
  "scanTemplateForEntityRefs (EntityTemplate link parent) =
    (if isEntityRef (lnk_id link)
     then Inr (EntityTemplate \<lparr>lnk_service = lnk_service link, lnk_type = lnk_type link,
         lnk_id = text_of (js_member (lnk_id link) ''entityId'')\<rparr> parent, [ref_pending (lnk_id link) None])
     else Inr (EntityTemplate \<lparr>lnk_service = lnk_service link, lnk_type = lnk_type link,
         lnk_id = text_of (lnk_id link)\<rparr> parent, []))"
| "scanTemplateForEntityRefs (ScopeTemplate service scopeType None parent paths) =
    Inr (ScopeTemplate service scopeType None parent paths, [])"
| "scanTemplateForEntityRefs (ScopeTemplate service scopeType (Some params) parent paths) =
    (let (resolved, pending) = scan_top_level (own_entries params)
     in bind_result
       (case paths of None \<Rightarrow> Inr (JObj resolved, pending) | Some ps \<Rightarrow> scan_declared ps (JObj resolved, pending))
       (\<lambda>(params', pending').
         if pending' \<noteq> [] then Inr (ScopeTemplate service scopeType (Some params') parent paths, pending')
         else Inr (ScopeTemplate service scopeType (Some params) parent paths, pending')))"

fun applyIdResolution :: "pendingIdMapping \<Rightarrow> string \<Rightarrow> cacheKeyIdentity \<Rightarrow> pathError + cacheKeyIdentity" where
  "applyIdResolution entry serverId (EntityKey key link parent) =
    Inr (EntityKey key (link\<lparr>lnk_id := serverId\<rparr>) parent)"
| "applyIdResolution entry serverId (ScopeKey key service scopeType params parent) =
    (case (truthy_text (pim_paramKey entry), params) of
       (Some path, Some p) \<Rightarrow>
         map_result (\<lambda>p'. ScopeKey key service scopeType (Some p') parent) (setAtPath p path (JStr serverId))
     | _ \<Rightarrow> Inr (ScopeKey key service scopeType params parent))"


section \<open>Properties\<close>

lemma pending_json_parse [simp]: "pending_of_json (pending_json es) = es"
  by (induction es) (auto simp: pending_json_def split: option.splits)

text \<open>
  C39: Persisting a cache key loses nothing. The record written for an identity hydrates to that
  identity: for an entity key when its service, if any, is not empty; for a scope key when its
  parameters, if any, are not the empty object and are given back by \<open>JSON.parse\<close> after
  \<open>JSON.stringify\<close>. The stored list of pending id mappings reads back as it was.
\<close>
theorem cache_key_roundtrip:
  assumes "isEntityCacheKey k \<Longrightarrow> lnk_service (idn_link k) \<noteq> Some []"
    and "\<forall>p. isScopeCacheKey k \<and> idn_scopeParams k = Some p \<longrightarrow>
      own_entries p \<noteq> [] \<and> ke_stringify ke p \<noteq> [] \<and> ke_parse ke (ke_stringify ke p) = Some p"
  shows "hydrateCacheKeyIdentity ke (identityToRecord ke k policy expires now pending) = Some k
    \<and> pending_of_json (pending_json es) = es"
proof (cases k)
  case (EntityKey key link parent)
  then show ?thesis
    using assms(1) by (simp add: hydrateCacheKeyIdentity_def identityToRecord_def)
next
  case (ScopeKey key service scopeType params parent)
  then show ?thesis
    using assms(2)
    by (cases params) (simp_all add: hydrateCacheKeyIdentity_def identityToRecord_def isScopeCacheKey_def
        nonempty_params_def truthy_text_def)
qed

definition toy_engine :: keyEngine where
  "toy_engine = \<lparr>ke_stringify = (\<lambda>v. text_of (js_member v ''room'')),
    ke_parse = (\<lambda>t. Some (JObj [(''room'', JStr t)])), ke_uuidv5 = (\<lambda>t. CHR ''u'' # t)\<rparr>"

definition room_scope :: cacheKeyIdentity where
  "room_scope = ScopeKey ''k1'' None ''messages'' (Some (JObj [(''room'', JStr ''r1'')])) None"

theorem cache_key_roundtrip_witness:
  "hydrateCacheKeyIdentity toy_engine (identityToRecord toy_engine room_scope Persistent None 5 None) = Some room_scope"
  using cache_key_roundtrip [of room_scope toy_engine Persistent None 5 None "[]"]
  by (simp add: room_scope_def toy_engine_def)

definition plain_part :: "string \<Rightarrow> bool" where
  "plain_part s \<longleftrightarrow> CHR '':'' \<notin> set s"

lemma join_colon_Cons: "ps \<noteq> [] \<Longrightarrow> join_colon (p # ps) = p @ CHR '':'' # join_colon ps"
  by (cases ps) auto

lemma plain_append_eq:
  "plain_part p \<Longrightarrow> plain_part q \<Longrightarrow> p @ CHR '':'' # xs = q @ CHR '':'' # ys \<longleftrightarrow> p = q \<and> xs = ys"
proof (induction p arbitrary: q)
  case Nil
  then show ?case by (cases q) (auto simp: plain_part_def)
next
  case (Cons c p)
  then show ?case by (cases q) (auto simp: plain_part_def)
qed

lemma join_colon_plain: "plain_part p \<Longrightarrow> ps \<noteq> [] \<Longrightarrow> plain_part q \<Longrightarrow> join_colon (p # ps) \<noteq> q"
  by (auto simp: join_colon_Cons plain_part_def)

lemma join_colon_inj:
  "\<forall>p \<in> set ps. plain_part p \<Longrightarrow> \<forall>q \<in> set qs. plain_part q \<Longrightarrow> ps \<noteq> [] \<Longrightarrow> qs \<noteq> [] \<Longrightarrow>
    join_colon ps = join_colon qs \<Longrightarrow> ps = qs"
proof (induction ps arbitrary: qs rule: join_colon.induct)
  case (2 p)
  then show ?case by (cases qs rule: join_colon.cases) (auto dest: join_colon_plain [THEN not_sym] simp: plain_part_def)
next
  case (3 p q ps)
  then obtain p' q' qs' where qs: "qs = p' # q' # qs'"
    by (cases qs rule: join_colon.cases) (auto dest: join_colon_plain simp: plain_part_def)
  have plain: "plain_part p" "plain_part p'" using 3(2,3) by (simp_all add: qs)
  have "p @ CHR '':'' # join_colon (q # ps) = p' @ CHR '':'' # join_colon (q' # qs')"
    using 3(6) by (simp add: qs)
  then have "p = p'" "join_colon (q # ps) = join_colon (q' # qs')"
    using plain_append_eq [OF plain] by blast+
  note eq = this
  have "q # ps = q' # qs'" by (rule "3.IH") (use 3(2,3) qs eq(2) in simp_all)
  then show ?case using qs eq by simp
qed simp

text \<open>
  The registry tells entity keys apart. When no part contains a colon, two entity keys have the
  same identity string exactly when they link to the same service, type and id, whatever their
  UUIDs and parents; and a key built from a template has the identity string of the template.
\<close>
theorem entity_identity_injective:
  assumes "\<forall>s \<in> set (opt_part (lnk_service l) @ [lnk_type l, lnk_id l]). plain_part s"
    and "\<forall>s \<in> set (opt_part (lnk_service l') @ [lnk_type l', lnk_id l']). plain_part s"
  shows "(buildIdentityString ke (EntityKey k l p) = buildIdentityString ke (EntityKey k' l' p') \<longleftrightarrow> l = l')
    \<and> buildIdentityString ke (templateToIdentity tpl key) = buildIdentityStringFromTemplate ke tpl"
proof
  let ?parts = "\<lambda>l :: string keyLink. ''entity'' # opt_part (lnk_service l) @ [lnk_type l, lnk_id l]"
  have "?parts l = ?parts l' \<Longrightarrow> l = l'"
    by (cases "lnk_service l"; cases "lnk_service l'") (auto simp: opt_part_def)
  moreover have "join_colon (?parts l) = join_colon (?parts l') \<Longrightarrow> ?parts l = ?parts l'"
    by (rule join_colon_inj) (use assms in \<open>auto simp: plain_part_def\<close>)
  ultimately show "buildIdentityString ke (EntityKey k l p) = buildIdentityString ke (EntityKey k' l' p') \<longleftrightarrow> l = l'"
    by (auto simp del: join_colon.simps)
  show "buildIdentityString ke (templateToIdentity tpl key) = buildIdentityStringFromTemplate ke tpl"
    by (cases tpl) simp_all
qed

theorem entity_identity_injective_witness:
  "buildIdentityString toy_engine (EntityKey ''k1'' \<lparr>lnk_service = None, lnk_type = ''Room'', lnk_id = ''r1''\<rparr> None) \<noteq>
   buildIdentityString toy_engine (EntityKey ''k2'' \<lparr>lnk_service = Some ''chat'', lnk_type = ''Room'', lnk_id = ''r1''\<rparr> None)"
  using entity_identity_injective [of "\<lparr>lnk_service = None, lnk_type = ''Room'', lnk_id = ''r1''\<rparr>"
      "\<lparr>lnk_service = Some ''chat'', lnk_type = ''Room'', lnk_id = ''r1''\<rparr>" toy_engine "''k1''" None "''k2''" None]
  by (simp add: opt_part_def plain_part_def)

text \<open>Two values that differ only in the order in which their objects list their properties.\<close>

inductive json_same :: "jsval \<Rightarrow> jsval \<Rightarrow> bool" where
  same: "json_same v v"
| arr: "list_all2 json_same xs ys \<Longrightarrow> json_same (JArr xs) (JArr ys)"
| obj: "map_wf kvs \<Longrightarrow> list_all2 (\<lambda>p q. fst p = fst q \<and> json_same (snd p) (snd q)) kvs mid \<Longrightarrow> mset mid = mset kvs' \<Longrightarrow>
    json_same (JObj kvs) (JObj kvs')"

lemma sort_key_distinct:
  assumes "distinct (map f xs)" "mset xs = mset ys"
  shows "sort_key f xs = sort_key f ys"
proof (rule properties_for_sort_key)
  show "mset (sort_key f ys) = mset xs" using assms(2) by simp
  show "filter (\<lambda>x. f k = f x) (sort_key f ys) = filter (\<lambda>x. f k = f x) xs"
    if "k \<in> set (sort_key f ys)" for k
  proof -
    have "k \<in> set xs" using that assms(2) by (metis set_mset_mset set_sort)
    note that = this
    have "mset (filter (\<lambda>x. f k = f x) ys) = mset (filter (\<lambda>x. f k = f x) xs)" using assms(2) by simp
    moreover have "filter (\<lambda>x. f k = f x) xs = [k]"
      using assms(1) that by (induction xs) (auto simp: filter_empty_conv image_iff)
    ultimately have "mset (filter (\<lambda>x. f k = f x) ys) = {#k#}" by simp
    then have "filter (\<lambda>x. f k = f x) ys = [k]" by (cases "filter (\<lambda>x. f k = f x) ys") auto
    then show ?thesis
      using \<open>filter (\<lambda>x. f k = f x) xs = [k]\<close> sort_key_stable [of f "f k" ys] by (simp add: eq_commute)
  qed
qed simp

lemma sort_keys_mset:
  assumes "map_wf kvs" "mset kvs = mset kvs'"
  shows "sortObjectKeys (JObj kvs) = sortObjectKeys (JObj kvs')"
proof -
  let ?g = "\<lambda>kvs. filter (\<lambda>(k, _). k \<noteq> ''__proto__'') (map (\<lambda>(k, v). (k, sortObjectKeys v)) kvs)"
  have keys: "map fst (?g kvs) = filter (\<lambda>k. k \<noteq> ''__proto__'') (map fst kvs)" for kvs
    by (induction kvs) auto
  have "distinct (map fst (?g kvs))"
    unfolding keys using assms(1) by (simp add: map_wf_def)
  moreover have "mset (?g kvs) = mset (?g kvs')" using assms(2) by simp
  ultimately show ?thesis by (simp add: sort_key_distinct)
qed


lemma json_same_sorted: "json_same v w \<Longrightarrow> sortObjectKeys v = sortObjectKeys w"
proof (induction rule: json_same.induct)
  case (arr xs ys)
  then show ?case by (simp add: list_all2_conv_all_nth list_eq_iff_nth_eq)
next
  case (obj kvs mid kvs')
  then have "map (\<lambda>(k, v). (k, sortObjectKeys v)) kvs = map (\<lambda>(k, v). (k, sortObjectKeys v)) mid"
    and keys: "map fst kvs = map fst mid"
    by (auto simp: list_all2_conv_all_nth list_eq_iff_nth_eq case_prod_beta)
  then have "sortObjectKeys (JObj kvs) = sortObjectKeys (JObj mid)" by simp
  also have "\<dots> = sortObjectKeys (JObj kvs')"
    by (rule sort_keys_mset) (use obj keys in \<open>simp_all add: map_wf_def\<close>)
  finally show ?case .
qed simp

text \<open>
  The order of properties never makes a new cache key. When two scope keys differ only in their
  UUIDs, their parents and the order in which the objects of their parameters list their properties,
  at any depth, they have the same identity string, and \<open>deriveScopeKey\<close> derives the same UUID.
\<close>
theorem scope_identity_order_free:
  assumes "json_same params params'"
  shows "buildIdentityString ke (ScopeKey k service scopeType (Some params) p) =
      buildIdentityString ke (ScopeKey k' service scopeType (Some params') p')
    \<and> idn_key (deriveScopeKey ke service scopeType (Some params) p) =
      idn_key (deriveScopeKey ke service scopeType (Some params') p')"
proof -
  have "own_entries params = [] \<longleftrightarrow> own_entries params' = []"
    using assms
  proof (cases rule: json_same.cases)
    case (obj kvs mid kvs')
    have "length kvs = length kvs'" using list_all2_lengthD [OF obj(4)] mset_eq_length [OF obj(5)] by simp
    then show ?thesis unfolding obj(1,2) by auto
  next
    case (arr xs ys)
    then have "length xs = length ys" by (simp add: list_all2_lengthD)
    then show ?thesis unfolding arr(1,2) by (auto simp: enumerate_eq_zip)
  qed simp
  then have "params_part ke (Some params) = params_part ke (Some params')"
    unfolding params_part_def nonempty_params_def stableStringify_def option.case
    by (simp only: json_same_sorted [OF assms] option.map split: if_split) blast
  then show ?thesis by (simp only: buildIdentityString.simps deriveScopeKey_def Let_def cacheKeyIdentity.sel simp_thms)
qed

theorem scope_identity_order_free_witness:
  "idn_key (deriveScopeKey toy_engine None ''messages'' (Some (JObj [(''room'', JStr ''r1''), (''day'', JNum 3)])) None) =
   idn_key (deriveScopeKey toy_engine None ''messages'' (Some (JObj [(''day'', JNum 3), (''room'', JStr ''r1'')])) None)"
proof -
  have "json_same (JObj [(''room'', JStr ''r1''), (''day'', JNum 3)]) (JObj [(''day'', JNum 3), (''room'', JStr ''r1'')])"
    by (rule json_same.obj [where mid = "[(''room'', JStr ''r1''), (''day'', JNum 3)]"])
      (auto simp: map_wf_def intro: json_same.same)
  from scope_identity_order_free [OF this] show ?thesis by blast
qed

end
