(* ===== verification/CacheManager.thy ===== *)
theory CacheManager
  imports CacheKey Storage
begin

text \<open>
  The cache manager, \<^verbatim>\<open>packages/client/src/core/cache-manager/CacheManager.ts\<close>: the in-memory registry
  of cache keys with its reverse indexes, holds by window, freezing, eviction and the deferred flush to
  storage.

  A registration is a value; mutating it in place is replacing it in the registry.  The clock, new
  UUIDs, the command queue's look-up of id mappings and the consumer's resolver are arguments;
  \<open>cm_flushOps\<close> counts the flush operations on the write queue and \<open>cm_emitted\<close> lists the events
  given to the event bus.  An asynchronous operation is split where another one could observe the
  registry half-way (\<open>acquire_start\<close> and \<open>acquire_new\<close> around the \<open>await\<close> of \<open>acquireKey\<close>); evictions await
  storage with the registry already updated.  A
  recursion over the key hierarchy that the source does not bound is a partial function: \<open>None\<close>
  is a recursion or loop that does not end.
\<close>

section \<open>State\<close>

record registration =
  reg_identity :: cacheKeyIdentity
  reg_pending :: "pendingIdMapping list"
  reg_policy :: evictionPolicy
  reg_expiresAt :: "int option"
  reg_lastAccessedAt :: int
  reg_createdAt :: int
  reg_frozen :: bool
  reg_frozenAt :: "int option"
  reg_inheritedFrozen :: bool

datatype evictReason = ReasonLru | ReasonExpired | ReasonExplicit | ReasonSessionChange

datatype cacheEvent =
    KeyAdded cacheKeyIdentity evictionPolicy
  | KeyAccessed cacheKeyIdentity
  | KeyReconciled cacheKeyIdentity cacheKeyIdentity string string string
  | KeyEvicted cacheKeyIdentity evictReason
  | FrozenChanged cacheKeyIdentity bool "int option"
  | TooManyWindows string int
  | SessionReset string string

record 'c cacheManager =
  cm_maxCacheKeys :: int
  cm_defaultTtl :: int
  cm_maxWindows :: int
  cm_writeQueue :: bool
  cm_holdsByKey :: "(string, string list) jsmap"
  cm_registeredWindows :: "string list"
  cm_registry :: "(string, registration) jsmap"
  cm_uuidToIdentity :: "(string, string) jsmap"
  cm_pendingByCommand :: "(string, string list) jsmap"
  cm_childrenByParent :: "(string, string list) jsmap"
  cm_dirty :: "string list"
  cm_deletedKeys :: "string list"
  cm_flushPending :: bool
  cm_flushOps :: nat
  cm_storage :: "'c inMemoryStorage"
  cm_emitted :: "cacheEvent list"

definition new_cacheManager ::
  "int option \<Rightarrow> int option \<Rightarrow> int option \<Rightarrow> 'c inMemoryStorage \<Rightarrow> 'c cacheManager" where
  "new_cacheManager maxKeys ttl maxWindows st =
    \<lparr>cm_maxCacheKeys = case_option 1000 id maxKeys, cm_defaultTtl = case_option (30 * 60 * 1000) id ttl,
     cm_maxWindows = case_option 10 id maxWindows, cm_writeQueue = False, cm_holdsByKey = [],
     cm_registeredWindows = [], cm_registry = [], cm_uuidToIdentity = [], cm_pendingByCommand = [],
     cm_childrenByParent = [], cm_dirty = [], cm_deletedKeys = [], cm_flushPending = False, cm_flushOps = 0,
     cm_storage = st, cm_emitted = []\<rparr>"

definition setWriteQueue :: "'c cacheManager \<Rightarrow> 'c cacheManager" where
  "setWriteQueue s = s\<lparr>cm_writeQueue := True\<rparr>"

text \<open>The eviction handler that \<open>setWriteQueue\<close> registers for the flush operation.\<close>

definition flush_evicted :: "'c cacheManager \<Rightarrow> 'c cacheManager" where
  "flush_evicted s = s\<lparr>cm_flushPending := False, cm_flushOps := cm_flushOps s - 1\<rparr>"

record keyOptions =
  opt_hold :: bool
  opt_windowId :: "string option"
  opt_ttl :: "int option"
  opt_evictionPolicy :: "evictionPolicy option"

section \<open>Look-up and indexes\<close>

definition sets_get :: "(string, string list) jsmap \<Rightarrow> string \<Rightarrow> string list" where
  "sets_get m k = (case map_get m k of Some xs \<Rightarrow> xs | None \<Rightarrow> [])"

text \<open>Get the set of a key, or make it, and add an element.\<close>

definition sets_add :: "string \<Rightarrow> string \<Rightarrow> (string, string list) jsmap \<Rightarrow> (string, string list) jsmap" where
  "sets_add k x m = map_set k (set_add x (sets_get m k)) m"

abbreviation children_of :: "'c cacheManager \<Rightarrow> string \<Rightarrow> string list" where
  "children_of s k \<equiv> sets_get (cm_childrenByParent s) k"

abbreviation holders :: "'c cacheManager \<Rightarrow> string \<Rightarrow> string list" where
  "holders s k \<equiv> sets_get (cm_holdsByKey s) k"

definition getRegistration :: "'c cacheManager \<Rightarrow> string \<Rightarrow> registration option" where
  "getRegistration s k = Option.bind (map_get (cm_uuidToIdentity s) k) (map_get (cm_registry s))"

definition existsSync :: "'c cacheManager \<Rightarrow> string \<Rightarrow> bool" where
  "existsSync s k \<longleftrightarrow> map_has (cm_uuidToIdentity s) k"

definition cm_filterExistingCacheKeys :: "'c cacheManager \<Rightarrow> string list \<Rightarrow> string list" where
  "cm_filterExistingCacheKeys s ks = filter (map_has (cm_uuidToIdentity s)) ks"

definition getCount :: "'c cacheManager \<Rightarrow> nat" where
  "getCount s = length (cm_registry s)"

definition iterateIdentities :: "'c cacheManager \<Rightarrow> cacheKeyIdentity list" where
  "iterateIdentities s = map reg_identity (map_values (cm_registry s))"

definition registrationToRecord :: "keyEngine \<Rightarrow> 'c cacheManager \<Rightarrow> registration \<Rightarrow> cacheKeyRecord" where
  "registrationToRecord ke s reg =
    (identityToRecord ke (reg_identity reg) (reg_policy reg) (reg_expiresAt reg) (reg_lastAccessedAt reg)
       (if reg_pending reg \<noteq> [] then Some (ke_stringify ke (pending_json (reg_pending reg))) else None))
     \<lparr>ck_createdAt := reg_createdAt reg, ck_frozen := reg_frozen reg, ck_frozenAt := reg_frozenAt reg,
      ck_inheritedFrozen := reg_inheritedFrozen reg, ck_holdCount := length (holders s (idn_key (reg_identity reg)))\<rparr>"

definition cm_get :: "keyEngine \<Rightarrow> 'c cacheManager \<Rightarrow> string \<Rightarrow> cacheKeyRecord option" where
  "cm_get ke s k = map_option (registrationToRecord ke s) (getRegistration s k)"

definition cm_isFrozen :: "'c cacheManager \<Rightarrow> string \<Rightarrow> bool" where
  "cm_isFrozen s k = (case getRegistration s k of None \<Rightarrow> False | Some reg \<Rightarrow> reg_frozen reg)"

text \<open>Mutating the registration of a key in place.\<close>

definition modify_registration ::
  "string \<Rightarrow> (registration \<Rightarrow> registration) \<Rightarrow> 'c cacheManager \<Rightarrow> 'c cacheManager" where
  "modify_registration k f s =
    (case map_get (cm_uuidToIdentity s) k of
       None \<Rightarrow> s
     | Some ids \<Rightarrow> (case map_get (cm_registry s) ids of
         None \<Rightarrow> s
       | Some reg \<Rightarrow> s\<lparr>cm_registry := map_set ids (f reg) (cm_registry s)\<rparr>))"

definition cm_emit :: "cacheEvent \<Rightarrow> 'c cacheManager \<Rightarrow> 'c cacheManager" where
  "cm_emit e s = s\<lparr>cm_emitted := cm_emitted s @ [e]\<rparr>"

definition mark_dirty :: "string \<Rightarrow> 'c cacheManager \<Rightarrow> 'c cacheManager" where
  "mark_dirty k s = s\<lparr>cm_dirty := set_add k (cm_dirty s)\<rparr>"

definition scheduleDirtyFlush :: "'c cacheManager \<Rightarrow> 'c cacheManager" where
  "scheduleDirtyFlush s =
    (if cm_flushPending s \<or> (cm_dirty s = [] \<and> cm_deletedKeys s = []) then s
     else if \<not> cm_writeQueue s then s
     else s\<lparr>cm_flushPending := True, cm_flushOps := cm_flushOps s + 1\<rparr>)"

definition removeFromRegistry :: "string \<Rightarrow> 'c cacheManager \<Rightarrow> 'c cacheManager" where
  "removeFromRegistry k s =
    (case map_get (cm_uuidToIdentity s) k of
       None \<Rightarrow> s
     | Some ids \<Rightarrow>
         (let parent = Option.bind (map_get (cm_registry s) ids) (\<lambda>reg. truthy_text (idn_parentKey (reg_identity reg)));
              children = (case parent of
                 None \<Rightarrow> cm_childrenByParent s
               | Some p \<Rightarrow> (case map_get (cm_childrenByParent s) p of
                   None \<Rightarrow> cm_childrenByParent s
                 | Some siblings \<Rightarrow>
                     if set_remove k siblings = [] then map_delete p (cm_childrenByParent s)
                     else map_set p (set_remove k siblings) (cm_childrenByParent s)))
          in s\<lparr>cm_registry := map_delete ids (cm_registry s), cm_uuidToIdentity := map_delete k (cm_uuidToIdentity s),
               cm_holdsByKey := map_delete k (cm_holdsByKey s), cm_dirty := set_remove k (cm_dirty s),
               cm_childrenByParent := map_delete k children\<rparr>))"

section \<open>Start-up\<close>

definition load_key :: "keyEngine \<Rightarrow> cacheKeyRecord \<Rightarrow> 'c cacheManager \<Rightarrow> 'c cacheManager option" where
  "load_key ke r s =
    Option.bind (hydrateCacheKeyIdentity ke r) (\<lambda>identity.
    Option.bind (case truthy_text (ck_pendingIdMappings r) of
        None \<Rightarrow> Some []
      | Some text \<Rightarrow> map_option pending_of_json (ke_parse ke text)) (\<lambda>pending.
      let ids = buildIdentityString ke identity;
          reg = \<lparr>reg_identity = identity, reg_pending = pending, reg_policy = ck_evictionPolicy r,
            reg_expiresAt = ck_expiresAt r, reg_lastAccessedAt = ck_lastAccessedAt r, reg_createdAt = ck_createdAt r,
            reg_frozen = ck_frozen r, reg_frozenAt = ck_frozenAt r, reg_inheritedFrozen = ck_inheritedFrozen r\<rparr>
      in Some (s\<lparr>cm_registry := map_set ids reg (cm_registry s),
           cm_uuidToIdentity := map_set (ck_key r) ids (cm_uuidToIdentity s),
           cm_childrenByParent := (case truthy_text (ck_parentKey r) of
             None \<Rightarrow> cm_childrenByParent s | Some p \<Rightarrow> sets_add p (ck_key r) (cm_childrenByParent s)),
           cm_pendingByCommand := fold (\<lambda>e. sets_add (pim_commandId e) (ck_key r)) pending (cm_pendingByCommand s)\<rparr>)))"

fun load_keys :: "keyEngine \<Rightarrow> cacheKeyRecord list \<Rightarrow> 'c cacheManager \<Rightarrow> 'c cacheManager option" where
  "load_keys ke [] s = Some s"
| "load_keys ke (r # rs) s =
    (if ck_evictionPolicy r = Ephemeral
     then Option.bind (hydrateCacheKeyIdentity ke r)
       (\<lambda>identity. load_keys ke rs (cm_emit (KeyEvicted identity ReasonExplicit) s))
     else Option.bind (load_key ke r s) (load_keys ke rs))"

text \<open>\<open>None\<close>: a stored JSON text does not parse, and the promise is rejected.\<close>

definition cm_initialize :: "keyEngine \<Rightarrow> 'c cacheManager \<Rightarrow> 'c cacheManager option" where
  "cm_initialize ke s =
    (let allKeys = getAllCacheKeys (cm_storage s);
         ephemeral = map ck_key (filter (\<lambda>r. ck_evictionPolicy r = Ephemeral) allKeys);
         holdResets = map (\<lambda>r. r\<lparr>ck_holdCount := 0\<rparr>)
           (filter (\<lambda>r. ck_evictionPolicy r \<noteq> Ephemeral \<and> ck_holdCount r \<noteq> 0) allKeys)
     in map_option (\<lambda>s'. s'\<lparr>cm_storage := saveCacheKeys holdResets (deleteCacheKeys ephemeral (cm_storage s'))\<rparr>)
       (load_keys ke allKeys s))"

section \<open>Holds and windows\<close>

definition holdForWindow :: "string \<Rightarrow> string \<Rightarrow> 'c cacheManager \<Rightarrow> 'c cacheManager" where
  "holdForWindow k w s =
    (if w \<in> set (holders s k) then s
     else scheduleDirtyFlush (mark_dirty k (s\<lparr>cm_holdsByKey := sets_add k w (cm_holdsByKey s)\<rparr>)))"

definition hold_option :: "keyOptions \<Rightarrow> string \<Rightarrow> 'c cacheManager \<Rightarrow> 'c cacheManager" where
  "hold_option opts k s =
    (case truthy_text (opt_windowId opts) of
       Some w \<Rightarrow> if opt_hold opts then holdForWindow k w s else s
     | None \<Rightarrow> s)"

text \<open>The automatic eviction of an ephemeral key, deferred to the next flush.\<close>

definition auto_evict :: "string \<Rightarrow> registration \<Rightarrow> 'c cacheManager \<Rightarrow> 'c cacheManager" where
  "auto_evict k reg s =
    (let s1 = removeFromRegistry k s
     in cm_emit (KeyEvicted (reg_identity reg) ReasonExplicit) (s1\<lparr>cm_deletedKeys := set_add k (cm_deletedKeys s1)\<rparr>))"

definition drop_hold :: "string \<Rightarrow> string \<Rightarrow> 'c cacheManager \<Rightarrow> 'c cacheManager" where
  "drop_hold k w s =
    (let ws = set_remove w (holders s k)
     in if ws = []
        then (let s1 = s\<lparr>cm_holdsByKey := map_delete k (cm_holdsByKey s)\<rparr>
              in case getRegistration s1 k of
                   Some reg \<Rightarrow> if reg_policy reg = Ephemeral
                     then auto_evict (idn_key (reg_identity reg)) reg s1 else mark_dirty k s1
                 | None \<Rightarrow> mark_dirty k s1)
        else mark_dirty k (s\<lparr>cm_holdsByKey := map_set k ws (cm_holdsByKey s)\<rparr>))"

definition releaseForWindow :: "string \<Rightarrow> string \<Rightarrow> 'c cacheManager \<Rightarrow> 'c cacheManager" where
  "releaseForWindow k w s = (if w \<notin> set (holders s k) then s else scheduleDirtyFlush (drop_hold k w s))"

definition release_one :: "string \<Rightarrow> 'c cacheManager \<Rightarrow> 'c cacheManager" where
  "release_one k s =
    (if holders s k = [] then s
     else
       (let s1 = s\<lparr>cm_holdsByKey := map_delete k (cm_holdsByKey s)\<rparr>
        in mark_dirty k
          (case getRegistration s1 k of
             Some reg \<Rightarrow> if reg_policy reg = Ephemeral then auto_evict k reg s1 else s1
           | None \<Rightarrow> s1)))"

definition releaseHolds :: "string list \<Rightarrow> 'c cacheManager \<Rightarrow> 'c cacheManager" where
  "releaseHolds ks s = scheduleDirtyFlush (fold release_one ks s)"

definition releaseAllForWindow :: "string \<Rightarrow> 'c cacheManager \<Rightarrow> 'c cacheManager" where
  "releaseAllForWindow w s =
    (let ks = map fst (filter (\<lambda>(_, ws). w \<in> set ws) (cm_holdsByKey s))
     in scheduleDirtyFlush (fold (\<lambda>k s'. if map_has (cm_holdsByKey s') k then drop_hold k w s' else s') ks s))"

definition registerWindow :: "string \<Rightarrow> 'c cacheManager \<Rightarrow> bool \<times> 'c cacheManager" where
  "registerWindow w s =
    (if w \<in> set (cm_registeredWindows s) then (True, s)
     else if int (length (cm_registeredWindows s)) \<ge> cm_maxWindows s
     then (False, cm_emit (TooManyWindows w (cm_maxWindows s)) s)
     else (True, s\<lparr>cm_registeredWindows := set_add w (cm_registeredWindows s)\<rparr>))"

definition unregisterWindow :: "string \<Rightarrow> 'c cacheManager \<Rightarrow> 'c cacheManager" where
  "unregisterWindow w s =
    releaseAllForWindow w (s\<lparr>cm_registeredWindows := set_remove w (cm_registeredWindows s)\<rparr>)"

section \<open>Eviction\<close>

text \<open>A leaf of the hierarchy, held by no window and not frozen.\<close>

definition is_evictable :: "'c cacheManager \<Rightarrow> registration \<Rightarrow> bool" where
  "is_evictable s reg \<longleftrightarrow> children_of s (idn_key (reg_identity reg)) = [] \<and>
    holders s (idn_key (reg_identity reg)) = [] \<and> \<not> reg_frozen reg \<and> \<not> reg_inheritedFrozen reg"

definition evict_now :: "evictReason \<Rightarrow> string \<Rightarrow> cacheKeyIdentity \<Rightarrow> 'c cacheManager \<Rightarrow> 'c cacheManager" where
  "evict_now reason k identity s =
    (let s1 = removeFromRegistry k s
     in cm_emit (KeyEvicted identity reason) (s1\<lparr>cm_storage := deleteCacheKey k (cm_storage s1)\<rparr>))"

definition older_of :: "registration \<Rightarrow> registration option \<Rightarrow> registration option" where
  "older_of reg best =
    (case best of
       None \<Rightarrow> Some reg
     | Some b \<Rightarrow> if reg_lastAccessedAt reg < reg_lastAccessedAt b then Some reg else best)"

definition eviction_victim :: "'c cacheManager \<Rightarrow> registration option" where
  "eviction_victim s =
    (let (ephemeral, persistent) = fold (\<lambda>reg (e, p).
          if \<not> is_evictable s reg then (e, p)
          else if reg_policy reg = Ephemeral then (older_of reg e, p) else (e, older_of reg p))
        (map_values (cm_registry s)) (None, None)
     in case ephemeral of Some reg \<Rightarrow> Some reg | None \<Rightarrow> persistent)"

definition maybeEvict :: "'c cacheManager \<Rightarrow> 'c cacheManager" where
  "maybeEvict s =
    (if int (length (cm_registry s)) < cm_maxCacheKeys s then s
     else case eviction_victim s of
       Some reg \<Rightarrow> evict_now ReasonLru (idn_key (reg_identity reg)) (reg_identity reg) s
     | None \<Rightarrow> s)"

definition cm_evict :: "string \<Rightarrow> 'c cacheManager \<Rightarrow> bool \<times> 'c cacheManager" where
  "cm_evict k s =
    (case getRegistration s k of
       None \<Rightarrow> (False, s)
     | Some reg \<Rightarrow>
         if holders s k \<noteq> [] then (False, s)
         else if reg_frozen reg \<or> reg_inheritedFrozen reg then (False, s)
         else if children_of s k \<noteq> [] then (False, s)
         else (True, evict_now ReasonExplicit k (reg_identity reg) s))"

text \<open>The loop of \<open>evictAll\<close>: each pass evicts the first evictable entry of the registry.\<close>

partial_function (option) evictAll_from :: "nat \<Rightarrow> 'c cacheManager \<Rightarrow> (nat \<times> 'c cacheManager) option" where
  "evictAll_from n s =
    (case find (is_evictable s) (map_values (cm_registry s)) of
       None \<Rightarrow> Some (n, s)
     | Some reg \<Rightarrow> evictAll_from (Suc n)
         (evict_now ReasonExplicit (idn_key (reg_identity reg)) (reg_identity reg) s))"

definition evictAll :: "'c cacheManager \<Rightarrow> (nat \<times> 'c cacheManager) option" where
  "evictAll s = evictAll_from 0 s"

definition is_expired :: "int \<Rightarrow> 'c cacheManager \<Rightarrow> registration \<Rightarrow> bool" where
  "is_expired now s reg \<longleftrightarrow> (case reg_expiresAt reg of Some t \<Rightarrow> t \<le> now | None \<Rightarrow> False) \<and>
    \<not> reg_frozen reg \<and> \<not> reg_inheritedFrozen reg \<and> holders s (idn_key (reg_identity reg)) = []"

definition evictExpired :: "int \<Rightarrow> 'c cacheManager \<Rightarrow> nat \<times> 'c cacheManager" where
  "evictExpired now s =
    (let toEvict = map reg_identity (filter (is_expired now s) (map_values (cm_registry s)))
     in (length toEvict, fold (\<lambda>identity. evict_now ReasonExpired (idn_key identity) identity) toEvict s))"

section \<open>Acquiring\<close>

definition new_registration ::
  "int \<Rightarrow> cacheKeyIdentity \<Rightarrow> pendingIdMapping list \<Rightarrow> keyOptions \<Rightarrow> 'c cacheManager \<Rightarrow> registration" where
  "new_registration now identity pending opts s =
    (let ttl = (case opt_ttl opts of Some t \<Rightarrow> t | None \<Rightarrow> cm_defaultTtl s)
     in \<lparr>reg_identity = identity, reg_pending = pending,
         reg_policy = (case opt_evictionPolicy opts of Some p \<Rightarrow> p | None \<Rightarrow> Persistent),
         reg_expiresAt = (if ttl > 0 then Some (now + ttl) else None), reg_lastAccessedAt = now,
         reg_createdAt = now, reg_frozen = False, reg_frozenAt = None, reg_inheritedFrozen = False\<rparr>)"

text \<open>The entry, its reverse look-up, its place in the hierarchy.\<close>

definition insert_registration :: "string \<Rightarrow> registration \<Rightarrow> 'c cacheManager \<Rightarrow> 'c cacheManager" where
  "insert_registration ids reg s =
    (let k = idn_key (reg_identity reg)
     in mark_dirty k (s\<lparr>cm_registry := map_set ids reg (cm_registry s),
          cm_uuidToIdentity := map_set k ids (cm_uuidToIdentity s),
          cm_childrenByParent := (case truthy_text (idn_parentKey (reg_identity reg)) of
            None \<Rightarrow> cm_childrenByParent s | Some p \<Rightarrow> sets_add p k (cm_childrenByParent s))\<rparr>))"

definition access_existing ::
  "int \<Rightarrow> string \<Rightarrow> registration \<Rightarrow> keyOptions \<Rightarrow> 'c cacheManager \<Rightarrow> 'c cacheManager" where
  "access_existing now ids reg opts s =
    (let k = idn_key (reg_identity reg);
         s1 = s\<lparr>cm_registry := map_set ids (reg\<lparr>reg_lastAccessedAt := now\<rparr>) (cm_registry s)\<rparr>
     in cm_emit (KeyAccessed (reg_identity reg)) (hold_option opts k (mark_dirty k s1)))"

text \<open>
  \<open>acquireKey\<close> up to its \<open>await\<close>: a registered identity is touched and returned; otherwise room is made.
\<close>

definition acquire_start ::
  "keyEngine \<Rightarrow> int \<Rightarrow> cacheKeyIdentity \<Rightarrow> keyOptions \<Rightarrow> 'c cacheManager \<Rightarrow>
   cacheKeyIdentity option \<times> 'c cacheManager" where
  "acquire_start ke now identity opts s =
    (let ids = buildIdentityString ke identity
     in case map_get (cm_registry s) ids of
          Some reg \<Rightarrow> (Some (reg_identity reg), scheduleDirtyFlush (access_existing now ids reg opts s))
        | None \<Rightarrow> (None, maybeEvict s))"

text \<open>
  What follows the eviction that \<open>acquireKey\<close> awaits before it adds a new key. The registry is not
  looked at again: what another operation registered under the identity string meanwhile is replaced,
  and the room that the eviction made may be taken.
\<close>

definition acquire_new ::
  "keyEngine \<Rightarrow> int \<Rightarrow> cacheKeyIdentity \<Rightarrow> keyOptions \<Rightarrow> 'c cacheManager \<Rightarrow> 'c cacheManager" where
  "acquire_new ke now identity opts s =
    (let reg = new_registration now identity [] opts s
     in scheduleDirtyFlush (cm_emit (KeyAdded identity (reg_policy reg))
          (hold_option opts (idn_key identity) (insert_registration (buildIdentityString ke identity) reg s))))"

text \<open>
  The whole operation when nothing else runs during the \<open>await\<close>. Runs of the manager use its two halves.
\<close>

definition acquireKey ::
  "keyEngine \<Rightarrow> int \<Rightarrow> cacheKeyIdentity \<Rightarrow> keyOptions \<Rightarrow> 'c cacheManager \<Rightarrow> cacheKeyIdentity \<times> 'c cacheManager" where
  "acquireKey ke now identity opts s =
    (case acquire_start ke now identity opts s of
       (Some existing, s') \<Rightarrow> (existing, s')
     | (None, s') \<Rightarrow> (identity, acquire_new ke now identity opts s'))"

definition acquire ::
  "keyEngine \<Rightarrow> int \<Rightarrow> cacheKeyIdentity \<Rightarrow> keyOptions \<Rightarrow> 'c cacheManager \<Rightarrow> string \<times> 'c cacheManager" where
  "acquire ke now identity opts s = map_prod idn_key id (acquireKey ke now identity opts s)"

definition cm_touch :: "keyEngine \<Rightarrow> int \<Rightarrow> cacheKeyIdentity \<Rightarrow> 'c cacheManager \<Rightarrow> 'c cacheManager" where
  "cm_touch ke now identity s =
    snd (acquireKey ke now identity
      \<lparr>opt_hold = False, opt_windowId = None, opt_ttl = None, opt_evictionPolicy = None\<rparr> s)"

section \<open>Registration from templates\<close>

text \<open>\<open>idMapping\<close> is the server id that the command queue knows for a client id.\<close>

definition resolve_settled ::
  "(string \<Rightarrow> string option) \<Rightarrow> pendingIdMapping list \<Rightarrow> cacheKeyIdentity \<Rightarrow>
   pathError + (cacheKeyIdentity \<times> pendingIdMapping list)" where
  "resolve_settled idMapping entries identity =
    fold_result (\<lambda>entry (identity, unresolved).
        case idMapping (pim_clientId entry) of
          Some serverId \<Rightarrow> map_result (\<lambda>i. (i, unresolved)) (applyIdResolution entry serverId identity)
        | None \<Rightarrow> Inr (identity, unresolved @ [entry]))
      entries (identity, [])"

definition registerCacheKeySync ::
  "keyEngine \<Rightarrow> int \<Rightarrow> string \<Rightarrow> (string \<Rightarrow> string option) \<Rightarrow> jsval cacheKeyTemplate \<Rightarrow> keyOptions \<Rightarrow>
   'c cacheManager \<Rightarrow> pathError + (cacheKeyIdentity \<times> 'c cacheManager)" where
  "registerCacheKeySync ke now newId idMapping template opts s =
    bind_result (scanTemplateForEntityRefs template) (\<lambda>(resolved, entries).
      let ids = buildIdentityStringFromTemplate ke resolved
      in case map_get (cm_registry s) ids of
           Some reg \<Rightarrow> Inr (reg_identity reg, access_existing now ids reg opts s)
         | None \<Rightarrow>
             map_result (\<lambda>(identity, unresolved).
                 let reg = new_registration now identity unresolved opts s;
                     s1 = insert_registration ids reg s;
                     s2 = s1\<lparr>cm_pendingByCommand :=
                       fold (\<lambda>e. sets_add (pim_commandId e) newId) unresolved (cm_pendingByCommand s1)\<rparr>
                 in (identity, cm_emit (KeyAdded identity (reg_policy reg)) (hold_option opts newId s2)))
               (resolve_settled idMapping entries (templateToIdentity resolved newId)))"

definition registerCacheKey ::
  "keyEngine \<Rightarrow> int \<Rightarrow> string \<Rightarrow> (string \<Rightarrow> string option) \<Rightarrow> jsval cacheKeyTemplate \<Rightarrow> keyOptions \<Rightarrow>
   'c cacheManager \<Rightarrow> pathError + (cacheKeyIdentity \<times> 'c cacheManager)" where
  "registerCacheKey ke now newId idMapping template opts s =
    map_result (\<lambda>(identity, s'). (identity, scheduleDirtyFlush (hold_option opts (idn_key identity) s')))
      (registerCacheKeySync ke now newId idMapping template opts s)"

text \<open>What the consumer's resolver may change of an identity.\<close>

fun adopt_identity :: "cacheKeyIdentity \<Rightarrow> cacheKeyIdentity \<Rightarrow> cacheKeyIdentity" where
  "adopt_identity (EntityKey _ link _) (EntityKey key _ parent) = EntityKey key link parent"
| "adopt_identity (ScopeKey _ _ _ params _) (ScopeKey key service scopeType _ parent) =
    ScopeKey key service scopeType params parent"
| "adopt_identity _ identity = identity"

definition reconcile_registration ::
  "keyEngine \<Rightarrow> string \<Rightarrow> string \<Rightarrow> registration \<Rightarrow> pendingIdMapping \<Rightarrow> string \<Rightarrow> cacheKeyIdentity \<Rightarrow>
   'c cacheManager \<Rightarrow> 'c cacheManager" where
  "reconcile_registration ke cid k reg entry serverId identity s =
    (let reg' = reg\<lparr>reg_identity := identity,
           reg_pending := filter (\<lambda>e. pim_commandId e \<noteq> cid) (reg_pending reg)\<rparr>;
         ids = the (map_get (cm_uuidToIdentity s) k);
         ids' = buildIdentityString ke identity;
         s1 = s\<lparr>cm_registry := map_set ids' reg' (map_delete ids (cm_registry s)),
                cm_uuidToIdentity := map_set k ids' (cm_uuidToIdentity s)\<rparr>
     in cm_emit (KeyReconciled identity (reg_identity reg) cid (pim_clientId entry) serverId) (mark_dirty k s1))"

definition resolve_key ::
  "keyEngine \<Rightarrow> string \<Rightarrow> (string \<Rightarrow> string option) \<Rightarrow> (cacheKeyIdentity \<Rightarrow> cacheKeyIdentity) option \<Rightarrow> string \<Rightarrow>
   'c cacheManager \<Rightarrow> pathError + 'c cacheManager" where
  "resolve_key ke cid idMap resolver k s =
    (case getRegistration s k of
       None \<Rightarrow> Inr s
     | Some reg \<Rightarrow> (case find (\<lambda>e. pim_commandId e = cid) (reg_pending reg) of
         None \<Rightarrow> Inr s
       | Some entry \<Rightarrow> (case idMap (pim_clientId entry) of
           None \<Rightarrow> Inr s
         | Some serverId \<Rightarrow>
             map_result (\<lambda>identity. reconcile_registration ke cid k reg entry serverId identity s)
               (case resolver of
                  Some f \<Rightarrow> Inr (adopt_identity (f (reg_identity reg)) (reg_identity reg))
                | None \<Rightarrow> applyIdResolution entry serverId (reg_identity reg)))))"

text \<open>A path that cannot be written throws out of the loop; what is done stays done.\<close>

fun resolve_keys ::
  "keyEngine \<Rightarrow> string \<Rightarrow> (string \<Rightarrow> string option) \<Rightarrow> (cacheKeyIdentity \<Rightarrow> cacheKeyIdentity) option \<Rightarrow>
   string list \<Rightarrow> 'c cacheManager \<Rightarrow> pathError option \<times> 'c cacheManager" where
  "resolve_keys ke cid idMap resolver [] s =
    (None, scheduleDirtyFlush (s\<lparr>cm_pendingByCommand := map_delete cid (cm_pendingByCommand s)\<rparr>))"
| "resolve_keys ke cid idMap resolver (k # ks) s =
    (case resolve_key ke cid idMap resolver k s of
       Inl e \<Rightarrow> (Some e, s)
     | Inr s' \<Rightarrow> resolve_keys ke cid idMap resolver ks s')"

definition resolvePendingKeys ::
  "keyEngine \<Rightarrow> string \<Rightarrow> (string \<Rightarrow> string option) \<Rightarrow> (cacheKeyIdentity \<Rightarrow> cacheKeyIdentity) option \<Rightarrow>
   'c cacheManager \<Rightarrow> pathError option \<times> 'c cacheManager" where
  "resolvePendingKeys ke cid idMap resolver s =
    (let ks = sets_get (cm_pendingByCommand s) cid
     in if ks = [] then (None, s) else resolve_keys ke cid idMap resolver ks s)"

section \<open>Freezing\<close>

definition set_inherited :: "bool \<Rightarrow> string \<Rightarrow> registration \<Rightarrow> 'c cacheManager \<Rightarrow> 'c cacheManager" where
  "set_inherited b k reg s =
    (if reg_inheritedFrozen reg \<noteq> b
     then mark_dirty k (modify_registration k (\<lambda>reg. reg\<lparr>reg_inheritedFrozen := b\<rparr>) s) else s)"

text \<open>
  The two recursions visit the descendants of a key in depth-first order; the list holds the keys
  whose visit is pending, so that the children of a key precede its later siblings.
\<close>

partial_function (option) propagate_to :: "bool \<Rightarrow> string list \<Rightarrow> 'c cacheManager \<Rightarrow> 'c cacheManager option" where
  "propagate_to frozen work s =
    (case work of
       [] \<Rightarrow> Some s
     | k # ks \<Rightarrow> (case getRegistration s k of
         None \<Rightarrow> propagate_to frozen ks s
       | Some reg \<Rightarrow>
           if reg_policy reg = Ephemeral then propagate_to frozen ks s
           else propagate_to frozen (children_of s k @ ks) (set_inherited frozen k reg s)))"

definition propagateInheritedFrozen :: "string \<Rightarrow> bool \<Rightarrow> 'c cacheManager \<Rightarrow> 'c cacheManager option" where
  "propagateInheritedFrozen k frozen s = propagate_to frozen (children_of s k) s"

partial_function (option) isAncestorFrozen :: "'c cacheManager \<Rightarrow> string \<Rightarrow> bool option" where
  "isAncestorFrozen s k =
    (case Option.bind (getRegistration s k) (\<lambda>reg. truthy_text (idn_parentKey (reg_identity reg))) of
       None \<Rightarrow> Some False
     | Some p \<Rightarrow> (case getRegistration s p of
         None \<Rightarrow> Some False
       | Some parent \<Rightarrow>
           if reg_frozen parent then Some True else isAncestorFrozen s (idn_key (reg_identity parent))))"

partial_function (option) reevaluate_from :: "string list \<Rightarrow> 'c cacheManager \<Rightarrow> 'c cacheManager option" where
  "reevaluate_from work s =
    (case work of
       [] \<Rightarrow> Some s
     | k # ks \<Rightarrow> (case getRegistration s k of
         None \<Rightarrow> reevaluate_from ks s
       | Some reg \<Rightarrow>
           if reg_policy reg = Ephemeral then reevaluate_from ks s
           else Option.bind (isAncestorFrozen s k)
             (\<lambda>b. reevaluate_from (children_of s k @ ks) (set_inherited b k reg s))))"

definition reevaluateInheritedFrozen :: "string \<Rightarrow> 'c cacheManager \<Rightarrow> 'c cacheManager option" where
  "reevaluateInheritedFrozen k s = reevaluate_from (children_of s k) s"

definition cm_freeze :: "int \<Rightarrow> string \<Rightarrow> 'c cacheManager \<Rightarrow> 'c cacheManager option" where
  "cm_freeze now k s =
    (case getRegistration s k of
       None \<Rightarrow> Some s
     | Some reg \<Rightarrow>
         if reg_policy reg = Ephemeral \<or> reg_frozen reg then Some s
         else map_option (\<lambda>s'. scheduleDirtyFlush (cm_emit (FrozenChanged (reg_identity reg) True (Some now)) s'))
           (propagateInheritedFrozen k True (mark_dirty k
             (modify_registration k (\<lambda>reg. reg\<lparr>reg_frozen := True, reg_frozenAt := Some now\<rparr>) s))))"

definition cm_unfreeze :: "string \<Rightarrow> 'c cacheManager \<Rightarrow> 'c cacheManager option" where
  "cm_unfreeze k s =
    (case getRegistration s k of
       None \<Rightarrow> Some s
     | Some reg \<Rightarrow>
         if \<not> reg_frozen reg then Some s
         else map_option (\<lambda>s'. scheduleDirtyFlush (cm_emit (FrozenChanged (reg_identity reg) False None) s'))
           (reevaluateInheritedFrozen k (mark_dirty k
             (modify_registration k (\<lambda>reg. reg\<lparr>reg_frozen := False, reg_frozenAt := None\<rparr>) s))))"

section \<open>Sessions and the flush\<close>

definition clear_registry :: "'c cacheManager \<Rightarrow> 'c cacheManager" where
  "clear_registry s = s\<lparr>cm_holdsByKey := [], cm_registry := [], cm_uuidToIdentity := [], cm_childrenByParent := [],
    cm_pendingByCommand := [], cm_dirty := [], cm_deletedKeys := []\<rparr>"

definition checkSessionUser :: "string \<Rightarrow> 'c cacheManager \<Rightarrow> bool \<times> 'c cacheManager" where
  "checkSessionUser user s =
    (case session (cm_storage s) of
       None \<Rightarrow> (False, s)
     | Some ses \<Rightarrow>
         if userId ses = user then (False, s)
         else (True, (cm_emit (SessionReset (userId ses) user) (clear_registry s))
           \<lparr>cm_storage := deleteCacheKeys (map_keys (cm_uuidToIdentity s)) (cm_storage s)\<rparr>))"

definition cm_onSessionDestroyed :: "'c cacheManager \<Rightarrow> 'c cacheManager" where
  "cm_onSessionDestroyed s =
    (let identities = iterateIdentities s
     in (clear_registry s)\<lparr>cm_flushPending := False,
          cm_emitted := cm_emitted s @ map (\<lambda>i. KeyEvicted i ReasonSessionChange) identities,
          cm_storage := deleteCacheKeys (map idn_key identities) (cm_storage s)\<rparr>)"

text \<open>The two halves of the flush handler, around its first \<open>await\<close>.\<close>

definition flush_deletions :: "'c cacheManager \<Rightarrow> 'c cacheManager" where
  "flush_deletions s = s\<lparr>cm_flushPending := False, cm_flushOps := cm_flushOps s - 1, cm_deletedKeys := [],
    cm_storage := deleteCacheKeys (cm_deletedKeys s) (cm_storage s)\<rparr>"

definition flush_dirty :: "keyEngine \<Rightarrow> 'c cacheManager \<Rightarrow> 'c cacheManager" where
  "flush_dirty ke s = s\<lparr>cm_dirty := [],
    cm_storage := saveCacheKeys (List.map_filter (cm_get ke s) (cm_dirty s)) (cm_storage s)\<rparr>"

definition onFlushCacheKeys :: "keyEngine \<Rightarrow> 'c cacheManager \<Rightarrow> 'c cacheManager" where
  "onFlushCacheKeys ke s = flush_dirty ke (flush_deletions s)"

end
