(* ===== verification/CacheRegistry.thy ===== *)
theory CacheRegistry
  imports CacheManager
begin

text \<open>
  The registry of the cache manager as an abstract map from UUIDs to registrations: the invariant that
  ties its indexes together, and how each operation acts on the map.
\<close>

section \<open>The invariant\<close>

abbreviation reg_key :: "registration \<Rightarrow> string" where
  "reg_key reg \<equiv> idn_key (reg_identity reg)"

abbreviation reg_parent :: "registration \<Rightarrow> string option" where
  "reg_parent reg \<equiv> truthy_text (idn_parentKey (reg_identity reg))"

definition indexes_agree :: "'c cacheManager \<Rightarrow> bool" where
  "indexes_agree s \<longleftrightarrow> map_wf (cm_registry s) \<and> map_wf (cm_uuidToIdentity s) \<and>
    (\<forall>ids reg. map_get (cm_registry s) ids = Some reg \<longrightarrow> map_get (cm_uuidToIdentity s) (reg_key reg) = Some ids) \<and>
    (\<forall>k ids. map_get (cm_uuidToIdentity s) k = Some ids \<longrightarrow>
      (\<exists>reg. map_get (cm_registry s) ids = Some reg \<and> reg_key reg = k))"

definition children_agree :: "'c cacheManager \<Rightarrow> bool" where
  "children_agree s \<longleftrightarrow> map_wf (cm_childrenByParent s) \<and>
    (\<forall>p c. c \<in> set (children_of s p) \<longrightarrow>
      (\<exists>reg. getRegistration s c = Some reg \<and> reg_parent reg = Some p)) \<and>
    (\<forall>p. map_get (cm_childrenByParent s) p \<noteq> Some [])"

definition holds_agree :: "'c cacheManager \<Rightarrow> bool" where
  "holds_agree s \<longleftrightarrow> map_wf (cm_holdsByKey s) \<and> (\<forall>k. map_get (cm_holdsByKey s) k \<noteq> Some [])"

definition ephemeral_thawed :: "'c cacheManager \<Rightarrow> bool" where
  "ephemeral_thawed s \<longleftrightarrow> (\<forall>k reg. getRegistration s k = Some reg \<and> reg_policy reg = Ephemeral \<longrightarrow>
    \<not> reg_frozen reg \<and> \<not> reg_inheritedFrozen reg)"

definition cm_inv :: "'c cacheManager \<Rightarrow> bool" where
  "cm_inv s \<longleftrightarrow> indexes_agree s \<and> children_agree s \<and> holds_agree s \<and> ephemeral_thawed s"

lemma cm_invD:
  assumes "cm_inv s"
  shows "indexes_agree s" "children_agree s" "holds_agree s" "ephemeral_thawed s"
  using assms by (simp_all add: cm_inv_def)

lemma registered_iff:
  assumes "indexes_agree s"
  shows "getRegistration s k = Some reg \<longleftrightarrow> (\<exists>ids. map_get (cm_registry s) ids = Some reg) \<and> reg_key reg = k"
  using assms unfolding indexes_agree_def getRegistration_def bind_eq_Some_conv by (metis option.inject)

lemma registered_entry:
  assumes "indexes_agree s"
  shows "getRegistration s k = Some reg \<longleftrightarrow> reg \<in> set (map_values (cm_registry s)) \<and> reg_key reg = k"
proof -
  have "map_wf (cm_registry s)" using assms by (simp add: indexes_agree_def)
  then have "(\<exists>ids. map_get (cm_registry s) ids = Some reg) \<longleftrightarrow> reg \<in> set (map_values (cm_registry s))"
    by (force simp: map_wf_get)
  then show ?thesis by (simp add: registered_iff [OF assms])
qed

lemma registered_key: "indexes_agree s \<Longrightarrow> getRegistration s k = Some reg \<Longrightarrow> reg_key reg = k"
  by (simp add: registered_iff)

lemma identity_of: "indexes_agree s \<Longrightarrow> map_get (cm_uuidToIdentity s) k = Some ids \<Longrightarrow>
    \<exists>reg. map_get (cm_registry s) ids = Some reg \<and> reg_key reg = k \<and> getRegistration s k = Some reg"
  unfolding indexes_agree_def getRegistration_def by force

lemma unregistered_iff:
  "indexes_agree s \<Longrightarrow> getRegistration s k = None \<longleftrightarrow> map_get (cm_uuidToIdentity s) k = None"
  using identity_of [of s k] by (cases "map_get (cm_uuidToIdentity s) k") (auto simp: getRegistration_def)

lemma sets_get_set [simp]: "sets_get (map_set k v m) k' = (if k' = k then v else sets_get m k')"
  by (simp add: sets_get_def)

lemma sets_get_delete [simp]: "sets_get (map_delete k m) k' = (if k' = k then [] else sets_get m k')"
  by (simp add: sets_get_def)

lemma sets_add_get [simp]: "sets_get (sets_add k x m) k' = (if k' = k then set_add x (sets_get m k) else sets_get m k')"
  by (simp add: sets_add_def)

lemma set_add_nonempty [simp]: "set_add x xs \<noteq> []"
  by (simp add: set_add_def) auto

text \<open>Operations that touch neither registry nor indexes.\<close>

lemma cm_inv_cong:
  assumes "cm_registry s' = cm_registry s" "cm_uuidToIdentity s' = cm_uuidToIdentity s"
    "cm_childrenByParent s' = cm_childrenByParent s" "cm_holdsByKey s' = cm_holdsByKey s"
  shows "cm_inv s' = cm_inv s" and "getRegistration s' = getRegistration s"
  using assms by (simp_all add: cm_inv_def indexes_agree_def children_agree_def holds_agree_def ephemeral_thawed_def
      getRegistration_def fun_eq_iff)

definition same_view :: "'c cacheManager \<Rightarrow> 'c cacheManager \<Rightarrow> bool" where
  "same_view s' s \<longleftrightarrow> cm_registry s' = cm_registry s \<and> cm_uuidToIdentity s' = cm_uuidToIdentity s \<and>
    cm_childrenByParent s' = cm_childrenByParent s \<and> cm_holdsByKey s' = cm_holdsByKey s"

lemma frame_fields [simp]:
  "cm_registry (cm_emit e s) = cm_registry s" "cm_uuidToIdentity (cm_emit e s) = cm_uuidToIdentity s"
  "cm_childrenByParent (cm_emit e s) = cm_childrenByParent s" "cm_holdsByKey (cm_emit e s) = cm_holdsByKey s"
  "cm_registry (mark_dirty k s) = cm_registry s" "cm_uuidToIdentity (mark_dirty k s) = cm_uuidToIdentity s"
  "cm_childrenByParent (mark_dirty k s) = cm_childrenByParent s" "cm_holdsByKey (mark_dirty k s) = cm_holdsByKey s"
  "cm_registry (scheduleDirtyFlush s) = cm_registry s" "cm_uuidToIdentity (scheduleDirtyFlush s) = cm_uuidToIdentity s"
  "cm_childrenByParent (scheduleDirtyFlush s) = cm_childrenByParent s"
  "cm_holdsByKey (scheduleDirtyFlush s) = cm_holdsByKey s"
  by (simp_all add: cm_emit_def mark_dirty_def scheduleDirtyFlush_def)

lemma frame_inv [simp]:
  "cm_inv (cm_emit e s) = cm_inv s" "getRegistration (cm_emit e s) = getRegistration s"
  "cm_inv (mark_dirty k s) = cm_inv s" "getRegistration (mark_dirty k s) = getRegistration s"
  "cm_inv (scheduleDirtyFlush s) = cm_inv s" "getRegistration (scheduleDirtyFlush s) = getRegistration s"
  by (rule cm_inv_cong; simp)+

lemma cm_inv_new [simp]: "cm_inv (new_cacheManager a b c st)"
  by (simp add: cm_inv_def indexes_agree_def children_agree_def holds_agree_def ephemeral_thawed_def
      new_cacheManager_def getRegistration_def sets_get_def)

section \<open>Removing a key\<close>

text \<open>
  What a store promises whose removal is right only while its invariant holds: removing several
  entries one after the other removes exactly those.
\<close>

locale guarded_store =
  fixes inv :: "'s \<Rightarrow> bool"
    and get :: "'s \<Rightarrow> string \<Rightarrow> 'r option"
    and del :: "'x \<Rightarrow> 's \<Rightarrow> 's"
    and key_of :: "'x \<Rightarrow> string"
  assumes inv_del: "inv s \<Longrightarrow> inv (del x s)"
    and get_del: "inv s \<Longrightarrow> get (del x s) = (get s)(key_of x := None)"
begin

lemma inv_many: "inv s \<Longrightarrow> inv (fold del xs s)"
  by (rule fold_invariant) (auto intro: inv_del)

lemma get_many: "inv s \<Longrightarrow> get (fold del xs s) k = (if k \<in> key_of ` set xs then None else get s k)"
  by (induction xs arbitrary: s) (auto simp: inv_del get_del)

end

lemma remove_fields:
  assumes "map_get (cm_uuidToIdentity s) k = Some ids"
  shows "cm_registry (removeFromRegistry k s) = map_delete ids (cm_registry s)"
    "cm_uuidToIdentity (removeFromRegistry k s) = map_delete k (cm_uuidToIdentity s)"
    "cm_holdsByKey (removeFromRegistry k s) = map_delete k (cm_holdsByKey s)"
  using assms by (simp_all add: removeFromRegistry_def Let_def)

lemma remove_children:
  assumes "map_get (cm_uuidToIdentity s) k = Some ids" "map_get (cm_registry s) ids = Some reg"
  shows "children_of (removeFromRegistry k s) p =
    (if p = k then [] else if reg_parent reg = Some p then set_remove k (children_of s p) else children_of s p)"
  using assms by (auto simp: removeFromRegistry_def Let_def sets_get_def split: option.split)

lemma remove_children_map:
  assumes "map_wf (cm_childrenByParent s)" "\<forall>p. map_get (cm_childrenByParent s) p \<noteq> Some []"
  shows "map_wf (cm_childrenByParent (removeFromRegistry k s))"
    and "map_get (cm_childrenByParent (removeFromRegistry k s)) p \<noteq> Some []"
  using assms by (auto simp: removeFromRegistry_def Let_def split: option.split)

lemma remove_unregistered: "map_get (cm_uuidToIdentity s) k = None \<Longrightarrow> removeFromRegistry k s = s"
  by (simp add: removeFromRegistry_def)

lemma remove_get:
  assumes "indexes_agree s"
  shows "getRegistration (removeFromRegistry k s) = (getRegistration s)(k := None)"
proof (cases "map_get (cm_uuidToIdentity s) k")
  case None
  then have "getRegistration s k = None" using assms by (simp add: unregistered_iff)
  then show ?thesis by (auto simp: remove_unregistered [OF None])
next
  case (Some ids)
  have "map_get (cm_uuidToIdentity s) k' \<noteq> Some ids" if "k' \<noteq> k" for k'
    using assms Some that unfolding indexes_agree_def by (metis option.inject)
  then show ?thesis
    by (intro ext) (auto simp: getRegistration_def remove_fields [OF Some] intro!: Option.bind_cong)
qed

lemma indexesD:
  assumes "indexes_agree s"
  shows "map_get (cm_registry s) ids = Some reg \<Longrightarrow> map_get (cm_uuidToIdentity s) (reg_key reg) = Some ids"
    and "map_get (cm_uuidToIdentity s) k = Some ids \<Longrightarrow> \<exists>reg. map_get (cm_registry s) ids = Some reg \<and> reg_key reg = k"
    and "map_wf (cm_registry s)" "map_wf (cm_uuidToIdentity s)"
  using assms unfolding indexes_agree_def by blast+

lemma remove_indexes:
  assumes "indexes_agree s"
  shows "indexes_agree (removeFromRegistry k s)"
proof (cases "map_get (cm_uuidToIdentity s) k")
  case (Some ids)
  note D = indexesD [OF assms]
  have "reg_key reg \<noteq> k" if "ids' \<noteq> ids" "map_get (cm_registry s) ids' = Some reg" for ids' reg
    using D(1) [OF that(2)] Some that(1) by auto
  moreover have "ids' \<noteq> ids" if "k' \<noteq> k" "map_get (cm_uuidToIdentity s) k' = Some ids'" for k' ids'
    using D(2) [OF that(2)] D(2) [OF Some] that(1) by auto
  ultimately show ?thesis
    unfolding indexes_agree_def remove_fields [OF Some] map_get_delete using D(3,4)
    by (auto dest: D(1,2))
qed (simp add: assms remove_unregistered)

lemma cm_remove_inv:
  assumes "cm_inv s"
  shows "cm_inv (removeFromRegistry k s)"
proof (cases "map_get (cm_uuidToIdentity s) k")
  case (Some ids)
  note D = cm_invD [OF assms]
  obtain reg where reg: "map_get (cm_registry s) ids = Some reg" "getRegistration s k = Some reg"
    using identity_of [OF D(1) Some] by blast
  have "children_agree (removeFromRegistry k s)"
    using D(2) remove_children_map [of s k] reg(2)
    unfolding children_agree_def remove_children [OF Some reg(1)] remove_get [OF D(1)]
    by (fastforce split: if_splits)
  moreover have "holds_agree (removeFromRegistry k s)"
    using D(3) by (auto simp: holds_agree_def remove_fields [OF Some])
  moreover have "ephemeral_thawed (removeFromRegistry k s)"
    using D(4) by (auto simp: ephemeral_thawed_def remove_get [OF D(1)])
  ultimately show ?thesis using remove_indexes [OF D(1)] by (simp add: cm_inv_def)
qed (simp add: assms remove_unregistered)

lemma remove_holders: "holders (removeFromRegistry k s) k' = (if k' = k \<and> map_has (cm_uuidToIdentity s) k then [] else holders s k')"
  by (auto simp: removeFromRegistry_def Let_def map_has_def split: option.split)

lemma length_map_delete: "map_wf m \<Longrightarrow> map_get m k = Some v \<Longrightarrow> Suc (length (map_delete k m)) = length m"
proof (induction m)
  case (Cons kv m)
  then show ?case
    by (cases kv) (auto simp: map_wf_def AList.delete_eq filter_id_conv image_iff intro!: arg_cong [where f = length]
        filter_True split: if_splits)
qed simp

lemma remove_count:
  assumes "indexes_agree s" "getRegistration s k = Some reg"
  shows "Suc (getCount (removeFromRegistry k s)) = getCount s"
proof -
  obtain ids where ids: "map_get (cm_uuidToIdentity s) k = Some ids" "map_get (cm_registry s) ids = Some reg"
    using assms(2) by (auto simp: getRegistration_def bind_eq_Some_conv)
  then show ?thesis
    using length_map_delete [OF _ ids(2)] indexesD(3) [OF assms(1)] by (simp add: getCount_def remove_fields [OF ids(1)])
qed

section \<open>Adding and replacing a registration\<close>

lemma put_inv:
  assumes "cm_inv s" "indexes_agree s'" "getRegistration s' = (getRegistration s)(k \<mapsto> reg)"
    and "cm_childrenByParent s' = cm_childrenByParent s" "cm_holdsByKey s' = cm_holdsByKey s"
    and "\<And>old. getRegistration s k = Some old \<Longrightarrow> reg_parent reg = reg_parent old"
    and "reg_policy reg = Ephemeral \<Longrightarrow> \<not> reg_frozen reg \<and> \<not> reg_inheritedFrozen reg"
  shows "cm_inv s'"
proof -
  note D = cm_invD [OF assms(1)]
  have "children_agree s'"
    using D(2) assms(6) unfolding children_agree_def assms(3,4) by (auto 4 4 split: if_splits)
  moreover have "holds_agree s'" using D(3) unfolding holds_agree_def assms(5) .
  moreover have "ephemeral_thawed s'"
    using D(4) assms(7) unfolding ephemeral_thawed_def assms(3) by (auto split: if_splits)
  ultimately show ?thesis using assms(2) by (simp add: cm_inv_def)
qed

lemma rebind:
  assumes inv: "indexes_agree s" and old: "map_get (cm_uuidToIdentity s) k = Some ids"
    and wf: "map_wf (cm_registry s')" "map_wf (cm_uuidToIdentity s')"
    and regs: "\<And>i. map_get (cm_registry s') i =
      (if i = ids' then Some reg else if i = ids then None else map_get (cm_registry s) i)"
    and uuids: "\<And>u. map_get (cm_uuidToIdentity s') u = (if u = k then Some ids' else map_get (cm_uuidToIdentity s) u)"
    and free: "ids' = ids \<or> map_get (cm_registry s) ids' = None" and key: "reg_key reg = k"
  shows "indexes_agree s'" and "getRegistration s' = (getRegistration s)(k \<mapsto> reg)"
proof -
  note D = indexesD [OF inv]
  have others: "map_get (cm_registry s) i = Some r \<Longrightarrow> i \<noteq> ids \<Longrightarrow> reg_key r \<noteq> k" for i r
    using D(1) old by fastforce
  have bound: "map_get (cm_uuidToIdentity s) u = Some i \<Longrightarrow> u \<noteq> k \<Longrightarrow> i \<noteq> ids \<and> i \<noteq> ids'" for u i
    using D(2) [of u i] D(2) [OF old] free by auto
  show "indexes_agree s'"
    unfolding indexes_agree_def regs uuids
    using wf key others bound D(1,2) by (auto split: if_splits)
  show "getRegistration s' = (getRegistration s)(k \<mapsto> reg)"
    using bound by (intro ext) (auto simp: getRegistration_def regs uuids intro!: Option.bind_cong)
qed

lemma insert_agree:
  assumes inv: "indexes_agree s" and fresh: "map_get (cm_registry s) ids = None" "getRegistration s (reg_key reg) = None"
  shows "indexes_agree (insert_registration ids reg s)"
    and "getRegistration (insert_registration ids reg s) = (getRegistration s)(reg_key reg \<mapsto> reg)"
proof -
  note D = indexesD [OF inv]
  have new: "map_get (cm_uuidToIdentity s) (reg_key reg) = None" using fresh(2) by (simp add: unregistered_iff [OF inv])
  have bound: "map_get (cm_uuidToIdentity s) u = Some i \<Longrightarrow> i \<noteq> ids" for u i using D(2) [of u i] fresh(1) by auto
  have others: "map_get (cm_registry s) i = Some r \<Longrightarrow> reg_key r \<noteq> reg_key reg" for i r using D(1) [of i r] new by auto
  show "indexes_agree (insert_registration ids reg s)"
    using D others bound fresh(1) by (auto simp: indexes_agree_def insert_registration_def Let_def)
  show "getRegistration (insert_registration ids reg s) = (getRegistration s)(reg_key reg \<mapsto> reg)"
    using bound by (intro ext) (auto simp: getRegistration_def insert_registration_def Let_def intro!: Option.bind_cong)
qed

lemma insert_inv:
  assumes "cm_inv s" "map_get (cm_registry s) ids = None" "getRegistration s (reg_key reg) = None"
    and "reg_policy reg = Ephemeral \<Longrightarrow> \<not> reg_frozen reg \<and> \<not> reg_inheritedFrozen reg"
  shows "cm_inv (insert_registration ids reg s)"
proof -
  note D = cm_invD [OF assms(1)]
  note I = insert_agree [OF D(1) assms(2,3)]
  have ch: "cm_childrenByParent (insert_registration ids reg s) =
      (case reg_parent reg of None \<Rightarrow> cm_childrenByParent s | Some p \<Rightarrow> sets_add p (reg_key reg) (cm_childrenByParent s))"
    by (simp add: insert_registration_def Let_def)
  have "map_wf (sets_add p k m)" if "map_wf m" for p k m using that by (simp add: sets_add_def)
  moreover have "map_get (sets_add p k m) q \<noteq> Some []" if "\<forall>q. map_get m q \<noteq> Some []" for p k q m
    using that by (simp add: sets_add_def)
  moreover have "reg_key reg \<notin> set (children_of s p)" for p
    using D(2) assms(3) unfolding children_agree_def by force
  ultimately have "children_agree (insert_registration ids reg s)"
    using D(2) unfolding children_agree_def ch I(2) by (auto split: option.split if_splits)
  moreover have "holds_agree (insert_registration ids reg s)"
    using D(3) by (simp add: holds_agree_def insert_registration_def Let_def)
  moreover have "ephemeral_thawed (insert_registration ids reg s)"
    using D(4) assms(4) unfolding ephemeral_thawed_def I(2) by (auto split: if_splits)
  ultimately show ?thesis using I(1) by (simp add: cm_inv_def)
qed

text \<open>
  A UUID and an identity string belong together in a registry when each leads to the other or neither
  is known; a key that is registered again must keep its parent.
\<close>

definition belongs :: "string \<Rightarrow> cacheKeyIdentity \<Rightarrow> 'c cacheManager \<Rightarrow> bool" where
  "belongs ids i s \<longleftrightarrow>
    (\<forall>(k', ids') \<in> set (cm_uuidToIdentity s). k' = idn_key i \<longleftrightarrow> ids' = ids) \<and>
    (\<forall>old \<in> set (map_values (cm_registry s)). reg_key old = idn_key i \<longrightarrow> reg_parent old = truthy_text (idn_parentKey i))"

lemma belongs_iff:
  assumes "indexes_agree s"
  shows "belongs ids i s \<longleftrightarrow>
    (\<forall>k'. map_get (cm_uuidToIdentity s) k' = Some ids \<longleftrightarrow> k' = idn_key i \<and> getRegistration s k' \<noteq> None) \<and>
    (\<forall>old. getRegistration s (idn_key i) = Some old \<longrightarrow> reg_parent old = truthy_text (idn_parentKey i))"
proof -
  let ?u = "map_get (cm_uuidToIdentity s)"
  have "(\<forall>(k', ids') \<in> set (cm_uuidToIdentity s). k' = idn_key i \<longleftrightarrow> ids' = ids)
      \<longleftrightarrow> (\<forall>k' ids'. ?u k' = Some ids' \<longrightarrow> (k' = idn_key i \<longleftrightarrow> ids' = ids))"
    unfolding map_wf_get [OF indexesD(4) [OF assms]] by blast
  also have "\<dots> \<longleftrightarrow> (\<forall>k'. ?u k' = Some ids \<longleftrightarrow> k' = idn_key i \<and> ?u k' \<noteq> None)"
    by (metis option.distinct(1) option.exhaust option.inject)
  finally have "(\<forall>(k', ids') \<in> set (cm_uuidToIdentity s). k' = idn_key i \<longleftrightarrow> ids' = ids)
      \<longleftrightarrow> (\<forall>k'. ?u k' = Some ids \<longleftrightarrow> k' = idn_key i \<and> getRegistration s k' \<noteq> None)"
    unfolding unregistered_iff [OF assms] .
  moreover have "(\<forall>old \<in> set (map_values (cm_registry s)). reg_key old = idn_key i \<longrightarrow> reg_parent old = p)
      \<longleftrightarrow> (\<forall>old. getRegistration s (idn_key i) = Some old \<longrightarrow> reg_parent old = p)" for p
    unfolding registered_entry [OF assms] by blast
  ultimately show ?thesis unfolding belongs_def by (simp only:)
qed

lemma insert_again:
  assumes inv: "cm_inv s" and old: "map_get (cm_uuidToIdentity s) (reg_key reg) = Some ids"
    "getRegistration s (reg_key reg) = Some old" "reg_parent old = reg_parent reg"
    and eph: "reg_policy reg = Ephemeral \<Longrightarrow> \<not> reg_frozen reg \<and> \<not> reg_inheritedFrozen reg"
  shows "cm_inv (insert_registration ids reg s)"
    and "getRegistration (insert_registration ids reg s) = (getRegistration s)(reg_key reg \<mapsto> reg)"
proof -
  let ?s = "insert_registration ids reg s" and ?k = "reg_key reg"
  note D = cm_invD [OF inv]
  note wf = indexesD(3,4) [OF D(1)]
  note R = rebind [OF D(1) old(1), where s' = ?s and ids' = ids and reg = reg]
  have agree: "indexes_agree ?s" and get: "getRegistration ?s = (getRegistration s)(?k \<mapsto> reg)"
    by (rule R; use wf old(1) in \<open>auto simp: insert_registration_def Let_def\<close>)+
  have ch: "cm_childrenByParent ?s =
      (case reg_parent reg of None \<Rightarrow> cm_childrenByParent s | Some p \<Rightarrow> sets_add p ?k (cm_childrenByParent s))"
    by (simp add: insert_registration_def Let_def)
  have "map_wf (sets_add p k m)" if "map_wf m" for p k m using that by (simp add: sets_add_def)
  moreover have "map_get (sets_add p k m) q \<noteq> Some []" if "\<forall>q. map_get m q \<noteq> Some []" for p k q m
    using that by (simp add: sets_add_def)
  moreover have "?k \<in> set (children_of s p) \<Longrightarrow> reg_parent reg = Some p" for p
    using D(2) old(2,3) unfolding children_agree_def by force
  ultimately have "children_agree ?s"
    using D(2) unfolding children_agree_def ch get by (auto split: option.split if_splits)
  moreover have "holds_agree ?s" using D(3) by (simp add: holds_agree_def insert_registration_def Let_def)
  moreover have "ephemeral_thawed ?s" using D(4) eph unfolding ephemeral_thawed_def get by (auto split: if_splits)
  ultimately show "cm_inv ?s" using agree by (simp add: cm_inv_def)
  show "getRegistration ?s = (getRegistration s)(?k \<mapsto> reg)" by (rule get)
qed

lemma insert_belonging:
  assumes "cm_inv s" "belongs ids (reg_identity reg) s"
    and "reg_policy reg = Ephemeral \<Longrightarrow> \<not> reg_frozen reg \<and> \<not> reg_inheritedFrozen reg"
  shows "cm_inv (insert_registration ids reg s)"
    and "getRegistration (insert_registration ids reg s) = (getRegistration s)(reg_key reg \<mapsto> reg)"
proof -
  note D = cm_invD [OF assms(1)]
  note B = assms(2) [unfolded belongs_iff [OF D(1)]]
  have "cm_inv (insert_registration ids reg s) \<and>
    getRegistration (insert_registration ids reg s) = (getRegistration s)(reg_key reg \<mapsto> reg)"
  proof (cases "getRegistration s (reg_key reg)")
    case None
    have "map_get (cm_registry s) ids = None"
    proof (rule ccontr)
      assume "map_get (cm_registry s) ids \<noteq> None"
      then obtain r where "map_get (cm_registry s) ids = Some r" by auto
      from indexesD(1) [OF D(1) this] B None show False by auto
    qed
    then show ?thesis using insert_inv insert_agree(2) D(1) assms(1,3) None by blast
  next
    case (Some old)
    then have "map_get (cm_uuidToIdentity s) (reg_key reg) = Some ids" "reg_parent old = reg_parent reg" using B by auto
    then show ?thesis using insert_again [OF assms(1) _ Some] assms(3) by blast
  qed
  then show "cm_inv (insert_registration ids reg s)"
    "getRegistration (insert_registration ids reg s) = (getRegistration s)(reg_key reg \<mapsto> reg)" by simp_all
qed

lemma modify_agree:
  assumes "indexes_agree s" "getRegistration s k = Some reg" "reg_key (f reg) = k"
  shows "indexes_agree (modify_registration k f s)"
    and "getRegistration (modify_registration k f s) = (getRegistration s)(k \<mapsto> f reg)"
proof -
  obtain ids where ids: "map_get (cm_uuidToIdentity s) k = Some ids" "map_get (cm_registry s) ids = Some reg"
    using assms(2) by (auto simp: getRegistration_def bind_eq_Some_conv)
  note R = rebind [OF assms(1) ids(1), where s' = "modify_registration k f s" and ids' = ids and reg = "f reg"]
  show "indexes_agree (modify_registration k f s)"
    by (rule R) (use assms ids indexesD(3,4) [OF assms(1)] in \<open>auto simp: modify_registration_def\<close>)
  show "getRegistration (modify_registration k f s) = (getRegistration s)(k \<mapsto> f reg)"
    by (rule R) (use assms ids indexesD(3,4) [OF assms(1)] in \<open>auto simp: modify_registration_def\<close>)
qed

lemma modify_fields [simp]:
  "cm_childrenByParent (modify_registration k f s) = cm_childrenByParent s"
  "cm_holdsByKey (modify_registration k f s) = cm_holdsByKey s"
  "cm_uuidToIdentity (modify_registration k f s) = cm_uuidToIdentity s"
  by (simp_all add: modify_registration_def split: option.split)

lemma modify_inv:
  assumes "cm_inv s" "getRegistration s k = Some reg" "reg_identity (f reg) = reg_identity reg"
    and "reg_policy (f reg) = Ephemeral \<Longrightarrow> \<not> reg_frozen (f reg) \<and> \<not> reg_inheritedFrozen (f reg)"
  shows "cm_inv (modify_registration k f s)"
proof -
  note D = cm_invD [OF assms(1)]
  have k: "reg_key (f reg) = k" using registered_key [OF D(1) assms(2)] assms(3) by simp
  note M = modify_agree [where f = f, OF D(1) assms(2) k]
  show ?thesis by (rule put_inv [OF assms(1) M]) (use assms in auto)
qed

lemma access_modify:
  assumes "indexes_agree s" "map_get (cm_registry s) ids = Some reg"
  shows "s\<lparr>cm_registry := map_set ids (f reg) (cm_registry s)\<rparr> = modify_registration (reg_key reg) f s"
  using indexesD(1) [OF assms] assms(2) by (simp add: modify_registration_def)

lemma hold_for_inv:
  "getRegistration (holdForWindow k w s) = getRegistration s"
  "cm_registry (holdForWindow k w s) = cm_registry s" "cm_uuidToIdentity (holdForWindow k w s) = cm_uuidToIdentity s"
  "cm_childrenByParent (holdForWindow k w s) = cm_childrenByParent s"
  "cm_inv s \<Longrightarrow> cm_inv (holdForWindow k w s)"
proof -
  show same: "cm_registry (holdForWindow k w s) = cm_registry s" "cm_uuidToIdentity (holdForWindow k w s) = cm_uuidToIdentity s"
    "cm_childrenByParent (holdForWindow k w s) = cm_childrenByParent s"
    by (simp_all add: holdForWindow_def)
  show get: "getRegistration (holdForWindow k w s) = getRegistration s"
    by (simp add: getRegistration_def fun_eq_iff same)
  have "holds_agree s \<Longrightarrow> holds_agree (holdForWindow k w s)"
    by (auto simp: holdForWindow_def holds_agree_def sets_add_def)
  then show "cm_inv s \<Longrightarrow> cm_inv (holdForWindow k w s)"
    unfolding cm_inv_def indexes_agree_def children_agree_def ephemeral_thawed_def get same by blast
qed

lemma hold_option_inv [simp]:
  "getRegistration (hold_option opts k s) = getRegistration s"
  "cm_registry (hold_option opts k s) = cm_registry s" "cm_uuidToIdentity (hold_option opts k s) = cm_uuidToIdentity s"
  "cm_childrenByParent (hold_option opts k s) = cm_childrenByParent s"
  "cm_inv s \<Longrightarrow> cm_inv (hold_option opts k s)"
  by (simp_all add: hold_option_def hold_for_inv split: option.split)


section \<open>The operations keep the invariant\<close>

lemma evict_now_fields [simp]:
  "cm_registry (evict_now r k i s) = cm_registry (removeFromRegistry k s)"
  "cm_uuidToIdentity (evict_now r k i s) = cm_uuidToIdentity (removeFromRegistry k s)"
  "cm_childrenByParent (evict_now r k i s) = cm_childrenByParent (removeFromRegistry k s)"
  "cm_holdsByKey (evict_now r k i s) = cm_holdsByKey (removeFromRegistry k s)"
  by (simp_all add: evict_now_def Let_def)

lemma evict_now_view [simp]:
  "cm_inv (evict_now r k i s) = cm_inv (removeFromRegistry k s)"
  "getRegistration (evict_now r k i s) = getRegistration (removeFromRegistry k s)"
  by (rule cm_inv_cong; simp)+

lemma auto_evict_view [simp]:
  "cm_inv (auto_evict k reg s) = cm_inv (removeFromRegistry k s)"
  "getRegistration (auto_evict k reg s) = getRegistration (removeFromRegistry k s)"
  "cm_holdsByKey (auto_evict k reg s) = cm_holdsByKey (removeFromRegistry k s)"
  by (simp_all add: auto_evict_def Let_def cm_inv_cong(1) [of "_\<lparr>cm_deletedKeys := _\<rparr>"]
      cm_inv_cong(2) [of "_\<lparr>cm_deletedKeys := _\<rparr>"])

interpretation registered: guarded_store cm_inv getRegistration removeFromRegistry id
  by unfold_locales (simp_all add: cm_remove_inv remove_get cm_invD(1))

interpretation expiring: guarded_store cm_inv getRegistration "\<lambda>i. evict_now ReasonExpired (idn_key i) i" idn_key
  by unfold_locales (simp_all add: cm_remove_inv remove_get cm_invD(1))

lemma holds_change_get [simp]: "getRegistration (s\<lparr>cm_holdsByKey := h\<rparr>) = getRegistration s"
  by (simp add: getRegistration_def fun_eq_iff)

lemma holds_change_inv:
  assumes "cm_inv s" "holds_agree (s\<lparr>cm_holdsByKey := h\<rparr>)"
  shows "cm_inv (s\<lparr>cm_holdsByKey := h\<rparr>)"
proof -
  let ?s = "s\<lparr>cm_holdsByKey := h\<rparr>"
  have "indexes_agree ?s = indexes_agree s" by (simp add: indexes_agree_def)
  moreover have "children_agree ?s = children_agree s" by (simp add: children_agree_def)
  moreover have "ephemeral_thawed ?s = ephemeral_thawed s" by (simp add: ephemeral_thawed_def)
  ultimately show ?thesis using assms by (simp add: cm_inv_def)
qed

lemma drop_holds_inv:
  assumes "cm_inv s"
  shows "cm_inv (s\<lparr>cm_holdsByKey := map_delete k (cm_holdsByKey s)\<rparr>)"
    and "ws \<noteq> [] \<Longrightarrow> cm_inv (s\<lparr>cm_holdsByKey := map_set k ws (cm_holdsByKey s)\<rparr>)"
  using cm_invD(3) [OF assms] by (auto intro!: holds_change_inv [OF assms] simp: holds_agree_def)

lemma drop_hold_inv: "cm_inv s \<Longrightarrow> cm_inv (drop_hold k w s)"
  unfolding drop_hold_def Let_def
  by (auto simp: drop_holds_inv cm_remove_inv split: option.split)

lemma release_one_inv: "cm_inv s \<Longrightarrow> cm_inv (release_one k s)"
  unfolding release_one_def Let_def
  by (auto simp: drop_holds_inv(1) cm_remove_inv split: option.split)

lemma release_inv:
  assumes "cm_inv s"
  shows "cm_inv (releaseForWindow k w s)" "cm_inv (releaseHolds ks s)" "cm_inv (releaseAllForWindow w s)"
    "cm_inv (unregisterWindow w s)"
proof -
  show "cm_inv (releaseForWindow k w s)" using assms by (simp add: releaseForWindow_def drop_hold_inv)
  show "cm_inv (releaseHolds ks s)"
    unfolding releaseHolds_def frame_inv by (rule fold_invariant) (use assms release_one_inv in auto)
  have all: "cm_inv (releaseAllForWindow w s)" if "cm_inv s" for s :: "'a cacheManager"
    unfolding releaseAllForWindow_def Let_def frame_inv by (rule fold_invariant) (use that drop_hold_inv in auto)
  then show "cm_inv (releaseAllForWindow w s)" using assms .
  have "cm_inv (s\<lparr>cm_registeredWindows := ws\<rparr>)" for ws by (subst cm_inv_cong(1) [where s = s]) (use assms in simp_all)
  then show "cm_inv (unregisterWindow w s)" by (simp add: unregisterWindow_def all)
qed

lemma maybeEvict_view:
  "maybeEvict s = s \<or> (\<exists>reg. eviction_victim s = Some reg \<and>
    maybeEvict s = evict_now ReasonLru (reg_key reg) (reg_identity reg) s)"
  by (auto simp: maybeEvict_def split: option.split)

lemma eviction_inv:
  assumes "cm_inv s"
  shows "cm_inv (maybeEvict s)" "cm_inv (snd (cm_evict k s))" "cm_inv (snd (evictExpired now s))"
proof -
  show "cm_inv (maybeEvict s)" using maybeEvict_view [of s] assms by (auto simp: cm_remove_inv)
  show "cm_inv (snd (cm_evict k s))" using assms by (auto simp: cm_evict_def cm_remove_inv split: option.split)
  show "cm_inv (snd (evictExpired now s))"
    unfolding evictExpired_def Let_def snd_conv by (rule expiring.inv_many [OF assms])
qed

lemma maybeEvict_unregistered:
  assumes "cm_inv s" "getRegistration s k = None"
  shows "getRegistration (maybeEvict s) k = None"
  using maybeEvict_view [of s] assms by (auto simp: remove_get cm_invD(1))

lemma maybeEvict_registry: "map_get (cm_registry s) ids = None \<Longrightarrow> map_get (cm_registry (maybeEvict s)) ids = None"
  using maybeEvict_view [of s] by (auto simp: removeFromRegistry_def Let_def split: option.split)

lemma access_inv:
  assumes "cm_inv s" "map_get (cm_registry s) ids = Some reg"
  shows "cm_inv (access_existing now ids reg opts s)"
    and "getRegistration (access_existing now ids reg opts s) =
      (getRegistration s)(reg_key reg \<mapsto> reg\<lparr>reg_lastAccessedAt := now\<rparr>)"
proof -
  let ?f = "\<lambda>reg. reg\<lparr>reg_lastAccessedAt := now\<rparr>"
  note D = cm_invD [OF assms(1)]
  have reg: "getRegistration s (reg_key reg) = Some reg" using registered_iff [OF D(1)] assms(2) by blast
  have acc: "access_existing now ids reg opts s = cm_emit (KeyAccessed (reg_identity reg))
      (hold_option opts (reg_key reg) (mark_dirty (reg_key reg) (modify_registration (reg_key reg) ?f s)))"
    unfolding access_existing_def Let_def by (simp only: access_modify [OF D(1) assms(2), of ?f])
  show "cm_inv (access_existing now ids reg opts s)"
    unfolding acc frame_inv
    by (intro hold_option_inv(5)) (use modify_inv [OF assms(1) reg, of ?f] D(4) reg in \<open>auto simp: ephemeral_thawed_def\<close>)
  show "getRegistration (access_existing now ids reg opts s) = (getRegistration s)(reg_key reg \<mapsto> ?f reg)"
    unfolding acc frame_inv hold_option_inv by (rule modify_agree(2) [OF D(1) reg]) simp
qed

lemma new_registration_fields [simp]:
  "reg_identity (new_registration now i p opts s) = i" "reg_pending (new_registration now i p opts s) = p"
  "\<not> reg_frozen (new_registration now i p opts s)" "\<not> reg_inheritedFrozen (new_registration now i p opts s)"
  "reg_lastAccessedAt (new_registration now i p opts s) = now"
  by (simp_all add: new_registration_def Let_def)

lemma acquire_start_inv:
  assumes "cm_inv s"
  shows "cm_inv (snd (acquire_start ke now i opts s))"
  using access_inv(1) [OF assms] eviction_inv(1) [OF assms] by (auto simp: acquire_start_def Let_def split: option.split)

lemma acquire_new_inv:
  assumes "cm_inv s" "belongs (buildIdentityString ke i) i s"
  shows "cm_inv (acquire_new ke now i opts s)"
    and "getRegistration (acquire_new ke now i opts s) = (getRegistration s)(idn_key i \<mapsto> new_registration now i [] opts s)"
  using insert_belonging [of s "buildIdentityString ke i" "new_registration now i [] opts s"] assms
  by (simp_all add: acquire_new_def Let_def)

lemma belongs_fresh:
  assumes "cm_inv s" "map_get (cm_registry s) ids = None" "getRegistration s (idn_key i) = None"
  shows "belongs ids i s"
proof -
  note D = cm_invD(1) [OF assms(1)]
  have "map_get (cm_uuidToIdentity s) k' \<noteq> Some ids" for k' using indexesD(2) [OF D, of k' ids] assms(2) by auto
  then show ?thesis using assms(3) by (simp add: belongs_iff [OF D])
qed

lemma acquire_inv:
  assumes "cm_inv s"
    and "map_get (cm_registry s) (buildIdentityString ke i) = None \<Longrightarrow> getRegistration s (idn_key i) = None"
  shows "cm_inv (snd (acquireKey ke now i opts s))"
proof (cases "map_get (cm_registry s) (buildIdentityString ke i)")
  case None
  let ?s = "maybeEvict s"
  have "belongs (buildIdentityString ke i) i ?s"
    by (rule belongs_fresh) (use assms None in \<open>simp_all add: eviction_inv maybeEvict_registry maybeEvict_unregistered\<close>)
  from acquire_new_inv(1) [OF eviction_inv(1) [OF assms(1)] this] show ?thesis
    using None by (simp add: acquireKey_def acquire_start_def Let_def)
next
  case (Some reg)
  then show ?thesis using access_inv(1) [OF assms(1) Some] by (simp add: acquireKey_def acquire_start_def Let_def)
qed

lemma apply_id_keeps:
  "applyIdResolution e sid i = Inr i' \<Longrightarrow> idn_key i' = idn_key i \<and> idn_parentKey i' = idn_parentKey i"
  by (cases i) (auto simp: map_result_Inr split: option.splits)

lemma adopt_keeps: "idn_key (adopt_identity u i) = idn_key i \<and> idn_parentKey (adopt_identity u i) = idn_parentKey i"
  by (cases i; cases u) auto

lemma template_key [simp]: "idn_key (templateToIdentity t k) = k"
  by (cases t) simp_all

lemma resolve_settled_key:
  assumes "resolve_settled m es i = Inr (i', u)"
  shows "idn_key i' = idn_key i"
proof -
  have "idn_key (fst (i', u)) = idn_key i"
    by (rule fold_result_invariant [OF assms [unfolded resolve_settled_def]])
      (auto simp: map_result_Inr dest!: apply_id_keeps split: option.splits)
  then show ?thesis by simp
qed

lemma pending_change_view [simp]:
  "cm_inv (s\<lparr>cm_pendingByCommand := m\<rparr>) = cm_inv s" "getRegistration (s\<lparr>cm_pendingByCommand := m\<rparr>) = getRegistration s"
  by (rule cm_inv_cong; simp)+

lemma register_inv:
  assumes "cm_inv s" "getRegistration s newId = None"
    and "registerCacheKeySync ke now newId m template opts s = Inr (i, s')"
  shows "cm_inv s'"
proof -
  obtain resolved entries where scan: "scanTemplateForEntityRefs template = Inr (resolved, entries)"
    using assms(3) by (auto simp: registerCacheKeySync_def bind_result_Inr)
  let ?ids = "buildIdentityStringFromTemplate ke resolved"
  show ?thesis
  proof (cases "map_get (cm_registry s) ?ids")
    case None
    then obtain u where settled: "resolve_settled m entries (templateToIdentity resolved newId) = Inr (i, u)"
      and s': "s' = cm_emit (KeyAdded i (reg_policy (new_registration now i u opts s)))
        (hold_option opts newId ((insert_registration ?ids (new_registration now i u opts s) s)
          \<lparr>cm_pendingByCommand := fold (\<lambda>e. sets_add (pim_commandId e) newId) u
            (cm_pendingByCommand (insert_registration ?ids (new_registration now i u opts s) s))\<rparr>))"
      using assms(3) by (auto simp: registerCacheKeySync_def scan map_result_Inr Let_def)
    have key: "idn_key i = newId" using resolve_settled_key [OF settled] by simp
    have "cm_inv (insert_registration ?ids (new_registration now i u opts s) s)"
      by (rule insert_inv) (use assms None key in simp_all)
    then show ?thesis unfolding s' frame_inv by (intro hold_option_inv(5)) simp
  next
    case (Some reg)
    then show ?thesis
      using assms(3) access_inv(1) [OF assms(1) Some] by (auto simp: registerCacheKeySync_def scan Let_def)
  qed
qed

lemma registerCacheKey_inv:
  assumes "cm_inv s" "getRegistration s newId = None" "registerCacheKey ke now newId m template opts s = Inr (i, s')"
  shows "cm_inv s'"
  using assms(3) register_inv [OF assms(1,2)] by (auto simp: registerCacheKey_def map_result_Inr)

text \<open>
  A resolution that merges no two keys: no other UUID leads to the identity string that a key gets.
\<close>

definition sole_owner :: "string \<Rightarrow> 'c cacheManager \<Rightarrow> bool" where
  "sole_owner k s \<longleftrightarrow>
    (\<forall>(k', ids) \<in> set (cm_uuidToIdentity s). map_get (cm_uuidToIdentity s) k = Some ids \<longrightarrow> k' = k)"

fun resolves_apart ::
  "keyEngine \<Rightarrow> string \<Rightarrow> (string \<Rightarrow> string option) \<Rightarrow> (cacheKeyIdentity \<Rightarrow> cacheKeyIdentity) option \<Rightarrow>
   string list \<Rightarrow> 'c cacheManager \<Rightarrow> bool" where
  "resolves_apart ke cid idMap resolver [] s = True"
| "resolves_apart ke cid idMap resolver (k # ks) s =
    (case resolve_key ke cid idMap resolver k s of
       Inl _ \<Rightarrow> True
     | Inr s' \<Rightarrow> sole_owner k s' \<and> resolves_apart ke cid idMap resolver ks s')"

lemma reconcile_view:
  fixes s :: "'c cacheManager" and ke cid entry sid
  defines "rec \<equiv> \<lambda>reg i. reg\<lparr>reg_identity := i, reg_pending := filter (\<lambda>e. pim_commandId e \<noteq> cid) (reg_pending reg)\<rparr>"
  assumes "cm_inv s" "getRegistration s k = Some reg" "idn_key i = idn_key (reg_identity reg)"
    and "idn_parentKey i = idn_parentKey (reg_identity reg)"
    and alone: "sole_owner k (reconcile_registration ke cid k reg entry sid i s)"
  shows "cm_inv (reconcile_registration ke cid k reg entry sid i s)"
    and "getRegistration (reconcile_registration ke cid k reg entry sid i s) = (getRegistration s)(k \<mapsto> rec reg i)"
proof -
  let ?s = "reconcile_registration ke cid k reg entry sid i s"
  note D = cm_invD [OF assms(2)]
  obtain ids where ids: "map_get (cm_uuidToIdentity s) k = Some ids" "map_get (cm_registry s) ids = Some reg"
    using assms(3) by (auto simp: getRegistration_def bind_eq_Some_conv)
  let ?ids = "buildIdentityString ke i"
  have fields: "cm_registry ?s = map_set ?ids (rec reg i) (map_delete ids (cm_registry s))"
    "cm_uuidToIdentity ?s = map_set k ?ids (cm_uuidToIdentity s)"
    "cm_childrenByParent ?s = cm_childrenByParent s" "cm_holdsByKey ?s = cm_holdsByKey s"
    by (simp_all add: reconcile_registration_def Let_def ids rec_def)
  note wf = indexesD(3,4) [OF D(1)]
  have "?ids = ids" if "map_get (cm_registry s) ?ids = Some r" for r
  proof -
    have r: "map_get (cm_uuidToIdentity s) (reg_key r) = Some ?ids" by (rule indexesD(1) [OF D(1) that])
    have "reg_key r = k"
    proof (rule ccontr)
      assume "reg_key r \<noteq> k"
      then have "(reg_key r, ?ids) \<in> set (cm_uuidToIdentity ?s)"
        using r wf(2) unfolding fields by (simp add: map_wf_get [symmetric])
      with alone \<open>reg_key r \<noteq> k\<close> show False unfolding sole_owner_def fields by auto
    qed
    then show ?thesis using r ids(1) by simp
  qed
  then have free: "?ids = ids \<or> map_get (cm_registry s) ?ids = None" by (cases "map_get (cm_registry s) ?ids") auto
  have key: "reg_key (rec reg i) = k" using assms(4) registered_key [OF D(1) assms(3)] by (simp add: rec_def)
  note R = rebind [OF D(1) ids(1), where s' = ?s and ids' = ?ids and reg = "rec reg i"]
  have agree: "indexes_agree ?s" and get: "getRegistration ?s = (getRegistration s)(k \<mapsto> rec reg i)"
    by (rule R; use free key wf in \<open>auto simp: fields\<close>)+
  show "getRegistration ?s = (getRegistration s)(k \<mapsto> rec reg i)" by (rule get)
  show "cm_inv ?s"
    by (rule put_inv [OF assms(2) agree get])
      (use assms(3,5) D(4) in \<open>auto simp: fields ephemeral_thawed_def rec_def\<close>)
qed

lemma resolve_key_cases:
  assumes "resolve_key ke cid idMap resolver k s = Inr s'"
  obtains "s' = s" | reg entry sid i where "getRegistration s k = Some reg"
    "s' = reconcile_registration ke cid k reg entry sid i s"
    "idn_key i = idn_key (reg_identity reg)" "idn_parentKey i = idn_parentKey (reg_identity reg)"
proof (cases resolver)
  case None
  then show thesis
    using assms that by (auto simp: resolve_key_def map_result_Inr dest!: apply_id_keeps split: option.splits)
next
  case (Some f)
  then show thesis
    using assms that adopt_keeps by (auto simp: resolve_key_def split: option.splits)
qed

lemma resolve_key_inv:
  assumes "resolve_key ke cid idMap resolver k s = Inr s'" "cm_inv s" "sole_owner k s'"
  shows "cm_inv s'"
  by (rule resolve_key_cases [OF assms(1)]) (use assms reconcile_view(1) in blast)+

lemma resolve_keys_inv:
  "cm_inv s \<Longrightarrow> resolves_apart ke cid idMap resolver ks s \<Longrightarrow> cm_inv (snd (resolve_keys ke cid idMap resolver ks s))"
  by (induction ks arbitrary: s) (auto dest: resolve_key_inv split: sum.splits)

abbreviation resolve_apart ::
  "keyEngine \<Rightarrow> string \<Rightarrow> (string \<Rightarrow> string option) \<Rightarrow> (cacheKeyIdentity \<Rightarrow> cacheKeyIdentity) option \<Rightarrow>
   'c cacheManager \<Rightarrow> bool" where
  "resolve_apart ke cid idMap resolver s \<equiv>
    resolves_apart ke cid idMap resolver (sets_get (cm_pendingByCommand s) cid) s"

lemma resolve_inv:
  "cm_inv s \<Longrightarrow> resolve_apart ke cid idMap resolver s \<Longrightarrow> cm_inv (snd (resolvePendingKeys ke cid idMap resolver s))"
  by (auto simp: resolvePendingKeys_def Let_def resolve_keys_inv)

section \<open>Freezing keeps the invariant\<close>

lemma set_inherited_inv:
  assumes "cm_inv s" "getRegistration s k = Some reg" "reg_policy reg \<noteq> Ephemeral"
  shows "cm_inv (set_inherited b k reg s)"
    and "getRegistration (set_inherited b k reg s) = (getRegistration s)(k \<mapsto> reg\<lparr>reg_inheritedFrozen := b\<rparr>)"
    and "cm_childrenByParent (set_inherited b k reg s) = cm_childrenByParent s"
    and "cm_holdsByKey (set_inherited b k reg s) = cm_holdsByKey s"
proof -
  let ?f = "\<lambda>reg. reg\<lparr>reg_inheritedFrozen := b\<rparr>"
  have k: "reg_key (?f reg) = k" using registered_key [OF cm_invD(1) [OF assms(1)] assms(2)] by simp
  show "cm_inv (set_inherited b k reg s)"
    using modify_inv [OF assms(1,2), of ?f] assms by (auto simp: set_inherited_def)
  have "reg\<lparr>reg_inheritedFrozen := b\<rparr> = reg" if "reg_inheritedFrozen reg = b" using that by (cases reg) simp
  then show "getRegistration (set_inherited b k reg s) = (getRegistration s)(k \<mapsto> ?f reg)"
    using modify_agree(2) [where f = ?f, OF cm_invD(1) [OF assms(1)] assms(2) k] assms(2)
    by (auto simp: set_inherited_def fun_upd_idem)
qed (simp_all add: set_inherited_def)

lemma propagate_inv:
  assumes "propagate_to frozen work s = Some s'" "cm_inv s"
  shows "cm_inv s'"
  using assms
proof (induction rule: propagate_to.raw_induct [rotated, consumes 1])
  case 1
  then show ?case
    by (auto split: list.splits option.splits if_splits) (metis set_inherited_inv(1))
qed

lemma reevaluate_inv:
  assumes "reevaluate_from work s = Some s'" "cm_inv s"
  shows "cm_inv s'"
  using assms
proof (induction rule: reevaluate_from.raw_induct [rotated, consumes 1])
  case 1
  then show ?case
    by (auto simp: bind_eq_Some_conv split: list.splits option.splits if_splits intro: set_inherited_inv(1))
qed

lemma freeze_inv:
  assumes "cm_inv s" "cm_freeze now k s = Some s'"
  shows "cm_inv s'"
proof (cases "getRegistration s k")
  case (Some reg)
  let ?f = "\<lambda>reg. reg\<lparr>reg_frozen := True, reg_frozenAt := Some now\<rparr>"
  show ?thesis
  proof (cases "reg_policy reg = Ephemeral \<or> reg_frozen reg")
    case False
    have "cm_inv (modify_registration k ?f s)" using modify_inv [OF assms(1) Some, of ?f] False by simp
    then show ?thesis
      using assms(2) False by (auto simp: cm_freeze_def Some propagateInheritedFrozen_def dest!: propagate_inv)
  qed (use assms in \<open>auto simp: cm_freeze_def Some\<close>)
qed (use assms in \<open>simp add: cm_freeze_def\<close>)

lemma unfreeze_inv:
  assumes "cm_inv s" "cm_unfreeze k s = Some s'"
  shows "cm_inv s'"
proof (cases "getRegistration s k")
  case (Some reg)
  let ?f = "\<lambda>reg. reg\<lparr>reg_frozen := False, reg_frozenAt := None\<rparr>"
  show ?thesis
  proof (cases "reg_frozen reg")
    case True
    have "cm_inv (modify_registration k ?f s)"
      using modify_inv [OF assms(1) Some, of ?f] cm_invD(4) [OF assms(1)] Some True by (auto simp: ephemeral_thawed_def)
    then show ?thesis
      using assms(2) True by (auto simp: cm_unfreeze_def Some reevaluateInheritedFrozen_def dest!: reevaluate_inv)
  qed (use assms in \<open>auto simp: cm_unfreeze_def Some\<close>)
qed (use assms in \<open>simp add: cm_unfreeze_def\<close>)

end
