(* ===== verification/CacheRuns.thy ===== *)
theory CacheRuns
  imports CacheRegistry
begin

text \<open>
  Runs of the cache manager: the invariant of the registry in every reachable state, what the evictions
  remove and keep, and how the storage follows the registry.
\<close>

section \<open>Evicting everything\<close>

lemma find_evictable:
  assumes "cm_inv s" "find (is_evictable s) (map_values (cm_registry s)) = Some reg"
  shows "getRegistration s (reg_key reg) = Some reg" and "is_evictable s reg"
  using find_SomeD [OF assms(2)] registered_entry [OF cm_invD(1) [OF assms(1)]] by auto

lemma no_evictable:
  assumes "cm_inv s"
  shows "find (is_evictable s) (map_values (cm_registry s)) = None \<longleftrightarrow>
    (\<forall>k reg. getRegistration s k = Some reg \<longrightarrow> \<not> is_evictable s reg)"
  unfolding find_None_iff using registered_entry [OF cm_invD(1) [OF assms(1)]] by auto

abbreviation protected_reg :: "'c cacheManager \<Rightarrow> registration \<Rightarrow> bool" where
  "protected_reg s reg \<equiv> holders s (reg_key reg) \<noteq> [] \<or> reg_frozen reg \<or> reg_inheritedFrozen reg"

lemma evict_one:
  fixes s :: "'c cacheManager" and r i k
  defines "s' \<equiv> evict_now r k i s"
  assumes "cm_inv s" "getRegistration s k = Some reg" "holders s k = []"
  shows "cm_inv s'" "Suc (getCount s') = getCount s" "getRegistration s' = (getRegistration s)(k := None)"
    and "holders s' = holders s"
proof -
  note D = cm_invD [OF assms(2)]
  show "cm_inv s'" using cm_remove_inv [OF assms(2)] by (simp add: s'_def)
  show "Suc (getCount s') = getCount s" using remove_count [OF D(1) assms(3)] by (simp add: s'_def getCount_def)
  show "getRegistration s' = (getRegistration s)(k := None)" by (simp add: s'_def remove_get [OF D(1)])
  show "holders s' = holders s" using assms(4) by (simp add: s'_def fun_eq_iff remove_holders)
qed

lemma evictAll_from_spec:
  "cm_inv s \<Longrightarrow> \<exists>m s'. evictAll_from n s = Some (n + m, s') \<and> cm_inv s' \<and> getCount s' + m = getCount s
    \<and> (\<forall>k reg. getRegistration s' k = Some reg \<longrightarrow> getRegistration s k = Some reg \<and> \<not> is_evictable s' reg)
    \<and> (\<forall>k reg. getRegistration s k = Some reg \<and> protected_reg s reg \<longrightarrow> getRegistration s' k = Some reg)"
proof (induction "getCount s" arbitrary: n s rule: less_induct)
  case less
  show ?case
  proof (cases "find (is_evictable s) (map_values (cm_registry s))")
    case None
    then show ?thesis
      using less.prems no_evictable [OF less.prems] by (auto simp: evictAll_from.simps [of n s])
  next
    case (Some reg)
    note F = find_evictable [OF less.prems Some]
    let ?s = "evict_now ReasonExplicit (reg_key reg) (reg_identity reg) s"
    have free: "holders s (reg_key reg) = []" using F(2) by (simp add: is_evictable_def)
    note E = evict_one [OF less.prems F(1) free, of ReasonExplicit "reg_identity reg"]
    have "getCount ?s < getCount s" using E(2) by simp
    from less.hyps [OF this E(1), of "Suc n"]
    obtain m s' where IH: "evictAll_from (Suc n) ?s = Some (Suc n + m, s')" "cm_inv s'" "getCount s' + m = getCount ?s"
      "\<forall>k reg. getRegistration s' k = Some reg \<longrightarrow> getRegistration ?s k = Some reg \<and> \<not> is_evictable s' reg"
      "\<forall>k reg. getRegistration ?s k = Some reg \<and> protected_reg ?s reg \<longrightarrow> getRegistration s' k = Some reg"
      by blast
    have "evictAll_from n s = Some (n + Suc m, s')" using IH(1) by (simp add: evictAll_from.simps [of n s] Some)
    moreover have "getCount s' + Suc m = getCount s" using IH(3) E(2) by simp
    moreover have "getRegistration s k = Some r" if "getRegistration s' k = Some r" for k r
    proof -
      have "((getRegistration s)(reg_key reg := None)) k = Some r" using IH(4) that unfolding E(3) by blast
      then show ?thesis by (simp split: if_splits)
    qed
    moreover have "getRegistration s' k = Some r" if "getRegistration s k = Some r" "protected_reg s r" for k r
    proof -
      have "k \<noteq> reg_key reg"
      proof
        assume "k = reg_key reg"
        then have "Some r = Some reg" using F(1) that(1) by metis
        then show False using F(2) that(2) unfolding is_evictable_def by blast
      qed
      then have "((getRegistration s)(reg_key reg := None)) k = Some r" using that(1) by simp
      then show ?thesis using that(2) IH(5) unfolding E(3,4) by blast
    qed
    ultimately show ?thesis using IH(2,4) by (intro exI [of _ "Suc m"] exI [of _ s']) blast
  qed
qed

text \<open>
  C26: Evicting everything ends and spares what is in use. While the indexes agree, the loop of
  \<open>evictAll\<close> returns: its result counts the keys that were removed, no remaining key is an unheld,
  unfrozen leaf, nothing is added or changed, and each key that a window holds or that is frozen, itself
  or by inheritance, is still registered as it was.
\<close>
theorem evict_all_ends:
  assumes "cm_inv s"
  shows "\<exists>n s'. evictAll s = Some (n, s') \<and> getCount s' + n = getCount s
    \<and> (\<forall>k reg. getRegistration s' k = Some reg \<longrightarrow> getRegistration s k = Some reg \<and> \<not> is_evictable s' reg)
    \<and> (\<forall>k reg. getRegistration s k = Some reg \<and> protected_reg s reg \<longrightarrow> getRegistration s' k = Some reg)"
  using evictAll_from_spec [OF assms, of 0] unfolding evictAll_def by auto

section \<open>An identity that was reconciled meanwhile\<close>

text \<open>An entry of the registry that is not the one its UUID leads to, and that could be evicted.\<close>

definition ghost :: "string \<Rightarrow> 'c cacheManager \<Rightarrow> bool" where
  "ghost ids s \<longleftrightarrow> (\<exists>reg. map_get (cm_registry s) ids = Some reg \<and> is_evictable s reg)
    \<and> (\<forall>k. map_get (cm_uuidToIdentity s) k \<noteq> Some ids)"

lemma ghost_remove:
  assumes "ghost ids s"
  shows "ghost ids (evict_now r k i s)"
proof -
  obtain reg where reg: "map_get (cm_registry s) ids = Some reg" "is_evictable s reg"
    and un: "\<And>k. map_get (cm_uuidToIdentity s) k \<noteq> Some ids"
    using assms by (auto simp: ghost_def)
  have "sets_get (cm_childrenByParent (removeFromRegistry k s)) q = []" if "sets_get (cm_childrenByParent s) q = []" for q
    using that by (auto simp: removeFromRegistry_def Let_def sets_get_def set_remove_def split: option.splits)
  moreover have "holders (removeFromRegistry k s) q = []" if "holders s q = []" for q using that by (simp add: remove_holders)
  moreover have "map_get (cm_registry (removeFromRegistry k s)) ids = Some reg"
    using reg(1) un [of k] by (auto simp: removeFromRegistry_def Let_def split: option.split)
  ultimately have "\<exists>reg. map_get (cm_registry (evict_now r k i s)) ids = Some reg \<and> is_evictable (evict_now r k i s) reg"
    using reg(2) by (auto simp: is_evictable_def)
  moreover have "map_get (cm_uuidToIdentity (evict_now r k i s)) k' \<noteq> Some ids" for k'
    using un by (auto simp: removeFromRegistry_def Let_def split: option.split)
  ultimately show ?thesis unfolding ghost_def by blast
qed

lemma ghost_loops: "ghost ids s \<Longrightarrow> evictAll_from n s = None"
proof (rule ccontr)
  assume "ghost ids s" "evictAll_from n s \<noteq> None"
  then obtain r where "evictAll_from n s = Some r" "ghost ids s" by auto
  then show False
  proof (induction rule: evictAll_from.raw_induct [rotated, consumes 1])
    case (1 rec_call n s r)
    note IH = this(1)
    obtain reg where reg: "map_get (cm_registry s) ids = Some reg" "is_evictable s reg"
      using 1(3) by (auto simp: ghost_def)
    have "reg \<in> set (map_values (cm_registry s))" using map_of_SomeD [OF reg(1)] by force
    then obtain reg' where "find (is_evictable s) (map_values (cm_registry s)) = Some reg'"
      using reg(2) by (metis find_None_iff not_None_eq)
    then have "rec_call (Suc n) (evict_now ReasonExplicit (reg_key reg') (reg_identity reg') s) = Some r"
      using 1(2) by simp
    then show False by (cases r) (use IH ghost_remove [OF 1(3)] in blast)
  qed
qed

lemma maybeEvict_room [simp]: "int (getCount s) < cm_maxCacheKeys s \<Longrightarrow> maybeEvict s = s"
  by (simp add: maybeEvict_def getCount_def)

text \<open>
  Touching a key through an out-of-date identity makes \<open>evictAll\<close> run for ever. When the identity
  passed to \<open>touch\<close> carries the UUID of a registered key but an identity string that the registry does
  not have, as an identity obtained before the key's ids were reconciled does, a second registration of
  the same UUID is added and the first can no longer be removed: if the first can be evicted, the loop of
  \<open>evictAll\<close> finds it again in each pass.
\<close>
theorem stale_touch_hangs_evictAll:
  assumes inv: "cm_inv s" and old: "map_get (cm_registry s) ids = Some reg" "is_evictable s reg"
    and stale: "idn_key stale = reg_key reg" "idn_parentKey stale \<noteq> Some (reg_key reg)"
      "map_get (cm_registry s) (buildIdentityString ke stale) = None"
    and room: "int (getCount s) < cm_maxCacheKeys s"
  shows "evictAll (cm_touch ke now stale s) = None"
proof -
  let ?ids = "buildIdentityString ke stale" and ?k = "reg_key reg"
  let ?s = "cm_touch ke now stale s"
  have parent: "truthy_text (idn_parentKey stale) \<noteq> Some ?k" using stale(2) by (simp add: truthy_text_def)
  obtain new where new: "?s = scheduleDirtyFlush (cm_emit (KeyAdded stale (reg_policy new)) (insert_registration ?ids new s))"
    "reg_identity new = stale"
    using stale(3) room by (simp add: cm_touch_def acquireKey_def acquire_start_def acquire_new_def Let_def hold_option_def truthy_text_def)
  have fields: "cm_registry ?s = map_set ?ids new (cm_registry s)" "cm_uuidToIdentity ?s = map_set ?k ?ids (cm_uuidToIdentity s)"
    "cm_holdsByKey ?s = cm_holdsByKey s"
    "cm_childrenByParent ?s = (case truthy_text (idn_parentKey stale) of
       None \<Rightarrow> cm_childrenByParent s | Some p \<Rightarrow> sets_add p ?k (cm_childrenByParent s))"
    by (simp_all add: new insert_registration_def Let_def stale(1))
  have ne: "?ids \<noteq> ids" using old(1) stale(3) by auto
  have "children_of ?s ?k = children_of s ?k" using parent by (auto simp: fields split: option.split)
  then have "is_evictable ?s reg" using old(2) by (simp add: is_evictable_def fields)
  moreover have "map_get (cm_uuidToIdentity s) k = Some ids \<Longrightarrow> k = ?k" for k
    using indexesD(2) [OF cm_invD(1) [OF inv], of k ids] old(1) by auto
  ultimately have "ghost ids ?s"
    unfolding ghost_def using old(1) ne by (auto simp: fields)
  then show ?thesis using ghost_loops by (simp add: evictAll_def)
qed

definition note_template :: "jsval cacheKeyTemplate" where
  "note_template = EntityTemplate \<lparr>lnk_service = None, lnk_type = ''Note'', lnk_id = createEntityRef ''c1'' ''cmd1'' Temporary\<rparr> None"

definition plain_options :: keyOptions where
  "plain_options = \<lparr>opt_hold = False, opt_windowId = None, opt_ttl = None, opt_evictionPolicy = None\<rparr>"

definition note_identity :: "string \<Rightarrow> cacheKeyIdentity" where
  "note_identity i = EntityKey ''k1'' \<lparr>lnk_service = None, lnk_type = ''Note'', lnk_id = i\<rparr> None"

definition registered_note :: "nat cacheManager" where
  "registered_note = (case registerCacheKeySync toy_engine 5 ''k1'' (\<lambda>_. None) note_template plain_options
     (new_cacheManager None None None new_storage) of Inr (_, s) \<Rightarrow> s | Inl _ \<Rightarrow> new_cacheManager None None None new_storage)"

definition reconciled_note :: "nat cacheManager" where
  "reconciled_note = snd (resolvePendingKeys toy_engine ''cmd1'' (\<lambda>_. Some ''s1'') None registered_note)"

lemma plain_hold: "hold_option plain_options k s = s"
  by (simp add: hold_option_def plain_options_def truthy_text_def)

lemma registered_note_eq:
  "registerCacheKeySync toy_engine 5 ''k1'' (\<lambda>_. None) note_template plain_options
     (new_cacheManager None None None new_storage) = Inr (note_identity ''c1'', registered_note)"
  by code_simp

lemma note_registered:
  "registerCacheKey toy_engine 5 ''k1'' (\<lambda>_. None) note_template plain_options (new_cacheManager None None None new_storage)
    = Inr (note_identity ''c1'', scheduleDirtyFlush registered_note)"
  by (simp add: registerCacheKey_def registered_note_eq plain_hold)

lemma note_inv: "cm_inv registered_note" "cm_inv reconciled_note"
proof -
  show reg: "cm_inv registered_note"
    by (rule register_inv [OF _ _ registered_note_eq], rule cm_inv_new)
      (simp add: getRegistration_def new_cacheManager_def)
  have "resolve_apart toy_engine ''cmd1'' (\<lambda>_. Some ''s1'') None registered_note"
    by code_simp
  then show "cm_inv reconciled_note" unfolding reconciled_note_def by (rule resolve_inv [OF reg])
qed

theorem stale_touch_hangs_evictAll_witness:
  "evictAll (cm_touch toy_engine 9 (note_identity ''c1'') reconciled_note) = None"
proof -
  have "map_get (cm_registry reconciled_note) ''entity:Note:s1'' =
      Some (new_registration 5 (note_identity ''s1'') [] plain_options reconciled_note)"
    by code_simp
  moreover have "is_evictable reconciled_note (new_registration 5 (note_identity ''s1'') [] plain_options reconciled_note)"
    by code_simp
  moreover have "map_get (cm_registry reconciled_note) (buildIdentityString toy_engine (note_identity ''c1'')) = None"
    by code_simp
  moreover have "int (getCount reconciled_note) < cm_maxCacheKeys reconciled_note" by code_simp
  ultimately show ?thesis
    using stale_touch_hangs_evictAll [OF note_inv(2), of "''entity:Note:s1''"
        "new_registration 5 (note_identity ''s1'') [] plain_options reconciled_note" "note_identity ''c1''" toy_engine 9]
    by (simp add: note_identity_def)
qed

section \<open>Reachable registries\<close>

lemma load_key_insert:
  assumes "load_key ke r s = Some s'"
  obtains i reg where "hydrateCacheKeyIdentity ke r = Some i" "reg_identity reg = i" "idn_key i = ck_key r"
    "reg_policy reg = ck_evictionPolicy r"
    "cm_registry s' = cm_registry (insert_registration (buildIdentityString ke i) reg s)"
    "cm_uuidToIdentity s' = cm_uuidToIdentity (insert_registration (buildIdentityString ke i) reg s)"
    "cm_childrenByParent s' = cm_childrenByParent (insert_registration (buildIdentityString ke i) reg s)"
    "cm_holdsByKey s' = cm_holdsByKey s"
proof -
  obtain i where i: "hydrateCacheKeyIdentity ke r = Some i" using assms by (auto simp: load_key_def bind_eq_Some_conv)
  then have "idn_key i = ck_key r \<and> idn_parentKey i = ck_parentKey r"
    by (auto simp: hydrateCacheKeyIdentity_def split: cacheKeyKind.splits option.splits)
  moreover obtain pending where "s' = s\<lparr>cm_registry := map_set (buildIdentityString ke i)
          \<lparr>reg_identity = i, reg_pending = pending, reg_policy = ck_evictionPolicy r,
            reg_expiresAt = ck_expiresAt r, reg_lastAccessedAt = ck_lastAccessedAt r, reg_createdAt = ck_createdAt r,
            reg_frozen = ck_frozen r, reg_frozenAt = ck_frozenAt r, reg_inheritedFrozen = ck_inheritedFrozen r\<rparr> (cm_registry s),
           cm_uuidToIdentity := map_set (ck_key r) (buildIdentityString ke i) (cm_uuidToIdentity s),
           cm_childrenByParent := (case truthy_text (ck_parentKey r) of
             None \<Rightarrow> cm_childrenByParent s | Some p \<Rightarrow> sets_add p (ck_key r) (cm_childrenByParent s)),
           cm_pendingByCommand := fold (\<lambda>e. sets_add (pim_commandId e) (ck_key r)) pending (cm_pendingByCommand s)\<rparr>"
    using assms i by (auto simp: load_key_def bind_eq_Some_conv Let_def)
  ultimately show thesis
    by (intro that [of i "\<lparr>reg_identity = i, reg_pending = pending, reg_policy = ck_evictionPolicy r,
            reg_expiresAt = ck_expiresAt r, reg_lastAccessedAt = ck_lastAccessedAt r, reg_createdAt = ck_createdAt r,
            reg_frozen = ck_frozen r, reg_frozenAt = ck_frozenAt r, reg_inheritedFrozen = ck_inheritedFrozen r\<rparr>"])
      (simp_all add: i insert_registration_def Let_def)
qed

text \<open>The identity string of a stored record.\<close>

definition record_string :: "keyEngine \<Rightarrow> cacheKeyRecord \<Rightarrow> string option" where
  "record_string ke r = map_option (buildIdentityString ke) (hydrateCacheKeyIdentity ke r)"

lemma load_key_inv:
  assumes "load_key ke r s = Some s'" "cm_inv s" "getRegistration s (ck_key r) = None" "ck_evictionPolicy r \<noteq> Ephemeral"
    and free: "\<And>ids. record_string ke r = Some ids \<Longrightarrow> map_get (cm_registry s) ids = None"
  shows "cm_inv s'" "\<And>k. k \<noteq> ck_key r \<Longrightarrow> getRegistration s' k = getRegistration s k"
    and "\<And>ids. record_string ke r \<noteq> Some ids \<Longrightarrow> map_get (cm_registry s') ids = map_get (cm_registry s) ids"
proof -
  obtain i reg where i: "hydrateCacheKeyIdentity ke r = Some i" "reg_identity reg = i" "idn_key i = ck_key r"
    and pol: "reg_policy reg = ck_evictionPolicy r"
    and fields: "cm_registry s' = cm_registry (insert_registration (buildIdentityString ke i) reg s)"
      "cm_uuidToIdentity s' = cm_uuidToIdentity (insert_registration (buildIdentityString ke i) reg s)"
      "cm_childrenByParent s' = cm_childrenByParent (insert_registration (buildIdentityString ke i) reg s)"
      "cm_holdsByKey s' = cm_holdsByKey s"
    using load_key_insert [OF assms(1)] by blast
  let ?ids = "buildIdentityString ke i"
  have ids: "record_string ke r = Some ?ids" using i(1) by (simp add: record_string_def)
  have "cm_holdsByKey (insert_registration ?ids reg s) = cm_holdsByKey s" by (simp add: insert_registration_def Let_def)
  note same = cm_inv_cong [OF fields(1-3) fields(4) [folded this]]
  have fresh: "getRegistration s (reg_key reg) = None" using assms(3) i by simp
  have eph: "reg_policy reg = Ephemeral \<Longrightarrow> \<not> reg_frozen reg \<and> \<not> reg_inheritedFrozen reg" using assms(4) pol by simp
  note new = free [OF ids]
  show "cm_inv s'" unfolding same by (rule insert_inv [OF assms(2) new fresh eph])
  show "getRegistration s' k = getRegistration s k" if "k \<noteq> ck_key r" for k
    unfolding same insert_agree(2) [OF cm_invD(1) [OF assms(2)] new fresh] using that i by simp
  show "map_get (cm_registry s') x = map_get (cm_registry s) x" if "record_string ke r \<noteq> Some x" for x
    using that ids by (auto simp: fields insert_registration_def Let_def)
qed

abbreviation persistent_records :: "cacheKeyRecord list \<Rightarrow> cacheKeyRecord list" where
  "persistent_records rs \<equiv> filter (\<lambda>r. ck_evictionPolicy r \<noteq> Ephemeral) rs"

lemma load_keys_inv:
  assumes "load_keys ke rs s = Some s'" "cm_inv s" "distinct (map ck_key rs)"
    "\<forall>r \<in> set rs. getRegistration s (ck_key r) = None"
    "distinct (map (record_string ke) (persistent_records rs))"
    "\<forall>r \<in> set (persistent_records rs). \<forall>ids. record_string ke r = Some ids \<longrightarrow> map_get (cm_registry s) ids = None"
  shows "cm_inv s'"
  using assms
proof (induction rs arbitrary: s)
  case (Cons r rs)
  show ?case
  proof (cases "ck_evictionPolicy r = Ephemeral")
    case True
    then obtain i where "load_keys ke rs (cm_emit (KeyEvicted i ReasonExplicit) s) = Some s'"
      using Cons.prems(1) by (auto simp: bind_eq_Some_conv)
    then show ?thesis by (rule Cons.IH) (use Cons.prems True in simp_all)
  next
    case False
    then obtain s1 where s1: "load_key ke r s = Some s1" "load_keys ke rs s1 = Some s'"
      using Cons.prems(1) by (auto simp: bind_eq_Some_conv)
    have fresh: "getRegistration s (ck_key r) = None" using Cons.prems(4) by simp
    have free: "record_string ke r = Some ids \<Longrightarrow> map_get (cm_registry s) ids = None" for ids
      using Cons.prems(6) False by simp
    note L = load_key_inv [OF s1(1) Cons.prems(2) fresh False free]
    show ?thesis
    proof (rule Cons.IH [OF s1(2) L(1)])
      show "\<forall>r' \<in> set rs. getRegistration s1 (ck_key r') = None"
        using L(2) Cons.prems(3,4) by (metis (no_types, lifting) distinct.simps(2) image_eqI list.set_intros(2) list.simps(9) set_map)
      show "\<forall>r' \<in> set (persistent_records rs). \<forall>ids. record_string ke r' = Some ids \<longrightarrow> map_get (cm_registry s1) ids = None"
      proof (intro ballI allI impI)
        fix r' ids
        assume r': "r' \<in> set (persistent_records rs)" "record_string ke r' = Some ids"
        then have "record_string ke r \<noteq> Some ids" using Cons.prems(5) False by (force simp: image_iff)
        moreover have "map_get (cm_registry s) ids = None" using Cons.prems(6) r' False by auto
        ultimately show "map_get (cm_registry s1) ids = None" using L(3) by simp
      qed
    qed (use Cons.prems False in auto)
  qed
qed simp

text \<open>No two persistent records of a storage have the same identity string.\<close>

definition stored_apart :: "keyEngine \<Rightarrow> 'c inMemoryStorage \<Rightarrow> bool" where
  "stored_apart ke st \<longleftrightarrow> distinct (map (record_string ke) (persistent_records (getAllCacheKeys st)))"

lemma initialize_inv:
  assumes "cm_initialize ke s = Some s'" "cm_inv s" "cm_registry s = []" "storage_inv (cm_storage s)"
    and "stored_apart ke (cm_storage s)"
  shows "cm_inv s'"
proof -
  obtain s1 where s1: "load_keys ke (getAllCacheKeys (cm_storage s)) s = Some s1"
    and s': "cm_registry s' = cm_registry s1" "cm_uuidToIdentity s' = cm_uuidToIdentity s1"
      "cm_childrenByParent s' = cm_childrenByParent s1" "cm_holdsByKey s' = cm_holdsByKey s1"
    using assms(1) by (auto simp: cm_initialize_def Let_def)
  have "map ck_key (getAllCacheKeys (cm_storage s)) = map_keys (cacheKeys (cm_storage s))"
    using storage_invD(1) [OF assms(4)] by (auto simp: getAllCacheKeys_def keyed_by_def)
  then have "distinct (map ck_key (getAllCacheKeys (cm_storage s)))"
    using storage_invD(1) [OF assms(4)] by (simp add: keyed_by_def map_wf_def)
  moreover have "getRegistration s k = None" for k by (simp add: getRegistration_def assms(3) bind_def split: option.split)
  ultimately have "cm_inv s1"
    using assms(2,3,5) by (intro load_keys_inv [OF s1]) (simp_all add: stored_apart_def)
  then show ?thesis by (simp add: cm_inv_cong(1) [OF s'])
qed

text \<open>
  The operations within a session, without the flush.  \<open>acquireKey\<close> runs in two halves, between which any
  other operation may come; a second half is that of any identity and time.  The loops of \<open>evictAll\<close> and
  \<open>evictExpired\<close> await the storage after each key that they remove, so a single pass is a step as well.

  The code does not ensure that a UUID and an identity string belong together: the caller brings the UUID
  of an acquired key along, and the ids that a command's success brings may turn one identity into that of
  another key.  With \<open>apart\<close> the steps are those where they do: an inserted identity belongs to the registry
  at the moment of the insertion, a generated UUID is new, no resolved identity is that of another key.
  Without \<open>apart\<close> the steps are all that the code can take.
\<close>

inductive cm_step :: "bool \<Rightarrow> keyEngine \<Rightarrow> 'c cacheManager \<Rightarrow> 'c cacheManager \<Rightarrow> bool" for apart ke where
  acquire_start: "cm_step apart ke s (snd (acquire_start ke now i opts s))"
| acquire_finish: "(apart \<Longrightarrow> belongs (buildIdentityString ke i) i s) \<Longrightarrow>
    cm_step apart ke s (acquire_new ke now i opts s)"
| register: "(apart \<Longrightarrow> getRegistration s newId = None) \<Longrightarrow>
    registerCacheKey ke now newId m template opts s = Inr (i, s') \<Longrightarrow> cm_step apart ke s s'"
| resolve: "(apart \<Longrightarrow> resolve_apart ke cid idMap resolver s) \<Longrightarrow>
    cm_step apart ke s (snd (resolvePendingKeys ke cid idMap resolver s))"
| hold: "cm_step apart ke s (holdForWindow k w s)"
| release: "cm_step apart ke s (releaseForWindow k w s)"
| release_holds: "cm_step apart ke s (releaseHolds ks s)"
| register_window: "cm_step apart ke s (snd (registerWindow w s))"
| unregister_window: "cm_step apart ke s (unregisterWindow w s)"
| freeze: "cm_freeze now k s = Some s' \<Longrightarrow> cm_step apart ke s s'"
| unfreeze: "cm_unfreeze k s = Some s' \<Longrightarrow> cm_step apart ke s s'"
| evict: "cm_step apart ke s (snd (cm_evict k s))"
| evict_pass: "cm_step apart ke s (evict_now r k i s)"
| evict_all: "evictAll s = Some (n, s') \<Longrightarrow> cm_step apart ke s s'"
| evict_expired: "cm_step apart ke s (snd (evictExpired now s))"
| write_queue: "cm_step apart ke s (setWriteQueue s)"
| flush_dropped: "cm_step apart ke s (flush_evicted s)"

lemma cleared_inv:
  "cm_registry s' = [] \<Longrightarrow> cm_uuidToIdentity s' = [] \<Longrightarrow> cm_childrenByParent s' = [] \<Longrightarrow> cm_holdsByKey s' = [] \<Longrightarrow> cm_inv s'"
  by (simp add: cm_inv_def indexes_agree_def children_agree_def holds_agree_def ephemeral_thawed_def getRegistration_def
      sets_get_def)

lemma session_inv:
  "cm_inv s \<Longrightarrow> cm_inv (snd (checkSessionUser user s))" "cm_inv (cm_onSessionDestroyed s)"
  by (auto simp: checkSessionUser_def cm_onSessionDestroyed_def clear_registry_def Let_def intro: cleared_inv split: option.split)

lemma cm_step_inv: "cm_step True ke s s' \<Longrightarrow> cm_inv s \<Longrightarrow> cm_inv s'"
proof (induction rule: cm_step.induct)
  case (acquire_start s now i opts)
  then show ?case by (intro acquire_start_inv)
next
  case (acquire_finish i s now opts)
  then show ?case by (intro acquire_new_inv) simp_all
next
  case (register s newId now m template opts i s')
  then show ?case using registerCacheKey_inv by blast
next
  case (resolve cid idMap resolver s)
  then show ?case by (intro resolve_inv) simp_all
next
  case (register_window s w)
  then show ?case by (auto simp: registerWindow_def cm_inv_cong(1) [of "s\<lparr>cm_registeredWindows := _\<rparr>" s])
next
  case (evict_pass s r k i)
  then show ?case by (simp add: cm_remove_inv)
next
  case (evict_all s n s')
  then show ?case using evictAll_from_spec [of s 0] by (auto simp: evictAll_def)
next
  case (write_queue s)
  then show ?case by (simp add: setWriteQueue_def cm_inv_cong(1) [of "s\<lparr>cm_writeQueue := _\<rparr>" s])
next
  case (flush_dropped s)
  have "cm_inv (flush_evicted s) = cm_inv s" by (rule cm_inv_cong) (simp_all add: flush_evicted_def)
  with flush_dropped show ?case by simp
qed (auto intro: hold_for_inv release_inv freeze_inv unfreeze_inv eviction_inv)

lemma flush_inv [simp]: "cm_inv (flush_deletions s) = cm_inv s" "cm_inv (flush_dirty ke s) = cm_inv s"
  by (rule cm_inv_cong; simp add: flush_deletions_def flush_dirty_def)+

text \<open>A run also starts the manager, on an empty registry, flushes, in two halves, and ends sessions.\<close>

inductive cm_run :: "bool \<Rightarrow> keyEngine \<Rightarrow> 'c cacheManager \<Rightarrow> 'c cacheManager \<Rightarrow> bool" for apart ke where
  op: "cm_step apart ke s s' \<Longrightarrow> cm_run apart ke s s'"
| init: "cm_initialize ke s = Some s' \<Longrightarrow> cm_registry s = [] \<Longrightarrow> storage_inv (cm_storage s) \<Longrightarrow>
    (apart \<Longrightarrow> stored_apart ke (cm_storage s)) \<Longrightarrow> cm_run apart ke s s'"
| flush_delete: "cm_run apart ke s (flush_deletions s)"
| flush_save: "cm_run apart ke s (flush_dirty ke s)"
| user: "cm_run apart ke s (snd (checkSessionUser u s))"
| session_end: "cm_run apart ke s (cm_onSessionDestroyed s)"

lemma cm_runs_inv: "(cm_run True ke)\<^sup>*\<^sup>* s s' \<Longrightarrow> cm_inv s \<Longrightarrow> cm_inv s'"
proof (induction rule: rtranclp_induct)
  case (step s' s'')
  from step(2) have "cm_inv s' \<Longrightarrow> cm_inv s''"
    by cases (auto intro: cm_step_inv initialize_inv session_inv)
  with step show ?case by blast
qed

section \<open>What holds of every run\<close>

definition thawed :: "(string \<times> registration) list \<Rightarrow> bool" where
  "thawed m \<longleftrightarrow> map_wf m \<and> (\<forall>ids reg. map_get m ids = Some reg \<and> reg_policy reg = Ephemeral \<longrightarrow>
    \<not> reg_frozen reg \<and> \<not> reg_inheritedFrozen reg)"

lemma thawed_set:
  "thawed m \<Longrightarrow> (reg_policy reg = Ephemeral \<Longrightarrow> \<not> reg_frozen reg \<and> \<not> reg_inheritedFrozen reg) \<Longrightarrow> thawed (map_set ids reg m)"
  unfolding thawed_def by (auto split: if_splits)

lemma thawed_delete: "thawed m \<Longrightarrow> thawed (map_delete ids m)"
  unfolding thawed_def by (auto split: if_splits)

lemma thawed_change:
  assumes "thawed m" "map_get m ids = Some reg" "reg_policy reg' = reg_policy reg"
    and "reg_policy reg = Ephemeral \<Longrightarrow> reg_frozen reg' = reg_frozen reg \<and> reg_inheritedFrozen reg' = reg_inheritedFrozen reg"
  shows "reg_policy reg' = Ephemeral \<Longrightarrow> \<not> reg_frozen reg' \<and> \<not> reg_inheritedFrozen reg'"
  using assms unfolding thawed_def by auto

lemma thawed_remove: "thawed (cm_registry s) \<Longrightarrow> thawed (cm_registry (removeFromRegistry k s))"
  by (auto simp: removeFromRegistry_def Let_def intro: thawed_delete split: option.split)

lemma thawed_fold:
  assumes "thawed (cm_registry s)" "\<And>x s. thawed (cm_registry s) \<Longrightarrow> thawed (cm_registry (f x s))"
  shows "thawed (cm_registry (fold f xs s))"
  using assms(1) by (induction xs arbitrary: s) (auto intro: assms(2))

lemma getRegistration_entry:
  "getRegistration s k = Some reg \<Longrightarrow> \<exists>ids. map_get (cm_uuidToIdentity s) k = Some ids \<and> map_get (cm_registry s) ids = Some reg"
  by (auto simp: getRegistration_def bind_eq_Some_conv)

lemma thawed_modify:
  assumes "thawed (cm_registry s)"
    and "\<And>reg. getRegistration s k = Some reg \<Longrightarrow> reg_policy (f reg) = Ephemeral \<Longrightarrow>
      \<not> reg_frozen (f reg) \<and> \<not> reg_inheritedFrozen (f reg)"
  shows "thawed (cm_registry (modify_registration k f s))"
  using assms by (auto simp: modify_registration_def getRegistration_def intro!: thawed_set split: option.split)

lemma thawed_access:
  assumes "thawed (cm_registry s)" "map_get (cm_registry s) ids = Some reg"
  shows "thawed (cm_registry (access_existing now ids reg opts s))"
  using thawed_change [OF assms, of "reg\<lparr>reg_lastAccessedAt := now\<rparr>"] assms(1)
  by (auto simp: access_existing_def Let_def intro!: thawed_set)

lemma thawed_insert:
  "thawed (cm_registry s) \<Longrightarrow> (reg_policy reg = Ephemeral \<Longrightarrow> \<not> reg_frozen reg \<and> \<not> reg_inheritedFrozen reg) \<Longrightarrow>
    thawed (cm_registry (insert_registration ids reg s))"
  by (simp add: insert_registration_def Let_def thawed_set)

lemma thawed_evictions:
  assumes "thawed (cm_registry s)"
  shows "thawed (cm_registry (evict_now r k i s))" "thawed (cm_registry (maybeEvict s))"
    "thawed (cm_registry (snd (cm_evict k s)))" "thawed (cm_registry (snd (evictExpired now s)))"
proof -
  show now: "thawed (cm_registry (evict_now r k i s))" for r k i using thawed_remove [OF assms] by simp
  show "thawed (cm_registry (maybeEvict s))" using maybeEvict_view [of s] now assms by auto
  show "thawed (cm_registry (snd (cm_evict k s)))" using now assms by (auto simp: cm_evict_def split: option.split)
  show "thawed (cm_registry (snd (evictExpired now s)))"
    unfolding evictExpired_def Let_def snd_conv by (rule thawed_fold [OF assms]) (simp add: thawed_remove)
qed

lemma thawed_releases:
  assumes "thawed (cm_registry s)"
  shows "thawed (cm_registry (releaseForWindow k w s))" "thawed (cm_registry (releaseHolds ks s))"
    "thawed (cm_registry (unregisterWindow w s))"
proof -
  have drop: "thawed (cm_registry s) \<Longrightarrow> thawed (cm_registry (drop_hold k w s))" for k and s :: "'a cacheManager"
    by (auto simp: drop_hold_def Let_def auto_evict_def intro!: thawed_remove split: option.split)
  have one: "thawed (cm_registry s) \<Longrightarrow> thawed (cm_registry (release_one k s))" for k and s :: "'a cacheManager"
    by (auto simp: release_one_def Let_def auto_evict_def intro!: thawed_remove split: option.split)
  show "thawed (cm_registry (releaseForWindow k w s))" using drop assms by (simp add: releaseForWindow_def)
  show "thawed (cm_registry (releaseHolds ks s))" using thawed_fold [OF assms one] by (simp add: releaseHolds_def)
  show "thawed (cm_registry (unregisterWindow w s))"
    unfolding unregisterWindow_def releaseAllForWindow_def Let_def frame_fields
    by (rule thawed_fold) (use assms drop in auto)
qed

lemma thawed_inherited:
  assumes "thawed (cm_registry s)" "getRegistration s k = Some reg" "reg_policy reg \<noteq> Ephemeral"
  shows "thawed (cm_registry (set_inherited b k reg s))"
  using assms by (auto simp: set_inherited_def intro!: thawed_modify)

lemma thawed_propagate: "propagate_to frozen work s = Some s' \<Longrightarrow> thawed (cm_registry s) \<Longrightarrow> thawed (cm_registry s')"
proof (induction rule: propagate_to.raw_induct [rotated, consumes 1])
  case 1
  then show ?case by (auto split: list.splits option.splits if_splits) (metis thawed_inherited)
qed

lemma thawed_reevaluate: "reevaluate_from work s = Some s' \<Longrightarrow> thawed (cm_registry s) \<Longrightarrow> thawed (cm_registry s')"
proof (induction rule: reevaluate_from.raw_induct [rotated, consumes 1])
  case 1
  then show ?case by (auto simp: bind_eq_Some_conv split: list.splits option.splits if_splits intro: thawed_inherited)
qed

lemma thawed_freeze:
  assumes "thawed (cm_registry s)"
  shows "cm_freeze now k s = Some s' \<Longrightarrow> thawed (cm_registry s')" "cm_unfreeze k s = Some s' \<Longrightarrow> thawed (cm_registry s')"
proof -
  have "thawed (cm_registry (modify_registration k (\<lambda>reg. reg\<lparr>reg_frozen := True, reg_frozenAt := Some now\<rparr>) s))"
    if "getRegistration s k = Some reg" "reg_policy reg \<noteq> Ephemeral" for reg
    by (rule thawed_modify) (use assms that in auto)
  then show "cm_freeze now k s = Some s' \<Longrightarrow> thawed (cm_registry s')"
    using assms by (auto simp: cm_freeze_def propagateInheritedFrozen_def dest!: thawed_propagate split: option.splits if_splits)
  have "thawed (cm_registry (modify_registration k (\<lambda>reg. reg\<lparr>reg_frozen := False, reg_frozenAt := None\<rparr>) s))"
    by (rule thawed_modify [OF assms]) (use assms in \<open>auto simp: thawed_def dest!: getRegistration_entry\<close>)
  then show "cm_unfreeze k s = Some s' \<Longrightarrow> thawed (cm_registry s')"
    using assms by (auto simp: cm_unfreeze_def reevaluateInheritedFrozen_def dest!: thawed_reevaluate split: option.splits if_splits)
qed

lemma thawed_register:
  assumes "thawed (cm_registry s)" "registerCacheKey ke now newId m template opts s = Inr (i, s')"
  shows "thawed (cm_registry s')"
  using assms(2) thawed_access [OF assms(1)] thawed_insert [OF assms(1)]
  by (auto simp: registerCacheKey_def registerCacheKeySync_def bind_result_Inr map_result_Inr Let_def split: option.splits)

lemma thawed_resolve_keys:
  "thawed (cm_registry s) \<Longrightarrow> thawed (cm_registry (snd (resolve_keys ke cid idMap resolver ks s)))"
proof (induction ks arbitrary: s)
  case (Cons k ks)
  have "thawed (cm_registry s')" if "resolve_key ke cid idMap resolver k s = Inr s'" for s'
  proof (rule resolve_key_cases [OF that])
    fix reg entry sid i
    assume reg: "getRegistration s k = Some reg" and s': "s' = reconcile_registration ke cid k reg entry sid i s"
    obtain ids where "map_get (cm_registry s) ids = Some reg" using getRegistration_entry [OF reg] by blast
    then have "reg_policy reg = Ephemeral \<longrightarrow> \<not> reg_frozen reg \<and> \<not> reg_inheritedFrozen reg"
      using Cons.prems unfolding thawed_def by blast
    then show "thawed (cm_registry s')"
      unfolding s' reconcile_registration_def Let_def frame_fields
      by simp (rule thawed_set [OF thawed_delete [OF Cons.prems]], simp)
  qed (use Cons.prems in simp)
  with Cons show ?case by (auto split: sum.split)
qed simp

lemma thawed_evict_all: "evictAll_from n s = Some r \<Longrightarrow> thawed (cm_registry s) \<Longrightarrow> thawed (cm_registry (snd r))"
proof (induction rule: evictAll_from.raw_induct [rotated, consumes 1])
  case (1 rec_call n s r)
  note IH = 1(1)
  show ?case
  proof (cases "find (is_evictable s) (map_values (cm_registry s))")
    case None
    then show ?thesis using 1 by auto
  next
    case (Some reg)
    have "rec_call (Suc n) (evict_now ReasonExplicit (reg_key reg) (reg_identity reg) s) = Some r" using 1(2) Some by simp
    from IH [OF this thawed_evictions(1) [OF 1(3)]] show ?thesis .
  qed
qed

lemma thawed_initialize:
  assumes "cm_initialize ke s = Some s'" "cm_registry s = []"
  shows "thawed (cm_registry s')"
proof -
  have "load_keys ke rs s = Some s' \<Longrightarrow> thawed (cm_registry s) \<Longrightarrow> thawed (cm_registry s')" for rs and s s' :: "'a cacheManager"
  proof (induction rs arbitrary: s)
    case (Cons r rs)
    show ?case
    proof (cases "ck_evictionPolicy r = Ephemeral")
      case True
      then obtain i where "load_keys ke rs (cm_emit (KeyEvicted i ReasonExplicit) s) = Some s'"
        using Cons.prems(1) by (auto simp: bind_eq_Some_conv)
      from Cons.IH [OF this] show ?thesis using Cons.prems(2) by simp
    next
      case False
      then obtain s1 where s1: "load_key ke r s = Some s1" "load_keys ke rs s1 = Some s'"
        using Cons.prems(1) by (auto simp: bind_eq_Some_conv)
      obtain i reg where "reg_policy reg = ck_evictionPolicy r"
        "cm_registry s1 = cm_registry (insert_registration (buildIdentityString ke i) reg s)"
        by (rule load_key_insert [OF s1(1)])
      then have "thawed (cm_registry s1)" using thawed_insert [OF Cons.prems(2), of reg] False by simp
      then show ?thesis by (rule Cons.IH [OF s1(2)])
    qed
  qed simp
  from this [of "getAllCacheKeys (cm_storage s)" s] assms show ?thesis
    by (auto simp: cm_initialize_def Let_def thawed_def)
qed

lemma cm_step_thawed: "cm_step apart ke s s' \<Longrightarrow> thawed (cm_registry s) \<Longrightarrow> thawed (cm_registry s')"
proof (induction rule: cm_step.induct)
  case (acquire_start s now i opts)
  then show ?case
    using thawed_access thawed_evictions(2) by (auto simp: acquire_start_def Let_def split: option.split)
next
  case (acquire_finish i s now opts)
  then show ?case by (simp add: acquire_new_def Let_def thawed_insert)
next
  case (resolve cid idMap resolver s)
  then show ?case using thawed_resolve_keys by (auto simp: resolvePendingKeys_def Let_def)
next
  case (evict_all s n s')
  then show ?case using thawed_evict_all [of 0 s "(n, s')"] by (simp add: evictAll_def)
next
  case (register_window s w)
  then show ?case by (simp add: registerWindow_def)
next
  case (write_queue s)
  then show ?case by (simp add: setWriteQueue_def)
next
  case (flush_dropped s)
  then show ?case by (simp add: flush_evicted_def)
next
  case (hold s k w)
  then show ?case by (simp add: hold_for_inv(2))
qed (erule (1) thawed_register thawed_freeze | erule thawed_evictions thawed_releases)+

lemma cm_run_thawed: "cm_run apart ke s s' \<Longrightarrow> thawed (cm_registry s) \<Longrightarrow> thawed (cm_registry s')"
proof (induction rule: cm_run.induct)
  case (user s u)
  then show ?case by (auto simp: checkSessionUser_def clear_registry_def thawed_def split: option.split)
next
  case (session_end s)
  then show ?case by (simp add: cm_onSessionDestroyed_def Let_def clear_registry_def thawed_def)
qed (auto intro: cm_step_thawed thawed_initialize simp: flush_deletions_def flush_dirty_def)

lemma cm_runs_thawed: "(cm_run apart ke)\<^sup>*\<^sup>* s s' \<Longrightarrow> thawed (cm_registry s) \<Longrightarrow> thawed (cm_registry s')"
  by (induction rule: rtranclp_induct) (auto intro: cm_run_thawed)

text \<open>
  C24: The registry and its indexes agree as long as UUIDs and identity strings belong together. In every
  state that a run of the cache manager reaches, with the two halves of \<open>acquireKey\<close> interleaved with any
  other operation: no identity string has two registrations and no ephemeral key is frozen, itself or by
  inheritance. If moreover every insertion of the run used a UUID and an identity string that belong
  together and no resolved identity was that of another key, which the code does not check: the registrations have
  distinct UUIDs, a UUID is known exactly when it finds a registration and it finds the one that
  carries it, and each listed child of a key is registered with that key as its parent.
  \<open>stale_touch_hangs_evictAll\<close> and \<open>resolve_overwrites_key\<close> show what happens in a run where they do not.
\<close>
theorem registry_consistent:
  assumes "(cm_run apart ke)\<^sup>*\<^sup>* (new_cacheManager maxKeys ttl windows st) s"
  shows "distinct (map_keys (cm_registry s))
    \<and> (\<forall>reg \<in> set (map_values (cm_registry s)). reg_policy reg = Ephemeral \<longrightarrow> \<not> reg_frozen reg \<and> \<not> reg_inheritedFrozen reg)
    \<and> (apart \<longrightarrow> distinct (map idn_key (iterateIdentities s))
        \<and> (\<forall>k reg. getRegistration s k = Some reg \<longleftrightarrow> reg \<in> set (map_values (cm_registry s)) \<and> reg_key reg = k)
        \<and> (\<forall>k. existsSync s k \<longleftrightarrow> getRegistration s k \<noteq> None)
        \<and> (\<forall>p. \<forall>c \<in> set (children_of s p). \<exists>reg. getRegistration s c = Some reg \<and> reg_parent reg = Some p))"
proof (intro conjI impI)
  have thawed: "thawed (cm_registry s)"
    by (rule cm_runs_thawed [OF assms]) (simp add: new_cacheManager_def thawed_def)
  then show "distinct (map_keys (cm_registry s))" by (simp add: thawed_def map_wf_def)
  show "\<forall>reg \<in> set (map_values (cm_registry s)). reg_policy reg = Ephemeral \<longrightarrow> \<not> reg_frozen reg \<and> \<not> reg_inheritedFrozen reg"
    using thawed unfolding thawed_def by (auto simp: map_wf_get)
next
  assume apart
  with assms have "(cm_run True ke)\<^sup>*\<^sup>* (new_cacheManager maxKeys ttl windows st) s" by simp
  then have inv: "cm_inv s" using cm_runs_inv [of ke _ s] by simp
  note D = cm_invD [OF inv]
  have "inj_on (\<lambda>(ids, reg). reg_key reg) (set (cm_registry s))"
    using indexesD(1) [OF D(1)] indexesD(3) [OF D(1)]
    by (auto simp: inj_on_def map_wf_get [symmetric]) (metis option.inject prod.inject)+
  then show "distinct (map idn_key (iterateIdentities s))"
    using indexesD(3) [OF D(1)]
    by (simp add: iterateIdentities_def comp_def distinct_map map_wf_def case_prod_beta')
  show "\<forall>k. existsSync s k \<longleftrightarrow> getRegistration s k \<noteq> None"
    using unregistered_iff [OF D(1)] by (simp add: existsSync_def map_has_def)
  show "\<forall>k reg. getRegistration s k = Some reg \<longleftrightarrow> reg \<in> set (map_values (cm_registry s)) \<and> reg_key reg = k"
    using registered_entry [OF D(1)] by blast
  show "\<forall>p. \<forall>c \<in> set (children_of s p). \<exists>reg. getRegistration s c = Some reg \<and> reg_parent reg = Some p"
    using D(2) unfolding children_agree_def by blast
qed

text \<open>
  The witness: while an acquisition of a reply below \<open>k1\<close> waits for its eviction, a second one starts and finishes;
  then the first inserts the reply again.
\<close>

definition reply_identity :: cacheKeyIdentity where
  "reply_identity = EntityKey ''k2'' \<lparr>lnk_service = None, lnk_type = ''Reply'', lnk_id = ''r1''\<rparr> (Some ''k1'')"

definition replied_twice :: "nat cacheManager" where
  "replied_twice =
    acquire_new toy_engine 6 reply_identity plain_options
      (acquire_new toy_engine 7 reply_identity plain_options
        (snd (acquire_start toy_engine 7 reply_identity plain_options
          (snd (acquire_start toy_engine 6 reply_identity plain_options (scheduleDirtyFlush registered_note))))))"

theorem registry_consistent_witness:
  "getCount replied_twice = 2 \<and> distinct (map idn_key (iterateIdentities replied_twice))"
proof
  show "getCount replied_twice = 2" by code_simp
  let ?s0 = "scheduleDirtyFlush registered_note"
  let ?s2 = "snd (acquire_start toy_engine 7 reply_identity plain_options
    (snd (acquire_start toy_engine 6 reply_identity plain_options ?s0)))"
  let ?s3 = "acquire_new toy_engine 7 reply_identity plain_options ?s2"
  let ?run = "cm_run True toy_engine :: nat cacheManager \<Rightarrow> _"
  have "?run (new_cacheManager None None None new_storage) ?s0"
    by (rule cm_run.op, rule cm_step.register [OF _ note_registered]) (simp add: getRegistration_def new_cacheManager_def)
  moreover have "?run\<^sup>*\<^sup>* ?s0 ?s2"
    by (meson cm_run.op cm_step.acquire_start rtranclp.rtrancl_into_rtrancl rtranclp.rtrancl_refl)
  moreover have "belongs (buildIdentityString toy_engine reply_identity) reply_identity ?s2" by code_simp
  then have "?run ?s2 ?s3" by (intro cm_run.op cm_step.acquire_finish)
  moreover have "belongs (buildIdentityString toy_engine reply_identity) reply_identity ?s3" by code_simp
  then have "?run ?s3 replied_twice" unfolding replied_twice_def by (intro cm_run.op cm_step.acquire_finish)
  ultimately have "?run\<^sup>*\<^sup>* (new_cacheManager None None None new_storage) replied_twice"
    by (meson converse_rtranclp_into_rtranclp rtranclp.rtrancl_into_rtrancl rtranclp_trans)
  from registry_consistent [OF this] show "distinct (map idn_key (iterateIdentities replied_twice))" by simp
qed

theorem evict_all_ends_witness:
  "\<exists>n s'. evictAll reconciled_note = Some (n, s') \<and> getCount s' + n = 1"
proof -
  have "getCount reconciled_note = 1" by code_simp
  then show ?thesis using evict_all_ends [OF note_inv(2)] by metis
qed


section \<open>Two keys that turn out to be one\<close>

text \<open>
  Reconciling ids can make a key disappear behind another. When the server id that a command's
  success brings turns the identity of a pending entity key into that of another registered key, the
  second registration is overwritten: its UUID is still known but from then on finds the registration of
  the first key, so its holds and freezing no longer protect it and evicting it removes the first key.
\<close>
theorem resolve_overwrites_key:
  assumes inv: "cm_inv s"
    and k: "getRegistration s k = Some reg" "reg_identity reg = EntityKey k link parent" "k2 \<noteq> k"
    and pending: "find (\<lambda>e. pim_commandId e = cid) (reg_pending reg) = Some entry" "idMap (pim_clientId entry) = Some sid"
    and k2: "map_get (cm_uuidToIdentity s) k2 = Some (buildIdentityString ke (EntityKey k (link\<lparr>lnk_id := sid\<rparr>) parent))"
  shows "\<exists>s' reg'. resolve_key ke cid idMap None k s = Inr s' \<and> getRegistration s' k2 = Some reg' \<and> reg_key reg' = k
    \<and> existsSync s' k2 \<and> getRegistration s' k = Some reg' \<and> Suc (getCount s') = getCount s"
proof -
  note D = cm_invD [OF inv]
  let ?i = "EntityKey k (link\<lparr>lnk_id := sid\<rparr>) parent"
  let ?ids = "buildIdentityString ke ?i"
  let ?reg = "reg\<lparr>reg_identity := ?i, reg_pending := filter (\<lambda>e. pim_commandId e \<noteq> cid) (reg_pending reg)\<rparr>"
  let ?s = "reconcile_registration ke cid k reg entry sid ?i s"
  obtain ids where ids: "map_get (cm_uuidToIdentity s) k = Some ids" "map_get (cm_registry s) ids = Some reg"
    using k(1) by (auto simp: getRegistration_def bind_eq_Some_conv)
  obtain reg2 where reg2: "map_get (cm_registry s) ?ids = Some reg2" "reg_key reg2 = k2"
    using indexesD(2) [OF D(1) k2] by blast
  have ne: "?ids \<noteq> ids" using ids(2) reg2 k(2,3) by auto
  have fields: "cm_registry ?s = map_set ?ids ?reg (map_delete ids (cm_registry s))"
    "cm_uuidToIdentity ?s = map_set k ?ids (cm_uuidToIdentity s)"
    by (simp_all add: reconcile_registration_def Let_def ids del: buildIdentityString.simps)
  have get: "getRegistration ?s k = Some ?reg" "getRegistration ?s k2 = Some ?reg"
    unfolding getRegistration_def fields using k2 k(3) by simp_all
  moreover have "resolve_key ke cid idMap None k s = Inr ?s"
    using k(1,2) pending by (simp add: resolve_key_def del: buildIdentityString.simps)
  moreover have "existsSync ?s k2" unfolding existsSync_def fields using k2 by (simp add: map_has_def)
  moreover have "map_has (map_delete ids (cm_registry s)) ?ids"
    unfolding map_has_delete using reg2(1) ne by (simp add: map_has_def)
  then have "Suc (getCount ?s) = getCount s"
    using length_map_delete [OF indexesD(3) [OF D(1)] ids(2)]
    unfolding getCount_def fields length_map_set by simp
  ultimately show ?thesis by (intro exI [of _ ?s] exI [of _ ?reg]) simp
qed

definition note_and_copy :: "nat cacheManager" where
  "note_and_copy = snd (acquireKey toy_engine 6
     (EntityKey ''k2'' \<lparr>lnk_service = None, lnk_type = ''Note'', lnk_id = ''s1''\<rparr> None) plain_options registered_note)"

theorem resolve_overwrites_key_witness:
  "\<exists>s'. resolve_key toy_engine ''cmd1'' (\<lambda>_. Some ''s1'') None ''k1'' note_and_copy = Inr s' \<and>
     map_option reg_key (getRegistration s' ''k2'') = Some ''k1''"
proof -
  let ?e = "\<lparr>pim_commandId = ''cmd1'', pim_clientId = ''c1'', pim_paramKey = None\<rparr>"
  let ?reg = "new_registration 5 (note_identity ''c1'') [?e] plain_options note_and_copy"
  have "cm_inv note_and_copy"
    unfolding note_and_copy_def
  proof (rule acquire_inv [OF note_inv(1)])
    have "getRegistration registered_note ''k2'' = None" by code_simp
    then show "getRegistration registered_note (idn_key (EntityKey ''k2''
        \<lparr>lnk_service = None, lnk_type = ''Note'', lnk_id = ''s1''\<rparr> None)) = None" by simp
  qed
  moreover have "getRegistration note_and_copy ''k1'' = Some ?reg" by code_simp
  moreover have "map_get (cm_uuidToIdentity note_and_copy) ''k2'' = Some (buildIdentityString toy_engine
      (EntityKey ''k1'' (\<lparr>lnk_service = None, lnk_type = ''Note'', lnk_id = ''c1''\<rparr>\<lparr>lnk_id := ''s1''\<rparr>) None))"
    by code_simp
  ultimately show ?thesis
    using resolve_overwrites_key [where s = note_and_copy and k = "''k1''" and reg = ?reg and ?k2.0 = "''k2''" and ke = toy_engine
        and link = "\<lparr>lnk_service = None, lnk_type = ''Note'', lnk_id = ''c1''\<rparr>" and parent = None and cid = "''cmd1''"
        and entry = ?e and idMap = "\<lambda>_. Some ''s1''" and sid = "''s1''"]
    by (auto simp: note_identity_def)
qed

end
