(* ===== verification/CacheFlush.thy ===== *)
theory CacheFlush
  imports CacheRuns
begin

text \<open>
  The cache manager's storage as a refinement of its registry: which operations keep track of what is
  still to be written or deleted, and what a flush leaves in storage.
\<close>

section \<open>Storage follows the registry\<close>

text \<open>
  A registered key that is not dirty is stored as it is, and what is stored is registered or waits for
  its deletion.
\<close>

definition synced :: "keyEngine \<Rightarrow> 'c cacheManager \<Rightarrow> bool" where
  "synced ke s \<longleftrightarrow>
    (\<forall>k reg. getRegistration s k = Some reg \<and> k \<notin> set (cm_dirty s) \<longrightarrow>
      k \<notin> set (cm_deletedKeys s) \<and> getCacheKey (cm_storage s) k = Some (registrationToRecord ke s reg)) \<and>
    (\<forall>k. getRegistration s k = None \<and> k \<notin> set (cm_deletedKeys s) \<longrightarrow> getCacheKey (cm_storage s) k = None)"

text \<open>What an operation may change without losing track of a key.\<close>

definition tracks :: "'c cacheManager \<Rightarrow> 'c cacheManager \<Rightarrow> bool" where
  "tracks s s' \<longleftrightarrow>
    (\<forall>k reg. getRegistration s' k = Some reg \<and> k \<notin> set (cm_dirty s') \<longrightarrow>
      getRegistration s k = Some reg \<and> k \<notin> set (cm_dirty s) \<and> (k \<in> set (cm_deletedKeys s') \<longrightarrow> k \<in> set (cm_deletedKeys s)) \<and>
      getCacheKey (cm_storage s') k = getCacheKey (cm_storage s) k \<and> holders s' k = holders s k) \<and>
    (\<forall>k. getRegistration s' k = None \<and> k \<notin> set (cm_deletedKeys s') \<longrightarrow> getCacheKey (cm_storage s') k = None \<or>
      getRegistration s k = None \<and> k \<notin> set (cm_deletedKeys s) \<and> getCacheKey (cm_storage s') k = getCacheKey (cm_storage s) k)"

lemma tracks_refl [simp]: "tracks s s"
  by (simp add: tracks_def)

lemma tracks_trans: "tracks s s1 \<Longrightarrow> tracks s1 s2 \<Longrightarrow> tracks s s2"
  unfolding tracks_def by (rule conjI; metis)

lemma tracks_synced:
  assumes "synced ke s" "tracks s s'" "indexes_agree s'"
  shows "synced ke s'"
proof -
  have "getCacheKey (cm_storage s') k = Some (registrationToRecord ke s' reg) \<and> k \<notin> set (cm_deletedKeys s')"
    if "getRegistration s' k = Some reg" "k \<notin> set (cm_dirty s')" for k reg
  proof -
    have T: "getRegistration s k = Some reg" "k \<notin> set (cm_dirty s)" "k \<in> set (cm_deletedKeys s') \<longrightarrow> k \<in> set (cm_deletedKeys s)"
      "getCacheKey (cm_storage s') k = getCacheKey (cm_storage s) k" "holders s' k = holders s k"
      using assms(2) that unfolding tracks_def by blast+
    have "registrationToRecord ke s' reg = registrationToRecord ke s reg"
      using T(5) registered_key [OF assms(3) that(1)] by (simp add: registrationToRecord_def)
    with T assms(1) show ?thesis unfolding synced_def by metis
  qed
  moreover have "getCacheKey (cm_storage s') k = None" if "getRegistration s' k = None" "k \<notin> set (cm_deletedKeys s')" for k
    using assms(1,2) that unfolding synced_def tracks_def by metis
  ultimately show ?thesis unfolding synced_def by blast
qed

lemma frame_other [simp]:
  "cm_dirty (cm_emit e s) = cm_dirty s" "cm_deletedKeys (cm_emit e s) = cm_deletedKeys s" "cm_storage (cm_emit e s) = cm_storage s"
  "cm_dirty (scheduleDirtyFlush s) = cm_dirty s" "cm_deletedKeys (scheduleDirtyFlush s) = cm_deletedKeys s"
  "cm_storage (scheduleDirtyFlush s) = cm_storage s"
  "cm_dirty (mark_dirty k s) = set_add k (cm_dirty s)" "cm_deletedKeys (mark_dirty k s) = cm_deletedKeys s"
  "cm_storage (mark_dirty k s) = cm_storage s"
  "cm_dirty (modify_registration k f s) = cm_dirty s" "cm_deletedKeys (modify_registration k f s) = cm_deletedKeys s"
  "cm_storage (modify_registration k f s) = cm_storage s"
  by (simp_all add: cm_emit_def scheduleDirtyFlush_def mark_dirty_def modify_registration_def split: option.split)

lemma tracks_frame [simp]:
  "tracks s (cm_emit e s') = tracks s s'" "tracks s (scheduleDirtyFlush s') = tracks s s'"
  by (simp_all add: tracks_def)

lemma tracks_mark: "tracks s s' \<Longrightarrow> tracks s (mark_dirty k s')"
  unfolding tracks_def by auto

text \<open>A change of one key that marks it dirty.\<close>

lemma tracks_change:
  assumes "getRegistration s' = (getRegistration s)(k \<mapsto> reg) \<or> getRegistration s' = getRegistration s"
    and "\<And>k'. k' \<noteq> k \<Longrightarrow> holders s' k' = holders s k'"
    and "cm_dirty s' = set_add k (cm_dirty s)" "cm_deletedKeys s' = cm_deletedKeys s" "cm_storage s' = cm_storage s"
  shows "tracks s s'"
  using assms unfolding tracks_def by (auto split: if_splits)

lemma remove_other:
  "cm_deletedKeys (removeFromRegistry k s) = cm_deletedKeys s" "cm_storage (removeFromRegistry k s) = cm_storage s"
  "set (cm_dirty (removeFromRegistry k s)) \<supseteq> set (cm_dirty s) - {k}"
  by (auto simp: removeFromRegistry_def Let_def split: option.split)

lemma tracks_evict_now:
  assumes "indexes_agree s"
  shows "tracks s (evict_now r k i s)"
proof -
  have "k' \<notin> set (cm_dirty (removeFromRegistry k s)) \<Longrightarrow> k' \<noteq> k \<Longrightarrow> k' \<notin> set (cm_dirty s)" for k'
    using remove_other(3) [of s k] by auto
  then show ?thesis
    by (auto simp: tracks_def evict_now_def Let_def cm_inv_cong(2) [of "_\<lparr>cm_storage := _\<rparr>"] remove_get [OF assms] remove_other
        remove_holders cache_key_records.get_del split: if_splits)
qed

lemma tracks_auto_evict:
  assumes "indexes_agree s" "\<And>k'. k' \<noteq> k \<Longrightarrow> sets_get h k' = holders s k'"
  shows "tracks s (auto_evict k reg (s\<lparr>cm_holdsByKey := h\<rparr>))"
proof -
  let ?s = "s\<lparr>cm_holdsByKey := h\<rparr>"
  have "indexes_agree ?s" using assms(1) by (simp add: indexes_agree_def)
  note get = remove_get [OF this, unfolded holds_change_get]
  have "k' \<notin> set (cm_dirty (removeFromRegistry k ?s)) \<Longrightarrow> k' \<noteq> k \<Longrightarrow> k' \<notin> set (cm_dirty s)" for k'
    using remove_other(3) [of ?s k] by auto
  then show ?thesis
    using assms(2)
    by (auto simp: tracks_def auto_evict_def Let_def cm_inv_cong(2) [of "_\<lparr>cm_deletedKeys := _\<rparr>"] get
        remove_other remove_holders split: if_splits)
qed

lemma tracks_hold: "tracks s (holdForWindow k w s)"
  unfolding holdForWindow_def
  by (auto intro!: tracks_change [of _ _ k] simp: sets_add_def)

lemma tracks_hold_option: "tracks s s' \<Longrightarrow> tracks s (hold_option opts k s')"
  by (auto simp: hold_option_def split: option.split intro: tracks_trans [OF _ tracks_hold])

lemma tracks_drop_hold:
  assumes "cm_inv s"
  shows "tracks s (drop_hold k w s)"
proof -
  let ?s1 = "s\<lparr>cm_holdsByKey := map_delete k (cm_holdsByKey s)\<rparr>"
  have mark: "tracks s (mark_dirty k ?s1)" "tracks s (mark_dirty k (s\<lparr>cm_holdsByKey := map_set k ws (cm_holdsByKey s)\<rparr>))" for ws
    by (auto intro!: tracks_change [of _ _ k])
  have "tracks s (auto_evict (reg_key reg) reg ?s1)" if "getRegistration s k = Some reg" for reg
    using registered_key [OF cm_invD(1) [OF assms] that] tracks_auto_evict [OF cm_invD(1) [OF assms]] by simp
  with mark show ?thesis by (auto simp: drop_hold_def Let_def split: option.split)
qed

lemma tracks_release_one:
  assumes "cm_inv s"
  shows "tracks s (release_one k s)"
proof -
  let ?s1 = "s\<lparr>cm_holdsByKey := map_delete k (cm_holdsByKey s)\<rparr>"
  have "tracks s (mark_dirty k ?s1)" by (auto intro!: tracks_change [of _ _ k])
  moreover have "tracks s (mark_dirty k (auto_evict k reg ?s1))" for reg
    by (rule tracks_mark, rule tracks_auto_evict) (simp_all add: cm_invD(1) [OF assms])
  ultimately show ?thesis by (auto simp: release_one_def Let_def split: option.split)
qed

lemma tracks_fold:
  assumes "cm_inv s" "\<And>x s. cm_inv s \<Longrightarrow> cm_inv (f x s) \<and> tracks s (f x s)"
  shows "tracks s (fold f xs s)"
  using assms(1)
proof (induction xs arbitrary: s)
  case (Cons x xs)
  then show ?case using assms(2) [of s x] tracks_trans by fastforce
qed simp

lemma tracks_release:
  assumes "cm_inv s"
  shows "tracks s (releaseForWindow k w s)" "tracks s (releaseHolds ks s)" "tracks s (releaseAllForWindow w s)"
    "tracks s (unregisterWindow w s)"
proof -
  show "tracks s (releaseForWindow k w s)" by (simp add: releaseForWindow_def tracks_drop_hold [OF assms])
  show "tracks s (releaseHolds ks s)"
    unfolding releaseHolds_def tracks_frame
    by (rule tracks_fold) (use assms release_one_inv tracks_release_one in auto)
  have all: "tracks s (releaseAllForWindow w s)" if "cm_inv s" for s :: "'a cacheManager"
    unfolding releaseAllForWindow_def Let_def tracks_frame
    by (rule tracks_fold) (use that drop_hold_inv tracks_drop_hold in auto)
  then show "tracks s (releaseAllForWindow w s)" using assms .
  let ?s1 = "s\<lparr>cm_registeredWindows := set_remove w (cm_registeredWindows s)\<rparr>"
  have "cm_inv ?s1" by (subst cm_inv_cong(1) [where s = s]) (use assms in simp_all)
  moreover have "tracks s ?s1" by (simp add: tracks_def cm_inv_cong(2) [of ?s1 s])
  ultimately show "tracks s (unregisterWindow w s)" unfolding unregisterWindow_def using all tracks_trans by blast
qed

lemma tracks_eviction:
  assumes "cm_inv s"
  shows "tracks s (maybeEvict s)" "tracks s (snd (cm_evict k s))" "tracks s (snd (evictExpired now s))"
    "evictAll s = Some (n, s') \<Longrightarrow> tracks s s'"
proof -
  note ev = tracks_evict_now [OF cm_invD(1) [OF assms]]
  show "tracks s (maybeEvict s)" using maybeEvict_view [of s] ev by auto
  show "tracks s (snd (cm_evict k s))" using ev by (auto simp: cm_evict_def split: option.split)
  show "tracks s (snd (evictExpired now s))"
    unfolding evictExpired_def Let_def snd_conv
    by (rule tracks_fold) (use assms in \<open>auto intro!: cm_remove_inv tracks_evict_now cm_invD(1)\<close>)
  have "evictAll_from n s = Some (n', s') \<Longrightarrow> cm_inv s \<Longrightarrow> tracks s s'" for n n' and s s' :: "'a cacheManager"
  proof (induction "getCount s" arbitrary: n s rule: less_induct)
    case less
    show ?case
    proof (cases "find (is_evictable s) (map_values (cm_registry s))")
      case None
      then show ?thesis using less.prems by (simp add: evictAll_from.simps [of n s])
    next
      case (Some reg)
      note F = find_evictable [OF less.prems(2) Some]
      have free: "holders s (reg_key reg) = []" using F(2) by (simp add: is_evictable_def)
      let ?s = "evict_now ReasonExplicit (reg_key reg) (reg_identity reg) s"
      note E = evict_one [OF less.prems(2) F(1) free, of ReasonExplicit "reg_identity reg"]
      have "evictAll_from (Suc n) ?s = Some (n', s')"
        using less.prems(1) by (simp add: evictAll_from.simps [of n s] Some)
      moreover have "getCount ?s < getCount s" using E(2) by simp
      ultimately have "tracks ?s s'" using less.hyps [OF _ _ E(1)] by blast
      then show ?thesis using tracks_evict_now [OF cm_invD(1) [OF less.prems(2)]] tracks_trans by blast
    qed
  qed
  then show "evictAll s = Some (n, s') \<Longrightarrow> tracks s s'" using assms unfolding evictAll_def by blast
qed

lemma insert_fields:
  "cm_dirty (insert_registration ids reg s) = set_add (reg_key reg) (cm_dirty s)"
  "cm_deletedKeys (insert_registration ids reg s) = cm_deletedKeys s"
  "cm_storage (insert_registration ids reg s) = cm_storage s"
  "cm_holdsByKey (insert_registration ids reg s) = cm_holdsByKey s"
  by (simp_all add: insert_registration_def Let_def mark_dirty_def)

lemma tracks_insert:
  assumes "indexes_agree s" "map_get (cm_registry s) ids = None" "getRegistration s (reg_key reg) = None"
  shows "tracks s (insert_registration ids reg s)"
  using insert_agree(2) [OF assms] by (intro tracks_change [of _ _ "reg_key reg" reg]) (simp_all add: insert_fields)

lemma tracks_modify:
  assumes "indexes_agree s" "getRegistration s k = Some reg" "reg_key (f reg) = k"
  shows "tracks s (mark_dirty k (modify_registration k f s))"
  using modify_agree(2) [where f = f, OF assms] by (intro tracks_change [of _ _ k "f reg"]) simp_all

lemma tracks_access:
  assumes "cm_inv s" "map_get (cm_registry s) ids = Some reg"
  shows "tracks s (access_existing now ids reg opts s)"
proof -
  let ?f = "\<lambda>reg. reg\<lparr>reg_lastAccessedAt := now\<rparr>"
  note D = cm_invD [OF assms(1)]
  have reg: "getRegistration s (reg_key reg) = Some reg" using registered_iff [OF D(1)] assms(2) by blast
  have "access_existing now ids reg opts s = cm_emit (KeyAccessed (reg_identity reg))
      (hold_option opts (reg_key reg) (mark_dirty (reg_key reg) (modify_registration (reg_key reg) ?f s)))"
    unfolding access_existing_def Let_def by (simp only: access_modify [OF D(1) assms(2), of ?f])
  moreover have "tracks s (mark_dirty (reg_key reg) (modify_registration (reg_key reg) ?f s))"
    by (rule tracks_modify [OF D(1) reg]) simp
  ultimately show ?thesis using tracks_hold_option by simp
qed

lemma tracks_acquire:
  assumes "cm_inv s"
  shows "tracks s (snd (acquire_start ke now i opts s))"
    and "belongs (buildIdentityString ke i) i s \<Longrightarrow> tracks s (acquire_new ke now i opts s)"
proof -
  show "tracks s (snd (acquire_start ke now i opts s))"
    using tracks_access [OF assms] tracks_eviction(1) [OF assms]
    by (auto simp: acquire_start_def Let_def split: option.split)
  assume "belongs (buildIdentityString ke i) i s"
  then have "tracks s (insert_registration (buildIdentityString ke i) (new_registration now i [] opts s) s)"
    using insert_belonging(2) [OF assms, of "buildIdentityString ke i" "new_registration now i [] opts s"]
    by (intro tracks_change [of _ _ "idn_key i" "new_registration now i [] opts s"]) (simp_all add: insert_fields)
  then show "tracks s (acquire_new ke now i opts s)" using tracks_hold_option by (simp add: acquire_new_def Let_def)
qed

lemma tracks_pending [simp]: "tracks s (s'\<lparr>cm_pendingByCommand := m\<rparr>) = tracks s s'"
  by (simp add: tracks_def)

lemma tracks_register:
  assumes "cm_inv s" "getRegistration s newId = None"
    and "registerCacheKey ke now newId m template opts s = Inr (i, s')"
  shows "tracks s s'"
proof -
  obtain s1 where s1: "registerCacheKeySync ke now newId m template opts s = Inr (i, s1)"
    and s': "s' = scheduleDirtyFlush (hold_option opts (idn_key i) s1)"
    using assms(3) by (auto simp: registerCacheKey_def map_result_Inr)
  obtain resolved entries where scan: "scanTemplateForEntityRefs template = Inr (resolved, entries)"
    using s1 by (auto simp: registerCacheKeySync_def bind_result_Inr)
  let ?ids = "buildIdentityStringFromTemplate ke resolved"
  have "tracks s s1"
  proof (cases "map_get (cm_registry s) ?ids")
    case None
    then obtain u where settled: "resolve_settled m entries (templateToIdentity resolved newId) = Inr (i, u)"
      and s1': "s1 = cm_emit (KeyAdded i (reg_policy (new_registration now i u opts s)))
        (hold_option opts newId ((insert_registration ?ids (new_registration now i u opts s) s)
          \<lparr>cm_pendingByCommand := fold (\<lambda>e. sets_add (pim_commandId e) newId) u
            (cm_pendingByCommand (insert_registration ?ids (new_registration now i u opts s) s))\<rparr>))"
      using s1 by (auto simp: registerCacheKeySync_def scan map_result_Inr Let_def)
    have "idn_key i = newId" using resolve_settled_key [OF settled] by simp
    then have "tracks s (insert_registration ?ids (new_registration now i u opts s) s)"
      using assms(1,2) None by (intro tracks_insert) (simp_all add: cm_invD(1))
    then show ?thesis unfolding s1' tracks_frame by (intro tracks_hold_option) simp
  next
    case (Some reg)
    then show ?thesis using s1 tracks_access [OF assms(1) Some] by (auto simp: registerCacheKeySync_def scan Let_def)
  qed
  then show ?thesis unfolding s' tracks_frame by (rule tracks_hold_option)
qed

lemma tracks_resolve_key:
  assumes "cm_inv s" "resolve_key ke cid idMap resolver k s = Inr s'" "sole_owner k s'"
  shows "tracks s s'"
proof (rule resolve_key_cases [OF assms(2)])
  fix reg entry sid i
  assume reg: "getRegistration s k = Some reg" and s': "s' = reconcile_registration ke cid k reg entry sid i s"
    and "idn_key i = reg_key reg" "idn_parentKey i = idn_parentKey (reg_identity reg)"
  then have "getRegistration s' = (getRegistration s)(k \<mapsto>
      reg\<lparr>reg_identity := i, reg_pending := filter (\<lambda>e. pim_commandId e \<noteq> cid) (reg_pending reg)\<rparr>)"
    using reconcile_view(2) [OF assms(1) reg] assms(3) by simp
  moreover have "cm_holdsByKey s' = cm_holdsByKey s" "cm_dirty s' = set_add k (cm_dirty s)"
    "cm_deletedKeys s' = cm_deletedKeys s" "cm_storage s' = cm_storage s"
    by (simp_all add: s' reconcile_registration_def Let_def mark_dirty_def)
  ultimately show "tracks s s'" by (intro tracks_change [of _ _ k]) auto
qed simp

lemma tracks_resolve_keys:
  "cm_inv s \<Longrightarrow> resolves_apart ke cid idMap resolver ks s \<Longrightarrow> tracks s (snd (resolve_keys ke cid idMap resolver ks s))"
proof (induction ks arbitrary: s)
  case (Cons k ks)
  show ?case
  proof (cases "resolve_key ke cid idMap resolver k s")
    case (Inr s')
    with Cons.prems have apart: "sole_owner k s'" "resolves_apart ke cid idMap resolver ks s'" by simp_all
    have "tracks s' (snd (resolve_keys ke cid idMap resolver ks s'))"
      using Cons.IH [OF resolve_key_inv [OF Inr Cons.prems(1) apart(1)] apart(2)] .
    then show ?thesis using tracks_trans [OF tracks_resolve_key [OF Cons.prems(1) Inr apart(1)]] by (simp add: Inr)
  qed simp
qed simp

lemma tracks_resolve:
  assumes "cm_inv s" "resolve_apart ke cid idMap resolver s"
  shows "tracks s (snd (resolvePendingKeys ke cid idMap resolver s))"
  using assms tracks_resolve_keys by (auto simp: resolvePendingKeys_def Let_def)

lemma tracks_set_inherited:
  assumes "cm_inv s" "getRegistration s k = Some reg"
  shows "tracks s (set_inherited b k reg s)"
  using tracks_modify [where f = "\<lambda>reg. reg\<lparr>reg_inheritedFrozen := b\<rparr>", OF cm_invD(1) [OF assms(1)] assms(2)]
    registered_key [OF cm_invD(1) [OF assms(1)] assms(2)]
  by (simp add: set_inherited_def)

lemma tracks_propagate:
  assumes "propagate_to frozen work s = Some s'" "cm_inv s"
  shows "tracks s s'"
  using assms
proof (induction rule: propagate_to.raw_induct [rotated, consumes 1])
  case 1
  then show ?case
    by (auto split: list.splits option.splits if_splits) (metis set_inherited_inv(1) tracks_set_inherited tracks_trans)
qed

lemma tracks_reevaluate:
  assumes "reevaluate_from work s = Some s'" "cm_inv s"
  shows "tracks s s'"
  using assms
proof (induction rule: reevaluate_from.raw_induct [rotated, consumes 1])
  case 1
  then show ?case
    by (auto simp: bind_eq_Some_conv split: list.splits option.splits if_splits)
      (metis set_inherited_inv(1) tracks_set_inherited tracks_trans)
qed

text \<open>The state in which a freeze or an unfreeze starts on the descendants.\<close>

definition freeze_start :: "bool \<Rightarrow> int option \<Rightarrow> string \<Rightarrow> 'c cacheManager \<Rightarrow> 'c cacheManager" where
  "freeze_start b at k s =
    mark_dirty k (modify_registration k (\<lambda>reg. reg\<lparr>reg_frozen := b, reg_frozenAt := at\<rparr>) s)"

lemma freeze_start_view:
  assumes "cm_inv s" "getRegistration s k = Some reg" "reg_policy reg \<noteq> Ephemeral"
  shows "cm_inv (freeze_start b at k s)" "tracks s (freeze_start b at k s)"
    and "getRegistration (freeze_start b at k s) = (getRegistration s)(k \<mapsto> reg\<lparr>reg_frozen := b, reg_frozenAt := at\<rparr>)"
    and "cm_childrenByParent (freeze_start b at k s) = cm_childrenByParent s"
    and "cm_holdsByKey (freeze_start b at k s) = cm_holdsByKey s"
proof -
  let ?f = "\<lambda>reg. reg\<lparr>reg_frozen := b, reg_frozenAt := at\<rparr>"
  have k: "reg_key (?f reg) = k" using registered_key [OF cm_invD(1) [OF assms(1)] assms(2)] by simp
  show "cm_inv (freeze_start b at k s)"
    unfolding freeze_start_def frame_inv using modify_inv [OF assms(1,2), of ?f] assms(3) by simp
  show "tracks s (freeze_start b at k s)"
    unfolding freeze_start_def by (rule tracks_modify [where f = ?f, OF cm_invD(1) [OF assms(1)] assms(2) k])
  show "getRegistration (freeze_start b at k s) = (getRegistration s)(k \<mapsto> ?f reg)"
    unfolding freeze_start_def frame_inv by (rule modify_agree(2) [where f = ?f, OF cm_invD(1) [OF assms(1)] assms(2) k])
qed (simp_all add: freeze_start_def)

lemma tracks_freeze:
  assumes "cm_inv s" "cm_freeze now k s = Some s'"
  shows "tracks s s'"
proof (cases "getRegistration s k")
  case (Some reg)
  show ?thesis
  proof (cases "reg_policy reg = Ephemeral \<or> reg_frozen reg")
    case False
    then have "reg_policy reg \<noteq> Ephemeral" by simp
    note F = freeze_start_view [OF assms(1) Some this, of True "Some now"]
    obtain s1 where "propagateInheritedFrozen k True (freeze_start True (Some now) k s) = Some s1" "tracks s s' = tracks s s1"
      using assms(2) False by (auto simp: cm_freeze_def Some freeze_start_def)
    then show ?thesis
      using tracks_propagate [OF _ F(1)] tracks_trans [OF F(2)] unfolding propagateInheritedFrozen_def by blast
  qed (use assms in \<open>auto simp: cm_freeze_def Some\<close>)
qed (use assms in \<open>simp add: cm_freeze_def\<close>)

lemma tracks_unfreeze:
  assumes "cm_inv s" "cm_unfreeze k s = Some s'"
  shows "tracks s s'"
proof (cases "getRegistration s k")
  case (Some reg)
  show ?thesis
  proof (cases "reg_frozen reg")
    case True
    then have "reg_policy reg \<noteq> Ephemeral" using cm_invD(4) [OF assms(1)] Some by (auto simp: ephemeral_thawed_def)
    note F = freeze_start_view [OF assms(1) Some this, of False None]
    obtain s1 where "reevaluateInheritedFrozen k (freeze_start False None k s) = Some s1" "tracks s s' = tracks s s1"
      using assms(2) True by (auto simp: cm_unfreeze_def Some freeze_start_def)
    then show ?thesis
      using tracks_reevaluate [OF _ F(1)] tracks_trans [OF F(2)] unfolding reevaluateInheritedFrozen_def by blast
  qed (use assms in \<open>auto simp: cm_unfreeze_def Some\<close>)
qed (use assms in \<open>simp add: cm_unfreeze_def\<close>)

section \<open>The flush\<close>

lemma get_saved_keys:
  "getCacheKey (saveCacheKeys rs st) k =
    (case find (\<lambda>r. ck_key r = k) (rev rs) of Some r \<Rightarrow> Some r | None \<Rightarrow> getCacheKey st k)"
  unfolding saveCacheKeys_fold
proof (induction rs rule: rev_induct)
  case (snoc r rs)
  then show ?case by (auto simp: cache_key_records.get_put)
qed simp

lemma get_deleted_keys: "getCacheKey (deleteCacheKeys ks st) k = (if k \<in> set ks then None else getCacheKey st k)"
  unfolding deleteCacheKeys_def
  by (induction ks arbitrary: st) (auto simp: cache_key_records.get_del)

lemma record_key: "ck_key (registrationToRecord ke s reg) = reg_key reg"
  by (cases "reg_identity reg") (simp_all add: registrationToRecord_def identityToRecord_def)

lemma cm_get_key: "indexes_agree s \<Longrightarrow> cm_get ke s k = Some r \<Longrightarrow> ck_key r = k"
  using registered_key [of s k] by (auto simp: cm_get_def record_key)

lemma dirty_records:
  assumes "indexes_agree s"
  shows "find (\<lambda>r. ck_key r = k) (rev (List.map_filter (cm_get ke s) ks)) = (if k \<in> set ks then cm_get ke s k else None)"
proof -
  have mem: "r \<in> set (List.map_filter (cm_get ke s) ks) \<Longrightarrow> cm_get ke s (ck_key r) = Some r \<and> ck_key r \<in> set ks" for r
    using cm_get_key [OF assms] by (fastforce simp: List.map_filter_def)
  show ?thesis
  proof (cases "find (\<lambda>r. ck_key r = k) (rev (List.map_filter (cm_get ke s) ks))")
    case None
    have "cm_get ke s k = None" if "k \<in> set ks"
    proof (rule ccontr)
      assume "cm_get ke s k \<noteq> None"
      then obtain r where "cm_get ke s k = Some r" by auto
      moreover have "r \<in> set (List.map_filter (cm_get ke s) ks)"
        using that calculation by (force simp: List.map_filter_def)
      ultimately show False using None cm_get_key [OF assms] by (auto simp: find_None_iff)
    qed
    then show ?thesis using None by simp
  next
    case (Some r)
    then show ?thesis using mem [of r] find_SomeD [OF Some] by auto
  qed
qed

lemma flush_deletions_get [simp]: "getRegistration (flush_deletions s) = getRegistration s"
  by (simp add: flush_deletions_def getRegistration_def fun_eq_iff)

lemma flush_deletions_synced:
  assumes "synced ke s"
  shows "synced ke (flush_deletions s)"
proof -
  have "registrationToRecord ke (flush_deletions s) reg = registrationToRecord ke s reg" for reg
    by (simp add: registrationToRecord_def flush_deletions_def)
  then show ?thesis
    using assms unfolding synced_def flush_deletions_get
    by (auto simp: flush_deletions_def get_deleted_keys)
qed

lemma flush_dirty_spec:
  assumes "indexes_agree s" "synced ke s" "cm_deletedKeys s = []"
  shows "getCacheKey (cm_storage (flush_dirty ke s)) k = cm_get ke s k"
proof -
  have "k \<notin> set (cm_dirty s) \<Longrightarrow> getCacheKey (cm_storage s) k = cm_get ke s k"
    using assms(2,3) unfolding synced_def cm_get_def by (cases "getRegistration s k") auto
  moreover have "getRegistration s k = None \<Longrightarrow> getCacheKey (cm_storage s) k = None"
    using assms(2,3) unfolding synced_def by simp
  ultimately show ?thesis
    by (auto simp: flush_dirty_def get_saved_keys dirty_records [OF assms(1)] cm_get_def split: option.split)
qed

lemma cm_get_cong:
  assumes "getRegistration s' = getRegistration s" "cm_holdsByKey s' = cm_holdsByKey s"
  shows "cm_get ke s' = cm_get ke s"
proof -
  have "registrationToRecord ke s' = registrationToRecord ke s" by (rule ext) (simp add: registrationToRecord_def assms)
  then show ?thesis by (intro ext) (simp only: cm_get_def assms(1))
qed

lemma flush_dirty_view [simp]: "getRegistration (flush_dirty ke s) = getRegistration s"
  by (simp add: flush_dirty_def getRegistration_def fun_eq_iff)

lemma flush_get [simp]: "cm_get ke (flush_dirty ke' s) = cm_get ke s" "cm_get ke (flush_deletions s) = cm_get ke s"
  by (rule cm_get_cong; simp add: flush_dirty_def flush_deletions_def getRegistration_def fun_eq_iff)+

lemma flush_fields [simp]:
  "cm_dirty (flush_dirty ke s) = []" "cm_deletedKeys (flush_dirty ke s) = cm_deletedKeys s"
  "cm_deletedKeys (flush_deletions s) = []" "cm_uuidToIdentity (flush_deletions s) = cm_uuidToIdentity s"
  by (simp_all add: flush_dirty_def flush_deletions_def)

lemma flush_spec:
  assumes "cm_inv s" "synced ke s"
  shows "getCacheKey (cm_storage (onFlushCacheKeys ke s)) k = cm_get ke (onFlushCacheKeys ke s) k"
    and "synced ke (onFlushCacheKeys ke s)" and "cm_inv (onFlushCacheKeys ke s)"
proof -
  have inv: "cm_inv (flush_deletions s)" using assms(1) by simp
  note F = flush_dirty_spec [OF cm_invD(1) [OF inv] flush_deletions_synced [OF assms(2)]]
  show all: "getCacheKey (cm_storage (onFlushCacheKeys ke s)) k = cm_get ke (onFlushCacheKeys ke s) k" for k
    by (simp add: onFlushCacheKeys_def F)
  have "cm_deletedKeys (onFlushCacheKeys ke s) = []" by (simp add: onFlushCacheKeys_def)
  then show "synced ke (onFlushCacheKeys ke s)"
    unfolding synced_def all cm_get_def by simp
  show "cm_inv (onFlushCacheKeys ke s)" using inv by (simp add: onFlushCacheKeys_def)
qed

lemma cm_step_tracks: "cm_step True ke s s' \<Longrightarrow> cm_inv s \<Longrightarrow> tracks s s'"
proof (induction rule: cm_step.induct)
  case (register s newId now m template opts i s')
  then show ?case using tracks_register by blast
next
  case (evict_pass s r k i)
  then show ?case by (intro tracks_evict_now cm_invD(1))
next
  case (register_window s w)
  then show ?case by (auto simp: registerWindow_def tracks_def cm_inv_cong(2) [of "s\<lparr>cm_registeredWindows := _\<rparr>" s])
next
  case (write_queue s)
  then show ?case by (simp add: setWriteQueue_def tracks_def cm_inv_cong(2) [of "s\<lparr>cm_writeQueue := _\<rparr>" s])
next
  case (flush_dropped s)
  have "getRegistration (flush_evicted s) = getRegistration s" by (rule cm_inv_cong) (simp_all add: flush_evicted_def)
  then show ?case by (simp add: tracks_def flush_evicted_def)
qed (auto intro: tracks_acquire tracks_resolve tracks_hold tracks_release tracks_freeze tracks_unfreeze
  tracks_eviction)

text \<open>
  C25: Storage refines the registry. In a session that starts with storage and registry in step, after any
  operations and flushes of the cache manager that keep UUIDs and identity strings apart a flush makes the stored cache keys exactly the registered
  ones: each UUID is stored exactly when it is registered, and its record is that of the registration,
  with its current holds, freezing and pending ids.
\<close>
theorem flush_refines_registry:
  assumes "(\<lambda>s s'. cm_step True ke s s' \<or> s' = onFlushCacheKeys ke s)\<^sup>*\<^sup>* s0 s" "cm_inv s0" "synced ke s0"
  shows "getCacheKey (cm_storage (onFlushCacheKeys ke s)) = cm_get ke (onFlushCacheKeys ke s)
    \<and> cm_get ke (onFlushCacheKeys ke s) = cm_get ke s"
proof -
  have "cm_inv s \<and> synced ke s"
    using assms(1)
  proof (induction rule: rtranclp_induct)
    case (step s1 s2)
    then show ?case
      using cm_step_inv [of ke s1 s2] cm_step_tracks [of ke s1 s2] tracks_synced [of ke s1 s2] cm_invD(1) [of s2]
        flush_spec(2,3) [of s1 ke] by auto
  qed (use assms in simp)
  moreover have "cm_get ke (onFlushCacheKeys ke s) = cm_get ke s" by (simp add: onFlushCacheKeys_def)
  ultimately show ?thesis using flush_spec(1) [of s ke] by (simp add: fun_eq_iff)
qed

theorem flush_refines_registry_witness:
  "getCacheKey (cm_storage (onFlushCacheKeys toy_engine (scheduleDirtyFlush registered_note))) ''k1'' =
    cm_get toy_engine (scheduleDirtyFlush registered_note) ''k1''"
proof -
  let ?new = "new_cacheManager None None None new_storage :: nat cacheManager"
  have "synced toy_engine ?new"
    by (simp add: synced_def new_cacheManager_def getRegistration_def getCacheKey_def new_storage_def)
  moreover have "cm_step True toy_engine ?new (scheduleDirtyFlush registered_note)"
    by (rule cm_step.register [OF _ note_registered]) (simp add: getRegistration_def new_cacheManager_def)
  ultimately show ?thesis
    using flush_refines_registry [where s = "scheduleDirtyFlush registered_note" and ke = toy_engine and ?s0.0 = ?new]
    by (simp add: r_into_rtranclp)
qed

text \<open>
  An ephemeral key whose last hold is released just before the session ends keeps its data. Its
  deletion is deferred to the next flush; ending the session forgets the deferred deletions and deletes
  only the registered keys, so its record and what is cached under it stay in storage.
\<close>
theorem session_end_keeps_released_data:
  assumes "k \<in> set (cm_deletedKeys s)" "getRegistration s k = None" "indexes_agree s"
  shows "getCacheKey (cm_storage (cm_onSessionDestroyed s)) k = getCacheKey (cm_storage s) k
    \<and> cm_deletedKeys (cm_onSessionDestroyed s) = []
    \<and> getCacheKey (cm_storage (onFlushCacheKeys ke (cm_onSessionDestroyed s))) k = getCacheKey (cm_storage s) k"
proof -
  have "reg_key reg \<noteq> k" if "reg \<in> set (map_values (cm_registry s))" for reg
    using assms(2) registered_entry [OF assms(3), of k reg] that by auto
  then have "k \<notin> set (map idn_key (iterateIdentities s))"
    unfolding iterateIdentities_def map_map set_map comp_def by blast
  then have "getCacheKey (cm_storage (cm_onSessionDestroyed s)) k = getCacheKey (cm_storage s) k"
    by (simp add: cm_onSessionDestroyed_def Let_def get_deleted_keys clear_registry_def)
  then show ?thesis
    by (simp add: cm_onSessionDestroyed_def Let_def clear_registry_def onFlushCacheKeys_def flush_dirty_def
        flush_deletions_def List.map_filter_def saveCacheKeys_def deleteCacheKeys_def)
qed

definition draft_options :: keyOptions where
  "draft_options = \<lparr>opt_hold = True, opt_windowId = Some ''w1'', opt_ttl = None, opt_evictionPolicy = Some Ephemeral\<rparr>"

definition held_draft :: "nat cacheManager" where
  "held_draft = snd (acquireKey toy_engine 5 (note_identity ''n1'') draft_options (new_cacheManager None None None new_storage))"

definition released_draft :: "nat cacheManager" where
  "released_draft = releaseForWindow ''k1'' ''w1'' (onFlushCacheKeys toy_engine held_draft)"

theorem session_end_keeps_released_data_witness:
  "getCacheKey (cm_storage (cm_onSessionDestroyed released_draft)) ''k1'' \<noteq> None"
proof -
  have "cm_inv held_draft"
    unfolding held_draft_def by (rule acquire_inv, rule cm_inv_new) (simp add: getRegistration_def new_cacheManager_def)
  then have "cm_inv released_draft" by (simp add: released_draft_def release_inv onFlushCacheKeys_def)
  moreover have "''k1'' \<in> set (cm_deletedKeys released_draft)" by code_simp
  moreover have "getRegistration released_draft ''k1'' = None" by code_simp
  moreover have "getCacheKey (cm_storage released_draft) ''k1'' \<noteq> None" by code_simp
  ultimately show ?thesis
    using session_end_keeps_released_data [of "''k1''" released_draft toy_engine] cm_invD(1) [of released_draft] by metis
qed

end
