(* ===== verification/CacheLimits.thy ===== *)
theory CacheLimits
  imports CacheFlush
begin

text \<open>
  The limit on the number of cache keys and windows: whom it evicts, where it holds and where it does
  not.
\<close>

section \<open>The victim of an eviction\<close>

lemma fold_older_of:
  "fold older_of xs (Some b) = Some r \<Longrightarrow> r \<in> insert b (set xs) \<and>
    (\<forall>x \<in> insert b (set xs). reg_lastAccessedAt r \<le> reg_lastAccessedAt x)"
proof (induction xs arbitrary: b)
  case (Cons x xs)
  let ?b = "if reg_lastAccessedAt x < reg_lastAccessedAt b then x else b"
  have "fold older_of xs (Some ?b) = Some r" using Cons.prems older_of_def [of x "Some b"] by (simp split: if_splits)
  from Cons.IH [OF this] show ?case by (auto split: if_splits)
qed simp

lemma fold_older_of_Some: "\<exists>r. fold older_of xs (Some b) = Some r"
  by (induction xs arbitrary: b) (simp_all add: older_of_def)

lemma oldest_spec:
  "fold older_of xs None = Some r \<Longrightarrow> r \<in> set xs \<and> (\<forall>x \<in> set xs. reg_lastAccessedAt r \<le> reg_lastAccessedAt x)"
  by (cases xs) (auto simp: older_of_def dest: fold_older_of)

lemma oldest_None: "fold older_of xs None = None \<longleftrightarrow> xs = []"
  using fold_older_of_Some by (cases xs) (auto simp: older_of_def)

lemma victim_fold:
  "fold (\<lambda>reg (e, p). if \<not> is_evictable s reg then (e, p)
      else if reg_policy reg = Ephemeral then (older_of reg e, p) else (e, older_of reg p)) regs (e, p) =
    (fold older_of (filter (\<lambda>r. is_evictable s r \<and> reg_policy r = Ephemeral) regs) e,
     fold older_of (filter (\<lambda>r. is_evictable s r \<and> reg_policy r \<noteq> Ephemeral) regs) p)"
  by (induction regs arbitrary: e p) auto

lemma eviction_victim_eq:
  "eviction_victim s =
    (case fold older_of (filter (\<lambda>r. is_evictable s r \<and> reg_policy r = Ephemeral) (map_values (cm_registry s))) None of
       Some reg \<Rightarrow> Some reg
     | None \<Rightarrow> fold older_of (filter (\<lambda>r. is_evictable s r \<and> reg_policy r \<noteq> Ephemeral) (map_values (cm_registry s))) None)"
  by (simp add: eviction_victim_def victim_fold)

lemma victim_None: "eviction_victim s = None \<longleftrightarrow> (\<forall>reg \<in> set (map_values (cm_registry s)). \<not> is_evictable s reg)"
proof (cases "fold older_of (filter (\<lambda>r. is_evictable s r \<and> reg_policy r = Ephemeral) (map_values (cm_registry s))) None")
  case None
  then show ?thesis by (auto simp: eviction_victim_eq oldest_None filter_empty_conv)
next
  case (Some v)
  then show ?thesis using oldest_spec [OF Some] by (auto simp: eviction_victim_eq)
qed

lemma victim_least:
  assumes "eviction_victim s = Some v"
  defines "regs \<equiv> map_values (cm_registry s)"
  shows "v \<in> set regs \<and> is_evictable s v \<and> (\<forall>r \<in> set regs. is_evictable s r \<longrightarrow>
      (reg_policy v, reg_lastAccessedAt v) \<le> (reg_policy r, reg_lastAccessedAt r))"
proof (cases "fold older_of (filter (\<lambda>r. is_evictable s r \<and> reg_policy r = Ephemeral) regs) None")
  case None
  have "v \<in> set (filter (\<lambda>r. is_evictable s r \<and> reg_policy r \<noteq> Ephemeral) regs) \<and>
      (\<forall>x \<in> set (filter (\<lambda>r. is_evictable s r \<and> reg_policy r \<noteq> Ephemeral) regs).
        reg_lastAccessedAt v \<le> reg_lastAccessedAt x)"
    by (rule oldest_spec) (use assms(1) None in \<open>simp add: eviction_victim_eq regs_def\<close>)
  moreover have "\<forall>r \<in> set regs. is_evictable s r \<longrightarrow> reg_policy r \<noteq> Ephemeral"
    using None unfolding oldest_None filter_empty_conv by blast
  moreover have "p \<noteq> Ephemeral \<longleftrightarrow> p = Persistent" for p by (cases p) auto
  ultimately show ?thesis by (auto simp: less_eq_prod_def)
next
  case (Some w)
  have "w = v" using assms(1) by (simp add: eviction_victim_eq Some [unfolded regs_def])
  with oldest_spec [OF Some] have "v \<in> set regs \<and> is_evictable s v \<and> reg_policy v = Ephemeral"
    "\<And>r. r \<in> set regs \<Longrightarrow> is_evictable s r \<Longrightarrow> reg_policy r = Ephemeral \<Longrightarrow> reg_lastAccessedAt v \<le> reg_lastAccessedAt r"
    by auto
  moreover have "Ephemeral < p \<longleftrightarrow> p \<noteq> Ephemeral" for p by (cases p) (auto simp: less_evictionPolicy_def)
  ultimately show ?thesis by (auto simp: less_eq_prod_def)
qed

text \<open>
  Whom the limit evicts. When the registry is full, a new key evicts at most one key: none exactly
  when every key has children, is held or is frozen; otherwise an evictable one, which is ephemeral if any
  evictable key is, and least recently accessed among the evictable keys of its policy. All other
  registrations stay as they are.
\<close>
theorem eviction_victim_spec:
  assumes "cm_inv s" "cm_maxCacheKeys s \<le> int (getCount s)"
  shows "(eviction_victim s = None \<and> maybeEvict s = s \<and> (\<forall>k reg. getRegistration s k = Some reg \<longrightarrow> \<not> is_evictable s reg))
    \<or> (\<exists>v. eviction_victim s = Some v \<and> getRegistration s (reg_key v) = Some v \<and> is_evictable s v
        \<and> (\<forall>k reg. getRegistration s k = Some reg \<and> is_evictable s reg \<longrightarrow>
            (reg_policy v, reg_lastAccessedAt v) \<le> (reg_policy reg, reg_lastAccessedAt reg))
        \<and> getRegistration (maybeEvict s) = (getRegistration s)(reg_key v := None)
        \<and> getCacheKey (cm_storage (maybeEvict s)) (reg_key v) = None)"
proof (cases "eviction_victim s")
  case None
  then show ?thesis
    using registered_entry [OF cm_invD(1) [OF assms(1)]] victim_None [of s] by (auto simp: maybeEvict_def split: if_splits)
next
  case (Some v)
  note D = cm_invD [OF assms(1)]
  note v = victim_least [OF Some]
  have "maybeEvict s = evict_now ReasonLru (reg_key v) (reg_identity v) s"
    using assms(2) by (simp add: maybeEvict_def Some getCount_def)
  moreover have "getCacheKey (cm_storage (evict_now r k i s)) k = None" for r k i
    by (simp add: evict_now_def Let_def cache_key_records.get_del)
  ultimately show ?thesis
    using v registered_entry [OF D(1)] Some by (auto simp: remove_get [OF D(1)])
qed

definition full_registry :: "nat cacheManager" where
  "full_registry = scheduleDirtyFlush (reconciled_note\<lparr>cm_maxCacheKeys := 1\<rparr>)"

lemma full_registry_inv: "cm_inv full_registry"
  unfolding full_registry_def frame_inv by (subst cm_inv_cong(1) [where s = reconciled_note]) (simp_all add: note_inv)

theorem eviction_victim_spec_witness:
  "getRegistration (maybeEvict full_registry) ''k1'' = None"
proof -
  have "cm_maxCacheKeys full_registry \<le> int (getCount full_registry)" by code_simp
  moreover have "map_option reg_key (eviction_victim full_registry) = Some ''k1''" by code_simp
  ultimately show ?thesis using eviction_victim_spec [OF full_registry_inv] by auto
qed

section \<open>Acquisitions that overlap\<close>




lemma max_keys_constant [simp]:
  "cm_maxCacheKeys (acquire_new ke now i opts s) = cm_maxCacheKeys s"
  "cm_maxCacheKeys (snd (acquire_start ke now i opts s)) = cm_maxCacheKeys s"
proof -
  have frame: "cm_maxCacheKeys (cm_emit e s) = cm_maxCacheKeys s" "cm_maxCacheKeys (mark_dirty k s) = cm_maxCacheKeys s"
    "cm_maxCacheKeys (scheduleDirtyFlush s) = cm_maxCacheKeys s" for e k and s :: "'a cacheManager"
    by (simp_all add: cm_emit_def mark_dirty_def scheduleDirtyFlush_def)
  have hold: "cm_maxCacheKeys (hold_option opts k s) = cm_maxCacheKeys s" for k and s :: "'a cacheManager"
    by (simp add: hold_option_def holdForWindow_def frame split: option.split)
  show "cm_maxCacheKeys (acquire_new ke now i opts s) = cm_maxCacheKeys s"
    by (simp add: acquire_new_def Let_def insert_registration_def frame hold)
  have "cm_maxCacheKeys (evict_now r k j s) = cm_maxCacheKeys s" for r k j
    by (simp add: evict_now_def Let_def frame removeFromRegistry_def split: option.split)
  then have "cm_maxCacheKeys (maybeEvict s) = cm_maxCacheKeys s" using maybeEvict_view [of s] by auto
  then show "cm_maxCacheKeys (snd (acquire_start ke now i opts s)) = cm_maxCacheKeys s"
    by (simp add: acquire_start_def access_existing_def Let_def frame hold split: option.split)
qed








text \<open>
  Registering keys ignores the limit. \<open>registerCacheKey\<close>, the primary way to create keys, evicts
  nothing: a template whose identity is not registered adds a registration however many there are.
\<close>
theorem register_ignores_limit:
  assumes "cm_inv s" "getRegistration s newId = None"
    and "registerCacheKey ke now newId m template opts s = Inr (i, s')"
    and "scanTemplateForEntityRefs template = Inr (resolved, entries)"
    and "map_get (cm_registry s) (buildIdentityStringFromTemplate ke resolved) = None"
  shows "getCount s' = Suc (getCount s) \<and> getRegistration s' newId \<noteq> None
    \<and> (\<forall>k. k \<noteq> newId \<longrightarrow> getRegistration s' k = getRegistration s k)"
proof -
  let ?ids = "buildIdentityStringFromTemplate ke resolved"
  obtain u where settled: "resolve_settled m entries (templateToIdentity resolved newId) = Inr (i, u)"
    and s': "s' = scheduleDirtyFlush (hold_option opts (idn_key i) (cm_emit (KeyAdded i (reg_policy (new_registration now i u opts s)))
        (hold_option opts newId ((insert_registration ?ids (new_registration now i u opts s) s)
          \<lparr>cm_pendingByCommand := fold (\<lambda>e. sets_add (pim_commandId e) newId) u
            (cm_pendingByCommand (insert_registration ?ids (new_registration now i u opts s) s))\<rparr>))))"
    using assms(3,5) by (auto simp: registerCacheKey_def registerCacheKeySync_def assms(4) map_result_Inr Let_def)
  have key: "idn_key i = newId" using resolve_settled_key [OF settled] by simp
  have "getRegistration s' = (getRegistration s)(newId \<mapsto> new_registration now i u opts s)"
    using insert_agree(2) [OF cm_invD(1) [OF assms(1)] assms(5), of "new_registration now i u opts s"] assms(2) key
    by (simp add: s')
  moreover have "getCount s' = Suc (getCount s)"
    using assms(5) by (simp add: s' getCount_def insert_registration_def Let_def length_map_set map_has_def)
  ultimately show ?thesis by simp
qed

theorem register_ignores_limit_witness:
  "getCount (scheduleDirtyFlush registered_note) = Suc (getCount (new_cacheManager None None None new_storage :: nat cacheManager))"
proof -
  have "scanTemplateForEntityRefs note_template = Inr (EntityTemplate \<lparr>lnk_service = None, lnk_type = ''Note'', lnk_id = ''c1''\<rparr> None,
      [\<lparr>pim_commandId = ''cmd1'', pim_clientId = ''c1'', pim_paramKey = None\<rparr>])"
    by code_simp
  from register_ignores_limit [OF cm_inv_new _ note_registered this] show ?thesis
    by (simp add: getRegistration_def new_cacheManager_def)
qed

end
