(* ===== verification/CacheFreeze.thy ===== *)
theory CacheFreeze
  imports CacheLimits
begin

text \<open>
  Freezing along the hierarchy of cache keys: the two recursions end when no key is its own ancestor, and
  what they leave is the inherited state that the ancestors prescribe.
\<close>

section \<open>The hierarchy\<close>

definition parent_rel :: "'c cacheManager \<Rightarrow> (string \<times> string) set" where
  "parent_rel s = {(k, p). \<exists>reg. getRegistration s k = Some reg \<and> reg_parent reg = Some p}"

text \<open>A registered key that freezing reaches, and those below it that it reaches from there.\<close>

definition freezable :: "'c cacheManager \<Rightarrow> string \<Rightarrow> bool" where
  "freezable s k \<longleftrightarrow> (\<exists>reg. getRegistration s k = Some reg \<and> reg_policy reg \<noteq> Ephemeral)"

inductive reaches :: "'c cacheManager \<Rightarrow> string \<Rightarrow> string \<Rightarrow> bool" for s where
  here: "freezable s k \<Longrightarrow> reaches s k k"
| below: "freezable s k \<Longrightarrow> c \<in> set (children_of s k) \<Longrightarrow> reaches s c d \<Longrightarrow> reaches s k d"

inductive_simps reaches_iff: "reaches s k d"

definition inherits_freeze :: "'c cacheManager \<Rightarrow> string \<Rightarrow> bool" where
  "inherits_freeze s k \<longleftrightarrow> (\<exists>p reg. (k, p) \<in> (parent_rel s)\<^sup>+ \<and> getRegistration s p = Some reg \<and> reg_frozen reg)"

lemma finite_registered: "finite {k. getRegistration s k \<noteq> None}"
proof (rule finite_subset)
  show "{k. getRegistration s k \<noteq> None} \<subseteq> fst ` set (cm_uuidToIdentity s)"
    by (force simp: getRegistration_def bind_eq_Some_conv dest: map_of_SomeD)
qed simp

lemma wf_parent:
  assumes "acyclic (parent_rel s)"
  shows "wf (parent_rel s)" and "wf ((parent_rel s)\<inverse>)"
proof -
  have "parent_rel s \<subseteq> {k. getRegistration s k \<noteq> None} \<times> ((\<lambda>k. the (reg_parent (the (getRegistration s k)))) ` {k. getRegistration s k \<noteq> None})"
    by (force simp: parent_rel_def)
  then have "finite (parent_rel s)" using finite_registered finite_subset by blast
  then show "wf (parent_rel s)" "wf ((parent_rel s)\<inverse>)"
    using assms by (simp_all add: finite_acyclic_wf finite_acyclic_wf_converse)
qed

lemma child_parent: "cm_inv s \<Longrightarrow> c \<in> set (children_of s k) \<Longrightarrow> (c, k) \<in> parent_rel s"
  using cm_invD(2) [of s] unfolding children_agree_def parent_rel_def by blast

text \<open>What the recursions leave alone: the hierarchy, the policies, who is frozen.\<close>

definition same_tree :: "'c cacheManager \<Rightarrow> 'c cacheManager \<Rightarrow> bool" where
  "same_tree s' s \<longleftrightarrow> cm_childrenByParent s' = cm_childrenByParent s \<and>
    (\<forall>k. map_option (\<lambda>r. r\<lparr>reg_inheritedFrozen := False\<rparr>) (getRegistration s' k) =
         map_option (\<lambda>r. r\<lparr>reg_inheritedFrozen := False\<rparr>) (getRegistration s k))"

lemma same_treeD:
  assumes "same_tree s' s"
  shows "getRegistration s' k = Some reg' \<Longrightarrow> \<exists>reg. getRegistration s k = Some reg \<and> reg_identity reg = reg_identity reg'
      \<and> reg_policy reg = reg_policy reg' \<and> reg_frozen reg = reg_frozen reg'"
    and "getRegistration s k = Some reg \<Longrightarrow> \<exists>reg'. getRegistration s' k = Some reg' \<and> reg_identity reg = reg_identity reg'
      \<and> reg_policy reg = reg_policy reg' \<and> reg_frozen reg = reg_frozen reg'"
proof -
  have eq: "map_option (\<lambda>r. r\<lparr>reg_inheritedFrozen := False\<rparr>) (getRegistration s' k) =
      map_option (\<lambda>r. r\<lparr>reg_inheritedFrozen := False\<rparr>) (getRegistration s k)"
    using assms by (simp add: same_tree_def)
  have parts: "r\<lparr>reg_inheritedFrozen := False\<rparr> = r'\<lparr>reg_inheritedFrozen := False\<rparr> \<Longrightarrow>
      reg_identity r = reg_identity r' \<and> reg_policy r = reg_policy r' \<and> reg_frozen r = reg_frozen r'" for r r' :: registration
    by (cases r; cases r') simp
  show "getRegistration s' k = Some reg' \<Longrightarrow> \<exists>reg. getRegistration s k = Some reg \<and> reg_identity reg = reg_identity reg'
      \<and> reg_policy reg = reg_policy reg' \<and> reg_frozen reg = reg_frozen reg'"
    using eq by (cases "getRegistration s k") (auto dest!: parts)
  show "getRegistration s k = Some reg \<Longrightarrow> \<exists>reg'. getRegistration s' k = Some reg' \<and> reg_identity reg = reg_identity reg'
      \<and> reg_policy reg = reg_policy reg' \<and> reg_frozen reg = reg_frozen reg'"
    using eq by (cases "getRegistration s' k") (auto dest!: parts)
qed

lemma same_tree_rel:
  assumes "same_tree s' s"
  shows "parent_rel s' = parent_rel s" "freezable s' = freezable s" "reaches s' = reaches s"
    "inherits_freeze s' = inherits_freeze s"
proof -
  show par: "parent_rel s' = parent_rel s"
    unfolding parent_rel_def using same_treeD [OF assms] by (auto 4 4) metis+
  show fz: "freezable s' = freezable s"
    unfolding freezable_def fun_eq_iff using same_treeD [OF assms] by metis
  have ch: "cm_childrenByParent s' = cm_childrenByParent s" using assms by (simp add: same_tree_def)
  show "reaches s' = reaches s"
  proof (intro ext iffI)
    show "reaches s k d" if "reaches s' k d" for k d
      using that by induction (auto simp: fz ch intro: reaches.intros)
    show "reaches s' k d" if "reaches s k d" for k d
      using that by induction (auto simp: fz [symmetric] ch [symmetric] intro: reaches.intros)
  qed
  show "inherits_freeze s' = inherits_freeze s"
    unfolding inherits_freeze_def fun_eq_iff par using same_treeD [OF assms] by metis
qed

lemma set_inherited_tree:
  assumes "cm_inv s" "getRegistration s k = Some reg" "reg_policy reg \<noteq> Ephemeral"
  shows "same_tree (set_inherited b k reg s) s"
  using set_inherited_inv(2,3) [OF assms] assms(2) by (auto simp: same_tree_def)

lemma same_tree_trans: "same_tree s'' s' \<Longrightarrow> same_tree s' s \<Longrightarrow> same_tree s'' s"
  by (simp add: same_tree_def)

section \<open>The recursions end\<close>

lemma isAncestorFrozen_spec:
  assumes "cm_inv s" "acyclic (parent_rel s)"
  shows "isAncestorFrozen s k = Some (inherits_freeze s k)"
proof (induction k rule: wf_induct_rule [OF wf_parent(2) [OF assms(2)]])
  case (1 k)
  have step: "inherits_freeze s k \<longleftrightarrow> (\<exists>p. (k, p) \<in> parent_rel s \<and>
      ((\<exists>reg. getRegistration s p = Some reg \<and> reg_frozen reg) \<or> inherits_freeze s p))"
    unfolding inherits_freeze_def by (meson trancl.intros(1) trancl_into_trancl2 tranclD converse_tranclE)
  show ?case
  proof (cases "Option.bind (getRegistration s k) reg_parent")
    case None
    then have "(k, p) \<notin> parent_rel s" for p by (auto simp: parent_rel_def)
    then show ?thesis using None step by (simp add: isAncestorFrozen.simps [of s k])
  next
    case (Some p)
    note bind = this
    then have kp: "(k, p) \<in> parent_rel s" and only: "(k, q) \<in> parent_rel s \<Longrightarrow> q = p" for q
      by (auto simp: parent_rel_def bind_eq_Some_conv)
    show ?thesis
    proof (cases "getRegistration s p")
      case None
      then have "\<not> inherits_freeze s p"
        unfolding inherits_freeze_def by (auto simp: parent_rel_def dest: tranclD)
      then show ?thesis using step only None Some by (auto simp: isAncestorFrozen.simps [of s k])
    next
      case (Some parent)
      have "isAncestorFrozen s p = Some (inherits_freeze s p)" using 1 kp by simp
      moreover have "reg_key parent = p" using registered_key [OF cm_invD(1) [OF assms(1)] Some] .
      moreover have "inherits_freeze s k \<longleftrightarrow> reg_frozen parent \<or> inherits_freeze s p"
      proof -
        have "(\<exists>q. (k, q) \<in> parent_rel s \<and> Q q) \<longleftrightarrow> Q p" for Q using only kp by blast
        moreover have "(\<exists>reg. getRegistration s p = Some reg \<and> reg_frozen reg) \<longleftrightarrow> reg_frozen parent" by (simp add: Some)
        ultimately show ?thesis unfolding step by simp
      qed
      ultimately show ?thesis
        by (simp add: isAncestorFrozen.simps [of s k] Some bind)
    qed
  qed
qed

text \<open>The keys still to be visited become fewer in the multiset order of the hierarchy.\<close>

lemma work_smaller:
  assumes "\<And>c. c \<in> set cs \<Longrightarrow> (c, k) \<in> r"
  shows "(mset (cs @ ks), mset (k # ks)) \<in> mult r"
proof -
  have "(mset ks + mset cs, mset ks + {#k#}) \<in> mult r"
    using assms by (intro one_step_implies_mult) auto
  then show ?thesis by (simp add: add.commute)
qed

definition visited :: "'c cacheManager \<Rightarrow> string list \<Rightarrow> (string \<Rightarrow> bool) \<Rightarrow> string \<Rightarrow> registration option" where
  "visited s work b k =
    (if \<exists>w \<in> set work. reaches s w k then map_option (\<lambda>r. r\<lparr>reg_inheritedFrozen := b k\<rparr>) (getRegistration s k)
     else getRegistration s k)"

lemma visited_Nil [simp]: "visited s [] b = getRegistration s"
  by (simp add: visited_def fun_eq_iff)

lemma same_tree_refl [simp]: "same_tree s s"
  by (simp add: same_tree_def)

lemma reaches_freezable: "reaches s k d \<Longrightarrow> freezable s k"
  by (auto elim: reaches.cases)

lemma visited_skip: "\<not> freezable s k \<Longrightarrow> visited s (k # ks) b = visited s ks b"
  by (auto simp: visited_def fun_eq_iff dest: reaches_freezable)

lemma visited_step:
  assumes "cm_inv s" "getRegistration s k = Some reg" "reg_policy reg \<noteq> Ephemeral"
  shows "visited (set_inherited (b k) k reg s) (children_of s k @ ks) b = visited s (k # ks) b"
proof
  fix x
  note S = set_inherited_inv(2) [OF assms, of "b k"]
  note R = same_tree_rel(3) [OF set_inherited_tree [OF assms, of "b k"]]
  have fz: "freezable s k" using assms(2,3) by (auto simp: freezable_def)
  have split: "(\<exists>w \<in> set (k # ks). reaches s w x) \<longleftrightarrow> x = k \<or> (\<exists>w \<in> set (children_of s k @ ks). reaches s w x)"
    using fz by (auto simp: reaches_iff [of s k x] reaches.here)
  show "visited (set_inherited (b k) k reg s) (children_of s k @ ks) b x = visited s (k # ks) b x"
    unfolding visited_def R split S using assms(2) by auto
qed

lemma propagate_spec:
  assumes "wf P"
  shows "parent_rel s = P \<Longrightarrow> cm_inv s \<Longrightarrow> \<exists>s'. propagate_to frozen work s = Some s' \<and> cm_inv s' \<and> same_tree s' s
    \<and> cm_holdsByKey s' = cm_holdsByKey s \<and> getRegistration s' = visited s work (\<lambda>_. frozen)"
proof (induction "mset work" arbitrary: work s rule: wf_induct_rule [OF wf_mult [OF assms]])
  case (1 work s)
  show ?case
  proof (cases work)
    case Nil
    then show ?thesis using 1 by (simp add: propagate_to.simps [of frozen "[]" s])
  next
    case (Cons k ks)
    show ?thesis
    proof (cases "freezable s k")
      case False
      have "(mset ks, mset work) \<in> mult P" using work_smaller [of "[]" k P ks] by (simp add: Cons)
      from 1(1) [OF this] 1(2,3) obtain s' where s': "propagate_to frozen ks s = Some s'" "cm_inv s'" "same_tree s' s"
        "cm_holdsByKey s' = cm_holdsByKey s" "getRegistration s' = visited s ks (\<lambda>_. frozen)" by blast
      moreover have "propagate_to frozen work s = propagate_to frozen ks s"
        using False by (auto simp: Cons propagate_to.simps [of frozen "k # ks" s] freezable_def split: option.split)
      ultimately show ?thesis by (simp add: Cons visited_skip [OF False])
    next
      case True
      then obtain reg where reg: "getRegistration s k = Some reg" "reg_policy reg \<noteq> Ephemeral" by (auto simp: freezable_def)
      let ?s = "set_inherited frozen k reg s" and ?work = "children_of s k @ ks"
      note S = set_inherited_inv [OF 1(3) reg, of frozen] and T = set_inherited_tree [OF 1(3) reg, of frozen]
      have "(mset ?work, mset work) \<in> mult P"
        unfolding Cons using child_parent [OF 1(3)] 1(2) by (intro work_smaller) auto
      from 1(1) [OF this _ S(1)] same_tree_rel(1) [OF T] 1(2)
      obtain s' where s': "propagate_to frozen ?work ?s = Some s'" "cm_inv s'" "same_tree s' ?s"
        "cm_holdsByKey s' = cm_holdsByKey ?s" "getRegistration s' = visited ?s ?work (\<lambda>_. frozen)" by auto
      moreover have "propagate_to frozen work s = propagate_to frozen ?work ?s"
        by (simp add: Cons propagate_to.simps [of frozen "k # ks" s] reg)
      moreover have "visited ?s ?work (\<lambda>_. frozen) = visited s work (\<lambda>_. frozen)"
        unfolding Cons using visited_step [OF 1(3) reg, of "\<lambda>_. frozen"] by simp
      ultimately show ?thesis using same_tree_trans [OF _ T] S(4) by auto
    qed
  qed
qed

lemma reevaluate_spec:
  assumes "wf P" "acyclic P"
  shows "parent_rel s = P \<Longrightarrow> cm_inv s \<Longrightarrow> \<exists>s'. reevaluate_from work s = Some s' \<and> cm_inv s' \<and> same_tree s' s
    \<and> cm_holdsByKey s' = cm_holdsByKey s \<and> getRegistration s' = visited s work (inherits_freeze s)"
proof (induction "mset work" arbitrary: work s rule: wf_induct_rule [OF wf_mult [OF assms(1)]])
  case (1 work s)
  show ?case
  proof (cases work)
    case Nil
    have "reevaluate_from [] s = Some s" by (subst reevaluate_from.simps) simp
    then show ?thesis using 1 Nil by simp
  next
    case (Cons k ks)
    show ?thesis
    proof (cases "freezable s k")
      case False
      have "(mset ks, mset work) \<in> mult P" using work_smaller [of "[]" k P ks] by (simp add: Cons)
      from 1(1) [OF this] 1(2,3) obtain s' where s': "reevaluate_from ks s = Some s'" "cm_inv s'" "same_tree s' s"
        "cm_holdsByKey s' = cm_holdsByKey s" "getRegistration s' = visited s ks (inherits_freeze s)" by blast
      moreover have "reevaluate_from work s = reevaluate_from ks s"
        using False unfolding Cons by (subst reevaluate_from.simps) (auto simp: freezable_def split: option.split)
      ultimately show ?thesis by (simp add: Cons visited_skip [OF False])
    next
      case True
      then obtain reg where reg: "getRegistration s k = Some reg" "reg_policy reg \<noteq> Ephemeral" by (auto simp: freezable_def)
      let ?s = "set_inherited (inherits_freeze s k) k reg s" and ?work = "children_of s k @ ks"
      note S = set_inherited_inv [OF 1(3) reg, of "inherits_freeze s k"] and T = set_inherited_tree [OF 1(3) reg, of "inherits_freeze s k"]
      have "(mset ?work, mset work) \<in> mult P"
        unfolding Cons using child_parent [OF 1(3)] 1(2) by (intro work_smaller) auto
      from 1(1) [OF this _ S(1)] same_tree_rel(1) [OF T] 1(2)
      obtain s' where s': "reevaluate_from ?work ?s = Some s'" "cm_inv s'" "same_tree s' ?s"
        "cm_holdsByKey s' = cm_holdsByKey ?s" "getRegistration s' = visited ?s ?work (inherits_freeze ?s)" by auto
      moreover have "reevaluate_from work s = reevaluate_from ?work ?s"
        using isAncestorFrozen_spec [OF 1(3)] assms(2) 1(2) unfolding Cons
        by (subst reevaluate_from.simps) (simp add: reg)
      moreover have "visited ?s ?work (inherits_freeze ?s) = visited s work (inherits_freeze s)"
        unfolding Cons using visited_step [OF 1(3) reg, of "inherits_freeze s"] by (simp add: same_tree_rel(4) [OF T])
      ultimately show ?thesis using same_tree_trans [OF _ T] S(4) by auto
    qed
  qed
qed


section \<open>Freezing and unfreezing\<close>

lemma freeze_start_rel:
  assumes "cm_inv s" "getRegistration s k = Some reg" "reg_policy reg \<noteq> Ephemeral"
  shows "parent_rel (freeze_start b at k s) = parent_rel s" "reaches (freeze_start b at k s) = reaches s"
proof -
  let ?s = "freeze_start b at k s"
  note F = freeze_start_view [OF assms, of b at]
  show "parent_rel ?s = parent_rel s" unfolding parent_rel_def F(3) using assms(2) by (auto split: if_splits)
  have fz: "freezable ?s = freezable s" unfolding freezable_def F(3) fun_eq_iff using assms(2,3) by auto
  show "reaches ?s = reaches s"
  proof (intro ext iffI)
    show "reaches s c d" if "reaches ?s c d" for c d
      using that by induction (auto simp: fz F(4) intro: reaches.intros)
    show "reaches ?s c d" if "reaches s c d" for c d
      using that by induction (auto simp: fz [symmetric] F(4) [symmetric] intro: reaches.intros)
  qed
qed

lemma reaches_ancestor:
  assumes "cm_inv s"
  shows "reaches s c d \<Longrightarrow> (d, c) \<in> (parent_rel s)\<^sup>*"
proof (induction rule: reaches.induct)
  case (below k c d)
  then show ?case using child_parent [OF assms] by (meson rtrancl.rtrancl_into_rtrancl)
qed simp

lemma not_below_itself:
  assumes "cm_inv s" "acyclic (parent_rel s)" "c \<in> set (children_of s k)"
  shows "\<not> reaches s c k"
proof
  assume "reaches s c k"
  then have "(k, c) \<in> (parent_rel s)\<^sup>*" by (rule reaches_ancestor [OF assms(1)])
  then have "(k, k) \<in> (parent_rel s)\<^sup>+" using child_parent [OF assms(1,3)] by (rule rtrancl_into_trancl1)
  then show False using assms(2) by (simp add: acyclic_def)
qed

text \<open>
  C27: Freezing ends and freezes the subtree. When no key is its own ancestor, freezing a persistent key
  returns; the key is frozen from then on, each key below it that is reached through persistent keys
  inherits the freeze, and every other registration, ephemeral keys and what hangs below them included,
  stays as it is.
\<close>
theorem freeze_spec:
  assumes "cm_inv s" "acyclic (parent_rel s)" "getRegistration s k = Some reg"
    and "reg_policy reg \<noteq> Ephemeral" "\<not> reg_frozen reg"
  shows "\<exists>s'. cm_freeze now k s = Some s' \<and> (\<forall>x. getRegistration s' x =
    (if x = k then Some (reg\<lparr>reg_frozen := True, reg_frozenAt := Some now\<rparr>)
     else if \<exists>c \<in> set (children_of s k). reaches s c x
       then map_option (\<lambda>r. r\<lparr>reg_inheritedFrozen := True\<rparr>) (getRegistration s x)
     else getRegistration s x))"
proof -
  let ?s = "freeze_start True (Some now) k s"
  note F = freeze_start_view [OF assms(1,3,4), of True "Some now"]
  note R = freeze_start_rel [OF assms(1,3,4), of True "Some now"]
  obtain s' where s': "propagateInheritedFrozen k True ?s = Some s'" "getRegistration s' = visited ?s (children_of ?s k) (\<lambda>_. True)"
    using propagate_spec [OF wf_parent(1) [OF assms(2)] R(1) F(1)] unfolding propagateInheritedFrozen_def by blast
  have "cm_freeze now k s = Some (scheduleDirtyFlush (cm_emit (FrozenChanged (reg_identity reg) True (Some now)) s'))"
    using assms(3-5) s'(1) by (simp add: cm_freeze_def freeze_start_def)
  then show ?thesis
    using not_below_itself [OF assms(1,2)] by (auto simp: s'(2) visited_def R(2) F(3,4))
qed

text \<open>
  Unfreezing keeps what other ancestors freeze. When no key is its own ancestor, unfreezing a frozen
  key returns; each key below it, reached through persistent keys, then inherits a freeze exactly when
  one of its ancestors other than this key is frozen, and every other registration stays as it is.
\<close>
theorem unfreeze_spec:
  assumes "cm_inv s" "acyclic (parent_rel s)" "getRegistration s k = Some reg" "reg_frozen reg"
  shows "\<exists>s'. cm_unfreeze k s = Some s' \<and> (\<forall>x. getRegistration s' x =
    (if x = k then Some (reg\<lparr>reg_frozen := False, reg_frozenAt := None\<rparr>)
     else if \<exists>c \<in> set (children_of s k). reaches s c x
       then map_option (\<lambda>r. r\<lparr>reg_inheritedFrozen := \<exists>p a. (x, p) \<in> (parent_rel s)\<^sup>+ \<and> p \<noteq> k
         \<and> getRegistration s p = Some a \<and> reg_frozen a\<rparr>) (getRegistration s x)
     else getRegistration s x))"
proof -
  let ?s = "freeze_start False None k s"
  have pol: "reg_policy reg \<noteq> Ephemeral" using cm_invD(4) [OF assms(1)] assms(3,4) by (auto simp: ephemeral_thawed_def)
  note F = freeze_start_view [OF assms(1,3) pol, of False None]
  note R = freeze_start_rel [OF assms(1,3) pol, of False None]
  obtain s' where s': "reevaluateInheritedFrozen k ?s = Some s'"
      "getRegistration s' = visited ?s (children_of ?s k) (inherits_freeze ?s)"
    using reevaluate_spec [OF wf_parent(1) [OF assms(2)] assms(2) R(1) F(1)] unfolding reevaluateInheritedFrozen_def by blast
  have inh: "inherits_freeze ?s x \<longleftrightarrow> (\<exists>p a. (x, p) \<in> (parent_rel s)\<^sup>+ \<and> p \<noteq> k \<and> getRegistration s p = Some a \<and> reg_frozen a)" for x
    unfolding inherits_freeze_def R(1) F(3) by (auto split: if_splits)
  have "cm_unfreeze k s = Some (scheduleDirtyFlush (cm_emit (FrozenChanged (reg_identity reg) False None) s'))"
    using assms(3,4) s'(1) by (simp add: cm_unfreeze_def freeze_start_def)
  then show ?thesis
    using not_below_itself [OF assms(1,2)] by (auto simp: s'(2) visited_def R(2) F(3,4) inh)
qed

text \<open>
  A key registered below a frozen one is not protected. Acquiring a new key whose parent is frozen
  does not mark it as inheriting the freeze, so it can be evicted at once although its ancestor is
  frozen.
\<close>
theorem child_of_frozen_parent_evicted:
  assumes "cm_inv s" "getRegistration s p = Some preg" "reg_frozen preg"
    and "idn_parentKey i = Some p" "p \<noteq> []" "idn_key i \<noteq> p" "getRegistration s (idn_key i) = None"
    and "map_get (cm_registry s) (buildIdentityString ke i) = None" "int (getCount s) < cm_maxCacheKeys s"
    and "holders s (idn_key i) = []" "children_of s (idn_key i) = []" "\<not> opt_hold opts"
  shows "(idn_key i, p) \<in> parent_rel (snd (acquireKey ke now i opts s))
    \<and> inherits_freeze (snd (acquireKey ke now i opts s)) (idn_key i)
    \<and> fst (cm_evict (idn_key i) (snd (acquireKey ke now i opts s)))"
proof -
  let ?k = "idn_key i" and ?s = "snd (acquireKey ke now i opts s)" and ?reg = "new_registration now i [] opts s"
  have s': "?s = scheduleDirtyFlush (cm_emit (KeyAdded i (reg_policy ?reg))
      (insert_registration (buildIdentityString ke i) ?reg s))"
    using assms(8,9,12) by (simp add: acquireKey_def acquire_start_def acquire_new_def Let_def hold_option_def split: option.split)
  have get: "getRegistration ?s = (getRegistration s)(?k \<mapsto> ?reg)"
    using insert_agree(2) [OF cm_invD(1) [OF assms(1)] assms(8), of ?reg] assms(7) by (simp add: s')
  have rel: "(?k, p) \<in> parent_rel ?s" using assms(4,5) by (simp add: parent_rel_def get truthy_text_def)
  have "children_of ?s ?k = []" "holders ?s ?k = []"
    using assms(4-6,10,11) by (simp_all add: s' insert_registration_def Let_def truthy_text_def)
  then have "fst (cm_evict ?k ?s)" by (simp add: cm_evict_def get)
  moreover have "inherits_freeze ?s ?k"
    unfolding inherits_freeze_def using rel assms(2,3,6) by (intro exI [of _ p] exI [of _ preg]) (auto simp: get)
  ultimately show ?thesis using rel by blast
qed

definition note_tree :: "nat cacheManager" where
  "note_tree = snd (acquireKey toy_engine 6 reply_identity plain_options registered_note)"

lemma note_tree_inv: "cm_inv note_tree"
  unfolding note_tree_def
proof (rule acquire_inv [OF note_inv(1)])
  have "getRegistration registered_note (idn_key reply_identity) = None" by code_simp
  then show "getRegistration registered_note (idn_key reply_identity) = None" .
qed

lemma note_tree_acyclic:
  assumes "cm_inv s" "map (\<lambda>r. (reg_key r, reg_parent r)) (map_values (cm_registry s)) = [(''k1'', None), (''k2'', Some ''k1'')]"
  shows "acyclic (parent_rel s)"
proof -
  have "set (map (\<lambda>r. (reg_key r, reg_parent r)) (map_values (cm_registry s))) = {(''k1'', None), (''k2'', Some ''k1'')}"
    unfolding assms(2) by simp
  then have "reg \<in> set (map_values (cm_registry s)) \<Longrightarrow> (reg_key reg, reg_parent reg) \<in> {(''k1'', None), (''k2'', Some ''k1'')}" for reg
    by (metis (no_types, lifting) image_eqI set_map)
  then have "parent_rel s \<subseteq> {(''k2'', ''k1'')}"
    unfolding parent_rel_def using registered_entry [OF cm_invD(1) [OF assms(1)]] by fastforce
  moreover have "acyclic {(''k2'', ''k1'')}" by (simp add: acyclic_def trancl_insert)
  ultimately show ?thesis using acyclic_subset by blast
qed

theorem freeze_spec_witness:
  "\<exists>s'. cm_freeze 9 ''k1'' note_tree = Some s' \<and> map_option reg_inheritedFrozen (getRegistration s' ''k2'') = Some True
    \<and> cm_isFrozen s' ''k1''"
proof -
  have ac: "acyclic (parent_rel note_tree)" by (rule note_tree_acyclic [OF note_tree_inv]) code_simp
  have k2: "getRegistration note_tree ''k2'' = Some (new_registration 6 reply_identity [] plain_options note_tree)"
    and ch: "children_of note_tree ''k1'' = [''k2'']" by code_simp+
  have "freezable note_tree ''k2''" by (simp add: freezable_def k2 new_registration_def Let_def plain_options_def)
  then have r: "reaches note_tree ''k2'' ''k2''" by (rule reaches.here)
  let ?reg = "new_registration 5 (note_identity ''c1'')
    [\<lparr>pim_commandId = ''cmd1'', pim_clientId = ''c1'', pim_paramKey = None\<rparr>] plain_options note_tree"
  have k1: "getRegistration note_tree ''k1'' = Some ?reg" by code_simp
  have "reg_policy ?reg \<noteq> Ephemeral" by (simp add: new_registration_def Let_def plain_options_def)
  from freeze_spec [OF note_tree_inv ac k1 this, of 9]
  show ?thesis using r by (auto simp: ch k2 cm_isFrozen_def)
qed

theorem unfreeze_spec_witness:
  "\<exists>s'. cm_unfreeze ''k1'' (freeze_start True (Some 9) ''k1'' note_tree) = Some s' \<and> \<not> cm_isFrozen s' ''k1''"
proof -
  let ?reg = "new_registration 5 (note_identity ''c1'')
    [\<lparr>pim_commandId = ''cmd1'', pim_clientId = ''c1'', pim_paramKey = None\<rparr>] plain_options note_tree"
  have k1: "getRegistration note_tree ''k1'' = Some ?reg" by code_simp
  have "reg_policy ?reg \<noteq> Ephemeral" by (simp add: new_registration_def Let_def plain_options_def)
  note F = freeze_start_view [OF note_tree_inv k1 this, of True "Some 9"]
    and R = freeze_start_rel(1) [OF note_tree_inv k1 this, of True "Some 9"]
  have "acyclic (parent_rel (freeze_start True (Some 9) ''k1'' note_tree))"
    unfolding R by (rule note_tree_acyclic [OF note_tree_inv]) code_simp
  from unfreeze_spec [OF F(1) this, of "''k1''"] show ?thesis by (auto simp: F(3) cm_isFrozen_def)
qed

theorem child_of_frozen_parent_evicted_witness:
  "fst (cm_evict ''k2'' (snd (acquireKey toy_engine 6 reply_identity plain_options
     (freeze_start True (Some 9) ''k1'' registered_note))))"
proof -
  let ?s = "freeze_start True (Some 9) ''k1'' registered_note"
  let ?reg = "new_registration 5 (note_identity ''c1'')
    [\<lparr>pim_commandId = ''cmd1'', pim_clientId = ''c1'', pim_paramKey = None\<rparr>] plain_options registered_note"
  have k1: "getRegistration registered_note ''k1'' = Some ?reg" by code_simp
  have "reg_policy ?reg \<noteq> Ephemeral" by (simp add: new_registration_def Let_def plain_options_def)
  note F = freeze_start_view [OF note_inv(1) k1 this, of True "Some 9"]
  have p: "getRegistration ?s ''k1'' = Some (?reg\<lparr>reg_frozen := True, reg_frozenAt := Some 9\<rparr>)" by (simp add: F(3))
  have "getRegistration registered_note ''k2'' = None" by code_simp
  then have new: "getRegistration ?s ''k2'' = None" by (simp add: F(3))
  have rest: "map_get (cm_registry ?s) (buildIdentityString toy_engine reply_identity) = None"
    "int (getCount ?s) < cm_maxCacheKeys ?s" "holders ?s ''k2'' = []" "children_of ?s ''k2'' = []"
    by code_simp+
  show ?thesis
    using child_of_frozen_parent_evicted [OF F(1) p, of reply_identity toy_engine plain_options 6] new rest
    by (simp add: reply_identity_def plain_options_def)
qed

end
