(* ===== verification/Json.thy ===== *)
theory Json
  imports JsValue
begin

text \<open>
  JSON texts: \<open>JSON.stringify\<close> and \<open>JSON.parse\<close> of the JavaScript standard library on the values of
  theory \<open>JsValue\<close>.  A text is a list of code units below 256; a number that is not an integer and
  an escape for a larger code unit are outside the model and do not parse.
\<close>

section \<open>Printing\<close>

definition dquote :: char where "dquote = CHR 0x22"
definition backslash :: char where "backslash = CHR 0x5C"

definition hex_digit :: "nat \<Rightarrow> char" where
  "hex_digit d = (if d < 10 then digit_char d else char_of (87 + d))"

definition code_unit :: "char \<Rightarrow> nat" where
  "code_unit c = of_char c"

definition short_escapes :: "(nat \<times> char) list" where
  "short_escapes = [(8, CHR ''b''), (9, CHR ''t''), (10, CHR ''n''), (12, CHR ''f''), (13, CHR ''r''),
    (34, CHR 0x22), (92, CHR 0x5C)]"

definition json_char :: "char \<Rightarrow> string" where
  "json_char c =
    (case map_of short_escapes (code_unit c) of
       Some e \<Rightarrow> [backslash, e]
     | None \<Rightarrow>
         if code_unit c < 32
         then [backslash, CHR ''u'', CHR ''0'', CHR ''0'', hex_digit (code_unit c div 16), hex_digit (code_unit c mod 16)]
         else [c])"

definition json_string :: "string \<Rightarrow> string" where
  "json_string s = dquote # concat (map json_char s) @ [dquote]"

fun join_comma :: "string list \<Rightarrow> string" where
  "join_comma [] = []"
| "join_comma [p] = p"
| "join_comma (p # q # ps) = p @ CHR '','' # join_comma (q # ps)"

definition show_int :: "int \<Rightarrow> string" where
  "show_int i = (if i < 0 then CHR ''-'' # show_nat (nat (- i)) else show_nat (nat i))"

text \<open>\<open>None\<close> is the result \<open>undefined\<close>: such an element prints as \<open>null\<close>, such a property is left out.\<close>

fun js_stringify :: "jsval \<Rightarrow> string option" where
  "js_stringify JUndef = None"
| "js_stringify (JBuiltin n) = None"
| "js_stringify JNull = Some ''null''"
| "js_stringify (JBool b) = Some (if b then ''true'' else ''false'')"
| "js_stringify (JNum i) = Some (show_int i)"
| "js_stringify (JStr s) = Some (json_string s)"
| "js_stringify (JArr xs) =
    Some (CHR ''['' # join_comma (map (\<lambda>x. case js_stringify x of None \<Rightarrow> ''null'' | Some t \<Rightarrow> t) xs) @ '']'')"
| "js_stringify (JObj kvs) =
    Some (CHR ''{'' # join_comma (concat (map (\<lambda>(k, x). case js_stringify x of None \<Rightarrow> []
      | Some t \<Rightarrow> [json_string k @ CHR '':'' # t]) kvs)) @ ''}'')"

text \<open>The text of a value that has one.\<close>

definition json_of :: "jsval \<Rightarrow> string" where
  "json_of v = (case js_stringify v of Some t \<Rightarrow> t | None \<Rightarrow> [])"

section \<open>Parsing\<close>

definition json_space :: "char \<Rightarrow> bool" where
  "json_space c \<longleftrightarrow> code_unit c \<in> {9, 10, 13, 32}"

abbreviation skip_space :: "string \<Rightarrow> string" where
  "skip_space t \<equiv> dropWhile json_space t"

definition hex_value :: "char \<Rightarrow> nat option" where
  "hex_value c =
    (let u = code_unit c
     in if 48 \<le> u \<and> u \<le> 57 then Some (u - 48)
        else if 97 \<le> u \<and> u \<le> 102 then Some (u - 87)
        else if 65 \<le> u \<and> u \<le> 70 then Some (u - 55)
        else None)"

definition hex_unit :: "char \<Rightarrow> char \<Rightarrow> char \<Rightarrow> char \<Rightarrow> char option" where
  "hex_unit a b c d =
    (case (hex_value a, hex_value b, hex_value c, hex_value d) of
       (Some 0, Some 0, Some u, Some v) \<Rightarrow> Some (char_of (16 * u + v))
     | _ \<Rightarrow> None)"

definition unescape :: "char \<Rightarrow> char option" where
  "unescape e = (if e = CHR ''/'' then Some e
    else map_option (\<lambda>p. char_of (fst p)) (find (\<lambda>p. snd p = e) short_escapes))"

text \<open>The rest of a string literal after its opening quote.\<close>

fun parse_chars :: "string \<Rightarrow> (string \<times> string) option" where
  "parse_chars [] = None"
| "parse_chars (c # cs) =
    (if c = dquote then Some ([], cs)
     else if c = backslash then
       (case cs of
          [] \<Rightarrow> None
        | e # r \<Rightarrow>
            if e = CHR ''u'' then
              (case r of
                 h1 # h2 # h3 # h4 # r' \<Rightarrow>
                   (case hex_unit h1 h2 h3 h4 of
                      None \<Rightarrow> None
                    | Some u \<Rightarrow> map_option (\<lambda>(s, t). (u # s, t)) (parse_chars r'))
               | _ \<Rightarrow> None)
            else (case unescape e of
                    None \<Rightarrow> None
                  | Some u \<Rightarrow> map_option (\<lambda>(s, t). (u # s, t)) (parse_chars r)))
     else if code_unit c < 32 then None
     else map_option (\<lambda>(s, t). (c # s, t)) (parse_chars cs))"

text \<open>An integer: no leading zero, no fraction, no exponent.\<close>

definition parse_digits :: "string \<Rightarrow> (nat \<times> string) option" where
  "parse_digits t =
    (let ds = takeWhile char_is_digit t; r = dropWhile char_is_digit t
     in if ds = [] then None
        else if hd ds = CHR ''0'' \<and> tl ds \<noteq> [] then None
        else if r \<noteq> [] \<and> hd r \<in> {CHR ''.'', CHR ''e'', CHR ''E''} then None
        else Some (digits_to_nat ds, r))"

definition parse_scalar :: "string \<Rightarrow> (jsval \<times> string) option" where
  "parse_scalar t =
    (if take 4 t = ''null'' then Some (JNull, drop 4 t)
     else if take 4 t = ''true'' then Some (JBool True, drop 4 t)
     else if take 5 t = ''false'' then Some (JBool False, drop 5 t)
     else if take 1 t = ''-'' then map_option (\<lambda>(n, r). (JNum (- int n), r)) (parse_digits (drop 1 t))
     else map_option (\<lambda>(n, r). (JNum (int n), r)) (parse_digits t))"

text \<open>The first argument bounds the recursion; twice the length of the text is enough.\<close>

fun parse_value :: "nat \<Rightarrow> string \<Rightarrow> (jsval \<times> string) option"
  and parse_elements :: "nat \<Rightarrow> string \<Rightarrow> jsval list \<Rightarrow> (jsval \<times> string) option"
  and parse_members :: "nat \<Rightarrow> string \<Rightarrow> (string, jsval) jsmap \<Rightarrow> (jsval \<times> string) option" where
  "parse_value 0 t = None"
| "parse_value (Suc n) t =
    (case skip_space t of
       [] \<Rightarrow> None
     | c # cs \<Rightarrow>
         if c = CHR ''['' then
           (if take 1 (skip_space cs) = '']'' then Some (JArr [], drop 1 (skip_space cs)) else parse_elements n cs [])
         else if c = CHR ''{'' then
           (if take 1 (skip_space cs) = ''}'' then Some (JObj [], drop 1 (skip_space cs)) else parse_members n cs [])
         else if c = dquote then map_option (\<lambda>(s, r). (JStr s, r)) (parse_chars cs)
         else parse_scalar (c # cs))"
| "parse_elements 0 t xs = None"
| "parse_elements (Suc n) t xs =
    (case parse_value n t of
       None \<Rightarrow> None
     | Some (v, r) \<Rightarrow>
         (case skip_space r of
            [] \<Rightarrow> None
          | c # cs \<Rightarrow>
              if c = CHR '','' then parse_elements n cs (xs @ [v])
              else if c = CHR '']'' then Some (JArr (xs @ [v]), cs)
              else None))"
| "parse_members 0 t kvs = None"
| "parse_members (Suc n) t kvs =
    (case skip_space t of
       [] \<Rightarrow> None
     | q # cs \<Rightarrow>
         if q \<noteq> dquote then None
         else (case parse_chars cs of
            None \<Rightarrow> None
          | Some (k, r) \<Rightarrow>
              (case skip_space r of
                 [] \<Rightarrow> None
               | c # r1 \<Rightarrow>
                   if c \<noteq> CHR '':'' then None
                   else (case parse_value n r1 of
                      None \<Rightarrow> None
                    | Some (v, r2) \<Rightarrow>
                        (case skip_space r2 of
                           [] \<Rightarrow> None
                         | d # r3 \<Rightarrow>
                             if d = CHR '','' then parse_members n r3 (map_set k v kvs)
                             else if d = CHR ''}'' then Some (JObj (map_set k v kvs), r3)
                             else None)))))"

text \<open>\<open>None\<close> is the \<open>SyntaxError\<close>.\<close>

definition js_parse :: "string \<Rightarrow> jsval option" where
  "js_parse t =
    (case parse_value (2 * length t) t of
       None \<Rightarrow> None
     | Some (v, r) \<Rightarrow> if skip_space r = [] then Some v else None)"

section \<open>What a text says\<close>

fun json_absent :: "jsval \<Rightarrow> bool" where
  "json_absent JUndef = True"
| "json_absent (JBuiltin n) = True"
| "json_absent v = False"

fun json_clean :: "jsval \<Rightarrow> jsval" where
  "json_clean JUndef = JNull"
| "json_clean (JBuiltin n) = JNull"
| "json_clean (JArr xs) = JArr (map json_clean xs)"
| "json_clean (JObj kvs) = JObj (concat (map (\<lambda>(k, x). if json_absent x then [] else [(k, json_clean x)]) kvs))"
| "json_clean v = v"

fun jsval_wf :: "jsval \<Rightarrow> bool" where
  "jsval_wf (JArr xs) = (\<forall>x \<in> set xs. jsval_wf x)"
| "jsval_wf (JObj kvs) = (distinct (map fst kvs) \<and> (\<forall>kv \<in> set kvs. jsval_wf (snd kv)))"
| "jsval_wf v = True"

section \<open>Parsing undoes printing\<close>

lemma short_escapes_back:
  "map_of short_escapes (code_unit c) = Some e \<Longrightarrow> e \<noteq> CHR ''u'' \<and> unescape e = Some c"
proof -
  assume "map_of short_escapes (code_unit c) = Some e"
  then have "(code_unit c, e) \<in> set short_escapes" by (rule map_of_SomeD)
  moreover have "list_all (\<lambda>(u, e). e \<noteq> CHR ''u'' \<and> unescape e = Some (char_of u)) short_escapes" by code_simp
  ultimately show ?thesis by (auto simp: list_all_iff code_unit_def)
qed

lemma hex_value_digit: "d < 16 \<Longrightarrow> hex_value (hex_digit d) = Some d"
  by (auto simp: hex_value_def hex_digit_def code_unit_def digit_char_def of_char_of Let_def)

lemma hex_unit_back:
  "u < 32 \<Longrightarrow> hex_unit (CHR ''0'') (CHR ''0'') (hex_digit (u div 16)) (hex_digit (u mod 16)) = Some (char_of u)"
proof -
  assume "u < 32"
  moreover have "hex_value (CHR ''0'') = Some 0" by code_simp
  ultimately show ?thesis by (simp add: hex_unit_def hex_value_digit)
qed

lemma plain_char: 
  assumes "map_of short_escapes (code_unit c) = None" 
  shows "c \<noteq> dquote" "c \<noteq> backslash"
  using assms by (auto simp: short_escapes_def code_unit_def dquote_def backslash_def split: if_splits)

lemma parse_json_char:
  "parse_chars (json_char c @ t) = map_option (\<lambda>(s, r). (c # s, r)) (parse_chars t)"
proof (cases "map_of short_escapes (code_unit c)")
  case (Some e)
  then show ?thesis
    using short_escapes_back [OF Some] by (simp add: json_char_def backslash_def dquote_def)
next
  case None
  then show ?thesis
    using plain_char [OF None] hex_unit_back [of "code_unit c"]
    by (auto simp: json_char_def backslash_def dquote_def code_unit_def)
qed

lemma parse_json_string: "parse_chars (concat (map json_char s) @ dquote # t) = Some (s, t)"
  by (induction s) (simp_all add: parse_json_char)

lemma show_nat_hd: "hd (show_nat n) = CHR ''0'' \<Longrightarrow> tl (show_nat n) = []"
proof (induction n rule: show_nat.induct)
  case (1 n)
  show ?case
  proof (cases "n < 10")
    case False
    have "hd (show_nat (n div 10)) = CHR ''0''"
      using 1(2) False by (simp add: show_nat.simps [of n] hd_append)
    with 1(1) False have tl0: "tl (show_nat (n div 10)) = []" by simp
    then obtain c where c: "show_nat (n div 10) = [c]"
      by (metis list.exhaust_sel show_nat_nonempty)
    with \<open>hd (show_nat (n div 10)) = CHR ''0''\<close> have "show_nat (n div 10) = ''0''" by simp
    then have "digits_to_nat (show_nat (n div 10)) = 0" by (simp add: digits_to_nat_def digit_value_def)
    then have "n div 10 = 0" by (simp only: digits_to_nat_show_nat)
    with False show ?thesis by simp
  qed (subst show_nat.simps, simp)
qed

definition ends_value :: "string \<Rightarrow> bool" where
  "ends_value t \<longleftrightarrow> t = [] \<or> hd t \<in> {CHR '','', CHR '']'', CHR ''}''}"

lemma parse_digits_show: "ends_value t \<Longrightarrow> parse_digits (show_nat n @ t) = Some (n, t)"
proof -
  assume e: "ends_value t"
  have "takeWhile char_is_digit t = []" "dropWhile char_is_digit t = t"
    using e by (cases t; auto simp: ends_value_def char_is_digit_def)+
  then have "takeWhile char_is_digit (show_nat n @ t) = show_nat n" "dropWhile char_is_digit (show_nat n @ t) = t"
    by (auto simp: takeWhile_append2 dropWhile_append2 show_nat_digits)
  then show ?thesis using e by (auto simp: parse_digits_def Let_def show_nat_hd ends_value_def)
qed


lemma value_starters:
  "c \<in> set ''ntf[{'' \<Longrightarrow> \<not> json_space c \<and> c \<noteq> CHR '']'' \<and> c \<noteq> CHR ''}''"
proof -
  have "list_all (\<lambda>c. \<not> json_space c \<and> c \<noteq> CHR '']'' \<and> c \<noteq> CHR ''}'') ''ntf[{''" by code_simp
  then show "c \<in> set ''ntf[{'' \<Longrightarrow> ?thesis" unfolding list_all_iff by blast
qed

lemma value_start:
  "js_stringify v = Some t \<Longrightarrow> \<exists>c cs. t = c # cs \<and> \<not> json_space c \<and> c \<noteq> CHR '']'' \<and> c \<noteq> CHR ''}''"
proof (cases v)
  case (JNum i)
  assume t: "js_stringify v = Some t"
  obtain d ds where ds: "show_nat (nat i) = d # ds" by (metis list.exhaust show_nat_nonempty)
  have "char_is_digit d" by (rule show_nat_digits [of _ "nat i"]) (simp add: ds)
  then have "\<not> json_space d \<and> d \<noteq> CHR '']'' \<and> d \<noteq> CHR ''}''"
    by (auto simp: char_is_digit_def json_space_def code_unit_def)
  moreover have "\<not> json_space (CHR ''-'')" by code_simp
  ultimately show ?thesis using t JNum ds by (auto simp: show_int_def)
next
  case (JStr s)
  assume "js_stringify v = Some t"
  moreover have "\<not> json_space dquote \<and> dquote \<noteq> CHR '']'' \<and> dquote \<noteq> CHR ''}''" by code_simp
  ultimately show ?thesis using JStr by (auto simp: json_string_def)
next
  case (JBool b)
  assume "js_stringify v = Some t"
  then have "t = CHR ''t'' # ''rue'' \<or> t = CHR ''f'' # ''alse''" using JBool by (cases b) simp_all
  then show ?thesis using value_starters [of "CHR ''t''"] value_starters [of "CHR ''f''"] by fastforce
next
  case JNull
  assume "js_stringify v = Some t"
  then have "t = CHR ''n'' # ''ull''" using JNull by simp
  then show ?thesis using value_starters [of "CHR ''n''"] by fastforce
next
  case (JArr xs)
  assume "js_stringify v = Some t"
  then obtain cs where "t = CHR ''['' # cs" using JArr by auto
  then show ?thesis using value_starters [of "CHR ''[''"] by fastforce
next
  case (JObj kvs)
  assume "js_stringify v = Some t"
  then obtain cs where "t = CHR ''{'' # cs" using JObj by auto
  then show ?thesis using value_starters [of "CHR ''{''"] by fastforce
qed auto

lemma scalar_start:
  "c # cs = show_int i @ r \<Longrightarrow> c \<noteq> CHR ''['' \<and> c \<noteq> CHR ''{'' \<and> c \<noteq> dquote \<and> \<not> json_space c
   \<and> c \<noteq> CHR ''n'' \<and> c \<noteq> CHR ''t'' \<and> c \<noteq> CHR ''f''"
proof -
  assume a: "c # cs = show_int i @ r"
  obtain d ds where ds: "show_nat (nat i) = d # ds" by (metis list.exhaust show_nat_nonempty)
  have d: "char_is_digit d" by (rule show_nat_digits [of _ "nat i"]) (simp add: ds)
  have "c = CHR ''-'' \<or> c = d" using a ds by (auto simp: show_int_def split: if_splits)
  then show ?thesis using d by (auto simp: char_is_digit_def json_space_def code_unit_def dquote_def)
qed

lemma parse_show_int: "ends_value r \<Longrightarrow> parse_scalar (show_int i @ r) = Some (JNum i, r)"
proof -
  assume e: "ends_value r"
  obtain c cs where c: "show_int i @ r = c # cs" by (cases "show_int i @ r") (auto simp: show_int_def split: if_splits)
  note start = scalar_start [OF c [symmetric]]
  show ?thesis
  proof (cases "i < 0")
    case True
    then show ?thesis using parse_digits_show [OF e, of "nat (- i)"] by (simp add: parse_scalar_def show_int_def)
  next
    case False
    obtain d ds where ds: "show_nat (nat i) = d # ds" by (metis list.exhaust show_nat_nonempty)
    have "char_is_digit d" by (rule show_nat_digits [of _ "nat i"]) (simp add: ds)
    then have "d \<noteq> CHR ''-''" by (auto simp: char_is_digit_def)
    then show ?thesis using False start c ds parse_digits_show [OF e, of "nat i"]
      by (simp add: parse_scalar_def show_int_def)
  qed
qed

definition element_text :: "jsval \<Rightarrow> string" where
  "element_text x = (case js_stringify x of None \<Rightarrow> ''null'' | Some t \<Rightarrow> t)"

lemma stringify_absent: "js_stringify v = None \<longleftrightarrow> json_absent v"
  by (cases v) auto

lemma element_start: "\<exists>c cs. element_text v = c # cs \<and> \<not> json_space c \<and> c \<noteq> CHR '']'' \<and> c \<noteq> CHR ''}''"
  using value_start [of v] value_starters [of "CHR ''n''"] by (auto simp: element_text_def split: option.split)

lemma parse_null: "ends_value r \<Longrightarrow> 0 < n \<Longrightarrow> parse_value n (''null'' @ r) = Some (JNull, r)"
  using value_starters [of "CHR ''n''"] by (cases n) (auto simp: parse_scalar_def dquote_def)


lemma skip_nonspace [simp]: "\<not> json_space c \<Longrightarrow> skip_space (c # t) = c # t"
  by simp

lemma nonspace_marks [simp]:
  "\<not> json_space (CHR '','')" "\<not> json_space (CHR '']'')" "\<not> json_space (CHR ''}'')" "\<not> json_space (CHR '':'')"
  "\<not> json_space (CHR ''['')" "\<not> json_space (CHR ''{'')" "\<not> json_space dquote"
  by code_simp+

definition parses_back :: "jsval \<Rightarrow> bool" where
  "parses_back x \<longleftrightarrow> (\<forall>n r. 2 * length (element_text x) \<le> n \<longrightarrow> ends_value r \<longrightarrow>
    parse_value n (element_text x @ r) = Some (json_clean x, r))"

lemma ends_marks [simp]: "ends_value (CHR '','' # t)" "ends_value (CHR '']'' # t)" "ends_value (CHR ''}'' # t)" "ends_value []"
  by (simp_all add: ends_value_def)

lemma parse_elements_back:
  assumes "xs \<noteq> []" and "\<And>x. x \<in> set xs \<Longrightarrow> parses_back x"
    and "2 * length (join_comma (map element_text xs)) < n"
  shows "parse_elements n (join_comma (map element_text xs) @ CHR '']'' # r) acc
    = Some (JArr (acc @ map json_clean xs), r)"
  using assms
proof (induction xs arbitrary: n acc)
  case (Cons x xs)
  from Cons.prems(3) obtain m where n: "n = Suc m" by (cases n) auto
  have x: "parses_back x" using Cons.prems(2) by simp
  show ?case
  proof (cases xs)
    case Nil
    then show ?thesis using x Cons.prems(3) n by (simp add: parses_back_def)
  next
    case (Cons y ys)
    have "parse_value m (element_text x @ CHR '','' # (join_comma (map element_text xs) @ CHR '']'' # r))
      = Some (json_clean x, CHR '','' # (join_comma (map element_text xs) @ CHR '']'' # r))"
      using x Cons.prems(3) n Cons by (simp add: parses_back_def)
    then show ?thesis
      using Cons.IH [of m "acc @ [json_clean x]"] Cons.prems(2,3) n Cons by simp
  qed
qed simp

abbreviation member_text :: "string \<Rightarrow> jsval \<Rightarrow> string" where
  "member_text k x \<equiv> json_string k @ CHR '':'' # element_text x"

lemma parse_members_back:
  assumes "kvs \<noteq> []" and "\<And>k x. (k, x) \<in> set kvs \<Longrightarrow> parses_back x" and "distinct (map fst acc @ map fst kvs)"
    and "2 * length (join_comma (map (\<lambda>(k, x). member_text k x) kvs)) < n"
  shows "parse_members n (join_comma (map (\<lambda>(k, x). member_text k x) kvs) @ CHR ''}'' # r) acc
    = Some (JObj (acc @ map (\<lambda>(k, x). (k, json_clean x)) kvs), r)"
  using assms
proof (induction kvs arbitrary: n acc)
  case (Cons kv kvs)
  obtain k x where kv: "kv = (k, x)" by (cases kv)
  from Cons.prems(4) obtain m where n: "n = Suc m" by (cases n) auto
  have x: "parses_back x" using Cons.prems(2) [of k x] kv by simp
  obtain c cs where cs: "element_text x = c # cs" and c: "\<not> json_space c" using element_start [of x] by blast
  have "map_get acc k = None" using Cons.prems(3) kv by (auto simp: map_of_eq_None_iff)
  then have new: "map_set k v acc = acc @ [(k, v)]" for v by (induction acc) (auto split: if_splits)
  show ?case
  proof (cases kvs)
    case Nil
    have "parse_value m (element_text x @ CHR ''}'' # r) = Some (json_clean x, CHR ''}'' # r)"
      using x Cons.prems(4) n kv Nil by (simp add: parses_back_def)
    then show ?thesis using n kv Nil cs c by (simp add: json_string_def parse_json_string new)
  next
    case (Cons kv' kvs')
    let ?more = "join_comma (map (\<lambda>(k, x). member_text k x) kvs) @ CHR ''}'' # r"
    have "parse_value m (element_text x @ CHR '','' # ?more) = Some (json_clean x, CHR '','' # ?more)"
      using x Cons.prems(4) n kv Cons by (simp add: parses_back_def)
    moreover have "parse_members m ?more (acc @ [(k, json_clean x)]) =
        Some (JObj ((acc @ [(k, json_clean x)]) @ map (\<lambda>(k, x). (k, json_clean x)) kvs), r)"
      using Cons.prems(2-4) n kv Cons by (intro Cons.IH) auto
    ultimately show ?thesis using n kv Cons cs c by (simp add: json_string_def parse_json_string new)
  qed
qed simp


lemma parse_value_scalar:
  "\<not> json_space c \<Longrightarrow> c \<noteq> CHR ''['' \<Longrightarrow> c \<noteq> CHR ''{'' \<Longrightarrow> c \<noteq> dquote \<Longrightarrow> 0 < n \<Longrightarrow>
   parse_value n (c # cs) = parse_scalar (c # cs)"
  by (cases n) simp_all

lemma present_members:
  "concat (map (\<lambda>(k, x). case js_stringify x of None \<Rightarrow> [] | Some t \<Rightarrow> [json_string k @ CHR '':'' # t]) kvs)
    = map (\<lambda>(k, x). member_text k x) (filter (\<lambda>(k, x). \<not> json_absent x) kvs)"
  "concat (map (\<lambda>(k, x). if json_absent x then [] else [(k, json_clean x)]) kvs)
    = map (\<lambda>(k, x). (k, json_clean x)) (filter (\<lambda>(k, x). \<not> json_absent x) kvs)"
  by (induction kvs) (auto simp: element_text_def stringify_absent [symmetric])

lemma empty_container:
  assumes "0 < n"
  shows "parse_value n (CHR ''['' # CHR '']'' # r) = Some (JArr [], r)"
    and "parse_value n (CHR ''{'' # CHR ''}'' # r) = Some (JObj [], r)"
  using assms by (cases n; simp)+

lemma join_comma_start:
  "t \<noteq> [] \<Longrightarrow> \<exists>cs. join_comma (t # ts) = hd t # cs"
  by (cases ts; cases t) auto

lemma parses_back_all: "jsval_wf v \<Longrightarrow> parses_back v"
proof (induction v)
  case JUndef
  show ?case by (auto simp: parses_back_def element_text_def parse_null [simplified])
next
  case (JBuiltin n)
  show ?case by (auto simp: parses_back_def element_text_def parse_null [simplified])
next
  case JNull
  show ?case by (auto simp: parses_back_def element_text_def parse_null [simplified])
next
  case (JBool b)
  have "\<not> json_space (CHR ''t'')" "CHR ''t'' \<noteq> dquote" "\<not> json_space (CHR ''f'')" "CHR ''f'' \<noteq> dquote"
    by code_simp+
  then show ?case by (auto simp: parses_back_def element_text_def parse_value_scalar parse_scalar_def)
next
  case (JNum i)
  show ?case unfolding parses_back_def
  proof (intro allI impI)
    fix n r
    assume n: "2 * length (element_text (JNum i)) \<le> n" and r: "ends_value r"
    obtain c cs where c: "show_int i @ r = c # cs" by (cases "show_int i @ r") (auto simp: show_int_def split: if_splits)
    have "0 < length (show_int i)" by (simp add: show_int_def)
    moreover have "2 * length (show_int i) \<le> n" using n by (simp add: element_text_def)
    ultimately have "0 < n" by linarith
    then have "parse_value n (show_int i @ r) = parse_scalar (show_int i @ r)"
      unfolding c using scalar_start [OF c [symmetric]] by (intro parse_value_scalar) auto
    then show "parse_value n (element_text (JNum i) @ r) = Some (json_clean (JNum i), r)"
      using parse_show_int [OF r] by (simp add: element_text_def)
  qed
next
  case (JStr s)
  have "parse_value n (element_text (JStr s) @ r) = Some (JStr s, r)" if "0 < n" for n r
    using that parse_json_string [of s r]
    by (cases n) (simp_all add: element_text_def json_string_def, simp add: dquote_def)
  then show ?case by (simp add: parses_back_def element_text_def json_string_def)
next
  case (JArr xs)
  then have xs: "\<And>x. x \<in> set xs \<Longrightarrow> parses_back x" by simp
  have lit: "element_text (JArr xs) = CHR ''['' # join_comma (map element_text xs) @ '']''"
    by (simp add: element_text_def cong: map_cong) 
  show ?case unfolding parses_back_def
  proof (intro allI impI)
    fix n r
    assume n: "2 * length (element_text (JArr xs)) \<le> n"
    then obtain m where m: "n = Suc m" by (cases n) (auto simp: lit)
    show "parse_value n (element_text (JArr xs) @ r) = Some (json_clean (JArr xs), r)"
    proof (cases xs)
      case Nil
      then show ?thesis unfolding lit using m by simp
    next
      case (Cons y ys)
      obtain c cs where y: "element_text y = c # cs" "\<not> json_space c" "c \<noteq> CHR '']''" using element_start [of y] by blast
      obtain ds where ds: "join_comma (map element_text xs) = c # ds"
        using join_comma_start [of "element_text y" "map element_text ys"] y Cons by auto
      have "parse_elements m (join_comma (map element_text xs) @ CHR '']'' # r) [] = Some (JArr ([] @ map json_clean xs), r)"
        using n [unfolded lit] m Cons xs by (intro parse_elements_back) simp_all
      then show ?thesis unfolding lit ds using m y by simp
    qed
  qed
next
  case (JObj kvs)
  define kept where "kept = filter (\<lambda>(k, x). \<not> json_absent x) kvs"
  have pb: "\<And>k x. (k, x) \<in> set kept \<Longrightarrow> parses_back x" using JObj by (fastforce simp: kept_def)
  have dist: "distinct (map fst kept)" using JObj.prems by (auto simp: kept_def distinct_map_filter)
  have lit: "element_text (JObj kvs) = CHR ''{'' # join_comma (map (\<lambda>(k, x). member_text k x) kept) @ ''}''"
    by (simp add: element_text_def [of "JObj kvs"] present_members kept_def)
  have clean: "json_clean (JObj kvs) = JObj (map (\<lambda>(k, x). (k, json_clean x)) kept)"
    by (simp add: present_members kept_def)
  show ?case unfolding parses_back_def
  proof (intro allI impI)
    fix n r
    assume n: "2 * length (element_text (JObj kvs)) \<le> n"
    then obtain m where m: "n = Suc m" by (cases n) (auto simp: lit)
    show "parse_value n (element_text (JObj kvs) @ r) = Some (json_clean (JObj kvs), r)"
    proof (cases kept)
      case Nil
      then show ?thesis unfolding clean lit using m by simp
    next
      case (Cons y ys)
      have q: "dquote \<noteq> CHR ''}''" by code_simp
      obtain ds where ds: "join_comma (map (\<lambda>(k, x). member_text k x) kept) = dquote # ds"
        using join_comma_start [of "case y of (k, x) \<Rightarrow> member_text k x" "map (\<lambda>(k, x). member_text k x) ys"] Cons
        by (cases y) (auto simp: json_string_def)
      have "parse_members m (join_comma (map (\<lambda>(k, x). member_text k x) kept) @ CHR ''}'' # r) []
          = Some (JObj ([] @ map (\<lambda>(k, x). (k, json_clean x)) kept), r)"
        using n [unfolded lit] m Cons pb dist by (intro parse_members_back) simp_all
      then show ?thesis unfolding clean lit ds using m q by simp
    qed
  qed
qed

lemma js_roundtrip:
  assumes "jsval_wf v" and "js_stringify v = Some t"
  shows "js_parse t = Some (json_clean v)"
proof -
  have "element_text v = t" using assms(2) by (simp add: element_text_def)
  moreover have "parses_back v" using assms(1) by (rule parses_back_all)
  ultimately have "parse_value (2 * length t) (t @ []) = Some (json_clean v, [])"
    unfolding parses_back_def using ends_marks(4) by blast
  then show ?thesis by (simp add: js_parse_def)
qed

section \<open>Values that a text represents\<close>

definition json_value :: "jsval \<Rightarrow> bool" where
  "json_value v \<longleftrightarrow> jsval_wf v \<and> json_clean v = v \<and> \<not> json_absent v"

lemma absent_clean [simp]: "\<not> json_absent (json_clean v)"
  by (cases v) auto

lemma concat_members:
  "concat (map (\<lambda>(k, x). if json_absent x then [] else [(k, f x)]) kvs)
    = map (\<lambda>(k, x). (k, f x)) (filter (\<lambda>(k, x). \<not> json_absent x) kvs)"
  by (induction kvs) auto

lemma clean_obj: "json_clean (JObj kvs) = JObj (map (\<lambda>(k, x). (k, json_clean x)) (filter (\<lambda>(k, x). \<not> json_absent x) kvs))"
  by (simp add: concat_members)

lemma clean_idem [simp]: "json_clean (json_clean v) = json_clean v"
proof (induction v)
  case (JObj kvs)
  have "map (\<lambda>(k, x). (k, json_clean (json_clean x))) (filter (\<lambda>(k, x). \<not> json_absent x) kvs)
      = map (\<lambda>(k, x). (k, json_clean x)) (filter (\<lambda>(k, x). \<not> json_absent x) kvs)"
    using JObj by (intro map_cong) (fastforce)+
  then show ?case by (simp add: concat_members filter_map comp_def case_prod_beta)
qed (simp_all cong: map_cong)

lemma wf_clean: "jsval_wf v \<Longrightarrow> jsval_wf (json_clean v)"
proof (induction v)
  case (JObj kvs)
  then show ?case by (fastforce simp: concat_members comp_def case_prod_beta distinct_map_filter)
qed simp_all

lemma json_value_clean [simp]: "jsval_wf v \<Longrightarrow> json_value (json_clean v)"
  by (simp add: json_value_def wf_clean)

lemma stringify_obj: "js_stringify (JObj kvs) =
    Some (CHR ''{'' # join_comma (map (\<lambda>(k, x). member_text k x) (filter (\<lambda>(k, x). \<not> json_absent x) kvs)) @ ''}'')"
  by (simp add: present_members)

lemma stringify_clean: "\<not> json_absent v \<Longrightarrow> js_stringify (json_clean v) = js_stringify v"
proof (induction v)
  case (JArr xs)
  have "element_text (json_clean x) = element_text x" if "x \<in> set xs" for x
    using JArr.IH [OF that] by (cases "json_absent x") (cases x; simp add: element_text_def)+
  then show ?case by (simp add: element_text_def comp_def cong: map_cong)
next
  case (JObj kvs)
  let ?kept = "filter (\<lambda>(k, x). \<not> json_absent x) kvs"
  have "map (\<lambda>(k, x). member_text k (json_clean x)) ?kept = map (\<lambda>(k, x). member_text k x) ?kept"
    using JObj.IH by (intro map_cong) (fastforce simp: element_text_def)+
  moreover have "filter (\<lambda>(k, x). \<not> json_absent x) (map (\<lambda>(k, x). (k, json_clean x)) ?kept)
      = map (\<lambda>(k, x). (k, json_clean x)) ?kept"
    by (auto intro!: filter_True)
  moreover have "map (\<lambda>(k, x). member_text k x) (map (\<lambda>(k, x). (k, json_clean x)) ?kept)
      = map (\<lambda>(k, x). member_text k (json_clean x)) ?kept"
    by (simp add: comp_def case_prod_beta)
  ultimately show ?case unfolding clean_obj stringify_obj by (simp only:)
qed simp_all

lemma js_stringify_inj:
  assumes "json_value v" "json_value w" "js_stringify v = js_stringify w"
  shows "v = w"
proof -
  obtain t where t: "js_stringify v = Some t" using assms(1) stringify_absent by (fastforce simp: json_value_def)
  have "js_parse t = Some v" using js_roundtrip [OF _ t] assms(1) by (simp add: json_value_def)
  moreover have "js_parse t = Some w" using js_roundtrip [of w t] assms(2,3) t by (simp add: json_value_def)
  ultimately show ?thesis by simp
qed

lemma json_of_text: "\<not> json_absent v \<Longrightarrow> js_stringify v = Some (json_of v)"
  using stringify_absent [of v] by (auto simp: json_of_def split: option.split)

lemma json_of_clean [simp]: "\<not> json_absent v \<Longrightarrow> json_of (json_clean v) = json_of v"
  by (simp add: json_of_def stringify_clean)

lemma parse_json_of: "jsval_wf v \<Longrightarrow> \<not> json_absent v \<Longrightarrow> js_parse (json_of v) = Some (json_clean v)"
  by (rule js_roundtrip) (simp_all add: json_of_text)

lemma parse_json_value: "json_value v \<Longrightarrow> js_parse (json_of v) = Some v"
  by (simp add: json_value_def parse_json_of)

lemma json_value_inj: "json_value v \<Longrightarrow> json_value w \<Longrightarrow> json_of v = json_of w \<longleftrightarrow> v = w"
  by (metis parse_json_value option.inject)

lemma json_value_member: "json_value (JObj kvs) \<Longrightarrow> (k, x) \<in> set kvs \<Longrightarrow> json_value x"
proof -
  assume v: "json_value (JObj kvs)" and m: "(k, x) \<in> set kvs"
  from v have c: "map (\<lambda>(k, x). (k, json_clean x)) (filter (\<lambda>(k, x). \<not> json_absent x) kvs) = kvs"
    by (simp add: json_value_def clean_obj del: json_clean.simps)
  then have "length (filter (\<lambda>(k, x). \<not> json_absent x) kvs) = length kvs" by (metis length_map)
  then have f: "filter (\<lambda>(k, x). \<not> json_absent x) kvs = kvs" by (metis filter_True length_filter_less less_irrefl)
  with c have "map (\<lambda>(k, x). (k, json_clean x)) kvs = kvs" by simp
  then have "\<forall>kx \<in> set kvs. (case kx of (k, x) \<Rightarrow> (k, json_clean x)) = kx"
    by (metis map_eq_conv list.map_ident)
  with m have "json_clean x = x" by auto
  moreover have "\<not> json_absent x" using m by (subst (asm) f [symmetric]) simp
  moreover have "jsval_wf x" using v m by (auto simp: json_value_def)
  ultimately show ?thesis by (simp add: json_value_def)
qed

lemma json_value_get: "json_value (JObj kvs) \<Longrightarrow> map_get kvs k = Some x \<Longrightarrow> json_value x"
  by (rule json_value_member [OF _ map_of_SomeD])

lemma json_value_wf: "json_value (JObj kvs) \<Longrightarrow> map_wf kvs"
  by (simp add: json_value_def map_wf_def)

end
