(* ===== verification/ReadModelStore.thy ===== *)
theory ReadModelStore
  imports Json RefPath IdMapping
begin

text \<open>
  The read model store, \<^verbatim>\<open>packages/client/src/core/read-model-store/ReadModelStore.ts\<close>: the server
  baseline of each row, the local changes laid over it, and the batched write \<open>commit\<close>.  The store has
  no state of its own: its operations work on the storage and look ids up in the id mapping store.  The
  data of a read model are objects, so they have a JSON text; a stored text that does not parse makes
  the operation throw.  The clock is an argument, events and junction updates are results.
\<close>

section \<open>Rows and outcomes\<close>

datatype writeOutcome = RowCreated | RowUpdated | RowDeleted | RowUnchanged

record revisionMeta =
  meta_revision :: int
  meta_position :: "int option"

record readModel =
  rdm_id :: string
  rdm_collection :: string
  rdm_data :: jsval
  rdm_hasLocalChanges :: bool
  rdm_serverData :: "jsval option"
  rdm_updatedAt :: int
  rdm_revision :: "int option"
  rdm_position :: "int option"
  rdm_clientMetadata :: "clientMetadata option"

datatype storeError = SyntaxError string | MappingError string | JunctionPath pathError

definition parse_text :: "string \<Rightarrow> storeError + jsval" where
  "parse_text t = (case js_parse t of Some v \<Rightarrow> Inr v | None \<Rightarrow> Inl (SyntaxError t))"

definition opt_parse :: "string option \<Rightarrow> storeError + jsval option" where
  "opt_parse t = (case truthy_text t of None \<Rightarrow> Inr None | Some s \<Rightarrow> map_result Some (parse_text s))"

definition recordToReadModel :: "readModelRecord \<Rightarrow> storeError + readModel" where
  "recordToReadModel r =
    bind_result (parse_text (rm_effectiveData r)) (\<lambda>data.
    map_result (\<lambda>server. \<lparr>rdm_id = rm_id r, rdm_collection = rm_collection r, rdm_data = data,
        rdm_hasLocalChanges = rm_hasLocalChanges r, rdm_serverData = server, rdm_updatedAt = rm_updatedAt r,
        rdm_revision = rm_revision r, rdm_position = rm_position r, rdm_clientMetadata = rm_clientMetadata r\<rparr>)
      (opt_parse (rm_serverData r)))"

section \<open>Reading\<close>

definition mapping_of :: "'c idMappingStore \<Rightarrow> string \<Rightarrow> storeError + commandIdMappingRecord option" where
  "mapping_of ms i = (case ims_get ms i of Inl e \<Rightarrow> Inl (MappingError e) | Inr r \<Rightarrow> Inr r)"

text \<open>The id is the string of an \<open>EntityId\<close>.\<close>

definition getById :: "'c idMappingStore \<Rightarrow> 'c inMemoryStorage \<Rightarrow> string \<Rightarrow> string \<Rightarrow> storeError + readModel option" where
  "getById ms st collection i =
    (case getReadModel st collection i of
       Some r \<Rightarrow> map_result Some (recordToReadModel r)
     | None \<Rightarrow>
         bind_result (mapping_of ms i) (\<lambda>mapping.
           case mapping of
             None \<Rightarrow> Inr None
           | Some m \<Rightarrow>
               (case getReadModel st collection (map_serverId m) of
                  None \<Rightarrow> Inr None
                | Some r \<Rightarrow> map_result Some (recordToReadModel r))))"

definition getByIds :: "'c inMemoryStorage \<Rightarrow> string \<Rightarrow> string list \<Rightarrow> storeError + (string, readModel) jsmap" where
  "getByIds st collection ids =
    fold_result (\<lambda>i m. case getReadModel st collection i of
        None \<Rightarrow> Inr m
      | Some r \<Rightarrow> map_result (\<lambda>d. map_set i d m) (recordToReadModel r)) ids []"

definition getManyByCollectionIds ::
  "'c inMemoryStorage \<Rightarrow> (string \<times> string) list \<Rightarrow> storeError + (string, readModel) jsmap" where
  "getManyByCollectionIds st pairs =
    fold_result (\<lambda>(c, i) m. case getReadModel st c i of
        None \<Rightarrow> Inr m
      | Some r \<Rightarrow> map_result (\<lambda>d. map_set (c @ '':'' @ i) d m) (recordToReadModel r)) pairs []"

definition map_results :: "('a \<Rightarrow> 'e + 'b) \<Rightarrow> 'a list \<Rightarrow> 'e + 'b list" where
  "map_results f xs = fold_result (\<lambda>x ys. map_result (\<lambda>y. ys @ [y]) (f x)) xs []"

definition rms_list ::
  "jsEngine \<Rightarrow> sortResolverLookup \<Rightarrow> 'c inMemoryStorage \<Rightarrow> string \<Rightarrow> listOptions \<Rightarrow> bool \<Rightarrow> storeError + readModel list" where
  "rms_list js resolveColumn st collection options localChangesOnly =
    map_result (\<lambda>models. if localChangesOnly then filter rdm_hasLocalChanges models else models)
      (map_results recordToReadModel (getReadModelsByCollection js resolveColumn st collection options))"

definition getLocalChanges :: "'c inMemoryStorage \<Rightarrow> storeError + readModel list" where
  "getLocalChanges st =
    map_results recordToReadModel
      (concat (map (\<lambda>k. filter rm_hasLocalChanges (getReadModelsByCacheKey st (ck_key k))) (getAllCacheKeys st)))"

definition rms_exists :: "'c inMemoryStorage \<Rightarrow> string \<Rightarrow> string \<Rightarrow> bool" where
  "rms_exists st collection i \<longleftrightarrow> getReadModel st collection i \<noteq> None"

definition rms_count ::
  "'c inMemoryStorage \<Rightarrow> string \<Rightarrow> string option \<Rightarrow> (readModelRecord \<Rightarrow> bool) option \<Rightarrow> nat" where
  "rms_count st collection cacheKey predicate = countReadModels st collection cacheKey predicate"

definition getRevisionMap :: "'c inMemoryStorage \<Rightarrow> string \<Rightarrow> (string \<times> int) list" where
  "getRevisionMap st collection = getReadModelRevisions st collection"

section \<open>The three-way merge\<close>

text \<open>\<open>n in v\<close>: own properties and those of the built-in prototypes.\<close>

fun js_in :: "string \<Rightarrow> jsval \<Rightarrow> bool" where
  "js_in n (JObj kvs) = (map_has kvs n \<or> n \<in> set object_proto)"
| "js_in n (JArr xs) = ((case array_index n of Some i \<Rightarrow> i < length xs | None \<Rightarrow> False) \<or> n = ''length'' \<or>
    n \<in> set array_proto \<or> n \<in> set object_proto)"
| "js_in n v = False"

text \<open>\<open>o[n] = x\<close> on a fresh object: assigning to \<open>__proto__\<close> makes no property.\<close>

definition assign_prop :: "string \<Rightarrow> jsval \<Rightarrow> (string, jsval) jsmap \<Rightarrow> (string, jsval) jsmap" where
  "assign_prop n x m = (if n = ''__proto__'' then m else map_set n x m)"

definition getObjectDiff :: "jsval \<Rightarrow> jsval \<Rightarrow> (string, jsval) jsmap" where
  "getObjectDiff baseline current =
    (let changed = fold (\<lambda>(n, x) diff.
           if \<not> js_in n baseline \<or> js_stringify x \<noteq> js_stringify (js_member baseline n)
           then assign_prop n x diff else diff) (own_entries current) []
     in fold (\<lambda>n diff. if \<not> js_in n current then assign_prop n JUndef diff else diff)
          (map_keys (own_entries baseline)) changed)"

definition overlay :: "(string, jsval) jsmap \<Rightarrow> (string, jsval) jsmap \<Rightarrow> (string, jsval) jsmap" where
  "overlay localChanges merged =
    fold (\<lambda>(n, x) m. if x = JUndef then map_delete n m else assign_prop n x m) localChanges merged"

text \<open>The effective text and the local flag under a new server text \<open>dataJson\<close> of the object \<open>entries\<close>.\<close>

definition effective_over ::
  "readModelRecord option \<Rightarrow> (string, jsval) jsmap \<Rightarrow> string \<Rightarrow> storeError + string \<times> bool" where
  "effective_over existing entries dataJson =
    (case existing of
       None \<Rightarrow> Inr (dataJson, False)
     | Some r \<Rightarrow>
         if \<not> rm_hasLocalChanges r then Inr (dataJson, False)
         else bind_result (parse_text (rm_effectiveData r)) (\<lambda>localData.
           case truthy_text (rm_serverData r) of
             None \<Rightarrow> Inr (rm_effectiveData r, True)
           | Some server \<Rightarrow>
               map_result (\<lambda>oldServer.
                 (json_of (JObj (overlay (getObjectDiff oldServer localData) entries)),
                  getObjectDiff oldServer localData \<noteq> []))
               (parse_text server)))"

definition spread_over :: "jsval \<Rightarrow> jsval \<Rightarrow> (string, jsval) jsmap" where
  "spread_over base changes = fold (\<lambda>(n, x). map_set n x) (own_entries changes) (own_entries base)"

definition first_some :: "'a option \<Rightarrow> 'a option \<Rightarrow> 'a option" where
  "first_some a b = (case a of Some x \<Rightarrow> Some x | None \<Rightarrow> b)"

definition readModelToRecord ::
  "string \<Rightarrow> string \<Rightarrow> string \<Rightarrow> readModelRecord option \<Rightarrow> string option \<Rightarrow> string \<Rightarrow> bool \<Rightarrow> int \<Rightarrow>
   int option \<Rightarrow> int option \<Rightarrow> readModelRecord" where
  "readModelToRecord i collection cacheKey existing serverData effectiveData hasLocalChanges updatedAt revision position =
    \<lparr>rm_id = i, rm_collection = collection,
     rm_cacheKeys = (case existing of Some r \<Rightarrow> rm_cacheKeys r | None \<Rightarrow> [cacheKey]),
     rm_serverData = first_some serverData (Option.bind existing rm_serverData),
     rm_effectiveData = effectiveData, rm_hasLocalChanges = hasLocalChanges, rm_updatedAt = updatedAt,
     rm_revision = first_some revision (Option.bind existing rm_revision),
     rm_position = first_some position (Option.bind existing rm_position),
     rm_clientMetadata = Option.bind existing rm_clientMetadata\<rparr>"

section \<open>Single writes\<close>

definition save_row ::
  "readModelRecord option \<Rightarrow> readModelRecord \<Rightarrow> string \<Rightarrow> 'c inMemoryStorage \<Rightarrow> writeOutcome \<times> 'c inMemoryStorage" where
  "save_row existing r cacheKey st =
    (let st1 = saveReadModel r st
     in case existing of
          None \<Rightarrow> (RowCreated, st1)
        | Some _ \<Rightarrow> (RowUpdated, addCacheKeysToReadModel (rm_collection r) (rm_id r) [cacheKey] st1))"

definition server_write ::
  "int \<Rightarrow> string \<Rightarrow> string \<Rightarrow> jsval \<Rightarrow> string \<Rightarrow> revisionMeta option \<Rightarrow> 'c inMemoryStorage \<Rightarrow>
   storeError + writeOutcome \<times> 'c inMemoryStorage" where
  "server_write now collection i data cacheKey meta st =
    (let existing = getReadModel st collection i;
         dataJson = json_of data
     in map_result (\<lambda>(effectiveData, hasLocalChanges).
          let revision = first_some (map_option meta_revision meta) (Option.bind existing rm_revision);
              position = first_some (Option.bind meta meta_position) (Option.bind existing rm_position)
          in case existing of
               Some r \<Rightarrow>
                 if rm_serverData r = Some dataJson \<and> rm_effectiveData r = effectiveData \<and>
                    rm_hasLocalChanges r = hasLocalChanges \<and> rm_revision r = revision \<and> rm_position r = position
                 then (RowUnchanged, st)
                 else save_row existing (readModelToRecord i collection cacheKey existing (Some dataJson) effectiveData
                        hasLocalChanges now revision position) cacheKey st
             | None \<Rightarrow> save_row existing (readModelToRecord i collection cacheKey existing (Some dataJson) effectiveData
                        hasLocalChanges now revision position) cacheKey st)
        (effective_over existing (own_entries data) dataJson))"

definition setServerData ::
  "int \<Rightarrow> string \<Rightarrow> string \<Rightarrow> jsval \<Rightarrow> string \<Rightarrow> revisionMeta option \<Rightarrow> 'c inMemoryStorage \<Rightarrow>
   storeError + writeOutcome \<times> 'c inMemoryStorage" where
  "setServerData now collection i data cacheKey meta st = server_write now collection i data cacheKey meta st"

text \<open>The server baseline with the partial data spread over it.\<close>

definition merged_baseline :: "readModelRecord option \<Rightarrow> jsval \<Rightarrow> storeError + jsval" where
  "merged_baseline existing data =
    (case truthy_text (Option.bind existing rm_serverData) of
       None \<Rightarrow> Inr (JObj (spread_over (JObj []) data))
     | Some server \<Rightarrow> map_result (\<lambda>base. JObj (spread_over base data)) (parse_text server))"

definition mergeServerData ::
  "int \<Rightarrow> string \<Rightarrow> string \<Rightarrow> jsval \<Rightarrow> string \<Rightarrow> revisionMeta option \<Rightarrow> 'c inMemoryStorage \<Rightarrow>
   storeError + writeOutcome \<times> 'c inMemoryStorage" where
  "mergeServerData now collection i data cacheKey meta st =
    bind_result (merged_baseline (getReadModel st collection i) data)
      (\<lambda>newServerData. server_write now collection i newServerData cacheKey meta st)"

definition local_write ::
  "int \<Rightarrow> string \<Rightarrow> string \<Rightarrow> string \<Rightarrow> string \<Rightarrow> 'c inMemoryStorage \<Rightarrow> writeOutcome \<times> 'c inMemoryStorage" where
  "local_write now collection i effectiveData cacheKey st =
    (let existing = getReadModel st collection i;
         r' = readModelToRecord i collection cacheKey existing None effectiveData True now None None
     in case existing of
          Some r \<Rightarrow> if rm_effectiveData r = effectiveData \<and> rm_hasLocalChanges r then (RowUnchanged, st)
                    else save_row existing r' cacheKey st
        | None \<Rightarrow> save_row existing r' cacheKey st)"

definition setLocalData ::
  "int \<Rightarrow> string \<Rightarrow> string \<Rightarrow> jsval \<Rightarrow> string \<Rightarrow> 'c inMemoryStorage \<Rightarrow> writeOutcome \<times> 'c inMemoryStorage" where
  "setLocalData now collection i data cacheKey st = local_write now collection i (json_of data) cacheKey st"

definition current_data :: "readModelRecord option \<Rightarrow> storeError + jsval" where
  "current_data existing = (case existing of None \<Rightarrow> Inr (JObj []) | Some r \<Rightarrow> parse_text (rm_effectiveData r))"

definition applyLocalChanges ::
  "int \<Rightarrow> string \<Rightarrow> string \<Rightarrow> jsval \<Rightarrow> string \<Rightarrow> 'c inMemoryStorage \<Rightarrow>
   storeError + writeOutcome \<times> 'c inMemoryStorage" where
  "applyLocalChanges now collection i changes cacheKey st =
    map_result (\<lambda>currentData. local_write now collection i (json_of (JObj (spread_over currentData changes))) cacheKey st)
      (current_data (getReadModel st collection i))"

definition clearLocalChanges :: "int \<Rightarrow> string \<Rightarrow> string \<Rightarrow> 'c inMemoryStorage \<Rightarrow> 'c inMemoryStorage" where
  "clearLocalChanges now collection i st =
    (case getReadModel st collection i of
       None \<Rightarrow> st
     | Some r \<Rightarrow>
         if \<not> rm_hasLocalChanges r then st
         else (case rm_serverData r of
            None \<Rightarrow> deleteReadModel collection i st
          | Some server \<Rightarrow> saveReadModel
              (r\<lparr>rm_effectiveData := server, rm_hasLocalChanges := False, rm_updatedAt := now\<rparr>) st))"

definition setClientMetadata :: "string \<Rightarrow> string \<Rightarrow> clientMetadata \<Rightarrow> 'c inMemoryStorage \<Rightarrow> 'c inMemoryStorage" where
  "setClientMetadata collection i metadata st =
    (case getReadModel st collection i of
       None \<Rightarrow> st
     | Some r \<Rightarrow> saveReadModel (r\<lparr>rm_clientMetadata := Some metadata\<rparr>) st)"

definition rms_delete :: "string \<Rightarrow> string \<Rightarrow> 'c inMemoryStorage \<Rightarrow> writeOutcome \<times> 'c inMemoryStorage" where
  "rms_delete collection i st =
    (case getReadModel st collection i of
       None \<Rightarrow> (RowUnchanged, st)
     | Some _ \<Rightarrow> (RowDeleted, deleteReadModel collection i st))"

section \<open>Migrating ids\<close>

definition patchIdField :: "string \<Rightarrow> string \<Rightarrow> string \<Rightarrow> storeError + string" where
  "patchIdField serialized fromId toId =
    map_result (\<lambda>parsed.
      if \<not> is_object parsed then serialized
      else if \<not> js_in ''id'' parsed then serialized
      else if entityIdToString (js_member parsed ''id'') \<noteq> JStr fromId then serialized
      else json_of (spread_set parsed ''id'' (JStr toId)))
    (parse_text serialized)"

record entityIdMigration =
  eim_collection :: string
  eim_fromId :: string
  eim_toId :: string

text \<open>The event \<open>readmodel:id-reconciled\<close>: collection, client id, server id.\<close>

type_synonym idReconciled = "string \<times> string \<times> string"

definition migration_key :: "entityIdMigration \<Rightarrow> string" where
  "migration_key e = eim_collection e @ '':'' @ eim_fromId e"

definition migration_params ::
  "int \<Rightarrow> (string, readModelRecord) jsmap \<Rightarrow> (string, readModelRecord) jsmap \<Rightarrow> entityIdMigration \<Rightarrow>
   storeError + migrateReadModelIdParams list" where
  "migration_params now preloaded fetched e =
    (case first_some (map_get preloaded (migration_key e)) (map_get fetched (migration_key e)) of
       None \<Rightarrow> Inr []
     | Some r \<Rightarrow>
         bind_result (patchIdField (rm_effectiveData r) (eim_fromId e) (eim_toId e)) (\<lambda>effective.
         map_result (\<lambda>server.
           [\<lparr>mig_collection = eim_collection e, mig_fromId = eim_fromId e, mig_toId = eim_toId e,
             mig_effectiveData = effective, mig_serverData = server,
             mig_hasLocalChanges = (case server of None \<Rightarrow> False | Some s \<Rightarrow> s \<noteq> effective),
             mig_updatedAt = now\<rparr>])
           (case rm_serverData r of
              None \<Rightarrow> Inr None
            | Some s \<Rightarrow> map_result Some (patchIdField s (eim_fromId e) (eim_toId e)))))"

text \<open>An absent \<open>preloadedRecords\<close> is the empty map.\<close>

definition migrateEntityIds ::
  "int \<Rightarrow> entityIdMigration list \<Rightarrow> (string, readModelRecord) jsmap \<Rightarrow> 'c inMemoryStorage \<Rightarrow>
   storeError + idReconciled list \<times> 'c inMemoryStorage" where
  "migrateEntityIds now migrations preloaded st =
    (let entries = filter (\<lambda>e. eim_fromId e \<noteq> eim_toId e) migrations;
         toFetch = map (\<lambda>e. (eim_collection e, eim_fromId e)) (filter (\<lambda>e. \<not> map_has preloaded (migration_key e)) entries);
         fetched = (if toFetch \<noteq> [] then getReadModels st toFetch else [])
     in if entries = [] then Inr ([], st)
        else map_result (\<lambda>params.
            (map (\<lambda>p. (mig_collection p, mig_fromId p, mig_toId p)) (concat params),
             migrateReadModelIds (concat params) st))
          (map_results (migration_params now preloaded fetched) entries))"

section \<open>Mutations and their effect on a row\<close>

datatype readModelMutation =
    SetServer string string jsval string "revisionMeta option"
  | MergeServer string string jsval string "revisionMeta option"
  | SetLocal string string jsval string
  | ApplyLocal string string jsval string
  | DeleteRow string string
  | MigrateId string string string
  | SetClientMetadata string string clientMetadata

fun mut_collection :: "readModelMutation \<Rightarrow> string" where
  "mut_collection (SetServer c i d k m) = c"
| "mut_collection (MergeServer c i d k m) = c"
| "mut_collection (SetLocal c i d k) = c"
| "mut_collection (ApplyLocal c i d k) = c"
| "mut_collection (DeleteRow c i) = c"
| "mut_collection (MigrateId c f t) = c"
| "mut_collection (SetClientMetadata c i m) = c"

fun mut_id :: "readModelMutation \<Rightarrow> string" where
  "mut_id (SetServer c i d k m) = i"
| "mut_id (MergeServer c i d k m) = i"
| "mut_id (SetLocal c i d k) = i"
| "mut_id (ApplyLocal c i d k) = i"
| "mut_id (DeleteRow c i) = i"
| "mut_id (MigrateId c f t) = f"
| "mut_id (SetClientMetadata c i m) = i"

fun mut_cacheKey :: "readModelMutation \<Rightarrow> string option" where
  "mut_cacheKey (SetServer c i d k m) = Some k"
| "mut_cacheKey (MergeServer c i d k m) = Some k"
| "mut_cacheKey (SetLocal c i d k) = Some k"
| "mut_cacheKey (ApplyLocal c i d k) = Some k"
| "mut_cacheKey _ = None"

definition computed_record ::
  "readModelRecord option \<Rightarrow> string \<Rightarrow> string \<Rightarrow> string \<Rightarrow> string option \<Rightarrow> string \<Rightarrow> bool \<Rightarrow>
   revisionMeta option \<Rightarrow> int \<Rightarrow> readModelRecord" where
  "computed_record existing collection i cacheKey serverData effectiveData hasLocalChanges meta now =
    \<lparr>rm_id = i, rm_collection = collection,
     rm_cacheKeys = (case existing of Some r \<Rightarrow> rm_cacheKeys r | None \<Rightarrow> [cacheKey]),
     rm_serverData = serverData, rm_effectiveData = effectiveData, rm_hasLocalChanges = hasLocalChanges,
     rm_updatedAt = now,
     rm_revision = first_some (map_option meta_revision meta) (Option.bind existing rm_revision),
     rm_position = first_some (Option.bind meta meta_position) (Option.bind existing rm_position),
     rm_clientMetadata = Option.bind existing rm_clientMetadata\<rparr>"

definition computeSetServerRecord ::
  "readModelRecord option \<Rightarrow> string \<Rightarrow> string \<Rightarrow> jsval \<Rightarrow> string \<Rightarrow> revisionMeta option \<Rightarrow> int \<Rightarrow>
   storeError + readModelRecord" where
  "computeSetServerRecord existing collection i data cacheKey meta now =
    map_result (\<lambda>(effectiveData, hasLocalChanges).
        computed_record existing collection i cacheKey (Some (json_of data)) effectiveData hasLocalChanges meta now)
      (effective_over existing (own_entries data) (json_of data))"

definition computeMergeServerRecord ::
  "readModelRecord option \<Rightarrow> string \<Rightarrow> string \<Rightarrow> jsval \<Rightarrow> string \<Rightarrow> revisionMeta option \<Rightarrow> int \<Rightarrow>
   storeError + readModelRecord" where
  "computeMergeServerRecord existing collection i data cacheKey meta now =
    bind_result (merged_baseline existing data) (\<lambda>newServerData.
      computeSetServerRecord existing collection i newServerData cacheKey meta now)"

definition computeSetLocalRecord ::
  "readModelRecord option \<Rightarrow> string \<Rightarrow> string \<Rightarrow> jsval \<Rightarrow> string \<Rightarrow> int \<Rightarrow> readModelRecord" where
  "computeSetLocalRecord existing collection i data cacheKey now =
    computed_record existing collection i cacheKey (Option.bind existing rm_serverData) (json_of data) True None now"

definition computeApplyLocalRecord ::
  "readModelRecord option \<Rightarrow> string \<Rightarrow> string \<Rightarrow> jsval \<Rightarrow> string \<Rightarrow> int \<Rightarrow> storeError + readModelRecord" where
  "computeApplyLocalRecord existing collection i data cacheKey now =
    map_result (\<lambda>currentData. computed_record existing collection i cacheKey (Option.bind existing rm_serverData)
        (json_of (JObj (spread_over currentData data))) True None now)
      (current_data existing)"

record rowState =
  row_collection :: string
  row_id :: string
  row_baseline :: "readModelRecord option"
  row_current :: "readModelRecord option"
  row_cacheKeysSeen :: "string list"
  row_touched :: bool

text \<open>The new current record of a row, \<open>None\<close> for a deleted one, or nothing where the row is not touched.\<close>

fun row_write :: "int \<Rightarrow> string \<Rightarrow> readModelRecord option \<Rightarrow> readModelMutation \<Rightarrow> storeError + readModelRecord option option" where
  "row_write now i existing (SetServer c _ d k m) =
    map_result (\<lambda>r. Some (Some r)) (computeSetServerRecord existing c i d k m now)"
| "row_write now i existing (MergeServer c _ d k m) =
    map_result (\<lambda>r. Some (Some r)) (computeMergeServerRecord existing c i d k m now)"
| "row_write now i existing (SetLocal c _ d k) = Inr (Some (Some (computeSetLocalRecord existing c i d k now)))"
| "row_write now i existing (ApplyLocal c _ d k) =
    map_result (\<lambda>r. Some (Some r)) (computeApplyLocalRecord existing c i d k now)"
| "row_write now i existing (DeleteRow c _) = Inr (if existing \<noteq> None then Some None else None)"
| "row_write now i existing (SetClientMetadata c _ m) =
    Inr (map_option (\<lambda>r. Some (r\<lparr>rm_clientMetadata := Some m\<rparr>)) existing)"
| "row_write now i existing (MigrateId c _ _) = Inr None"

definition fold_mutation ::
  "int \<Rightarrow> (string \<Rightarrow> readModelRecord option) \<Rightarrow> (string, string) jsmap \<Rightarrow> readModelMutation \<Rightarrow>
   (string, rowState) jsmap \<Rightarrow> storeError + (string, rowState) jsmap" where
  "fold_mutation now baselineOf idRemap op rows =
    (let i = case_option (mut_id op) id (map_get idRemap (mut_collection op @ '':'' @ mut_id op));
         rowKey = mut_collection op @ '':'' @ i;
         state = (case map_get rows rowKey of
             Some s \<Rightarrow> s
           | None \<Rightarrow> \<lparr>row_collection = mut_collection op, row_id = i, row_baseline = baselineOf rowKey,
               row_current = baselineOf rowKey, row_cacheKeysSeen = [], row_touched = False\<rparr>);
         state1 = (case mut_cacheKey op of
             Some k \<Rightarrow> state\<lparr>row_cacheKeysSeen := set_add k (row_cacheKeysSeen state)\<rparr> | None \<Rightarrow> state)
     in map_result (\<lambda>written. map_set rowKey
            (case written of None \<Rightarrow> state1 | Some r \<Rightarrow> state1\<lparr>row_current := r, row_touched := True\<rparr>) rows)
          (row_write now i (row_current state1) op))"

section \<open>Committing a batch\<close>

record classifiedRows =
  cls_created :: "string list"
  cls_updated :: "string list"
  cls_deleted :: "string list"
  cls_cacheKeys :: "string list"

type_synonym commitClassification = "(string, classifiedRows) jsmap"

definition bucketFor :: "string \<Rightarrow> commitClassification \<Rightarrow> classifiedRows" where
  "bucketFor collection cls = (case map_get cls collection of
     Some b \<Rightarrow> b | None \<Rightarrow> \<lparr>cls_created = [], cls_updated = [], cls_deleted = [], cls_cacheKeys = []\<rparr>)"

definition in_bucket ::
  "string \<Rightarrow> (classifiedRows \<Rightarrow> classifiedRows) \<Rightarrow> commitClassification \<Rightarrow> commitClassification" where
  "in_bucket collection f cls = map_set collection (f (bucketFor collection cls)) cls"

definition classify_migration ::
  "(string, readModelRecord) jsmap \<Rightarrow> entityIdMigration \<Rightarrow> commitClassification \<Rightarrow> commitClassification" where
  "classify_migration preloaded e =
    in_bucket (eim_collection e) (\<lambda>b. b\<lparr>cls_deleted := cls_deleted b @ [eim_fromId e],
      cls_created := cls_created b @ [eim_toId e],
      cls_cacheKeys := (case map_get preloaded (migration_key e) of
          Some r \<Rightarrow> fold set_add (rm_cacheKeys r) (cls_cacheKeys b) | None \<Rightarrow> cls_cacheKeys b)\<rparr>)"

definition recordsEqual :: "readModelRecord \<Rightarrow> readModelRecord \<Rightarrow> bool" where
  "recordsEqual a b \<longleftrightarrow> rm_id a = rm_id b \<and> rm_collection a = rm_collection b \<and>
    rm_serverData a = rm_serverData b \<and> rm_effectiveData a = rm_effectiveData b \<and>
    rm_hasLocalChanges a = rm_hasLocalChanges b \<and> rm_revision a = rm_revision b \<and>
    rm_position a = rm_position b \<and> rm_clientMetadata a = rm_clientMetadata b"

record commitPlan =
  plan_save :: "readModelRecord list"
  plan_delete :: "(string \<times> string) list"
  plan_associate :: "(string \<times> string \<times> string list) list"
  plan_class :: commitClassification

definition row_new_keys :: "rowState \<Rightarrow> readModelRecord \<Rightarrow> string list" where
  "row_new_keys s current =
    filter (\<lambda>k. k \<notin> set (case_option [] rm_cacheKeys (row_baseline s)) \<and> k \<notin> set (rm_cacheKeys current))
      (row_cacheKeysSeen s)"

definition plan_deletion :: "bool \<Rightarrow> rowState \<Rightarrow> commitPlan \<Rightarrow> commitPlan" where
  "plan_deletion isMigrateTo s plan =
    (case row_baseline s of
       None \<Rightarrow> plan
     | Some base \<Rightarrow>
         plan\<lparr>plan_delete := plan_delete plan @ [(row_collection s, row_id s)],
           plan_class := in_bucket (row_collection s) (\<lambda>b.
             if isMigrateTo then b\<lparr>cls_created := remove1 (row_id s) (cls_created b)\<rparr>
             else b\<lparr>cls_deleted := cls_deleted b @ [row_id s],
                    cls_cacheKeys := fold set_add (rm_cacheKeys base) (cls_cacheKeys b)\<rparr>) (plan_class plan)\<rparr>)"

definition plan_row :: "string list \<Rightarrow> string \<times> rowState \<Rightarrow> commitPlan \<Rightarrow> commitPlan" where
  "plan_row migrateTo = (\<lambda>(rowKey, s) plan.
    if \<not> row_touched s then plan
    else (case row_current s of
       None \<Rightarrow> plan_deletion (rowKey \<in> set migrateTo) s plan
     | Some current \<Rightarrow>
         (let newKeys = row_new_keys s current
          in if (case row_baseline s of Some base \<Rightarrow> recordsEqual base current \<and> newKeys = [] | None \<Rightarrow> False)
             then plan
             else plan\<lparr>plan_save := plan_save plan @ [current],
               plan_associate := (if newKeys \<noteq> [] then plan_associate plan @ [(row_collection s, row_id s, newKeys)]
                 else plan_associate plan),
               plan_class := in_bucket (row_collection s) (\<lambda>b.
                 (if rowKey \<in> set migrateTo then b
                  else if row_baseline s \<noteq> None then b\<lparr>cls_updated := cls_updated b @ [row_id s]\<rparr>
                  else b\<lparr>cls_created := cls_created b @ [row_id s]\<rparr>)
                 \<lparr>cls_cacheKeys := fold set_add newKeys (fold set_add (rm_cacheKeys current) (cls_cacheKeys b))\<rparr>)
                 (plan_class plan)\<rparr>)))"

record junctionStep =
  jct_name :: string
  jct_path :: string

record junctionSyncOp =
  jop_name :: string
  jop_parentId :: string
  jop_add :: "(string \<times> string option) list"
  jop_removeChildIds :: "string list"
  jop_removeAll :: bool

fun junction_pair :: "jsval \<Rightarrow> (jsval \<times> string option) list" where
  "junction_pair (JStr s) = [(JStr s, None)]"
| "junction_pair v = (if isEntityRef v then [(js_member v ''entityId'', Some (json_of v))] else [])"

text \<open>The entity id of a reference is a string.\<close>

definition string_of :: "jsval \<Rightarrow> string" where
  "string_of v = (case v of JStr s \<Rightarrow> s | _ \<Rightarrow> [])"

definition extractJunctionPairs :: "jsval \<Rightarrow> string \<Rightarrow> storeError + (string \<times> string option) list" where
  "extractJunctionPairs data path =
    (case getValuesAtPath data path of
       Inl e \<Rightarrow> Inl (JunctionPath e)
     | Inr vs \<Rightarrow> Inr (map (\<lambda>(v, t). (string_of v, t)) (concat (map junction_pair vs))))"

definition parseEffectiveData :: "readModelRecord option \<Rightarrow> storeError + jsval option" where
  "parseEffectiveData r = (case r of None \<Rightarrow> Inr None | Some x \<Rightarrow> map_result Some (parse_text (rm_effectiveData x)))"

definition junction_op ::
  "string \<Rightarrow> jsval option \<Rightarrow> jsval option \<Rightarrow> junctionStep \<Rightarrow> storeError + junctionSyncOp list" where
  "junction_op parentId oldData newData j =
    (case newData of
       None \<Rightarrow> Inr (if oldData = None then []
         else [\<lparr>jop_name = jct_name j, jop_parentId = parentId, jop_add = [], jop_removeChildIds = [], jop_removeAll = True\<rparr>])
     | Some new \<Rightarrow>
         bind_result (extractJunctionPairs new (jct_path j)) (\<lambda>newPairs.
         map_result (\<lambda>oldPairs.
           let oldIds = set_of_list (map fst oldPairs); newIds = map fst newPairs;
               add = filter (\<lambda>p. fst p \<notin> set oldIds) newPairs;
               removed = filter (\<lambda>i. i \<notin> set newIds) oldIds
           in if add = [] \<and> removed = [] then []
              else [\<lparr>jop_name = jct_name j, jop_parentId = parentId, jop_add = add, jop_removeChildIds = removed,
                     jop_removeAll = False\<rparr>])
           (case oldData of None \<Rightarrow> Inr [] | Some old \<Rightarrow> extractJunctionPairs old (jct_path j))))"

definition row_junction_ops ::
  "(string, junctionStep list) jsmap \<Rightarrow> rowState \<Rightarrow> storeError + junctionSyncOp list" where
  "row_junction_ops junctionsByParent s =
    (if \<not> row_touched s then Inr []
     else case map_get junctionsByParent (row_collection s) of
       None \<Rightarrow> Inr []
     | Some junctions \<Rightarrow>
         if junctions = [] then Inr []
         else bind_result (parseEffectiveData (row_baseline s)) (\<lambda>oldData.
              bind_result (parseEffectiveData (row_current s)) (\<lambda>newData.
              map_result concat (map_results (junction_op (row_id s) oldData newData) junctions))))"

definition junction_ops ::
  "(string, junctionStep list) jsmap \<Rightarrow> rowState list \<Rightarrow> storeError + junctionSyncOp list" where
  "junction_ops junctionsByParent rows =
    (if junctionsByParent = [] then Inr []
     else map_result concat (map_results (row_junction_ops junctionsByParent) rows))"

record commitResult =
  cmt_class :: commitClassification
  cmt_junctions :: "junctionSyncOp list"
  cmt_events :: "idReconciled list"

fun migration_of :: "readModelMutation \<Rightarrow> entityIdMigration list" where
  "migration_of (MigrateId c f t) = [\<lparr>eim_collection = c, eim_fromId = f, eim_toId = t\<rparr>]"
| "migration_of _ = []"

definition remapped :: "(string, string) jsmap \<Rightarrow> readModelMutation \<Rightarrow> string \<times> string" where
  "remapped idRemap op = (mut_collection op,
    case_option (mut_id op) id (map_get idRemap (mut_collection op @ '':'' @ mut_id op)))"

definition commit_rows ::
  "int \<Rightarrow> readModelMutation list \<Rightarrow> (string, string) jsmap \<Rightarrow> (string, readModelRecord) jsmap \<Rightarrow>
   'c inMemoryStorage \<Rightarrow> storeError + (string, rowState) jsmap" where
  "commit_rows now rowOps idRemap preloaded st =
    (let pairs = fold (\<lambda>op. map_set (fst (remapped idRemap op) @ '':'' @ snd (remapped idRemap op)) (remapped idRemap op)) rowOps [];
         toFetch = map snd (filter (\<lambda>(k, _). \<not> map_has preloaded k) pairs);
         fetched = (if toFetch \<noteq> [] then getReadModels st toFetch else [])
     in fold_result (fold_mutation now (\<lambda>k. first_some (map_get preloaded k) (map_get fetched k)) idRemap) rowOps [])"

text \<open>An error may come after a part of the writes: the storage is a result in any case.\<close>

definition commit ::
  "int \<Rightarrow> (string, junctionStep list) jsmap \<Rightarrow> readModelMutation list \<Rightarrow> (string, readModelRecord) jsmap \<Rightarrow>
   'c inMemoryStorage \<Rightarrow> (storeError + commitResult) \<times> 'c inMemoryStorage" where
  "commit now junctionsByParent mutations preloaded st =
    (let migrations = concat (map migration_of mutations);
         idRemap = fold (\<lambda>e. map_set (migration_key e) (eim_toId e)) migrations [];
         rowOps = filter (\<lambda>m. migration_of m = []) mutations;
         migrateTo = map (\<lambda>e. eim_collection e @ '':'' @ eim_toId e) migrations
     in if mutations = [] then (Inr \<lparr>cmt_class = [], cmt_junctions = [], cmt_events = []\<rparr>, st)
        else case (if migrations = [] then Inr ([], st) else migrateEntityIds now migrations preloaded st) of
          Inl e \<Rightarrow> (Inl e, st)
        | Inr (events, st1) \<Rightarrow>
            (let cls = fold (classify_migration preloaded) migrations []
             in if rowOps = [] then (Inr \<lparr>cmt_class = cls, cmt_junctions = [], cmt_events = events\<rparr>, st1)
                else case commit_rows now rowOps idRemap preloaded st1 of
                  Inl e \<Rightarrow> (Inl e, st1)
                | Inr rows \<Rightarrow>
                    (let plan = fold (plan_row migrateTo) rows
                           \<lparr>plan_save = [], plan_delete = [], plan_associate = [], plan_class = cls\<rparr>;
                         st2 = addCacheKeysToReadModels (plan_associate plan)
                           (deleteReadModels (plan_delete plan) (saveReadModels (plan_save plan) st1))
                     in case junction_ops junctionsByParent (map_values rows) of
                          Inl e \<Rightarrow> (Inl e, st2)
                        | Inr ops \<Rightarrow> (Inr \<lparr>cmt_class = plan_class plan, cmt_junctions = ops, cmt_events = events\<rparr>, st2))))"

end
