(* ===== verification/ReadModelRows.thy ===== *)
theory ReadModelRows
  imports ReadModelStore
begin

text \<open>
  The rows of the read model store: what the three-way merge keeps, that the batched write agrees with the
  single ones, and the shape that every operation keeps.
\<close>

lemma parse_value_text: "json_value v \<Longrightarrow> parse_text (json_of v) = Inr v"
  by (simp add: parse_text_def parse_json_value)

section \<open>Difference and overlay\<close>

text \<open>What the object \<open>l\<close> changes of \<open>b\<close>, one property at a time.\<close>

definition change_of :: "(string, jsval) jsmap \<Rightarrow> (string, jsval) jsmap \<Rightarrow> string \<Rightarrow> jsval option" where
  "change_of b l n =
    (if n = ''__proto__'' then None
     else case map_get l n of
       Some x \<Rightarrow> if map_get b n = Some x then None else Some x
     | None \<Rightarrow> if map_has b n \<and> n \<notin> set object_proto then Some JUndef else None)"

lemma same_text_iff:
  assumes "json_value (JObj b)" and "json_value x"
  shows "\<not> js_in n (JObj b) \<or> js_stringify x \<noteq> js_stringify (js_member (JObj b) n) \<longleftrightarrow> map_get b n \<noteq> Some x"
proof (cases "map_get b n")
  case None
  then show ?thesis using assms(2) stringify_absent [of x] by (auto simp: map_has_def json_value_def)
next
  case (Some y)
  have "json_value y" using assms(1) Some by (rule json_value_get)
  then have "js_stringify x = js_stringify y \<longleftrightarrow> x = y" using js_stringify_inj [OF assms(2)] by blast
  then show ?thesis using Some by (auto simp: map_has_def)
qed

lemma map_get_assign: "map_get (assign_prop n x m) n' = (if n' = n \<and> n \<noteq> ''__proto__'' then Some x else map_get m n')"
  by (auto simp: assign_prop_def)

lemma map_wf_assign [simp]: "map_wf m \<Longrightarrow> map_wf (assign_prop n x m)"
  by (simp add: assign_prop_def)

lemma fold_changed:
  assumes "distinct (map fst l)"
  shows "map_get (fold (\<lambda>(n, x) m. if P n x then assign_prop n x m else m) l m) n =
    (case map_get l n of Some x \<Rightarrow> if P n x \<and> n \<noteq> ''__proto__'' then Some x else map_get m n | None \<Rightarrow> map_get m n)"
  using assms
proof (induction l arbitrary: m)
  case (Cons e l)
  obtain k x where e: "e = (k, x)" by (cases e)
  have "k = n \<Longrightarrow> map_get l n = None" using Cons.prems e by (auto simp: map_of_eq_None_iff)
  then show ?case using Cons e by (auto simp: map_get_assign split: option.split)
qed simp

lemma fold_dropped:
  "map_get (fold (\<lambda>n m. if Q n then assign_prop n JUndef m else m) ns m) n =
    (if n \<in> set ns \<and> Q n \<and> n \<noteq> ''__proto__'' then Some JUndef else map_get m n)"
  by (induction ns arbitrary: m) (auto simp: map_get_assign)

lemma wf_fold_if:
  "map_wf m \<Longrightarrow> map_wf (fold (\<lambda>(n, x) m. if P n x then assign_prop n x m else m) l m)"
  "map_wf m \<Longrightarrow> map_wf (fold (\<lambda>n m. if Q n then assign_prop n JUndef m else m) ns m)"
  by (induction l arbitrary: m; force) (induction ns arbitrary: m; simp)

lemma proto_names: "''__proto__'' \<in> set object_proto"
  by code_simp

lemma diff_get:
  assumes b: "json_value (JObj b)" and l: "json_value (JObj l)"
  shows "map_get (getObjectDiff (JObj b) (JObj l)) n = change_of b l n"
proof -
  have "distinct (map fst l)" using json_value_wf [OF l] by (simp add: map_wf_def)
  note fc = fold_changed [OF this]
  have key: "n \<in> set (map_keys b) \<longleftrightarrow> map_has b n" by (simp add: map_has_iff)
  note simps = getObjectDiff_def fold_dropped fc Let_def own_entries.simps
  show ?thesis
  proof (cases "n = ''__proto__''")
    case True
    then show ?thesis unfolding simps change_of_def by (cases "map_get l ''__proto__''") simp_all
  next
    case False
    show ?thesis
    proof (cases "map_get l n")
      case None
      then have "js_in n (JObj l) \<longleftrightarrow> n \<in> set object_proto" by (simp add: map_has_def)
      then show ?thesis unfolding simps change_of_def using None False key by simp
    next
      case (Some x)
      have "json_value x" using l Some by (rule json_value_get)
      note st = same_text_iff [OF b this, of n]
      have "js_in n (JObj l)" using Some by (simp add: map_has_def)
      then show ?thesis unfolding simps change_of_def using Some False st
        by (simp del: js_in.simps js_member.simps)
    qed
  qed
qed

lemma diff_wf: "map_wf (getObjectDiff b l)"
  by (simp add: getObjectDiff_def wf_fold_if)

lemma overlay_get:
  assumes "map_wf d" and "map_get d ''__proto__'' = None"
  shows "map_get (overlay d m) n =
    (case map_get d n of None \<Rightarrow> map_get m n | Some x \<Rightarrow> if x = JUndef then None else Some x)"
  using assms unfolding overlay_def
proof (induction d arbitrary: m)
  case (Cons e d)
  obtain k x where e: "e = (k, x)" by (cases e)
  have wf: "map_wf d" using Cons.prems(1) by (simp add: map_wf_def)
  have k: "k = n \<Longrightarrow> map_get d n = None" using Cons.prems(1) e by (auto simp: map_wf_def map_of_eq_None_iff)
  have p: "k \<noteq> ''__proto__''" "map_get d ''__proto__'' = None" using Cons.prems(2) e by (auto split: if_splits)
  show ?case using Cons.IH [OF wf p(2)] k p(1) e by (auto simp: map_get_assign split: option.split)
qed simp

lemma overlay_wf: "map_wf m \<Longrightarrow> map_wf (overlay d m)"
  unfolding overlay_def by (induction d arbitrary: m) (auto split: if_splits)

text \<open>Local changes laid over a new base: a property that was changed keeps its local value.\<close>

lemma merge_get:
  assumes b: "json_value (JObj b)" and l: "json_value (JObj l)" and n: "n \<notin> set object_proto"
  shows "map_get (overlay (getObjectDiff (JObj b) (JObj l)) m) n =
    (if map_get l n = map_get b n then map_get m n else map_get l n)"
proof -
  have np: "map_get (getObjectDiff (JObj b) (JObj l)) ''__proto__'' = None"
    using diff_get [OF b l] by (simp add: change_of_def)
  have nn: "n \<noteq> ''__proto__''" using n proto_names by auto
  have und: "map_get l n \<noteq> Some JUndef" using json_value_get [OF l, of n JUndef] by (auto simp: json_value_def)
  show ?thesis using n nn und
    by (auto simp: overlay_get [OF diff_wf np] diff_get [OF b l] change_of_def map_has_def split: option.split)
qed

lemma diff_empty_iff:
  assumes b: "json_value (JObj b)" and l: "json_value (JObj l)"
  shows "getObjectDiff (JObj b) (JObj l) \<noteq> [] \<longleftrightarrow> (\<exists>n. change_of b l n \<noteq> None)"
proof -
  have "getObjectDiff (JObj b) (JObj l) = [] \<longleftrightarrow> (\<forall>n. map_get (getObjectDiff (JObj b) (JObj l)) n = None)"
    by (metis list.exhaust map_of.simps(1) map_of_Cons_code(2) option.distinct(1) prod.exhaust)
  then show ?thesis by (simp add: diff_get [OF b l])
qed


section \<open>What a write leaves in the row\<close>

lemma get_save [simp]: "getReadModel (saveReadModel r st) (rm_collection r) (rm_id r) = Some r"
  by (simp add: getReadModel_def saveReadModel_def)

lemma saved_row:
  assumes "save_row existing r k st = (out, st')" and "rm_collection r = c" and "rm_id r = i"
  shows "\<exists>ks. getReadModel st' c i = Some (r\<lparr>rm_cacheKeys := ks\<rparr>)"
proof (cases existing)
  case None
  then show ?thesis using assms by (auto simp: save_row_def intro!: exI [of _ "rm_cacheKeys r"])
next
  case (Some x)
  then show ?thesis using assms
    by (auto simp: save_row_def addCacheKeysToReadModel_def getReadModel_def saveReadModel_def Let_def)
qed

lemma server_write_row:
  assumes "effective_over (getReadModel st c i) (own_entries data) (json_of data) = Inr (eff, loc)"
  shows "\<exists>out st' r'. server_write now c i data k meta st = Inr (out, st') \<and> getReadModel st' c i = Some r' \<and>
    rm_effectiveData r' = eff \<and> rm_hasLocalChanges r' = loc \<and> rm_serverData r' = Some (json_of data)"
proof -
  define r1 where "r1 = readModelToRecord i c k (getReadModel st c i) (Some (json_of data)) eff loc now
    (first_some (map_option meta_revision meta) (Option.bind (getReadModel st c i) rm_revision))
    (first_some (Option.bind meta meta_position) (Option.bind (getReadModel st c i) rm_position))"
  have fields: "rm_collection r1 = c" "rm_id r1 = i" "rm_effectiveData r1 = eff" "rm_hasLocalChanges r1 = loc"
      "rm_serverData r1 = Some (json_of data)"
    by (simp_all add: r1_def readModelToRecord_def first_some_def)
  obtain out st' where s: "save_row (getReadModel st c i) r1 k st = (out, st')" by fastforce
  obtain ks where g: "getReadModel st' c i = Some (r1\<lparr>rm_cacheKeys := ks\<rparr>)" using saved_row [OF s fields(1,2)] by blast
  show ?thesis
  proof (cases "server_write now c i data k meta st = Inr (out, st')")
    case True
    then show ?thesis using g fields by auto
  next
    case False
    then obtain r where r: "getReadModel st c i = Some r" "rm_serverData r = Some (json_of data)"
        "rm_effectiveData r = eff" "rm_hasLocalChanges r = loc"
      using assms s by (auto simp: server_write_def Let_def r1_def split: option.splits if_splits)
    then show ?thesis using assms s False
      by (auto simp: server_write_def Let_def r1_def split: if_splits)
  qed
qed

lemma json_of_obj [simp]: "json_of (JObj kvs) \<noteq> []" "truthy_text (Some (json_of (JObj kvs))) = Some (json_of (JObj kvs))"
  by (simp_all add: json_of_def truthy_text_def)

text \<open>The value that the text of an object shows for a property.\<close>

definition shown :: "(string, jsval) jsmap \<Rightarrow> string \<Rightarrow> jsval option" where
  "shown kvs n = (case map_get kvs n of Some x \<Rightarrow> if json_absent x then None else Some (json_clean x) | None \<Rightarrow> None)"

lemma parse_object:
  assumes "jsval_wf (JObj kvs)"
  shows "\<exists>e. js_parse (json_of (JObj kvs)) = Some (JObj e) \<and> (\<forall>n. map_get e n = shown kvs n)"
proof -
  let ?kept = "filter (\<lambda>(k, x). \<not> json_absent x) kvs"
  let ?e = "map (\<lambda>(k, x). (k, json_clean x)) ?kept"
  have wf: "map_wf kvs" using assms by (simp add: map_wf_def)
  have "map_get ?e n = shown kvs n" for n
    using map_wf_filter_get [OF wf, of "\<lambda>(k, x). \<not> json_absent x" n]
    by (simp add: map_get_map_snd shown_def split: option.split)
  moreover have "js_parse (json_of (JObj kvs)) = Some (JObj ?e)"
    using parse_json_of [OF assms] by (simp add: clean_obj del: json_clean.simps)
  ultimately show ?thesis by blast
qed

lemma shown_value: "json_value (JObj kvs) \<Longrightarrow> shown kvs n = map_get kvs n"
  using json_value_get [of kvs n] by (auto simp: shown_def json_value_def split: option.split)

lemma overlay_values: "e \<in> set (overlay d m) \<Longrightarrow> snd e \<in> snd ` set d \<union> snd ` set m"
  unfolding overlay_def
proof (induction d arbitrary: m)
  case (Cons a d)
  obtain k x where a: "a = (k, x)" by (cases a)
  let ?m = "if x = JUndef then map_delete k m else assign_prop k x m"
  have "snd e \<in> snd ` set d \<union> snd ` set ?m" using Cons a by simp
  moreover have "snd ` set ?m \<subseteq> insert x (snd ` set m)"
    by (auto simp: assign_prop_def AList.delete_eq dest!: map_set_mem intro: rev_image_eqI)
  ultimately show ?case using a by auto
qed simp

lemma diff_value:
  assumes "json_value (JObj b)" and "json_value (JObj l)" and "x \<in> snd ` set (getObjectDiff (JObj b) (JObj l))"
  shows "x = JUndef \<or> json_value x"
proof -
  obtain n where n: "(n, x) \<in> set (getObjectDiff (JObj b) (JObj l))" using assms(3) by auto
  then have "map_get (getObjectDiff (JObj b) (JObj l)) n = Some x"
    by (simp only: map_wf_get [OF diff_wf])
  then have "change_of b l n = Some x" using diff_get [OF assms(1,2)] by simp
  then show ?thesis using json_value_get [OF assms(2), of n x]
    by (auto simp: change_of_def split: option.splits if_splits)
qed

lemma overlay_object:
  assumes b: "json_value (JObj b)" and l: "json_value (JObj l)" and m: "jsval_wf (JObj m)"
  shows "jsval_wf (JObj (overlay (getObjectDiff (JObj b) (JObj l)) m))"
proof -
  have "map_wf (overlay (getObjectDiff (JObj b) (JObj l)) m)" using m by (intro overlay_wf) (simp add: map_wf_def)
  moreover have "jsval_wf (snd e)" if "e \<in> set (overlay (getObjectDiff (JObj b) (JObj l)) m)" for e
  proof (cases "snd e \<in> snd ` set (getObjectDiff (JObj b) (JObj l))")
    case True
    then show ?thesis using diff_value [OF b l True] by (auto simp: json_value_def)
  next
    case False
    then show ?thesis using overlay_values [OF that] m by auto
  qed
  ultimately show ?thesis by (auto simp: map_wf_def)
qed

lemma merged_text:
  assumes b: "json_value (JObj b)" and l: "json_value (JObj l)" and m: "jsval_wf (JObj m)"
  shows "\<exists>e. js_parse (json_of (JObj (overlay (getObjectDiff (JObj b) (JObj l)) m))) = Some (JObj e) \<and>
    (\<forall>n. n \<notin> set object_proto \<longrightarrow>
      map_get e n = (if map_get l n = map_get b n then shown m n else map_get l n))"
proof -
  obtain e where e: "js_parse (json_of (JObj (overlay (getObjectDiff (JObj b) (JObj l)) m))) = Some (JObj e)"
      "\<And>n. map_get e n = shown (overlay (getObjectDiff (JObj b) (JObj l)) m) n"
    using parse_object [OF overlay_object [OF b l m]] by blast
  have "map_get e n = (if map_get l n = map_get b n then shown m n else map_get l n)"
    if "n \<notin> set object_proto" for n
    using merge_get [OF b l that] shown_value [OF l, of n] by (simp add: e(2) shown_def)
  with e(1) show ?thesis by blast
qed

text \<open>
  C21: Local changes survive server data. Over a row with local changes, a new server version becomes the
  baseline, and of what the row shows each property that the local version had changed against the old
  baseline, by value, addition or removal, keeps its local state while every other property takes the new
  server value. The row stays marked as changed exactly when there was such a property.
\<close>
theorem three_way_merge:
  assumes "getReadModel st c i = Some r" and "rm_hasLocalChanges r"
    and "rm_serverData r = Some (json_of (JObj b))" and "rm_effectiveData r = json_of (JObj l)"
    and "json_value (JObj b)" and "json_value (JObj l)" and "jsval_wf (JObj n)"
  shows "\<exists>out st' r' e. setServerData now c i (JObj n) k meta st = Inr (out, st') \<and>
    getReadModel st' c i = Some r' \<and> rm_serverData r' = Some (json_of (JObj n)) \<and>
    js_parse (rm_effectiveData r') = Some (JObj e) \<and>
    (\<forall>p. p \<notin> set object_proto \<longrightarrow> map_get e p = (if map_get l p = map_get b p then shown n p else map_get l p)) \<and>
    (rm_hasLocalChanges r' \<longleftrightarrow> (\<exists>p. change_of b l p \<noteq> None))"
proof -
  let ?d = "getObjectDiff (JObj b) (JObj l)"
  have "effective_over (getReadModel st c i) (own_entries (JObj n)) (json_of (JObj n))
      = Inr (json_of (JObj (overlay ?d n)), ?d \<noteq> [])"
    using assms by (simp add: effective_over_def parse_value_text)
  from server_write_row [OF this, of now k meta] obtain out st' r' where
    "server_write now c i (JObj n) k meta st = Inr (out, st')" "getReadModel st' c i = Some r'"
    "rm_effectiveData r' = json_of (JObj (overlay ?d n))" "rm_hasLocalChanges r' = (?d \<noteq> [])"
    "rm_serverData r' = Some (json_of (JObj n))" by blast
  then show ?thesis
    using merged_text [OF assms(5-7)] diff_empty_iff [OF assms(5,6)] by (auto simp: setServerData_def)
qed


section \<open>The batched write and the single ones\<close>

fun single_write :: "int \<Rightarrow> readModelMutation \<Rightarrow> 'c inMemoryStorage \<Rightarrow> storeError + writeOutcome \<times> 'c inMemoryStorage" where
  "single_write now (SetServer c i d k m) st = setServerData now c i d k m st"
| "single_write now (MergeServer c i d k m) st = mergeServerData now c i d k m st"
| "single_write now (SetLocal c i d k) st = Inr (setLocalData now c i d k st)"
| "single_write now (ApplyLocal c i d k) st = applyLocalChanges now c i d k st"
| "single_write now (DeleteRow c i) st = Inr (rms_delete c i st)"
| "single_write now (SetClientMetadata c i m) st = Inr (RowUpdated, setClientMetadata c i m st)"
| "single_write now (MigrateId c f t) st = Inr (RowUnchanged, st)"

definition sole_row :: "readModelMutation \<Rightarrow> 'c inMemoryStorage \<Rightarrow> rowState" where
  "sole_row op st = \<lparr>row_collection = mut_collection op, row_id = mut_id op,
    row_baseline = getReadModel st (mut_collection op) (mut_id op),
    row_current = getReadModel st (mut_collection op) (mut_id op),
    row_cacheKeysSeen = (case mut_cacheKey op of Some k \<Rightarrow> [k] | None \<Rightarrow> []), row_touched = False\<rparr>"

definition empty_plan :: commitPlan where
  "empty_plan = \<lparr>plan_save = [], plan_delete = [], plan_associate = [], plan_class = []\<rparr>"

definition run_plan :: "commitPlan \<Rightarrow> 'c inMemoryStorage \<Rightarrow> 'c inMemoryStorage" where
  "run_plan plan st = addCacheKeysToReadModels (plan_associate plan)
    (deleteReadModels (plan_delete plan) (saveReadModels (plan_save plan) st))"

lemma commit_one:
  assumes "migration_of op = []"
  shows "commit now [] [op] [] st =
    (case row_write now (mut_id op) (getReadModel st (mut_collection op) (mut_id op)) op of
       Inl e \<Rightarrow> (Inl e, st)
     | Inr w \<Rightarrow>
         (let s = (case w of None \<Rightarrow> sole_row op st | Some r \<Rightarrow> (sole_row op st)\<lparr>row_current := r, row_touched := True\<rparr>);
              plan = plan_row [] (mut_collection op @ '':'' @ mut_id op, s) empty_plan
          in (Inr \<lparr>cmt_class = plan_class plan, cmt_junctions = [], cmt_events = []\<rparr>, run_plan plan st)))"
proof -
  let ?key = "mut_collection op @ '':'' @ mut_id op"
  have b: "first_some None (map_get (getReadModels st [(mut_collection op, mut_id op)]) ?key)
      = getReadModel st (mut_collection op) (mut_id op)"
    by (auto simp: first_some_def getReadModels_def split: option.split)
  have "commit_rows now [op] [] [] st = map_result (\<lambda>w.
      [(?key, case w of None \<Rightarrow> sole_row op st | Some r \<Rightarrow> (sole_row op st)\<lparr>row_current := r, row_touched := True\<rparr>)])
      (row_write now (mut_id op) (getReadModel st (mut_collection op) (mut_id op)) op)"
    using b by (cases "row_write now (mut_id op) (getReadModel st (mut_collection op) (mut_id op)) op")
      (auto simp: commit_rows_def remapped_def fold_mutation_def Let_def sole_row_def set_add_def split: option.split)
  then show ?thesis using assms
    by (cases "row_write now (mut_id op) (getReadModel st (mut_collection op) (mut_id op)) op")
      (simp_all add: commit_def Let_def empty_plan_def run_plan_def junction_ops_def)
qed

lemma map_set_key [simp]: "map_set k v [] = [(k, v)]"
  by simp

lemma set_of_list_distinct: "distinct xs \<Longrightarrow> set_of_list xs = xs"
proof -
  have "distinct (ys @ xs) \<Longrightarrow> fold set_add xs ys = ys @ xs" for ys
    by (induction xs arbitrary: ys) (auto simp: set_add_def)
  then show "distinct xs \<Longrightarrow> ?thesis" by (simp add: set_of_list_def)
qed

lemma associate_present:
  assumes "k \<in> set (rm_cacheKeys r)" and "distinct (rm_cacheKeys r)"
  shows "addCacheKeysToReadModel (rm_collection r) (rm_id r) [k] (saveReadModel r st) = saveReadModel r st"
  using assms by (simp add: addCacheKeysToReadModel_def saveReadModel_def Let_def set_of_list_distinct set_add_def)

text \<open>A touched row with a current record, saved either way.\<close>

lemma plan_saved:
  assumes "\<And>x. base = Some x \<Longrightarrow> rm_cacheKeys r = rm_cacheKeys x \<and> distinct (rm_cacheKeys x)"
    and "base = None \<Longrightarrow> rm_cacheKeys r = [k]"
    and "rm_collection r = c" and "rm_id r = i" and "save_row base r k st = (out, st')"
    and "\<And>x. base = Some x \<Longrightarrow> \<not> recordsEqual x r"
    and "plan = plan_row [] (key, \<lparr>row_collection = c, row_id = i, row_baseline = base, row_current = Some r,
          row_cacheKeysSeen = [k], row_touched = True\<rparr>) empty_plan"
  shows "run_plan plan st = st' \<and> map_keys (plan_class plan) = [c] \<and>
    cls_created (bucketFor c (plan_class plan)) = (if base = None then [i] else []) \<and>
    cls_updated (bucketFor c (plan_class plan)) = (if base = None then [] else [i]) \<and>
    cls_deleted (bucketFor c (plan_class plan)) = [] \<and> out = (if base = None then RowCreated else RowUpdated)"
proof (cases base)
  case None
  then show ?thesis using assms
    by (auto simp: plan_row_def row_new_keys_def Let_def empty_plan_def run_plan_def save_row_def saveReadModels_def
        deleteReadModels_def addCacheKeysToReadModels_def in_bucket_def bucketFor_def)
next
  case (Some x)
  have keys: "rm_cacheKeys r = rm_cacheKeys x" "distinct (rm_cacheKeys r)" using assms(1) Some by auto
  have ne: "\<not> recordsEqual x r" using assms(6) Some by simp
  show ?thesis
  proof (cases "k \<in> set (rm_cacheKeys x)")
    case True
    then have "st' = saveReadModel r st" using assms(5) Some keys associate_present [of k r st]
      by (simp add: save_row_def Let_def)
    then show ?thesis using assms(3-5,7) Some keys ne True
      by (auto simp: plan_row_def row_new_keys_def Let_def empty_plan_def run_plan_def save_row_def saveReadModels_def
          deleteReadModels_def addCacheKeysToReadModels_def in_bucket_def bucketFor_def)
  next
    case False
    then show ?thesis using assms(3-5,7) Some keys ne
      by (auto simp: plan_row_def row_new_keys_def Let_def empty_plan_def run_plan_def save_row_def saveReadModels_def
          deleteReadModels_def addCacheKeysToReadModels_def in_bucket_def bucketFor_def)
  qed
qed


fun outcome_rows :: "writeOutcome \<Rightarrow> string \<Rightarrow> string list \<times> string list \<times> string list" where
  "outcome_rows RowCreated i = ([i], [], [])"
| "outcome_rows RowUpdated i = ([], [i], [])"
| "outcome_rows RowDeleted i = ([], [], [i])"
| "outcome_rows RowUnchanged i = ([], [], [])"

definition class_rows :: "string \<Rightarrow> commitClassification \<Rightarrow> string list \<times> string list \<times> string list" where
  "class_rows c cls = (cls_created (bucketFor c cls), cls_updated (bucketFor c cls), cls_deleted (bucketFor c cls))"

text \<open>The cache keys of the row that a mutation addresses.\<close>

definition row_keys :: "readModelMutation \<Rightarrow> 'c inMemoryStorage \<Rightarrow> string list" where
  "row_keys op st = (case getReadModel st (mut_collection op) (mut_id op) of Some r \<Rightarrow> rm_cacheKeys r | None \<Rightarrow> [])"

definition same_effect :: "int \<Rightarrow> readModelMutation \<Rightarrow> 'c inMemoryStorage \<Rightarrow> bool" where
  "same_effect now op st \<longleftrightarrow>
    (case single_write now op st of
       Inl e \<Rightarrow> commit now [] [op] [] st = (Inl e, st)
     | Inr (out, st') \<Rightarrow>
         (\<exists>res. fst (commit now [] [op] [] st) = Inr res \<and>
           (if out = RowUnchanged
            then st' = st \<and> (set_option (mut_cacheKey op) \<subseteq> set (row_keys op st) \<longrightarrow>
                   snd (commit now [] [op] [] st) = st \<and> cmt_class res = [])
            else snd (commit now [] [op] [] st) = st' \<and> map_keys (cmt_class res) = [mut_collection op] \<and>
                   class_rows (mut_collection op) (cmt_class res) = outcome_rows out (mut_id op))))"

definition row_at_home :: "readModelMutation \<Rightarrow> 'c inMemoryStorage \<Rightarrow> bool" where
  "row_at_home op st \<longleftrightarrow> (\<forall>r. getReadModel st (mut_collection op) (mut_id op) = Some r \<longrightarrow>
    rm_collection r = mut_collection op \<and> rm_id r = mut_id op \<and> distinct (rm_cacheKeys r))"

definition saved_or_kept ::
  "readModelRecord option \<Rightarrow> readModelRecord \<Rightarrow> string \<Rightarrow> 'c inMemoryStorage \<Rightarrow> writeOutcome \<times> 'c inMemoryStorage" where
  "saved_or_kept base r k st =
    (case base of Some x \<Rightarrow> if recordsEqual x r then (RowUnchanged, st) else save_row base r k st
     | None \<Rightarrow> save_row base r k st)"

lemma same_effect_write:
  assumes home: "row_at_home op st" and mig: "migration_of op = []" and key: "mut_cacheKey op = Some k"
    and base: "base = getReadModel st (mut_collection op) (mut_id op)"
    and w: "row_write now (mut_id op) base op = Inr (Some (Some r))"
    and single: "single_write now op st = Inr (saved_or_kept base r k st)"
    and fields: "rm_collection r = mut_collection op" "rm_id r = mut_id op"
      "rm_cacheKeys r = (case base of Some x \<Rightarrow> rm_cacheKeys x | None \<Rightarrow> [k])"
  shows "same_effect now op st"
proof -
  let ?s = "\<lparr>row_collection = mut_collection op, row_id = mut_id op, row_baseline = base, row_current = Some r,
      row_cacheKeysSeen = [k], row_touched = True\<rparr>"
  let ?plan = "plan_row [] (mut_collection op @ '':'' @ mut_id op, ?s) empty_plan"
  have c: "commit now [] [op] [] st = (Inr \<lparr>cmt_class = plan_class ?plan, cmt_junctions = [], cmt_events = []\<rparr>, run_plan ?plan st)"
    using commit_one [OF mig, of now st] w key base by (simp add: Let_def sole_row_def)
  have keys: "\<And>x. base = Some x \<Longrightarrow> rm_cacheKeys r = rm_cacheKeys x \<and> distinct (rm_cacheKeys x)"
    using home base fields by (auto simp: row_at_home_def)
  show ?thesis
  proof (cases "\<exists>x. base = Some x \<and> recordsEqual x r")
    case True
    then obtain x where x: "base = Some x" "recordsEqual x r" by blast
    have "k \<in> set (rm_cacheKeys x) \<Longrightarrow> ?plan = empty_plan"
      using x keys by (auto simp: plan_row_def row_new_keys_def)
    then show ?thesis using single c x key base
      by (auto simp: same_effect_def saved_or_kept_def row_keys_def run_plan_def empty_plan_def saveReadModels_def
          deleteReadModels_def addCacheKeysToReadModels_def)
  next
    case False
    obtain out st' where o: "save_row base r k st = (out, st')" by fastforce
    have sv: "saved_or_kept base r k st = (out, st')" using False o by (auto simp: saved_or_kept_def split: option.split)
    have "run_plan ?plan st = st' \<and> map_keys (plan_class ?plan) = [mut_collection op] \<and>
        cls_created (bucketFor (mut_collection op) (plan_class ?plan)) = (if base = None then [mut_id op] else []) \<and>
        cls_updated (bucketFor (mut_collection op) (plan_class ?plan)) = (if base = None then [] else [mut_id op]) \<and>
        cls_deleted (bucketFor (mut_collection op) (plan_class ?plan)) = [] \<and> out = (if base = None then RowCreated else RowUpdated)"
      using keys False fields o by (intro plan_saved) auto
    then show ?thesis using single c sv by (auto simp: same_effect_def class_rows_def)
  qed
qed

lemma server_record:
  "readModelToRecord i c k base (Some t) eff loc now (first_some (map_option meta_revision meta) (Option.bind base rm_revision))
     (first_some (Option.bind meta meta_position) (Option.bind base rm_position))
   = computed_record base c i k (Some t) eff loc meta now"
  by (simp add: readModelToRecord_def computed_record_def first_some_def split: option.split)

lemma local_record:
  "readModelToRecord i c k base None eff True now None None =
   computed_record base c i k (Option.bind base rm_serverData) eff True None now"
  by (simp add: readModelToRecord_def computed_record_def first_some_def)

lemma computed_fields [simp]:
  "rm_collection (computed_record base c i k t eff loc meta now) = c"
  "rm_id (computed_record base c i k t eff loc meta now) = i"
  "rm_cacheKeys (computed_record base c i k t eff loc meta now) = (case base of Some x \<Rightarrow> rm_cacheKeys x | None \<Rightarrow> [k])"
  by (simp_all add: computed_record_def)

lemma recordsEqual_computed:
  "rm_collection x = c \<Longrightarrow> rm_id x = i \<Longrightarrow>
   recordsEqual x (computed_record (Some x) c i k t eff loc meta now) \<longleftrightarrow>
     rm_serverData x = t \<and> rm_effectiveData x = eff \<and> rm_hasLocalChanges x = loc \<and>
     rm_revision x = first_some (map_option meta_revision meta) (rm_revision x) \<and>
     rm_position x = first_some (Option.bind meta meta_position) (rm_position x)"
  by (auto simp: recordsEqual_def computed_record_def)

lemma server_write_single:
  assumes "\<And>x. getReadModel st c i = Some x \<Longrightarrow> rm_collection x = c \<and> rm_id x = i"
  shows "server_write now c i data k meta st = map_result (\<lambda>(eff, loc). saved_or_kept (getReadModel st c i)
      (computed_record (getReadModel st c i) c i k (Some (json_of data)) eff loc meta now) k st)
    (effective_over (getReadModel st c i) (own_entries data) (json_of data))"
  unfolding server_write_def Let_def server_record
  using assms
  by (cases "effective_over (getReadModel st c i) (own_entries data) (json_of data)")
    (auto simp: saved_or_kept_def recordsEqual_computed split: option.split)

lemma local_write_single:
  assumes "\<And>x. getReadModel st c i = Some x \<Longrightarrow> rm_collection x = c \<and> rm_id x = i"
  shows "local_write now c i eff k st = saved_or_kept (getReadModel st c i)
      (computed_record (getReadModel st c i) c i k (Option.bind (getReadModel st c i) rm_serverData) eff True None now) k st"
  unfolding local_write_def Let_def local_record
  using assms by (auto simp: saved_or_kept_def recordsEqual_computed first_some_def split: option.split)


lemma same_effect_error:
  assumes "migration_of op = []" and "single_write now op st = Inl e"
    and "row_write now (mut_id op) (getReadModel st (mut_collection op) (mut_id op)) op = Inl e"
  shows "same_effect now op st"
  using commit_one [OF assms(1), of now st] assms(2,3) by (simp add: same_effect_def)

lemma same_effect_server:
  assumes home: "row_at_home op st" and "migration_of op = []" and key: "mut_cacheKey op = Some k"
    and w: "row_write now (mut_id op) base op = map_result (\<lambda>r. Some (Some r))
      (computeSetServerRecord base (mut_collection op) (mut_id op) d k meta now)"
    and single: "single_write now op st = server_write now (mut_collection op) (mut_id op) d k meta st"
    and base: "base = getReadModel st (mut_collection op) (mut_id op)"
  shows "same_effect now op st"
proof (cases "effective_over base (own_entries d) (json_of d)")
  case (Inl e)
  then show ?thesis using assms server_write_single [of st "mut_collection op" "mut_id op" now d k meta]
    by (intro same_effect_error [where e = e])
      (auto simp: computeSetServerRecord_def row_at_home_def)
next
  case (Inr p)
  obtain eff loc where p: "p = (eff, loc)" by (cases p)
  show ?thesis
    using assms Inr p server_write_single [of st "mut_collection op" "mut_id op" now d k meta]
    by (intro same_effect_write [OF home assms(2) key base,
        where r = "computed_record base (mut_collection op) (mut_id op) k (Some (json_of d)) eff loc meta now"])
      (auto simp: computeSetServerRecord_def row_at_home_def)
qed

text \<open>
  C22: The batched write agrees with the single ones. Committing one mutation has the effect of the single
  operation it stands for: the same storage, the same error, and the row in the bucket of the operation's
  outcome. Where the single operation finds nothing to change, so does the commit, unless the mutation
  brings a cache key that the row does not have.
\<close>
theorem commit_agrees_with_setters:
  assumes "row_at_home op st" and "migration_of op = []" and "\<And>c i m. op \<noteq> SetClientMetadata c i m"
  shows "same_effect now op st"
proof (cases op)
  case (SetServer c i d k meta)
  then show ?thesis using assms by (intro same_effect_server) (auto simp: setServerData_def)
next
  case (MergeServer c i d k meta)
  show ?thesis
  proof (cases "merged_baseline (getReadModel st c i) d")
    case (Inl e)
    then show ?thesis using MergeServer
      by (intro same_effect_error [where e = e]) (auto simp: mergeServerData_def computeMergeServerRecord_def)
  next
    case (Inr d')
    then show ?thesis using MergeServer assms
      by (intro same_effect_server [where d = d']) (auto simp: mergeServerData_def computeMergeServerRecord_def)
  qed
next
  case (SetLocal c i d k)
  then show ?thesis using assms local_write_single [of st c i now "json_of d" k]
    by (intro same_effect_write [OF assms(1,2), where k = k])
      (auto simp: setLocalData_def computeSetLocalRecord_def row_at_home_def)
next
  case (ApplyLocal c i d k)
  show ?thesis
  proof (cases "current_data (getReadModel st c i)")
    case (Inl e)
    then show ?thesis using ApplyLocal
      by (intro same_effect_error [where e = e]) (auto simp: applyLocalChanges_def computeApplyLocalRecord_def)
  next
    case (Inr v)
    then show ?thesis using ApplyLocal assms local_write_single [of st c i now "json_of (JObj (spread_over v d))" k]
      by (intro same_effect_write [OF assms(1,2), where k = k])
        (auto simp: applyLocalChanges_def computeApplyLocalRecord_def row_at_home_def)
  qed
next
  case (DeleteRow c i)
  then show ?thesis using commit_one [of op now st]
    by (auto simp: same_effect_def rms_delete_def sole_row_def plan_row_def plan_deletion_def empty_plan_def run_plan_def
        saveReadModels_def deleteReadModels_def addCacheKeysToReadModels_def in_bucket_def bucketFor_def class_rows_def
        row_keys_def Let_def split: option.split)
next
  case (MigrateId c f t)
  then show ?thesis using assms(2) by simp
next
  case (SetClientMetadata c i m)
  then show ?thesis using assms(3) by blast
qed


section \<open>The shape of a row\<close>

definition object_text :: "string \<Rightarrow> bool" where
  "object_text t \<longleftrightarrow> (\<exists>kvs. json_value (JObj kvs) \<and> t = json_of (JObj kvs))"

text \<open>Texts are those of objects, and a row without local changes shows its baseline, if it has one.\<close>

definition row_ok :: "readModelRecord \<Rightarrow> bool" where
  "row_ok r \<longleftrightarrow> object_text (rm_effectiveData r) \<and>
    (\<forall>s. rm_serverData r = Some s \<longrightarrow> object_text s \<and> (\<not> rm_hasLocalChanges r \<longrightarrow> rm_effectiveData r = s))"

abbreviation base_ok :: "readModelRecord option \<Rightarrow> bool" where
  "base_ok base \<equiv> \<forall>r. base = Some r \<longrightarrow> row_ok r"

definition rows_ok :: "'c inMemoryStorage \<Rightarrow> bool" where
  "rows_ok st \<longleftrightarrow> (\<forall>k r. map_get (readModels st) k = Some r \<longrightarrow> row_ok r)"

lemma object_text_json [simp]: "jsval_wf (JObj n) \<Longrightarrow> object_text (json_of (JObj n))"
proof -
  assume w: "jsval_wf (JObj n)"
  have "json_of (JObj n) = json_of (json_clean (JObj n))" by (rule json_of_clean [symmetric]) simp
  moreover obtain e where "json_clean (JObj n) = JObj e" by simp
  ultimately show ?thesis unfolding object_text_def using json_value_clean [OF w] by metis
qed

lemma object_textE:
  assumes "object_text t"
  obtains kvs where "json_value (JObj kvs)" "t = json_of (JObj kvs)" "parse_text t = Inr (JObj kvs)"
    "truthy_text (Some t) = Some t"
  using assms parse_value_text by (auto simp: object_text_def)

lemma json_value_wfD: "json_value v \<Longrightarrow> jsval_wf v"
  by (simp add: json_value_def)

lemma effective_over_ok:
  assumes "base_ok base" and n: "jsval_wf (JObj n)"
  shows "\<exists>eff loc. effective_over base n (json_of (JObj n)) = Inr (eff, loc) \<and> object_text eff \<and>
    (\<not> loc \<longrightarrow> eff = json_of (JObj n))"
proof (cases "\<exists>r. base = Some r \<and> rm_hasLocalChanges r")
  case False
  then show ?thesis using n by (auto simp: effective_over_def split: option.split)
next
  case True
  then obtain r where r: "base = Some r" "rm_hasLocalChanges r" "row_ok r" using assms(1) by auto
  obtain l where l: "json_value (JObj l)" "parse_text (rm_effectiveData r) = Inr (JObj l)"
    using r(3) by (auto simp: row_ok_def elim: object_textE)
  show ?thesis
  proof (cases "rm_serverData r")
    case None
    then show ?thesis using r l by (auto simp: effective_over_def row_ok_def truthy_text_def)
  next
    case (Some s)
    then obtain b where b: "json_value (JObj b)" "parse_text s = Inr (JObj b)" "truthy_text (Some s) = Some s"
      using r(3) by (auto simp: row_ok_def elim: object_textE)
    have "object_text (json_of (JObj (overlay (getObjectDiff (JObj b) (JObj l)) n)))"
      using overlay_object [OF b(1) l(1) n] by (rule object_text_json)
    moreover have "overlay [] n = n" by (simp add: overlay_def)
    ultimately show ?thesis using r l b Some by (auto simp: effective_over_def)
  qed
qed

lemma spread_wf:
  assumes "jsval_wf (JObj b)" and "jsval_wf (JObj n)"
  shows "jsval_wf (JObj (spread_over (JObj b) (JObj n)))"
proof -
  have wf: "map_wf m \<Longrightarrow> map_wf (fold (\<lambda>(k, x). map_set k x) ns m)" for ns m
    by (induction ns arbitrary: m) auto
  have mem: "e \<in> set (fold (\<lambda>(k, x). map_set k x) ns m) \<Longrightarrow> e \<in> set m \<or> e \<in> set ns" for ns m and e :: "string \<times> jsval"
    by (induction ns arbitrary: m) (auto dest: map_set_mem)
  show ?thesis using assms wf [of b n] mem [of _ n b] unfolding spread_over_def map_wf_def by fastforce
qed

lemma merged_baseline_ok:
  assumes "base_ok base" and n: "jsval_wf (JObj n)"
  shows "\<exists>n'. merged_baseline base (JObj n) = Inr (JObj n') \<and> jsval_wf (JObj n')"
proof (cases "Option.bind base rm_serverData")
  case None
  then show ?thesis using spread_wf [of "[]" n] n by (auto simp: merged_baseline_def truthy_text_def)
next
  case (Some s)
  then have "object_text s" using assms(1) by (cases base) (auto simp: row_ok_def)
  then obtain b where b: "json_value (JObj b)" "parse_text s = Inr (JObj b)" "truthy_text (Some s) = Some s"
    by (rule object_textE)
  have "jsval_wf (JObj (spread_over (JObj b) (JObj n)))" by (rule spread_wf [OF json_value_wfD [OF b(1)] n])
  then show ?thesis using Some b by (simp add: merged_baseline_def del: jsval_wf.simps)
qed

lemma current_data_ok: "base_ok base \<Longrightarrow> \<exists>l. current_data base = Inr (JObj l) \<and> jsval_wf (JObj l)"
  by (cases base) (auto simp: current_data_def row_ok_def elim!: object_textE dest: json_value_wfD)

lemma computed_server_ok:
  assumes "base_ok base" and "jsval_wf (JObj n)"
  shows "\<exists>r. computeSetServerRecord base c i (JObj n) k meta now = Inr r \<and> row_ok r"
  using effective_over_ok [OF assms] assms(2)
  by (auto simp: computeSetServerRecord_def computed_record_def row_ok_def simp del: jsval_wf.simps)

lemma local_record_ok:
  "base_ok base \<Longrightarrow> object_text t \<Longrightarrow> row_ok (computed_record base c i k (Option.bind base rm_serverData) t True meta now)"
  by (cases base) (auto simp: computed_record_def row_ok_def)

text \<open>Mutations whose data are objects.\<close>

fun mutation_ok :: "readModelMutation \<Rightarrow> bool" where
  "mutation_ok (SetServer c i d k m) = (\<exists>n. d = JObj n \<and> jsval_wf d)"
| "mutation_ok (MergeServer c i d k m) = (\<exists>n. d = JObj n \<and> jsval_wf d)"
| "mutation_ok (SetLocal c i d k) = (\<exists>n. d = JObj n \<and> jsval_wf d)"
| "mutation_ok (ApplyLocal c i d k) = (\<exists>n. d = JObj n \<and> jsval_wf d)"
| "mutation_ok _ = True"

lemma row_write_ok:
  assumes "base_ok base" and "mutation_ok op"
  shows "\<exists>w. row_write now i base op = Inr w \<and> (\<forall>r. w = Some (Some r) \<longrightarrow> row_ok r)"
proof (cases op)
  case (SetServer c j d k m)
  then obtain n where n: "d = JObj n" "jsval_wf (JObj n)" using assms(2) by auto
  then show ?thesis using SetServer computed_server_ok [OF assms(1) n(2), of c i k m now] by auto
next
  case (MergeServer c j d k m)
  then obtain n where n: "d = JObj n" "jsval_wf (JObj n)" using assms(2) by auto
  obtain n' where "merged_baseline base d = Inr (JObj n')" "jsval_wf (JObj n')"
    using merged_baseline_ok [OF assms(1) n(2)] n(1) by blast
  then show ?thesis using MergeServer computed_server_ok [OF assms(1), of n' c i k m now]
    by (auto simp: computeMergeServerRecord_def)
next
  case (SetLocal c j d k)
  then show ?thesis using assms by (auto simp: computeSetLocalRecord_def intro!: local_record_ok object_text_json)
next
  case (ApplyLocal c j d k)
  then obtain n where n: "d = JObj n" "jsval_wf (JObj n)" using assms(2) by auto
  obtain l where l: "current_data base = Inr (JObj l)" "jsval_wf (JObj l)" using current_data_ok [OF assms(1)] by blast
  have "object_text (json_of (JObj (spread_over (JObj l) (JObj n))))"
    using spread_wf [OF l(2) n(2)] by (rule object_text_json)
  then show ?thesis using ApplyLocal l(1) n(1) local_record_ok [OF assms(1)]
    by (auto simp: computeApplyLocalRecord_def)
next
  case (DeleteRow c j)
  then show ?thesis by auto
next
  case (MigrateId c f t)
  then show ?thesis by auto
next
  case (SetClientMetadata c j m)
  then show ?thesis using assms(1) by (cases base) (auto simp: row_ok_def)
qed


lemma rows_ok_get: "rows_ok st \<Longrightarrow> base_ok (getReadModel st c i)"
  by (auto simp: rows_ok_def getReadModel_def)

lemma rows_ok_save [intro]: "rows_ok st \<Longrightarrow> row_ok r \<Longrightarrow> rows_ok (saveReadModel r st)"
  by (auto simp: rows_ok_def saveReadModel_def)

lemma rows_ok_delete [intro]: "rows_ok st \<Longrightarrow> rows_ok (deleteReadModel c i st)"
  by (auto simp: rows_ok_def deleteReadModel_def)

lemma rows_ok_associate [intro]: "rows_ok st \<Longrightarrow> rows_ok (addCacheKeysToReadModel c i ks st)"
  by (auto simp: rows_ok_def addCacheKeysToReadModel_def row_ok_def Let_def split: option.split)

lemma rows_ok_batches:
  "rows_ok st \<Longrightarrow> (\<And>r. r \<in> set rs \<Longrightarrow> row_ok r) \<Longrightarrow> rows_ok (saveReadModels rs st)"
  "rows_ok st \<Longrightarrow> rows_ok (deleteReadModels es st)"
  "rows_ok st \<Longrightarrow> rows_ok (addCacheKeysToReadModels as st)"
  unfolding saveReadModels_def deleteReadModels_def addCacheKeysToReadModels_def
  by (rule fold_invariant; auto)+

lemma rows_ok_migrate_one:
  assumes "rows_ok st" and "object_text (mig_effectiveData p)"
    and "\<And>s. mig_serverData p = Some s \<Longrightarrow> object_text s \<and> (\<not> mig_hasLocalChanges p \<longrightarrow> mig_effectiveData p = s)"
  shows "rows_ok (migrate_one p st)"
  using assms by (auto simp: rows_ok_def migrate_one_def Let_def row_ok_def split: option.splits)

lemma rows_ok_migrate:
  assumes "rows_ok st" and "\<And>p. p \<in> set ps \<Longrightarrow> object_text (mig_effectiveData p) \<and>
      (\<forall>s. mig_serverData p = Some s \<longrightarrow> object_text s \<and> (\<not> mig_hasLocalChanges p \<longrightarrow> mig_effectiveData p = s))"
  shows "rows_ok (migrateReadModelIds ps st)"
  unfolding migrateReadModelIds_def using assms(1)
  by (rule fold_invariant) (use assms(2) in \<open>auto intro: rows_ok_migrate_one\<close>)

lemma patch_ok:
  assumes "object_text t"
  shows "\<exists>u. patchIdField t f g = Inr u \<and> object_text u"
proof -
  obtain kvs where k: "json_value (JObj kvs)" "parse_text t = Inr (JObj kvs)"
    using assms by (rule object_textE)
  have "jsval_wf (JObj (map_set ''id'' (JStr g) kvs))"
    using spread_wf [OF json_value_wfD [OF k(1)], of "[(''id'', JStr g)]"] by (simp add: spread_over_def)
  then have "object_text (json_of (spread_set (JObj kvs) ''id'' (JStr g)))"
    unfolding spread_set_def own_entries.simps by (rule object_text_json)
  then show ?thesis using k(2) assms by (auto simp: patchIdField_def)
qed

lemma map_results_ok:
  assumes "\<And>x. x \<in> set xs \<Longrightarrow> \<exists>y. f x = Inr y \<and> P y"
  shows "\<exists>ys. map_results f xs = Inr ys \<and> (\<forall>y \<in> set ys. P y)"
proof -
  have "\<exists>zs. fold_result (\<lambda>x ys. map_result (\<lambda>y. ys @ [y]) (f x)) xs ys = Inr zs \<and> (\<forall>z \<in> set zs. P z)"
    if "\<forall>y \<in> set ys. P y" for ys
    using assms that
  proof (induction xs arbitrary: ys)
    case (Cons x xs)
    obtain y where "f x = Inr y" "P y" using Cons.prems(1) [of x] by auto
    then show ?case using Cons.IH [of "ys @ [y]"] Cons.prems by auto
  qed auto
  from this [of "[]"] show ?thesis by (simp add: map_results_def)
qed

lemma migration_params_ok:
  assumes "\<And>k r. map_get pre k = Some r \<Longrightarrow> row_ok r" and "\<And>k r. map_get fetched k = Some r \<Longrightarrow> row_ok r"
  shows "\<exists>ps. migration_params now pre fetched e = Inr ps \<and> (\<forall>p \<in> set ps. object_text (mig_effectiveData p) \<and>
      (\<forall>s. mig_serverData p = Some s \<longrightarrow> object_text s \<and> (\<not> mig_hasLocalChanges p \<longrightarrow> mig_effectiveData p = s)))"
proof (cases "first_some (map_get pre (migration_key e)) (map_get fetched (migration_key e))")
  case None
  then show ?thesis by (simp add: migration_params_def)
next
  case (Some r)
  then have r: "row_ok r" using assms by (auto simp: first_some_def split: option.splits)
  then have "object_text (rm_effectiveData r)" by (simp add: row_ok_def)
  from patch_ok [OF this, of "eim_fromId e" "eim_toId e"]
  obtain u where u: "patchIdField (rm_effectiveData r) (eim_fromId e) (eim_toId e) = Inr u" "object_text u" by blast
  show ?thesis
  proof (cases "rm_serverData r")
    case None
    then show ?thesis using Some u by (simp add: migration_params_def)
  next
    case s: (Some s)
    have "object_text s" using r s by (simp add: row_ok_def)
    from patch_ok [OF this, of "eim_fromId e" "eim_toId e"]
    obtain v where "patchIdField s (eim_fromId e) (eim_toId e) = Inr v" "object_text v" by blast
    then show ?thesis using Some s u by (simp add: migration_params_def)
  qed
qed

lemma getReadModels_ok: "rows_ok st \<Longrightarrow> map_get (getReadModels st pairs) k = Some r \<Longrightarrow> row_ok r"
proof -
  assume ok: "rows_ok st"
  have "\<forall>k r. map_get (fold (\<lambda>(c, i) m. case getReadModel st c i of Some r \<Rightarrow> map_set (c @ '':'' @ i) r m | None \<Rightarrow> m) pairs []) k
      = Some r \<longrightarrow> row_ok r"
    by (rule fold_invariant [where P = "\<lambda>m. \<forall>k r. map_get m k = Some r \<longrightarrow> row_ok r"])
      (use rows_ok_get [OF ok] in \<open>auto split: option.splits if_splits\<close>)
  then show "map_get (getReadModels st pairs) k = Some r \<Longrightarrow> row_ok r" by (simp add: getReadModels_def)
qed

lemma migrate_ok:
  assumes st: "rows_ok st" and pre: "\<And>k r. map_get pre k = Some r \<Longrightarrow> row_ok r"
  shows "\<exists>ev st'. migrateEntityIds now ms pre st = Inr (ev, st') \<and> rows_ok st'"
proof -
  define entries where "entries = filter (\<lambda>e. eim_fromId e \<noteq> eim_toId e) ms"
  define toFetch where "toFetch = map (\<lambda>e. (eim_collection e, eim_fromId e)) (filter (\<lambda>e. \<not> map_has pre (migration_key e)) entries)"
  define fetched where "fetched = (if toFetch \<noteq> [] then getReadModels st toFetch else [])"
  have f: "\<And>k r. map_get fetched k = Some r \<Longrightarrow> row_ok r"
    using getReadModels_ok [OF st] by (auto simp: fetched_def split: if_splits)
  let ?P = "\<lambda>ps. \<forall>p \<in> set ps. object_text (mig_effectiveData p) \<and>
      (\<forall>s. mig_serverData p = Some s \<longrightarrow> object_text s \<and> (\<not> mig_hasLocalChanges p \<longrightarrow> mig_effectiveData p = s))"
  obtain pss where pss: "map_results (migration_params now pre fetched) entries = Inr pss" "\<forall>ps \<in> set pss. ?P ps"
  proof -
    have "\<exists>ys. map_results (migration_params now pre fetched) entries = Inr ys \<and> (\<forall>y \<in> set ys. ?P y)"
      by (rule map_results_ok) (rule migration_params_ok [of pre fetched], (rule pre f, assumption)+)
    then show "(\<And>pss. map_results (migration_params now pre fetched) entries = Inr pss \<Longrightarrow> \<forall>ps \<in> set pss. ?P ps \<Longrightarrow> thesis) \<Longrightarrow> thesis"
      by blast
  qed
  have "rows_ok (migrateReadModelIds (concat pss) st)" using st by (rule rows_ok_migrate) (use pss(2) in auto)
  then show ?thesis using st pss(1)
    by (auto simp: migrateEntityIds_def Let_def entries_def toFetch_def fetched_def)
qed


definition state_ok :: "rowState \<Rightarrow> bool" where
  "state_ok s \<longleftrightarrow> base_ok (row_current s)"

lemma fold_mutation_ok:
  assumes "\<And>k. base_ok (baselineOf k)" and "mutation_ok op" and "\<forall>s \<in> set (map_values rows). state_ok s"
  shows "\<exists>rows'. fold_mutation now baselineOf idRemap op rows = Inr rows' \<and> (\<forall>s \<in> set (map_values rows'). state_ok s)"
proof -
  define i where "i = case_option (mut_id op) id (map_get idRemap (mut_collection op @ '':'' @ mut_id op))"
  define rowKey where "rowKey = mut_collection op @ '':'' @ i"
  define state where "state = (case map_get rows rowKey of Some s \<Rightarrow> s
    | None \<Rightarrow> \<lparr>row_collection = mut_collection op, row_id = i, row_baseline = baselineOf rowKey,
        row_current = baselineOf rowKey, row_cacheKeysSeen = [], row_touched = False\<rparr>)"
  define state1 where "state1 = (case mut_cacheKey op of
    Some k \<Rightarrow> state\<lparr>row_cacheKeysSeen := set_add k (row_cacheKeysSeen state)\<rparr> | None \<Rightarrow> state)"
  have "state_ok state" using assms(1,3) by (fastforce simp: state_def state_ok_def dest: map_of_SomeD split: option.splits)
  then have s1: "state_ok state1" by (auto simp: state1_def state_ok_def split: option.split)
  then obtain w where w: "row_write now i (row_current state1) op = Inr w" "\<forall>r. w = Some (Some r) \<longrightarrow> row_ok r"
    using row_write_ok assms(2) by (metis state_ok_def)
  let ?new = "case w of None \<Rightarrow> state1 | Some r \<Rightarrow> state1\<lparr>row_current := r, row_touched := True\<rparr>"
  have "state_ok ?new" using s1 w(2) by (auto simp: state_ok_def split: option.split)
  then have "\<forall>s \<in> set (map_values (map_set rowKey ?new rows)). state_ok s"
    using assms(3) by (auto dest!: map_set_mem)
  moreover have "fold_mutation now baselineOf idRemap op rows = map_result (\<lambda>written. map_set rowKey
      (case written of None \<Rightarrow> state1 | Some r \<Rightarrow> state1\<lparr>row_current := r, row_touched := True\<rparr>) rows)
      (row_write now i (row_current state1) op)"
    by (simp only: fold_mutation_def Let_def i_def rowKey_def state_def state1_def)
  then have "fold_mutation now baselineOf idRemap op rows = Inr (map_set rowKey ?new rows)" using w(1) by simp
  ultimately show ?thesis by blast
qed

lemma fold_mutations_ok:
  assumes "\<And>k. base_ok (baselineOf k)" and "\<forall>op \<in> set ops. mutation_ok op" and "\<forall>s \<in> set (map_values rows). state_ok s"
  shows "\<exists>rows'. fold_result (fold_mutation now baselineOf idRemap) ops rows = Inr rows' \<and>
    (\<forall>s \<in> set (map_values rows'). state_ok s)"
  using assms(2,3)
proof (induction ops arbitrary: rows)
  case (Cons op ops)
  then have "mutation_ok op" by simp
  from fold_mutation_ok [where baselineOf = baselineOf and now = now and idRemap = idRemap, OF assms(1) this Cons.prems(2)]
  obtain r1 where r1: "fold_mutation now baselineOf idRemap op rows = Inr r1" "\<forall>s \<in> set (map_values r1). state_ok s" by blast
  then show ?case using Cons.IH [OF _ r1(2)] Cons.prems(1) by simp
qed auto

lemma plan_row_saves:
  "state_ok (snd kr) \<Longrightarrow> \<forall>r \<in> set (plan_save plan). row_ok r \<Longrightarrow> \<forall>r \<in> set (plan_save (plan_row mt kr plan)). row_ok r"
  by (cases kr) (auto simp: plan_row_def plan_deletion_def state_ok_def Let_def split: option.splits if_splits)

lemma plan_rows_saves:
  assumes "\<forall>s \<in> set (map_values rows). state_ok s" and "\<forall>r \<in> set (plan_save plan). row_ok r"
  shows "\<forall>r \<in> set (plan_save (fold (plan_row mt) rows plan)). row_ok r"
  using assms(2) by (rule fold_invariant) (rule plan_row_saves, use assms(1) in force)

lemma commit_ok:
  assumes st: "rows_ok st" and pre: "\<And>k r. map_get pre k = Some r \<Longrightarrow> row_ok r" and ms: "\<forall>m \<in> set ms. mutation_ok m"
  shows "\<exists>res st'. commit now [] ms pre st = (Inr res, st') \<and> rows_ok st'"
proof -
  define migrations where "migrations = concat (map migration_of ms)"
  have "\<exists>ev st'. migrateEntityIds now migrations pre st = Inr (ev, st') \<and> rows_ok st'"
    by (rule migrate_ok [OF st]) (rule pre)
  then obtain ev st1 where m: "(if migrations = [] then Inr ([], st) else migrateEntityIds now migrations pre st) = Inr (ev, st1)"
      and st1: "rows_ok st1"
    using st by (cases "migrations = []") auto
  define idRemap where "idRemap = fold (\<lambda>e. map_set (migration_key e) (eim_toId e)) migrations []"
  define rowOps where "rowOps = filter (\<lambda>m. migration_of m = []) ms"
  have "\<exists>rows. commit_rows now rowOps idRemap pre st1 = Inr rows \<and> (\<forall>s \<in> set (map_values rows). state_ok s)"
    unfolding commit_rows_def Let_def
  proof (rule fold_mutations_ok)
    show "base_ok (first_some (map_get pre k) (map_get (if P then getReadModels st1 ps else []) k))" for k P ps
      using pre getReadModels_ok [OF st1] by (auto simp: first_some_def split: option.splits)
  qed (use ms in \<open>auto simp: rowOps_def\<close>)
  then obtain rows where rows: "commit_rows now rowOps idRemap pre st1 = Inr rows" "\<forall>s \<in> set (map_values rows). state_ok s" by blast
  have final: "rows_ok (addCacheKeysToReadModels (plan_associate plan) (deleteReadModels (plan_delete plan)
      (saveReadModels (plan_save plan) st1)))"
    if "\<forall>r \<in> set (plan_save plan). row_ok r" for plan
    by (intro rows_ok_batches(2,3) rows_ok_batches(1) [OF st1]) (use that in auto)
  show ?thesis
    using m rows(1) st st1 final [OF plan_rows_saves [OF rows(2)]]
    by (auto simp: commit_def Let_def migrations_def [symmetric] idRemap_def [symmetric] rowOps_def [symmetric]
        junction_ops_def split: if_splits)
qed

section \<open>Every operation succeeds and keeps the rows in shape\<close>

datatype readModelOp =
    SingleWrite readModelMutation
  | ClearLocal string string
  | Migrate "entityIdMigration list" "(string, readModelRecord) jsmap"
  | Commit "readModelMutation list" "(string, readModelRecord) jsmap"

fun run_op :: "int \<Rightarrow> readModelOp \<Rightarrow> 'c inMemoryStorage \<Rightarrow> storeError + 'c inMemoryStorage" where
  "run_op now (SingleWrite op) st = map_result snd (single_write now op st)"
| "run_op now (ClearLocal c i) st = Inr (clearLocalChanges now c i st)"
| "run_op now (Migrate ms pre) st = map_result snd (migrateEntityIds now ms pre st)"
| "run_op now (Commit ms pre) st = (case commit now [] ms pre st of (Inl e, st') \<Rightarrow> Inl e | (Inr res, st') \<Rightarrow> Inr st')"

fun op_ok :: "readModelOp \<Rightarrow> bool" where
  "op_ok (SingleWrite op) = mutation_ok op"
| "op_ok (ClearLocal c i) = True"
| "op_ok (Migrate ms pre) = (\<forall>r \<in> set (map_values pre). row_ok r)"
| "op_ok (Commit ms pre) = ((\<forall>m \<in> set ms. mutation_ok m) \<and> (\<forall>r \<in> set (map_values pre). row_ok r))"

lemma rows_ok_save_row [intro]: "rows_ok st \<Longrightarrow> row_ok r \<Longrightarrow> rows_ok (snd (save_row base r k st))"
  by (auto simp: save_row_def Let_def split: option.split)

lemma server_write_ok:
  assumes "rows_ok st" and n: "jsval_wf (JObj n)"
  shows "\<exists>out st'. server_write now c i (JObj n) k meta st = Inr (out, st') \<and> rows_ok st'"
proof -
  note base = rows_ok_get [OF assms(1), of c i]
  obtain eff loc where e: "effective_over (getReadModel st c i) n (json_of (JObj n)) = Inr (eff, loc)" "object_text eff"
      "\<not> loc \<longrightarrow> eff = json_of (JObj n)" using effective_over_ok [OF base n] by blast
  let ?r = "computed_record (getReadModel st c i) c i k (Some (json_of (JObj n))) eff loc meta now"
  have "row_ok ?r" using e(2,3) object_text_json [OF n] by (simp add: computed_record_def row_ok_def)
  then have "rows_ok (snd (save_row (getReadModel st c i) ?r k st))" using assms(1) by blast
  then show ?thesis unfolding server_write_def Let_def server_record using e(1) assms(1)
    by (cases "save_row (getReadModel st c i) ?r k st") (auto split: option.split)
qed

lemma local_write_ok: "rows_ok st \<Longrightarrow> object_text t \<Longrightarrow> rows_ok (snd (local_write now c i t k st))"
  using local_record_ok [OF rows_ok_get, of st t c i]
  by (auto simp: local_write_def Let_def local_record split: option.split)


text \<open>
  C23: Read models keep their shape and no operation fails. Over rows whose texts are the texts of objects, where
  a row without local changes shows its server baseline, every single write, clearing of local changes, id
  migration and batched commit of object data succeeds, and leaves such rows.
\<close>
theorem read_model_rows_ok:
  assumes "rows_ok st" and "op_ok op"
  shows "\<exists>st'. run_op now op st = Inr st' \<and> rows_ok st'"
proof (cases op)
  case (SingleWrite m)
  show ?thesis
  proof (cases m)
    case (SetServer c i d k meta)
    then obtain n where "d = JObj n" "jsval_wf (JObj n)" using assms(2) SingleWrite by auto
    then show ?thesis using server_write_ok [OF assms(1), of n now c i k meta] SingleWrite SetServer
      by (auto simp: setServerData_def)
  next
    case (MergeServer c i d k meta)
    then obtain n where n: "d = JObj n" "jsval_wf (JObj n)" using assms(2) SingleWrite by auto
    obtain n' where "merged_baseline (getReadModel st c i) (JObj n) = Inr (JObj n')" "jsval_wf (JObj n')"
      using merged_baseline_ok [OF rows_ok_get [OF assms(1)] n(2)] by blast
    then show ?thesis using server_write_ok [OF assms(1), of n' now c i k meta] SingleWrite MergeServer n
      by (auto simp: mergeServerData_def)
  next
    case (SetLocal c i d k)
    then obtain n where "d = JObj n" "jsval_wf (JObj n)" using assms(2) SingleWrite by auto
    then show ?thesis using local_write_ok [OF assms(1) object_text_json, of n now c i k] SingleWrite SetLocal
      by (auto simp: setLocalData_def)
  next
    case (ApplyLocal c i d k)
    then obtain n where n: "d = JObj n" "jsval_wf (JObj n)" using assms(2) SingleWrite by auto
    obtain l where l: "current_data (getReadModel st c i) = Inr (JObj l)" "jsval_wf (JObj l)"
      using current_data_ok [OF rows_ok_get [OF assms(1)]] by blast
    have "object_text (json_of (JObj (spread_over (JObj l) (JObj n))))"
      by (rule object_text_json [OF spread_wf [OF l(2) n(2)]])
    then show ?thesis using local_write_ok [OF assms(1)] SingleWrite ApplyLocal n(1) l(1)
      by (auto simp: applyLocalChanges_def)
  next
    case (DeleteRow c i)
    then show ?thesis using assms(1) SingleWrite by (auto simp: rms_delete_def split: option.split)
  next
    case (SetClientMetadata c i m)
    then show ?thesis using assms(1) rows_ok_get [OF assms(1), of c i] SingleWrite
      by (auto simp: setClientMetadata_def row_ok_def split: option.split intro!: rows_ok_save)
  qed (use assms(1) SingleWrite in auto)
next
  case (ClearLocal c i)
  then show ?thesis using assms(1) rows_ok_get [OF assms(1), of c i]
    by (auto simp: clearLocalChanges_def row_ok_def split: option.split intro!: rows_ok_save)
next
  case (Migrate ms pre)
  have "\<exists>ev st'. migrateEntityIds now ms pre st = Inr (ev, st') \<and> rows_ok st'"
    by (rule migrate_ok [OF assms(1)]) (use assms(2) Migrate in \<open>auto dest!: map_of_SomeD\<close>)
  then show ?thesis using Migrate by auto
next
  case (Commit ms pre)
  have "\<exists>res st'. commit now [] ms pre st = (Inr res, st') \<and> rows_ok st'"
    by (rule commit_ok [OF assms(1)]) (use assms(2) Commit in \<open>auto dest!: map_of_SomeD\<close>)
  then show ?thesis using Commit by auto
qed

section \<open>Reverting local changes\<close>


text \<open>What local writes may make of a row \<open>r0\<close>, or of no row.\<close>

definition local_version :: "string \<Rightarrow> string \<Rightarrow> readModelRecord option \<Rightarrow> readModelRecord option \<Rightarrow> bool" where
  "local_version c i base cur \<longleftrightarrow>
    (case cur of
       None \<Rightarrow> base = None
     | Some r \<Rightarrow> rm_collection r = c \<and> rm_id r = i \<and>
         (case base of
            None \<Rightarrow> rm_hasLocalChanges r \<and> rm_serverData r = None
          | Some r0 \<Rightarrow> rm_serverData r = rm_serverData r0 \<and> rm_revision r = rm_revision r0 \<and>
              rm_position r = rm_position r0 \<and> rm_clientMetadata r = rm_clientMetadata r0 \<and>
              (rm_hasLocalChanges r \<or> rm_effectiveData r = rm_effectiveData r0)))"

lemma local_write_version:
  assumes "local_version c i base (getReadModel st c i)"
  shows "local_version c i base (getReadModel (snd (local_write now c i t k st)) c i)"
proof (cases "fst (local_write now c i t k st) = RowUnchanged")
  case True
  then have "snd (local_write now c i t k st) = st"
    by (auto simp: local_write_def Let_def save_row_def split: option.splits if_splits)
  then show ?thesis using assms by simp
next
  case False
  let ?r = "computed_record (getReadModel st c i) c i k (Option.bind (getReadModel st c i) rm_serverData) t True None now"
  have "local_write now c i t k st = save_row (getReadModel st c i) ?r k st"
    using False by (auto simp: local_write_def Let_def local_record split: option.splits if_splits)
  then obtain ks where "getReadModel (snd (local_write now c i t k st)) c i = Some (?r\<lparr>rm_cacheKeys := ks\<rparr>)"
    using saved_row [of "getReadModel st c i" ?r k st "fst (save_row (getReadModel st c i) ?r k st)"
        "snd (save_row (getReadModel st c i) ?r k st)" c i] by auto
  then show ?thesis using assms
    by (auto simp: local_version_def computed_record_def first_some_def split: option.splits)
qed

fun local_mutation :: "string \<Rightarrow> string \<Rightarrow> readModelMutation \<Rightarrow> bool" where
  "local_mutation c i (SetLocal c' i' d k) = (c' = c \<and> i' = i)"
| "local_mutation c i (ApplyLocal c' i' d k) = (c' = c \<and> i' = i)"
| "local_mutation c i _ = False"

lemma single_local_version:
  assumes "local_mutation c i op" and "local_version c i base (getReadModel st c i)" and "single_write now op st = Inr (out, st')"
  shows "local_version c i base (getReadModel st' c i)"
  using assms local_write_version [OF assms(2)]
  by (cases "(c, i, op)" rule: local_mutation.cases)
    (auto simp: setLocalData_def applyLocalChanges_def map_result_Inr, (metis snd_conv)+)

lemma get_delete [simp]: "getReadModel (deleteReadModel c i st) c i = None"
  by (simp add: getReadModel_def deleteReadModel_def)

text \<open>
  Clearing undoes local changes. After any sequence of local writes to a row, clearing its local changes
  leaves no row where there was none; where a row without local changes and with a server baseline was,
  the row again shows its old texts, with revision, position and client metadata as they were.
\<close>
theorem clear_undoes_local_writes:
  assumes "list_all (\<lambda>(t, op). local_mutation c i op) ops"
    and "fold_result (\<lambda>(t, op) st. map_result snd (single_write t op st)) ops st = Inr st1"
    and "\<And>r. getReadModel st c i = Some r \<Longrightarrow> rm_collection r = c \<and> rm_id r = i \<and> row_ok r \<and>
      \<not> rm_hasLocalChanges r \<and> rm_serverData r \<noteq> None"
  shows "case (getReadModel st c i, getReadModel (clearLocalChanges now c i st1) c i) of
      (None, None) \<Rightarrow> True
    | (Some r0, Some r) \<Rightarrow> \<not> rm_hasLocalChanges r \<and> rm_serverData r = rm_serverData r0 \<and>
        rm_effectiveData r = rm_effectiveData r0 \<and> rm_revision r = rm_revision r0 \<and>
        rm_position r = rm_position r0 \<and> rm_clientMetadata r = rm_clientMetadata r0
    | _ \<Rightarrow> False"
proof -
  let ?base = "getReadModel st c i"
  have "local_version c i ?base ?base" using assms(3) by (auto simp: local_version_def split: option.split)
  then have v: "local_version c i ?base (getReadModel st1 c i)"
    by (rule fold_result_invariant [OF assms(2), where P = "\<lambda>s. local_version c i ?base (getReadModel s c i)"])
      (use assms(1) single_local_version [of c i _ ?base] in \<open>fastforce simp: list_all_iff map_result_Inr\<close>)
  show ?thesis
  proof (cases ?base)
    case None
    then show ?thesis using v
      by (auto simp: local_version_def clearLocalChanges_def split: option.splits)
  next
    case (Some r0)
    then obtain r where r: "getReadModel st1 c i = Some r" "rm_collection r = c" "rm_id r = i"
        "rm_serverData r = rm_serverData r0" "rm_revision r = rm_revision r0" "rm_position r = rm_position r0"
        "rm_clientMetadata r = rm_clientMetadata r0" "rm_hasLocalChanges r \<or> rm_effectiveData r = rm_effectiveData r0"
      using v by (auto simp: local_version_def split: option.splits)
    obtain s where s: "rm_serverData r0 = Some s" "rm_effectiveData r0 = s"
      using assms(3) [OF Some] by (auto simp: row_ok_def)
    have saved: "getReadModel (saveReadModel x st1) c i = Some x" if "rm_collection x = c" "rm_id x = i" for x
      using that get_save [of x st1] by simp
    show ?thesis using Some r s by (auto simp: clearLocalChanges_def saved)
  qed
qed

section \<open>Migrating onto a row that is already there\<close>

text \<open>
  An id migration overwrites the row of the server id. When the server's row has arrived under the server id
  before the optimistic row is migrated, the migration replaces it: its baseline, its revision and its data
  are gone and the optimistic copy stands there, not marked as changed.
\<close>
theorem migration_overwrites_server_row:
  assumes "getReadModel st c f = Some opt" and "rm_serverData opt = None" and "parse_text (rm_effectiveData opt) = Inr (JObj kvs)"
    and "map_get kvs ''id'' = Some (JStr f)" and "f \<noteq> t" and "getReadModel st c t = Some srv" and "rm_serverData srv = Some s"
  shows "\<exists>st' r. migrateEntityIds now [\<lparr>eim_collection = c, eim_fromId = f, eim_toId = t\<rparr>] [] st = Inr ([(c, f, t)], st') \<and>
    getReadModel st' c f = None \<and> getReadModel st' c t = Some r \<and>
    rm_serverData r = None \<and> rm_revision r = rm_revision opt \<and> \<not> rm_hasLocalChanges r \<and>
    rm_effectiveData r = json_of (JObj (map_set ''id'' (JStr t) kvs))"
proof -
  have key: "getReadModelKey c f \<noteq> getReadModelKey c t" using assms(5) by (simp add: getReadModelKey_def)
  have "patchIdField (rm_effectiveData opt) f t = Inr (json_of (JObj (map_set ''id'' (JStr t) kvs)))"
    using assms(3,4) by (simp add: patchIdField_def map_has_def spread_set_def)
  then have "migration_params now [] (getReadModels st [(c, f)]) \<lparr>eim_collection = c, eim_fromId = f, eim_toId = t\<rparr>
      = Inr [\<lparr>mig_collection = c, mig_fromId = f, mig_toId = t,
          mig_effectiveData = json_of (JObj (map_set ''id'' (JStr t) kvs)), mig_serverData = None,
          mig_hasLocalChanges = False, mig_updatedAt = now\<rparr>]"
    using assms(1,2) by (simp add: migration_params_def migration_key_def first_some_def getReadModels_def)
  then show ?thesis using assms(1,5) key
    by (auto simp: migrateEntityIds_def Let_def map_results_def migrateReadModelIds_def migrate_one_def getReadModel_def)
qed

section \<open>Concrete rows\<close>

definition doc_object :: "int \<Rightarrow> int \<Rightarrow> (string, jsval) jsmap" where
  "doc_object a b = [(''id'', JStr ''d1''), (''a'', JNum a), (''b'', JNum b)]"

lemma doc_value [simp]: "json_value (JObj (doc_object a b))" "jsval_wf (JObj (doc_object a b))"
  by (simp_all add: json_value_def doc_object_def)

definition doc_row :: "string option \<Rightarrow> string \<Rightarrow> bool \<Rightarrow> readModelRecord" where
  "doc_row server effective loc = \<lparr>rm_id = ''d1'', rm_collection = ''docs'', rm_cacheKeys = [''k1''],
    rm_serverData = server, rm_effectiveData = effective, rm_hasLocalChanges = loc, rm_updatedAt = 1,
    rm_revision = Some 4, rm_position = Some 9, rm_clientMetadata = None\<rparr>"

lemma doc_row_fields [simp]:
  "rm_id (doc_row s e l) = ''d1''" "rm_collection (doc_row s e l) = ''docs''" "rm_cacheKeys (doc_row s e l) = [''k1'']"
  "rm_serverData (doc_row s e l) = s" "rm_effectiveData (doc_row s e l) = e" "rm_hasLocalChanges (doc_row s e l) = l"
  by (simp_all add: doc_row_def)

definition doc_store :: "readModelRecord \<Rightarrow> nat inMemoryStorage" where
  "doc_store r = saveReadModel r new_storage"

lemma doc_store_get [simp]: "getReadModel (doc_store (doc_row s e l)) ''docs'' ''d1'' = Some (doc_row s e l)"
  using get_save [of "doc_row s e l" new_storage] by (simp add: doc_store_def doc_row_def)

lemma doc_rows_ok: "row_ok (doc_row s e l) \<Longrightarrow> rows_ok (doc_store (doc_row s e l))"
  unfolding doc_store_def by (rule rows_ok_save) (simp_all add: rows_ok_def new_storage_def)

text \<open>Version 1 of a document, locally changed in \<open>a\<close>, and version 2 from the server.\<close>

definition changed_row :: readModelRecord where
  "changed_row = doc_row (Some (json_of (JObj (doc_object 1 1)))) (json_of (JObj (doc_object 5 1))) True"

definition clean_row :: readModelRecord where
  "clean_row = doc_row (Some (json_of (JObj (doc_object 1 1)))) (json_of (JObj (doc_object 1 1))) False"

lemma rows_shape: "row_ok changed_row" "row_ok clean_row"
  by (auto simp: row_ok_def changed_row_def clean_row_def intro!: object_text_json simp del: jsval_wf.simps)

lemma sample_rows [simp]:
  "getReadModel (doc_store changed_row) ''docs'' ''d1'' = Some changed_row"
  "getReadModel (doc_store clean_row) ''docs'' ''d1'' = Some clean_row"
  by (simp_all add: changed_row_def clean_row_def)

theorem three_way_merge_witness:
  "\<exists>out st' r' e. setServerData 7 ''docs'' ''d1'' (JObj (doc_object 2 2)) ''k1'' None (doc_store changed_row) = Inr (out, st') \<and>
    getReadModel st' ''docs'' ''d1'' = Some r' \<and> js_parse (rm_effectiveData r') = Some (JObj e) \<and>
    map_get e ''a'' = Some (JNum 5) \<and> map_get e ''b'' = Some (JNum 2) \<and> rm_hasLocalChanges r'"
proof -
  have plain: "''a'' \<notin> set object_proto" "''b'' \<notin> set object_proto" by code_simp+
  have ch: "change_of (doc_object 1 1) (doc_object 5 1) ''a'' \<noteq> None" by (simp add: change_of_def doc_object_def)
  have "\<exists>out st' r' e. setServerData 7 ''docs'' ''d1'' (JObj (doc_object 2 2)) ''k1'' None (doc_store changed_row) = Inr (out, st') \<and>
    getReadModel st' ''docs'' ''d1'' = Some r' \<and> rm_serverData r' = Some (json_of (JObj (doc_object 2 2))) \<and>
    js_parse (rm_effectiveData r') = Some (JObj e) \<and>
    (\<forall>p. p \<notin> set object_proto \<longrightarrow> map_get e p = (if map_get (doc_object 5 1) p = map_get (doc_object 1 1) p
       then shown (doc_object 2 2) p else map_get (doc_object 5 1) p)) \<and>
    (rm_hasLocalChanges r' \<longleftrightarrow> (\<exists>p. change_of (doc_object 1 1) (doc_object 5 1) p \<noteq> None))"
    by (rule three_way_merge [OF sample_rows(1)]) (simp_all add: changed_row_def del: jsval_wf.simps)
  then obtain out st' r' e where e:
    "setServerData 7 ''docs'' ''d1'' (JObj (doc_object 2 2)) ''k1'' None (doc_store changed_row) = Inr (out, st')"
    "getReadModel st' ''docs'' ''d1'' = Some r'" "js_parse (rm_effectiveData r') = Some (JObj e)"
    "\<forall>p. p \<notin> set object_proto \<longrightarrow> map_get e p = (if map_get (doc_object 5 1) p = map_get (doc_object 1 1) p
       then shown (doc_object 2 2) p else map_get (doc_object 5 1) p)"
    "rm_hasLocalChanges r' \<longleftrightarrow> (\<exists>p. change_of (doc_object 1 1) (doc_object 5 1) p \<noteq> None)"
    by blast
  note e4 = e(4) [rule_format]
  show ?thesis using e(1-3) e4 [OF plain(1)] e4 [OF plain(2)] e(5) ch
    by (auto simp: doc_object_def shown_def)
qed

theorem commit_agrees_with_setters_witness:
  "same_effect 7 (SetServer ''docs'' ''d1'' (JObj (doc_object 2 2)) ''k2'' None) (doc_store changed_row)"
proof -
  have "row_at_home (SetServer ''docs'' ''d1'' (JObj (doc_object 2 2)) ''k2'' None) (doc_store changed_row)"
    by (simp add: row_at_home_def) (simp add: changed_row_def)
  then show ?thesis by (rule commit_agrees_with_setters) simp_all
qed

theorem read_model_rows_ok_witness:
  "\<exists>st'. run_op 7 (Commit [SetServer ''docs'' ''d1'' (JObj (doc_object 2 2)) ''k2'' None, MigrateId ''docs'' ''d1'' ''d9''] [])
     (doc_store changed_row) = Inr st' \<and> rows_ok st'"
proof -
  have "rows_ok (doc_store changed_row)" using doc_rows_ok rows_shape(1) by (simp add: changed_row_def)
  then show ?thesis by (rule read_model_rows_ok) (simp del: jsval_wf.simps)
qed

theorem clear_undoes_local_writes_witness:
  "\<exists>st1 r. fold_result (\<lambda>(t, op) st. map_result snd (single_write t op st))
      [(5, SetLocal ''docs'' ''d1'' (JObj (doc_object 3 3)) ''k1'')] (doc_store clean_row) = Inr st1 \<and>
    getReadModel (clearLocalChanges 9 ''docs'' ''d1'' st1) ''docs'' ''d1'' = Some r \<and>
    rm_effectiveData r = json_of (JObj (doc_object 1 1)) \<and> \<not> rm_hasLocalChanges r"
proof -
  let ?ops = "[(5, SetLocal ''docs'' ''d1'' (JObj (doc_object 3 3)) ''k1'')]"
  obtain st1 where st1: "fold_result (\<lambda>(t, op) st. map_result snd (single_write t op st)) ?ops (doc_store clean_row) = Inr st1"
    by simp
  have "case (getReadModel (doc_store clean_row) ''docs'' ''d1'', getReadModel (clearLocalChanges 9 ''docs'' ''d1'' st1) ''docs'' ''d1'') of
      (None, None) \<Rightarrow> True
    | (Some r0, Some r) \<Rightarrow> \<not> rm_hasLocalChanges r \<and> rm_serverData r = rm_serverData r0 \<and>
        rm_effectiveData r = rm_effectiveData r0 \<and> rm_revision r = rm_revision r0 \<and>
        rm_position r = rm_position r0 \<and> rm_clientMetadata r = rm_clientMetadata r0
    | _ \<Rightarrow> False"
    by (rule clear_undoes_local_writes [OF _ st1])
      (use rows_shape(2) in \<open>simp_all add: clean_row_def\<close>)
  moreover have "getReadModel (doc_store clean_row) ''docs'' ''d1'' = Some clean_row" by simp
  moreover have "rm_effectiveData clean_row = json_of (JObj (doc_object 1 1))" by (simp add: clean_row_def)
  ultimately show ?thesis using st1 by (auto split: option.splits)
qed

theorem migration_overwrites_server_row_witness:
  "\<exists>st' r. migrateEntityIds 9 [\<lparr>eim_collection = ''docs'', eim_fromId = ''d1'', eim_toId = ''s1''\<rparr>] []
      (saveReadModel (clean_row\<lparr>rm_id := ''s1''\<rparr>) (doc_store (doc_row None (json_of (JObj (doc_object 1 1))) True)))
      = Inr ([(''docs'', ''d1'', ''s1'')], st') \<and>
    getReadModel st' ''docs'' ''s1'' = Some r \<and> rm_serverData r = None \<and> \<not> rm_hasLocalChanges r"
proof -
  let ?opt = "doc_row None (json_of (JObj (doc_object 1 1))) True"
  let ?st = "saveReadModel (clean_row\<lparr>rm_id := ''s1''\<rparr>) (doc_store ?opt)"
  have opt: "getReadModel ?st ''docs'' ''d1'' = Some ?opt"
    using doc_store_get [of None _ True] by (simp add: getReadModel_def saveReadModel_def getReadModelKey_def clean_row_def doc_row_def)
  have srv: "getReadModel ?st ''docs'' ''s1'' = Some (clean_row\<lparr>rm_id := ''s1''\<rparr>)"
    using get_save [of "clean_row\<lparr>rm_id := ''s1''\<rparr>" "doc_store ?opt"] by (simp add: clean_row_def doc_row_def)
  have p: "parse_text (rm_effectiveData ?opt) = Inr (JObj (doc_object 1 1))"
    by (simp add: doc_row_def parse_value_text)
  have s: "rm_serverData (clean_row\<lparr>rm_id := ''s1''\<rparr>) = Some (json_of (JObj (doc_object 1 1)))"
    by (simp add: clean_row_def doc_row_def)
  show ?thesis
    using migration_overwrites_server_row [OF opt _ p _ _ srv s, of 9] by (auto simp: doc_row_def doc_object_def)
qed

end
