(* ===== verification/Failures.thy ===== *)
theory Failures
  imports Complex_Main JsValue
begin

text \<open>
  Failures of commands: the categories and exceptions of \<^verbatim>\<open>packages/client/src/types/commands.ts\<close>, the
  default mappers from a server's error response in \<^verbatim>\<open>core/failure-mapper/defaultMappers.ts\<close>, and
  retrying with exponential backoff, \<^verbatim>\<open>utils/retry.ts\<close>.  Delays are rational numbers; the random number
  of a jittered delay is an argument.
\<close>

section \<open>Categories and exceptions\<close>

datatype failureCategory =
    Transient | RequiresReview | Redundant | Unauthenticated | PermissionDenied | PermanentFailure

datatype errorSource = LocalSource | ServerSource

record serverErrorResponse =
  res_status :: int
  res_headers :: jsval
  res_body :: jsval

record failureDescriptor =
  desc_category :: failureCategory
  desc_errorCode :: "string option"
  desc_validationErrors :: "jsval option"
  desc_details :: "jsval option"

text \<open>The exceptions that a command's record or a caller may be given.\<close>

record commandFailure =
  fail_source :: errorSource
  fail_message :: string
  fail_category :: failureCategory
  fail_errorCode :: "string option"
  fail_validationErrors :: "jsval option"
  fail_details :: "jsval option"

record conflictException =
  conf_message :: string
  conf_category :: failureCategory
  conf_errorCode :: "string option"
  conf_details :: "jsval option"

datatype commandException =
    CommandFailed commandFailure
  | CommandCancelled
  | CommandTimeout
  | OtherException string

definition commandFailedException ::
  "errorSource \<Rightarrow> string \<Rightarrow> failureCategory \<Rightarrow> string option \<Rightarrow> jsval option \<Rightarrow> jsval option \<Rightarrow> commandException"
where
  "commandFailedException source message category errorCode validationErrors details =
    CommandFailed \<lparr>fail_source = source, fail_message = message, fail_category = category,
      fail_errorCode = errorCode, fail_validationErrors = validationErrors, fail_details = details\<rparr>"

fun isCommandFailed :: "commandException \<Rightarrow> bool" where
  "isCommandFailed (CommandFailed f) = True"
| "isCommandFailed _ = False"

section \<open>The default mappers\<close>

definition categoryForStatus :: "int \<Rightarrow> failureCategory" where
  "categoryForStatus status =
    (if status \<in> {408, 421, 423, 425, 429, 500, 502, 503, 504, 507} then Transient
     else if status \<in> {409, 412, 422, 404} then RequiresReview
     else if status \<in> {401, 407, 511} then Unauthenticated
     else if status \<in> {402, 403, 451} then PermissionDenied
     else PermanentFailure)"

definition defaultStatusMapper :: "serverErrorResponse \<Rightarrow> failureDescriptor" where
  "defaultStatusMapper response =
    \<lparr>desc_category = categoryForStatus (res_status response), desc_errorCode = None,
     desc_validationErrors = None, desc_details = None\<rparr>"

definition string_member :: "jsval \<Rightarrow> string \<Rightarrow> string option" where
  "string_member v n = (case js_member v n of JStr s \<Rightarrow> Some s | _ \<Rightarrow> None)"

definition readProblemType :: "jsval \<Rightarrow> string option" where
  "readProblemType body = (if \<not> is_object body then None else string_member body ''type'')"

definition hasProblemType :: "jsval \<Rightarrow> string \<Rightarrow> bool" where
  "hasProblemType body expected \<longleftrightarrow> readProblemType body = Some expected"

fun first_string :: "jsval list \<Rightarrow> string option" where
  "first_string [] = None"
| "first_string (JStr s # vs) = Some s"
| "first_string (v # vs) = first_string vs"

definition readJsonLdType :: "jsval \<Rightarrow> string option" where
  "readJsonLdType body =
    (if \<not> is_object body then None
     else (case js_member body ''@type'' of
        JStr s \<Rightarrow> Some s
      | JArr vs \<Rightarrow> (case first_string vs of Some s \<Rightarrow> Some s | None \<Rightarrow> string_member body ''type'')
      | _ \<Rightarrow> string_member body ''type''))"

definition hasJsonLdType :: "jsval \<Rightarrow> string \<Rightarrow> bool" where
  "hasJsonLdType body expected \<longleftrightarrow> readJsonLdType body = Some expected"

definition lift_type :: "(jsval \<Rightarrow> string option) \<Rightarrow> serverErrorResponse \<Rightarrow> failureDescriptor" where
  "lift_type readType response =
    (let base = defaultStatusMapper response
     in case readType (res_body response) of
          None \<Rightarrow> base
        | Some t \<Rightarrow> \<lparr>desc_category = desc_category base, desc_errorCode = Some t,
            desc_validationErrors = None, desc_details = Some (res_body response)\<rparr>)"

definition defaultProblemJsonMapper :: "serverErrorResponse \<Rightarrow> failureDescriptor" where
  "defaultProblemJsonMapper response = lift_type readProblemType response"

definition defaultLdJsonMapper :: "serverErrorResponse \<Rightarrow> failureDescriptor" where
  "defaultLdJsonMapper response = lift_type readJsonLdType response"

section \<open>Backoff\<close>

text \<open>
  A field of the configuration object may be missing, or there with the value \<open>undefined\<close>: the operator \<open>??\<close>
  takes the default for both, spreading the object over the defaults only for the first.
\<close>

datatype 'a configField = Absent | Undefined | Given 'a

definition nullish :: "'a configField \<Rightarrow> 'a \<Rightarrow> 'a" where
  "nullish field d = (case field of Given v \<Rightarrow> v | _ \<Rightarrow> d)"

definition spread_default :: "'a \<Rightarrow> 'a configField \<Rightarrow> 'a option" where
  "spread_default d field = (case field of Absent \<Rightarrow> Some d | Undefined \<Rightarrow> None | Given v \<Rightarrow> Some v)"

record retryConfig =
  rc_maxAttempts :: "nat configField"
  rc_initialDelay :: "rat configField"
  rc_maxDelay :: "rat configField"
  rc_backoffMultiplier :: "rat configField"
  rc_jitter :: "bool configField"

definition no_retryConfig :: retryConfig where
  "no_retryConfig = \<lparr>rc_maxAttempts = Absent, rc_initialDelay = Absent, rc_maxDelay = Absent,
    rc_backoffMultiplier = Absent, rc_jitter = Absent\<rparr>"

definition or_default :: "'a option \<Rightarrow> 'a \<Rightarrow> 'a" where
  "or_default x d = (case x of Some v \<Rightarrow> v | None \<Rightarrow> d)"

definition max_attempts :: "retryConfig \<Rightarrow> nat" where
  "max_attempts config = nullish (rc_maxAttempts config) 3"

text \<open>A number, or \<open>None\<close> for \<open>NaN\<close>, which \<open>undefined\<close> becomes; \<open>Math.pow(NaN, 0)\<close> is 1.\<close>

type_synonym js_number = "rat option"

definition js_pow :: "js_number \<Rightarrow> nat \<Rightarrow> js_number" where
  "js_pow x n = (if n = 0 then Some 1 else map_option (\<lambda>v. v ^ n) x)"

definition js_both :: "(rat \<Rightarrow> rat \<Rightarrow> rat) \<Rightarrow> js_number \<Rightarrow> js_number \<Rightarrow> js_number" where
  "js_both f x y = Option.bind x (\<lambda>a. map_option (f a) y)"

definition max_delay :: "retryConfig \<Rightarrow> js_number" where
  "max_delay config = spread_default 30000 (rc_maxDelay config)"

text \<open>The delay before jitter: exponential in the attempt, which counts from 1, and capped.\<close>

definition base_delay :: "nat \<Rightarrow> retryConfig \<Rightarrow> js_number" where
  "base_delay attempt config =
    js_both min
      (js_both (*) (spread_default 1000 (rc_initialDelay config))
        (js_pow (spread_default 2 (rc_backoffMultiplier config)) (attempt - 1)))
      (max_delay config)"

definition calculateBackoffDelay :: "rat \<Rightarrow> nat \<Rightarrow> retryConfig \<Rightarrow> js_number" where
  "calculateBackoffDelay random attempt config =
    (if spread_default True (rc_jitter config) = Some True
     then map_option (\<lambda>delay. of_int \<lfloor>delay * (3 / 4 + random * (1 / 2))\<rfloor>) (base_delay attempt config)
     else base_delay attempt config)"

definition shouldRetry :: "nat \<Rightarrow> retryConfig \<Rightarrow> bool" where
  "shouldRetry attempt config \<longleftrightarrow> attempt < max_attempts config"

section \<open>Retrying a function\<close>

text \<open>
  \<open>f n\<close> is what the \<open>n\<close>-th call does.  The result is the value returned or the error thrown, \<open>None\<close>
  when there was no attempt at all, and the delays slept.
\<close>

fun retry_loop ::
  "(nat \<Rightarrow> 'e + 'a) \<Rightarrow> retryConfig \<Rightarrow> ('e \<Rightarrow> bool) \<Rightarrow> (nat \<Rightarrow> rat) \<Rightarrow> nat \<Rightarrow> nat \<Rightarrow> 'e option \<Rightarrow>
   ('e option + 'a) \<times> js_number list" where
  "retry_loop f config shouldRetryError random attempt 0 lastError = (Inl lastError, [])"
| "retry_loop f config shouldRetryError random attempt (Suc left) lastError =
    (case f attempt of
       Inr v \<Rightarrow> (Inr v, [])
     | Inl e \<Rightarrow>
         if \<not> shouldRetryError e then (Inl (Some e), [])
         else (let slept = (if attempt < max_attempts config
                            then [calculateBackoffDelay (random attempt) attempt config] else []);
                   (r, ds) = retry_loop f config shouldRetryError random (attempt + 1) left (Some e)
               in (r, slept @ ds)))"

definition retryWithBackoff ::
  "(nat \<Rightarrow> 'e + 'a) \<Rightarrow> retryConfig \<Rightarrow> ('e \<Rightarrow> bool) \<Rightarrow> (nat \<Rightarrow> rat) \<Rightarrow> ('e option + 'a) \<times> js_number list" where
  "retryWithBackoff f config shouldRetryError random =
    retry_loop f config shouldRetryError random 1 (max_attempts config) None"

section \<open>Properties\<close>

lemma retry_decided:
  assumes "\<forall>j < k. \<exists>e. f (a + j) = Inl e \<and> again e" and "k < left" and "a + left = max_attempts config + 1"
  shows "retry_loop f config again random a left err =
    (let (r, ds) = retry_loop f config again random (a + k) (left - k)
                     (if k = 0 then err else Some (projl (f (a + k - 1))))
     in (r, map (\<lambda>i. calculateBackoffDelay (random i) i config) [a..<a + k] @ ds))"
  using assms
proof (induction k arbitrary: a left err)
  case (Suc k)
  from Suc.prems obtain left' where left: "left = Suc left'" by (cases left) auto
  from Suc.prems(1) obtain e where e: "f a = Inl e" "again e" by auto
  have "\<forall>j < k. \<exists>e. f (Suc a + j) = Inl e \<and> again e"
    using Suc.prems(1) by (metis Suc_less_eq add_Suc_shift)
  from Suc.IH [OF this, of left' "Some e"] Suc.prems left e
  have "retry_loop f config again random (Suc a) left' (Some e) =
    (let (r, ds) = retry_loop f config again random (Suc a + k) (left' - k)
                     (if k = 0 then Some e else Some (projl (f (Suc a + k - 1))))
     in (r, map (\<lambda>i. calculateBackoffDelay (random i) i config) [Suc a..<Suc a + k] @ ds))"
    by simp
  moreover have "a < max_attempts config" using Suc.prems left by simp
  moreover have "[a..<a + Suc k] = a # [Suc a..<Suc a + k]" by (simp add: upt_conv_Cons)
  ultimately show ?case
    using left e by (cases k) (simp_all add: split_beta Let_def)
qed (simp add: split_beta)

definition slept :: "(nat \<Rightarrow> rat) \<Rightarrow> retryConfig \<Rightarrow> nat \<Rightarrow> js_number list" where
  "slept random config calls = map (\<lambda>i. calculateBackoffDelay (random i) i config) [1..<calls]"

definition failed_before :: "(nat \<Rightarrow> 'e + 'a) \<Rightarrow> ('e \<Rightarrow> bool) \<Rightarrow> nat \<Rightarrow> bool" where
  "failed_before f again k \<longleftrightarrow> (\<forall>j \<in> {1..<k}. case f j of Inl e \<Rightarrow> again e | Inr v \<Rightarrow> False)"

lemma retry_upto:
  assumes "1 \<le> k" "k \<le> max_attempts config" "failed_before f again k"
  shows "retryWithBackoff f config again random =
    (let (r, ds) = retry_loop f config again random k (max_attempts config + 1 - k)
                     (if k = 1 then None else Some (projl (f (k - 1))))
     in (r, slept random config k @ ds))"
proof -
  have "\<exists>e. f (1 + j) = Inl e \<and> again e" if "j < k - 1" for j
  proof -
    have "1 + j \<in> {1..<k}" using that by auto
    then have "case f (1 + j) of Inl e \<Rightarrow> again e | Inr v \<Rightarrow> False"
      using assms(3) unfolding failed_before_def by blast
    then show ?thesis by (cases "f (1 + j)") auto
  qed
  then have "\<forall>j < k - 1. \<exists>e. f (1 + j) = Inl e \<and> again e" by blast
  from retry_decided [OF this, of "max_attempts config" config random None] assms show ?thesis
    by (auto simp: retryWithBackoff_def slept_def Suc_diff_le)
qed

text \<open>
  C40: Retrying.  The function is called until it succeeds, throws an error that is not to be retried, or
  has been called \<open>maxAttempts\<close> times; between two calls the loop sleeps the backoff delay of the
  attempt just made, and what the last call did is the outcome.
\<close>
theorem retry_with_backoff_spec:
  assumes "k \<le> max_attempts config" and "failed_before f again k"
  shows "(1 \<le> k \<and> f k = Inr v \<longrightarrow> retryWithBackoff f config again random = (Inr v, slept random config k)) \<and>
    (1 \<le> k \<and> f k = Inl e \<and> (\<not> again e \<or> k = max_attempts config) \<longrightarrow>
       retryWithBackoff f config again random = (Inl (Some e), slept random config k)) \<and>
    (max_attempts config = 0 \<longrightarrow> retryWithBackoff f config again random = (Inl None, []))"
proof (intro conjI impI; (elim conjE)?)
  assume "1 \<le> k" "f k = Inr v"
  then show "retryWithBackoff f config again random = (Inr v, slept random config k)"
    using retry_upto [of k config f again random] assms by (simp add: Suc_diff_le)
next
  assume "1 \<le> k" "f k = Inl e" "\<not> again e \<or> k = max_attempts config"
  then show "retryWithBackoff f config again random = (Inl (Some e), slept random config k)"
    using retry_upto [of k config f again random] assms by (auto simp: Suc_diff_le)
next
  assume "max_attempts config = 0"
  then show "retryWithBackoff f config again random = (Inl None, [])"
    by (simp add: retryWithBackoff_def)
qed

theorem retry_with_backoff_spec_witness:
  "retryWithBackoff (\<lambda>n. if n < 3 then Inl n else Inr ''ok'') no_retryConfig (\<lambda>_. True) (\<lambda>_. 1 / 2) =
    (Inr ''ok'', [Some 1000, Some 2000])"
proof -
  let ?f = "\<lambda>n::nat. if n < 3 then Inl n else Inr ''ok''"
  have "3 \<le> max_attempts no_retryConfig" by (simp add: max_attempts_def no_retryConfig_def nullish_def)
  moreover have "failed_before ?f (\<lambda>_. True) 3" by (simp add: failed_before_def)
  ultimately have "retryWithBackoff ?f no_retryConfig (\<lambda>_. True) (\<lambda>_. 1 / 2) =
      (Inr ''ok'', slept (\<lambda>_. 1 / 2) no_retryConfig 3)"
    using retry_with_backoff_spec [of 3 no_retryConfig ?f "\<lambda>_. True" "''ok''" "\<lambda>_. 1 / 2"] by simp
  moreover have "slept (\<lambda>_. 1 / 2) no_retryConfig 3 = [Some 1000, Some 2000]"
    by (simp add: slept_def calculateBackoffDelay_def base_delay_def max_delay_def no_retryConfig_def js_both_def js_pow_def
        spread_default_def upt_rec [of _ "3"] numeral_eq_Suc)
  ultimately show ?thesis by simp
qed

text \<open>A field given as \<open>undefined\<close> hides its default: the delay is no number, or the jitter is off.\<close>

lemma undefined_field_hides_default:
  "rc_initialDelay config = Undefined \<or> rc_maxDelay config = Undefined \<Longrightarrow> calculateBackoffDelay random attempt config = None"
  "rc_backoffMultiplier config = Undefined \<Longrightarrow> 1 < attempt \<Longrightarrow> calculateBackoffDelay random attempt config = None"
  "rc_jitter config = Undefined \<Longrightarrow> calculateBackoffDelay random attempt config = base_delay attempt config"
  by (auto simp: calculateBackoffDelay_def base_delay_def max_delay_def js_both_def js_pow_def spread_default_def bind_eq_None_conv)

text \<open>
  Backoff.  With a non-negative configuration the delay is never negative and, without jitter, never
  above \<open>maxDelay\<close> and never shorter at a later attempt.  With jitter it is within a quarter of the
  capped delay, so it may exceed \<open>maxDelay\<close> by a quarter of it.
\<close>
theorem backoff_bounds:
  assumes "spread_default 1000 (rc_initialDelay config) = Some i" "spread_default 2 (rc_backoffMultiplier config) = Some m"
    and "max_delay config = Some x" and "0 \<le> i" "1 \<le> m" "0 \<le> x" "0 \<le> random" "random < 1"
  shows "\<exists>b b' d. base_delay attempt config = Some b \<and> base_delay (attempt + 1) config = Some b'
    \<and> calculateBackoffDelay random attempt config = Some d \<and> 0 \<le> b \<and> b \<le> x \<and> b \<le> b'
    \<and> 0 \<le> d \<and> 3 / 4 * b - 1 < d \<and> d \<le> 5 / 4 * b \<and> (rc_jitter config = Given False \<longrightarrow> d = b)"
proof -
  let ?b = "min (i * m ^ (attempt - 1)) x" and ?b' = "min (i * m ^ attempt) x" and ?j = "3 / 4 + random * (1 / 2)"
  have base: "base_delay attempt config = Some ?b" "base_delay (attempt + 1) config = Some ?b'"
    using assms(1-3) by (simp_all add: base_delay_def js_both_def js_pow_def)
  have b: "0 \<le> ?b" using assms(4-6) by simp
  have "m ^ (attempt - 1) \<le> m ^ attempt" using assms(5) by (intro power_increasing) auto
  then have "i * m ^ (attempt - 1) \<le> i * m ^ attempt" using assms(4) by (rule mult_left_mono)
  then have mono: "?b \<le> ?b'" by (auto simp: min_def)
  have lo: "?b * (3 / 4) \<le> ?b * ?j" and hi: "?b * ?j \<le> ?b * (5 / 4)"
    using b assms(7,8) by (intro mult_left_mono; simp)+
  have "?b * ?j - 1 < of_int \<lfloor>?b * ?j\<rfloor>" "of_int \<lfloor>?b * ?j\<rfloor> \<le> ?b * ?j" by linarith+
  moreover have "0 \<le> \<lfloor>?b * ?j\<rfloor>"
    using mult_nonneg_nonneg [OF b, of ?j] assms(7) by simp
  ultimately have floor: "(0::rat) \<le> of_int \<lfloor>?b * ?j\<rfloor>" "3 / 4 * ?b - 1 < of_int \<lfloor>?b * ?j\<rfloor>"
      "of_int \<lfloor>?b * ?j\<rfloor> \<le> 5 / 4 * ?b"
    using lo hi by (simp, linarith, linarith)
  have cap: "?b \<le> x" by simp
  show ?thesis
  proof (cases "spread_default True (rc_jitter config) = Some True")
    case True
    then have "calculateBackoffDelay random attempt config = Some (of_int \<lfloor>?b * ?j\<rfloor>)"
      by (simp add: calculateBackoffDelay_def base)
    moreover have "rc_jitter config \<noteq> Given False" using True by (auto simp: spread_default_def)
    ultimately show ?thesis using base b cap mono floor by blast
  next
    case False
    then have "calculateBackoffDelay random attempt config = Some ?b" by (simp add: calculateBackoffDelay_def base)
    moreover have "3 / 4 * ?b - 1 < ?b" "?b \<le> 5 / 4 * ?b" using b by linarith+
    ultimately show ?thesis using base b cap mono by blast
  qed
qed

theorem backoff_bounds_witness:
  "\<exists>d. calculateBackoffDelay (9 / 10) 6 no_retryConfig = Some d \<and> d = 36000 \<and> max_delay no_retryConfig = Some 30000
    \<and> d \<le> 5 / 4 * 30000"
  using backoff_bounds [of no_retryConfig 1000 2 30000 "9 / 10" 6]
  by (simp add: calculateBackoffDelay_def base_delay_def max_delay_def no_retryConfig_def js_both_def js_pow_def spread_default_def)

text \<open>
  Classification by status.  The statuses that are retried are exactly the listed ones, the problem and
  JSON-LD mappers never change the category, and they lift a code only from an object body.
\<close>
theorem failure_mapping_spec:
  "(desc_category (defaultStatusMapper r) = Transient \<longleftrightarrow>
      res_status r \<in> {408, 421, 423, 425, 429, 500, 502, 503, 504, 507}) \<and>
   desc_category (defaultProblemJsonMapper r) = desc_category (defaultStatusMapper r) \<and>
   desc_category (defaultLdJsonMapper r) = desc_category (defaultStatusMapper r) \<and>
   (desc_errorCode (defaultProblemJsonMapper r) = Some t \<longleftrightarrow> hasProblemType (res_body r) t) \<and>
   (desc_errorCode (defaultLdJsonMapper r) = Some t \<longleftrightarrow> hasJsonLdType (res_body r) t) \<and>
   (hasProblemType (res_body r) t \<longrightarrow> is_object (res_body r) \<and> js_member (res_body r) ''type'' = JStr t)"
proof -
  have transient: "categoryForStatus s = Transient \<longleftrightarrow> s \<in> {408, 421, 423, 425, 429, 500, 502, 503, 504, 507}" for s
    unfolding categoryForStatus_def by (cases "s \<in> {408, 421, 423, 425, 429, 500, 502, 503, 504, 507}") (simp_all only: if_True if_False simp_thms, simp_all split: if_split del: insert_iff)
  have lifted: "desc_category (lift_type read r) = desc_category (defaultStatusMapper r)"
    "desc_errorCode (lift_type read r) = read (res_body r)" for "read"
    by (simp_all add: lift_type_def Let_def defaultStatusMapper_def split: option.split)
  have "readProblemType v = Some t \<Longrightarrow> is_object v \<and> js_member v ''type'' = JStr t" for v
    by (auto simp: readProblemType_def string_member_def split: if_splits jsval.splits)
  then show ?thesis
    unfolding lifted defaultProblemJsonMapper_def defaultLdJsonMapper_def hasProblemType_def hasJsonLdType_def
    unfolding defaultStatusMapper_def failureDescriptor.simps transient by blast
qed

end
