(* ===== verification/CommandTypes.thy ===== *)
theory CommandTypes
  imports Failures EventCache EntityRefs CommandStore
begin

text \<open>
  What the command queue works with: the body of a command record
  (\<^verbatim>\<open>packages/client/src/types/commands.ts\<close>), revisions (\<^verbatim>\<open>types/domain.ts\<close>, \<^verbatim>\<open>utils/bigint.ts\<close>),
  the registrations of command handlers with the domain executor over them (\<^verbatim>\<open>types/domain.ts\<close>), and the
  affected aggregates of a command (\<^verbatim>\<open>core/command-queue/utils.ts\<close>).  The consumer's functions
  (handlers, validators, mappers, classifiers) are fields of the records; they return, they do not throw.
\<close>

section \<open>Revisions\<close>

fun digits_of_base :: "nat \<Rightarrow> string \<Rightarrow> nat option" where
  "digits_of_base b ds =
    (if ds = [] then None
     else foldl (\<lambda>acc c. case acc of None \<Rightarrow> None | Some n \<Rightarrow>
         (let u = (of_char c :: nat);
              v = (if 48 \<le> u \<and> u \<le> 57 then u - 48 else if 97 \<le> u \<and> u \<le> 102 then u - 87
                   else if 65 \<le> u \<and> u \<le> 70 then u - 55 else b)
          in if v < b then Some (n * b + v) else None)) (Some 0) ds)"

text \<open>The pattern \<open>-?\<close> digits, which \<open>serializeBigint\<close> and \<open>safeParseSerializeBigint\<close> accept.\<close>

definition decimal_int :: "string \<Rightarrow> int option" where
  "decimal_int s =
    (let ds = (if take 1 s = ''-'' then drop 1 s else s)
     in if ds = [] \<or> \<not> list_all char_is_digit ds then None
        else Some (if take 1 s = ''-'' then - int (digits_to_nat ds) else int (digits_to_nat ds)))"

definition safeParseSerializeBigint :: "jsval \<Rightarrow> int option" where
  "safeParseSerializeBigint v = (case v of JStr s \<Rightarrow> decimal_int s | _ \<Rightarrow> None)"

text \<open>The argument of \<open>serializeBigint\<close> is a bigint, a string or absent.\<close>

datatype bigintInput = NoBigint | ABigint int | BigintText string

fun serializeBigint :: "bigintInput \<Rightarrow> string option" where
  "serializeBigint NoBigint = None"
| "serializeBigint (ABigint i) = Some (if i < 0 then CHR ''-'' # show_nat (nat (- i)) else show_nat (nat i))"
| "serializeBigint (BigintText s) = (if decimal_int s \<noteq> None then Some s else None)"

text \<open>\<open>BigInt(text)\<close>: surrounding white space, a sign, and the prefixes of other bases; \<open>None\<close> is a throw.\<close>

definition js_BigInt :: "string \<Rightarrow> int option" where
  "js_BigInt s =
    (let t = rev (dropWhile char_is_space (rev (dropWhile char_is_space s)));
         based = (\<lambda>b. map_option int (digits_of_base b (drop 2 t)))
     in if t = [] then Some 0
        else if take 2 t \<in> {''0x'', ''0X''} then based 16
        else if take 2 t \<in> {''0o'', ''0O''} then based 8
        else if take 2 t \<in> {''0b'', ''0B''} then based 2
        else if take 1 t = ''+'' then map_option int (digits_of_base 10 (drop 1 t))
        else if take 1 t = ''-'' then map_option (\<lambda>n. - int n) (digits_of_base 10 (drop 1 t))
        else map_option int (digits_of_base 10 t))"

definition parseExpectedRevision :: "jsval \<Rightarrow> int option" where
  "parseExpectedRevision v =
    (case v of JStr s \<Rightarrow> if s = [] then None else js_BigInt s | _ \<Rightarrow> None)"

datatype revisionSpec = ExactRevision string | AutoRevision "string option"

fun isAutoRevision :: "revisionSpec option \<Rightarrow> bool" where
  "isAutoRevision (Some (AutoRevision fallback)) = True"
| "isAutoRevision _ = False"

section \<open>The body of a command\<close>

record createCommandConfig =
  creates_eventType :: string
  creates_idStrategy :: idStrategy

record fileRef =
  file_id :: string
  file_name :: string
  file_mimeType :: string
  file_sizeBytes :: int
  file_storagePath :: string

record affectedAggregate =
  aff_streamId :: string
  aff_link :: jsval

record commandBody =
  cb_data :: jsval
  cb_path :: jsval
  cb_headers :: jsval
  cb_lastAttemptAt :: "int option"
  cb_error :: "commandException option"
  cb_serverResponse :: jsval
  cb_postProcess :: jsval
  cb_creates :: "createCommandConfig option"
  cb_revision :: "revisionSpec option"
  cb_fileRefs :: "fileRef list option"
  cb_modelState :: jsval
  cb_affectedAggregates :: "affectedAggregate list option"
  cb_commandIdPaths :: "refPaths option"

type_synonym command = "commandBody commandRecord"

text \<open>What the consumer submits.\<close>

record fileInput =
  fin_name :: string
  fin_type :: string
  fin_size :: int

record enqueueCommand =
  enq_type :: string
  enq_data :: jsval
  enq_path :: jsval
  enq_headers :: jsval
  enq_files :: "fileInput list"
  enq_revision :: "revisionSpec option"
  enq_service :: "string option"
  enq_dependsOn :: "string list"

record handlerCommand =
  hc_type :: string
  hc_data :: jsval
  hc_path :: jsval
  hc_headers :: jsval
  hc_fileRefs :: "fileRef list option"

datatype handlerState = InitialState jsval | RegenerateState jsval jsval

datatype handlerContext =
    Initializing string "idStrategy option"
  | Updating string string "idStrategy option"

datatype enqueueRejection =
    ValidationRejected jsval
  | UnknownCommandType string
  | ConflictRejected conflictException

datatype domainOutcome =
    DomainSuccess "anticipatedEvent list" jsval
  | DomainValidationError jsval
  | DomainUnknownCommand string
  | DomainConflict conflictException

datatype edgeStrength = Hard | Soft

type_synonym classifierInput = "command \<times> anticipatedEvent list"

record responseIdReference =
  rir_reference :: idReference
  rir_revisionPath :: "string option"

record idMappingResult =
  imr_entityId :: string
  imr_serverId :: string
  imr_nextExpectedRevision :: "string option"

text \<open>\<open>reg_resolveCacheKey\<close> takes the command's id, type, data and response to a map on cache keys.\<close>

record ('schema, 'key) handlerRegistration =
  hr_commandType :: string
  hr_aggregate :: "aggregateConfig option"
  hr_schema :: "'schema option"
  hr_validate :: "(jsval \<Rightarrow> handlerState \<Rightarrow> enqueueRejection + jsval) option"
  hr_validateAsync :: "(handlerCommand \<Rightarrow> handlerState \<Rightarrow> enqueueRejection + jsval) option"
  hr_handler :: "handlerCommand \<Rightarrow> handlerState \<Rightarrow> handlerContext \<Rightarrow> domainOutcome"
  hr_mapFailure :: "(serverErrorResponse \<Rightarrow> failureDescriptor) option"
  hr_classifyDependency :: "(classifierInput \<Rightarrow> classifierInput \<Rightarrow> edgeStrength) option"
  hr_creates :: "createCommandConfig option"
  hr_responseIdReferences :: "responseIdReference list option"
  hr_responseIdMapping :: "(command \<Rightarrow> jsval \<Rightarrow> idMappingResult list) option"
  hr_commandIdReferences :: "idReference list"
  hr_resolveCacheKey :: "(string \<Rightarrow> string \<Rightarrow> jsval \<Rightarrow> jsval \<Rightarrow> 'key \<Rightarrow> 'key) option"

text \<open>\<open>createEntityId\<close>, with the generated id as an argument.\<close>

fun createEntityId :: "string \<Rightarrow> handlerContext \<Rightarrow> jsval" where
  "createEntityId newId (Initializing cid strategy) =
    (if strategy = Some Temporary then createEntityRef newId cid Temporary else JStr newId)"
| "createEntityId newId (Updating entityId cid strategy) =
    (if strategy = Some Temporary then createEntityRef entityId cid Temporary else JStr entityId)"

section \<open>The domain executor\<close>

fun reference_path :: "idReference \<Rightarrow> string" where
  "reference_path (DirectIdReference agg path) = path"
| "reference_path (LinkIdReference aggs path) = path"

definition word_char :: "char \<Rightarrow> bool" where
  "word_char c \<longleftrightarrow> char_is_alpha c \<or> char_is_digit c \<or> c = CHR ''_''"

definition extractPathRoot :: "string \<Rightarrow> string" where
  "extractPathRoot path =
    (if take 2 path = ''$.'' then takeWhile (\<lambda>c. c \<noteq> CHR ''.'' \<and> c \<noteq> CHR ''['') (drop 2 path)
     else if take 2 path = ''$['' then
       (let quoted = drop 2 path; name = takeWhile word_char (drop 1 quoted); rest = drop (Suc (length name)) quoted
        in if take 1 quoted \<in> {[double_quote], [CHR 0x27]} \<and> name \<noteq> [] \<and>
              take 1 rest \<in> {[double_quote], [CHR 0x27]} \<and> take 1 (drop 1 rest) = '']''
           then name else [])
     else [])"

definition validateCommandIdReferencePaths :: "string \<Rightarrow> idReference list \<Rightarrow> string + unit" where
  "validateCommandIdReferencePaths commandType refs =
    fold_result (\<lambda>ref _. if extractPathRoot (reference_path ref) \<in> {''data'', ''path'', ''headers''} then Inr ()
       else Inl (''Command '' @ commandType @ '' has invalid commandIdReference path '' @ reference_path ref)) refs ()"

definition applyCommandHandlerDefaults ::
  "('schema, 'key) handlerRegistration \<Rightarrow> string + ('schema, 'key) handlerRegistration" where
  "applyCommandHandlerDefaults registration =
    (case hr_aggregate registration of
       None \<Rightarrow> Inl (''Command '' @ hr_commandType registration @ '' must declare an aggregate.'')
     | Some aggregate \<Rightarrow>
         map_result (\<lambda>_.
           if hr_responseIdReferences registration \<noteq> None \<or> hr_responseIdMapping registration \<noteq> None
           then registration
           else registration\<lparr>hr_responseIdReferences := Some
             [\<lparr>rir_reference = DirectIdReference aggregate ''$.id'',
               rir_revisionPath = Some ''$.nextExpectedRevision''\<rparr>]\<rparr>)
         (validateCommandIdReferencePaths (hr_commandType registration) (hr_commandIdReferences registration)))"

type_synonym ('schema, 'key) domainExecutor = "(string, ('schema, 'key) handlerRegistration) jsmap"

definition createDomainExecutor ::
  "('schema, 'key) handlerRegistration list \<Rightarrow> string + ('schema, 'key) domainExecutor" where
  "createDomainExecutor registrations =
    fold_result (\<lambda>reg registrationMap.
        if map_has registrationMap (hr_commandType reg)
        then Inl (''Duplicate command handler registration for '' @ hr_commandType reg)
        else map_result (\<lambda>r. map_set (hr_commandType reg) r registrationMap) (applyCommandHandlerDefaults reg))
      registrations []"

definition getRegistration_of ::
  "('schema, 'key) domainExecutor \<Rightarrow> string \<Rightarrow> ('schema, 'key) handlerRegistration option" where
  "getRegistration_of executor commandType = map_get executor commandType"

text \<open>A validation phase that is absent passes the data on.\<close>

definition validation_phase :: "(jsval \<Rightarrow> 'e + jsval) option \<Rightarrow> jsval \<Rightarrow> 'e + jsval" where
  "validation_phase phase data = (case phase of None \<Rightarrow> Inr data | Some f \<Rightarrow> f data)"

definition executor_validate ::
  "('schema \<Rightarrow> jsval \<Rightarrow> enqueueRejection + jsval) option \<Rightarrow> bool \<Rightarrow> ('schema, 'key) domainExecutor \<Rightarrow>
   handlerCommand \<Rightarrow> handlerState \<Rightarrow> enqueueRejection + jsval" where
  "executor_validate schemaValidator queryManager executor command state =
    (case map_get executor (hc_type command) of
       None \<Rightarrow> Inl (UnknownCommandType (hc_type command))
     | Some reg \<Rightarrow>
         bind_result (validation_phase
           (case (hr_schema reg, schemaValidator) of (Some schema, Some v) \<Rightarrow> Some (v schema) | _ \<Rightarrow> None)
           (hc_data command)) (\<lambda>d1.
         bind_result (validation_phase (map_option (\<lambda>f d. f d state) (hr_validate reg)) d1) (\<lambda>d2.
         validation_phase
           (if queryManager then map_option (\<lambda>f d. f (command\<lparr>hc_data := d\<rparr>) state) (hr_validateAsync reg)
            else None) d2)))"

definition executor_handle ::
  "('schema, 'key) domainExecutor \<Rightarrow> handlerCommand \<Rightarrow> handlerState \<Rightarrow> handlerContext \<Rightarrow> domainOutcome" where
  "executor_handle executor command state context =
    (case map_get executor (hc_type command) of
       None \<Rightarrow> DomainUnknownCommand (hc_type command)
     | Some reg \<Rightarrow> hr_handler reg command state context)"

section \<open>Affected aggregates\<close>

record clientAggregates =
  ca_aggregates :: "aggregateConfig list"
  ca_parseStreamId :: "string \<Rightarrow> string + jsval"

fun derive_affected ::
  "clientAggregates \<Rightarrow> anticipatedEvent list \<Rightarrow> string list \<Rightarrow> affectedAggregate list \<Rightarrow>
   string + affectedAggregate list" where
  "derive_affected aggregates [] streams affected = Inr affected"
| "derive_affected aggregates (event # events) streams affected =
    (if an_streamId event \<in> set streams then derive_affected aggregates events streams affected
     else bind_result (ca_parseStreamId aggregates (an_streamId event)) (\<lambda>link.
       derive_affected aggregates events (set_add (an_streamId event) streams)
         (affected @ [\<lparr>aff_streamId = an_streamId event,
            aff_link = spread_set link ''id'' (js_member (an_data event) ''id'')\<rparr>])))"

definition deriveAffectedAggregates ::
  "clientAggregates \<Rightarrow> anticipatedEvent list \<Rightarrow> string + affectedAggregate list" where
  "deriveAffectedAggregates aggregates events = derive_affected aggregates events [] []"

end
