(* ===== verification/EventProcessors.thy ===== *)
theory EventProcessors
  imports StorageTypes JsValue
begin

text \<open>
  Event processors: the functions of the consumer that turn an event into read model updates
  (\<^verbatim>\<open>packages/client/src/core/event-processor/types.ts\<close>), and the registry that finds them,
  \<^verbatim>\<open>EventProcessorRegistry.ts\<close>.  The objects that the registry lists and indexes are never changed
  after registration, so the two hold equal values here.
\<close>

section \<open>What a processor is given and returns\<close>

datatype updateOperation = SetOp jsval | MergeOp jsval | DeleteOp

record processorResult =
  pr_collection :: string
  pr_id :: jsval
  pr_update :: updateOperation
  pr_isServerUpdate :: bool

datatype processorReturn =
    NoReturn
  | InvalidateReturn
  | OneResult processorResult
  | ManyResults "processorResult list"

record processorContext =
  ctx_persistence :: eventPersistence
  ctx_commandId :: "string option"
  ctx_revision :: "int option"
  ctx_position :: "int option"
  ctx_streamId :: string
  ctx_eventId :: string

type_synonym 'e eventProcessor = "'e \<Rightarrow> jsval option \<Rightarrow> processorContext \<Rightarrow> processorReturn"

section \<open>The registry\<close>

record 'e processorRegistration =
  reg_eventTypes :: "string oneOrMany"
  reg_processor :: "'e eventProcessor"
  reg_persistenceTypes :: "eventPersistence list option"

record 'e normalizedRegistration =
  norm_eventTypes :: "string list"
  norm_processor :: "'e eventProcessor"
  norm_persistenceTypes :: "eventPersistence list option"

record 'e processorRegistry =
  epr_registrations :: "'e normalizedRegistration list"
  epr_eventTypeIndex :: "(string, 'e normalizedRegistration list) jsmap"

definition new_processorRegistry :: "'e processorRegistry" where
  "new_processorRegistry = \<lparr>epr_registrations = [], epr_eventTypeIndex = []\<rparr>"

definition normalize_registration :: "'e processorRegistration \<Rightarrow> 'e normalizedRegistration" where
  "normalize_registration registration =
    \<lparr>norm_eventTypes = set_of_list (many (reg_eventTypes registration)),
     norm_processor = reg_processor registration,
     norm_persistenceTypes = map_option set_of_list (reg_persistenceTypes registration)\<rparr>"

definition indexed :: "(string, 'v list) jsmap \<Rightarrow> string \<Rightarrow> 'v list" where
  "indexed m k = (case map_get m k of Some xs \<Rightarrow> xs | None \<Rightarrow> [])"

definition index_under :: "'v \<Rightarrow> string \<Rightarrow> (string, 'v list) jsmap \<Rightarrow> (string, 'v list) jsmap" where
  "index_under v k m = map_set k (indexed m k @ [v]) m"

definition epr_register :: "'e processorRegistration \<Rightarrow> 'e processorRegistry \<Rightarrow> 'e processorRegistry" where
  "epr_register registration r =
    (let normalized = normalize_registration registration
     in \<lparr>epr_registrations = epr_registrations r @ [normalized],
         epr_eventTypeIndex = fold (index_under normalized) (norm_eventTypes normalized) (epr_eventTypeIndex r)\<rparr>)"

definition persistence_allowed :: "eventPersistence \<Rightarrow> 'e normalizedRegistration \<Rightarrow> bool" where
  "persistence_allowed p reg \<longleftrightarrow> (case norm_persistenceTypes reg of None \<Rightarrow> True | Some ps \<Rightarrow> p \<in> set ps)"

definition getProcessors :: "'e processorRegistry \<Rightarrow> string \<Rightarrow> eventPersistence \<Rightarrow> 'e eventProcessor list" where
  "getProcessors r eventType persistence =
    map norm_processor (filter (persistence_allowed persistence) (indexed (epr_eventTypeIndex r) eventType))"

definition hasProcessors :: "'e processorRegistry \<Rightarrow> string \<Rightarrow> bool" where
  "hasProcessors r eventType \<longleftrightarrow> indexed (epr_eventTypeIndex r) eventType \<noteq> []"

definition getEventTypes :: "'e processorRegistry \<Rightarrow> string list" where
  "getEventTypes r = map_keys (epr_eventTypeIndex r)"

definition epr_clear :: "'e processorRegistry \<Rightarrow> 'e processorRegistry" where
  "epr_clear r = new_processorRegistry"

text \<open>A registry as its owner builds it: registrations, and clearing.\<close>

datatype 'e registryCall = Register "'e processorRegistration" | ClearRegistry

fun registry_call :: "'e registryCall \<Rightarrow> 'e processorRegistry \<Rightarrow> 'e processorRegistry" where
  "registry_call (Register g) r = epr_register g r"
| "registry_call ClearRegistry r = epr_clear r"

section \<open>The index finds what a search of all registrations finds\<close>

lemma indexed_set [simp]: "indexed (map_set k xs m) k' = (if k' = k then xs else indexed m k')"
  by (simp add: indexed_def)

lemma indexed_fold:
  "distinct ks \<Longrightarrow> indexed (fold (index_under v) ks m) k = indexed m k @ (if k \<in> set ks then [v] else [])"
  by (induction ks arbitrary: m) (auto simp: index_under_def)

lemma index_keys: "k \<in> set (map_keys (fold (index_under v) ks m)) \<longleftrightarrow> k \<in> set ks \<or> k \<in> set (map_keys m)"
  by (induction ks arbitrary: m) (auto simp: index_under_def update_keys dom_update)

definition registry_ok :: "'e processorRegistry \<Rightarrow> bool" where
  "registry_ok r \<longleftrightarrow> (\<forall>k. indexed (epr_eventTypeIndex r) k = filter (\<lambda>g. k \<in> set (norm_eventTypes g)) (epr_registrations r)
     \<and> (k \<in> set (map_keys (epr_eventTypeIndex r)) \<longleftrightarrow> (\<exists>g \<in> set (epr_registrations r). k \<in> set (norm_eventTypes g))))"

lemma register_ok: "registry_ok r \<Longrightarrow> registry_ok (epr_register g r)"
  unfolding registry_ok_def epr_register_def Let_def
  by (auto simp: indexed_fold index_keys normalize_registration_def simp del: set_map)

lemma calls_ok: "registry_ok (fold registry_call calls new_processorRegistry)"
proof (rule fold_invariant)
  show "registry_ok (new_processorRegistry :: 'a processorRegistry)" by (simp add: registry_ok_def new_processorRegistry_def indexed_def)
  then show "registry_ok (registry_call c r)" if "registry_ok r" for c :: "'a registryCall" and r
    using that by (cases c) (simp_all add: register_ok epr_clear_def)
qed

text \<open>
  Looking processors up by event type.  After any registrations the index gives, in the order of
  registration and once per registration, exactly the processors whose event types contain the type and
  whose persistence types, if given, contain the persistence; and the known types are those registered.
\<close>
theorem processor_lookup_exact:
  "let r = fold registry_call calls new_processorRegistry in
     getProcessors r t p = map norm_processor
       (filter (\<lambda>g. t \<in> set (norm_eventTypes g) \<and> persistence_allowed p g) (epr_registrations r)) \<and>
     (hasProcessors r t \<longleftrightarrow> t \<in> set (getEventTypes r)) \<and>
     (t \<in> set (getEventTypes r) \<longleftrightarrow> (\<exists>g \<in> set (epr_registrations r). t \<in> set (norm_eventTypes g)))"
  using calls_ok [of calls]
  by (simp add: Let_def registry_ok_def getProcessors_def hasProcessors_def getEventTypes_def conj_commute
      filter_empty_conv del: set_map)

end
