(* ===== verification/AnticipatedEvents.thy ===== *)
theory AnticipatedEvents
  imports CommandTypes EventProcessors ReadModelStore
begin

text \<open>
  Anticipated events, \<^verbatim>\<open>packages/client/src/core/command-lifecycle/AnticipatedEventHandler.ts\<close>: the events
  a command is expected to cause are cached, run through the processors and written to the read models as
  local changes; the handler remembers which rows each command wrote and takes the changes back when the
  command fails.  The write queue runs \<open>apply-anticipated\<close> operations one at a time, so \<open>cache\<close> is the
  operation itself.  The guard \<open>isAnticipatedEvent\<close> is the type of the events.  An operation that throws
  keeps the changes it has made: its result is the error, if any, and the state.
\<close>

section \<open>Runs that may throw half-way\<close>

type_synonym ('e, 's) run = "'e option \<times> 's"

definition and_then :: "('e, 's) run \<Rightarrow> ('s \<Rightarrow> ('e, 's) run) \<Rightarrow> ('e, 's) run" where
  "and_then r f = (case r of (None, s) \<Rightarrow> f s | (Some e, s) \<Rightarrow> (Some e, s))"

fun run_all :: "('a \<Rightarrow> 's \<Rightarrow> ('e, 's) run) \<Rightarrow> 'a list \<Rightarrow> 's \<Rightarrow> ('e, 's) run" where
  "run_all f [] s = (None, s)"
| "run_all f (x # xs) s = and_then (f x s) (run_all f xs)"

section \<open>State\<close>

record readModelsUpdated =
  ru_collection :: string
  ru_created :: "string list"
  ru_updated :: "string list"
  ru_deleted :: "string list"
  ru_cacheKey :: string
  ru_commandId :: string

record 'c anticipation =
  an_cache :: "'c eventCache"
  an_tracked :: "(string, string list) jsmap"
  an_emitted :: "readModelsUpdated list"
  an_nextEvent :: nat

record anticipationEnv =
  ae_matchesStream :: "string \<Rightarrow> bool"
  ae_processors :: "anticipatedEvent processorRegistry"
  ae_newEventId :: "nat \<Rightarrow> string"

abbreviation an_storage :: "'c anticipation \<Rightarrow> 'c inMemoryStorage" where
  "an_storage a \<equiv> ec_storage (an_cache a)"

definition set_an_storage :: "'c inMemoryStorage \<Rightarrow> 'c anticipation \<Rightarrow> 'c anticipation" where
  "set_an_storage st a = a\<lparr>an_cache := (an_cache a)\<lparr>ec_storage := st\<rparr>\<rparr>"

text \<open>The events are stored as JSON text; the dates of server events play no part here.\<close>

definition json_codec :: eventCodec where
  "json_codec = \<lparr>stringify = json_of, epoch = (\<lambda>_. 0)\<rparr>"

section \<open>Applying the events of a command\<close>

definition narrowToProcessorState :: "jsval \<Rightarrow> jsval option" where
  "narrowToProcessorState v = (case v of JObj kvs \<Rightarrow> Some v | _ \<Rightarrow> None)"

text \<open>\<open>entityIdToString(r.id)\<close> when it is a string.\<close>

definition row_key :: "jsval \<Rightarrow> string option" where
  "row_key i = (case entityIdToString i of JStr s \<Rightarrow> Some s | _ \<Rightarrow> None)"

definition applyLocalResult ::
  "int \<Rightarrow> processorResult \<Rightarrow> string \<Rightarrow> 'c inMemoryStorage \<Rightarrow> storeError + writeOutcome \<times> 'c inMemoryStorage" where
  "applyLocalResult now r cacheKey st =
    (case row_key (pr_id r) of
       None \<Rightarrow> Inr (RowUnchanged, st)
     | Some rowKey \<Rightarrow>
         (case pr_update r of
            DeleteOp \<Rightarrow> Inr (rms_delete (pr_collection r) rowKey st)
          | SetOp data \<Rightarrow> Inr (setLocalData now (pr_collection r) rowKey data cacheKey st)
          | MergeOp data \<Rightarrow> applyLocalChanges now (pr_collection r) rowKey data cacheKey st))"

text \<open>The row keys touched so far, and the buckets of created, updated and deleted rows per collection.\<close>

type_synonym rowBuckets = "(string, string list \<times> string list \<times> string list) jsmap"

definition bucket_row :: "string \<Rightarrow> writeOutcome \<Rightarrow> string \<Rightarrow> rowBuckets \<Rightarrow> rowBuckets" where
  "bucket_row collection outcome rowKey buckets =
    (let (c, u, d) = (case map_get buckets collection of Some b \<Rightarrow> b | None \<Rightarrow> ([], [], []))
     in map_set collection
          (case outcome of RowCreated \<Rightarrow> (c @ [rowKey], u, d) | RowUpdated \<Rightarrow> (c, u @ [rowKey], d)
             | RowDeleted \<Rightarrow> (c, u, d @ [rowKey]) | RowUnchanged \<Rightarrow> (c, u, d)) buckets)"

record 'c applyState =
  ap_state :: "'c anticipation"
  ap_updatedIds :: "string list"
  ap_buckets :: rowBuckets

definition apply_result ::
  "int \<Rightarrow> string \<Rightarrow> processorResult \<Rightarrow> 'c applyState \<Rightarrow> (storeError, 'c applyState) run" where
  "apply_result now cacheKey r p =
    (case row_key (pr_id r) of
       None \<Rightarrow> (None, p)
     | Some rowKey \<Rightarrow>
         (case applyLocalResult now r cacheKey (an_storage (ap_state p)) of
            Inl e \<Rightarrow> (Some e, p)
          | Inr (outcome, st) \<Rightarrow>
              (let p1 = p\<lparr>ap_state := set_an_storage st (ap_state p)\<rparr>
               in (None, if outcome = RowUnchanged then p1
                   else p1\<lparr>ap_updatedIds := ap_updatedIds p @ [pr_collection r @ '':'' @ rowKey],
                           ap_buckets := bucket_row (pr_collection r) outcome rowKey (ap_buckets p)\<rparr>))))"

fun processor_results :: "processorReturn \<Rightarrow> processorResult list" where
  "processor_results NoReturn = []"
| "processor_results InvalidateReturn = []"
| "processor_results (OneResult r) = [r]"
| "processor_results (ManyResults rs) = rs"

definition anticipated_context :: "string \<Rightarrow> anticipatedEvent \<Rightarrow> processorContext" where
  "anticipated_context cid event =
    \<lparr>ctx_persistence = AnticipatedEvent, ctx_commandId = Some cid, ctx_revision = None, ctx_position = None,
     ctx_streamId = an_streamId event, ctx_eventId = []\<rparr>"

definition apply_event ::
  "anticipationEnv \<Rightarrow> int \<Rightarrow> command \<Rightarrow> anticipatedEvent \<Rightarrow> 'c applyState \<Rightarrow> (storeError, 'c applyState) run" where
  "apply_event env now command event p =
    (if \<not> ae_matchesStream env (an_streamId event) then (None, p)
     else
       (let a = ap_state p;
            (_, ec) = cacheAnticipatedEvent json_codec now (ae_newEventId env (an_nextEvent a)) event
                        (commandId command) [cmd_cacheKey command] (an_cache a);
            state = narrowToProcessorState (cb_modelState (cmd_body command))
        in run_all (\<lambda>processor.
             run_all (apply_result now (cmd_cacheKey command))
               (processor_results (processor event state (anticipated_context (commandId command) event))))
             (getProcessors (ae_processors env) (an_type event) AnticipatedEvent)
             (p\<lparr>ap_state := a\<lparr>an_cache := ec, an_nextEvent := an_nextEvent a + 1\<rparr>\<rparr>)))"

text \<open>\<open>key.indexOf(':')\<close> splits a tracked key at its first colon.\<close>

definition split_key :: "string \<Rightarrow> (string \<times> string) option" where
  "split_key key =
    (let collection = takeWhile (\<lambda>c. c \<noteq> CHR '':'') key
     in if length collection = length key then None else Some (collection, drop (length collection + 1) key))"

definition stamp_client :: "string \<Rightarrow> string \<Rightarrow> 'c inMemoryStorage \<Rightarrow> 'c inMemoryStorage" where
  "stamp_client clientId key st =
    (case split_key key of
       None \<Rightarrow> st
     | Some (collection, i) \<Rightarrow> setClientMetadata collection i \<lparr>cm_clientId = clientId, cm_reconciledAt = None\<rparr> st)"

definition updated_event :: "command \<Rightarrow> string \<times> string list \<times> string list \<times> string list \<Rightarrow> readModelsUpdated" where
  "updated_event command b =
    (case b of (collection, created, updated, deleted) \<Rightarrow>
      \<lparr>ru_collection = collection, ru_created = created, ru_updated = updated, ru_deleted = deleted,
       ru_cacheKey = cmd_cacheKey command, ru_commandId = commandId command\<rparr>)"

definition finish_apply :: "command \<Rightarrow> string option \<Rightarrow> 'c applyState \<Rightarrow> 'c anticipation" where
  "finish_apply command clientId p =
    (let a = ap_state p;
         ids = ap_updatedIds p;
         st = (case clientId of None \<Rightarrow> an_storage a | Some i \<Rightarrow> fold (stamp_client i) ids (an_storage a))
     in set_an_storage st (a\<lparr>an_tracked := (if ids \<noteq> [] then map_set (commandId command) ids (an_tracked a)
                                             else an_tracked a),
                             an_emitted := an_emitted a @ map (updated_event command) (ap_buckets p)\<rparr>))"

definition onApplyAnticipatedOp ::
  "anticipationEnv \<Rightarrow> int \<Rightarrow> command \<Rightarrow> anticipatedEvent list \<Rightarrow> string option \<Rightarrow> 'c anticipation \<Rightarrow>
   (storeError, 'c anticipation) run" where
  "onApplyAnticipatedOp env now command events clientId a =
    (case run_all (apply_event env now command) events \<lparr>ap_state = a, ap_updatedIds = [], ap_buckets = []\<rparr> of
       (Some e, p) \<Rightarrow> (Some e, ap_state p)
     | (None, p) \<Rightarrow> (None, finish_apply command clientId p))"

section \<open>Cleaning up\<close>

definition cleanupOnSucceeded :: "string \<Rightarrow> 'c anticipation \<Rightarrow> 'c anticipation" where
  "cleanupOnSucceeded cid a = a\<lparr>an_cache := deleteAnticipatedEvents cid (an_cache a)\<rparr>"

definition cleanupOnAppliedBatch :: "string list \<Rightarrow> 'c anticipation \<Rightarrow> 'c anticipation" where
  "cleanupOnAppliedBatch ids a =
    a\<lparr>an_cache := deleteAnticipatedEventsForCommands ids (an_cache a),
      an_tracked := fold map_delete ids (an_tracked a)\<rparr>"

definition clear_tracked :: "int \<Rightarrow> string \<Rightarrow> 'c inMemoryStorage \<Rightarrow> 'c inMemoryStorage" where
  "clear_tracked now key st =
    (case split_key key of
       None \<Rightarrow> st
     | Some (collection, i) \<Rightarrow>
         if collection = [] \<or> i = [] then st else clearLocalChanges now collection i st)"

definition drop_overlay :: "int \<Rightarrow> string \<Rightarrow> 'c anticipation \<Rightarrow> 'c anticipation" where
  "drop_overlay now cid a =
    (let a1 = a\<lparr>an_cache := deleteAnticipatedEvents cid (an_cache a),
                an_tracked := map_delete cid (an_tracked a)\<rparr>
     in case map_get (an_tracked a) cid of
          None \<Rightarrow> a1
        | Some tracked \<Rightarrow> set_an_storage (fold (clear_tracked now) tracked (an_storage a1)) a1)"

definition cleanupOnFailure :: "int \<Rightarrow> string \<Rightarrow> 'c anticipation \<Rightarrow> 'c anticipation" where
  "cleanupOnFailure now cid a = drop_overlay now cid a"

definition an_regenerate ::
  "anticipationEnv \<Rightarrow> int \<Rightarrow> command \<Rightarrow> anticipatedEvent list \<Rightarrow> 'c anticipation \<Rightarrow> (storeError, 'c anticipation) run" where
  "an_regenerate env now command newEvents a =
    onApplyAnticipatedOp env now command newEvents None (drop_overlay now (commandId command) a)"

section \<open>Reading\<close>

definition getTrackedEntries :: "'c anticipation \<Rightarrow> string \<Rightarrow> string list option" where
  "getTrackedEntries a cid = map_get (an_tracked a) cid"

definition setTrackedEntries :: "string \<Rightarrow> string list \<Rightarrow> 'c anticipation \<Rightarrow> 'c anticipation" where
  "setTrackedEntries cid entries a = a\<lparr>an_tracked := map_set cid entries (an_tracked a)\<rparr>"

definition an_clearAll :: "'c anticipation \<Rightarrow> 'c anticipation" where
  "an_clearAll a = a\<lparr>an_tracked := []\<rparr>"

text \<open>A stored event back: \<open>None\<close> when its data is not an object.\<close>

definition read_anticipated :: "cachedEventRecord \<Rightarrow> storeError + anticipatedEvent option" where
  "read_anticipated r =
    bind_result (parse_text (ev_data r)) (\<lambda>data.
      if \<not> is_object data then Inr None
      else map_result (\<lambda>metadata.
          Some \<lparr>an_type = ev_type r, an_streamId = ev_streamId r, an_data = data, an_metadata = metadata\<rparr>)
        (case ev_metadata r of
           None \<Rightarrow> Inr None
         | Some t \<Rightarrow> map_result (\<lambda>m. if is_object m then Some m else None) (parse_text t)))"

definition getAnticipatedEvents :: "'c anticipation \<Rightarrow> string \<Rightarrow> storeError + anticipatedEvent list" where
  "getAnticipatedEvents a cid =
    map_result (List.map_filter id)
      (map_results read_anticipated (ec_getAnticipatedEventsByCommand (an_cache a) cid))"

definition getCommandEntities :: "'c anticipation \<Rightarrow> string \<Rightarrow> string option \<Rightarrow> string list" where
  "getCommandEntities a cid collection =
    (case getTrackedEntries a cid of
       None \<Rightarrow> []
     | Some tracked \<Rightarrow>
         concat (map (\<lambda>key. case split_key key of
             None \<Rightarrow> []
           | Some (entryCollection, i) \<Rightarrow> if collection = None \<or> collection = Some entryCollection then [i] else [])
           tracked))"

end
