(* ===== verification/CommandQueue.thy ===== *)
theory CommandQueue
  imports AnticipatedEvents ChainRegistry CacheManager
begin

text \<open>
  The state of the command queue and its work on aggregate chains,
  \<^verbatim>\<open>packages/client/src/core/command-queue/CommandQueue.ts\<close>: dependencies between commands, detection of
  same-aggregate order, revisions, and what a server response says about ids.

  The stores of the queue share one storage, \<open>q_storage\<close>; an operation of a store runs through
  \<open>with_commands\<close>, \<open>with_mappings\<close>, \<open>with_anticipation\<close> or \<open>with_cache\<close>.  The code passes command
  objects that the command store mutates in place; \<open>live_cmd\<close> reads such an object again.
  An asynchronous method is one step, except where theory \<open>CommandRuns\<close> splits it.  Generated ids, the
  sender's replies, the random number of a delay and the clock are arguments.  The mapping store is
  initialised before the queue is constructed (\<^verbatim>\<open>createCqrsClient.ts\<close> awaits it).
\<close>

section \<open>State and environment\<close>

datatype queueError =
    AssertionFailed string
  | PathThrown pathError
  | ExtractThrown extractError
  | StoreThrown storeError
  | RegistryThrown string
  | MappingThrown string
  | OutOfFuel

datatype commandEventType = EnqueuedEvent | StatusChangedEvent | CompletedEvent | FailedEvent | CancelledEvent

record commandEvent =
  ce_eventType :: commandEventType
  ce_commandId :: string
  ce_type :: string
  ce_status :: commandStatus
  ce_previousStatus :: "commandStatus option"
  ce_error :: "commandException option"
  ce_response :: jsval

datatype invalidateReason = NoExpectedRevision | EventLessResponse

text \<open>The events for subscribers of the queue, those on the library's event bus, and the hand-off of a response.\<close>

datatype queueEvent =
    Emitted commandEvent
  | BusEnqueued string string string
  | BusStatusChanged string commandStatus commandStatus string
  | BusSent string string
  | BusResponse string string jsval
  | BusCompleted string string string
  | BusFailed string string string string
  | BusCancelled string string string
  | BusInvalidateRequested string string string invalidateReason
  | BusPaused
  | BusResumed
  | ResponseHandedOff string jsval

record queueCollection =
  qc_name :: string
  qc_aggregate :: aggregateConfig

record 'schema queueEnv =
  qe_executor :: "('schema, cacheKeyIdentity) domainExecutor option"
  qe_schemaValidator :: "('schema \<Rightarrow> jsval \<Rightarrow> enqueueRejection + jsval) option"
  qe_queryManager :: bool
  qe_sender :: bool
  qe_onCommandResponse :: bool
  qe_mapFailure :: "serverErrorResponse \<Rightarrow> failureDescriptor"
  qe_retry :: retryConfig
  qe_defaultService :: string
  qe_collections :: "queueCollection list"
  qe_aggregates :: clientAggregates
  qe_anticipation :: anticipationEnv
  qe_keys :: keyEngine
  qe_newId :: "nat \<Rightarrow> string"
  qe_storagePath :: "string \<Rightarrow> string \<Rightarrow> string"
  qe_random :: "nat \<Rightarrow> rat"

text \<open>
  \<open>q_pass\<close> is what remains of the snapshot the processing loop works through, \<open>q_inflight\<close> the command it
  has handed to the sender, \<open>q_processing\<close> whether the loop's promise is pending.
\<close>

record commandQueue =
  q_storage :: "commandBody inMemoryStorage"
  q_commandStore :: "commandBody commandStore"
  q_mappingStore :: "commandBody idMappingStore"
  q_anticipation :: "commandBody anticipation"
  q_cacheManager :: "commandBody cacheManager"
  q_chains :: chainRegistry
  q_files :: "(string \<times> string) list"
  q_paused :: bool
  q_processing :: bool
  q_pendingReprocess :: bool
  q_pass :: "command list option"
  q_inflight :: "(command \<times> string \<times> command) option"
  q_retryTimers :: "(nat \<times> js_number) list"
  q_nextTimer :: nat
  q_nextId :: nat
  q_log :: "queueEvent list"

type_synonym queueRun = "(queueError, commandQueue) run"

definition commands_of :: "commandQueue \<Rightarrow> commandBody commandStore" where
  "commands_of q = (q_commandStore q)\<lparr>cs_storage := q_storage q\<rparr>"

definition set_commands :: "commandBody commandStore \<Rightarrow> commandQueue \<Rightarrow> commandQueue" where
  "set_commands s q = q\<lparr>q_commandStore := s, q_storage := cs_storage s\<rparr>"

definition with_commands :: "(commandBody commandStore \<Rightarrow> commandBody commandStore) \<Rightarrow> commandQueue \<Rightarrow> commandQueue" where
  "with_commands f q = set_commands (f (commands_of q)) q"

definition mappings_of :: "commandQueue \<Rightarrow> commandBody idMappingStore" where
  "mappings_of q = (q_mappingStore q)\<lparr>ims_storage := q_storage q\<rparr>"

definition set_mappings :: "commandBody idMappingStore \<Rightarrow> commandQueue \<Rightarrow> commandQueue" where
  "set_mappings s q = q\<lparr>q_mappingStore := s, q_storage := ims_storage s\<rparr>"

definition anticipation_of :: "commandQueue \<Rightarrow> commandBody anticipation" where
  "anticipation_of q = set_an_storage (q_storage q) (q_anticipation q)"

definition set_anticipation :: "commandBody anticipation \<Rightarrow> commandQueue \<Rightarrow> commandQueue" where
  "set_anticipation a q = q\<lparr>q_anticipation := a, q_storage := an_storage a\<rparr>"

definition with_anticipation ::
  "(commandBody anticipation \<Rightarrow> commandBody anticipation) \<Rightarrow> commandQueue \<Rightarrow> commandQueue" where
  "with_anticipation f q = set_anticipation (f (anticipation_of q)) q"

definition cache_of :: "commandQueue \<Rightarrow> commandBody cacheManager" where
  "cache_of q = (q_cacheManager q)\<lparr>cm_storage := q_storage q\<rparr>"

definition set_cache :: "commandBody cacheManager \<Rightarrow> commandQueue \<Rightarrow> commandQueue" where
  "set_cache s q = q\<lparr>q_cacheManager := s, q_storage := cm_storage s\<rparr>"

definition live_cmd :: "commandQueue \<Rightarrow> command \<Rightarrow> command" where
  "live_cmd q c = (case memory_get (q_commandStore q) (commandId c) of Some c' \<Rightarrow> c' | None \<Rightarrow> c)"

text \<open>\<open>commandStore.get\<close>, which may put a finished command into the cache.\<close>

definition q_get :: "int \<Rightarrow> string \<Rightarrow> commandQueue \<Rightarrow> command option \<times> commandQueue" where
  "q_get now cid q = (let (c, s) = cs_get now cid (commands_of q) in (c, set_commands s q))"

definition q_update :: "int \<Rightarrow> string \<Rightarrow> (command \<Rightarrow> command) \<Rightarrow> commandQueue \<Rightarrow> commandQueue" where
  "q_update now cid f q = with_commands (\<lambda>s. snd (cs_update now cid f s)) q"

definition set_body :: "(commandBody \<Rightarrow> commandBody) \<Rightarrow> command \<Rightarrow> command" where
  "set_body f c = c\<lparr>cmd_body := f (cmd_body c)\<rparr>"

definition log_event :: "queueEvent \<Rightarrow> commandQueue \<Rightarrow> commandQueue" where
  "log_event e q = q\<lparr>q_log := q_log q @ [e]\<rparr>"

definition emitCommandEvent ::
  "commandEventType \<Rightarrow> command \<Rightarrow> commandStatus option \<Rightarrow> commandQueue \<Rightarrow> commandQueue" where
  "emitCommandEvent t c previous q =
    log_event (Emitted \<lparr>ce_eventType = t, ce_commandId = commandId c, ce_type = cmd_type c,
      ce_status = cmd_status c, ce_previousStatus = previous, ce_error = cb_error (cmd_body c),
      ce_response = cb_serverResponse (cmd_body c)\<rparr>) q"

definition q_getRegistration :: "'s queueEnv \<Rightarrow> string \<Rightarrow> ('s, cacheKeyIdentity) handlerRegistration option" where
  "q_getRegistration env commandType = Option.bind (qe_executor env) (\<lambda>ex. getRegistration_of ex commandType)"

section \<open>Dependencies\<close>

fun rankSource :: "dependencySource \<Rightarrow> nat" where
  "rankSource EntityRefSource = 2"
| "rankSource ExplicitSource = 1"
| "rankSource AggregateChainSource = 0"

definition upsert_dependency :: "dependencySource \<Rightarrow> string \<Rightarrow> commandDependency list \<Rightarrow> commandDependency list" where
  "upsert_dependency source cid result =
    (if cid \<notin> set (map dep_commandId result) then result @ [\<lparr>dep_commandId = cid, dep_source = source\<rparr>]
     else map (\<lambda>d. if dep_commandId d = cid \<and> rankSource (dep_source d) < rankSource source
                   then d\<lparr>dep_source := source\<rparr> else d) result)"

definition buildCommandDependencies ::
  "string list \<Rightarrow> string list \<Rightarrow> string list \<Rightarrow> commandDependency list" where
  "buildCommandDependencies explicitDeps autoDeps refCommandIds =
    fold (upsert_dependency EntityRefSource) refCommandIds
      (fold (upsert_dependency AggregateChainSource) autoDeps
        (fold (upsert_dependency ExplicitSource) explicitDeps []))"

section \<open>Chains\<close>

definition chain_write :: "chain_ref \<Rightarrow> (aggregateChain \<Rightarrow> aggregateChain) \<Rightarrow> chainRegistry \<Rightarrow> chainRegistry" where
  "chain_write a f r = r\<lparr>chainHeap := (chainHeap r)[a := f (chain_at r a)]\<rparr>"

definition empty_chain :: aggregateChain where
  "empty_chain = \<lparr>clientStreamId = None, serverStreamId = None, createCommandId = None, createdEntityId = None,
    latestCommandId = None, lastKnownRevision = None\<rparr>"

definition extractAggregateIdFromEvents :: "anticipatedEvent list \<Rightarrow> string \<Rightarrow> string option" where
  "extractAggregateIdFromEvents events eventType =
    (case List.map_filter (\<lambda>e. if an_type e = eventType \<and> is_object (an_data e)
            then row_key (js_member (an_data e) ''id'') else None) events of
       i # _ \<Rightarrow> Some i | [] \<Rightarrow> None)"

text \<open>One aggregate of the command: the dependency on the chain's latest command, then the chain's new entry.\<close>

definition detect_one ::
  "string \<Rightarrow> createCommandConfig option \<Rightarrow> string option \<Rightarrow> affectedAggregate \<Rightarrow> string list \<times> chainRegistry \<Rightarrow>
   queueError option \<times> (string list \<times> chainRegistry)" where
  "detect_one cid creates createdStreamId aff st =
    (case st of (autoDeps, r) \<Rightarrow>
      (let streamId = aff_streamId aff;
           existing = registry_get r streamId;
           deps = (case Option.bind existing (\<lambda>a. latestCommandId (chain_at r a)) of
                     Some d \<Rightarrow> autoDeps @ [d] | None \<Rightarrow> autoDeps);
           create = (\<lambda>init. case registry_create init r of
                       Inl e \<Rightarrow> (Some (RegistryThrown e), (deps, r)) | Inr (a, r') \<Rightarrow> (None, (deps, r')))
       in case creates of
            Some config \<Rightarrow>
              if Some streamId = createdStreamId then
                (let isTemporary = (creates_idStrategy config = Temporary);
                     entity = (if isTemporary then row_key (js_member (aff_link aff) ''id'') else None);
                     creator = (if isTemporary then Some cid else None)
                 in case existing of
                      Some a \<Rightarrow> (None, (deps, chain_write a (\<lambda>c. c\<lparr>createCommandId := creator,
                          createdEntityId := entity, latestCommandId := Some cid\<rparr>) r))
                    | None \<Rightarrow>
                        create (if isTemporary
                          then empty_chain\<lparr>clientStreamId := Some streamId, createCommandId := creator,
                                 createdEntityId := entity, latestCommandId := Some cid\<rparr>
                          else empty_chain\<lparr>serverStreamId := Some streamId, latestCommandId := Some cid\<rparr>))
              else (case existing of
                  Some a \<Rightarrow> (None, (deps, chain_write a (\<lambda>c. c\<lparr>latestCommandId := Some cid\<rparr>) r))
                | None \<Rightarrow> create (empty_chain\<lparr>serverStreamId := Some streamId, latestCommandId := Some cid\<rparr>))
          | None \<Rightarrow>
              (case existing of
                 Some a \<Rightarrow> (None, (deps, chain_write a (\<lambda>c. c\<lparr>latestCommandId := Some cid\<rparr>) r))
               | None \<Rightarrow> create (empty_chain\<lparr>serverStreamId := Some streamId, latestCommandId := Some cid\<rparr>))))"

definition created_stream :: "createCommandConfig option \<Rightarrow> anticipatedEvent list \<Rightarrow> string option" where
  "created_stream creates events =
    Option.bind creates (\<lambda>config. map_option an_streamId (find (\<lambda>e. an_type e = creates_eventType config) events))"

definition detectAggregateDependencies ::
  "string \<Rightarrow> affectedAggregate list \<Rightarrow> anticipatedEvent list \<Rightarrow> createCommandConfig option \<Rightarrow> chainRegistry \<Rightarrow>
   queueError option \<times> (string list \<times> chainRegistry)" where
  "detectAggregateDependencies cid affected events creates r =
    run_all (detect_one cid creates (created_stream creates events)) affected ([], r)"

definition as_text :: "string option \<Rightarrow> jsval" where
  "as_text s = (case s of Some t \<Rightarrow> JStr t | None \<Rightarrow> JUndef)"

text \<open>Whether a revision is ahead of the one a chain knows, which counts as -1 when it has none.\<close>

definition revision_ahead :: "string \<Rightarrow> aggregateChain \<Rightarrow> bool" where
  "revision_ahead revision chain =
    (case safeParseSerializeBigint (JStr revision) of
       None \<Rightarrow> False
     | Some proposed \<Rightarrow>
         (case safeParseSerializeBigint (as_text (lastKnownRevision chain)) of Some e \<Rightarrow> e | None \<Rightarrow> -1) < proposed)"

definition advance_chain :: "string \<Rightarrow> string \<Rightarrow> chainRegistry \<Rightarrow> chainRegistry" where
  "advance_chain streamId revision r =
    (case registry_get r streamId of
       None \<Rightarrow> r
     | Some a \<Rightarrow> if revision_ahead revision (chain_at r a)
                 then chain_write a (\<lambda>c. c\<lparr>lastKnownRevision := Some revision\<rparr>) r else r)"

definition advanceChainRevisions :: "(string \<times> string) list \<Rightarrow> commandQueue \<Rightarrow> commandQueue" where
  "advanceChainRevisions updates q =
    q\<lparr>q_chains := fold (\<lambda>(streamId, revision). advance_chain streamId revision) updates (q_chains q)\<rparr>"

definition affected_streams :: "command \<Rightarrow> string list" where
  "affected_streams c = map aff_streamId (or_default (cb_affectedAggregates (cmd_body c)) [])"

definition onCommandDeleted :: "command \<Rightarrow> commandQueue \<Rightarrow> commandQueue" where
  "onCommandDeleted c q = q\<lparr>q_chains := onCommandCleanup (commandId c) (affected_streams c) (q_chains q)\<rparr>"

definition getOriginalCreateId :: "string \<Rightarrow> commandQueue \<Rightarrow> string option" where
  "getOriginalCreateId cid q =
    Option.bind (registry_find (\<lambda>c. createCommandId c = Some cid) (q_chains q))
      (\<lambda>a. createdEntityId (chain_at (q_chains q) a))"

definition getEntityIdForCommand :: "command \<Rightarrow> commandQueue \<Rightarrow> string option" where
  "getEntityIdForCommand c q =
    (if cb_creates (cmd_body c) \<noteq> None then getOriginalCreateId (commandId c) q
     else (case cb_affectedAggregates (cmd_body c) of
             Some (primary # _) \<Rightarrow> row_key (js_member (aff_link primary) ''id'') | _ \<Rightarrow> None))"

definition getIdMapping :: "jsval \<Rightarrow> commandQueue \<Rightarrow> string option" where
  "getIdMapping clientId q =
    (case entityIdToString clientId of
       JStr i \<Rightarrow> (case ims_get (mappings_of q) i of Inr (Some m) \<Rightarrow> Some (map_serverId m) | _ \<Rightarrow> None)
     | _ \<Rightarrow> None)"

end
