(* ===== verification/CommandResponses.thy ===== *)
theory CommandResponses
  imports CommandQueue
begin

text \<open>
  What the command queue (\<^verbatim>\<open>core/command-queue/CommandQueue.ts\<close>) reads off a server response: the ids the
  server assigned, the next revisions, the streams that the response does not account for; and the
  places where ids and revisions are resolved: when a command is submitted, when it is sent, and when the
  chains are rebuilt at start-up.
\<close>

section \<open>Reading a response\<close>

fun js_truthy :: "jsval \<Rightarrow> bool" where
  "js_truthy JUndef = False"
| "js_truthy JNull = False"
| "js_truthy (JBool b) = b"
| "js_truthy (JNum i) = (i \<noteq> 0)"
| "js_truthy (JStr s) = (s \<noteq> [])"
| "js_truthy _ = True"

definition readResponseField :: "jsval \<Rightarrow> string \<Rightarrow> string option" where
  "readResponseField response field = (if \<not> is_object response then None else string_member response field)"

definition extractRevisionFromResponse :: "command \<Rightarrow> string option" where
  "extractRevisionFromResponse c =
    (if \<not> js_truthy (cb_serverResponse (cmd_body c)) then None
     else readResponseField (cb_serverResponse (cmd_body c)) ''nextExpectedRevision'')"

definition hasResponseEvents :: "jsval \<Rightarrow> bool" where
  "hasResponseEvents response \<longleftrightarrow>
    is_object response \<and> (case js_member response ''events'' of JArr es \<Rightarrow> True | _ \<Rightarrow> False)"

definition response_has_events :: "jsval \<Rightarrow> bool" where
  "response_has_events response \<longleftrightarrow>
    hasResponseEvents response \<and> js_member response ''events'' \<noteq> JArr []"

definition readRevisionAtPath :: "jsval \<Rightarrow> string option \<Rightarrow> pathError + string option" where
  "readRevisionAtPath response path =
    (case path of
       None \<Rightarrow> Inr None
     | Some p \<Rightarrow> map_result (\<lambda>v. case v of JStr s \<Rightarrow> Some s | _ \<Rightarrow> None) (getAtPath response p))"

text \<open>The aggregate, the server id and the next revision that a reference finds in the response.\<close>

definition resolveResponseAggregateRef ::
  "responseIdReference \<Rightarrow> jsval \<Rightarrow> pathError + (aggregateConfig \<times> string \<times> string option) option" where
  "resolveResponseAggregateRef ref response =
    bind_result (getAtPath response (reference_path (rir_reference ref))) (\<lambda>idValue.
    map_result (\<lambda>revision.
      case rir_reference ref of
        DirectIdReference agg path \<Rightarrow>
          (case idValue of JStr s \<Rightarrow> Some (agg, s, revision) | _ \<Rightarrow> None)
      | LinkIdReference aggs path \<Rightarrow>
          if \<not> is_object idValue then None
          else (case js_member idValue ''id'' of
             JStr s \<Rightarrow> map_option (\<lambda>agg. (agg, s, revision)) (find (matchesAggregate idValue) aggs)
           | _ \<Rightarrow> None))
    (readRevisionAtPath response (rir_revisionPath ref)))"

definition affected_of :: "command \<Rightarrow> affectedAggregate list" where
  "affected_of c = or_default (cb_affectedAggregates (cmd_body c)) []"

definition link_id :: "affectedAggregate \<Rightarrow> string option" where
  "link_id aff = row_key (js_member (aff_link aff) ''id'')"

text \<open>The entity id of the only affected aggregate of a type; two of them fail the assertion.\<close>

definition findClientIdForAggregate :: "command \<Rightarrow> aggregateConfig \<Rightarrow> queueError + string option" where
  "findClientIdForAggregate c aggregate =
    fold_result (\<lambda>aff result.
        if \<not> matchesAggregate (aff_link aff) aggregate then Inr result
        else if result \<noteq> None then Inl (AssertionFailed (''Command '' @ cmd_type c @
          '' has multiple affectedAggregates matching aggregate type '' @ agg_type aggregate))
        else Inr (link_id aff)) (affected_of c) None"

definition findAggregateForEntityId :: "clientAggregates \<Rightarrow> command \<Rightarrow> string \<Rightarrow> aggregateConfig option" where
  "findAggregateForEntityId aggregates c entityId =
    (case List.map_filter (\<lambda>aff. if link_id aff \<noteq> Some entityId then None
            else find (matchesAggregate (aff_link aff)) (ca_aggregates aggregates)) (affected_of c) of
       agg # _ \<Rightarrow> Some agg | [] \<Rightarrow> None)"

definition findClientStreamIdForEntityId :: "command \<Rightarrow> string \<Rightarrow> string option" where
  "findClientStreamIdForEntityId c entityId =
    map_option aff_streamId (find (\<lambda>aff. link_id aff = Some entityId) (affected_of c))"

record idMappingCandidate =
  cand_aggregate :: aggregateConfig
  cand_clientId :: string
  cand_serverId :: string
  cand_nextExpectedRevision :: "string option"

definition declared_candidates ::
  "command \<Rightarrow> jsval \<Rightarrow> responseIdReference list \<Rightarrow> queueError + idMappingCandidate list" where
  "declared_candidates c response refs =
    fold_result (\<lambda>ref candidates.
      case resolveResponseAggregateRef ref response of
        Inl e \<Rightarrow> Inl (PathThrown e)
      | Inr None \<Rightarrow> Inr candidates
      | Inr (Some (agg, serverId, revision)) \<Rightarrow>
          map_result (\<lambda>clientId. case clientId of None \<Rightarrow> candidates
            | Some i \<Rightarrow> candidates @ [\<lparr>cand_aggregate = agg, cand_clientId = i, cand_serverId = serverId,
                cand_nextExpectedRevision = revision\<rparr>])
            (findClientIdForAggregate c agg)) refs []"

definition callback_candidates ::
  "clientAggregates \<Rightarrow> command \<Rightarrow> idMappingResult list \<Rightarrow> idMappingCandidate list" where
  "callback_candidates aggregates c mappings =
    List.map_filter (\<lambda>m. map_option (\<lambda>agg. \<lparr>cand_aggregate = agg, cand_clientId = imr_entityId m,
        cand_serverId = imr_serverId m, cand_nextExpectedRevision = imr_nextExpectedRevision m\<rparr>)
      (findAggregateForEntityId aggregates c (imr_entityId m))) mappings"

definition covered_streams :: "command \<Rightarrow> idMappingCandidate list \<Rightarrow> string list" where
  "covered_streams c candidates =
    List.map_filter (\<lambda>cand. Option.bind (cand_nextExpectedRevision cand) (\<lambda>revision.
      Option.bind (findClientStreamIdForEntityId c (cand_clientId cand)) (\<lambda>streamId.
        if parseExpectedRevision (JStr revision) = None then None else Some streamId))) candidates"

definition collectIdMappingCandidates ::
  "clientAggregates \<Rightarrow> command \<Rightarrow> ('s, cacheKeyIdentity) handlerRegistration option \<Rightarrow> jsval \<Rightarrow>
   queueError + idMappingCandidate list \<times> string list" where
  "collectIdMappingCandidates aggregates c registration response =
    map_result (\<lambda>declared.
      let candidates = declared @
            (case Option.bind registration hr_responseIdMapping of
               None \<Rightarrow> [] | Some f \<Rightarrow> callback_candidates aggregates c (f c response))
      in (candidates, set_of_list (filter (\<lambda>s. s \<notin> set (covered_streams c candidates)) (affected_streams c))))
    (declared_candidates c response (or_default (Option.bind registration hr_responseIdReferences) []))"

section \<open>Reconciling ids with a response\<close>

type_synonym idMap = "(string, string \<times> aggregateConfig) jsmap"

record reconcileState =
  rs_map :: idMap
  rs_covered :: "string list"
  rs_queue :: commandQueue

definition save_mapping :: "commandIdMappingRecord \<Rightarrow> reconcileState \<Rightarrow> (queueError, reconcileState) run" where
  "save_mapping m s =
    (case ims_save m (mappings_of (rs_queue s)) of
       Inl e \<Rightarrow> (Some (MappingThrown e), s)
     | Inr ms \<Rightarrow> (None, s\<lparr>rs_queue := set_mappings ms (rs_queue s)\<rparr>))"

text \<open>A new id: the chain loses its create markers and gets the server stream, unless it has one.\<close>

definition dual_index :: "chain_ref \<Rightarrow> string \<Rightarrow> reconcileState \<Rightarrow> (queueError, reconcileState) run" where
  "dual_index a serverStreamId' s =
    (let r = chain_write a (\<lambda>c. c\<lparr>createCommandId := None, createdEntityId := None\<rparr>) (q_chains (rs_queue s));
         s1 = s\<lparr>rs_queue := (rs_queue s)\<lparr>q_chains := r\<rparr>\<rparr>
     in if serverStreamId (chain_at r a) \<noteq> None then (None, s1)
        else (case attachServerStreamId a serverStreamId' r of
                Inl e \<Rightarrow> (Some (RegistryThrown e), s1)
              | Inr r' \<Rightarrow> (None, s\<lparr>rs_queue := (rs_queue s)\<lparr>q_chains := r'\<rparr>\<rparr>)))"

definition reconcile_candidate ::
  "int \<Rightarrow> command \<Rightarrow> idMappingCandidate \<Rightarrow> reconcileState \<Rightarrow> (queueError, reconcileState) run" where
  "reconcile_candidate now c cand s =
    (let clientId = cand_clientId cand;
         q = rs_queue s
     in if map_has (rs_map s) clientId \<or> clientId \<in> set object_proto then (None, s)
        else (case findClientStreamIdForEntityId c clientId of
          None \<Rightarrow> (None, s)
        | Some clientStream \<Rightarrow>
            (case registry_get (q_chains q) clientStream of
               None \<Rightarrow> (None, s)
             | Some a \<Rightarrow>
                 (let serverStream = agg_getStreamId (cand_aggregate cand) (JStr (cand_serverId cand));
                      r = chain_write a (\<lambda>ch. ch\<lparr>lastKnownRevision := cand_nextExpectedRevision cand\<rparr>) (q_chains q);
                      s1 = s\<lparr>rs_queue := q\<lparr>q_chains := r\<rparr>,
                             rs_covered := set_add serverStream (set_add clientStream (rs_covered s))\<rparr>
                  in if clientId = cand_serverId cand then (None, s1)
                     else and_then (dual_index a serverStream
                            (s1\<lparr>rs_map := map_set clientId (cand_serverId cand, cand_aggregate cand) (rs_map s)\<rparr>))
                          (save_mapping \<lparr>map_clientId = clientId, map_serverId = cand_serverId cand,
                             map_createdAt = now\<rparr>)))))"

definition forget_revision :: "string list \<Rightarrow> string \<Rightarrow> chainRegistry \<Rightarrow> chainRegistry" where
  "forget_revision covered streamId r =
    (if streamId \<in> set covered then r
     else (case registry_get r streamId of
             None \<Rightarrow> r | Some a \<Rightarrow> chain_write a (\<lambda>c. c\<lparr>lastKnownRevision := None\<rparr>) r))"

definition reconcileAggregateIds ::
  "'s queueEnv \<Rightarrow> int \<Rightarrow> command \<Rightarrow> commandQueue \<Rightarrow> queueError option \<times> (idMap \<times> commandQueue)" where
  "reconcileAggregateIds env now c q =
    (let response = cb_serverResponse (cmd_body c)
     in if \<not> js_truthy response then (None, ([], q))
        else (case q_getRegistration env (cmd_type c) of
          None \<Rightarrow> (None, ([], q))
        | Some registration \<Rightarrow>
            if hr_responseIdReferences registration = None \<and> hr_responseIdMapping registration = None
            then (None, ([], q))
            else (case collectIdMappingCandidates (qe_aggregates env) c (Some registration) response of
              Inl e \<Rightarrow> (Some e, ([], q))
            | Inr (candidates, uncovered) \<Rightarrow>
                (case run_all (reconcile_candidate now c) candidates
                        \<lparr>rs_map = [], rs_covered = [], rs_queue = q\<rparr> of
                   (Some e, s) \<Rightarrow> (Some e, (rs_map s, rs_queue s))
                 | (None, s) \<Rightarrow>
                     (None, (rs_map s, (rs_queue s)\<lparr>q_chains :=
                        fold (forget_revision (rs_covered s)) (affected_streams c) (q_chains (rs_queue s))\<rparr>))))))"

text \<open>The tracked rows of the command whose id was assigned, as migrations of the local overlay.\<close>

definition overlay_migrations :: "string list \<Rightarrow> idMap \<Rightarrow> entityIdMigration list" where
  "overlay_migrations tracked idMap =
    concat (map (\<lambda>(clientId, serverId, agg).
      if clientId = serverId then []
      else map (\<lambda>(collection, i). \<lparr>eim_collection = collection, eim_fromId = clientId, eim_toId = serverId\<rparr>)
             (filter (\<lambda>(collection, i). i = clientId) (List.map_filter split_key tracked))) idMap)"

definition applyIdRewritesToLocalOverlay :: "int \<Rightarrow> command \<Rightarrow> idMap \<Rightarrow> commandQueue \<Rightarrow> queueRun" where
  "applyIdRewritesToLocalOverlay now c idMap q =
    (let migrations = overlay_migrations
           (or_default (getTrackedEntries (q_anticipation q) (commandId c)) []) idMap
     in if migrations = [] then (None, q)
        else (case migrateEntityIds now migrations [] (q_storage q) of
                Inl e \<Rightarrow> (Some (StoreThrown e), q)
              | Inr (reconciled, st) \<Rightarrow> (None, q\<lparr>q_storage := st\<rparr>)))"

definition invalidate_stream :: "command \<Rightarrow> invalidateReason \<Rightarrow> string \<Rightarrow> string list \<times> commandQueue \<Rightarrow> string list \<times> commandQueue" where
  "invalidate_stream c reason streamId st =
    (case st of (fired, q) \<Rightarrow>
      if streamId \<in> set fired then (fired, q)
      else (set_add streamId fired,
            log_event (BusInvalidateRequested streamId (cmd_cacheKey c) (commandId c) reason) q))"

definition fireInvalidationsForSuccess :: "command \<Rightarrow> string list \<Rightarrow> jsval \<Rightarrow> commandQueue \<Rightarrow> commandQueue" where
  "fireInvalidationsForSuccess c uncoveredStreams response q =
    (let st = fold (invalidate_stream c NoExpectedRevision) uncoveredStreams ([], q)
     in if response_has_events response then snd st
        else snd (fold (invalidate_stream c EventLessResponse) (affected_streams c) st))"

section \<open>Resolving ids and revisions of a command\<close>

definition mapping_lookup :: "commandQueue \<Rightarrow> string \<Rightarrow> string option" where
  "mapping_lookup q i = getIdMapping (JStr i) q"

text \<open>The revision that the chain of the command's primary aggregate knows, if it is not empty.\<close>

definition chain_revision ::
  "chainRegistry \<Rightarrow> aggregateConfig \<Rightarrow> jsval option \<Rightarrow> string option" where
  "chain_revision r aggregate entityId =
    (case entityId of
       None \<Rightarrow> None
     | Some i \<Rightarrow>
         if \<not> js_truthy i then None
         else Option.bind (registry_get r (agg_getStreamId aggregate i))
           (\<lambda>a. truthy_text (lastKnownRevision (chain_at r a))))"

definition lift_extract :: "extractError + 'a \<Rightarrow> queueError + 'a" where
  "lift_extract r = (case r of Inl e \<Rightarrow> Inl (ExtractThrown e) | Inr x \<Rightarrow> Inr x)"

definition lift_path :: "pathError + 'a \<Rightarrow> queueError + 'a" where
  "lift_path r = (case r of Inl e \<Rightarrow> Inl (PathThrown e) | Inr x \<Rightarrow> Inr x)"

definition patchFromIdMappingCache ::
  "enqueueCommand \<Rightarrow> ('s, cacheKeyIdentity) handlerRegistration \<Rightarrow> commandQueue \<Rightarrow>
   queueError + enqueueCommand \<times> refPaths option" where
  "patchFromIdMappingCache command registration q =
    bind_result (lift_path (resolveCommandIds (enq_data command) (enq_path command) (enq_headers command)
        (hr_commandIdReferences registration) (mapping_lookup q))) (\<lambda>resolved.
    map_result (\<lambda>revision.
        (if surf_changed resolved \<or> revision \<noteq> enq_revision command
         then command\<lparr>enq_data := surf_data resolved, enq_path := surf_path resolved,
                enq_headers := surf_headers resolved, enq_revision := revision\<rparr>
         else command,
         surf_commandIdPaths resolved))
      (case (enq_revision command, hr_aggregate registration) of
         (Some (AutoRevision None), Some aggregate) \<Rightarrow>
           map_result (\<lambda>entityId.
               case chain_revision (q_chains q) aggregate entityId of
                 Some revision \<Rightarrow> Some (AutoRevision (Some revision))
               | None \<Rightarrow> enq_revision command)
             (lift_extract (extractPrimaryAggregateId (surf_data resolved) (surf_path resolved)
                (hr_commandType registration) (hr_aggregate registration) (hr_commandIdReferences registration)))
       | _ \<Rightarrow> Inr (enq_revision command)))"

text \<open>The revision a command is sent with; \<open>None\<close> is \<open>undefined\<close>.\<close>

definition resolveAutoRevisionForSend :: "'s queueEnv \<Rightarrow> command \<Rightarrow> commandQueue \<Rightarrow> queueError + command" where
  "resolveAutoRevisionForSend env c q =
    (case cb_revision (cmd_body c) of
       Some (AutoRevision fallback) \<Rightarrow>
         (case q_getRegistration env (cmd_type c) of
            Some registration \<Rightarrow>
              (case hr_aggregate registration of
                 Some aggregate \<Rightarrow>
                   map_result (\<lambda>entityId.
                     set_body (\<lambda>b. b\<lparr>cb_revision := map_option ExactRevision
                       (case chain_revision (q_chains q) aggregate entityId of
                          Some revision \<Rightarrow> Some revision | None \<Rightarrow> fallback)\<rparr>) c)
                   (lift_extract (extractPrimaryAggregateId (cb_data (cmd_body c)) (cb_path (cmd_body c))
                      (cmd_type c) (hr_aggregate registration) (hr_commandIdReferences registration)))
               | None \<Rightarrow> Inl (AssertionFailed (''AutoRevision requires registration.aggregate for command '' @ cmd_type c)))
          | None \<Rightarrow> Inl (AssertionFailed (''AutoRevision requires registration.aggregate for command '' @ cmd_type c)))
     | _ \<Rightarrow> Inr c)"

section \<open>Rebuilding the chains\<close>

definition rebuild_one ::
  "'s queueEnv \<Rightarrow> commandQueue \<Rightarrow> command \<Rightarrow> affectedAggregate \<Rightarrow> chainRegistry \<Rightarrow> (queueError, chainRegistry) run" where
  "rebuild_one env q c aff r =
    and_then
      (case registry_get r (aff_streamId aff) of
         Some a \<Rightarrow> (None, chain_write a (\<lambda>ch. ch\<lparr>latestCommandId := Some (commandId c)\<rparr>) r)
       | None \<Rightarrow>
           (case registry_create (empty_chain\<lparr>clientStreamId := Some (aff_streamId aff),
                   latestCommandId := Some (commandId c)\<rparr>) r of
              Inl e \<Rightarrow> (Some (RegistryThrown e), r) | Inr (a, r') \<Rightarrow> (None, r')))
      (\<lambda>r1.
        case (link_id aff, registry_get r1 (aff_streamId aff)) of
          (Some clientEntityId, Some a) \<Rightarrow>
            (case mapping_lookup q clientEntityId of
               Some serverId \<Rightarrow>
                 if serverId = clientEntityId \<or> serverStreamId (chain_at r1 a) \<noteq> None then (None, r1)
                 else (case find (matchesAggregate (aff_link aff)) (ca_aggregates (qe_aggregates env)) of
                    None \<Rightarrow> (None, r1)
                  | Some aggregate \<Rightarrow>
                      (let serverStream = agg_getStreamId aggregate (JStr serverId)
                       in if registry_has r1 serverStream then (None, r1)
                          else (case attachServerStreamId a serverStream r1 of
                                  Inl e \<Rightarrow> (Some (RegistryThrown e), r1) | Inr r2 \<Rightarrow> (None, r2))))
             | None \<Rightarrow> (None, r1))
        | _ \<Rightarrow> (None, r1))"

definition mark_creator ::
  "('s, cacheKeyIdentity) handlerRegistration option \<Rightarrow> command \<Rightarrow> chainRegistry \<Rightarrow> chainRegistry" where
  "mark_creator registration c r =
    (case (cb_creates (cmd_body c), Option.bind registration hr_aggregate) of
       (Some creates, Some primary) \<Rightarrow>
         (case find (\<lambda>aff. matchesAggregate (aff_link aff) primary) (affected_of c) of
            None \<Rightarrow> r
          | Some match \<Rightarrow>
              (case registry_get r (aff_streamId match) of
                 None \<Rightarrow> r
               | Some a \<Rightarrow> chain_write a (\<lambda>ch. ch\<lparr>createCommandId := Some (commandId c),
                    createdEntityId := link_id match\<rparr>) r))
     | _ \<Rightarrow> r)"

definition restore_revision :: "command \<Rightarrow> idMappingCandidate \<Rightarrow> chainRegistry \<Rightarrow> chainRegistry" where
  "restore_revision c cand r =
    (case (cand_nextExpectedRevision cand, findClientStreamIdForEntityId c (cand_clientId cand)) of
       (Some revision, Some clientStream) \<Rightarrow> advance_chain clientStream revision r
     | _ \<Rightarrow> r)"

definition rebuild_command :: "'s queueEnv \<Rightarrow> commandQueue \<Rightarrow> command \<Rightarrow> chainRegistry \<Rightarrow> (queueError, chainRegistry) run" where
  "rebuild_command env q c r =
    (case cb_affectedAggregates (cmd_body c) of
       None \<Rightarrow> (None, r)
     | Some affected \<Rightarrow>
         (let registration = q_getRegistration env (cmd_type c);
              response = cb_serverResponse (cmd_body c)
          in and_then (run_all (rebuild_one env q c) affected r) (\<lambda>r1.
             let r2 = mark_creator registration c r1
             in if \<not> js_truthy response \<or> registration = None then (None, r2)
                else (case collectIdMappingCandidates (qe_aggregates env) c registration response of
                        Inl e \<Rightarrow> (Some e, r2)
                      | Inr (candidates, uncovered) \<Rightarrow> (None, fold (restore_revision c) candidates r2)))))"

definition rebuildChains :: "'s queueEnv \<Rightarrow> commandQueue \<Rightarrow> queueRun" where
  "rebuildChains env q =
    (let commands = cs_getByStatus (Many [Pending, Blocked, Sending, Succeeded]) (commands_of q);
         (err, r) = run_all (rebuild_command env q) (js_sort by_seq commands) (registry_clear (q_chains q))
     in (err, q\<lparr>q_chains := r\<rparr>))"

end
