(* ===== verification/CommandRuns.thy ===== *)
theory CommandRuns
  imports CommandResponses
begin

text \<open>
  The life of a command in the queue (\<^verbatim>\<open>core/command-queue/CommandQueue.ts\<close>): submission, status
  changes and their clean-up, sending, the effects of success and failure on dependent commands, and the
  processing loop.  The sender's reply arrives between \<open>begin_send\<close> and \<open>finish_send\<close>, and submission is the
  stretches \<open>enqueue_prepare\<close>, \<open>enqueue_lookup\<close> and \<open>enqueue_save\<close>: other calls may run in between.
  Calls of \<open>processPendingCommands\<close> that are not awaited leave their request in \<open>q_processing\<close> and
  \<open>q_pendingReprocess\<close>, which the loop steps answer.
\<close>

section \<open>Status changes\<close>

definition remove_files :: "command \<Rightarrow> commandQueue \<Rightarrow> commandQueue" where
  "remove_files c q =
    (if cb_fileRefs (cmd_body c) = None then q
     else q\<lparr>q_files := filter (\<lambda>(cid, f). cid \<noteq> commandId c) (q_files q)\<rparr>)"

definition clean_up :: "int \<Rightarrow> commandStatus \<Rightarrow> command \<Rightarrow> commandQueue \<Rightarrow> commandQueue" where
  "clean_up now newStatus c q =
    remove_files c (with_anticipation
      (if newStatus = Succeeded then cleanupOnSucceeded (commandId c) else cleanupOnFailure now (commandId c)) q)"

definition detach_chains :: "command \<Rightarrow> commandQueue \<Rightarrow> commandQueue" where
  "detach_chains c q = q\<lparr>q_chains := onCommandCleanup (commandId c) (affected_streams c) (q_chains q)\<rparr>"

definition announce_status :: "commandStatus \<Rightarrow> command \<times> commandStatus \<Rightarrow> commandQueue \<Rightarrow> commandQueue" where
  "announce_status newStatus cp q =
    (case cp of (c, previous) \<Rightarrow>
      if previous = newStatus then q
      else log_event (BusStatusChanged (commandId c) newStatus previous (cmd_cacheKey c))
        (emitCommandEvent StatusChangedEvent (live_cmd q c) (Some previous) q))"

definition status_update ::
  "int \<Rightarrow> commandStatus \<Rightarrow> (command \<Rightarrow> command) \<Rightarrow> command \<Rightarrow> string \<times> (command \<Rightarrow> command)" where
  "status_update now newStatus additional c =
    (commandId c, \<lambda>r. additional (r\<lparr>cmd_status := newStatus, cmd_updatedAt := now\<rparr>))"

definition apply_status ::
  "int \<Rightarrow> command list \<Rightarrow> commandStatus \<Rightarrow> (command \<Rightarrow> command) \<Rightarrow> commandQueue \<Rightarrow> commandQueue" where
  "apply_status now cs newStatus additional q =
    (let previous = map (\<lambda>c. (c, cmd_status (live_cmd q c))) cs;
         q1 = with_commands (\<lambda>s. snd (cs_batchUpdate now (map (status_update now newStatus additional) cs) s)) q;
         q2 = (if isTerminalStatus newStatus then fold (clean_up now newStatus) cs q1 else q1);
         q3 = (if newStatus = Failed \<or> newStatus = Cancelled then fold detach_chains cs q2 else q2)
     in fold (announce_status newStatus) previous q3)"

text \<open>\<open>additional\<close> is the rest of the update; an empty batch does nothing.\<close>

definition batchUpdateCommandStatus ::
  "int \<Rightarrow> command list \<Rightarrow> commandStatus \<Rightarrow> (command \<Rightarrow> command) \<Rightarrow> commandQueue \<Rightarrow> queueRun" where
  "batchUpdateCommandStatus now cs newStatus additional q =
    (if newStatus = Applied then
       (Some (AssertionFailed
          ''CommandQueue.batchUpdateCommandStatus must not be called for applied status''), q)
     else if cs = [] then (None, q)
     else (None, apply_status now cs newStatus additional q))"

definition updateCommandStatus ::
  "int \<Rightarrow> command \<Rightarrow> commandStatus \<Rightarrow> (command \<Rightarrow> command) \<Rightarrow> commandQueue \<Rightarrow> queueRun" where
  "updateCommandStatus now c newStatus additional q = batchUpdateCommandStatus now [c] newStatus additional q"

definition announce_applied :: "command \<Rightarrow> commandQueue \<Rightarrow> commandQueue" where
  "announce_applied c q =
    log_event (BusStatusChanged (commandId c) Applied Succeeded (cmd_cacheKey c))
      (emitCommandEvent StatusChangedEvent (live_cmd q c) (Some Succeeded) q)"

definition batchUpdateSyncStatus :: "int \<Rightarrow> command list option \<Rightarrow> commandQueue \<Rightarrow> commandQueue" where
  "batchUpdateSyncStatus now applied q =
    (case applied of
       None \<Rightarrow> q
     | Some cs \<Rightarrow>
         if cs = [] then q
         else fold announce_applied cs
           (with_commands (\<lambda>s. snd (cs_batchUpdate now (map (status_update now Applied (\<lambda>r. r)) cs) s)) q))"

definition slipToApplied :: "int \<Rightarrow> command \<Rightarrow> commandQueue \<Rightarrow> commandQueue" where
  "slipToApplied now c q =
    with_anticipation (cleanupOnAppliedBatch [commandId c]) (batchUpdateSyncStatus now (Some [c]) q)"

section \<open>A call of processPendingCommands\<close>

definition processPendingCommands :: "commandQueue \<Rightarrow> commandQueue" where
  "processPendingCommands q =
    (if q_paused q then q
     else if q_processing q then q\<lparr>q_pendingReprocess := True\<rparr>
     else q\<lparr>q_processing := True\<rparr>)"

section \<open>The cascade after a failure or a cancellation\<close>

definition edge_source :: "command \<Rightarrow> command \<Rightarrow> dependencySource" where
  "edge_source parent b =
    (case find (\<lambda>d. dep_commandId d = commandId parent) (dependsOn b) of
       Some d \<Rightarrow> dep_source d | None \<Rightarrow> ExplicitSource)"

definition classifyDependencyEdge ::
  "'s queueEnv \<Rightarrow> dependencySource \<Rightarrow> command \<Rightarrow> anticipatedEvent list \<Rightarrow> command \<Rightarrow> anticipatedEvent list \<Rightarrow> edgeStrength"
where
  "classifyDependencyEdge env source waiting dependentEvents parent parentEvents =
    (if source = EntityRefSource \<or> source = ExplicitSource then Hard
     else (case Option.bind (q_getRegistration env (cmd_type waiting)) hr_classifyDependency of
             None \<Rightarrow> Soft
           | Some classify \<Rightarrow> classify (waiting, dependentEvents) (parent, parentEvents)))"

definition with_events :: "commandQueue \<Rightarrow> command \<Rightarrow> queueError + command \<times> anticipatedEvent list" where
  "with_events q b =
    (case getAnticipatedEvents (anticipation_of q) (commandId b) of
       Inl e \<Rightarrow> Inl (StoreThrown e) | Inr es \<Rightarrow> Inr (b, es))"

definition announce_cancelled :: "command \<Rightarrow> commandQueue \<Rightarrow> commandQueue" where
  "announce_cancelled b q =
    emitCommandEvent CancelledEvent (live_cmd q b) None
      (log_event (BusCancelled (commandId b) (cmd_type b) (cmd_cacheKey b)) q)"

definition set_error :: "commandException option \<Rightarrow> command \<Rightarrow> command" where
  "set_error e = set_body (\<lambda>b. b\<lparr>cb_error := e\<rparr>)"

definition dependency_failed :: "command \<Rightarrow> commandException" where
  "dependency_failed parent = commandFailedException LocalSource
    (''Dependency '' @ commandId parent @ '' failed'') PermanentFailure None None None"

definition set_blockedBy :: "string list \<Rightarrow> command \<Rightarrow> command" where
  "set_blockedBy ids c = c\<lparr>blockedBy := ids\<rparr>"

text \<open>The soft branch: the flag says whether a command became pending.\<close>

definition unblock_soft :: "int \<Rightarrow> command \<times> string list \<Rightarrow> bool \<times> commandQueue \<Rightarrow> (queueError, bool \<times> commandQueue) run" where
  "unblock_soft now cn st =
    (case (cn, st) of ((c, newBlockedBy), (unblockedAny, q)) \<Rightarrow>
      if newBlockedBy = [] \<and> cmd_status (live_cmd q c) = Blocked
      then (case updateCommandStatus now c Pending (set_blockedBy newBlockedBy) q of (err, q') \<Rightarrow> (err, (True, q')))
      else (None, (unblockedAny, q_update now (commandId c) (set_blockedBy newBlockedBy) q)))"

definition unblock_softs :: "int \<Rightarrow> (command \<times> string list) list \<Rightarrow> commandQueue \<Rightarrow> queueRun" where
  "unblock_softs now soft q =
    (case run_all (unblock_soft now) soft (False, q) of (err, (unblockedAny, q')) \<Rightarrow>
      (err, if err = None \<and> unblockedAny then processPendingCommands q' else q'))"

definition edge_strength ::
  "'s queueEnv \<Rightarrow> command \<Rightarrow> anticipatedEvent list \<Rightarrow> command \<times> anticipatedEvent list \<Rightarrow> edgeStrength" where
  "edge_strength env parent parentEvents be =
    classifyDependencyEdge env (edge_source parent (fst be)) (fst be) (snd be) parent parentEvents"

definition active_dependents :: "string \<Rightarrow> commandQueue \<Rightarrow> command list" where
  "active_dependents cid q =
    filter (\<lambda>b. \<not> isTerminalStatus (cmd_status b)) (cs_getBlockedBy cid (commands_of q))"

text \<open>
  The recursion goes down the dependents that were just cancelled; the first argument bounds its depth.
\<close>

fun cascade ::
  "nat \<Rightarrow> 's queueEnv \<Rightarrow> int \<Rightarrow> command \<Rightarrow> anticipatedEvent list \<Rightarrow> commandQueue \<Rightarrow> queueRun" where
  "cascade 0 env now parent parentEvents q = (Some OutOfFuel, q)"
| "cascade (Suc n) env now parent parentEvents q =
    (let active = active_dependents (commandId parent) q
     in if active = [] then (None, q)
        else (case map_results (with_events q) active of
          Inl e \<Rightarrow> (Some e, q)
        | Inr dependents \<Rightarrow>
            (let hard = filter (\<lambda>be. edge_strength env parent parentEvents be = Hard) dependents;
                 soft = map (\<lambda>be. (fst be, filter (\<lambda>i. i \<noteq> commandId parent) (blockedBy (fst be))))
                          (filter (\<lambda>be. edge_strength env parent parentEvents be \<noteq> Hard) dependents)
             in and_then (batchUpdateCommandStatus now (map fst hard) Cancelled
                            (set_error (Some (dependency_failed parent))) q) (\<lambda>q1.
                and_then (run_all (\<lambda>be q'. cascade n env now (live_cmd q' (fst be)) (snd be) q') hard
                            (fold (announce_cancelled \<circ> fst) hard q1))
                  (unblock_softs now soft)))))"

text \<open>Each level cancels commands that are still in play, so their number bounds the depth.\<close>

definition cascadeFromTerminal ::
  "'s queueEnv \<Rightarrow> int \<Rightarrow> command \<Rightarrow> anticipatedEvent list \<Rightarrow> commandQueue \<Rightarrow> queueRun" where
  "cascadeFromTerminal env now parent parentEvents q =
    cascade (Suc (length (cs_active (q_commandStore q)))) env now parent parentEvents q"

definition fail_command ::
  "'s queueEnv \<Rightarrow> int \<Rightarrow> command \<Rightarrow> commandException \<Rightarrow> string \<Rightarrow> commandQueue \<Rightarrow> queueRun" where
  "fail_command env now c error message q =
    (case with_events q c of
       Inl e \<Rightarrow> (Some e, q)
     | Inr (_, failedEvents) \<Rightarrow>
         and_then (updateCommandStatus now c Failed (set_error (Some error)) q) (\<lambda>q1.
         and_then (cascadeFromTerminal env now (live_cmd q1 c) failedEvents q1) (\<lambda>q2.
           (None, emitCommandEvent FailedEvent (live_cmd q2 c) None
              (log_event (BusFailed (commandId c) (cmd_type c) message (cmd_cacheKey c)) q2)))))"

definition markFailedFromConflict ::
  "'s queueEnv \<Rightarrow> int \<Rightarrow> string \<Rightarrow> conflictException \<Rightarrow> commandQueue \<Rightarrow> queueRun" where
  "markFailedFromConflict env now cid conflict q =
    (case q_get now cid q of
       (None, q1) \<Rightarrow> (None, q1)
     | (Some c, q1) \<Rightarrow>
         if isTerminalStatus (cmd_status c) then (None, q1)
         else fail_command env now c (commandFailedException LocalSource (conf_message conflict)
                (conf_category conflict) (conf_errorCode conflict) None (conf_details conflict))
              (conf_message conflict) q1)"

end
