(* ===== verification/CommandSteps.thy ===== *)
theory CommandSteps
  imports CommandRuns
begin

text \<open>
  The rest of the command queue (\<^verbatim>\<open>core/command-queue/CommandQueue.ts\<close>): what a success does to the other
  commands, sending and the processing loop, submission, and the queue's life cycle.
\<close>

section \<open>Running a handler again\<close>

definition handler_input :: "command \<Rightarrow> jsval \<Rightarrow> jsval \<Rightarrow> jsval \<Rightarrow> refPaths option \<Rightarrow> pathError + handlerCommand" where
  "handler_input c data path headers commandIdPaths =
    map_result (\<lambda>view. \<lparr>hc_type = cmd_type c, hc_data = js_member view ''data'', hc_path = js_member view ''path'',
        hc_headers = headers, hc_fileRefs = cb_fileRefs (cmd_body c)\<rparr>)
      (let view = JObj [(''data'', data), (''path'', path)]
       in case commandIdPaths of None \<Rightarrow> Inr view | Some paths \<Rightarrow> restoreEntityRefs view paths)"

text \<open>A handler that succeeds replaces the anticipated events; what goes wrong in that is only logged.\<close>

definition regenerate_events :: "'s queueEnv \<Rightarrow> int \<Rightarrow> command \<Rightarrow> anticipatedEvent list \<Rightarrow> commandQueue \<Rightarrow> commandQueue" where
  "regenerate_events env now c events q =
    set_anticipation (snd (an_regenerate (qe_anticipation env) now (live_cmd q c) events (anticipation_of q))) q"

definition handle_outcome ::
  "'s queueEnv \<Rightarrow> int \<Rightarrow> command \<Rightarrow> domainOutcome \<Rightarrow> commandQueue \<Rightarrow> queueRun" where
  "handle_outcome env now c outcome q =
    (case outcome of
       DomainConflict conflict \<Rightarrow> markFailedFromConflict env now (commandId c) conflict q
     | DomainSuccess events plan \<Rightarrow> (None, regenerate_events env now c events q)
     | _ \<Rightarrow> (None, q))"

definition create_strategy :: "command \<Rightarrow> idStrategy option" where
  "create_strategy c = map_option creates_idStrategy (cb_creates (cmd_body c))"

record 's regenerateItem =
  ri_command :: command
  ri_registration :: "('s, cacheKeyIdentity) handlerRegistration"
  ri_data :: jsval
  ri_path :: jsval
  ri_headers :: jsval
  ri_commandIdPaths :: "refPaths option"
  ri_entityId :: string

definition collection_for :: "'s queueEnv \<Rightarrow> aggregateConfig \<Rightarrow> queueCollection option" where
  "collection_for env aggregate =
    find (\<lambda>c. matchesAggregate (getLinkMatcher (qc_aggregate c)) aggregate) (qe_collections env)"

text \<open>The read model data per command; a row that is not there is \<open>undefined\<close>.\<close>

definition fetchCurrentForRegenerate ::
  "'s queueEnv \<Rightarrow> (string \<times> string \<times> ('s, cacheKeyIdentity) handlerRegistration) list \<Rightarrow> commandQueue \<Rightarrow>
   storeError + (string, jsval) jsmap" where
  "fetchCurrentForRegenerate env items q =
    (let pending = List.map_filter (\<lambda>(cid, entityId, registration).
           Option.bind (hr_aggregate registration) (\<lambda>aggregate.
             map_option (\<lambda>col. (cid, qc_name col, entityId)) (collection_for env aggregate))) items
     in if pending = [] then Inr []
        else map_result (\<lambda>records.
            fold (\<lambda>(cid, col, entityId). map_set cid (case map_get records (col @ '':'' @ entityId) of
                Some r \<Rightarrow> rdm_data r | None \<Rightarrow> JUndef)) pending [])
          (getManyByCollectionIds (q_storage q) (map snd pending)))"

definition current_view :: "(string, jsval) jsmap \<Rightarrow> string \<Rightarrow> jsval" where
  "current_view views cid = (case map_get views cid of Some v \<Rightarrow> v | None \<Rightarrow> JUndef)"

definition entity_text :: "jsval option \<Rightarrow> string option" where
  "entity_text v = (case v of Some (JStr s) \<Rightarrow> Some s | _ \<Rightarrow> None)"

section \<open>New ids reach the commands that use them\<close>

definition rewrite_command ::
  "'s queueEnv \<Rightarrow> int \<Rightarrow> rewriteIdEntry list \<Rightarrow> command \<Rightarrow> 's regenerateItem list \<times> commandQueue \<Rightarrow>
   (queueError, 's regenerateItem list \<times> commandQueue) run" where
  "rewrite_command env now entries c st =
    (case st of (items, q) \<Rightarrow>
      (case q_getRegistration env (cmd_type c) of
         None \<Rightarrow> (None, st)
       | Some registration \<Rightarrow>
           (case rewriteCommandWithIdMap (cb_data (cmd_body c)) (cb_path (cmd_body c)) (cb_headers (cmd_body c))
                   (cb_commandIdPaths (cmd_body c)) entries (hr_commandIdReferences registration) of
              Inl e \<Rightarrow> (Some (PathThrown e), st)
            | Inr result \<Rightarrow>
                if \<not> surf_changed result then (None, st)
                else
                  (let q1 = q_update now (commandId c) (set_body (\<lambda>b. b\<lparr>cb_data := surf_data result,
                         cb_path := surf_path result, cb_headers := surf_headers result,
                         cb_commandIdPaths := surf_commandIdPaths result\<rparr>)) q;
                       entityId = (if cb_creates (cmd_body c) \<noteq> None then Inr (getOriginalCreateId (commandId c) q1)
                         else map_result entity_text (lift_extract (extractPrimaryAggregateId (surf_data result)
                           (surf_path result) (hr_commandType registration) (hr_aggregate registration)
                           (hr_commandIdReferences registration))))
                   in case entityId of
                        Inl e \<Rightarrow> (Some e, (items, q1))
                      | Inr None \<Rightarrow> (None, (items, q1))
                      | Inr (Some i) \<Rightarrow> (None, (items @ [\<lparr>ri_command = c, ri_registration = registration,
                          ri_data = surf_data result, ri_path = surf_path result, ri_headers = surf_headers result,
                          ri_commandIdPaths = surf_commandIdPaths result, ri_entityId = i\<rparr>], q1))))))"

definition regenerate_item ::
  "'s queueEnv \<Rightarrow> int \<Rightarrow> (string, jsval) jsmap \<Rightarrow> 's regenerateItem \<Rightarrow> commandQueue \<Rightarrow> queueRun" where
  "regenerate_item env now views item q =
    (let c = ri_command item
     in case handler_input c (ri_data item) (ri_path item) (ri_headers item) (ri_commandIdPaths item) of
          Inl e \<Rightarrow> (Some (PathThrown e), q)
        | Inr input \<Rightarrow>
            handle_outcome env now c (executor_handle (the (qe_executor env)) input
              (RegenerateState (cb_modelState (cmd_body c)) (current_view views (commandId c)))
              (Updating (ri_entityId item) (commandId c) (create_strategy c))) q)"

definition rewriteCommandsWithStaleIds :: "'s queueEnv \<Rightarrow> int \<Rightarrow> idMap \<Rightarrow> commandQueue \<Rightarrow> queueRun" where
  "rewriteCommandsWithStaleIds env now idMap q =
    (let entries = map (\<lambda>(clientId, serverId, aggregate).
           \<lparr>entry_clientId = clientId, entry_serverId = serverId, entry_aggregate = aggregate\<rparr>) idMap
     in if entries = [] then (None, q)
        else (case run_all (rewrite_command env now entries)
                     (cs_getByStatus (Many [Pending, Blocked, Sending]) (commands_of q)) ([], q) of
          (Some e, (items, q1)) \<Rightarrow> (Some e, q1)
        | (None, (items, q1)) \<Rightarrow>
            (case fetchCurrentForRegenerate env
                    (map (\<lambda>i. (commandId (ri_command i), ri_entityId i, ri_registration i)) items) q1 of
               Inl e \<Rightarrow> (Some (StoreThrown e), q1)
             | Inr views \<Rightarrow>
                 if items = [] \<or> qe_executor env = None then (None, q1)
                 else run_all (regenerate_item env now views) items q1)))"

section \<open>Dependents of a command that succeeded\<close>

definition dependent_entity :: "command \<Rightarrow> commandQueue \<Rightarrow> string option" where
  "dependent_entity c q =
    (if cb_creates (cmd_body c) \<noteq> None then getOriginalCreateId (commandId c) q
     else string_member (cb_data (cmd_body c)) ''id'')"

definition fetchCurrentForRegenerateForBlocked ::
  "'s queueEnv \<Rightarrow> command list \<Rightarrow> commandQueue \<Rightarrow> storeError + (string, jsval) jsmap" where
  "fetchCurrentForRegenerateForBlocked env waiting q =
    fetchCurrentForRegenerate env (List.map_filter (\<lambda>c.
      if \<not> isAutoRevision (cb_revision (cmd_body c)) then None
      else Option.bind (q_getRegistration env (cmd_type c)) (\<lambda>registration.
        map_option (\<lambda>i. (commandId c, i, registration)) (dependent_entity c q))) waiting) q"

text \<open>The context of a re-execution; without an entity id the assertion fails.\<close>

definition buildUpdatingContext :: "command \<Rightarrow> commandQueue \<Rightarrow> queueError + handlerContext" where
  "buildUpdatingContext c q =
    (case dependent_entity c q of
       Some i \<Rightarrow> Inr (Updating i (commandId c) (create_strategy c))
     | None \<Rightarrow> Inl (AssertionFailed ''Cannot build updating context without entity ID''))"

definition resolveDependentRevision ::
  "'s queueEnv \<Rightarrow> int \<Rightarrow> command \<Rightarrow> string option \<Rightarrow> jsval \<Rightarrow> commandQueue \<Rightarrow> queueRun" where
  "resolveDependentRevision env now c parentRevision current q =
    (case parentRevision of
       None \<Rightarrow> (None, q)
     | Some revision \<Rightarrow>
         if \<not> isAutoRevision (cb_revision (cmd_body c)) then (None, q)
         else
           (let q1 = q_update now (commandId c) (set_body (\<lambda>b. b\<lparr>cb_revision := Some (ExactRevision revision)\<rparr>)) q
            in case qe_executor env of
                 None \<Rightarrow> (None, q1)
               | Some executor \<Rightarrow>
                   (case buildUpdatingContext c q1 of
                      Inl e \<Rightarrow> (Some e, q1)
                    | Inr context \<Rightarrow>
                        (case handler_input c (cb_data (cmd_body c)) (cb_path (cmd_body c))
                                (cb_headers (cmd_body c)) (cb_commandIdPaths (cmd_body c)) of
                           Inl e \<Rightarrow> (Some (PathThrown e), q1)
                         | Inr input \<Rightarrow>
                             handle_outcome env now c (executor_handle executor input
                               (RegenerateState (cb_modelState (cmd_body c)) current) context) q1))))"

definition unblock_one ::
  "'s queueEnv \<Rightarrow> int \<Rightarrow> command \<Rightarrow> (string, jsval) jsmap \<Rightarrow> command \<Rightarrow> commandQueue \<Rightarrow> queueRun" where
  "unblock_one env now parent views b q =
    (let c = live_cmd q b;
         newBlockedBy = filter (\<lambda>i. i \<noteq> commandId parent) (blockedBy c)
     in and_then (resolveDependentRevision env now c (extractRevisionFromResponse parent)
                    (current_view views (commandId c)) q) (\<lambda>q1.
        if newBlockedBy = [] \<and> cmd_status (live_cmd q1 c) = Blocked
        then updateCommandStatus now c Pending (set_blockedBy newBlockedBy) q1
        else (None, q_update now (commandId c) (set_blockedBy newBlockedBy) q1)))"

definition unblockDependentCommands :: "'s queueEnv \<Rightarrow> int \<Rightarrow> command \<Rightarrow> commandQueue \<Rightarrow> queueRun" where
  "unblockDependentCommands env now parent q =
    (let waiting = cs_getBlockedBy (commandId parent) (commands_of q)
     in if waiting = [] then (None, q)
        else (case fetchCurrentForRegenerateForBlocked env waiting q of
                Inl e \<Rightarrow> (Some (StoreThrown e), q)
              | Inr views \<Rightarrow> run_all (unblock_one env now parent views) waiting q))"

section \<open>The reply of the server\<close>

text \<open>Whether the read model already shows the response, or nothing will ever tell.\<close>

definition applied_at_success ::
  "'s queueEnv \<Rightarrow> command \<Rightarrow> ('s, cacheKeyIdentity) handlerRegistration option \<Rightarrow> jsval \<Rightarrow> commandQueue \<Rightarrow>
   storeError + bool" where
  "applied_at_success env c registration response q =
    (if \<not> existsSync (cache_of q) (cmd_cacheKey c) then Inr True
     else (case Option.bind registration hr_aggregate of
       None \<Rightarrow> Inr True
     | Some primaryAggregate \<Rightarrow>
         (case collection_for env primaryAggregate of
            None \<Rightarrow> Inr True
          | Some col \<Rightarrow>
              (case (readResponseField response ''id'',
                     Option.bind (readResponseField response ''nextExpectedRevision'')
                       (\<lambda>s. parseExpectedRevision (JStr s))) of
                 (Some primaryEntityId, Some expected) \<Rightarrow>
                   map_result (\<lambda>record. case Option.bind record rdm_revision of
                       Some current \<Rightarrow> expected \<le> current | None \<Rightarrow> False)
                     (getById (mappings_of q) (q_storage q) (qc_name col) primaryEntityId)
               | _ \<Rightarrow> Inr False))))"

definition checkAppliedAtSuccess ::
  "'s queueEnv \<Rightarrow> int \<Rightarrow> command \<Rightarrow> ('s, cacheKeyIdentity) handlerRegistration option \<Rightarrow> jsval \<Rightarrow> commandQueue \<Rightarrow> queueRun"
where
  "checkAppliedAtSuccess env now c registration response q =
    (case applied_at_success env c registration response q of
       Inl e \<Rightarrow> (Some (StoreThrown e), q)
     | Inr applied \<Rightarrow> (None, if applied then slipToApplied now c q else q))"

definition resolve_cache_keys ::
  "'s queueEnv \<Rightarrow> command \<Rightarrow> ('s, cacheKeyIdentity) handlerRegistration option \<Rightarrow> idMap \<Rightarrow> commandQueue \<Rightarrow> queueRun" where
  "resolve_cache_keys env c registration idMap q =
    (let resolver = map_option (\<lambda>f. f (commandId c) (cmd_type c) (cb_data (cmd_body c)) (cb_serverResponse (cmd_body c)))
           (Option.bind registration hr_resolveCacheKey)
     in case resolvePendingKeys (qe_keys env) (commandId c) (\<lambda>i. map_option fst (map_get idMap i)) resolver (cache_of q) of
          (err, s) \<Rightarrow> (map_option PathThrown err, set_cache s q))"

definition processCommandSuccess ::
  "'s queueEnv \<Rightarrow> int \<Rightarrow> command \<Rightarrow> command \<Rightarrow> string \<Rightarrow> jsval \<Rightarrow> commandQueue \<Rightarrow> queueRun" where
  "processCommandSuccess env now current updated correlationId response q =
    (let registration = q_getRegistration env (cmd_type updated);
         q1 = log_event (BusResponse (commandId current) correlationId response) q;
         q2 = (if qe_onCommandResponse env then log_event (ResponseHandedOff (commandId updated) response) q1 else q1)
     in case collectIdMappingCandidates (qe_aggregates env) (live_cmd q2 updated) registration response of
          Inl e \<Rightarrow> (Some e, q2)
        | Inr (candidates, uncoveredStreams) \<Rightarrow>
            and_then (updateCommandStatus now updated Succeeded
                (set_body (\<lambda>b. b\<lparr>cb_serverResponse := response\<rparr>)) q2) (\<lambda>q3.
            let c = live_cmd q3 updated
            in case reconcileAggregateIds env now c q3 of
                 (Some e, (idMap, q4)) \<Rightarrow> (Some e, q4)
               | (None, (idMap, q4)) \<Rightarrow>
                   and_then (applyIdRewritesToLocalOverlay now c idMap q4) (\<lambda>q5.
                   and_then
                     (let q6 = fireInvalidationsForSuccess c uncoveredStreams response q5
                      in if idMap = [] then (None, q6)
                         else and_then (rewriteCommandsWithStaleIds env now idMap q6)
                                (resolve_cache_keys env c registration idMap)) (\<lambda>q7.
                   and_then (unblockDependentCommands env now c q7) (\<lambda>q8.
                   checkAppliedAtSuccess env now c registration response
                     (emitCommandEvent CompletedEvent (live_cmd q8 c) None
                       (log_event (BusCompleted (commandId current) (cmd_type current) (cmd_cacheKey current)) q8)))))))"

record sendException =
  snd_message :: string
  snd_errorCode :: "string option"
  snd_isRetryable :: bool
  snd_response :: "serverErrorResponse option"
  snd_details :: "jsval option"

definition resolveFailureDescriptor :: "'s queueEnv \<Rightarrow> command \<Rightarrow> sendException \<Rightarrow> failureDescriptor" where
  "resolveFailureDescriptor env c e =
    (case snd_response e of
       None \<Rightarrow> \<lparr>desc_category = (if snd_isRetryable e then Transient else PermanentFailure), desc_errorCode = None,
                desc_validationErrors = None, desc_details = None\<rparr>
     | Some response \<Rightarrow>
         (case Option.bind (q_getRegistration env (cmd_type c)) hr_mapFailure of
            Some mapper \<Rightarrow> mapper response
          | None \<Rightarrow> qe_mapFailure env response))"

definition schedule_retry :: "'s queueEnv \<Rightarrow> nat \<Rightarrow> commandQueue \<Rightarrow> commandQueue" where
  "schedule_retry env attempt q =
    q\<lparr>q_retryTimers := q_retryTimers q @ [(q_nextTimer q,
         calculateBackoffDelay (qe_random env (q_nextTimer q)) attempt (qe_retry env))],
      q_nextTimer := q_nextTimer q + 1\<rparr>"

definition failure_exception :: "failureDescriptor \<Rightarrow> sendException \<Rightarrow> commandException" where
  "failure_exception descriptor e =
    commandFailedException ServerSource (snd_message e) (desc_category descriptor)
      (first_some (desc_errorCode descriptor) (snd_errorCode e)) (desc_validationErrors descriptor)
      (first_some (desc_details descriptor) (snd_details e))"

definition processCommandFailure ::
  "'s queueEnv \<Rightarrow> int \<Rightarrow> command \<Rightarrow> command \<Rightarrow> sendException \<Rightarrow> commandQueue \<Rightarrow> queueRun" where
  "processCommandFailure env now current updated e q =
    (let descriptor = resolveFailureDescriptor env current e;
         error = failure_exception descriptor e;
         tries = attempts (live_cmd q updated)
     in if desc_category descriptor = Transient \<and> shouldRetry tries (qe_retry env)
        then and_then (updateCommandStatus now updated Pending (set_error (Some error)) q) (\<lambda>q1.
               (None, schedule_retry env tries q1))
        else fail_command env now updated error (snd_message e) q)"

end
