(* ===== verification/CommandApi.thy ===== *)
theory CommandApi
  imports CommandSteps
begin

text \<open>
  The entry points of the command queue (\<^verbatim>\<open>core/command-queue/CommandQueue.ts\<close>): submission, cancelling
  and retrying, the processing loop with the sender, and the queue's life cycle.  Theory \<open>QueueSteps\<close> puts
  them together as the steps of a queue.
\<close>

section \<open>Submission\<close>

record preparedCommand =
  pc_command :: enqueueCommand
  pc_commandIdPaths :: "refPaths option"
  pc_events :: "anticipatedEvent list"
  pc_postProcess :: jsval
  pc_affectedAggregates :: "affectedAggregate list option"
  pc_autoDeps :: "string list"
  pc_refCommandIds :: "string list"
  pc_entityRef :: "jsval option"
  pc_creates :: "createCommandConfig option"

definition unprepared :: "enqueueCommand \<Rightarrow> preparedCommand" where
  "unprepared command = \<lparr>pc_command = command, pc_commandIdPaths = None, pc_events = [], pc_postProcess = JUndef,
    pc_affectedAggregates = None, pc_autoDeps = [], pc_refCommandIds = [], pc_entityRef = None, pc_creates = None\<rparr>"

definition ref_command_ids :: "refPaths option \<Rightarrow> string list" where
  "ref_command_ids paths =
    set_of_list (List.map_filter (\<lambda>(p, ref). string_member ref ''commandId'') (or_default paths []))"

datatype 'a submitted = Rejected enqueueRejection | Accepted 'a

text \<open>A stretch of submission: what it throws, or whether it goes on, and the queue.\<close>

type_synonym 'a stretch = "(queueError + 'a submitted) \<times> commandQueue"

definition strip_view :: "enqueueCommand \<Rightarrow> refPaths option \<Rightarrow> pathError + jsval" where
  "strip_view command paths =
    (let view = JObj [(''data'', enq_data command), (''path'', enq_path command)]
     in case paths of None \<Rightarrow> Inr view | Some ps \<Rightarrow> stripEntityRefs view ps)"

definition created_ref :: "string \<Rightarrow> createCommandConfig option \<Rightarrow> anticipatedEvent list \<Rightarrow> jsval option" where
  "created_ref cid creates events =
    Option.bind creates (\<lambda>config. map_option (\<lambda>i. createEntityRef i cid (creates_idStrategy config))
      (extractAggregateIdFromEvents events (creates_eventType config)))"

text \<open>The handler's answer at submission: events are chained, everything else rejects the command.\<close>

definition accept_events ::
  "'s queueEnv \<Rightarrow> string \<Rightarrow> ('s, cacheKeyIdentity) handlerRegistration \<Rightarrow> preparedCommand \<Rightarrow> domainOutcome \<Rightarrow>
   commandQueue \<Rightarrow> preparedCommand stretch" where
  "accept_events env cid registration prepared outcome q =
    (case outcome of
       DomainConflict e \<Rightarrow> (Inr (Rejected (ConflictRejected e)), q)
     | DomainValidationError e \<Rightarrow> (Inr (Rejected (ValidationRejected e)), q)
     | DomainUnknownCommand t \<Rightarrow> (Inr (Rejected (UnknownCommandType t)), q)
     | DomainSuccess events plan \<Rightarrow>
         (case deriveAffectedAggregates (qe_aggregates env) events of
            Inl message \<Rightarrow> (Inl (AssertionFailed (''deriveAffectedAggregates failed: '' @ message)), q)
          | Inr affected \<Rightarrow>
              (case detectAggregateDependencies cid affected events (hr_creates registration) (q_chains q) of
                 (Some e, (deps, r)) \<Rightarrow> (Inl e, q\<lparr>q_chains := r\<rparr>)
               | (None, (autoDeps, r)) \<Rightarrow>
                   (Inr (Accepted (prepared\<lparr>pc_events := events, pc_postProcess := plan,
                      pc_affectedAggregates := (if affected = [] then None else Some affected),
                      pc_autoDeps := autoDeps,
                      pc_entityRef := created_ref cid (hr_creates registration) events\<rparr>)),
                    q\<lparr>q_chains := r\<rparr>))))"

definition prepareCommandWithRegistration ::
  "'s queueEnv \<Rightarrow> enqueueCommand \<Rightarrow> string \<Rightarrow> ('s, cacheKeyIdentity) handlerRegistration \<Rightarrow> bool \<Rightarrow> jsval \<Rightarrow>
   fileRef list option \<Rightarrow> commandQueue \<Rightarrow> preparedCommand stretch" where
  "prepareCommandWithRegistration env command cid registration skipValidation modelState fileRefs q =
    (case qe_executor env of
       None \<Rightarrow> (Inl (AssertionFailed ''prepareCommandWithRegistration requires a domainExecutor''), q)
     | Some executor \<Rightarrow>
         (case patchFromIdMappingCache command registration q of
            Inl e \<Rightarrow> (Inl e, q)
          | Inr (patched, paths) \<Rightarrow>
              (case strip_view patched paths of
                 Inl e \<Rightarrow> (Inl (PathThrown e), q)
               | Inr view \<Rightarrow>
                   (let stripped = patched\<lparr>enq_data := js_member view ''data'', enq_path := js_member view ''path''\<rparr>;
                        prepared = (unprepared stripped)\<lparr>pc_commandIdPaths := paths,
                          pc_refCommandIds := ref_command_ids paths, pc_creates := hr_creates registration\<rparr>;
                        input = \<lparr>hc_type = enq_type stripped, hc_data = enq_data stripped, hc_path = enq_path stripped,
                          hc_headers = enq_headers stripped, hc_fileRefs = None\<rparr>
                    in if skipValidation then (Inr (Accepted prepared), q)
                       else (case executor_validate (qe_schemaValidator env) (qe_queryManager env) executor input
                                    (InitialState modelState) of
                         Inl rejection \<Rightarrow> (Inr (Rejected rejection), q)
                       | Inr hydrated \<Rightarrow>
                           (case (let v = JObj [(''data'', hydrated), (''path'', js_member view ''path'')]
                                  in case paths of None \<Rightarrow> Inr v | Some ps \<Rightarrow> restoreEntityRefs v ps) of
                              Inl e \<Rightarrow> (Inl (PathThrown e), q)
                            | Inr restored \<Rightarrow>
                                accept_events env cid registration prepared
                                  (executor_handle executor
                                     \<lparr>hc_type = enq_type command, hc_data = js_member restored ''data'',
                                      hc_path = js_member restored ''path'', hc_headers = enq_headers patched,
                                      hc_fileRefs = fileRefs\<rparr>
                                     (InitialState modelState)
                                     (Initializing cid (map_option creates_idStrategy (hr_creates registration)))) q))))))"

definition header_path :: "string \<Rightarrow> string" where
  "header_path name =
    (if simple_identifier name then ''$.headers.'' @ name
     else ''$.headers['' @ [CHR 0x27] @ name @ [CHR 0x27] @ '']'')"

text \<open>\<open>declaredPath in commandIdPaths\<close> sees the built-in prototype too, but no path is a name of it.\<close>

definition assertHeaderRefsAreDeclared :: "string \<Rightarrow> jsval \<Rightarrow> refPaths option \<Rightarrow> bool" where
  "assertHeaderRefsAreDeclared commandType headers paths \<longleftrightarrow>
    (\<not> js_truthy headers \<or>
     list_all (\<lambda>(name, v). is_string v \<or> map_has (or_default paths []) (header_path name)) (own_entries headers))"

record enqueueParams =
  ep_command :: enqueueCommand
  ep_commandId :: "string option"
  ep_cacheKey :: string
  ep_skipValidation :: bool
  ep_modelState :: jsval
  ep_fileRefs :: "fileRef list option"

definition new_id :: "'s queueEnv \<Rightarrow> commandQueue \<Rightarrow> string \<times> commandQueue" where
  "new_id env q = (qe_newId env (q_nextId q), q\<lparr>q_nextId := q_nextId q + 1\<rparr>)"

definition save_file :: "'s queueEnv \<Rightarrow> string \<Rightarrow> fileInput \<Rightarrow> fileRef list \<times> commandQueue \<Rightarrow> fileRef list \<times> commandQueue" where
  "save_file env cid file st =
    (let (fileId, q) = new_id env (snd st)
     in (fst st @ [\<lparr>file_id = fileId, file_name = fin_name file, file_mimeType = fin_type file,
           file_sizeBytes = fin_size file, file_storagePath = qe_storagePath env cid fileId\<rparr>],
         q\<lparr>q_files := set_add (cid, fileId) (q_files q)\<rparr>))"

text \<open>The first stretch: the id, the files, the preparation and the check of the headers.\<close>

definition enqueue_prepare ::
  "'s queueEnv \<Rightarrow> enqueueParams \<Rightarrow> commandQueue \<Rightarrow> (string \<times> fileRef list option \<times> preparedCommand) stretch" where
  "enqueue_prepare env params q =
    (let command = ep_command params;
         (cid, q1) = (case ep_commandId params of Some i \<Rightarrow> (i, q) | None \<Rightarrow> new_id env q);
         (fileRefs, q2) = (if ep_fileRefs params = None \<and> enq_files command \<noteq> []
            then (let (refs, q') = fold (save_file env cid) (enq_files command) ([], q1) in (Some refs, q'))
            else (ep_fileRefs params, q1));
         (r, q3) = (case q_getRegistration env (enq_type command) of
            None \<Rightarrow> (Inr (Accepted (unprepared command)), q2)
          | Some registration \<Rightarrow> prepareCommandWithRegistration env command cid registration
              (ep_skipValidation params) (ep_modelState params) fileRefs q2)
     in case r of
          Inl e \<Rightarrow> (Inl e, q3)
        | Inr (Rejected e) \<Rightarrow> (Inr (Rejected e), q3)
        | Inr (Accepted prepared) \<Rightarrow>
            if \<not> assertHeaderRefsAreDeclared (enq_type command) (enq_headers (pc_command prepared))
                   (pc_commandIdPaths prepared)
            then (Inl (AssertionFailed (''Command '' @ enq_type command @ '' carries an undeclared EntityRef header'')), q3)
            else (Inr (Accepted (cid, fileRefs, prepared)), q3))"

text \<open>The second stretch: the dependencies and which of them the command store knows.\<close>

definition all_deps :: "enqueueParams \<Rightarrow> preparedCommand \<Rightarrow> commandDependency list" where
  "all_deps params prepared =
    buildCommandDependencies (enq_dependsOn (ep_command params)) (pc_autoDeps prepared) (pc_refCommandIds prepared)"

definition enqueue_lookup ::
  "int \<Rightarrow> enqueueParams \<Rightarrow> preparedCommand \<Rightarrow> commandQueue \<Rightarrow> (string, command) jsmap \<times> commandQueue" where
  "enqueue_lookup now params prepared q =
    (let (deps, s) = cs_getByIds now (map dep_commandId (all_deps params prepared)) (commands_of q)
     in (deps, set_commands s q))"

definition blocking :: "(string, command) jsmap \<Rightarrow> commandQueue \<Rightarrow> string \<Rightarrow> bool" where
  "blocking deps q cid =
    (case map_get deps cid of None \<Rightarrow> False | Some d \<Rightarrow> \<not> isTerminalStatus (cmd_status (live_cmd q d)))"

definition command_record ::
  "'s queueEnv \<Rightarrow> int \<Rightarrow> enqueueParams \<Rightarrow> string \<Rightarrow> fileRef list option \<Rightarrow> preparedCommand \<Rightarrow> string list \<Rightarrow> command" where
  "command_record env now params cid fileRefs prepared blocked =
    \<lparr>commandId = cid, cmd_cacheKey = ep_cacheKey params,
     cmd_service = or_default (enq_service (ep_command params)) (qe_defaultService env),
     cmd_type = enq_type (ep_command params),
     cmd_status = (if blocked \<noteq> [] then Blocked else Pending),
     dependsOn = all_deps params prepared, blockedBy = blocked, attempts = 0, cmd_seq = 0,
     cmd_createdAt = now, cmd_updatedAt = now,
     cmd_body = \<lparr>cb_data = enq_data (pc_command prepared), cb_path = enq_path (pc_command prepared),
       cb_headers = enq_headers (pc_command prepared), cb_lastAttemptAt = None, cb_error = None,
       cb_serverResponse = JUndef, cb_postProcess = pc_postProcess prepared, cb_creates = pc_creates prepared,
       cb_revision = enq_revision (pc_command prepared), cb_fileRefs = fileRefs,
       cb_modelState = ep_modelState params, cb_affectedAggregates = pc_affectedAggregates prepared,
       cb_commandIdPaths = pc_commandIdPaths prepared\<rparr>\<rparr>"

record enqueueSuccess =
  es_commandId :: string
  es_anticipatedEvents :: "anticipatedEvent list"
  es_entityRef :: "jsval option"

definition anticipate_on_submit ::
  "'s queueEnv \<Rightarrow> int \<Rightarrow> preparedCommand \<Rightarrow> command \<Rightarrow> commandQueue \<Rightarrow> commandQueue" where
  "anticipate_on_submit env now prepared c q =
    (if pc_events prepared = [] then q
     else (let clientId = (case pc_creates prepared of
                 Some config \<Rightarrow> if creates_idStrategy config = Temporary
                   then extractAggregateIdFromEvents (pc_events prepared) (creates_eventType config) else None
               | None \<Rightarrow> None)
           in set_anticipation (snd (onApplyAnticipatedOp (qe_anticipation env) now c (pc_events prepared) clientId
                (anticipation_of q))) q))"

text \<open>The third stretch: the record is saved and announced.\<close>

definition enqueue_save ::
  "'s queueEnv \<Rightarrow> int \<Rightarrow> enqueueParams \<Rightarrow> string \<Rightarrow> fileRef list option \<Rightarrow> preparedCommand \<Rightarrow>
   (string, command) jsmap \<Rightarrow> commandQueue \<Rightarrow> enqueueSuccess \<times> commandQueue" where
  "enqueue_save env now params cid fileRefs prepared deps q =
    (let blocked = filter (blocking deps q) (map dep_commandId (all_deps params prepared));
         record0 = command_record env now params cid fileRefs prepared blocked;
         q1 = with_commands (cs_save record0) q;
         q2 = anticipate_on_submit env now prepared (live_cmd q1 record0) q1;
         q3 = log_event (BusEnqueued cid (cmd_type record0) (cmd_cacheKey record0))
                (emitCommandEvent EnqueuedEvent (live_cmd q2 record0) None q2)
     in (\<lparr>es_commandId = cid, es_anticipatedEvents = pc_events prepared, es_entityRef = pc_entityRef prepared\<rparr>,
         if blocked = [] then processPendingCommands q3 else q3))"

definition enqueue :: "'s queueEnv \<Rightarrow> int \<Rightarrow> enqueueParams \<Rightarrow> commandQueue \<Rightarrow> enqueueSuccess stretch" where
  "enqueue env now params q =
    (case enqueue_prepare env params q of
       (Inl e, q1) \<Rightarrow> (Inl e, q1)
     | (Inr (Rejected e), q1) \<Rightarrow> (Inr (Rejected e), q1)
     | (Inr (Accepted (cid, fileRefs, prepared)), q1) \<Rightarrow>
         (let (deps, q2) = enqueue_lookup now params prepared q1;
              (success, q3) = enqueue_save env now params cid fileRefs prepared deps q2
          in (Inr (Accepted success), q3)))"

section \<open>Cancelling and retrying\<close>

datatype commandRefusal = CommandNotFound string | InvalidCommandStatus string commandStatus

definition cancelCommand ::
  "'s queueEnv \<Rightarrow> int \<Rightarrow> string \<Rightarrow> commandQueue \<Rightarrow> commandRefusal option \<times> queueRun" where
  "cancelCommand env now cid q =
    (case q_get now cid q of
       (None, q1) \<Rightarrow> (Some (CommandNotFound cid), (None, q1))
     | (Some c, q1) \<Rightarrow>
         if cmd_status c = Sending
         then (Some (InvalidCommandStatus ''Cannot cancel command that is currently sending'' Sending), (None, q1))
         else if isTerminalStatus (cmd_status c)
         then (Some (InvalidCommandStatus ''Cannot cancel command in status'' (cmd_status c)), (None, q1))
         else (None,
           (case with_events q1 c of
              Inl e \<Rightarrow> (Some e, q1)
            | Inr (_, events) \<Rightarrow>
                and_then (updateCommandStatus now c Cancelled (\<lambda>r. r) q1) (\<lambda>q2.
                let q3 = announce_cancelled c q2
                in cascadeFromTerminal env now (live_cmd q3 c) events q3))))"

definition retryCommand :: "int \<Rightarrow> string \<Rightarrow> commandQueue \<Rightarrow> commandRefusal option \<times> queueRun" where
  "retryCommand now cid q =
    (case q_get now cid q of
       (None, q1) \<Rightarrow> (Some (CommandNotFound cid), (None, q1))
     | (Some c, q1) \<Rightarrow>
         if cmd_status c \<noteq> Failed
         then (Some (InvalidCommandStatus ''Can only retry failed commands, current status'' (cmd_status c)), (None, q1))
         else (None, updateCommandStatus now c Pending (set_error None) q1))"

section \<open>The processing loop\<close>

text \<open>
  A call that finds no loop running starts one; the loop takes a snapshot of the pending commands per
  pass, and passes again while it was asked to.
\<close>

definition pass_start :: "'s queueEnv \<Rightarrow> commandQueue \<Rightarrow> commandQueue" where
  "pass_start env q =
    q\<lparr>q_pendingReprocess := False,
      q_pass := Some (if qe_sender env then cs_getByStatus (One Pending) (commands_of q) else [])\<rparr>"

definition loop_abort :: "commandQueue \<Rightarrow> commandQueue" where
  "loop_abort q = q\<lparr>q_processing := False, q_pass := None, q_inflight := None\<rparr>"

definition end_pass :: "commandQueue \<Rightarrow> commandQueue" where
  "end_pass q =
    (if q_pendingReprocess q \<and> \<not> q_paused q then q\<lparr>q_pass := None\<rparr> else loop_abort q)"

definition assertWireHeaders :: "jsval \<Rightarrow> bool" where
  "assertWireHeaders headers \<longleftrightarrow>
    headers = JUndef \<or> (case headers of JObj kvs \<Rightarrow> list_all (\<lambda>(n, v). is_string v) kvs | _ \<Rightarrow> False)"

text \<open>\<open>processCommand\<close> up to the call of the sender; an error leaves the loop and the status.\<close>

definition begin_send :: "'s queueEnv \<Rightarrow> int \<Rightarrow> command \<Rightarrow> commandQueue \<Rightarrow> queueRun" where
  "begin_send env now c q =
    (case q_get now (commandId c) q of
       (None, q1) \<Rightarrow> (None, q1)
     | (Some current, q1) \<Rightarrow>
         if cmd_status current \<noteq> Pending then (None, q1)
         else and_then (updateCommandStatus now current Sending (\<lambda>r. set_body (\<lambda>b. b\<lparr>cb_lastAttemptAt := Some now\<rparr>)
                          (r\<lparr>attempts := attempts current + 1\<rparr>)) q1) (\<lambda>q2.
           let updated = live_cmd q2 current;
               (correlationId, q3) = new_id env q2;
               q4 = log_event (BusSent (commandId current) correlationId) q3
           in case resolveAutoRevisionForSend env updated q4 of
                Inl e \<Rightarrow> (Some e, q4)
              | Inr sendCommand \<Rightarrow>
                  if \<not> assertWireHeaders (cb_headers (cmd_body sendCommand))
                  then (Some (AssertionFailed (''Command '' @ cmd_type sendCommand @ '' headers must be plain strings'')), q4)
                  else (None, q4\<lparr>q_inflight := Some (updated, correlationId, sendCommand)\<rparr>)))"

definition pass_next :: "'s queueEnv \<Rightarrow> int \<Rightarrow> commandQueue \<Rightarrow> commandQueue" where
  "pass_next env now q =
    (case q_pass q of
       None \<Rightarrow> q
     | Some [] \<Rightarrow> end_pass q
     | Some (c # cs) \<Rightarrow>
         if q_paused q then end_pass q
         else if blockedBy (live_cmd q c) \<noteq> [] then q\<lparr>q_pass := Some cs\<rparr>
         else (case begin_send env now c (q\<lparr>q_pass := Some cs\<rparr>) of
                 (None, q1) \<Rightarrow> q1
               | (Some e, q1) \<Rightarrow> loop_abort q1))"

text \<open>The rest of \<open>processCommand\<close>, with the sender's reply.\<close>

definition finish_send :: "'s queueEnv \<Rightarrow> int \<Rightarrow> sendException + jsval \<Rightarrow> commandQueue \<Rightarrow> commandQueue" where
  "finish_send env now reply q =
    (case q_inflight q of
       None \<Rightarrow> q
     | Some (updated, correlationId, sent) \<Rightarrow>
         (let q1 = q\<lparr>q_inflight := None\<rparr>
          in case (case reply of
               Inr response \<Rightarrow> processCommandSuccess env now updated updated correlationId response q1
             | Inl e \<Rightarrow> processCommandFailure env now updated updated e q1) of
            (None, q2) \<Rightarrow> q2
          | (Some e, q2) \<Rightarrow> loop_abort q2))"

definition timer_fires :: "nat \<Rightarrow> commandQueue \<Rightarrow> commandQueue" where
  "timer_fires n q = processPendingCommands (q\<lparr>q_retryTimers := filter (\<lambda>(i, d). i \<noteq> n) (q_retryTimers q)\<rparr>)"

section \<open>Life cycle\<close>

definition cq_initialize :: "'s queueEnv \<Rightarrow> commandQueue \<Rightarrow> queueRun" where
  "cq_initialize env q = rebuildChains env q"

text \<open>
  \<open>pause\<close> sets the flag and awaits the loop; \<open>pause_settled\<close> is what it does afterwards.  \<open>reset\<close> and
  \<open>clearAll\<close> go on when the loop has settled as well.
\<close>

definition cq_pause :: "commandQueue \<Rightarrow> commandQueue" where
  "cq_pause q = q\<lparr>q_paused := True\<rparr>"

definition pause_settled :: "commandQueue \<Rightarrow> commandQueue" where
  "pause_settled q = log_event BusPaused q"

definition cq_resume :: "commandQueue \<Rightarrow> commandQueue" where
  "cq_resume q = processPendingCommands (q\<lparr>q_paused := False\<rparr>)"

definition resume_settled :: "commandQueue \<Rightarrow> commandQueue" where
  "resume_settled q = log_event BusResumed q"

definition cq_reset :: "commandQueue \<Rightarrow> commandQueue" where
  "cq_reset q = (cq_pause q)\<lparr>q_retryTimers := []\<rparr>"

definition clearAll_settled :: "commandQueue \<Rightarrow> commandQueue" where
  "clearAll_settled q =
    (let q1 = with_anticipation an_clearAll (pause_settled q);
         q2 = with_commands cs_deleteAll (q1\<lparr>q_files := []\<rparr>);
         q3 = set_mappings (ims_deleteAll (mappings_of q2)) q2
     in q3\<lparr>q_chains := registry_clear (q_chains q3)\<rparr>)"

definition cq_destroy :: "commandQueue \<Rightarrow> commandQueue" where
  "cq_destroy q = q\<lparr>q_paused := True, q_retryTimers := []\<rparr>"

text \<open>Waiting for a command: what its status means to a waiter.\<close>

definition toCompletionResult :: "command \<Rightarrow> queueError + (commandException + jsval)" where
  "toCompletionResult c =
    (case cmd_status c of
       Succeeded \<Rightarrow> Inr (Inr (cb_serverResponse (cmd_body c)))
     | Applied \<Rightarrow> Inr (Inr (cb_serverResponse (cmd_body c)))
     | Failed \<Rightarrow> Inr (Inl (case cb_error (cmd_body c) of
         Some (CommandFailed f) \<Rightarrow> CommandFailed f
       | Some (OtherException message) \<Rightarrow>
           commandFailedException ServerSource message PermanentFailure None None None
       | Some CommandCancelled \<Rightarrow>
           commandFailedException ServerSource ''Command was cancelled'' PermanentFailure None None None
       | Some CommandTimeout \<Rightarrow>
           commandFailedException ServerSource ''Command timed out'' PermanentFailure None None None
       | None \<Rightarrow> commandFailedException ServerSource ''Unknown error'' PermanentFailure None None None))
     | Cancelled \<Rightarrow> Inr (Inl CommandCancelled)
     | _ \<Rightarrow> Inl (AssertionFailed ''Unexpected terminal status''))"

end
