(* ===== verification/StorageFrames.thy ===== *)
theory StorageFrames
  imports CommandApi
begin

lemma frame_read_models [simp]:
  "commands (saveReadModel r st) = commands st" "commands (deleteReadModel c i st) = commands st"
  "commands (addCacheKeysToReadModel c i ks st) = commands st"
  by (simp_all add: saveReadModel_def deleteReadModel_def addCacheKeysToReadModel_def Let_def split: option.split)

lemma frame_events [simp]:
  "commands (saveCachedEvent e st) = commands st" "commands (deleteAnticipatedEventsByCommand i st) = commands st"
  "commands (deleteAnticipatedEventsByCommands is st) = commands st"
  by (simp_all add: saveCachedEvent_def deleteAnticipatedEventsByCommand_def deleteAnticipatedEventsByCommands_def
    delete_events_where_def split: option.split)

lemma frame_rows [simp]:
  "commands (clearLocalChanges now c i st) = commands st" "commands (setClientMetadata c i m st) = commands st"
  "commands (snd (rms_delete c i st)) = commands st" "commands (snd (save_row e r k st)) = commands st"
  "commands (snd (local_write now c i t k st)) = commands st" "commands (snd (setLocalData now c i d k st)) = commands st"
  by (simp_all add: clearLocalChanges_def setClientMetadata_def rms_delete_def save_row_def local_write_def
    setLocalData_def Let_def split: option.split)

lemma frame_migrate [simp]: "commands (migrateReadModelIds ps st) = commands st"
proof -
  have one: "commands (migrate_one p st) = commands st" for p and st :: "'a inMemoryStorage"
    by (simp add: migrate_one_def Let_def split: option.split)
  show ?thesis unfolding migrateReadModelIds_def by (induction ps arbitrary: st) (simp_all add: one)
qed

text \<open>Anticipated events.\<close>

lemma frame_applied: "applyLocalResult now r k st = Inr (outcome, st') \<Longrightarrow> commands st' = commands st"
proof -
  have pair: "x = (outcome, st') \<Longrightarrow> commands (snd x) = commands st \<Longrightarrow> commands st' = commands st" for x by simp
  show "applyLocalResult now r k st = Inr (outcome, st') \<Longrightarrow> commands st' = commands st"
    by (auto simp: applyLocalResult_def applyLocalChanges_def map_result_Inr split: option.splits updateOperation.splits
      dest!: pair [OF sym] pair)
qed

abbreviation an_commands :: "'c anticipation \<Rightarrow> (string, 'c commandRecord) jsmap" where
  "an_commands a \<equiv> commands (an_storage a)"

lemma set_an_storage_storage [simp]: "an_storage (set_an_storage st a) = st"
  by (simp add: set_an_storage_def)

lemma frame_result [simp]: "an_commands (ap_state (snd (apply_result now k r p))) = an_commands (ap_state p)"
  by (auto simp: apply_result_def Let_def split: option.split sum.split dest: frame_applied)

lemma run_all_keeps:
  assumes "\<And>x s. f (snd (g x s)) = f s"
  shows "f (snd (run_all g xs s)) = f s"
proof (induction xs arbitrary: s)
  case (Cons x xs)
  show ?case using Cons [of "snd (g x s)"] assms [of x s]
    by (cases "g x s"; cases "fst (g x s)") (simp_all add: and_then_def)
qed simp

lemma frame_event [simp]: "an_commands (ap_state (snd (apply_event env now c e p))) = an_commands (ap_state p)"
proof -
  have one: "an_commands (ap_state (snd (run_all (apply_result now k) rs p))) = an_commands (ap_state p)" for k rs p
    by (rule run_all_keeps [where f = "\<lambda>p. an_commands (ap_state p)"]) simp
  have two: "an_commands (ap_state (snd (run_all (\<lambda>processor. run_all (apply_result now k) (h processor)) ps p))) =
      an_commands (ap_state p)" for k h ps p
    by (rule run_all_keeps [where f = "\<lambda>p. an_commands (ap_state p)"]) (rule one)
  show ?thesis by (simp add: apply_event_def Let_def cacheAnticipatedEvent_def two split: prod.split)
qed

lemma frame_stamp [simp]: "commands (fold (stamp_client i) ks st) = commands st"
  by (induction ks arbitrary: st) (simp_all add: stamp_client_def split: option.split prod.split)

lemma frame_finish [simp]: "an_commands (finish_apply c i p) = an_commands (ap_state p)"
  by (simp add: finish_apply_def Let_def split: option.split)

lemma frame_apply [simp]: "an_commands (snd (onApplyAnticipatedOp env now c es i a)) = an_commands a"
proof -
  have "an_commands (ap_state (snd (run_all (apply_event env now c) es p))) = an_commands (ap_state p)" for p
    by (rule run_all_keeps [where f = "\<lambda>p. an_commands (ap_state p)"]) simp
  from this [of "\<lparr>ap_state = a, ap_updatedIds = [], ap_buckets = []\<rparr>"] show ?thesis
    by (auto simp: onApplyAnticipatedOp_def split: prod.split option.split)
qed

lemma frame_clear_tracked [simp]: "commands (fold (clear_tracked now) ks st) = commands st"
  by (induction ks arbitrary: st) (simp_all add: clear_tracked_def split: option.split prod.split)

lemma frame_cleanup [simp]:
  "an_commands (cleanupOnSucceeded i a) = an_commands a" "an_commands (cleanupOnAppliedBatch is a) = an_commands a"
  "an_commands (drop_overlay now i a) = an_commands a" "an_commands (cleanupOnFailure now i a) = an_commands a"
  "an_commands (an_clearAll a) = an_commands a" "an_commands (snd (an_regenerate env now c es a)) = an_commands a"
  by (simp_all add: cleanupOnSucceeded_def cleanupOnAppliedBatch_def drop_overlay_def cleanupOnFailure_def
    an_clearAll_def an_regenerate_def deleteAnticipatedEvents_def deleteAnticipatedEventsForCommands_def Let_def
    split: option.split)

lemma frame_resolve [simp]: "cm_storage (snd (resolvePendingKeys ke i m r s)) = cm_storage s"
proof -
  have one: "cm_storage s' = cm_storage s" if "resolve_key ke i m r k s = Inr s'" for k s'  and s :: "'a cacheManager"
    using that
    by (auto simp: resolve_key_def reconcile_registration_def mark_dirty_def cm_emit_def scheduleDirtyFlush_def Let_def bind_result_Inr map_result_Inr
        split: option.splits if_splits prod.splits)
  have "cm_storage (snd (resolve_keys ke i m r ks s)) = cm_storage s" for ks and s :: "'a cacheManager"
    by (induction ks arbitrary: s) (auto simp: scheduleDirtyFlush_def split: sum.split dest: one)
  then show ?thesis by (simp add: resolvePendingKeys_def Let_def)
qed

end
