(* ===== verification/QueueMemory.thy ===== *)
theory QueueMemory
  imports StorageFrames
begin

text \<open>
  How the operations of the command queue change the commands in memory: \<open>mem\<close> is the record under an id,
  \<open>active\<close> the record if it is still in play.  \<open>evolves\<close> is what every operation but a retry respects:
  no command disappears, terminal statuses stay, dependencies are only dropped.
\<close>

section \<open>The view\<close>

definition mem :: "commandQueue \<Rightarrow> string \<Rightarrow> command option" where
  "mem q i = memory_get (q_commandStore q) i"

definition active :: "commandQueue \<Rightarrow> string \<Rightarrow> command option" where
  "active q i = map_get (cs_active (q_commandStore q)) i"

definition queue_ok :: "commandQueue \<Rightarrow> bool" where
  "queue_ok q \<longleftrightarrow> cs_inv ((q_commandStore q)\<lparr>cs_storage := new_storage\<rparr>) \<and> keyed_by commandId (commands (q_storage q))"

text \<open>What the views depend on.\<close>

definition core :: "commandQueue \<Rightarrow> commandBody commandStore \<times> (string, command) jsmap" where
  "core q = (q_commandStore q, commands (q_storage q))"

lemma core_iff: "core q' = core q \<longleftrightarrow> q_commandStore q' = q_commandStore q \<and> commands (q_storage q') = commands (q_storage q)"
  by (simp add: core_def)

lemma owned_storage [simp]: "an_storage (anticipation_of q) = q_storage q" "cm_storage (cache_of q) = q_storage q"
  by (simp_all add: anticipation_of_def cache_of_def)

lemma frame_set_anticipation: "an_commands a = commands (q_storage q) \<Longrightarrow> core (set_anticipation a q) = core q"
  by (simp add: core_iff set_anticipation_def)

lemma frame_with_anticipation [simp]:
  "(\<And>a. an_commands (f a) = an_commands a) \<Longrightarrow> core (with_anticipation f q) = core q"
  by (simp add: with_anticipation_def frame_set_anticipation)

lemma frame_stores [simp]:
  "core (log_event e q) = core q" "core (emitCommandEvent t c p q) = core q"
  "core (remove_files c q) = core q" "core (detach_chains c q) = core q"
  "core (announce_status st cp q) = core q"
  "core (announce_applied c q) = core q"
  "core (announce_cancelled c q) = core q"
  "core (processPendingCommands q) = core q"
  "core (schedule_retry env n q) = core q"
  "core (q\<lparr>q_chains := r\<rparr>) = core q" "core (q\<lparr>q_log := l\<rparr>) = core q" "core (q\<lparr>q_inflight := x\<rparr>) = core q"
  "core (q\<lparr>q_pass := y\<rparr>) = core q"
  by (simp_all add: core_iff log_event_def emitCommandEvent_def remove_files_def detach_chains_def announce_status_def
      announce_applied_def announce_cancelled_def processPendingCommands_def schedule_retry_def split: prod.split)

lemma frame_clean_up [simp]: "core (clean_up now st c q) = core q"
  by (simp add: clean_up_def)

lemma frame_regenerate [simp]: "core (regenerate_events env now c es q) = core q"
  by (simp add: regenerate_events_def frame_set_anticipation)

lemma fold_frame: "(\<And>x q. core (f x q) = core q) \<Longrightarrow> core (fold f xs q) = core q"
  by (induction xs arbitrary: q) simp_all

lemma frame_invalidate [simp]: "core (fireInvalidationsForSuccess c us r q) = core q"
proof -
  have "core (snd (fold (invalidate_stream c reason) ss st)) = core (snd st)" for reason ss st
    by (induction ss arbitrary: st) (simp_all add: invalidate_stream_def split: prod.split)
  then show ?thesis by (simp add: fireInvalidationsForSuccess_def Let_def)
qed

lemma frame_folds [simp]:
  "core (fold (clean_up now st) cs q) = core q"
  "core (fold detach_chains cs q) = core q"
  "core (fold (announce_status st) cps q) = core q"
  "core (fold (announce_cancelled \<circ> f) xs q) = core q"
  "core (fold announce_applied cs q) = core q"
  by (rule fold_frame, simp)+

lemma view_cong:
  "core q' = core q \<Longrightarrow> mem q' = mem q" "core q' = core q \<Longrightarrow> active q' = active q"
  "core q' = core q \<Longrightarrow> queue_ok q' = queue_ok q"
  by (auto simp: core_iff mem_def active_def queue_ok_def)

section \<open>Updates of one command\<close>

lemma view_store:
  "mem q i = memory_get ((q_commandStore q)\<lparr>cs_storage := t\<rparr>) i"
  "active q i = map_get (cs_active ((q_commandStore q)\<lparr>cs_storage := t\<rparr>)) i"
  by (simp_all add: mem_def active_def memory_get_ops)

lemma active_mem: "active q i = Some c \<Longrightarrow> mem q i = Some c"
  by (simp add: active_def mem_def memory_get_def)

lemma queue_okD:
  assumes "queue_ok q"
  shows "mem q i = Some c \<Longrightarrow> commandId c = i" "active q i = Some c \<Longrightarrow> isInMemoryStatus (cmd_status c)"
    "active q i = None \<Longrightarrow> mem q i = Some c \<Longrightarrow> map_get (cs_ttlCache (q_commandStore q)) i \<noteq> None"
    "distinct (map_keys (cs_active (q_commandStore q)))"
proof -
  note D = cs_invD [OF conjunct1 [OF assms [unfolded queue_ok_def]], simplified]
  show "active q i = Some c \<Longrightarrow> isInMemoryStatus (cmd_status c)" by (simp add: active_def D(6))
  show "mem q i = Some c \<Longrightarrow> commandId c = i"
    using D(4) [of i] D(7) [of i] by (auto simp: mem_def memory_get_def split: option.splits)
  show "active q i = None \<Longrightarrow> mem q i = Some c \<Longrightarrow> map_get (cs_ttlCache (q_commandStore q)) i \<noteq> None"
    by (auto simp: active_def mem_def memory_get_def)
  show "distinct (map_keys (cs_active (q_commandStore q)))"
    using D(1) by (simp add: keyed_by_def map_wf_def)
qed

lemma updateInPlace_storage:
  "updateInPlace now i u (s\<lparr>cs_storage := t\<rparr>) =
    (fst (updateInPlace now i u s), (snd (updateInPlace now i u s))\<lparr>cs_storage := t\<rparr>)"
  by (simp add: updateInPlace_def addToTtlCache_def Let_def split: option.split)

lemma updateInPlace_keeps [simp]: "cs_storage (snd (updateInPlace now i u s)) = cs_storage s"
  by (simp add: updateInPlace_def addToTtlCache_def Let_def split: option.split)

text \<open>What an update does to the two views, with the invariant.\<close>

definition updated_view :: "string \<Rightarrow> (command \<Rightarrow> command) \<Rightarrow> commandQueue \<Rightarrow> commandQueue \<Rightarrow> bool" where
  "updated_view i u q q' \<longleftrightarrow> queue_ok q' \<and>
    (\<forall>j. mem q' j = (if j = i then map_option u (mem q i) else mem q j)) \<and>
    (\<forall>j. active q' j = (if j = i then Option.bind (active q i)
       (\<lambda>c. if isInMemoryStatus (cmd_status (u c)) then Some (u c) else None) else active q j))"

lemma updateInPlace_view:
  assumes ok: "queue_ok q" and u: "\<And>c. commandId (u c) = commandId c"
    and store: "q_commandStore q' = (snd (updateInPlace now i u (q_commandStore q)))\<lparr>cs_storage := t\<rparr>"
    and sto: "commands (q_storage q') = commands (q_storage q)"
  shows "updated_view i u q q'"
proof -
  let ?s = "(q_commandStore q)\<lparr>cs_storage := new_storage\<rparr>"
  have inv: "cs_inv ?s" using ok by (simp add: queue_ok_def)
  have s': "(q_commandStore q')\<lparr>cs_storage := new_storage\<rparr> = snd (updateInPlace now i u ?s)"
    by (simp add: store updateInPlace_storage)
  have m: "mem q j = memory_get ?s j" "mem q' j = memory_get (snd (updateInPlace now i u ?s)) j"
    "active q j = map_get (cs_active ?s) j" "active q' j = map_get (cs_active (snd (updateInPlace now i u ?s))) j" for j
    unfolding s' [symmetric] by (rule view_store)+
  have "active q' j = (if j = i then Option.bind (active q i)
       (\<lambda>c. if isInMemoryStatus (cmd_status (u c)) then Some (u c) else None) else active q j)" for j
    unfolding m(3,4)
    by (rule updateInPlace_cases [OF inv, of i u now]) (simp_all add: addToTtlCache_def)
  moreover have "queue_ok q'"
    using ok unfolding queue_ok_def s' sto by (auto intro: updateInPlace_memory(3) [OF inv u])
  ultimately show ?thesis
    unfolding updated_view_def m(1,2) updateInPlace_memory(2) [OF inv u] by blast
qed

lemma set_commands_store [simp]: "q_commandStore (set_commands s q) = s" "q_storage (set_commands s q) = cs_storage s"
  by (simp_all add: set_commands_def)

lemma commands_of_storage [simp]: "cs_storage (commands_of q) = q_storage q"
  by (simp add: commands_of_def)

lemma same_maps:
  assumes "cs_active (q_commandStore q') = cs_active (q_commandStore q)"
    and "cs_ttlCache (q_commandStore q') = cs_ttlCache (q_commandStore q)"
    and "commands (q_storage q') = commands (q_storage q)"
  shows "mem q' = mem q" "active q' = active q" "queue_ok q' = queue_ok q"
proof -
  show "mem q' = mem q" by (rule ext) (simp add: mem_def memory_get_def assms split: option.split)
qed (use assms in \<open>simp_all add: active_def queue_ok_def cs_inv_def fun_eq_iff assms(3)\<close>)

lemma q_update_view:
  assumes ok: "queue_ok q" and u: "\<And>c. commandId (u c) = commandId c"
  shows "updated_view i u q (q_update now i u q)"
proof -
  let ?r = "updateInPlace now i u (commands_of q)"
  have "snd ?r = (snd (updateInPlace now i u (q_commandStore q)))\<lparr>cs_storage := q_storage q\<rparr>"
    by (simp add: commands_of_def updateInPlace_storage)
  then have v: "updated_view i u q (set_commands (snd ?r) q)"
    by (intro updateInPlace_view [OF ok u, where t = "q_storage q" and now = now]) simp_all
  have "snd (cs_update now i u (commands_of q)) = (if fst ?r then cs_scheduleFlush (snd ?r) else snd ?r)"
    by (simp add: cs_update_def split: prod.split)
  then show ?thesis
    using v same_maps [of "q_update now i u q" "set_commands (snd ?r) q"]
    by (simp add: updated_view_def q_update_def with_commands_def)
qed

section \<open>Batches\<close>

lemma live_mem: "mem q (commandId c) = Some c' \<Longrightarrow> live_cmd q c = c'" "mem q (commandId c) = None \<Longrightarrow> live_cmd q c = c"
  by (simp_all add: live_cmd_def mem_def)

lemma live_id: "queue_ok q \<Longrightarrow> commandId (live_cmd q c) = commandId c"
  by (cases "mem q (commandId c)") (simp_all add: live_mem queue_okD(1))

text \<open>The views after the same kind of update to distinct commands.\<close>

definition batch_view :: "(string \<times> (command \<Rightarrow> command)) list \<Rightarrow> commandQueue \<Rightarrow> commandQueue \<Rightarrow> bool" where
  "batch_view us q q' \<longleftrightarrow> queue_ok q' \<and>
    (\<forall>j. mem q' j = (case map_of us j of Some u \<Rightarrow> map_option u (mem q j) | None \<Rightarrow> mem q j)) \<and>
    (\<forall>j. active q' j = (case map_of us j of
       Some u \<Rightarrow> Option.bind (active q j) (\<lambda>c. if isInMemoryStatus (cmd_status (u c)) then Some (u c) else None)
     | None \<Rightarrow> active q j))"

definition update_step ::
  "int \<Rightarrow> string \<times> (command \<Rightarrow> command) \<Rightarrow> nat \<times> commandBody commandStore \<Rightarrow> nat \<times> commandBody commandStore" where
  "update_step now iu ns =
    (case updateInPlace now (fst iu) (snd iu) (snd ns) of (found, s) \<Rightarrow> (if found then fst ns + 1 else fst ns, s))"

lemma batch_store: "snd (cs_batchUpdate now us s) =
    (let r = fold (update_step now) us (0, s) in if 0 < fst r then cs_scheduleFlush (snd r) else snd r)"
proof -
  have "(\<lambda>(i, u) (n, s'). let (found, s'') = updateInPlace now i u s' in (if found then n + 1 else n, s'')) =
      update_step now"
    by (rule ext, rule ext) (simp add: update_step_def split: prod.split)
  then show ?thesis by (simp add: cs_batchUpdate_def Let_def split: prod.split)
qed

lemma fold_update_keeps [simp]: "cs_storage (snd (fold (update_step now) us ns)) = cs_storage (snd ns)"
proof (induction us arbitrary: ns)
  case (Cons iu us)
  have "cs_storage (snd (update_step now iu ns)) = cs_storage (snd ns)"
    using updateInPlace_keeps [of now "fst iu" "snd iu" "snd ns"]
    by (cases "updateInPlace now (fst iu) (snd iu) (snd ns)") (simp add: update_step_def)
  then show ?case by (simp add: Cons)
qed simp

lemma fold_update_view:
  assumes "queue_ok q" "distinct (map fst us)" "\<And>i u c. (i, u) \<in> set us \<Longrightarrow> commandId (u c) = commandId c"
    and "snd ns = (q_commandStore q)\<lparr>cs_storage := t\<rparr>" "commands t = commands (q_storage q)"
    and "q_commandStore q' = snd (fold (update_step now) us ns)"
    and "commands (q_storage q') = commands (q_storage q)"
  shows "batch_view us q q'"
  using assms
proof (induction us arbitrary: q ns t)
  case Nil
  then have "cs_active (q_commandStore q') = cs_active (q_commandStore q)"
    "cs_ttlCache (q_commandStore q') = cs_ttlCache (q_commandStore q)" "commands (q_storage q') = commands (q_storage q)"
    by simp_all
  from same_maps [OF this] Nil(1) show ?case by (simp add: batch_view_def)
next
  case (Cons iu us)
  obtain i u where iu: "iu = (i, u)" by (cases iu)
  have u: "commandId (u c) = commandId c" for c using Cons.prems(3) [of i u] iu by simp
  let ?ns = "update_step now (i, u) ns"
  define q1 where "q1 = set_commands (snd ?ns) q"
  have step: "snd ?ns = (snd (updateInPlace now i u (q_commandStore q)))\<lparr>cs_storage := t\<rparr>"
    by (simp add: update_step_def Cons.prems(4) updateInPlace_storage)
  then have v: "updated_view i u q q1"
    using Cons.prems(1,5) u by (intro updateInPlace_view) (simp_all add: q1_def)
  have "batch_view us q1 q'"
  proof (rule Cons.IH [where ns = ?ns and t = "cs_storage (snd ?ns)"])
    show "snd ?ns = (q_commandStore q1)\<lparr>cs_storage := cs_storage (snd ?ns)\<rparr>" by (simp add: q1_def)
    show "queue_ok q1" using v by (simp add: updated_view_def)
    show "commandId (f c) = commandId c" if "(j, f) \<in> set us" for j f c using Cons.prems(3) [of j f] that by simp
  qed (use Cons.prems(2,5-7) iu in \<open>simp_all add: q1_def step\<close>)
  moreover have "map_of us i = None" using Cons.prems(2) iu by (auto simp: map_of_eq_None_iff)
  ultimately show ?case
    using v unfolding batch_view_def updated_view_def iu by (auto split: option.splits)
qed

lemma batch_update_view:
  assumes "queue_ok q" "distinct (map fst us)" "\<And>i u c. (i, u) \<in> set us \<Longrightarrow> commandId (u c) = commandId c"
  shows "batch_view us q (with_commands (\<lambda>s. snd (cs_batchUpdate now us s)) q)"
proof -
  let ?r = "fold (update_step now) us (0, commands_of q)"
  have v: "batch_view us q (set_commands (snd ?r) q)"
  proof (rule fold_update_view [where ns = "(0, commands_of q)" and t = "q_storage q" and now = now])
    show "queue_ok q" "distinct (map fst us)" by fact+
    show "\<And>i u c. (i, u) \<in> set us \<Longrightarrow> commandId (u c) = commandId c" by fact
  qed (simp_all add: commands_of_def)
  let ?q = "with_commands (\<lambda>s. snd (cs_batchUpdate now us s)) q"
  have "cs_active (q_commandStore ?q) = cs_active (q_commandStore (set_commands (snd ?r) q))"
    "cs_ttlCache (q_commandStore ?q) = cs_ttlCache (q_commandStore (set_commands (snd ?r) q))"
    "commands (q_storage ?q) = commands (q_storage (set_commands (snd ?r) q))"
    by (simp_all add: with_commands_def batch_store Let_def)
  from same_maps [OF this] v show ?thesis by (simp add: batch_view_def)
qed

lemma apply_status_view:
  assumes "queue_ok q" "distinct (map commandId cs)" "\<And>r. commandId (additional r) = commandId r"
  shows "batch_view (map (status_update now st additional) cs) q (apply_status now cs st additional q)"
proof -
  let ?q = "with_commands (\<lambda>s. snd (cs_batchUpdate now (map (status_update now st additional) cs) s)) q"
  have ids: "map fst (map (status_update now st additional) cs) = map commandId cs"
    by (simp add: status_update_def comp_def)
  have "batch_view (map (status_update now st additional) cs) q ?q"
  proof (rule batch_update_view)
    show "distinct (map fst (map (status_update now st additional) cs))" unfolding ids by fact
    show "commandId (u c) = commandId c" if "(i, u) \<in> set (map (status_update now st additional) cs)" for i u c
      using that by (clarsimp simp: status_update_def assms(3))
  qed (rule assms(1))
  moreover have st: "core (apply_status now cs st additional q) = core ?q"
    by (simp add: apply_status_def Let_def)
  ultimately show ?thesis unfolding batch_view_def view_cong [OF st] by blast
qed

lemma map_of_status [simp]:
  "map_of (map (status_update now st additional) cs) j =
    (if j \<in> commandId ` set cs then Some (\<lambda>r. additional (r\<lparr>cmd_status := st, cmd_updatedAt := now\<rparr>)) else None)"
  by (induction cs) (auto simp: status_update_def)

section \<open>Evolution\<close>

text \<open>
  The changes that one or more steps of the state machine can make: a command that has not ended may end up in
  any other status but blocked, which no step leads to, and of the finished ones only a succeeded command goes
  on, to applied.  (A look-up may bring finished commands into memory, and a retry is no such step.)
\<close>

definition status_ok :: "commandStatus \<Rightarrow> commandStatus \<Rightarrow> bool" where
  "status_ok old new \<longleftrightarrow> new = old \<or> (\<not> isTerminalStatus old \<and> new \<noteq> Blocked) \<or> (old = Succeeded \<and> new = Applied)"

definition change_ok :: "command \<Rightarrow> command \<Rightarrow> bool" where
  "change_ok c c' \<longleftrightarrow> commandId c' = commandId c \<and> cmd_seq c' = cmd_seq c \<and> dependsOn c' = dependsOn c \<and>
    cmd_type c' = cmd_type c \<and> set (blockedBy c') \<subseteq> set (blockedBy c) \<and>
    status_ok (cmd_status c) (cmd_status c')"

text \<open>
  Commands may also come into memory: finished ones that a look-up caches.
\<close>

definition evolves :: "commandQueue \<Rightarrow> commandQueue \<Rightarrow> bool" where
  "evolves q q' \<longleftrightarrow> queue_ok q' \<and>
    (\<forall>i c. mem q i = Some c \<longrightarrow> (\<exists>c'. mem q' i = Some c' \<and> change_ok c c')) \<and>
    (\<forall>i c'. mem q i = None \<longrightarrow> mem q' i = Some c' \<longrightarrow> isTerminalStatus (cmd_status c')) \<and>
    (\<forall>i. active q i = None \<longrightarrow> active q' i = None)"

lemma status_ok_refl [simp]: "status_ok s s"
  by (simp add: status_ok_def)

lemma status_ok_terminal: "status_ok old new \<Longrightarrow> isTerminalStatus old \<Longrightarrow> isTerminalStatus new"
  by (auto simp: status_ok_def)

lemma status_ok_trans: "status_ok a b \<Longrightarrow> status_ok b c \<Longrightarrow> status_ok a c"
  by (auto simp: status_ok_def)

lemma change_ok_refl [simp]: "change_ok c c"
  by (simp add: change_ok_def)

lemma change_ok_trans: "change_ok a b \<Longrightarrow> change_ok b c \<Longrightarrow> change_ok a c"
  by (auto simp: change_ok_def intro: status_ok_trans)

lemma evolvesD:
  assumes "evolves q q'"
  shows "queue_ok q'" "mem q i = Some c \<Longrightarrow> \<exists>c'. mem q' i = Some c' \<and> change_ok c c'"
    "mem q i = None \<Longrightarrow> mem q' i = Some c' \<Longrightarrow> isTerminalStatus (cmd_status c')"
    "active q i = None \<Longrightarrow> active q' i = None"
  using assms unfolding evolves_def by blast+

lemma evolves_refl: "queue_ok q \<Longrightarrow> evolves q q"
  by (simp add: evolves_def)

lemma evolves_trans [trans]:
  assumes a: "evolves q q1" and b: "evolves q1 q2"
  shows "evolves q q2"
  unfolding evolves_def
proof (intro conjI allI impI)
  show "queue_ok q2" by (rule evolvesD(1) [OF b])
  show "\<exists>c'. mem q2 i = Some c' \<and> change_ok c c'" if "mem q i = Some c" for i c
    using evolvesD(2) [OF a that] evolvesD(2) [OF b] change_ok_trans by meson
  show "isTerminalStatus (cmd_status c')" if "mem q i = None" "mem q2 i = Some c'" for i c'
  proof (cases "mem q1 i")
    case None
    then show ?thesis using evolvesD(3) [OF b] that(2) by blast
  next
    case (Some c)
    from evolvesD(3) [OF a that(1) this] have "isTerminalStatus (cmd_status c)" .
    moreover have "change_ok c c'" using evolvesD(2) [OF b Some] that(2) by auto
    ultimately show ?thesis by (auto simp: change_ok_def intro: status_ok_terminal)
  qed
  show "active q2 i = None" if "active q i = None" for i
    using evolvesD(4) [OF b evolvesD(4) [OF a that]] .
qed

lemma evolves_frame: "queue_ok q \<Longrightarrow> core q' = core q \<Longrightarrow> evolves q q'"
  using view_cong [of q' q] by (simp add: evolves_def)

lemma evolves_then_frame: "evolves q q1 \<Longrightarrow> core q2 = core q1 \<Longrightarrow> evolves q q2"
  by (blast intro: evolves_trans evolves_frame evolvesD(1))

lemma evolves_update:
  assumes "queue_ok q" "\<And>c. commandId (u c) = commandId c" "\<And>c. mem q i = Some c \<Longrightarrow> change_ok c (u c)"
  shows "evolves q (q_update now i u q)"
  using q_update_view [OF assms(1,2), of i now] assms(3)
  unfolding evolves_def updated_view_def by (auto split: if_splits)

lemma evolves_batch:
  assumes "batch_view us q q'" "\<And>i u c. map_of us i = Some u \<Longrightarrow> mem q i = Some c \<Longrightarrow> change_ok c (u c)"
  shows "evolves q q'"
  using assms unfolding evolves_def batch_view_def by (auto split: option.splits)

lemma evolves_active:
  assumes "evolves q q'" "active q' i = Some c'"
  shows "\<exists>c. active q i = Some c \<and> change_ok c c'"
proof -
  from assms obtain c where c: "active q i = Some c" by (cases "active q i") (auto dest: evolvesD(4))
  with evolvesD(2) [OF assms(1) active_mem [OF c]] active_mem [OF assms(2)] show ?thesis by auto
qed

text \<open>An update of a command's own record that leaves identity, dependencies and status alone.\<close>

lemma evolves_body: "queue_ok q \<Longrightarrow> evolves q (q_update now i (set_body f) q)"
  by (rule evolves_update) (simp_all add: set_body_def change_ok_def)

lemma evolves_unblock:
  assumes "queue_ok q" "\<And>c. mem q i = Some c \<Longrightarrow> set ids \<subseteq> set (blockedBy c)"
  shows "evolves q (q_update now i (set_blockedBy ids) q)"
  by (rule evolves_update) (use assms in \<open>simp_all add: set_blockedBy_def change_ok_def\<close>)

lemma evolves_status:
  assumes "queue_ok q" "distinct (map commandId cs)" "\<And>r. commandId (additional r) = commandId r"
    and "\<And>c r. c \<in> set cs \<Longrightarrow> mem q (commandId c) = Some r \<Longrightarrow>
      change_ok r (additional (r\<lparr>cmd_status := st, cmd_updatedAt := now\<rparr>))"
  shows "evolves q (apply_status now cs st additional q)"
  by (rule evolves_batch [OF apply_status_view [OF assms(1-3)]]) (auto split: if_splits intro: assms(4))

section \<open>Look-ups\<close>

text \<open>A look-up may cache a finished command.\<close>

definition load_view :: "string \<Rightarrow> command \<Rightarrow> commandQueue \<Rightarrow> commandQueue \<Rightarrow> bool" where
  "load_view i c q q' \<longleftrightarrow> queue_ok q' \<and> mem q' = (mem q)(i \<mapsto> c) \<and> active q' = active q"

lemma load_view:
  assumes ok: "queue_ok q" and none: "active q i = None" and i: "commandId c = i"
    and store: "q_commandStore q' = (q_commandStore q)\<lparr>cs_ttlCache :=
      map_set i \<lparr>ttl_command = c, ttl_expiresAt = t\<rparr> (cs_ttlCache (q_commandStore q)), cs_storage := u\<rparr>"
    and sto: "commands (q_storage q') = commands (q_storage q)"
  shows "load_view i c q q'"
proof -
  have "active q' = active q" by (simp add: active_def store fun_eq_iff)
  moreover have "mem q' = (mem q)(i \<mapsto> c)"
    using none by (auto simp: active_def mem_def memory_get_def store fun_eq_iff split: option.split)
  moreover have "queue_ok q'"
    using ok none unfolding queue_ok_def store sto cs_inv_def active_def by (auto simp: i intro: wf_intros)
  ultimately show ?thesis by (simp add: load_view_def)
qed

lemma q_get_cases:
  assumes ok: "queue_ok q"
  obtains (Active) c where "q_get now i q = (Some c, set_commands (commands_of q) q)" "mem q i = Some c"
  | (Cached) c where "fst (q_get now i q) = Some c" "mem q i = Some c" "load_view i c q (snd (q_get now i q))"
  | (Loaded) c where "fst (q_get now i q) = Some c" "mem q i = None" "isTerminalStatus (cmd_status c)" "commandId c = i"
      "load_view i c q (snd (q_get now i q))"
  | (Unloaded) c where "q_get now i q = (Some c, set_commands (commands_of q) q)" "mem q i = None" "commandId c = i"
      "\<not> isTerminalStatus (cmd_status c)"
  | (Absent) "q_get now i q = (None, set_commands (commands_of q) q)" "mem q i = None"
proof (cases "active q i")
  case (Some c)
  then show ?thesis
    by (intro Active [of c]) (simp_all add: q_get_def cs_get_def commands_of_def active_def mem_def memory_get_def)
next
  case None
  note no = None
  then have act: "map_get (cs_active (commands_of q)) i = None" by (simp add: active_def commands_of_def)
  let ?ttl = "map_get (cs_ttlCache (q_commandStore q)) i"
  show ?thesis
  proof (cases ?ttl)
    case (Some e)
    then have m: "mem q i = Some (ttl_command e)" using no by (simp add: active_def mem_def memory_get_def)
    have get: "q_get now i q = (Some (ttl_command e), set_commands (refresh_ttl now i e (commands_of q)) q)"
      using act Some by (simp add: q_get_def cs_get_def) (simp add: commands_of_def)
    show ?thesis
    proof (rule Cached [of "ttl_command e"])
      show "load_view i (ttl_command e) q (snd (q_get now i q))"
        by (rule load_view [OF ok no queue_okD(1) [OF ok m], where u = "q_storage q" and t = "now + cs_terminalTtlMs (q_commandStore q)"])
          (cases e, simp_all add: get refresh_ttl_def commands_of_def)
    qed (simp_all add: get m)
  next
    case none: None
    then have m: "mem q i = None" using no by (simp add: active_def mem_def memory_get_def)
    show ?thesis
    proof (cases "getCommand (q_storage q) i")
      case None
      then show ?thesis using act none m
        by (intro Absent) (simp_all add: q_get_def cs_get_def, simp_all add: commands_of_def)
    next
      case (Some c)
      then have i: "commandId c = i" using ok by (auto simp: queue_ok_def getCommand_def keyed_by_iff)
      have get: "q_get now i q = (Some c, set_commands
          (if isTerminalStatus (cmd_status c) then addToTtlCache now c (commands_of q) else commands_of q) q)"
        using act none Some by (simp add: q_get_def cs_get_def) (simp add: commands_of_def)
      show ?thesis
      proof (cases "isTerminalStatus (cmd_status c)")
        case True
        show ?thesis
        proof (rule Loaded [of c])
          show "load_view i c q (snd (q_get now i q))"
            by (rule load_view [OF ok no i, where u = "q_storage q" and t = "now + cs_terminalTtlMs (q_commandStore q)"])
              (simp_all add: get True addToTtlCache_def commands_of_def i)
        qed (simp_all add: get m True i)
      next
        case False
        then show ?thesis using get m i by (intro Unloaded [of c]) simp_all
      qed
    qed
  qed
qed

lemma same_commands: "mem (set_commands (commands_of q) q) = mem q" "active (set_commands (commands_of q) q) = active q"
  "queue_ok (set_commands (commands_of q) q) = queue_ok q"
  by (rule same_maps; simp add: commands_of_def)+

lemma evolves_same: "queue_ok q \<Longrightarrow> evolves q (set_commands (commands_of q) q)"
  by (simp add: evolves_def same_commands)

lemma evolves_get:
  assumes ok: "queue_ok q"
  shows "evolves q (snd (q_get now i q))"
    and "active (snd (q_get now i q)) = active q"
    and "mem (snd (q_get now i q)) j = (if j = i \<and> mem q i = None then mem (snd (q_get now i q)) i else mem q j)"
    and "fst (q_get now i q) = Some c \<Longrightarrow> commandId c = i"
    and "mem q i = Some c \<Longrightarrow> fst (q_get now i q) = Some c"
proof -
  have loaded: "evolves q q'" if "load_view i c q q'" "mem q i = Some c \<or> mem q i = None \<and> isTerminalStatus (cmd_status c)" for c q'
    using that by (auto simp: load_view_def evolves_def)
  show "evolves q (snd (q_get now i q))"
    by (rule q_get_cases [OF ok, of now i]) (simp_all add: loaded evolves_same ok)
  show "active (snd (q_get now i q)) = active q"
    by (rule q_get_cases [OF ok, of now i]) (simp_all add: load_view_def same_commands)
  show "mem (snd (q_get now i q)) j = (if j = i \<and> mem q i = None then mem (snd (q_get now i q)) i else mem q j)"
    by (rule q_get_cases [OF ok, of now i]) (auto simp: load_view_def same_commands)
  show "fst (q_get now i q) = Some c \<Longrightarrow> commandId c = i"
    by (rule q_get_cases [OF ok, of now i]) (auto dest: queue_okD(1) [OF ok])
  show "mem q i = Some c \<Longrightarrow> fst (q_get now i q) = Some c"
    by (rule q_get_cases [OF ok, of now i]) auto
qed

end
