(* ===== verification/Cascade.thy ===== *)
theory Cascade
  imports QueueMemory
begin

text \<open>
  What a failure or a cancellation does to the commands that wait: the recursion ends within its bound, the
  commands that depend on the finished one by an entity reference or explicitly are cancelled, and no
  command in play still waits for it.
\<close>

section \<open>Running a list of steps\<close>

lemma run_all_inv:
  assumes step: "\<And>x s. x \<in> set xs \<Longrightarrow> P s \<Longrightarrow> P (snd (g x s)) \<and> Q (fst (g x s))"
    and "P s" "Q None"
  shows "P (snd (run_all g xs s)) \<and> Q (fst (run_all g xs s))"
  using assms
proof (induction xs arbitrary: s)
  case (Cons x xs)
  obtain e s' where g: "g x s = (e, s')" by (cases "g x s")
  have s': "P s'" "Q e" using Cons.prems(1) [of x s] Cons.prems(2) g by auto
  have "P (snd (run_all g xs s')) \<and> Q (fst (run_all g xs s'))"
    by (rule Cons.IH) (use Cons.prems s' in auto)
  with s' show ?case by (cases e) (simp_all add: g and_then_def)
qed simp

lemma map_results_fst:
  assumes "map_results (with_events q) bs = Inr ds"
  shows "map fst ds = bs"
proof -
  have one: "with_events q b = Inr d \<Longrightarrow> fst d = b" for b d by (auto simp: with_events_def split: sum.splits)
  have "map fst zs = map fst ys @ bs"
    if "fold_result (\<lambda>b ys. map_result (\<lambda>d. ys @ [d]) (with_events q b)) bs ys = Inr zs" for ys zs
    using that
  proof (induction bs arbitrary: ys)
    case (Cons b bs)
    then show ?case by (cases "with_events q b") (auto dest: one)
  qed simp
  from this [of "[]" ds] assms show ?thesis by (simp add: map_results_def)
qed

section \<open>The commands in play\<close>

definition playing :: "commandQueue \<Rightarrow> string set" where
  "playing q = {i. \<exists>c. active q i = Some c \<and> \<not> isTerminalStatus (cmd_status c)}"

definition waits_for :: "commandQueue \<Rightarrow> string \<Rightarrow> string \<Rightarrow> bool" where
  "waits_for q i p \<longleftrightarrow> (\<exists>c. active q i = Some c \<and> \<not> isTerminalStatus (cmd_status c) \<and> p \<in> set (blockedBy c))"

definition has_status :: "commandQueue \<Rightarrow> string \<Rightarrow> commandStatus \<Rightarrow> bool" where
  "has_status q i st \<longleftrightarrow> (\<exists>c. mem q i = Some c \<and> cmd_status c = st)"

lemma playing_keys: "playing q \<subseteq> set (map_keys (cs_active (q_commandStore q)))"
  by (auto simp: playing_def active_def dest!: map_of_SomeD intro: rev_image_eqI)

lemma finite_playing [simp]: "finite (playing q)"
  by (rule finite_subset [OF playing_keys]) simp

lemma card_playing: "card (playing q) \<le> length (cs_active (q_commandStore q))"
  using card_mono [OF _ playing_keys [of q]] card_length [of "map_keys (cs_active (q_commandStore q))"]
  by simp

lemma playing_mono: "evolves q q' \<Longrightarrow> playing q' \<subseteq> playing q"
  by (auto simp: playing_def change_ok_def dest!: evolves_active intro: status_ok_terminal)

lemma set_error_fields [simp]:
  "commandId (set_error e r) = commandId r" "cmd_status (set_error e r) = cmd_status r"
  "blockedBy (set_error e r) = blockedBy r" "attempts (set_error e r) = attempts r"
  by (simp_all add: set_error_def set_body_def)

lemma cancelled_not_active: "queue_ok q \<Longrightarrow> has_status q i Cancelled \<Longrightarrow> active q i = None"
  using queue_okD(2) [of q i] by (auto simp: has_status_def dest: active_mem) (metis active_mem isInMemoryStatus.simps(7) not_Some_eq option.inject)

lemma cancelled_stays: "evolves q q' \<Longrightarrow> has_status q i Cancelled \<Longrightarrow> has_status q' i Cancelled"
  by (auto simp: has_status_def change_ok_def status_ok_def dest!: evolvesD(2))

lemma waits_evolves: "evolves q q' \<Longrightarrow> waits_for q' i p \<Longrightarrow> waits_for q i p"
  unfolding waits_for_def change_ok_def
  by (auto simp: change_ok_def dest!: evolves_active intro: status_ok_terminal)

lemma active_keyed:
  assumes "queue_ok q"
  shows "keyed_by commandId (cs_active (q_commandStore q))"
  using cs_invD(1) [OF conjunct1 [OF assms [unfolded queue_ok_def]]] by simp

lemma active_dependents_iff:
  assumes "queue_ok q"
  shows "b \<in> set (active_dependents p q) \<longleftrightarrow>
    active q (commandId b) = Some b \<and> \<not> isTerminalStatus (cmd_status b) \<and> p \<in> set (blockedBy b)"
proof -
  have "b \<in> set (map_values (cs_active (q_commandStore q))) \<longleftrightarrow> active q (commandId b) = Some b"
    using active_keyed [OF assms] unfolding active_def keyed_by_def map_wf_def
    by (auto simp: map_of_eq_Some_iff intro: rev_image_eqI)
  then show ?thesis by (auto simp: active_dependents_def cs_getBlockedBy_def commands_of_def)
qed

lemma active_dependents_distinct:
  assumes "queue_ok q"
  shows "distinct (map commandId (active_dependents p q))"
proof -
  have "map commandId (map_values m) = map_keys m" if "keyed_by commandId m" for m
    using that unfolding keyed_by_def by (induction m) (auto simp: map_wf_def)
  from this [OF active_keyed [OF assms]] have "distinct (map commandId (map_values (cs_active (q_commandStore q))))"
    using queue_okD(4) [OF assms] by (simp only:)
  then show ?thesis
    by (simp add: active_dependents_def cs_getBlockedBy_def commands_of_def distinct_map_filter)
qed

section \<open>Soft dependents\<close>

lemma updateStatus_run:
  "st \<noteq> Applied \<Longrightarrow> updateCommandStatus now c st additional q = (None, apply_status now [c] st additional q)"
  by (simp add: updateCommandStatus_def batchUpdateCommandStatus_def)

text \<open>The parent's id is gone from the list of \<open>i\<close>.\<close>

definition clean_of :: "string \<Rightarrow> commandQueue \<Rightarrow> string \<Rightarrow> bool" where
  "clean_of p q i \<longleftrightarrow> (\<forall>c. mem q i = Some c \<longrightarrow> p \<notin> set (blockedBy c))"

text \<open>The update of a waiting command's list, and of its status when the list is empty and it was blocked.\<close>

definition list_update_step :: "int \<Rightarrow> command \<Rightarrow> string list \<Rightarrow> commandQueue \<Rightarrow> commandQueue" where
  "list_update_step now c ids q =
    (if ids = [] \<and> cmd_status (live_cmd q c) = Blocked then apply_status now [c] Pending (set_blockedBy ids) q
     else q_update now (commandId c) (set_blockedBy ids) q)"

definition relist :: "int \<Rightarrow> string list \<Rightarrow> command \<Rightarrow> command" where
  "relist now ids r = set_blockedBy ids
     (if ids = [] \<and> cmd_status r = Blocked then r\<lparr>cmd_status := Pending, cmd_updatedAt := now\<rparr> else r)"

lemma relist_fields [simp]:
  "commandId (relist now ids r) = commandId r" "cmd_seq (relist now ids r) = cmd_seq r"
  "cmd_type (relist now ids r) = cmd_type r" "dependsOn (relist now ids r) = dependsOn r"
  "blockedBy (relist now ids r) = ids"
  "cmd_status (relist now ids r) = (if ids = [] \<and> cmd_status r = Blocked then Pending else cmd_status r)"
  by (simp_all add: relist_def set_blockedBy_def)

lemma list_update_mem:
  fixes now c ids q
  assumes ok: "queue_ok q"
  defines "q' \<equiv> list_update_step now c ids q"
  shows "queue_ok q'"
    and "mem q' j = (if j = commandId c then map_option (relist now ids) (mem q j) else mem q j)"
    and "active q j = None \<Longrightarrow> active q' j = None"
proof -
  have id: "commandId (set_blockedBy ids r) = commandId r" for r by (simp add: set_blockedBy_def)
  have a: "batch_view [status_update now Pending (set_blockedBy ids) c] q (apply_status now [c] Pending (set_blockedBy ids) q)"
    using apply_status_view [OF ok, of "[c]" "set_blockedBy ids" now Pending] id by simp
  have b: "updated_view (commandId c) (set_blockedBy ids) q (q_update now (commandId c) (set_blockedBy ids) q)"
    by (rule q_update_view [OF ok id])
  show "queue_ok q'" using a b
    by (cases "ids = []") (simp_all add: q'_def list_update_step_def batch_view_def updated_view_def)
  show "active q j = None \<Longrightarrow> active q' j = None"
    using a b
    by (cases "ids = []") (auto simp: q'_def list_update_step_def batch_view_def updated_view_def split: option.splits)
  show "mem q' j = (if j = commandId c then map_option (relist now ids) (mem q j) else mem q j)"
  proof (cases "ids = [] \<and> cmd_status (live_cmd q c) = Blocked")
    case True
    then have "q' = apply_status now [c] Pending (set_blockedBy ids) q" by (simp add: q'_def list_update_step_def)
    with a True show ?thesis
      by (cases "mem q (commandId c)") (auto simp: batch_view_def status_update_def live_mem relist_def)
  next
    case False
    then have "q' = q_update now (commandId c) (set_blockedBy ids) q" by (auto simp: q'_def list_update_step_def)
    with b False show ?thesis
      by (cases "mem q (commandId c)") (auto simp: updated_view_def live_mem relist_def)
  qed
qed

lemma list_update_evolves:
  assumes e: "evolves q0 q" and sub: "\<And>c0. mem q0 (commandId c) = Some c0 \<Longrightarrow> set ids \<subseteq> set (blockedBy c0)"
  shows "evolves q0 (list_update_step now c ids q)"
  unfolding evolves_def
proof (intro conjI allI impI)
  note ok = evolvesD(1) [OF e]
  show "queue_ok (list_update_step now c ids q)" by (rule list_update_mem(1) [OF ok])
  show "active (list_update_step now c ids q) i = None" if "active q0 i = None" for i
    by (rule list_update_mem(3) [OF ok evolvesD(4) [OF e that]])
  show "\<exists>c'. mem (list_update_step now c ids q) i = Some c' \<and> change_ok c0 c'" if i: "mem q0 i = Some c0" for i c0
  proof -
    obtain c1 where c1: "mem q i = Some c1" "change_ok c0 c1" using evolvesD(2) [OF e i] by blast
    show ?thesis
      using c1 sub [of c0] i
      by (cases "i = commandId c") (auto simp: list_update_mem(2) [OF ok] change_ok_def status_ok_def)
  qed
  show "isTerminalStatus (cmd_status c')" if "mem q0 i = None" "mem (list_update_step now c ids q) i = Some c'" for i c'
    using that(2) evolvesD(3) [OF e that(1)]
    by (cases "mem q i") (auto simp: list_update_mem(2) [OF ok] split: if_splits)
qed

lemma unblock_soft_step:
  "unblock_soft now (c, ids) (b, q) =
    (None, ((if ids = [] \<and> cmd_status (live_cmd q c) = Blocked then True else b), list_update_step now c ids q))"
  by (simp add: unblock_soft_def list_update_step_def updateStatus_run)

lemma unblock_softs_run:
  "run_all (unblock_soft now) soft (b, q) =
    (None, (fst (snd (run_all (unblock_soft now) soft (b, q))), fold (\<lambda>(c, ids). list_update_step now c ids) soft q))"
  by (induction soft arbitrary: b q) (auto simp: unblock_soft_step and_then_def)

definition soft_updates :: "int \<Rightarrow> (command \<times> string list) list \<Rightarrow> commandQueue \<Rightarrow> commandQueue" where
  "soft_updates now soft q = fold (\<lambda>(c, ids). list_update_step now c ids) soft q"

lemma soft_updates_simps [simp]:
  "soft_updates now [] q = q"
  "soft_updates now ((c, ids) # soft) q = soft_updates now soft (list_update_step now c ids q)"
  by (simp_all add: soft_updates_def)

lemma unblock_softs_core:
  "fst (unblock_softs now soft q) = None" "core (snd (unblock_softs now soft q)) = core (soft_updates now soft q)"
proof -
  obtain b where run: "run_all (unblock_soft now) soft (False, q) = (None, (b, soft_updates now soft q))"
    using unblock_softs_run [of now soft False q] unfolding soft_updates_def by blast
  show "fst (unblock_softs now soft q) = None" "core (snd (unblock_softs now soft q)) = core (soft_updates now soft q)"
    by (simp_all add: unblock_softs_def run)
qed

lemma soft_updates_spec:
  assumes "evolves q0 q" "\<And>c ids c0. (c, ids) \<in> set soft \<Longrightarrow> mem q0 (commandId c) = Some c0 \<Longrightarrow> set ids \<subseteq> set (blockedBy c0)"
  shows "evolves q0 (soft_updates now soft q)"
  using assms
proof (induction soft arbitrary: q)
  case (Cons cn soft)
  obtain c ids where cn: "cn = (c, ids)" by (cases cn)
  have "evolves q0 (list_update_step now c ids q)" using Cons.prems cn by (intro list_update_evolves) auto
  then have "evolves q0 (soft_updates now soft (list_update_step now c ids q))"
  proof (rule Cons.IH)
    show "set ids' \<subseteq> set (blockedBy c0)" if "(c', ids') \<in> set soft" "mem q0 (commandId c') = Some c0" for c' ids' c0
      using Cons.prems(2) [of c' ids' c0] that by simp
  qed
  then show ?case by (simp add: cn)
qed simp

lemma soft_updates_cancelled:
  "queue_ok q \<Longrightarrow> has_status q i Cancelled \<Longrightarrow> has_status (soft_updates now soft q) i Cancelled"
proof (induction soft arbitrary: q)
  case (Cons cn soft)
  obtain c ids where cn: "cn = (c, ids)" by (cases cn)
  have "has_status (list_update_step now c ids q) i Cancelled"
    using Cons.prems by (auto simp: has_status_def list_update_mem(2))
  then show ?case using Cons.IH Cons.prems cn list_update_mem(1) by simp
qed simp

lemma soft_updates_clean:
  assumes "queue_ok q" "\<And>c ids. (c, ids) \<in> set soft \<Longrightarrow> p \<notin> set ids" "clean_of p q i \<or> i \<in> (commandId \<circ> fst) ` set soft"
  shows "clean_of p (soft_updates now soft q) i"
  using assms
proof (induction soft arbitrary: q)
  case (Cons cn soft)
  obtain c ids where cn: "cn = (c, ids)" by (cases cn)
  have "clean_of p (list_update_step now c ids q) i" if "clean_of p q i \<or> i = commandId c"
    using that Cons.prems(1) Cons.prems(2) [of c ids] cn
    by (cases "i = commandId c") (auto simp: clean_of_def list_update_mem(2))
  then have "clean_of p (list_update_step now c ids q) i \<or> i \<in> (commandId \<circ> fst) ` set soft"
    using Cons.prems(3) cn by auto
  with list_update_mem(1) [OF Cons.prems(1)] have "clean_of p (soft_updates now soft (list_update_step now c ids q)) i"
  proof (intro Cons.IH)
    show "p \<notin> set ids'" if "(c', ids') \<in> set soft" for c' ids' using Cons.prems(2) [of c' ids'] that by simp
  qed auto
  then show ?case by (simp add: cn)
qed simp

section \<open>The recursion\<close>

lemma with_events_error: "map_results (with_events q) bs = Inl e \<Longrightarrow> e \<noteq> OutOfFuel"
proof -
  have one: "with_events q b = Inl e \<Longrightarrow> e \<noteq> OutOfFuel" for b e by (auto simp: with_events_def split: sum.splits)
  have "fold_result (\<lambda>b ys. map_result (\<lambda>d. ys @ [d]) (with_events q b)) bs ys = Inl e \<Longrightarrow> e \<noteq> OutOfFuel" for ys
  proof (induction bs arbitrary: ys)
    case (Cons b bs)
    then show ?case by (cases "with_events q b") (auto dest: one)
  qed simp
  then show "map_results (with_events q) bs = Inl e \<Longrightarrow> e \<noteq> OutOfFuel" by (simp add: map_results_def)
qed

text \<open>Cancelling commands in play.\<close>

lemma cancel_batch:
  fixes now e q cs
  assumes ok: "queue_ok q" and cs: "distinct (map commandId cs)"
    and live: "\<And>c. c \<in> set cs \<Longrightarrow> active q (commandId c) = Some c \<and> \<not> isTerminalStatus (cmd_status c)"
  defines "q' \<equiv> apply_status now cs Cancelled (set_error e) q"
  shows "evolves q q'" and "c \<in> set cs \<Longrightarrow> has_status q' (commandId c) Cancelled"
    and "cs \<noteq> [] \<Longrightarrow> card (playing q') < card (playing q)"
proof -
  have id: "commandId (set_error e r) = commandId r" for r by simp
  show ev: "evolves q q'"
    unfolding q'_def
  proof (rule evolves_status [OF ok cs id])
    fix c r assume "c \<in> set cs" "mem q (commandId c) = Some r"
    then have "r = c" "\<not> isTerminalStatus (cmd_status c)" using live active_mem by force+
    then show "change_ok r (set_error e (r\<lparr>cmd_status := Cancelled, cmd_updatedAt := now\<rparr>))"
      by (simp add: change_ok_def set_error_def set_body_def status_ok_def)
  qed
  show done': "has_status q' (commandId c) Cancelled" if "c \<in> set cs" for c
    using apply_status_view [OF ok cs id, of now Cancelled] active_mem [OF conjunct1 [OF live [OF that]]] that
    by (auto simp: batch_view_def has_status_def q'_def)
  show "card (playing q') < card (playing q)" if "cs \<noteq> []"
  proof (rule psubset_card_mono)
    from that obtain c where c: "c \<in> set cs" by (cases cs) auto
    have "active q' (commandId c) = None"
      by (rule cancelled_not_active [OF evolvesD(1) [OF ev] done' [OF c]])
    then have "commandId c \<in> playing q - playing q'" using live [OF c] by (auto simp: playing_def)
    then show "playing q' \<subset> playing q" using playing_mono [OF ev] by auto
  qed simp
qed

definition cascade_post :: "command \<Rightarrow> commandQueue \<Rightarrow> queueError option \<Rightarrow> commandQueue \<Rightarrow> bool" where
  "cascade_post parent q err q' \<longleftrightarrow> evolves q q' \<and> err \<noteq> Some OutOfFuel \<and>
    (err = None \<longrightarrow> (\<forall>i. \<not> waits_for q' i (commandId parent)) \<and>
      (\<forall>i c. waits_for q i (commandId parent) \<and> active q i = Some c \<and> edge_source parent c \<noteq> AggregateChainSource \<longrightarrow>
        has_status q' i Cancelled))"

lemma waits_dependent:
  assumes "queue_ok q" "waits_for q i p"
  shows "\<exists>c. active q i = Some c \<and> commandId c = i \<and> c \<in> set (active_dependents p q)"
  using assms by (auto simp: waits_for_def active_dependents_iff dest: active_mem queue_okD(1))

lemma cascade_level:
  assumes ok: "queue_ok q"
    and ds: "map fst ds = active_dependents (commandId parent) q"
    and hard: "hard = filter (\<lambda>be. edge_strength env parent pe be = Hard) ds"
    and soft: "soft = map (\<lambda>be. (fst be, filter (\<lambda>i. i \<noteq> commandId parent) (blockedBy (fst be))))
      (filter (\<lambda>be. edge_strength env parent pe be \<noteq> Hard) ds)"
    and ev: "evolves q q3" and fin: "\<And>be. be \<in> set hard \<Longrightarrow> has_status q3 (commandId (fst be)) Cancelled"
  shows "cascade_post parent q None (snd (unblock_softs now soft q3))"
proof -
  let ?p = "commandId parent"
  let ?q = "soft_updates now soft q3"
  have dep: "active q (commandId (fst be)) = Some (fst be)" if "be \<in> set ds" for be
    using that ds active_dependents_iff [OF ok, of "fst be" ?p] by (metis in_set_conv_nth length_map nth_map nth_mem)
  have ev': "evolves q ?q"
  proof (rule soft_updates_spec [OF ev])
    show "set ids \<subseteq> set (blockedBy c0)" if "(c, ids) \<in> set soft" "mem q (commandId c) = Some c0" for c ids c0
      using that dep active_mem by (fastforce simp: soft)
  qed
  have cancelled: "has_status ?q (commandId (fst be)) Cancelled" if "be \<in> set hard" for be
    by (rule soft_updates_cancelled [OF evolvesD(1) [OF ev] fin [OF that]])
  have none: "\<not> waits_for ?q i ?p" for i
  proof
    assume w: "waits_for ?q i ?p"
    then obtain c where c: "active q i = Some c" "commandId c = i" "c \<in> set (active_dependents ?p q)"
      using waits_dependent [OF ok waits_evolves [OF ev']] by blast
    then obtain be where be: "be \<in> set ds" "fst be = c" unfolding ds [symmetric] by auto
    show False
    proof (cases "be \<in> set hard")
      case True
      from cancelled_not_active [OF evolvesD(1) [OF ev'] cancelled [OF True]] w be c show False
        by (simp add: waits_for_def)
    next
      case False
      then have "(c, filter (\<lambda>i. i \<noteq> ?p) (blockedBy c)) \<in> set soft" using be by (force simp: hard soft)
      then have "clean_of ?p ?q i"
        using c by (intro soft_updates_clean [OF evolvesD(1) [OF ev]]) (auto simp: soft intro: rev_image_eqI)
      with w show False by (auto simp: clean_of_def waits_for_def dest: active_mem)
    qed
  qed
  have "has_status ?q i Cancelled"
    if "waits_for q i ?p" "active q i = Some c" "edge_source parent c \<noteq> AggregateChainSource" for i c
  proof -
    from waits_dependent [OF ok that(1)] that(2) have c: "commandId c = i" "c \<in> set (active_dependents ?p q)" by auto
    then obtain be where be: "be \<in> set ds" "fst be = c" unfolding ds [symmetric] by auto
    have "edge_strength env parent pe be = Hard"
      using that(3) be by (cases "edge_source parent c") (simp_all add: edge_strength_def classifyDependencyEdge_def)
    with be cancelled [of be] c show ?thesis by (simp add: hard)
  qed
  with ev' none have post: "cascade_post parent q None ?q" by (simp add: cascade_post_def)
  show ?thesis
    using post view_cong [OF unblock_softs_core(2) [of now soft q3]]
    by (simp add: cascade_post_def evolves_def waits_for_def has_status_def)
qed

lemma cascade_main:
  assumes "queue_ok q" "card (playing q) < n" "cascade n env now parent pe q = (err, q')"
  shows "cascade_post parent q err q'"
  using assms
proof (induction n arbitrary: parent pe q err q')
  case (Suc n)
  note ok = Suc.prems(1)
  let ?p = "commandId parent"
  let ?act = "active_dependents ?p q"
  show ?case
  proof (cases "?act = []")
    case True
    then have "\<not> waits_for q i ?p" for i using waits_dependent [OF ok, of i ?p] by auto
    with True Suc.prems(3) evolves_refl [OF ok] show ?thesis by (auto simp: cascade_post_def)
  next
    case act: False
    show ?thesis
    proof (cases "map_results (with_events q) ?act")
      case (Inl e)
      with act Suc.prems(3) with_events_error [OF Inl] evolves_refl [OF ok] show ?thesis
        by (auto simp: cascade_post_def)
    next
      case (Inr ds)
      define hard where "hard = filter (\<lambda>be. edge_strength env parent pe be = Hard) ds"
      define soft where "soft = map (\<lambda>be. (fst be, filter (\<lambda>i. i \<noteq> ?p) (blockedBy (fst be))))
        (filter (\<lambda>be. edge_strength env parent pe be \<noteq> Hard) ds)"
      define q1 where "q1 = (if hard = [] then q
        else apply_status now (map fst hard) Cancelled (set_error (Some (dependency_failed parent))) q)"
      let ?q2 = "fold (announce_cancelled \<circ> fst) hard q1"
      obtain err1 q3 where run: "run_all (\<lambda>be q'. cascade n env now (live_cmd q' (fst be)) (snd be) q') hard ?q2 = (err1, q3)"
        by fastforce
      have q': "(err, q') = and_then (err1, q3) (unblock_softs now soft)"
        using Suc.prems(3) act Inr run
        by (simp add: hard_def soft_def q1_def batchUpdateCommandStatus_def and_then_def Let_def split: if_splits)
      have ds: "map fst ds = ?act" by (rule map_results_fst [OF Inr])
      have ids: "distinct (map commandId (map fst hard))"
        using active_dependents_distinct [OF ok, of ?p] unfolding ds [symmetric] hard_def
        by (simp add: distinct_map_filter)
      have live: "active q (commandId c) = Some c \<and> \<not> isTerminalStatus (cmd_status c)" if "c \<in> set (map fst hard)" for c
        using that active_dependents_iff [OF ok, of c ?p] unfolding ds [symmetric] hard_def by auto
      note cancel = cancel_batch [OF ok ids live, where now = now and e = "Some (dependency_failed parent)"]
      have q1: "evolves q q1" "be \<in> set hard \<Longrightarrow> has_status q1 (commandId (fst be)) Cancelled"
        "hard \<noteq> [] \<Longrightarrow> card (playing q1) < n" for be
        using cancel Suc.prems(2) evolves_refl [OF ok] by (auto simp: q1_def)
      have rest: "evolves ?q2 q3 \<and> err1 \<noteq> Some OutOfFuel"
      proof -
        have "evolves ?q2 (snd (run_all (\<lambda>be q'. cascade n env now (live_cmd q' (fst be)) (snd be) q') hard ?q2)) \<and>
          fst (run_all (\<lambda>be q'. cascade n env now (live_cmd q' (fst be)) (snd be) q') hard ?q2) \<noteq> Some OutOfFuel"
        proof (rule run_all_inv)
          show "evolves ?q2 ?q2" using evolvesD(1) [OF q1(1)] view_cong(3) [of ?q2 q1] by (intro evolves_refl) simp
          fix be s assume be: "be \<in> set hard" "evolves ?q2 s"
          have "evolves q1 s" using evolves_trans [OF evolves_frame be(2)] evolvesD(1) [OF q1(1)] by simp
          then have "card (playing s) < n"
            using card_mono [OF finite_playing playing_mono] q1(3) be(1) by (metis empty_iff empty_set le_less_trans)
          from Suc.IH [OF evolvesD(1) [OF be(2)] this, where parent = "live_cmd s (fst be)" and pe = "snd be"]
          show "evolves ?q2 (snd (cascade n env now (live_cmd s (fst be)) (snd be) s)) \<and>
              fst (cascade n env now (live_cmd s (fst be)) (snd be) s) \<noteq> Some OutOfFuel"
            using evolves_trans [OF be(2)] by (cases "cascade n env now (live_cmd s (fst be)) (snd be) s") (auto simp: cascade_post_def)
        qed simp
        then show ?thesis by (simp add: run)
      qed
      have ev: "evolves q q3"
        by (rule evolves_trans [OF evolves_then_frame [OF q1(1), of ?q2] conjunct1 [OF rest]]) simp
      show ?thesis
      proof (cases err1)
        case None
        have "cascade_post parent q None (snd (unblock_softs now soft q3))"
        proof (rule cascade_level [OF ok ds hard_def soft_def ev])
          fix be assume "be \<in> set hard"
          then have "has_status ?q2 (commandId (fst be)) Cancelled"
            using q1(2) view_cong(1) [of ?q2 q1] by (simp add: has_status_def)
          then show "has_status q3 (commandId (fst be)) Cancelled" using cancelled_stays rest by blast
        qed
        with q' None show ?thesis
          using unblock_softs_core(1) [of now soft q3] by (cases "unblock_softs now soft q3") (simp add: and_then_def)
      next
        case (Some e)
        with q' ev rest show ?thesis by (simp add: and_then_def cascade_post_def)
      qed
    qed
  qed
qed simp

theorem cascade_settles:
  assumes "queue_ok q" "cascadeFromTerminal env now parent pe q = (err, q')"
  shows "cascade_post parent q err q'"
  using cascade_main [OF assms(1) _ assms(2) [unfolded cascadeFromTerminal_def]] card_playing [of q] by simp

end
