(* ===== verification/CommandEffects.thy ===== *)
theory CommandEffects
  imports Cascade
begin

text \<open>
  The effects of a command's end on the queue: cancelling, failing and succeeding, each with what becomes of
  the commands that wait for it.
\<close>

section \<open>What belongs to the processing loop\<close>

definition loop_state where
  "loop_state q = (q_paused q, q_pass q, q_inflight q, q_retryTimers q, q_nextTimer q)"

lemma loop_frames [simp]:
  "loop_state (log_event e q) = loop_state q" "loop_state (emitCommandEvent t c p q) = loop_state q"
  "loop_state (clean_up now st c q) = loop_state q" "loop_state (detach_chains c q) = loop_state q"
  "loop_state (announce_status st cp q) = loop_state q" "loop_state (with_commands f q) = loop_state q"
  "loop_state (announce_cancelled c q) = loop_state q" "loop_state (processPendingCommands q) = loop_state q"
  by (simp_all add: loop_state_def log_event_def emitCommandEvent_def clean_up_def remove_files_def with_anticipation_def
    set_anticipation_def detach_chains_def announce_status_def with_commands_def set_commands_def
    announce_cancelled_def processPendingCommands_def split: prod.split)

lemma loop_folds [simp]:
  "loop_state (fold (clean_up now st) cs q) = loop_state q" "loop_state (fold detach_chains cs q) = loop_state q"
  "loop_state (fold (announce_status st) cps q) = loop_state q"
  proof -
  show "loop_state (fold (announce_status st) cps q) = loop_state q"
    by (induction cps arbitrary: q) simp_all
qed (induction cs arbitrary: q; simp)+

lemma loop_apply_status [simp]: "loop_state (apply_status now cs st additional q) = loop_state q"
  by (simp add: apply_status_def Let_def)

section \<open>Ending one command\<close>

lemma frame_active:
  assumes "core q' = core q"
  shows "waits_for q' i p = waits_for q i p" "has_status q' i st = has_status q i st"
  by (simp_all add: waits_for_def has_status_def view_cong [OF assms])

text \<open>A command in memory that is not terminal gets a new status.\<close>

lemma one_status:
  fixes now st additional q c
  assumes ok: "queue_ok q" and m: "mem q (commandId c) = Some c0" "\<not> isTerminalStatus (cmd_status c0)" "st \<noteq> Blocked"
    and keep: "\<And>r. change_ok r (additional r) \<and> cmd_status (additional r) = cmd_status r"
  defines "q' \<equiv> apply_status now [c] st additional q"
  shows "evolves q q'" "has_status q' (commandId c) st"
    and "i \<noteq> commandId c \<Longrightarrow> mem q' i = mem q i \<and> active q' i = active q i"
    and "commandId (live_cmd q' c) = commandId c"
    and "isTerminalStatus st \<Longrightarrow> waits_for q' i p \<longleftrightarrow> i \<noteq> commandId c \<and> waits_for q i p"
proof -
  have id: "commandId (additional r) = commandId r" for r using keep [of r] by (simp add: change_ok_def)
  have v: "batch_view [status_update now st additional c] q q'"
    using apply_status_view [where q = q and cs = "[c]" and additional = additional and now = now and st = st] ok id by (simp add: q'_def)
  show "evolves q q'"
    unfolding q'_def
  proof (rule evolves_status [OF ok _ id])
    fix c' r assume "c' \<in> set [c]" "mem q (commandId c') = Some r"
    then have "change_ok r (r\<lparr>cmd_status := st, cmd_updatedAt := now\<rparr>)"
      using m by (simp add: change_ok_def status_ok_def)
    then show "change_ok r (additional (r\<lparr>cmd_status := st, cmd_updatedAt := now\<rparr>))"
      using keep change_ok_trans by blast
  qed simp
  then show "commandId (live_cmd q' c) = commandId c" by (intro live_id) (rule evolvesD(1))
  show "has_status q' (commandId c) st"
    using v m keep by (auto simp: batch_view_def has_status_def status_update_def)
  show other: "mem q' i = mem q i \<and> active q' i = active q i" if "i \<noteq> commandId c"
    using v that by (auto simp: batch_view_def status_update_def)
  show "waits_for q' i p \<longleftrightarrow> i \<noteq> commandId c \<and> waits_for q i p" if "isTerminalStatus st"
  proof (cases "i = commandId c")
    case True
    have "\<not> waits_for q' i p"
      using v that keep True by (auto simp: batch_view_def waits_for_def status_update_def split: bind_splits if_splits)
    with True show ?thesis by simp
  next
    case False
    with other show ?thesis by (simp add: waits_for_def)
  qed
qed

lemma keep_error [simp]: "change_ok r (set_error e r)"
  by (simp add: change_ok_def) (simp add: set_error_def set_body_def)

text \<open>The end of a command that others may wait for.\<close>

definition ended :: "commandStatus \<Rightarrow> string \<Rightarrow> commandQueue \<Rightarrow> queueError option \<Rightarrow> commandQueue \<Rightarrow> bool" where
  "ended st cid q err q' \<longleftrightarrow> evolves q q' \<and> err \<noteq> Some OutOfFuel \<and>
    (err = None \<longrightarrow> has_status q' cid st \<and> (\<forall>i. \<not> waits_for q' i cid) \<and>
      (\<forall>i c. waits_for q i cid \<and> i \<noteq> cid \<and> active q i = Some c \<and>
        (\<forall>d \<in> set (dependsOn c). dep_commandId d = cid \<longrightarrow> dep_source d \<noteq> AggregateChainSource) \<longrightarrow>
        has_status q' i Cancelled))"

lemma edge_not_chain:
  assumes "\<forall>d \<in> set (dependsOn c). dep_commandId d = commandId p \<longrightarrow> dep_source d \<noteq> AggregateChainSource"
  shows "edge_source p c \<noteq> AggregateChainSource"
  using assms by (auto simp: edge_source_def find_Some_iff split: option.split)

lemma status_stays: "evolves q q' \<Longrightarrow> has_status q i st \<Longrightarrow> isTerminalStatus st \<Longrightarrow> st \<noteq> Succeeded \<Longrightarrow> has_status q' i st"
  by (auto simp: has_status_def change_ok_def status_ok_def dest!: evolvesD(2))

text \<open>Ending with a cascade, whatever is announced before and after.\<close>

lemma end_with_cascade:
  assumes ok: "queue_ok q" and m: "mem q (commandId c) = Some c0" "\<not> isTerminalStatus (cmd_status c0)"
    and keep: "\<And>r. change_ok r (additional r) \<and> cmd_status (additional r) = cmd_status r"
    and st: "isTerminalStatus st" "st \<noteq> Succeeded"
    and q1: "core q1 = core (apply_status now [c] st additional q)"
    and casc: "cascadeFromTerminal env now (live_cmd q1 c) pe q1 = (err, q2)"
    and q': "core q' = core q2"
  shows "ended st (commandId c) q err q'"
proof -
  let ?s = "apply_status now [c] st additional q"
  have "st \<noteq> Blocked" using st(1) by auto
  note one = one_status [OF ok m this keep, where now = now]
  have ok1: "queue_ok q1" using evolvesD(1) [OF one(1)] view_cong(3) [OF q1] by simp
  have id: "commandId (live_cmd q1 c) = commandId c" by (rule live_id [OF ok1])
  from cascade_settles [OF ok1 casc] have p: "cascade_post (live_cmd q1 c) q1 err q2" .
  have e1: "evolves q q1" by (rule evolves_then_frame [OF one(1) q1])
  have e2: "evolves q1 q'" by (rule evolves_then_frame [OF _ q']) (use p in \<open>simp add: cascade_post_def\<close>)
  have "evolves q q'" by (rule evolves_trans [OF e1 e2])
  moreover have "has_status q' (commandId c) st"
    by (rule status_stays [OF e2 _ st]) (use one(2) in \<open>simp add: frame_active [OF q1]\<close>)
  moreover have "has_status q' i Cancelled"
    if "err = None" "waits_for q i (commandId c)" "i \<noteq> commandId c" "active q i = Some b"
      "\<forall>d \<in> set (dependsOn b). dep_commandId d = commandId c \<longrightarrow> dep_source d \<noteq> AggregateChainSource" for i b
  proof -
    have "active q1 i = Some b" using one(3) [OF that(3)] that(4) view_cong(2) [OF q1] by simp
    moreover have "waits_for q1 i (commandId c)" using one(5) [OF st(1)] that(2,3) by (simp add: frame_active [OF q1])
    ultimately show ?thesis
      using p that(1) edge_not_chain [of b "live_cmd q1 c"] that(5)
      by (auto simp: cascade_post_def id frame_active [OF q'])
  qed
  ultimately show ?thesis using p by (auto simp: ended_def cascade_post_def id frame_active [OF q'])
qed

section \<open>Cancelling\<close>

lemma cancel_step:
  assumes "cancelCommand env now cid q = (refusal, (err, q'))"
  obtains (Refused) "refusal \<noteq> None" "err = None" "q' = snd (q_get now cid q)"
      "\<And>c. fst (q_get now cid q) = Some c \<Longrightarrow> cmd_status c \<notin> {Pending, Blocked}"
  | (Unreadable) e c where "refusal = None" "err = Some e" "e \<noteq> OutOfFuel" "q' = snd (q_get now cid q)"
      "fst (q_get now cid q) = Some c" "cmd_status c \<in> {Pending, Blocked}"
  | (Ends) c es q1 where "refusal = None" "fst (q_get now cid q) = Some c" "cmd_status c \<in> {Pending, Blocked}"
      "core q1 = core (apply_status now [c] Cancelled (\<lambda>r. r) (snd (q_get now cid q)))"
      "cascadeFromTerminal env now (live_cmd q1 c) es q1 = (err, q')"
proof (cases "q_get now cid q")
  case (Pair got q0)
  show ?thesis
  proof (cases got)
    case None
    with assms Pair show ?thesis by (intro Refused) (auto simp: cancelCommand_def)
  next
    case (Some c)
    show ?thesis
    proof (cases "cmd_status c \<in> {Pending, Blocked}")
      case False
      with assms Pair Some show ?thesis
        by (intro Refused; cases "cmd_status c") (auto simp: cancelCommand_def split: if_splits)
    next
      case True
      then have run: "(refusal, (err, q')) = (None, (case with_events q0 c of Inl e \<Rightarrow> (Some e, q0)
          | Inr (_, events) \<Rightarrow> and_then (updateCommandStatus now c Cancelled (\<lambda>r. r) q0) (\<lambda>q2.
              let q3 = announce_cancelled c q2 in cascadeFromTerminal env now (live_cmd q3 c) events q3)))"
        using assms Pair Some by (auto simp: cancelCommand_def)
      show ?thesis
      proof (cases "with_events q0 c")
        case (Inl e)
        then have "e \<noteq> OutOfFuel" by (auto simp: with_events_def split: sum.splits)
        with Inl run True Pair Some show ?thesis by (intro Unreadable [of e c]) auto
      next
        case (Inr be)
        let ?q1 = "announce_cancelled c (apply_status now [c] Cancelled (\<lambda>r. r) q0)"
        from Inr run have "cascadeFromTerminal env now (live_cmd ?q1 c) (snd be) ?q1 = (err, q')" "refusal = None"
          by (simp_all add: updateStatus_run and_then_def Let_def split: prod.splits)
        with True Pair Some show ?thesis by (intro Ends [of c ?q1 "snd be"]) auto
      qed
    qed
  qed
qed

section \<open>Failing\<close>

lemma fail_command_ended:
  assumes ok: "queue_ok q" and m: "mem q (commandId c) = Some c0" "\<not> isTerminalStatus (cmd_status c0)"
    and run: "fail_command env now c error message q = (err, q')"
  shows "ended Failed (commandId c) q err q'"
proof (cases "with_events q c")
  case (Inl e)
  then have "e \<noteq> OutOfFuel" by (auto simp: with_events_def split: sum.splits)
  with Inl run evolves_refl [OF ok] show ?thesis by (auto simp: fail_command_def ended_def)
next
  case (Inr be)
  let ?q1 = "apply_status now [c] Failed (set_error (Some error)) q"
  obtain e q2 where casc: "cascadeFromTerminal env now (live_cmd ?q1 c) (snd be) ?q1 = (e, q2)" by fastforce
  with Inr run have "err = e" "core q' = core q2"
    by (auto simp: fail_command_def updateStatus_run and_then_def split: prod.splits option.splits)
  then show ?thesis
    using end_with_cascade [OF ok m _ _ _ refl casc] by simp
qed

lemma ended_evolves: "ended st cid q err q' \<Longrightarrow> evolves q q'"
  by (simp add: ended_def)

lemma fail_command_evolves:
  assumes ok: "queue_ok q" and m: "\<And>c0. mem q (commandId c) = Some c0 \<Longrightarrow> \<not> isTerminalStatus (cmd_status c0)"
    and run: "fail_command env now c error message q = (err, q')"
  shows "evolves q q' \<and> err \<noteq> Some OutOfFuel"
proof (cases "mem q (commandId c)")
  case (Some c0)
  from fail_command_ended [OF ok Some m [OF Some] run] show ?thesis by (simp add: ended_def)
next
  case None
  show ?thesis
  proof (cases "with_events q c")
    case (Inl e)
    then have "e \<noteq> OutOfFuel" by (auto simp: with_events_def split: sum.splits)
    with Inl run evolves_refl [OF ok] show ?thesis by (auto simp: fail_command_def)
  next
    case (Inr be)
    let ?q1 = "apply_status now [c] Failed (set_error (Some error)) q"
    have ev: "evolves q ?q1" by (rule evolves_status [OF ok]) (use None in simp_all)
    obtain e q2 where casc: "cascadeFromTerminal env now (live_cmd ?q1 c) (snd be) ?q1 = (e, q2)" by fastforce
    with Inr run have eq: "err = e" "core q' = core q2"
      by (auto simp: fail_command_def updateStatus_run and_then_def split: prod.splits option.splits)
    from cascade_settles [OF evolvesD(1) [OF ev] casc] have "evolves ?q1 q2" "e \<noteq> Some OutOfFuel"
      by (simp_all add: cascade_post_def)
    with eq evolves_then_frame [OF evolves_trans [OF ev]] show ?thesis by blast
  qed
qed

lemma markFailed_evolves:
  assumes ok: "queue_ok q" and run: "markFailedFromConflict env now cid conflict q = (err, q')"
  shows "evolves q q' \<and> err \<noteq> Some OutOfFuel"
proof -
  let ?q0 = "snd (q_get now cid q)"
  have ev: "evolves q ?q0" by (rule evolves_get(1) [OF ok])
  show ?thesis
  proof (cases "fst (q_get now cid q)")
    case None
    with run ev show ?thesis by (auto simp: markFailedFromConflict_def split: prod.splits)
  next
    case (Some c)
    show ?thesis
    proof (cases "isTerminalStatus (cmd_status c)")
      case True
      with run Some ev show ?thesis by (auto simp: markFailedFromConflict_def split: prod.splits)
    next
      case False
      have m: "\<not> isTerminalStatus (cmd_status c0)" if "mem ?q0 (commandId c) = Some c0" for c0
        using that Some False queue_okD(1) [OF ok, of cid] by (cases rule: q_get_cases [OF ok, of now cid])
          (auto simp: load_view_def same_commands)
      obtain error where "fail_command env now c error (conf_message conflict) ?q0 = (err, q')"
        using run Some False by (auto simp: markFailedFromConflict_def split: prod.splits)
      from fail_command_evolves [OF evolvesD(1) [OF ev] m this] show ?thesis
        using evolves_trans [OF ev] by blast
    qed
  qed
qed

end
