(* ===== verification/CommandSuccess.thy ===== *)
theory CommandSuccess
  imports CommandEffects
begin

text \<open>
  What a success does to the other commands: nothing disappears, terminal statuses stay, dependencies are
  only dropped, and no command in play waits for the one that succeeded.
\<close>

section \<open>Runs that only let the commands evolve\<close>

lemma evolves_and_then:
  assumes "evolves q (snd r)" "\<And>s. r = (None, s) \<Longrightarrow> queue_ok s \<Longrightarrow> evolves s (snd (f s))"
  shows "evolves q (snd (and_then r f))"
proof -
  obtain e s where r: "r = (e, s)" by (cases r)
  with assms evolvesD(1) [of q s] evolves_trans [of q s] show ?thesis by (cases e) (auto simp: and_then_def)
qed

lemma evolves_run_all:
  assumes "\<And>x s. x \<in> set xs \<Longrightarrow> queue_ok s \<Longrightarrow> evolves s (snd (g x s))" "queue_ok q"
  shows "evolves q (snd (run_all g xs q))"
  using assms
proof (induction xs arbitrary: q)
  case (Cons x xs)
  show ?case unfolding run_all.simps
    by (rule evolves_and_then) (use Cons in \<open>auto intro: Cons.IH\<close>)
qed (simp add: evolves_refl)

lemma evolves_markFailed: "queue_ok q \<Longrightarrow> evolves q (snd (markFailedFromConflict env now cid conflict q))"
  using markFailed_evolves [of q env now cid conflict] by (cases "markFailedFromConflict env now cid conflict q") simp

lemma evolves_outcome: "queue_ok q \<Longrightarrow> evolves q (snd (handle_outcome env now c outcome q))"
  by (auto simp: handle_outcome_def evolves_markFailed evolves_refl evolves_frame split: domainOutcome.split)

lemma evolves_dependent_revision: "queue_ok q \<Longrightarrow> evolves q (snd (resolveDependentRevision env now c revision current q))"
proof -
  assume ok: "queue_ok q"
  define q1 where "q1 r = q_update now (commandId c) (set_body (\<lambda>b. b\<lparr>cb_revision := Some (ExactRevision r)\<rparr>)) q" for r
  have e: "evolves q (q1 r)" for r unfolding q1_def by (rule evolves_body [OF ok])
  have "evolves q (snd (handle_outcome env now c outcome (q1 r)))" for r outcome
    by (rule evolves_trans [OF e evolves_outcome [OF evolvesD(1) [OF e]]])
  with e show ?thesis
    by (auto simp: resolveDependentRevision_def Let_def q1_def [symmetric] evolves_refl [OF ok] split: option.split sum.split)
qed

section \<open>Unblocking\<close>

lemma unblock_one_run:
  "unblock_one env now parent views b q =
    (let c = live_cmd q b
     in and_then (resolveDependentRevision env now c (extractRevisionFromResponse parent)
                    (current_view views (commandId c)) q)
          (\<lambda>q1. (None, list_update_step now c (filter (\<lambda>i. i \<noteq> commandId parent) (blockedBy c)) q1)))"
  by (simp add: unblock_one_def Let_def list_update_step_def updateStatus_run if_distrib [where f = "Pair None"] cong: if_cong)

lemma unblock_one_spec:
  assumes ok: "queue_ok q" and known: "mem q (commandId b) \<noteq> None"
  shows "evolves q (snd (unblock_one env now parent views b q))"
    and "fst (unblock_one env now parent views b q) = None \<Longrightarrow>
      \<not> waits_for (snd (unblock_one env now parent views b q)) (commandId b) (commandId parent)"
proof -
  obtain c where c: "mem q (commandId b) = Some c" using known by auto
  have live: "live_cmd q b = c" by (rule live_mem(1) [OF c])
  have id: "commandId c = commandId b" by (rule queue_okD(1) [OF ok c])
  let ?ids = "filter (\<lambda>i. i \<noteq> commandId parent) (blockedBy c)"
  obtain e q1 where run: "resolveDependentRevision env now c (extractRevisionFromResponse parent)
      (current_view views (commandId c)) q = (e, q1)" by fastforce
  have e1: "evolves q q1"
    using evolves_dependent_revision [OF ok, of env now c "extractRevisionFromResponse parent" "current_view views (commandId c)"]
    by (simp add: run)
  have e2: "evolves q (list_update_step now c ?ids q1)"
    by (rule list_update_evolves [OF e1]) (use c id in auto)
  show "evolves q (snd (unblock_one env now parent views b q))"
    using e1 e2 by (cases e) (simp_all add: unblock_one_run live run and_then_def Let_def)
  assume "fst (unblock_one env now parent views b q) = None"
  then have eq: "snd (unblock_one env now parent views b q) = list_update_step now c ?ids q1"
    by (cases e) (simp_all add: unblock_one_run live run and_then_def Let_def)
  show "\<not> waits_for (snd (unblock_one env now parent views b q)) (commandId b) (commandId parent)"
    unfolding eq
    by (auto simp: waits_for_def list_update_mem(2) [OF evolvesD(1) [OF e1]] id dest!: active_mem)
qed

lemma unblock_all:
  assumes "queue_ok q" "\<And>b. b \<in> set bs \<Longrightarrow> mem q (commandId b) \<noteq> None"
    and "run_all (unblock_one env now parent views) bs q = (err, q')"
  shows "evolves q q' \<and> (err = None \<longrightarrow> (\<forall>b \<in> set bs. \<not> waits_for q' (commandId b) (commandId parent)))"
  using assms
proof (induction bs arbitrary: q)
  case (Cons b bs)
  obtain e q1 where b: "unblock_one env now parent views b q = (e, q1)" by fastforce
  have s: "evolves q q1" "e = None \<Longrightarrow> \<not> waits_for q1 (commandId b) (commandId parent)"
    using unblock_one_spec [OF Cons.prems(1) Cons.prems(2) [of b], of env now parent views] by (simp_all add: b)
  show ?case
  proof (cases e)
    case None
    have "mem q1 (commandId b') \<noteq> None" if "b' \<in> set bs" for b'
      using Cons.prems(2) [of b'] that evolvesD(2) [OF s(1), of "commandId b'"] by auto
    from Cons.IH [OF evolvesD(1) [OF s(1)] this] None b Cons.prems(3)
    have ih: "evolves q1 q'" "err = None \<Longrightarrow> \<forall>b \<in> set bs. \<not> waits_for q' (commandId b) (commandId parent)"
      by (simp_all add: and_then_def)
    with s None evolves_trans [OF s(1) ih(1)] waits_evolves [OF ih(1), of "commandId b" "commandId parent"]
    show ?thesis by auto
  next
    case (Some e')
    with b s Cons.prems(3) show ?thesis by (auto simp: and_then_def)
  qed
qed (simp add: evolves_refl)

lemma blocked_by_iff:
  assumes "queue_ok q"
  shows "b \<in> set (cs_getBlockedBy p (commands_of q)) \<longleftrightarrow> active q (commandId b) = Some b \<and> p \<in> set (blockedBy b)"
proof -
  have "b \<in> set (map_values (cs_active (q_commandStore q))) \<longleftrightarrow> active q (commandId b) = Some b"
    using active_keyed [OF assms] unfolding active_def keyed_by_def map_wf_def
    by (auto simp: map_of_eq_Some_iff intro: rev_image_eqI)
  then show ?thesis by (auto simp: cs_getBlockedBy_def commands_of_def)
qed

lemma unblock_spec:
  assumes ok: "queue_ok q" and run: "unblockDependentCommands env now parent q = (err, q')"
  shows "evolves q q' \<and> (err = None \<longrightarrow> (\<forall>i. \<not> waits_for q' i (commandId parent)))"
proof -
  let ?p = "commandId parent"
  let ?bs = "cs_getBlockedBy ?p (commands_of q)"
  have w: "waits_for q i ?p \<Longrightarrow> \<exists>b \<in> set ?bs. commandId b = i" for i
  proof -
    assume "waits_for q i ?p"
    then obtain c where c: "active q i = Some c" "?p \<in> set (blockedBy c)" by (auto simp: waits_for_def)
    have "commandId c = i" by (rule queue_okD(1) [OF ok active_mem [OF c(1)]])
    with c show "\<exists>b \<in> set ?bs. commandId b = i" using blocked_by_iff [OF ok, of c ?p] by auto
  qed
  consider (none) "?bs = []" | (unread) e where "err = Some e" "q' = q"
    | (go) views where "run_all (unblock_one env now parent views) ?bs q = (err, q')"
    using run by (auto simp: unblockDependentCommands_def Let_def split: if_splits sum.splits)
  then show ?thesis
  proof cases
    case none
    with run have "err = None" "q' = q" by (simp_all add: unblockDependentCommands_def)
    with none w evolves_refl [OF ok] show ?thesis by auto
  next
    case unread
    with evolves_refl [OF ok] show ?thesis by simp
  next
    case (go views)
    have "mem q (commandId b) \<noteq> None" if "b \<in> set ?bs" for b
      using that blocked_by_iff [OF ok, of b ?p] active_mem [of q "commandId b" b] by auto
    from unblock_all [OF ok this go] have e: "evolves q q'" "err = None \<Longrightarrow> \<forall>b \<in> set ?bs. \<not> waits_for q' (commandId b) ?p"
      by auto
    then show ?thesis using w waits_evolves [OF e(1)] by metis
  qed
qed

section \<open>New ids\<close>

lemma core_chains [simp]: "core (q_chains_update f q) = core q"
  by (simp add: core_iff)

lemma writeInPlace_storage [simp]: "ims_storage (writeInPlace r s) = ims_storage s"
  by (simp add: writeInPlace_def Let_def split: option.split)

lemma core_save_mapping [simp]: "core (rs_queue (snd (save_mapping m s))) = core (rs_queue s)"
  by (auto simp: save_mapping_def ims_save_def ims_scheduleFlush_def core_iff set_mappings_def mappings_of_def split: sum.split)

lemma core_dual_index [simp]: "core (rs_queue (snd (dual_index a i s))) = core (rs_queue s)"
  by (simp add: dual_index_def Let_def split: sum.split)

lemma core_then:
  assumes "core (rs_queue (snd r)) = c" "\<And>s. core (rs_queue (snd (f s))) = core (rs_queue s)"
  shows "core (rs_queue (snd (and_then r f))) = c"
  using assms by (cases r; cases "fst r") (auto simp: and_then_def)

lemma core_candidate [simp]: "core (rs_queue (snd (reconcile_candidate now c cand s))) = core (rs_queue s)"
  by (auto simp: reconcile_candidate_def Let_def split: option.split intro!: core_then)

lemma core_candidates [simp]:
  "core (rs_queue (snd (run_all (reconcile_candidate now c) cands s))) = core (rs_queue s)"
  by (induction cands arbitrary: s) (auto intro!: core_then)

lemma core_reconcile [simp]: "core (snd (snd (reconcileAggregateIds env now c q))) = core q"
proof -
  have "core (rs_queue s) = core q"
    if "run_all (reconcile_candidate now c) cands \<lparr>rs_map = [], rs_covered = [], rs_queue = q\<rparr> = (e, s)" for cands e s
    using core_candidates [of now c cands "\<lparr>rs_map = [], rs_covered = [], rs_queue = q\<rparr>"] that by simp
  then show ?thesis
    by (auto simp: reconcileAggregateIds_def Let_def split: option.split sum.split prod.split)
qed

lemma core_overlay [simp]: "core (snd (applyIdRewritesToLocalOverlay now c idMap q)) = core q"
proof -
  have "commands st' = commands st" if "migrateEntityIds now ms pre st = Inr (r, st')" for ms pre r st' and st :: "commandBody inMemoryStorage"
    using that by (auto simp: migrateEntityIds_def Let_def map_result_Inr split: if_splits)
  then show ?thesis
    by (auto simp: applyIdRewritesToLocalOverlay_def Let_def core_iff split: sum.split)
qed

lemma core_keys [simp]: "core (snd (resolve_cache_keys env c registration idMap q)) = core q"
proof -
  have "commands (cm_storage s) = commands (q_storage q)" if "resolvePendingKeys ke i m r (cache_of q) = (e, s)" for ke i m r e s
    using frame_resolve [of ke i m r "cache_of q"] that by simp
  then show ?thesis
    by (auto simp: resolve_cache_keys_def Let_def core_iff set_cache_def split: prod.split)
qed

section \<open>Commands that use new ids\<close>

lemma evolves_rewrite:
  assumes "queue_ok (snd st)"
  shows "evolves (snd st) (snd (snd (rewrite_command env now entries c st)))"
proof -
  obtain items q where st: "st = (items, q)" by (cases st)
  have "evolves q (q_update now (commandId c) (set_body f) q)" "evolves q q" for f
    using assms evolves_body [of q now "commandId c" f] evolves_refl by (simp_all add: st)
  then show ?thesis
    by (auto simp: rewrite_command_def st Let_def split: option.split sum.split)
qed

lemma evolves_rewrites:
  assumes "queue_ok (snd st)"
  shows "evolves (snd st) (snd (snd (run_all (rewrite_command env now entries) cs st)))"
  using assms
proof (induction cs arbitrary: st)
  case (Cons c cs)
  obtain e st' where run: "rewrite_command env now entries c st = (e, st')" by (metis surj_pair)
  have "evolves (snd st) (snd st')" using evolves_rewrite [OF Cons.prems, of env now entries c] by (simp add: run)
  then show ?case
    using Cons.IH [OF evolvesD(1)] evolves_trans by (cases e) (auto simp: run and_then_def)
qed (simp add: evolves_refl)

lemma evolves_regenerate_item:
  "queue_ok q \<Longrightarrow> evolves q (snd (regenerate_item env now views item q))"
  by (auto simp: regenerate_item_def Let_def evolves_outcome evolves_refl split: sum.split)

lemma evolves_stale:
  assumes "queue_ok q"
  shows "evolves q (snd (rewriteCommandsWithStaleIds env now idMap q))"
proof -
  have e: "evolves q q1" if "run_all (rewrite_command env now entries) cs ([], q) = (err, (items, q1))" for entries cs err items q1
    using evolves_rewrites [of "([], q)" env now entries cs] assms that by simp
  have "evolves q (snd (run_all (regenerate_item env now views) items q1))"
    if "run_all (rewrite_command env now entries) cs ([], q) = (err, (items', q1))" for views items items' q1 entries cs err
    by (rule evolves_trans [OF e [OF that]], rule evolves_run_all)
      (use e [OF that] evolvesD(1) in \<open>auto simp: evolves_regenerate_item\<close>)
  with e show ?thesis
    by (auto simp: rewriteCommandsWithStaleIds_def Let_def evolves_refl [OF assms]
        split: prod.split option.split sum.split)
qed

section \<open>Success as a whole\<close>

definition done_ok :: "commandQueue \<Rightarrow> string \<Rightarrow> bool" where
  "done_ok q i \<longleftrightarrow> has_status q i Succeeded \<or> has_status q i Applied"

lemma done_stays: "evolves q q' \<Longrightarrow> done_ok q i \<Longrightarrow> done_ok q' i"
  using evolvesD(2) [of q q' i] by (fastforce simp: done_ok_def has_status_def change_ok_def status_ok_def)

lemma slip_spec:
  assumes ok: "queue_ok q" and d: "done_ok q (commandId c)"
  shows "evolves q (slipToApplied now c q)"
proof -
  let ?us = "map (status_update now Applied (\<lambda>r. r)) [c]"
  let ?q1 = "with_commands (\<lambda>s. snd (cs_batchUpdate now ?us s)) q"
  have v: "batch_view ?us q ?q1"
    by (rule batch_update_view [OF ok]) (auto simp: status_update_def)
  have e: "evolves q ?q1"
    by (rule evolves_batch [OF v])
      (use d in \<open>auto simp: status_update_def done_ok_def has_status_def change_ok_def status_ok_def split: if_splits\<close>)
  have "core (slipToApplied now c q) = core ?q1"
    by (simp add: slipToApplied_def batchUpdateSyncStatus_def)
  then show ?thesis by (rule evolves_then_frame [OF e])
qed

lemma applied_check_spec:
  assumes ok: "queue_ok q" and d: "done_ok q (commandId c)"
  shows "evolves q (snd (checkAppliedAtSuccess env now c registration response q))"
  using slip_spec [OF assms] evolves_refl [OF ok] by (simp add: checkAppliedAtSuccess_def split: sum.split)

lemma keep_response [simp]: "change_ok r (set_body (cb_serverResponse_update f) r) \<and>
    cmd_status (set_body (cb_serverResponse_update f) r) = cmd_status r"
  by (simp add: change_ok_def set_body_def)

text \<open>The steps after the status change, up to the unblocking.\<close>

definition success_tail ::
  "'s queueEnv \<Rightarrow> int \<Rightarrow> command \<Rightarrow> string list \<Rightarrow> jsval \<Rightarrow> ('s, cacheKeyIdentity) handlerRegistration option \<Rightarrow>
   commandQueue \<Rightarrow> queueRun" where
  "success_tail env now c uncovered response registration q =
    (case reconcileAggregateIds env now c q of
       (Some e, (idMap, q4)) \<Rightarrow> (Some e, q4)
     | (None, (idMap, q4)) \<Rightarrow>
         and_then (applyIdRewritesToLocalOverlay now c idMap q4) (\<lambda>q5.
           let q6 = fireInvalidationsForSuccess c uncovered response q5
           in if idMap = [] then (None, q6)
              else and_then (rewriteCommandsWithStaleIds env now idMap q6)
                     (resolve_cache_keys env c registration idMap)))"

lemma and_then_assoc: "and_then (and_then r f) g = and_then r (\<lambda>s. and_then (f s) g)"
  by (cases r; cases "fst r") (simp_all add: and_then_def)

lemma success_run:
  "processCommandSuccess env now current updated correlationId response q =
    (let registration = q_getRegistration env (cmd_type updated);
         q1 = log_event (BusResponse (commandId current) correlationId response) q;
         q2 = (if qe_onCommandResponse env then log_event (ResponseHandedOff (commandId updated) response) q1 else q1)
     in case collectIdMappingCandidates (qe_aggregates env) (live_cmd q2 updated) registration response of
          Inl e \<Rightarrow> (Some e, q2)
        | Inr (candidates, uncovered) \<Rightarrow>
            (let q3 = apply_status now [updated] Succeeded (set_body (\<lambda>b. b\<lparr>cb_serverResponse := response\<rparr>)) q2;
                 c = live_cmd q3 updated
             in and_then (success_tail env now c uncovered response registration q3) (\<lambda>q7.
                and_then (unblockDependentCommands env now c q7) (\<lambda>q8.
                checkAppliedAtSuccess env now c registration response
                  (emitCommandEvent CompletedEvent (live_cmd q8 c) None
                    (log_event (BusCompleted (commandId current) (cmd_type current) (cmd_cacheKey current)) q8))))))"
  unfolding processCommandSuccess_def success_tail_def Let_def
  by (simp add: updateStatus_run and_then_assoc and_then_def [of "(None, _)"] and_then_def [of "(Some _, _)"]
      split: prod.split sum.split option.split)

lemma evolves_tail:
  assumes ok: "queue_ok q"
  shows "evolves q (snd (success_tail env now c uncovered response registration q))"
proof -
  obtain e idMap q4 where r: "reconcileAggregateIds env now c q = (e, (idMap, q4))" by (metis surj_pair)
  have e4: "evolves q q4" by (rule evolves_frame [OF ok]) (use core_reconcile [of env now c q] r in simp)
  have e5: "evolves q4 (snd (applyIdRewritesToLocalOverlay now c idMap q4))"
    by (rule evolves_frame [OF evolvesD(1) [OF e4]]) simp
  have "evolves s (snd (and_then (rewriteCommandsWithStaleIds env now idMap s) (resolve_cache_keys env c registration idMap)))"
    if "queue_ok s" for s
    by (rule evolves_and_then [OF evolves_stale [OF that]]) (rule evolves_frame, simp_all)
  then have "evolves s (snd (let q6 = fireInvalidationsForSuccess c uncovered response s
           in if idMap = [] then (None, q6)
              else and_then (rewriteCommandsWithStaleIds env now idMap q6)
                     (resolve_cache_keys env c registration idMap)))" if "queue_ok s" for s
    using evolves_frame [OF that, of "fireInvalidationsForSuccess c uncovered response s"] evolves_trans evolvesD(1)
    by (auto simp: Let_def)
  then have "evolves q4 (snd (and_then (applyIdRewritesToLocalOverlay now c idMap q4) (\<lambda>q5.
           let q6 = fireInvalidationsForSuccess c uncovered response q5
           in if idMap = [] then (None, q6)
              else and_then (rewriteCommandsWithStaleIds env now idMap q6)
                     (resolve_cache_keys env c registration idMap))))"
    by (intro evolves_and_then [OF e5])
  from evolves_trans [OF e4 this] e4 show ?thesis by (cases e) (simp_all add: success_tail_def r)
qed

end
