(* ===== verification/QueueSteps.thy ===== *)
theory QueueSteps
  imports CommandSuccess
begin

text \<open>
  What may happen to a command queue: \<open>queue_step\<close> has a rule per entry point, per stretch of an entry point
  that awaits something, and per step of the processing loop.  \<open>queue_ok\<close>, on which the theorems about
  single operations rest, holds in every state that these steps reach.
\<close>

section \<open>A new queue\<close>

definition new_commandQueue ::
  "int \<Rightarrow> int \<Rightarrow> commandBody inMemoryStorage \<Rightarrow> commandBody cacheManager \<Rightarrow> commandQueue" where
  "new_commandQueue terminalTtl mappingTtl st cache =
    \<lparr>q_storage = st, q_commandStore = new_commandStore terminalTtl st,
     q_mappingStore = new_idMappingStore mappingTtl st,
     q_anticipation = \<lparr>an_cache = new_eventCache st, an_tracked = [], an_emitted = [], an_nextEvent = 0\<rparr>,
     q_cacheManager = cache, q_chains = new_registry, q_files = [], q_paused = True, q_processing = False,
     q_pendingReprocess = False, q_pass = None, q_inflight = None, q_retryTimers = [], q_nextTimer = 0,
     q_nextId = 0, q_log = []\<rparr>"

section \<open>The steps\<close>

text \<open>
  A command is saved under an id that memory does not hold, which ids that are made at random give.
  \<open>Flush\<close> is the command store's own write, \<open>Load\<close> its initialisation.
\<close>

inductive queue_step :: "'s queueEnv \<Rightarrow> commandQueue \<Rightarrow> commandQueue \<Rightarrow> bool" for env where
  Prepare: "queue_step env q (snd (enqueue_prepare env params q))"
| Lookup: "queue_step env q (snd (enqueue_lookup now params prepared q))"
| Save: "mem q cid = None \<Longrightarrow> queue_step env q (snd (enqueue_save env now params cid fileRefs prepared deps q))"
| Cancel: "queue_step env q (snd (snd (cancelCommand env now cid q)))"
| Retry: "queue_step env q (snd (snd (retryCommand now cid q)))"
| Conflict: "queue_step env q (snd (markFailedFromConflict env now cid conflict q))"
| SyncStatus: "distinct (map commandId cs) \<Longrightarrow> queue_step env q (batchUpdateSyncStatus now (Some cs) q)"
| PassStart: "q_processing q \<Longrightarrow> q_pass q = None \<Longrightarrow> queue_step env q (pass_start env q)"
| PassNext: "q_inflight q = None \<Longrightarrow> queue_step env q (pass_next env now q)"
| Reply: "queue_step env q (finish_send env now reply q)"
| Timer: "queue_step env q (timer_fires n q)"
| Initialize: "queue_step env q (snd (cq_initialize env q))"
| Load: "cs_initialize (commands_of q) = Inr s \<Longrightarrow> cs_ttlCache (q_commandStore q) = [] \<Longrightarrow>
    queue_step env q (set_commands s q)"
| Flush: "queue_step env q (with_commands (cs_doFlush now) q)"
| Pause: "queue_step env q (cq_pause q)"
| Paused: "queue_step env q (pause_settled q)"
| Resume: "queue_step env q (cq_resume q)"
| Resumed: "queue_step env q (resume_settled q)"
| Reset: "queue_step env q (cq_reset q)"
| Clear: "queue_step env q (clearAll_settled q)"
| Destroy: "queue_step env q (cq_destroy q)"

inductive reachable_queue :: "'s queueEnv \<Rightarrow> commandQueue \<Rightarrow> commandQueue \<Rightarrow> bool" for env q0 where
  Start: "reachable_queue env q0 q0"
| Step: "reachable_queue env q0 q \<Longrightarrow> queue_step env q q' \<Longrightarrow> reachable_queue env q0 q'"

section \<open>Every step keeps the invariant\<close>

lemma ok_frame: "core q' = core q \<Longrightarrow> queue_ok q \<Longrightarrow> queue_ok q'"
  using view_cong(3) [of q' q] by simp

lemma ok_evolves: "evolves q q' \<Longrightarrow> queue_ok q'"
  by (rule evolvesD(1))

lemma ok_and_then:
  "queue_ok (snd r) \<Longrightarrow> (\<And>s. queue_ok s \<Longrightarrow> queue_ok (snd (f s))) \<Longrightarrow> queue_ok (snd (and_then r f))"
  by (cases r; cases "fst r") (auto simp: and_then_def)

lemma ok_apply_status:
  assumes "queue_ok q" "distinct (map commandId cs)" "\<And>r. commandId (additional r) = commandId r"
  shows "queue_ok (apply_status now cs st additional q)"
  using apply_status_view [OF assms, where now = now and st = st] by (simp add: batch_view_def)

lemma ok_get: "queue_ok q \<Longrightarrow> queue_ok (snd (q_get now i q))"
  by (rule ok_evolves [OF evolves_get(1)])

lemma ok_cascade: "queue_ok q \<Longrightarrow> queue_ok (snd (cascadeFromTerminal env now parent pe q))"
  using cascade_settles [of q env now parent pe] evolvesD(1)
  by (cases "cascadeFromTerminal env now parent pe q") (auto simp: cascade_post_def)

lemma ok_fail: "queue_ok q \<Longrightarrow> queue_ok (snd (fail_command env now c error message q))"
  by (auto simp: fail_command_def updateStatus_run split: sum.split prod.split
      intro!: ok_and_then ok_cascade ok_apply_status intro: ok_frame)

lemma ok_conflict: "queue_ok q \<Longrightarrow> queue_ok (snd (markFailedFromConflict env now cid conflict q))"
  by (rule ok_evolves [OF evolves_markFailed])

lemma ok_failure: "queue_ok q \<Longrightarrow> queue_ok (snd (processCommandFailure env now current updated e q))"
  by (auto simp: processCommandFailure_def Let_def updateStatus_run ok_fail
      intro!: ok_and_then ok_apply_status intro: ok_frame)

lemma ok_cancel: "queue_ok q \<Longrightarrow> queue_ok (snd (snd (cancelCommand env now cid q)))"
proof -
  assume ok: "queue_ok q"
  let ?r = "cancelCommand env now cid q"
  have run: "cancelCommand env now cid q = (fst ?r, (fst (snd ?r), snd (snd ?r)))" by simp
  from run show ?thesis
  proof (cases rule: cancel_step)
    case (Ends c es q1)
    have "queue_ok q1" by (rule ok_frame [OF Ends(4)]) (rule ok_apply_status [OF ok_get [OF ok]], simp_all)
    from ok_cascade [OF this, of env now "live_cmd q1 c" es] Ends(5) show ?thesis by simp
  qed (simp_all add: ok_get [OF ok])
qed

lemma ok_retry: "queue_ok q \<Longrightarrow> queue_ok (snd (snd (retryCommand now cid q)))"
proof -
  assume "queue_ok q"
  then have ok: "queue_ok (snd (q_get now cid q))" by (rule ok_get)
  have "queue_ok (apply_status now [c] Pending (set_error None) (snd (q_get now cid q)))" for c
    by (rule ok_apply_status [OF ok]) simp_all
  with ok show ?thesis
    by (cases "q_get now cid q") (auto simp: retryCommand_def updateStatus_run split: option.split)
qed

lemma ok_sync:
  assumes ok: "queue_ok q" and cs: "distinct (map commandId cs)"
  shows "queue_ok (batchUpdateSyncStatus now (Some cs) q)"
proof -
  let ?us = "map (status_update now Applied (\<lambda>r. r)) cs"
  have ids: "map fst ?us = map commandId cs" by (simp add: status_update_def comp_def)
  have "batch_view ?us q (with_commands (\<lambda>s. snd (cs_batchUpdate now ?us s)) q)"
    by (rule batch_update_view [OF ok]) (use cs in \<open>auto simp: ids simp del: map_map, auto simp: status_update_def\<close>)
  then have ok': "queue_ok (with_commands (\<lambda>s. snd (cs_batchUpdate now ?us s)) q)" by (simp add: batch_view_def)
  have "core (batchUpdateSyncStatus now (Some cs) q) = core (with_commands (\<lambda>s. snd (cs_batchUpdate now ?us s)) q)"
    if "cs \<noteq> []" using that by (simp add: batchUpdateSyncStatus_def)
  then show ?thesis using ok_frame [OF _ ok'] ok by (cases "cs = []") (auto simp: batchUpdateSyncStatus_def)
qed

lemma ok_slip: "queue_ok q \<Longrightarrow> queue_ok (slipToApplied now c q)"
  by (rule ok_frame [OF _ ok_sync [of q "[c]" now]]) (simp_all add: slipToApplied_def)

lemma ok_success: "queue_ok q \<Longrightarrow> queue_ok (snd (processCommandSuccess env now current updated correlationId response q))"
proof -
  assume ok: "queue_ok q"
  let ?q1 = "log_event (BusResponse (commandId current) correlationId response) q"
  let ?q2 = "if qe_onCommandResponse env then log_event (ResponseHandedOff (commandId updated) response) ?q1 else ?q1"
  have ok2: "queue_ok ?q2" by (rule ok_frame [OF _ ok]) simp
  have "queue_ok (apply_status now [updated] Succeeded (set_body f) ?q2)" for f
    by (rule ok_apply_status [OF ok2]) (simp_all add: set_body_def)
  moreover have "queue_ok (snd (success_tail env now c uncovered response registration s))" if "queue_ok s" for c uncovered registration s
    by (rule ok_evolves [OF evolves_tail [OF that]])
  moreover have "queue_ok (snd (unblockDependentCommands env now c s))" if "queue_ok s" for c s
    using unblock_spec [OF that, of env now c] evolvesD(1) by (cases "unblockDependentCommands env now c s") auto
  moreover have "queue_ok (snd (checkAppliedAtSuccess env now c registration response s))" if "queue_ok s" for c registration s
    using that ok_slip by (simp add: checkAppliedAtSuccess_def split: sum.split)
  moreover have "queue_ok (emitCommandEvent t c p (log_event e s))" if "queue_ok s" for t c p e s
    by (rule ok_frame [OF _ that]) simp
  ultimately show ?thesis
    unfolding success_run Let_def using ok2
    by (auto split: sum.split prod.split intro!: ok_and_then)
qed

lemma ok_abort: "queue_ok s \<Longrightarrow> queue_ok (loop_abort s)"
  by (erule ok_frame [rotated]) (simp add: loop_abort_def core_iff)

lemma ok_loop_end: "queue_ok (snd r) \<Longrightarrow> queue_ok (case r of (None, q2) \<Rightarrow> q2 | (Some e, q2) \<Rightarrow> loop_abort q2)"
  by (cases r; cases "fst r") (auto simp: ok_abort)

lemma ok_finish:
  assumes ok: "queue_ok q"
  shows "queue_ok (finish_send env now reply q)"
proof (cases "q_inflight q")
  case None
  with ok show ?thesis by (simp add: finish_send_def)
next
  case (Some i)
  obtain updated correlationId sent where i: "i = (updated, correlationId, sent)" by (cases i)
  have ok1: "queue_ok (q\<lparr>q_inflight := None\<rparr>)" by (rule ok_frame [OF _ ok]) simp
  show ?thesis
    unfolding finish_send_def Some i option.case prod.case Let_def
    by (rule ok_loop_end) (cases reply, simp_all add: ok_success ok_failure ok1)
qed

text \<open>Sending.\<close>

lemma ok_begin_send:
  assumes "queue_ok q"
  shows "queue_ok (snd (begin_send env now c q))"
proof (cases "q_get now (commandId c) q")
  case (Pair got q1)
  have ok: "queue_ok q1" using ok_get [OF assms, of now "commandId c"] by (simp add: Pair)
  have sent: "queue_ok (apply_status now [current] Sending (\<lambda>r. set_body (\<lambda>b. b\<lparr>cb_lastAttemptAt := Some now\<rparr>)
      (r\<lparr>attempts := n\<rparr>)) q1)" for current n
    by (rule ok_apply_status [OF ok]) (simp_all add: set_body_def)
  have tail: "queue_ok (log_event e (q\<lparr>q_nextId := n\<rparr>))" "queue_ok (log_event e (q\<lparr>q_nextId := n\<rparr>)\<lparr>q_inflight := x\<rparr>)"
    if "queue_ok q" for e q n x
    by (rule ok_frame [OF _ that], simp add: core_iff log_event_def)+
  show ?thesis
    unfolding begin_send_def Pair prod.case
    by (auto simp: ok updateStatus_run new_id_def Let_def split: option.split
        intro!: ok_and_then sent split: sum.split) (rule tail, assumption)+
qed

lemma ok_pass_next:
  assumes ok: "queue_ok q"
  shows "queue_ok (pass_next env now q)"
proof -
  have pass: "queue_ok (q\<lparr>q_pass := p\<rparr>)" for p by (rule ok_frame [OF _ ok]) simp
  have "queue_ok (end_pass q)" using ok_abort [OF ok] pass by (simp add: end_pass_def)
  moreover have "queue_ok (case begin_send env now c (q\<lparr>q_pass := p\<rparr>) of (None, q1) \<Rightarrow> q1 | (Some e, q1) \<Rightarrow> loop_abort q1)" for c p
    by (rule ok_loop_end [OF ok_begin_send [OF pass]])
  ultimately show ?thesis
    using ok pass by (simp add: pass_next_def split: option.split list.split del: split_paired_All)
qed

section \<open>Submission keeps the invariant\<close>

lemma core_new_id [simp]: "core (snd (new_id env q)) = core q"
  by (simp add: new_id_def core_iff)

lemma core_files [simp]: "core (snd (fold (save_file env cid) files st)) = core (snd st)"
  by (induction files arbitrary: st) (simp_all add: save_file_def new_id_def core_iff Let_def)

lemma core_accept [simp]: "core (snd (accept_events env cid registration prepared outcome q)) = core q"
  by (auto simp: accept_events_def split: domainOutcome.split sum.split prod.split option.split)

lemma core_prepare_registration [simp]:
  "core (snd (prepareCommandWithRegistration env command cid registration skip st fs q)) = core q"
  by (auto simp: prepareCommandWithRegistration_def Let_def split: option.split sum.split prod.split)

lemma core_prepare: "core (snd (enqueue_prepare env params q)) = core q"
proof -
  obtain cid q1 where a: "(case ep_commandId params of Some i \<Rightarrow> (i, q) | None \<Rightarrow> new_id env q) = (cid, q1)"
    by (metis surj_pair)
  have q1: "core q1 = core q" using a by (auto simp: new_id_def core_iff split: option.splits)
  obtain fs q2 where b: "(if ep_fileRefs params = None \<and> enq_files (ep_command params) \<noteq> []
      then (case fold (save_file env cid) (enq_files (ep_command params)) ([], q1) of (refs, q') \<Rightarrow> (Some refs, q'))
      else (ep_fileRefs params, q1)) = (fs, q2)"
    by (metis surj_pair)
  have q2: "core q2 = core q1"
    using b core_files [of env cid "enq_files (ep_command params)" "([], q1)"]
    by (auto simp del: core_files split: if_splits prod.splits)
  obtain r q3 where c: "(case q_getRegistration env (enq_type (ep_command params)) of
      None \<Rightarrow> (Inr (Accepted (unprepared (ep_command params))), q2)
    | Some registration \<Rightarrow> prepareCommandWithRegistration env (ep_command params) cid registration
        (ep_skipValidation params) (ep_modelState params) fs q2) = (r, q3)"
    by (metis surj_pair)
  have "core q3 = core q2"
    using c core_prepare_registration [of env "ep_command params" cid _ "ep_skipValidation params" "ep_modelState params" fs q2]
    by (auto simp del: core_prepare_registration split: option.splits) (metis snd_conv)
  with q1 q2 show ?thesis
    unfolding enqueue_prepare_def Let_def a prod.case b c
    by (cases r) (auto split: submitted.split prod.split)
qed

text \<open>The look-up of the dependencies may cache finished commands.\<close>

abbreviation memory_ok :: "commandBody commandStore \<Rightarrow> bool" where
  "memory_ok s \<equiv> cs_inv (s\<lparr>cs_storage := new_storage\<rparr>)"

lemma queue_ok_iff: "queue_ok q \<longleftrightarrow> memory_ok (q_commandStore q) \<and> keyed_by commandId (commands (q_storage q))"
  by (simp add: queue_ok_def)

lemma ok_set_commands:
  "memory_ok s \<Longrightarrow> keyed_by commandId (commands (cs_storage s)) \<Longrightarrow> queue_ok (set_commands s q)"
  by (simp add: queue_ok_iff)

lemma memory_ok_commands_of: "queue_ok q \<Longrightarrow> memory_ok (commands_of q)"
  by (simp add: queue_ok_iff commands_of_def)

lemma memory_ok_ttl:
  assumes "memory_ok s" "map_get (cs_active s) i = None" "commandId (ttl_command e) = i"
  shows "memory_ok (s\<lparr>cs_ttlCache := map_set i e (cs_ttlCache s)\<rparr>)"
  using assms unfolding cs_inv_def by (auto intro: wf_intros split: if_splits)

lemma collect_keeps:
  assumes "memory_ok s" "collect_ids now ids result need s = (result', need', s')"
  shows "memory_ok s' \<and> cs_storage s' = cs_storage s \<and> cs_active s' = cs_active s
    \<and> (\<forall>i \<in> set need'. i \<in> set need \<or> map_get (cs_active s) i = None)"
  using assms
proof (induction ids arbitrary: result need s)
  case (Cons i ids)
  have r: "memory_ok (refresh_ttl now i e s)" if "map_get (cs_active s) i = None" "map_get (cs_ttlCache s) i = Some e" for e
    unfolding refresh_ttl_def
    by (rule memory_ok_ttl) (use Cons.prems(1) that in \<open>auto simp: cs_inv_def\<close>)
  have f: "cs_storage (refresh_ttl now i e s) = cs_storage s" "cs_active (refresh_ttl now i e s) = cs_active s" for e
    by (simp_all add: refresh_ttl_def)
  show ?case
  proof (cases "map_get (cs_active s) i")
    case None
    note a = None
    show ?thesis
    proof (cases "map_get (cs_ttlCache s) i")
      case None
      with a Cons.prems(2) have "collect_ids now ids result (need @ [i]) s = (result', need', s')" by simp
      from Cons.IH [OF Cons.prems(1) this] a show ?thesis by auto
    next
      case (Some e)
      with a Cons.prems(2) Cons.IH [OF r [OF a Some]] show ?thesis by (auto simp: f)
    qed
  next
    case (Some c)
    with Cons.prems Cons.IH [of s] show ?thesis by simp
  qed
qed simp

definition load_one where
  "load_one now = (\<lambda>(i, c) (m, s'). (map_set i c m,
     if isTerminalStatus (cmd_status c) then addToTtlCache now c s' else s'))"

lemma load_keeps:
  assumes "memory_ok (snd ms)" "\<And>i c. (i, c) \<in> set es \<Longrightarrow> commandId c = i \<and> map_get (cs_active (snd ms)) i = None"
  shows "memory_ok (snd (fold (load_one now) es ms)) \<and>
    cs_storage (snd (fold (load_one now) es ms)) = cs_storage (snd ms)"
  using assms
proof (induction es arbitrary: ms)
  case (Cons ic es)
  obtain i c where ic: "ic = (i, c)" by (cases ic)
  obtain m s where ms: "ms = (m, s)" by (cases ms)
  have "memory_ok (addToTtlCache now c s)"
    unfolding addToTtlCache_def
    by (rule memory_ok_ttl) (use Cons.prems(1) Cons.prems(2) [of i c] ic ms in auto)
  with Cons.prems(1) ms have a: "memory_ok (snd (load_one now ic ms))" by (simp add: load_one_def ic)
  have f: "cs_storage (snd (load_one now ic ms)) = cs_storage s" "cs_active (snd (load_one now ic ms)) = cs_active s"
    by (simp_all add: load_one_def ic ms addToTtlCache_def)
  have sm: "snd ms = s" by (simp add: ms)
  have "commandId c' = i' \<and> map_get (cs_active (snd (load_one now ic ms))) i' = None" if "(i', c') \<in> set es" for i' c'
    using Cons.prems(2) [of i' c'] that ms unfolding f by simp
  from Cons.IH [OF a this] show ?case by (simp add: f sm)
qed simp

lemma loaded_keyed:
  assumes "keyed_by commandId (commands st)" "(i, c) \<in> set (getCommandsByIds st ids)"
  shows "commandId c = i \<and> i \<in> set ids"
proof -
  have "\<forall>(i, c) \<in> set (fold (\<lambda>i m. case map_get (commands st) i of Some c \<Rightarrow> map_set i c m | None \<Rightarrow> m) js m).
      commandId c = i \<and> i \<in> set ids"
    if "\<forall>(i, c) \<in> set m. commandId c = i \<and> i \<in> set ids" "set js \<subseteq> set ids" "map_wf m" for js m
    using that
  proof (induction js arbitrary: m)
    case (Cons j js)
    have key: "map_get (commands st) j = Some c \<Longrightarrow> commandId c = j" for c using assms(1) by (simp add: keyed_by_iff)
    have in_m: "\<forall>(i, c) \<in> set (map_set j c m). commandId c = i \<and> i \<in> set ids" if "commandId c = j" for c
    proof -
      have wf: "map_wf (map_set j c m)" using Cons.prems(3) by (rule wf_intros)
      have sub: "set (map_set j c m) \<subseteq> insert (j, c) (set m)"
      proof
        fix x assume "x \<in> set (map_set j c m)"
        then have "map_get (map_set j c m) (fst x) = Some (snd x)" unfolding map_wf_get [OF wf] by simp
        then show "x \<in> insert (j, c) (set m)"
          by (cases x) (simp split: if_splits add: map_wf_get [OF Cons.prems(3)])
      qed
      have "\<forall>(i, c) \<in> insert (j, c) (set m). commandId c = i \<and> i \<in> set ids" using Cons.prems that by simp
      then show ?thesis using sub by blast
    qed
    show ?case
    proof (cases "map_get (commands st) j")
      case None
      then show ?thesis using Cons.IH [of m] Cons.prems by simp
    next
      case (Some c)
      have "map_wf (map_set j c m)" using Cons.prems(3) by (rule wf_intros)
      from Cons.IH [OF in_m _ this] Cons.prems(2) key [OF Some] show ?thesis by (simp add: Some)
    qed
  qed simp
  from this [of "[]" ids] assms(2) show ?thesis by (auto simp: getCommandsByIds_def)
qed

lemma ok_lookup:
  assumes ok: "queue_ok q"
  shows "queue_ok (snd (enqueue_lookup now params prepared q))"
proof -
  let ?ids = "map dep_commandId (all_deps params prepared)"
  obtain result need s1 where c: "collect_ids now ?ids [] [] (commands_of q) = (result, need, s1)" by (metis surj_pair)
  from collect_keeps [OF memory_ok_commands_of [OF ok] c]
  have s1: "memory_ok s1" "cs_storage s1 = q_storage q" "\<And>i. i \<in> set need \<Longrightarrow> map_get (cs_active s1) i = None"
    by auto
  have key: "keyed_by commandId (commands (q_storage q))" using ok by (simp add: queue_ok_iff)
  have "memory_ok (snd (fold (load_one now) (getCommandsByIds (cs_storage s1) need) (result, s1))) \<and>
      cs_storage (snd (fold (load_one now) (getCommandsByIds (cs_storage s1) need) (result, s1))) = q_storage q"
    using load_keeps [of "(result, s1)" "getCommandsByIds (cs_storage s1) need" now] s1 loaded_keyed [OF key] by auto
  then have "memory_ok (snd (cs_getByIds now ?ids (commands_of q))) \<and>
      cs_storage (snd (cs_getByIds now ?ids (commands_of q))) = q_storage q"
    using s1 by (simp add: cs_getByIds_def c load_one_def)
  then show ?thesis
    using ok_set_commands key by (auto simp: enqueue_lookup_def split: prod.split)
qed

text \<open>Saving the record.\<close>

lemma ok_save_command:
  assumes ok: "queue_ok q" and new: "mem q (commandId c) = None" and st: "isInMemoryStatus (cmd_status c)"
  shows "queue_ok (with_commands (cs_save c) q)"
proof -
  have none: "map_get (cs_ttlCache (q_commandStore q)) (commandId c) = None"
    using new by (auto simp: mem_def memory_get_def split: option.splits)
  have "memory_ok (cs_save c (commands_of q))"
    using ok none st unfolding queue_ok_iff cs_inv_def
    by (auto simp: cs_save_def commands_of_def Let_def intro!: keyed_by_set split: if_splits)
  moreover have "keyed_by commandId (commands (cs_storage (cs_save c (commands_of q))))"
    using ok by (auto simp: queue_ok_iff cs_save_def Let_def saveCommand_def intro!: keyed_by_set)
  ultimately show ?thesis unfolding with_commands_def by (rule ok_set_commands)
qed

lemma core_on_submit [simp]: "core (anticipate_on_submit env now prepared c q) = core q"
  by (simp add: anticipate_on_submit_def Let_def frame_set_anticipation)

lemma ok_save:
  assumes "queue_ok q" "mem q cid = None"
  shows "queue_ok (snd (enqueue_save env now params cid fileRefs prepared deps q))"
proof -
  define blocked where "blocked = filter (blocking deps q) (map dep_commandId (all_deps params prepared))"
  let ?c = "command_record env now params cid fileRefs prepared blocked"
  have "queue_ok (with_commands (cs_save ?c) q)"
    by (rule ok_save_command [OF assms(1)]) (simp_all add: command_record_def assms(2))
  moreover have "core (snd (enqueue_save env now params cid fileRefs prepared deps q)) = core (with_commands (cs_save ?c) q)"
    by (simp add: enqueue_save_def Let_def blocked_def)
  ultimately show ?thesis by (rule ok_frame [rotated])
qed

section \<open>Writes, initialisation and clearing\<close>

lemma keyed_saves: "keyed_by commandId (commands st) \<Longrightarrow> keyed_by commandId (commands (saveCommand c st))"
  by (simp add: saveCommand_def keyed_by_set)

lemma keyed_fold:
  "(\<And>x st. keyed_by commandId (commands st) \<Longrightarrow> keyed_by commandId (commands (f x st))) \<Longrightarrow>
    keyed_by commandId (commands st) \<Longrightarrow> keyed_by commandId (commands (fold f xs st))"
  by (induction xs arbitrary: st) simp_all

lemma ok_flush:
  assumes ok: "queue_ok q"
  shows "queue_ok (with_commands (cs_doFlush now) q)"
proof -
  let ?s = "commands_of q"
  let ?batch = "fst (flush_snapshot ?s)"
  have key: "keyed_by commandId (commands (q_storage q))" using ok by (simp add: queue_ok_iff)
  have "keyed_by commandId (commands (updateCommands now us st))"
    if "\<And>i u c. (i, u) \<in> set us \<Longrightarrow> commandId (u c) = i" "keyed_by commandId (commands st)" for us and st :: "commandBody inMemoryStorage"
    using that
  proof (induction us arbitrary: st)
    case (Cons iu us)
    obtain i u where iu: "iu = (i, u)" by (cases iu)
    have "keyed_by commandId (commands (updateCommand now i u st))"
      using Cons.prems iu by (auto simp: updateCommand_def intro!: keyed_by_set split: option.split)
    with Cons.IH [of "updateCommand now i u st"] Cons.prems(1) show ?case by (simp add: iu updateCommands_def)
  qed (simp add: updateCommands_def)
  moreover have "commandId (u c) = i" if "(i, u) \<in> set (fst ?batch)" for i u c
  proof -
    from that obtain d where d: "memory_get ?s i = Some d" "u = (\<lambda>_. d)" by (auto simp: flush_snapshot_def)
    then have "mem q i = Some d" by (simp add: mem_def commands_of_def memory_get_ops)
    with queue_okD(1) [OF ok] d show ?thesis by simp
  qed
  ultimately have "keyed_by commandId (commands (updateCommands now (fst ?batch) (q_storage q)))" using key by blast
  then have "keyed_by commandId (commands (fold deleteCommand (snd ?batch) (updateCommands now (fst ?batch) (q_storage q))))"
    by (rule keyed_fold [rotated]) (simp add: deleteCommand_def keyed_by_delete)
  moreover have "memory_ok (cs_doFlush now ?s)"
    using memory_ok_commands_of [OF ok]
    by (simp add: cs_doFlush_def flush_snapshot_def flush_write_def cs_inv_def)
  ultimately show ?thesis
    unfolding with_commands_def
    by (intro ok_set_commands) (simp_all add: cs_doFlush_def flush_write_def flush_snapshot_def)
qed

lemma set_by_seq: "set (js_sort by_seq cs) = set cs"
proof -
  have "js_sort by_seq cs = sort_key cmd_seq cs" by (rule js_sort_sort_key) (simp add: by_seq_def)
  then show ?thesis by simp
qed

lemma ok_load:
  assumes ok: "queue_ok q" and init: "cs_initialize (commands_of q) = Inr s" and ttl: "cs_ttlCache (q_commandStore q) = []"
  shows "queue_ok (set_commands s q)"
proof -
  let ?cs = "getCommandsByStatus (q_storage q) (Many in_memory_statuses)"
  have key: "keyed_by commandId (commands (q_storage q))" using ok by (simp add: queue_ok_iff)
  have st: "isInMemoryStatus (cmd_status c)" if "c \<in> set ?cs" for c
    using that by (auto simp: getCommandsByStatus_def getCommands_def no_filter_def filter_matches_def
        in_memory_statuses_def set_by_seq)
  have act: "cs_active s = fold (\<lambda>c. map_set (commandId c) c) ?cs (cs_active (q_commandStore q))"
    and rest: "cs_ttlCache s = []" "cs_storage s = q_storage q"
    using init ttl by (auto simp: cs_initialize_def commands_of_def split: if_splits)
  have "keyed_by commandId (fold (\<lambda>c. map_set (commandId c) c) cs m) \<and>
      (\<forall>i c. map_get (fold (\<lambda>c. map_set (commandId c) c) cs m) i = Some c \<longrightarrow> isInMemoryStatus (cmd_status c))"
    if "\<And>c. c \<in> set cs \<Longrightarrow> isInMemoryStatus (cmd_status c)"
      "keyed_by commandId m \<and> (\<forall>i c. map_get m i = Some c \<longrightarrow> isInMemoryStatus (cmd_status c))" for cs m
    using that
  proof (induction cs arbitrary: m)
    case (Cons c cs)
    then have "keyed_by commandId (map_set (commandId c) c m) \<and>
      (\<forall>i d. map_get (map_set (commandId c) c m) i = Some d \<longrightarrow> isInMemoryStatus (cmd_status d))"
      by (auto intro!: keyed_by_set split: if_splits)
    from Cons.IH [OF _ this] Cons.prems(1) show ?case by simp
  qed simp
  from this [OF st, of ?cs "cs_active (q_commandStore q)"] ok
  have "memory_ok s" by (simp add: act rest queue_ok_iff cs_inv_def)
  with key rest show ?thesis by (intro ok_set_commands) simp_all
qed

lemma ok_clear: "queue_ok q \<Longrightarrow> queue_ok (clearAll_settled q)"
proof -
  assume "queue_ok q"
  have "memory_ok (cs_deleteAll s)" "keyed_by commandId (commands (cs_storage (cs_deleteAll s)))" for s
    by (simp_all add: cs_deleteAll_def cs_inv_def deleteAllCommands_def delete_events_where_def storage_inv_new)
  then have "queue_ok (with_commands cs_deleteAll (q1\<lparr>q_files := []\<rparr>))" for q1
    unfolding with_commands_def by (rule ok_set_commands)
  then show ?thesis
    by (rule ok_frame [rotated])
      (simp add: clearAll_settled_def Let_def core_iff set_mappings_def ims_deleteAll_def mappings_of_def
        deleteAllCommandIdMappings_def)
qed

end
