(* ===== verification/QueueExamples.thy ===== *)
theory QueueExamples
  imports QueueSteps
begin

text \<open>
  Small queues on which the theorems about the command queue are applied.
\<close>

definition sample_env :: "unit queueEnv" where
  "sample_env = \<lparr>qe_executor = None, qe_schemaValidator = None, qe_queryManager = False, qe_sender = True,
    qe_onCommandResponse = False,
    qe_mapFailure = (\<lambda>r. \<lparr>desc_category = PermanentFailure, desc_errorCode = None, desc_validationErrors = None,
      desc_details = None\<rparr>),
    qe_retry = no_retryConfig, qe_defaultService = ''default'', qe_collections = [],
    qe_aggregates = \<lparr>ca_aggregates = [], ca_parseStreamId = (\<lambda>s. Inl s)\<rparr>,
    qe_anticipation = \<lparr>ae_matchesStream = (\<lambda>s. False), ae_processors = new_processorRegistry, ae_newEventId = (\<lambda>n. [])\<rparr>,
    qe_keys = \<lparr>ke_stringify = (\<lambda>v. []), ke_parse = (\<lambda>s. None), ke_uuidv5 = (\<lambda>s. s)\<rparr>,
    qe_newId = (\<lambda>n. replicate (Suc n) CHR ''x''), qe_storagePath = (\<lambda>c f. c @ f), qe_random = (\<lambda>n. 0)\<rparr>"

definition sample_body :: commandBody where
  "sample_body = \<lparr>cb_data = JObj [], cb_path = JUndef, cb_headers = JUndef, cb_lastAttemptAt = None, cb_error = None,
    cb_serverResponse = JUndef, cb_postProcess = JUndef, cb_creates = None, cb_revision = None, cb_fileRefs = None,
    cb_modelState = JUndef, cb_affectedAggregates = None, cb_commandIdPaths = None\<rparr>"

definition sample_command :: "string \<Rightarrow> commandStatus \<Rightarrow> (string \<times> dependencySource) list \<Rightarrow> int \<Rightarrow> command" where
  "sample_command i status deps n = \<lparr>commandId = i, cmd_cacheKey = ''k'', cmd_service = ''default'', cmd_type = ''T'',
    cmd_status = status, dependsOn = map (\<lambda>(d, s). \<lparr>dep_commandId = d, dep_source = s\<rparr>) deps,
    blockedBy = map fst deps, attempts = 0, cmd_seq = n, cmd_createdAt = 0, cmd_updatedAt = 0, cmd_body = sample_body\<rparr>"

definition empty_queue :: commandQueue where
  "empty_queue = new_commandQueue 60000 60000 new_storage (new_cacheManager None None None new_storage)"

definition queue_of :: "command list \<Rightarrow> commandQueue" where
  "queue_of cs = empty_queue\<lparr>q_commandStore :=
    (q_commandStore empty_queue)\<lparr>cs_active := map (\<lambda>c. (commandId c, c)) cs\<rparr>\<rparr>"

text \<open>\<open>p\<close> is pending; \<open>h\<close> refers to the entity it creates, and \<open>s\<close> follows both in their aggregates' chains.\<close>

definition sample_queue :: commandQueue where
  "sample_queue = queue_of
    [sample_command ''p'' Pending [] 1, sample_command ''h'' Blocked [(''p'', EntityRefSource)] 2,
     sample_command ''s'' Blocked [(''p'', AggregateChainSource), (''h'', AggregateChainSource)] 3]"

lemma queue_of_ok:
  assumes "distinct (map commandId cs)" "\<forall>c \<in> set cs. isInMemoryStatus (cmd_status c)"
  shows "queue_ok (queue_of cs)"
proof -
  have "keyed_by commandId (map (\<lambda>c. (commandId c, c)) cs)"
    using assms(1) by (auto simp: keyed_by_def map_wf_def comp_def)
  moreover have "isInMemoryStatus (cmd_status c)" if "map_get (map (\<lambda>c. (commandId c, c)) cs) i = Some c" for i c
    using assms(2) map_of_SomeD [OF that] by auto
  ultimately show ?thesis
    by (simp add: queue_ok_iff queue_of_def empty_queue_def new_commandQueue_def new_commandStore_def cs_inv_def
        storage_inv_new) (simp add: new_storage_def)
qed

lemma sample_queue_ok: "queue_ok sample_queue"
  unfolding sample_queue_def by (rule queue_of_ok) (simp_all add: sample_command_def)

end
