(* ===== verification/CommandDependencies.thy ===== *)
theory CommandDependencies
  imports QueueExamples
begin

text \<open>
  Which commands a submitted command depends on: the three sources of dependencies and their precedence, the
  last command on each aggregate it affects, and which dependencies block it.
\<close>

section \<open>Merging the sources\<close>

definition listed :: "string list \<Rightarrow> (string \<Rightarrow> dependencySource) \<Rightarrow> commandDependency list" where
  "listed ids f = map (\<lambda>i. \<lparr>dep_commandId = i, dep_source = f i\<rparr>) ids"

lemma listed_cong: "(\<And>i. i \<in> set ids \<Longrightarrow> f i = g i) \<Longrightarrow> listed ids f = listed ids g"
  by (simp add: listed_def)

lemma upsert_listed:
  "upsert_dependency s c (listed ids f) =
    listed (set_add c ids) (f(c := if c \<in> set ids \<and> \<not> rankSource (f c) < rankSource s then f c else s))"
  by (auto simp: upsert_dependency_def listed_def set_add_def comp_def)

lemma upserts_listed:
  "fold (upsert_dependency s) cs (listed ids f) = listed (fold set_add cs ids)
    (\<lambda>i. if i \<in> set cs \<and> \<not> (i \<in> set ids \<and> \<not> rankSource (f i) < rankSource s) then s else f i)"
proof (induction cs arbitrary: ids f)
  case (Cons c cs)
  have "listed (fold set_add cs (set_add c ids)) (\<lambda>i. if i \<in> set cs \<and> \<not> (i \<in> set (set_add c ids) \<and>
      \<not> rankSource ((f(c := if c \<in> set ids \<and> \<not> rankSource (f c) < rankSource s then f c else s)) i) < rankSource s)
      then s else (f(c := if c \<in> set ids \<and> \<not> rankSource (f c) < rankSource s then f c else s)) i) =
    listed (fold set_add cs (set_add c ids))
      (\<lambda>i. if i \<in> set (c # cs) \<and> \<not> (i \<in> set ids \<and> \<not> rankSource (f i) < rankSource s) then s else f i)"
    by (rule listed_cong) auto
  then show ?case by (simp add: upsert_listed Cons)
qed (simp add: listed_def)

text \<open>
  C29: The dependencies of a command.  Each command id named explicitly, by an aggregate's chain or by an
  entity reference is listed once, in the order of first mention; its source is the reference if there
  is one, else the explicit mention, else the chain.
\<close>
theorem dependency_sources:
  "buildCommandDependencies explicitDeps autoDeps refs =
    map (\<lambda>i. \<lparr>dep_commandId = i, dep_source =
        (if i \<in> set refs then EntityRefSource else if i \<in> set explicitDeps then ExplicitSource else AggregateChainSource)\<rparr>)
      (set_of_list (explicitDeps @ autoDeps @ refs))"
proof -
  let ?nil = "\<lambda>i::string. AggregateChainSource"
  have "buildCommandDependencies explicitDeps autoDeps refs =
    fold (upsert_dependency EntityRefSource) refs (fold (upsert_dependency AggregateChainSource) autoDeps
      (fold (upsert_dependency ExplicitSource) explicitDeps (listed [] ?nil)))"
    by (simp add: buildCommandDependencies_def listed_def)
  also have "\<dots> = listed (fold set_add refs (fold set_add autoDeps (fold set_add explicitDeps [])))
      (\<lambda>i. if i \<in> set refs then EntityRefSource else if i \<in> set explicitDeps then ExplicitSource else AggregateChainSource)"
    unfolding upserts_listed by (rule listed_cong) (auto simp: set_fold_set_add)
  finally show ?thesis by (simp add: listed_def set_of_list_def)
qed

section \<open>The chains of the affected aggregates\<close>

definition latest_on :: "chainRegistry \<Rightarrow> string \<Rightarrow> string option" where
  "latest_on r s = Option.bind (registry_get r s) (\<lambda>a. latestCommandId (chain_at r a))"

text \<open>What one aggregate does to the registry.\<close>

definition enters :: "string \<Rightarrow> string \<Rightarrow> chainRegistry \<Rightarrow> chainRegistry \<Rightarrow> bool" where
  "enters cid s r r' \<longleftrightarrow> registry_inv r' \<and> (\<exists>a. registry_get r' s = Some a \<and> latestCommandId (chain_at r' a) = Some cid \<and>
    (registry_get r s = Some a \<or> registry_get r s = None \<and> length (chainHeap r) \<le> a) \<and>
    (\<forall>t. t \<noteq> s \<longrightarrow> registry_get r' t = registry_get r t) \<and>
    (\<forall>b. b \<noteq> a \<and> b < length (chainHeap r) \<longrightarrow> chain_at r' b = chain_at r b))"

lemma enters_write:
  assumes inv: "registry_inv r" and a: "registry_get r s = Some a"
    and f: "\<And>c. clientStreamId (f c) = clientStreamId c \<and> serverStreamId (f c) = serverStreamId c \<and> latestCommandId (f c) = Some cid"
  shows "enters cid s r (chain_write a f r)"
proof -
  have "a < length (chainHeap r)" using registry_invD(2) [OF inv] a by (simp add: registry_get_def)
  then show ?thesis
    using write_inv [OF inv, of "f (chain_at r a)" a] f a
    by (auto simp: enters_def chain_write_def registry_get_def)
qed

lemma enters_create:
  assumes inv: "registry_inv r" and none: "registry_get r s = None"
    and ids: "(clientStreamId init = Some s \<and> serverStreamId init = None) \<or> (clientStreamId init = None \<and> serverStreamId init = Some s)"
    and l: "latestCommandId init = Some cid"
  shows "\<exists>a r'. registry_create init r = Inr (a, r') \<and> enters cid s r r'"
proof -
  have "\<exists>a r'. registry_create init r = Inr (a, r')"
    using ids none by (auto simp: registry_create_def bound_opt_def map_has_def registry_get_def Let_def)
  then obtain a r' where c: "registry_create init r = Inr (a, r')" by blast
  then have r': "a = length (chainHeap r)" "chainHeap r' = chainHeap r @ [init]" "byStreamId r' = map_set s a (byStreamId r)"
    using ids by (auto simp: registry_create_def bind_opt_def Let_def split: if_splits)
  have "enters cid s r r'"
    using create_inv [OF inv c] none l by (auto simp: enters_def registry_get_def r' nth_append)
  with c show ?thesis by blast
qed

lemma detect_one_spec:
  assumes inv: "registry_inv r"
  shows "\<exists>r'. detect_one cid creates created aff (deps, r) =
      (None, (deps @ (case latest_on r (aff_streamId aff) of Some d \<Rightarrow> [d] | None \<Rightarrow> []), r'))
    \<and> enters cid (aff_streamId aff) r r'"
proof (cases "registry_get r (aff_streamId aff)")
  case (Some a)
  then show ?thesis
    by (auto simp: detect_one_def latest_on_def Let_def intro!: enters_write [OF inv] split: option.split)
next
  case None
  note e = enters_create [OF inv None]
  show ?thesis
  proof (cases creates)
    case no: None
    obtain a r' where "registry_create (empty_chain\<lparr>serverStreamId := Some (aff_streamId aff), latestCommandId := Some cid\<rparr>) r =
        Inr (a, r')" "enters cid (aff_streamId aff) r r'"
      using e [of "empty_chain\<lparr>serverStreamId := Some (aff_streamId aff), latestCommandId := Some cid\<rparr>" cid]
      by (auto simp: empty_chain_def)
    then show ?thesis using None no by (simp add: detect_one_def latest_on_def Let_def)
  next
    case (Some config)
    define init where "init = (if Some (aff_streamId aff) = created \<and> creates_idStrategy config = Temporary
      then empty_chain\<lparr>clientStreamId := Some (aff_streamId aff), createCommandId := Some cid,
             createdEntityId := row_key (js_member (aff_link aff) ''id''), latestCommandId := Some cid\<rparr>
      else empty_chain\<lparr>serverStreamId := Some (aff_streamId aff), latestCommandId := Some cid\<rparr>)"
    obtain a r' where "registry_create init r = Inr (a, r')" "enters cid (aff_streamId aff) r r'"
    proof (rule exE [OF e [of init cid]])
      show "latestCommandId init = Some cid"
        "clientStreamId init = Some (aff_streamId aff) \<and> serverStreamId init = None \<or>
         clientStreamId init = None \<and> serverStreamId init = Some (aff_streamId aff)"
        by (cases "Some (aff_streamId aff) = created \<and> creates_idStrategy config = Temporary";
          simp add: init_def empty_chain_def)+
    qed blast
    then show ?thesis using None Some
      by (cases "Some (aff_streamId aff) = created"; cases "creates_idStrategy config = Temporary")
        (simp_all add: detect_one_def latest_on_def Let_def init_def)
  qed
qed

lemma detect_all:
  assumes "registry_inv r" "distinct (map aff_streamId affs)"
    and "\<And>s t a. s \<in> set (map aff_streamId affs) \<Longrightarrow> t \<in> set (map aff_streamId affs) \<Longrightarrow> s \<noteq> t \<Longrightarrow>
      registry_get r s = Some a \<Longrightarrow> registry_get r t \<noteq> Some a"
  shows "\<exists>r'. run_all (detect_one cid creates created) affs (deps, r) =
      (None, (deps @ List.map_filter (latest_on r) (map aff_streamId affs), r')) \<and> registry_inv r'
    \<and> (\<forall>s \<in> set (map aff_streamId affs). latest_on r' s = Some cid)
    \<and> (\<forall>s a. registry_get r s = Some a \<and> (\<forall>t \<in> set (map aff_streamId affs). registry_get r t \<noteq> Some a) \<longrightarrow>
        latest_on r' s = latest_on r s)"
  using assms
proof (induction affs arbitrary: deps r)
  case (Cons aff affs)
  let ?s = "aff_streamId aff"
  obtain r1 where one: "detect_one cid creates created aff (deps, r) =
      (None, (deps @ (case latest_on r ?s of Some d \<Rightarrow> [d] | None \<Rightarrow> []), r1))" and e: "enters cid ?s r r1"
    using detect_one_spec [OF Cons.prems(1), of cid creates created aff deps] by blast
  obtain a where a: "registry_get r1 ?s = Some a" "latestCommandId (chain_at r1 a) = Some cid"
      "registry_get r ?s = Some a \<or> registry_get r ?s = None \<and> length (chainHeap r) \<le> a"
      "\<And>t. t \<noteq> ?s \<Longrightarrow> registry_get r1 t = registry_get r t"
      "\<And>b. b \<noteq> a \<Longrightarrow> b < length (chainHeap r) \<Longrightarrow> chain_at r1 b = chain_at r b" and inv1: "registry_inv r1"
    using e unfolding enters_def by blast
  have bound: "registry_get r t = Some b \<Longrightarrow> b < length (chainHeap r)" for t b
    using registry_invD(2) [OF Cons.prems(1)] by (simp add: registry_get_def)
  have ne: "?s \<notin> set (map aff_streamId affs)" using Cons.prems(2) by simp
  have not_a: "registry_get r t \<noteq> Some a" if "t \<in> set (map aff_streamId affs)" for t
  proof
    assume t: "registry_get r t = Some a"
    then have "registry_get r ?s = Some a" using a(3) bound by fastforce
    moreover have "t \<noteq> ?s" using that ne by blast
    ultimately show False using Cons.prems(3) [of ?s t a] that t by simp
  qed
  have keep: "latest_on r1 t = latest_on r t" if "t \<noteq> ?s" "registry_get r t \<noteq> Some a" for t
    using that a(4) [of t] a(5) bound [of t] by (auto simp: latest_on_def split: Option.bind_split)
  have ih: "\<exists>r'. run_all (detect_one cid creates created) affs (deps', r1) =
      (None, (deps' @ List.map_filter (latest_on r1) (map aff_streamId affs), r')) \<and> registry_inv r'
    \<and> (\<forall>s \<in> set (map aff_streamId affs). latest_on r' s = Some cid)
    \<and> (\<forall>s a. registry_get r1 s = Some a \<and> (\<forall>t \<in> set (map aff_streamId affs). registry_get r1 t \<noteq> Some a) \<longrightarrow>
        latest_on r' s = latest_on r1 s)" for deps'
  proof (rule Cons.IH [OF inv1])
    show "distinct (map aff_streamId affs)" using Cons.prems(2) by simp
    show "registry_get r1 t \<noteq> Some b" if "s \<in> set (map aff_streamId affs)" "t \<in> set (map aff_streamId affs)" "s \<noteq> t"
        "registry_get r1 s = Some b" for s t b
    proof -
      have "s \<noteq> ?s" using that(1) ne by blast
      moreover have "t \<noteq> ?s" using that(2) ne by blast
      ultimately have "registry_get r1 s = registry_get r s" "registry_get r1 t = registry_get r t" by (simp_all add: a(4))
      then show ?thesis using Cons.prems(3) [of s t b] that by simp
    qed
  qed
  then obtain r' where r': "run_all (detect_one cid creates created) affs
        (deps @ (case latest_on r ?s of Some d \<Rightarrow> [d] | None \<Rightarrow> []), r1) =
      (None, ((deps @ (case latest_on r ?s of Some d \<Rightarrow> [d] | None \<Rightarrow> [])) @
        List.map_filter (latest_on r1) (map aff_streamId affs), r'))" and inv': "registry_inv r'"
    and on: "\<And>s. s \<in> set (map aff_streamId affs) \<Longrightarrow> latest_on r' s = Some cid"
    and off: "\<And>s a. registry_get r1 s = Some a \<Longrightarrow> (\<forall>t \<in> set (map aff_streamId affs). registry_get r1 t \<noteq> Some a) \<Longrightarrow>
        latest_on r' s = latest_on r1 s"
    by blast
  have mf: "List.map_filter (latest_on r1) (map aff_streamId affs) = List.map_filter (latest_on r) (map aff_streamId affs)"
  proof -
    have eq: "latest_on r1 t = latest_on r t" if "t \<in> set (map aff_streamId affs)" for t
      using that ne not_a [OF that] by (intro keep) blast+
    have "List.map_filter (latest_on r1) ts = List.map_filter (latest_on r) ts"
      if "set ts \<subseteq> set (map aff_streamId affs)" for ts
      using that by (induction ts) (simp_all add: List.map_filter_simps eq del: set_map split: option.split)
    then show ?thesis by blast
  qed
  have "latest_on r' ?s = Some cid"
  proof -
    have "registry_get r1 t \<noteq> Some a" if "t \<in> set (map aff_streamId affs)" for t
    proof -
      have "t \<noteq> ?s" using that ne by blast
      then show ?thesis using not_a [OF that] a(4) by simp
    qed
    then have "latest_on r' ?s = latest_on r1 ?s" using off [OF a(1)] by blast
    then show ?thesis using a(1,2) by (simp add: latest_on_def)
  qed
  moreover have "latest_on r' s = latest_on r s"
    if "registry_get r s = Some b" and off_b: "\<forall>t \<in> set (map aff_streamId (aff # affs)). registry_get r t \<noteq> Some b" for s b
  proof -
    have s: "s \<noteq> ?s" "b \<noteq> a" using that a(3) bound [OF that(1)] by auto
    have "registry_get r1 t \<noteq> Some b" if t: "t \<in> set (map aff_streamId affs)" for t
    proof -
      have "t \<noteq> ?s" using t ne by blast
      then show ?thesis using a(4) [of t] t off_b by (metis list.set_intros(2) list.simps(9))
    qed
    then have "latest_on r' s = latest_on r1 s" using off [of s b] a(4) [OF s(1)] that(1) by simp
    then show ?thesis using keep [OF s(1)] s that(1) by simp
  qed
  ultimately show ?case
    using r' inv' on by (auto simp: one and_then_def mf List.map_filter_simps split: option.split)
qed (simp add: List.map_filter_simps)

lemma derive_streams:
  assumes "derive_affected aggs events streams affs = Inr affs'" "streams = map aff_streamId affs"
  shows "map aff_streamId affs' = fold set_add (map an_streamId events) (map aff_streamId affs)"
  using assms
proof (induction events arbitrary: streams affs)
  case (Cons e es)
  show ?case
  proof (cases "an_streamId e \<in> set streams")
    case True
    then show ?thesis using Cons.prems Cons.IH [of streams affs] by (simp add: set_add_def)
  next
    case False
    then obtain aff where "derive_affected aggs es (set_add (an_streamId e) streams) (affs @ [aff]) = Inr affs'"
        "aff_streamId aff = an_streamId e"
      using Cons.prems by (auto simp: bind_result_Inr)
    from Cons.IH [OF this(1)] this(2) False Cons.prems(2) show ?thesis by (simp add: set_add_def)
  qed
qed simp

text \<open>
  C7: A command enters the chain of every aggregate it affects.  For the aggregates derived from its
  anticipated events, when no two of their streams are the two names of one chain, the detection never
  throws; it names the latest command of each stream that has one, in the order of the streams; afterwards
  the command is the latest on all of them, no chain without an affected stream has changed its latest command,
  and the registry's two indexes still agree.
\<close>
theorem aggregate_dependencies:
  assumes "registry_inv r" and "deriveAffectedAggregates aggs events = Inr affs"
    and "\<And>s t a. s \<in> set (map an_streamId events) \<Longrightarrow> t \<in> set (map an_streamId events) \<Longrightarrow> s \<noteq> t \<Longrightarrow>
      registry_get r s = Some a \<Longrightarrow> registry_get r t \<noteq> Some a"
  shows "\<exists>r'. detectAggregateDependencies cid affs events creates r =
      (None, (List.map_filter (latest_on r) (set_of_list (map an_streamId events)), r')) \<and> registry_inv r'
    \<and> (\<forall>s \<in> set (map an_streamId events). latest_on r' s = Some cid)
    \<and> (\<forall>s a. registry_get r s = Some a \<and> (\<forall>t \<in> set (map an_streamId events). registry_get r t \<noteq> Some a) \<longrightarrow>
        latest_on r' s = latest_on r s)"
proof -
  have streams: "map aff_streamId affs = set_of_list (map an_streamId events)"
    using derive_streams [OF assms(2) [unfolded deriveAffectedAggregates_def]] by (simp add: set_of_list_def)
  have ids: "set (map aff_streamId affs) = set (map an_streamId events)" by (simp only: streams set_set_of_list)
  have d: "distinct (map aff_streamId affs)" by (simp only: streams distinct_set_of_list)
  show ?thesis
    using detect_all [OF assms(1) d, unfolded ids, OF assms(3),
      where cid = cid and creates = creates and created = "created_stream creates events" and deps = "[]"]
    unfolding detectAggregateDependencies_def streams by simp
qed

definition sample_renamed :: "string \<Rightarrow> anticipatedEvent" where
  "sample_renamed s = \<lparr>an_type = ''Renamed'', an_streamId = s, an_data = JObj [], an_metadata = None\<rparr>"

definition sample_chains :: chainRegistry where
  "sample_chains = \<lparr>chainHeap = [empty_chain\<lparr>serverStreamId := Some ''s1'', latestCommandId := Some ''p''\<rparr>],
    byStreamId = [(''s1'', 0)]\<rparr>"

lemma sample_chains_inv: "registry_inv sample_chains"
  by (rule registry_invI) (auto simp: sample_chains_def empty_chain_def chain_ids_def map_wf_def split: if_splits)

lemma sample_chains_get: "registry_get sample_chains s = (if s = ''s1'' then Some 0 else None)"
  by (simp add: registry_get_def sample_chains_def)

theorem aggregate_dependencies_witness:
  "\<exists>r'. detectAggregateDependencies ''c''
      [\<lparr>aff_streamId = ''s1'', aff_link = JObj [(''id'', JUndef)]\<rparr>, \<lparr>aff_streamId = ''s2'', aff_link = JObj [(''id'', JUndef)]\<rparr>]
      [sample_renamed ''s1'', sample_renamed ''s2'', sample_renamed ''s1''] None sample_chains =
      (None, ([''p''], r')) \<and> latest_on r' ''s1'' = Some ''c'' \<and> latest_on r' ''s2'' = Some ''c''"
proof -
  let ?events = "[sample_renamed ''s1'', sample_renamed ''s2'', sample_renamed ''s1'']"
  let ?affs = "[\<lparr>aff_streamId = ''s1'', aff_link = JObj [(''id'', JUndef)]\<rparr>, \<lparr>aff_streamId = ''s2'', aff_link = JObj [(''id'', JUndef)]\<rparr>]"
  have derived: "deriveAffectedAggregates \<lparr>ca_aggregates = [], ca_parseStreamId = (\<lambda>s. Inr (JObj []))\<rparr> ?events = Inr ?affs"
    by code_simp
  have sep: "registry_get sample_chains t \<noteq> Some a" if "registry_get sample_chains s = Some a" "s \<noteq> t" for s t a
    using that by (auto simp: sample_chains_get split: if_splits)
  from aggregate_dependencies [OF sample_chains_inv derived, where cid = "''c''" and creates = None]
  have "\<exists>r'. detectAggregateDependencies ''c'' ?affs ?events None sample_chains =
      (None, (List.map_filter (latest_on sample_chains) (set_of_list (map an_streamId ?events)), r'))
    \<and> (\<forall>s \<in> set (map an_streamId ?events). latest_on r' s = Some ''c'')"
    using sep by blast
  moreover have "List.map_filter (latest_on sample_chains) (set_of_list (map an_streamId ?events)) = [''p'']"
    by code_simp
  ultimately show ?thesis by (auto simp: sample_renamed_def)
qed

section \<open>What blocks a new command\<close>

definition found :: "commandQueue \<Rightarrow> string \<Rightarrow> command option" where
  "found q i = (case mem q i of Some c \<Rightarrow> Some c | None \<Rightarrow> getCommand (q_storage q) i)"

lemma collect_map:
  assumes "collect_ids now ids result need s = (result', need', s')"
  shows "memory_get s' i = memory_get s i
    \<and> map_get result' i = (if i \<in> set ids \<and> memory_get s i \<noteq> None then memory_get s i else map_get result i)
    \<and> (i \<in> set need' \<longleftrightarrow> i \<in> set need \<or> i \<in> set ids \<and> memory_get s i = None)"
  using assms
proof (induction ids arbitrary: result need s)
  case (Cons j ids)
  show ?case
  proof (cases "map_get (cs_active s) j")
    case None
    note a = None
    show ?thesis
    proof (cases "map_get (cs_ttlCache s) j")
      case None
      with a have "memory_get s j = None" by (simp add: memory_get_def)
      with a None Cons.prems Cons.IH [of result "need @ [j]" s] show ?thesis by auto
    next
      case (Some e)
      with a have j: "memory_get s j = Some (ttl_command e)" by (simp add: memory_get_def)
      have m: "memory_get (refresh_ttl now j e s) k = memory_get s k" for k
        using a Some by (auto simp: memory_get_def refresh_ttl_def split: option.split)
      show ?thesis
        using a Some Cons.prems Cons.IH [of "map_set j (ttl_command e) result" need "refresh_ttl now j e s"] j
        by (auto simp: m)
    qed
  next
    case (Some c)
    then have "memory_get s j = Some c" by (simp add: memory_get_def)
    with Some Cons.prems Cons.IH [of "map_set j c result" need s] show ?thesis by auto
  qed
qed simp

lemma found_by_ids: "map_get (getCommandsByIds st ids) i = (if i \<in> set ids then getCommand st i else None)"
proof -
  have "map_get (fold (\<lambda>i m. case map_get (commands st) i of Some c \<Rightarrow> map_set i c m | None \<Rightarrow> m) ids m) i =
      (if i \<in> set ids \<and> getCommand st i \<noteq> None then getCommand st i else map_get m i)" for m
    by (induction ids arbitrary: m) (auto simp: getCommand_def split: option.split)
  then show ?thesis by (auto simp: getCommandsByIds_def)
qed

lemma wf_by_ids: "map_wf (getCommandsByIds st ids)"
proof -
  have "map_wf m \<Longrightarrow> map_wf (fold (\<lambda>i m. case map_get (commands st) i of Some c \<Rightarrow> map_set i c m | None \<Rightarrow> m) ids m)" for m
    by (induction ids arbitrary: m) (auto split: option.split intro: wf_intros)
  then show ?thesis by (simp add: getCommandsByIds_def)
qed

lemma load_map:
  assumes "distinct (map fst es)" "\<And>i c. (i, c) \<in> set es \<Longrightarrow> commandId c = i \<and> memory_get (snd ms) i = None"
  shows "map_get (fst (fold (load_one now) es ms)) i = (case map_of es i of Some c \<Rightarrow> Some c | None \<Rightarrow> map_get (fst ms) i)
    \<and> memory_get (snd (fold (load_one now) es ms)) i =
      (case map_of es i of Some c \<Rightarrow> if isTerminalStatus (cmd_status c) then Some c else None | None \<Rightarrow> memory_get (snd ms) i)"
  using assms
proof (induction es arbitrary: ms)
  case (Cons e es)
  obtain j c where e: "fst e = j" "snd e = c" "e = (j, c)" by (cases e) auto
  have j: "commandId c = j" "memory_get (snd ms) j = None" using Cons.prems(2) [of j c] e by auto
  then have act: "map_get (cs_active (snd ms)) j = None" by (auto simp: memory_get_def split: option.splits)
  have one: "fst (load_one now e ms) = map_set j c (fst ms)"
    "memory_get (snd (load_one now e ms)) k =
      (if k = j \<and> isTerminalStatus (cmd_status c) then Some c else memory_get (snd ms) k)" for k
    using act j by (cases ms; auto simp: load_one_def e(3) addToTtlCache_def memory_get_def split: option.splits)+
  have "map_get (fst (fold (load_one now) es (load_one now e ms))) i =
      (case map_of es i of Some c \<Rightarrow> Some c | None \<Rightarrow> map_get (fst (load_one now e ms)) i)
    \<and> memory_get (snd (fold (load_one now) es (load_one now e ms))) i =
      (case map_of es i of Some c \<Rightarrow> if isTerminalStatus (cmd_status c) then Some c else None
       | None \<Rightarrow> memory_get (snd (load_one now e ms)) i)"
  proof (rule Cons.IH)
    show "distinct (map fst es)" using Cons.prems(1) by simp
    show "commandId d = k \<and> memory_get (snd (load_one now e ms)) k = None" if "(k, d) \<in> set es" for k d
    proof -
      have "k \<noteq> j" using Cons.prems(1) that e by (auto intro: rev_image_eqI)
      then show ?thesis using Cons.prems(2) [of k d] that by (simp add: one)
    qed
  qed
  moreover have "map_of es j = None" using Cons.prems(1) e by (auto simp: map_of_eq_None_iff)
  ultimately show ?case using j by (simp add: e(1,2) one split: option.splits)
qed simp

lemma lookup_spec:
  assumes ok: "queue_ok q" and run: "enqueue_lookup now params prepared q = (deps, q')"
  shows "map_get deps i = (if i \<in> set (map dep_commandId (all_deps params prepared)) then found q i else None)"
    and "mem q' i = mem q i \<or> mem q i = None \<and> found q i = mem q' i"
    and "mem q i = None \<Longrightarrow> mem q' i = Some c \<Longrightarrow> isTerminalStatus (cmd_status c)"
    and "q_storage q' = q_storage q"
proof -
  let ?ids = "map dep_commandId (all_deps params prepared)"
  obtain result need s1 where c: "collect_ids now ?ids [] [] (commands_of q) = (result, need, s1)" by (metis surj_pair)
  have mq: "memory_get (commands_of q) k = mem q k" for k by (simp add: mem_def commands_of_def memory_get_ops)
  note cm = collect_map [OF c, unfolded mq]
  note ck = collect_keeps [OF memory_ok_commands_of [OF ok] c]
  have key: "keyed_by commandId (commands (q_storage q))" using ok by (simp add: queue_ok_iff)
  let ?es = "getCommandsByIds (cs_storage s1) need"
  let ?r = "fold (load_one now) ?es (result, s1)"
  have st: "cs_storage s1 = q_storage q" using ck by simp
  have "getCommandsByIds st' [] = []" for st' :: "commandBody inMemoryStorage" by (simp add: getCommandsByIds_def)
  then have "cs_getByIds now ?ids (commands_of q) = ?r"
    by (cases "need = []") (simp_all add: cs_getByIds_def c load_one_def)
  then have run': "deps = fst ?r" "q' = set_commands (snd ?r) q"
    using run by (auto simp: enqueue_lookup_def split: prod.splits)
  have keyed: "commandId d = k \<and> memory_get (snd (result, s1)) k = None" if "(k, d) \<in> set ?es" for k d
    using loaded_keyed [OF key, of k d need] that cm [of k] by (auto simp: st)
  have es: "map_of ?es k = (if k \<in> set ?ids \<and> mem q k = None then getCommand (q_storage q) k else None)" for k
    unfolding found_by_ids using cm [of k] by (auto simp: st)
  have d: "distinct (map fst ?es)" using wf_by_ids by (simp add: map_wf_def)
  note lm = load_map [OF d keyed, of now]
  show "map_get deps i = (if i \<in> set ?ids then found q i else None)"
    using lm [of i] cm [of i] by (auto simp: run' es found_def split: option.splits)
  have m': "mem q' k = memory_get (snd ?r) k" for k by (simp add: run'(2) mem_def)
  show "mem q' i = mem q i \<or> mem q i = None \<and> found q i = mem q' i"
    using lm [of i] cm [of i] by (auto simp: m' es found_def split: option.splits if_splits)
  show "mem q i = None \<Longrightarrow> mem q' i = Some c \<Longrightarrow> isTerminalStatus (cmd_status c)"
    using lm [of i] cm [of i] by (auto simp: m' es split: option.splits if_splits)
  have "commandId c = i \<and> map_get (cs_active (snd (result, s1))) i = None" if "(i, c) \<in> set ?es" for i c
    using loaded_keyed [OF key, of i c need] that ck by (auto simp: st)
  then have "cs_storage (snd ?r) = q_storage q"
    using load_keeps [of "(result, s1)" ?es now] ck by (simp add: st)
  then show "q_storage q' = q_storage q" by (simp add: run')
qed

text \<open>The whole of a submission, when nothing comes between its stretches.\<close>

lemma enqueue_run:
  assumes "enqueue env now params q = (Inr (Accepted success), q')"
  obtains cid fileRefs prepared q1 deps q2 where "core q1 = core q"
    "enqueue_lookup now params prepared q1 = (deps, q2)"
    "enqueue_save env now params cid fileRefs prepared deps q2 = (success, q')"
proof -
  obtain r q1 where p: "enqueue_prepare env params q = (r, q1)" by (metis surj_pair)
  have c: "core q1 = core q" using core_prepare [of env params q] by (simp add: p)
  from assms p obtain x where r: "r = Inr (Accepted x)"
    by (cases r; cases "projr r") (auto simp: enqueue_def split: submitted.splits)
  obtain cid fileRefs prepared where x: "x = (cid, fileRefs, prepared)" by (cases x)
  obtain deps q2 where l: "enqueue_lookup now params prepared q1 = (deps, q2)" by (metis surj_pair)
  show ?thesis
    by (rule that [OF c l, of cid fileRefs]) (use assms p r x l in \<open>auto simp: enqueue_def split: prod.splits\<close>)
qed

text \<open>
  C6: What blocks a new command.  When nothing else happens between the stretches of a submission that is
  accepted under a new id, the command is in play and in storage;
  it is blocked by exactly those of its dependencies that the queue knows and that are not finished, in the order
  of the dependencies; it is pending, and the loop has been asked to run unless it is paused, when there
  are none, and blocked otherwise; and the other commands are unchanged, but for finished dependencies that
  the look-up has cached.
\<close>
theorem enqueue_blocks:
  assumes ok: "queue_ok q" and run: "enqueue env now params q = (Inr (Accepted success), q')"
    and new: "found q (es_commandId success) = None"
  shows "\<exists>c. active q' (es_commandId success) = Some c \<and> getCommand (q_storage q') (es_commandId success) = Some c
    \<and> blockedBy c = filter (\<lambda>i. \<exists>d. found q i = Some d \<and> \<not> isTerminalStatus (cmd_status d)) (map dep_commandId (dependsOn c))
    \<and> cmd_status c = (if blockedBy c = [] then Pending else Blocked)
    \<and> (blockedBy c = [] \<longrightarrow> q_paused q' \<or> q_processing q')
    \<and> (\<forall>i d. i \<noteq> es_commandId success \<longrightarrow> mem q i = Some d \<longrightarrow> mem q' i = Some d)
    \<and> (\<forall>i d. i \<noteq> es_commandId success \<longrightarrow> mem q i = None \<longrightarrow> mem q' i = Some d \<longrightarrow> found q i = Some d \<and> isTerminalStatus (cmd_status d))"
proof -
  obtain cid fileRefs prepared q1 deps q2 where c1: "core q1 = core q"
    and l: "enqueue_lookup now params prepared q1 = (deps, q2)"
    and sv: "enqueue_save env now params cid fileRefs prepared deps q2 = (success, q')"
    by (rule enqueue_run [OF run])
  have ok1: "queue_ok q1" using ok view_cong(3) [OF c1] by simp
  have m1: "mem q1 = mem q" "found q1 i = found q i" for i
    using c1 by (simp_all add: view_cong [OF c1] found_def getCommand_def core_iff split: option.split)
  have id: "es_commandId success = cid" using sv by (auto simp: enqueue_save_def Let_def split: if_splits)
  note lk = lookup_spec [OF ok1 l, unfolded m1]
  have fid: "found q i = Some d \<Longrightarrow> commandId d = i" for i d
    using queue_okD(1) [OF ok, of i] ok by (auto simp: found_def queue_ok_iff getCommand_def keyed_by_iff split: option.splits)
  let ?ids = "map dep_commandId (all_deps params prepared)"
  have blk: "blocking deps q2 i \<longleftrightarrow> (\<exists>d. found q i = Some d \<and> \<not> isTerminalStatus (cmd_status d))" if "i \<in> set ?ids" for i
  proof (cases "found q i")
    case None
    with lk(1) [of i] show ?thesis by (simp add: blocking_def)
  next
    case (Some d)
    have "live_cmd q2 d = d"
      using lk(2) [of i] Some fid [OF Some] live_mem [of q2 d] by (cases "mem q2 i") (auto simp: found_def split: option.splits)
    with Some lk(1) [of i] that show ?thesis by (simp add: blocking_def)
  qed
  define blocked where "blocked = filter (blocking deps q2) ?ids"
  have b: "blocked = filter (\<lambda>i. \<exists>d. found q i = Some d \<and> \<not> isTerminalStatus (cmd_status d)) ?ids"
    unfolding blocked_def by (rule filter_cong) (use blk in auto)
  let ?c = "command_record env now params cid fileRefs prepared blocked"
  let ?q3 = "with_commands (cs_save ?c) q2"
  let ?r = "?c\<lparr>cmd_seq := cs_nextSeq (q_commandStore q2)\<rparr>"
  have c': "core q' = core ?q3"
    using sv by (auto simp: enqueue_save_def Let_def blocked_def split: if_splits)
  have act: "active ?q3 i = (if i = cid then Some ?r else active q2 i)" for i
    by (simp add: active_def with_commands_def cs_save_def commands_of_def command_record_def Let_def)
  have memq: "mem ?q3 i = (if i = cid then Some ?r else mem q2 i)" for i
    by (simp add: mem_def memory_get_def with_commands_def cs_save_def commands_of_def command_record_def Let_def
        split: option.split)
  have sto: "getCommand (q_storage ?q3) cid = Some ?r"
    by (simp add: with_commands_def cs_save_def commands_of_def command_record_def Let_def getCommand_def saveCommand_def)
  have go: "blocked = [] \<longrightarrow> q_paused q' \<or> q_processing q'"
    using sv by (auto simp: enqueue_save_def Let_def blocked_def processPendingCommands_def split: if_splits)
  have a1: "getCommand (q_storage q') cid = Some ?r" using sto c' by (simp add: core_iff getCommand_def)
  have a2: "active q' cid = Some ?r" by (simp add: view_cong [OF c'] act)
  have a3: "blockedBy ?r = filter (\<lambda>i. \<exists>d. found q i = Some d \<and> \<not> isTerminalStatus (cmd_status d)) (map dep_commandId (dependsOn ?r))"
    "cmd_status ?r = (if blockedBy ?r = [] then Pending else Blocked)" "blockedBy ?r = blocked"
    by (simp_all add: command_record_def b [symmetric])
  have a4: "mem q' i = Some d" if "i \<noteq> cid" "mem q i = Some d" for i d
    using that lk(2) [of i] by (auto simp: view_cong [OF c'] memq)
  have a5: "found q i = Some d \<and> isTerminalStatus (cmd_status d)" if "i \<noteq> cid" "mem q i = None" "mem q' i = Some d" for i d
    using that lk(2,3) [of i] by (auto simp: view_cong [OF c'] memq)
  have "\<forall>i d. i \<noteq> cid \<longrightarrow> mem q i = Some d \<longrightarrow> mem q' i = Some d" using a4 by blast
  moreover have "\<forall>i d. i \<noteq> cid \<longrightarrow> mem q i = None \<longrightarrow> mem q' i = Some d \<longrightarrow> found q i = Some d \<and> isTerminalStatus (cmd_status d)"
    using a5 by blast
  moreover have "blockedBy ?r = [] \<longrightarrow> q_paused q' \<or> q_processing q'" unfolding a3(3) by (rule go)
  ultimately show ?thesis unfolding id using a1 a2 a3(1,2) by (intro exI [of _ ?r] conjI)
qed

definition sample_params :: "string \<Rightarrow> string list \<Rightarrow> enqueueParams" where
  "sample_params cid deps = \<lparr>ep_command = \<lparr>enq_type = ''T'', enq_data = JObj [], enq_path = JUndef, enq_headers = JUndef,
      enq_files = [], enq_revision = None, enq_service = None, enq_dependsOn = deps\<rparr>,
    ep_commandId = Some cid, ep_cacheKey = ''k'', ep_skipValidation = False, ep_modelState = JUndef, ep_fileRefs = None\<rparr>"

lemma sample_enqueue_run:
  "enqueue sample_env 1 (sample_params ''n'' [''p'', ''gone'']) sample_queue =
    (Inr (Accepted \<lparr>es_commandId = ''n'', es_anticipatedEvents = [], es_entityRef = None\<rparr>),
     snd (enqueue sample_env 1 (sample_params ''n'' [''p'', ''gone'']) sample_queue))" (is "?r = _")
proof -
  have "(case fst ?r of Inl e \<Rightarrow> False | Inr (Rejected e) \<Rightarrow> False | Inr (Accepted s) \<Rightarrow>
      es_commandId s = ''n'' \<and> es_anticipatedEvents s = [] \<and> (case es_entityRef s of None \<Rightarrow> True | Some v \<Rightarrow> False))"
    by code_simp
  then have "fst ?r = Inr (Accepted \<lparr>es_commandId = ''n'', es_anticipatedEvents = [], es_entityRef = None\<rparr>)"
    by (cases "fst ?r"; cases "projr (fst ?r)") (simp_all split: option.splits)
  then show ?thesis by (metis prod.collapse)
qed

theorem enqueue_blocks_witness:
  "\<exists>c. active (snd (enqueue sample_env 1 (sample_params ''n'' [''p'', ''gone'']) sample_queue)) ''n'' = Some c
    \<and> map dep_commandId (dependsOn c) = [''p'', ''gone''] \<and> blockedBy c = [''p''] \<and> cmd_status c = Blocked"
proof -
  define q' where "q' = snd (enqueue sample_env 1 (sample_params ''n'' [''p'', ''gone'']) sample_queue)"
  note run = sample_enqueue_run [folded q'_def]
  have new: "found sample_queue ''n'' = None" by code_simp
  have "map_option (\<lambda>c. map dep_commandId (dependsOn c)) (active q' ''n'') = Some [''p'', ''gone'']"
    unfolding q'_def by code_simp
  moreover have "map_option (\<lambda>d. isTerminalStatus (cmd_status d)) (found sample_queue ''p'') = Some False"
    "found sample_queue ''gone'' = None"
    by code_simp+
  then have "filter (\<lambda>i. \<exists>d. found sample_queue i = Some d \<and> \<not> isTerminalStatus (cmd_status d)) [''p'', ''gone''] = [''p'']"
    by (cases "found sample_queue ''p''") auto
  ultimately show ?thesis
    using enqueue_blocks [OF sample_queue_ok run, unfolded enqueueSuccess.select_convs, OF new]
    unfolding q'_def [symmetric] by (elim exE conjE) (rule exI, auto)
qed

section \<open>Submissions that overlap\<close>

text \<open>What saving a submission does to the commands in play.\<close>

lemma save_active:
  assumes "enqueue_save env now params cid fileRefs prepared deps q = (success, q')"
  shows "active q' i = (if i = cid
    then Some ((command_record env now params cid fileRefs prepared
        (filter (blocking deps q) (map dep_commandId (all_deps params prepared))))\<lparr>cmd_seq := cs_nextSeq (q_commandStore q)\<rparr>)
    else active q i)"
proof -
  let ?c = "command_record env now params cid fileRefs prepared
    (filter (blocking deps q) (map dep_commandId (all_deps params prepared)))"
  have "core q' = core (with_commands (cs_save ?c) q)"
    using assms by (auto simp: enqueue_save_def Let_def split: if_splits)
  from view_cong(2) [OF this] show ?thesis
    by (simp add: active_def with_commands_def cs_save_def commands_of_def command_record_def Let_def)
qed

text \<open>A registered handler: commands of type \<open>T\<close> change the aggregate with stream \<open>Todo-1\<close>.\<close>

definition changed_aggregate :: aggregateConfig where
  "changed_aggregate = \<lparr>agg_service = None, agg_type = ''Todo'',
    agg_getStreamId = (\<lambda>v. case v of JStr s \<Rightarrow> ''Todo-'' @ s | _ \<Rightarrow> [])\<rparr>"

definition changing :: "(unit, cacheKeyIdentity) handlerRegistration" where
  "changing = \<lparr>hr_commandType = ''T'', hr_aggregate = Some changed_aggregate, hr_schema = None, hr_validate = None,
    hr_validateAsync = None, hr_handler = (\<lambda>c st ctx. DomainSuccess [sample_renamed ''Todo-1''] JUndef), hr_mapFailure = None,
    hr_classifyDependency = None, hr_creates = None, hr_responseIdReferences = None, hr_responseIdMapping = None,
    hr_commandIdReferences = [], hr_resolveCacheKey = None\<rparr>"

definition changing_env :: "unit queueEnv" where
  "changing_env = sample_env\<lparr>qe_executor := Some [(''T'', changing)],
    qe_aggregates := \<lparr>ca_aggregates = [changed_aggregate], ca_parseStreamId = (\<lambda>s. Inr (JObj []))\<rparr>\<rparr>"

text \<open>
  C31: Submissions that overlap are not ordered.  Take two submissions of which the second names the first as a
  dependency, whatever the source, and whose look-up runs while the first is prepared but not yet saved.  Whatever
  happens between that look-up and the first save, when both have been saved, in this order, the first is in play and the second lists it
  as a dependency but is not blocked by it; it is pending, ready to be sent beside the first, exactly when
  nothing else blocks it.
\<close>
theorem overlapping_submissions_unordered:
  assumes ok: "queue_ok q" and look: "enqueue_lookup now params2 prepared2 q = (deps2, q1)"
    and unsaved: "found q a = None" and names: "a \<in> set (map dep_commandId (all_deps params2 prepared2))"
    and save1: "enqueue_save env now1 params1 a fileRefs1 prepared1 deps1 q2 = (success1, q3)"
    and save2: "enqueue_save env now2 params2 b fileRefs2 prepared2 deps2 q3 = (success2, q4)" and other: "a \<noteq> b"
  shows "\<exists>ca cb. active q4 a = Some ca \<and> \<not> isTerminalStatus (cmd_status ca)
    \<and> active q4 b = Some cb \<and> a \<in> set (map dep_commandId (dependsOn cb)) \<and> a \<notin> set (blockedBy cb)
    \<and> (cmd_status cb = Pending \<longleftrightarrow> blockedBy cb = [])
    \<and> (set (map dep_commandId (dependsOn cb)) = {a} \<longrightarrow> cmd_status cb = Pending)"
proof -
  let ?ids = "map dep_commandId (all_deps params2 prepared2)"
  have "map_get deps2 a = None" using lookup_spec(1) [OF ok look, of a] unsaved by simp
  then have free: "\<not> blocking deps2 q3 a" by (simp add: blocking_def)
  then have none: "filter (blocking deps2 q3) ?ids = []" if "set ?ids = {a}"
    using that by (metis filter_False singletonD)
  show ?thesis
    using names free none other
    by (auto simp: save_active [OF save1] save_active [OF save2] command_record_def)
qed

definition prepared_of :: "(string \<times> fileRef list option \<times> preparedCommand) stretch \<Rightarrow> preparedCommand" where
  "prepared_of st = (case fst st of Inr (Accepted (cid, fs, p)) \<Rightarrow> p | _ \<Rightarrow> unprepared (ep_command (sample_params [] [])))"

text \<open>Both submissions of a command of type \<open>T\<close> prepared before either looks up its dependencies.\<close>

definition first_prepared :: "(string \<times> fileRef list option \<times> preparedCommand) stretch" where
  "first_prepared = enqueue_prepare changing_env (sample_params ''a'' []) empty_queue"

definition both_prepared :: "(string \<times> fileRef list option \<times> preparedCommand) stretch" where
  "both_prepared = enqueue_prepare changing_env (sample_params ''b'' []) (snd first_prepared)"

definition overlapping :: commandQueue where
  "overlapping =
    (let q = snd both_prepared;
         deps2 = fst (enqueue_lookup 0 (sample_params ''b'' []) (prepared_of both_prepared) q);
         q3 = snd (enqueue_save changing_env 0 (sample_params ''a'' []) ''a'' None (prepared_of first_prepared) [] q)
     in snd (enqueue_save changing_env 1 (sample_params ''b'' []) ''b'' None (prepared_of both_prepared) deps2 q3))"

theorem overlapping_submissions_unordered_witness:
  "\<exists>ca cb. active overlapping ''a'' = Some ca \<and> \<not> isTerminalStatus (cmd_status ca) \<and> active overlapping ''b'' = Some cb
    \<and> ''a'' \<in> set (map dep_commandId (dependsOn cb)) \<and> cmd_status cb = Pending"
proof -
  define q where "q = snd both_prepared"
  have core: "core q = core empty_queue"
    by (simp add: q_def both_prepared_def first_prepared_def core_prepare)
  have "queue_ok empty_queue" using queue_of_ok [of "[]"] by (simp add: queue_of_def empty_queue_def
      new_commandQueue_def new_commandStore_def)
  then have ok: "queue_ok q" by (rule ok_frame [OF core])
  have unsaved: "found q ''a'' = None" unfolding q_def by code_simp
  have ids: "map dep_commandId (all_deps (sample_params ''b'' []) (prepared_of both_prepared)) = [''a'']" by code_simp
  obtain deps2 q1 where look: "enqueue_lookup 0 (sample_params ''b'' []) (prepared_of both_prepared) q = (deps2, q1)"
    by (rule prod.exhaust)
  obtain s1 q3 where save1: "enqueue_save changing_env 0 (sample_params ''a'' []) ''a'' None (prepared_of first_prepared) [] q = (s1, q3)"
    by (rule prod.exhaust)
  obtain s2 q4 where save2: "enqueue_save changing_env 1 (sample_params ''b'' []) ''b'' None (prepared_of both_prepared) deps2 q3 = (s2, q4)"
    by (rule prod.exhaust)
  have q4: "overlapping = q4" using look save1 save2 by (simp add: overlapping_def Let_def q_def)
  have "dependsOn cb = all_deps (sample_params ''b'' []) (prepared_of both_prepared)" if "active q4 ''b'' = Some cb" for cb
    using that by (auto simp: save_active [OF save2] command_record_def)
  then show ?thesis
    using overlapping_submissions_unordered [OF ok look unsaved _ save1 save2] ids by (fastforce simp: q4)
qed

end
