(* ===== verification/CommandMoves.thy ===== *)
theory CommandMoves
  imports CommandEffects
begin

text \<open>
  Which status changes the effects of the command queue make.  The locale states what a relation between
  statuses needs for the effects that end or unblock a command to stay within it; a pass of the sync manager is
  an instance of it, and so is the relation that allows everything, which tells only that no record is lost.
\<close>

section \<open>One level of the cascade\<close>

lemma cascade_level_run:
  assumes "active_dependents (commandId parent) q \<noteq> []"
    and "map_results (with_events q) (active_dependents (commandId parent) q) = Inr ds"
  shows "cascade (Suc n) env now parent pe q =
    (let hard = filter (\<lambda>be. edge_strength env parent pe be = Hard) ds;
         soft = map (\<lambda>be. (fst be, filter (\<lambda>i. i \<noteq> commandId parent) (blockedBy (fst be))))
           (filter (\<lambda>be. edge_strength env parent pe be \<noteq> Hard) ds)
     in and_then (run_all (\<lambda>be q'. cascade n env now (live_cmd q' (fst be)) (snd be) q') hard
          (fold (announce_cancelled \<circ> fst) hard (if hard = [] then q
            else apply_status now (map fst hard) Cancelled (set_error (Some (dependency_failed parent))) q)))
        (unblock_softs now soft))"
  using assms
  by (cases "filter (\<lambda>be. edge_strength env parent pe be = Hard) ds")
    (simp_all add: Let_def batchUpdateCommandStatus_def and_then_def)

section \<open>Records that stay, with statuses within a relation\<close>

definition moves :: "(string \<Rightarrow> commandStatus \<Rightarrow> commandStatus \<Rightarrow> bool) \<Rightarrow> commandQueue \<Rightarrow> commandQueue \<Rightarrow> bool" where
  "moves R q q' \<longleftrightarrow> (\<forall>i c. mem q i = Some c \<longrightarrow>
    (\<exists>c'. mem q' i = Some c' \<and> R i (cmd_status c) (cmd_status c')))"

definition settles :: "(string \<Rightarrow> commandStatus \<Rightarrow> commandStatus \<Rightarrow> bool) \<Rightarrow> commandQueue \<Rightarrow> commandQueue \<Rightarrow> bool" where
  "settles R q q' \<longleftrightarrow> queue_ok q' \<and> moves R q q'"

locale status_relation =
  fixes R :: "string \<Rightarrow> commandStatus \<Rightarrow> commandStatus \<Rightarrow> bool"
  assumes stays: "R i s s"
    and joins: "R i a b \<Longrightarrow> R i b c \<Longrightarrow> R i a c"
    and cancels: "\<not> isTerminalStatus s \<Longrightarrow> R i s Cancelled"
    and fails: "\<not> isTerminalStatus s \<Longrightarrow> R i s Failed"
    and unblocks: "R i Blocked Pending"
begin

lemma settles_refl: "queue_ok q \<Longrightarrow> settles R q q"
  by (simp add: settles_def moves_def stays)

lemma settles_trans [trans]: "settles R q q1 \<Longrightarrow> settles R q1 q2 \<Longrightarrow> settles R q q2"
  unfolding settles_def moves_def by (blast intro: joins)

lemma settles_then: "settles R q q1 \<Longrightarrow> (queue_ok q1 \<Longrightarrow> settles R q1 q2) \<Longrightarrow> settles R q q2"
  using settles_trans by (auto simp: settles_def)

lemma settles_frame: "queue_ok q \<Longrightarrow> core q' = core q \<Longrightarrow> settles R q q'"
  using view_cong [of q' q] by (simp add: settles_def moves_def stays)

lemma settles_then_frame: "settles R q q1 \<Longrightarrow> core q2 = core q1 \<Longrightarrow> settles R q q2"
  by (erule settles_then) (rule settles_frame)

lemma settles_batch:
  assumes "batch_view us q q'"
    and "\<And>i u c. map_of us i = Some u \<Longrightarrow> mem q i = Some c \<Longrightarrow> R i (cmd_status c) (cmd_status (u c))"
  shows "settles R q q'"
  using assms unfolding settles_def moves_def batch_view_def by (auto simp: stays split: option.splits)

lemma settles_status:
  assumes "queue_ok q" "distinct (map commandId cs)"
    and "\<And>r. commandId (additional r) = commandId r \<and> cmd_status (additional r) = cmd_status r"
    and "\<And>c r. c \<in> set cs \<Longrightarrow> mem q (commandId c) = Some r \<Longrightarrow> R (commandId c) (cmd_status r) st"
  shows "settles R q (apply_status now cs st additional q)"
  by (rule settles_batch [OF apply_status_view]) (use assms in \<open>auto split: if_splits\<close>)

lemma settles_get:
  assumes "queue_ok q" shows "settles R q (snd (q_get now i q))"
  unfolding settles_def moves_def
proof (intro conjI allI impI)
  show "queue_ok (snd (q_get now i q))" by (rule evolvesD(1) [OF evolves_get(1) [OF assms]])
  fix j c assume "mem q j = Some c"
  then show "\<exists>c'. mem (snd (q_get now i q)) j = Some c' \<and> R j (cmd_status c) (cmd_status c')"
    by (subst evolves_get(3) [OF assms]) (auto simp: stays)
qed

lemma settles_list_update: "queue_ok q \<Longrightarrow> settles R q (list_update_step now c ids q)"
  by (auto simp: settles_def moves_def stays unblocks list_update_mem)

lemma settles_soft_updates: "queue_ok q \<Longrightarrow> settles R q (soft_updates now soft q)"
proof (induction soft arbitrary: q)
  case (Cons cn soft)
  obtain c ids where cn: "cn = (c, ids)" by (cases cn)
  from settles_list_update [OF Cons.prems, of now c ids] have
    "settles R q (soft_updates now soft (list_update_step now c ids q))"
    by (rule settles_then) (rule Cons.IH)
  then show ?case by (simp add: cn)
qed (simp add: settles_refl)

lemma settles_run_all:
  "(\<And>x s. x \<in> set xs \<Longrightarrow> queue_ok s \<Longrightarrow> settles R s (snd (g x s))) \<Longrightarrow> queue_ok s \<Longrightarrow>
    settles R s (snd (run_all g xs s))"
proof (induction xs arbitrary: s)
  case (Cons x xs)
  obtain e s1 where g: "g x s = (e, s1)" by (rule prod.exhaust)
  have s1: "settles R s s1" using Cons.prems(1) [of x s] Cons.prems(2) by (simp add: g)
  show ?case
  proof (cases e)
    case None
    have "settles R s (snd (run_all g xs s1))" by (rule settles_then [OF s1 Cons.IH]) (use Cons.prems in auto)
    with g None show ?thesis by (simp add: and_then_def)
  qed (simp add: g and_then_def s1)
qed (simp add: settles_refl)

text \<open>A cascade cancels commands in play and unblocks others.\<close>

lemma settles_cascade:
  "queue_ok q \<Longrightarrow> settles R q (snd (cascade n env now parent pe q))"
proof (induction n arbitrary: parent pe q)
  case (Suc n)
  note ok = Suc.prems
  let ?act = "active_dependents (commandId parent) q"
  show ?case
  proof (cases "map_results (with_events q) ?act")
    case (Inl e)
    with ok show ?thesis by (simp add: settles_refl Let_def)
  next
    case (Inr ds)
    define hard where "hard = filter (\<lambda>be. edge_strength env parent pe be = Hard) ds"
    define soft where "soft = map (\<lambda>be. (fst be, filter (\<lambda>i. i \<noteq> commandId parent) (blockedBy (fst be))))
      (filter (\<lambda>be. edge_strength env parent pe be \<noteq> Hard) ds)"
    define q1 where "q1 = (if hard = [] then q
      else apply_status now (map fst hard) Cancelled (set_error (Some (dependency_failed parent))) q)"
    let ?q2 = "fold (announce_cancelled \<circ> fst) hard q1"
    define g where "g = (\<lambda>be q'. cascade n env now (live_cmd q' (fst be)) (snd be) q')"
    have ds: "map fst ds = ?act" by (rule map_results_fst [OF Inr])
    have ids: "distinct (map commandId (map fst hard))"
      using active_dependents_distinct [OF ok, of "commandId parent"] unfolding ds [symmetric] hard_def
      by (simp add: distinct_map_filter)
    have live: "active q (commandId c) = Some c \<and> \<not> isTerminalStatus (cmd_status c)" if "c \<in> set (map fst hard)" for c
      using that active_dependents_iff [OF ok, of c "commandId parent"] unfolding ds [symmetric] hard_def by auto
    have "settles R q q1"
      unfolding q1_def using ok
      by (auto simp: settles_refl intro!: settles_status ids dest!: live active_mem intro: cancels)
    then have q2: "settles R q ?q2" by (rule settles_then_frame) simp
    have q3: "settles R q (snd (run_all g hard ?q2))"
      by (rule settles_then [OF q2 settles_run_all]) (simp_all add: g_def Suc.IH)
    have q4: "settles R q (snd (unblock_softs now soft (snd (run_all g hard ?q2))))"
      by (rule settles_then_frame [OF _ unblock_softs_core(2)]) (rule settles_then [OF q3 settles_soft_updates])
    show ?thesis
    proof (cases "?act = []")
      case False
      from cascade_level_run [OF False Inr]
      have "cascade (Suc n) env now parent pe q = and_then (run_all g hard ?q2) (unblock_softs now soft)"
        unfolding hard_def soft_def q1_def g_def Let_def .
      with q3 q4 show ?thesis by (auto simp: and_then_def simp del: cascade.simps split: option.split prod.split)
    qed (simp add: settles_refl [OF ok])
  qed
qed (simp add: settles_refl)

lemma settles_fail_command:
  assumes "queue_ok q" "\<And>c0. mem q (commandId c) = Some c0 \<Longrightarrow> \<not> isTerminalStatus (cmd_status c0)"
  shows "settles R q (snd (fail_command env now c error message q))"
proof (cases "with_events q c")
  case (Inl e)
  with assms(1) show ?thesis by (simp add: fail_command_def settles_refl)
next
  case (Inr be)
  let ?q1 = "apply_status now [c] Failed (set_error (Some error)) q"
  let ?q2 = "snd (cascadeFromTerminal env now (live_cmd ?q1 c) (snd be) ?q1)"
  have "settles R q ?q1" using assms by (intro settles_status) (auto intro: fails)
  then have "settles R q ?q2"
    unfolding cascadeFromTerminal_def by (rule settles_then) (rule settles_cascade)
  moreover have "core (snd (fail_command env now c error message q)) = core ?q2"
    using Inr by (auto simp: fail_command_def updateStatus_run and_then_def split: prod.split option.split)
  ultimately show ?thesis by (rule settles_then_frame)
qed

lemma settles_markFailed:
  assumes ok: "queue_ok q"
  shows "settles R q (snd (markFailedFromConflict env now cid conflict q))"
proof -
  let ?q0 = "snd (q_get now cid q)"
  note get = settles_get [OF ok, of now cid]
  show ?thesis
  proof (cases "fst (q_get now cid q)")
    case None
    with get show ?thesis by (auto simp: markFailedFromConflict_def split: prod.splits)
  next
    case (Some c)
    show ?thesis
    proof (cases "isTerminalStatus (cmd_status c)")
      case True
      with Some get show ?thesis by (auto simp: markFailedFromConflict_def split: prod.splits)
    next
      case False
      have "\<not> isTerminalStatus (cmd_status c0)" if "mem ?q0 (commandId c) = Some c0" for c0
        using that Some False queue_okD(1) [OF ok, of cid] by (cases rule: q_get_cases [OF ok, of now cid])
          (auto simp: load_view_def same_commands)
      with Some False show ?thesis
        by (auto simp: markFailedFromConflict_def split: prod.split intro!: settles_then [OF get] settles_fail_command)
    qed
  qed
qed

end

text \<open>The relation that allows everything.\<close>

interpretation any_status: status_relation "\<lambda>i a b. True"
  by unfold_locales simp_all

section \<open>What a soft dependent is left waiting for\<close>

lemma map_results_in:
  assumes "map_results (with_events q) bs = Inr ds" "d \<in> set ds"
  shows "with_events q (fst d) = Inr d"
proof -
  have one: "with_events q (fst d) = Inr d" if "with_events q b = Inr d" for b d
  proof -
    have "fst d = b" using that by (auto simp: with_events_def split: sum.splits)
    with that show ?thesis by simp
  qed
  have "\<forall>d \<in> set ds. with_events q (fst d) = Inr d"
  proof (rule fold_result_invariant [OF assms(1) [unfolded map_results_def]])
    fix b ys zs
    assume "map_result (\<lambda>d. ys @ [d]) (with_events q b) = Inr zs" "\<forall>d \<in> set ys. with_events q (fst d) = Inr d"
    moreover from this(1) obtain d where "with_events q b = Inr d" "zs = ys @ [d]" by (auto simp: map_result_Inr)
    ultimately show "\<forall>d \<in> set zs. with_events q (fst d) = Inr d" using one [of b d] by simp
  qed simp
  with assms(2) show ?thesis by blast
qed

lemma soft_updates_other:
  "queue_ok q \<Longrightarrow> j \<notin> (commandId \<circ> fst) ` set soft \<Longrightarrow> mem (soft_updates now soft q) j = mem q j"
proof (induction soft arbitrary: q)
  case (Cons cn soft)
  obtain c ids where cn: "cn = (c, ids)" by (cases cn)
  show ?case
    using Cons.IH [OF list_update_mem(1) [OF Cons.prems(1)]] Cons.prems
    by (simp add: cn list_update_mem(2) [OF Cons.prems(1)])
qed simp

lemma soft_updates_blockedBy:
  assumes "queue_ok q" "distinct (map (commandId \<circ> fst) soft)" "(c, ids) \<in> set soft" "mem q (commandId c) \<noteq> None"
  shows "\<exists>r. mem (soft_updates now soft q) (commandId c) = Some r \<and> blockedBy r = ids"
  using assms
proof (induction soft arbitrary: q)
  case (Cons cn soft)
  obtain d is' where cn: "cn = (d, is')" by (cases cn)
  let ?q = "list_update_step now d is' q"
  have ok: "queue_ok ?q" by (rule list_update_mem(1) [OF Cons.prems(1)])
  show ?case
  proof (cases "cn = (c, ids)")
    case True
    with cn have d: "d = c" "is' = ids" by simp_all
    have "mem (soft_updates now soft ?q) (commandId c) = mem ?q (commandId c)"
      by (rule soft_updates_other [OF ok]) (use Cons.prems(2) True in auto)
    with Cons.prems(1,4) show ?thesis by (auto simp: cn d list_update_mem(2))
  next
    case False
    have "\<exists>r. mem (soft_updates now soft ?q) (commandId c) = Some r \<and> blockedBy r = ids"
    proof (rule Cons.IH [OF ok])
      show "mem ?q (commandId c) \<noteq> None" using Cons.prems(4) by (auto simp: list_update_mem(2) [OF Cons.prems(1)])
    qed (use Cons.prems False in auto)
    then show ?thesis by (simp add: cn)
  qed
qed simp

text \<open>
  Whatever the cascades of the cancelled dependents have done to it in between, a soft dependent ends up with the
  list it had when the outer cascade began, less the parent.
\<close>

lemma cascade_soft_list:
  assumes ok: "queue_ok q" and run: "cascade n env now parent pe q = (None, q')"
    and dep: "c \<in> set (active_dependents (commandId parent) q)"
    and soft_edge: "\<And>ce. with_events q c = Inr ce \<Longrightarrow> edge_strength env parent pe ce \<noteq> Hard"
  shows "\<exists>r. mem q' (commandId c) = Some r \<and> blockedBy r = filter (\<lambda>i. i \<noteq> commandId parent) (blockedBy c)"
proof (cases n)
  case 0
  with run show ?thesis by simp
next
  case (Suc m)
  let ?act = "active_dependents (commandId parent) q"
  have act: "?act \<noteq> []" using dep by auto
  obtain ds where Inr: "map_results (with_events q) ?act = Inr ds"
    using run act by (auto simp: Suc Let_def split: sum.splits)
  define hard where "hard = filter (\<lambda>be. edge_strength env parent pe be = Hard) ds"
  define soft where "soft = map (\<lambda>be. (fst be, filter (\<lambda>i. i \<noteq> commandId parent) (blockedBy (fst be))))
    (filter (\<lambda>be. edge_strength env parent pe be \<noteq> Hard) ds)"
  define q1 where "q1 = (if hard = [] then q
    else apply_status now (map fst hard) Cancelled (set_error (Some (dependency_failed parent))) q)"
  let ?q2 = "fold (announce_cancelled \<circ> fst) hard q1"
  define g where "g = (\<lambda>be q'. cascade m env now (live_cmd q' (fst be)) (snd be) q')"
  obtain e q3 where g: "run_all g hard ?q2 = (e, q3)" by (rule prod.exhaust)
  from cascade_level_run [OF act Inr]
  have "cascade (Suc m) env now parent pe q = and_then (run_all g hard ?q2) (unblock_softs now soft)"
    unfolding hard_def soft_def q1_def g_def Let_def .
  then have "(None, q') = and_then (e, q3) (unblock_softs now soft)" using run by (simp add: Suc g del: cascade.simps)
  then have q': "core q' = core (soft_updates now soft q3)"
    using unblock_softs_core(2) [of now soft q3] by (auto simp: and_then_def split: option.splits) (metis snd_conv)
  have ds: "map fst ds = ?act" by (rule map_results_fst [OF Inr])
  then obtain ce where ce: "ce \<in> set ds" "fst ce = c" using dep by (metis imageE set_map)
  have live: "active q (commandId b) = Some b \<and> \<not> isTerminalStatus (cmd_status b)" if "b \<in> set ?act" for b
    using that active_dependents_iff [OF ok] by blast
  have "settles (\<lambda>i a b. True) q q1"
    unfolding q1_def using any_status.settles_refl [OF ok] active_dependents_distinct [OF ok, of "commandId parent"]
    by (auto simp: ds [symmetric] hard_def distinct_map_filter intro!: any_status.settles_status [OF ok])
  then have "settles (\<lambda>i a b. True) q ?q2" by (rule any_status.settles_then_frame) simp
  then have "settles (\<lambda>i a b. True) q (snd (run_all g hard ?q2))"
    by (rule any_status.settles_then) (simp add: any_status.settles_run_all any_status.settles_cascade g_def)
  then have q3: "queue_ok q3" "mem q3 (commandId c) \<noteq> None"
    using live [OF dep] active_mem by (force simp: g settles_def moves_def)+
  have "with_events q c = Inr ce" using map_results_in [OF Inr ce(1)] ce(2) by simp
  then have "(c, filter (\<lambda>i. i \<noteq> commandId parent) (blockedBy c)) \<in> set soft"
    using ce soft_edge [of ce] by (auto simp: soft_def intro!: image_eqI [of _ _ ce])
  moreover have "distinct (map (commandId \<circ> fst) soft)"
    using active_dependents_distinct [OF ok, of "commandId parent"]
    by (simp add: ds [symmetric] soft_def comp_def distinct_map_filter)
  ultimately show ?thesis
    using soft_updates_blockedBy [OF q3(1) _ _ q3(2)] view_cong(1) [OF q'] by simp
qed

end
