(* ===== verification/QueueTheorems.thy ===== *)
theory QueueTheorems
  imports CommandDependencies CommandMoves
begin

text \<open>
  The theorems about the life of commands in the queue: cancelling, failing, succeeding and sending,
  the invariant of every reachable state, and what a cascade leaves behind when a command waits for two
  others.
\<close>

section \<open>A command that was sent\<close>

lemma option_none: "(case x of None \<Rightarrow> True | Some y \<Rightarrow> False) \<Longrightarrow> x = None"
  by (cases x) simp_all

definition sent_command :: command where
  "sent_command = sample_command ''p'' Sending [] 1"

definition sending_queue :: commandQueue where
  "sending_queue = queue_of [sent_command, sample_command ''h'' Blocked [(''p'', EntityRefSource)] 2,
     sample_command ''s'' Blocked [(''p'', AggregateChainSource)] 3]"

definition server_refusal :: sendException where
  "server_refusal = \<lparr>snd_message = ''refused'', snd_errorCode = None, snd_isRetryable = False, snd_response = None, snd_details = None\<rparr>"

lemma sending_queue_ok: "queue_ok sending_queue"
  unfolding sending_queue_def by (rule queue_of_ok) (simp_all add: sample_command_def sent_command_def)

lemma sent_known: "mem sending_queue (commandId sent_command) = Some sent_command"
  by (simp add: sending_queue_def queue_of_def mem_def memory_get_def sample_command_def sent_command_def)

lemma sent_playing: "\<not> isTerminalStatus (cmd_status sent_command)"
  by (simp add: sample_command_def sent_command_def)

section \<open>Properties\<close>

text \<open>
  C2: Cancelling settles.  A known command is cancelled exactly when it is pending or blocked, and a refusal
  changes no command.  Otherwise the call ends, and unless stored events cannot be read the command is
  cancelled, no command in play still waits for it, and those that depend on it explicitly or by an entity
  reference are cancelled too; no command disappears, finished ones stay finished, and dependencies
  are only dropped.
\<close>
theorem cancel_settles:
  assumes ok: "queue_ok q" and known: "mem q cid = Some c"
    and run: "cancelCommand env now cid q = (refusal, (err, q'))"
  shows "(refusal = None \<longleftrightarrow> cmd_status c \<in> {Pending, Blocked})
    \<and> (refusal \<noteq> None \<longrightarrow> err = None \<and> mem q' = mem q)
    \<and> (refusal = None \<longrightarrow> ended Cancelled cid q err q')"
proof -
  let ?q0 = "snd (q_get now cid q)"
  have got: "fst (q_get now cid q) = Some c" by (rule evolves_get(5) [OF ok known])
  have id: "commandId c = cid" by (rule queue_okD(1) [OF ok known])
  have same: "mem ?q0 = mem q" "active ?q0 = active q"
    using evolves_get(2,3) [OF ok, of now cid] known by (simp_all add: fun_eq_iff) 
  have ev: "evolves q ?q0" by (rule evolves_get(1) [OF ok])
  have ended': "ended st cid q err q'" if "ended st cid ?q0 err q'" for st
    using that evolves_trans [OF ev] by (simp add: ended_def waits_for_def same)
  from run show ?thesis
  proof (cases rule: cancel_step)
    case Refused
    then show ?thesis using got by (auto simp: same)
  next
    case (Unreadable e c')
    then show ?thesis using got ev by (simp add: ended_def)
  next
    case (Ends c' es q1)
    then have c': "c' = c" using got by simp
    have "ended Cancelled (commandId c) ?q0 err q'"
      using Ends c' known id same
      by (intro end_with_cascade [OF evolvesD(1) [OF ev] _ _ _ _ _ Ends(4) [unfolded c'] Ends(5) [unfolded c'] refl, where ?c0.0 = c]) auto
    with Ends ended' id c' show ?thesis by simp
  qed
qed

theorem cancel_settles_witness:
  "\<exists>q'. cancelCommand sample_env 0 ''p'' sample_queue = (None, (None, q'))
    \<and> ended Cancelled ''p'' sample_queue None q' \<and> has_status q' ''h'' Cancelled"
proof -
  define q' where "q' = snd (snd (cancelCommand sample_env 0 ''p'' sample_queue))"
  have "fst (cancelCommand sample_env 0 ''p'' sample_queue) = None"
    by (rule option_none) code_simp
  moreover have "fst (snd (cancelCommand sample_env 0 ''p'' sample_queue)) = None"
    by (rule option_none) code_simp
  ultimately have run: "cancelCommand sample_env 0 ''p'' sample_queue = (None, (None, q'))"
    by (simp add: q'_def prod_eq_iff)
  have known: "mem sample_queue ''p'' = Some (sample_command ''p'' Pending [] 1)"
    and h: "active sample_queue ''h'' = Some (sample_command ''h'' Blocked [(''p'', EntityRefSource)] 2)"
    by (simp_all add: sample_queue_def queue_of_def mem_def active_def memory_get_def sample_command_def)
  have e: "ended Cancelled ''p'' sample_queue None q'"
    using cancel_settles [OF sample_queue_ok known run] by blast
  moreover have "has_status q' ''h'' Cancelled"
    using e h unfolding ended_def waits_for_def by (auto simp: sample_command_def)
  ultimately show ?thesis using run by blast
qed

text \<open>
  C3: Failing settles.  When the sender fails for a command in play, a transient failure within the limit
  of attempts makes the command pending again with one more timer after the back-off delay and touches no
  other command; any other failure ends, and unless stored events cannot be read it leaves the command failed,
  no command in play waiting for it, and its hard dependents cancelled.
\<close>
theorem failure_settles:
  assumes ok: "queue_ok q" and known: "mem q (commandId updated) = Some c" "\<not> isTerminalStatus (cmd_status c)"
    and run: "processCommandFailure env now current updated e q = (err, q')"
  shows "if desc_category (resolveFailureDescriptor env current e) = Transient \<and> shouldRetry (attempts c) (qe_retry env)
    then err = None \<and> evolves q q' \<and> has_status q' (commandId updated) Pending
      \<and> q_retryTimers q' = q_retryTimers q @ [(q_nextTimer q,
          calculateBackoffDelay (qe_random env (q_nextTimer q)) (attempts c) (qe_retry env))]
      \<and> (\<forall>i. i \<noteq> commandId updated \<longrightarrow> mem q' i = mem q i)
    else ended Failed (commandId updated) q err q'"
proof -
  have live: "live_cmd q updated = c" by (rule live_mem(1) [OF known(1)])
  show ?thesis
  proof (cases "desc_category (resolveFailureDescriptor env current e) = Transient \<and> shouldRetry (attempts c) (qe_retry env)")
    case True
    let ?error = "set_error (Some (failure_exception (resolveFailureDescriptor env current e) e))"
    let ?q1 = "apply_status now [updated] Pending ?error q"
    have eq: "err = None" "q' = schedule_retry env (attempts c) ?q1"
      using run True by (simp_all add: processCommandFailure_def live updateStatus_run and_then_def Let_def)
    have "q_retryTimers ?q1 = q_retryTimers q \<and> q_nextTimer ?q1 = q_nextTimer q"
      using loop_apply_status [of now "[updated]" Pending ?error q] by (simp add: loop_state_def)
    moreover have "evolves q ?q1" "has_status ?q1 (commandId updated) Pending" "i \<noteq> commandId updated \<Longrightarrow> mem ?q1 i = mem q i" for i
      using one_status(1,2,3) [OF ok known, where additional = ?error and st = Pending] by simp_all
    moreover have same: "core q' = core ?q1" by (simp add: eq)
    ultimately show ?thesis
      using True eq(1) evolves_then_frame [OF _ same]
      by (simp add: view_cong [OF same] frame_active [OF same]) (simp add: eq(2) schedule_retry_def)
  next
    case False
    then have "fail_command env now updated (failure_exception (resolveFailureDescriptor env current e) e) (snd_message e) q = (err, q')"
      using run by (auto simp: processCommandFailure_def live Let_def)
    from fail_command_ended [OF ok known this] False show ?thesis by auto
  qed
qed

theorem failure_settles_witness:
  "\<exists>q'. processCommandFailure sample_env 0 sent_command sent_command server_refusal sending_queue = (None, q')
    \<and> ended Failed ''p'' sending_queue None q'"
proof -
  define q' where "q' = snd (processCommandFailure sample_env 0 sent_command sent_command server_refusal sending_queue)"
  have "fst (processCommandFailure sample_env 0 sent_command sent_command server_refusal sending_queue) = None"
    by (rule option_none) code_simp
  then have run: "processCommandFailure sample_env 0 sent_command sent_command server_refusal sending_queue = (None, q')"
    by (simp add: q'_def prod_eq_iff)
  have "desc_category (resolveFailureDescriptor sample_env sent_command server_refusal) \<noteq> Transient" by code_simp
  then have "ended Failed (commandId sent_command) sending_queue None q'"
    using failure_settles [OF sending_queue_ok sent_known sent_playing run] by simp
  with run show ?thesis by (auto simp: sent_command_def sample_command_def)
qed

text \<open>
  C1: Succeeding settles.  The reply to a command in play never makes another command disappear, leaves a
  terminal status or gain a dependency; when its processing does not throw, the command has succeeded or is
  applied and no command in play waits for it any more.
\<close>
theorem success_settles:
  assumes ok: "queue_ok q" and known: "mem q (commandId updated) = Some c0" "\<not> isTerminalStatus (cmd_status c0)"
    and run: "processCommandSuccess env now current updated correlationId response q = (err, q')"
  shows "evolves q q' \<and> (err = None \<longrightarrow>
    done_ok q' (commandId updated) \<and> (\<forall>i. \<not> waits_for q' i (commandId updated)))"
proof -
  let ?reg = "q_getRegistration env (cmd_type updated)"
  define q1 where "q1 = log_event (BusResponse (commandId current) correlationId response) q"
  define q2 where "q2 = (if qe_onCommandResponse env then log_event (ResponseHandedOff (commandId updated) response) q1 else q1)"
  have q2: "core q2 = core q" by (simp add: q2_def q1_def)
  have ok2: "queue_ok q2" and m2: "mem q2 = mem q" using ok view_cong [OF q2] by simp_all
  have e2: "evolves q q2" by (rule evolves_frame [OF ok q2])
  show ?thesis
  proof (cases "collectIdMappingCandidates (qe_aggregates env) (live_cmd q2 updated) ?reg response")
    case (Inl e)
    with run e2 show ?thesis
      by (auto simp: success_run q1_def [symmetric] q2_def [symmetric] Let_def)
  next
    case (Inr cu)
    obtain cands uncovered where cu: "cu = (cands, uncovered)" by (cases cu)
    define q3 where "q3 = apply_status now [updated] Succeeded (set_body (\<lambda>b. b\<lparr>cb_serverResponse := response\<rparr>)) q2"
    define c where "c = live_cmd q3 updated"
    note one = one_status [OF ok2, where c = updated and additional = "set_body (\<lambda>b. b\<lparr>cb_serverResponse := response\<rparr>)"
        and now = now and st = Succeeded]
    have s3: "evolves q2 q3" "has_status q3 (commandId updated) Succeeded" "commandId c = commandId updated"
      unfolding q3_def c_def using known m2 by (auto intro: one)
    obtain e7 q7 where t: "success_tail env now c uncovered response ?reg q3 = (e7, q7)" by (metis surj_pair)
    have e7: "evolves q3 q7"
      using evolves_tail [OF evolvesD(1) [OF s3(1)], of env now c uncovered response ?reg] by (simp add: t)
    have d7: "done_ok q7 (commandId updated)" by (rule done_stays [OF e7]) (simp add: done_ok_def s3(2))
    obtain e8 q8 where u: "unblockDependentCommands env now c q7 = (e8, q8)" by (metis surj_pair)
    have e8: "evolves q7 q8" "e8 = None \<Longrightarrow> \<not> waits_for q8 i (commandId updated)" for i
      using unblock_spec [OF evolvesD(1) [OF e7] u] s3(3) by auto
    let ?q9 = "emitCommandEvent CompletedEvent (live_cmd q8 c) None
      (log_event (BusCompleted (commandId current) (cmd_type current) (cmd_cacheKey current)) q8)"
    have c9: "core ?q9 = core q8" by simp
    have ok9: "queue_ok ?q9" using evolvesD(1) [OF e8(1)] view_cong(3) [OF c9] by simp
    have d9: "done_ok ?q9 (commandId c)"
      using done_stays [OF e8(1) d7] s3(3) by (simp add: done_ok_def frame_active [OF c9])
    let ?fin = "checkAppliedAtSuccess env now c ?reg response ?q9"
    have e9: "evolves q8 (snd ?fin)"
      by (rule evolves_trans [OF evolves_frame applied_check_spec [OF ok9 d9]]) (use evolvesD(1) [OF e8(1)] in simp_all)
    have run': "(err, q') = and_then (e7, q7) (\<lambda>q7. and_then (unblockDependentCommands env now c q7) (\<lambda>q8.
        checkAppliedAtSuccess env now c ?reg response (emitCommandEvent CompletedEvent (live_cmd q8 c) None
          (log_event (BusCompleted (commandId current) (cmd_type current) (cmd_cacheKey current)) q8))))"
      using run Inr cu t
      by (simp add: success_run q1_def [symmetric] q2_def [symmetric] q3_def [symmetric] c_def [symmetric] Let_def)
    have e3: "evolves q q7" by (rule evolves_trans [OF evolves_trans [OF e2 s3(1)] e7])
    show ?thesis
    proof (cases "e7 = None \<and> e8 = None")
      case False
      with run' u e3 evolves_trans [OF e3 e8(1)] show ?thesis by (cases e7; cases e8) (auto simp: and_then_def)
    next
      case True
      with run' u have q': "(err, q') = ?fin" by (simp add: and_then_def)
      then have "q' = snd ?fin" by (metis snd_conv)
      then have ev: "evolves q8 q'" using e9 by simp
      have "done_ok q' (commandId updated)" by (rule done_stays [OF ev done_stays [OF e8(1) d7]])
      moreover have "\<not> waits_for q' i (commandId updated)" for i
        using waits_evolves [OF ev] e8(2) True by blast
      moreover have "evolves q q'" by (rule evolves_trans [OF evolves_trans [OF e3 e8(1)] ev])
      ultimately show ?thesis by simp
    qed
  qed
qed

theorem success_settles_witness:
  "\<exists>q'. processCommandSuccess sample_env 0 sent_command sent_command ''r'' JUndef sending_queue = (None, q')
    \<and> evolves sending_queue q' \<and> done_ok q' ''p'' \<and> \<not> waits_for q' ''h'' ''p''"
proof -
  define q' where "q' = snd (processCommandSuccess sample_env 0 sent_command sent_command ''r'' JUndef sending_queue)"
  have "fst (processCommandSuccess sample_env 0 sent_command sent_command ''r'' JUndef sending_queue) = None"
    by (rule option_none) code_simp
  then have run: "processCommandSuccess sample_env 0 sent_command sent_command ''r'' JUndef sending_queue = (None, q')"
    by (simp add: q'_def prod_eq_iff)
  have "commandId sent_command = ''p''" by (simp add: sent_command_def sample_command_def)
  with run success_settles [OF sending_queue_ok sent_known sent_playing run] show ?thesis by auto
qed

text \<open>
  C4: The queue's memory stays consistent.  In every state the queue reaches from a consistent one, through
  submissions in stretches, cancelling, retrying, conflicts, sync status, the processing loop with the
  sender's replies, timers, initialisation, writes, pausing, resetting and clearing, each command is
  held under its own id, the active commands are those in an in-memory status, none of them is
  also cached as finished, and storage holds each record under its id.
\<close>
theorem reachable_queue_ok:
  assumes "reachable_queue env q0 q" "queue_ok q0"
  shows "queue_ok q"
  using assms
proof (induction rule: reachable_queue.induct)
  case (Step q q')
  then have ok: "queue_ok q" by simp
  from Step.hyps(2) show ?case
  proof cases
    case (Prepare params)
    then show ?thesis using ok_frame [OF core_prepare ok] by simp
  next
    case (PassStart)
    then show ?thesis using ok_frame [of "pass_start env q" q] ok by (simp add: pass_start_def core_iff)
  next
    case (Timer n)
    then show ?thesis using ok_frame [of "timer_fires n q" q] ok by (simp add: timer_fires_def core_iff processPendingCommands_def)
  next
    case Initialize
    then show ?thesis using ok_frame [of "snd (rebuildChains env q)" q] ok
      by (simp add: cq_initialize_def rebuildChains_def Let_def core_iff split: prod.split)
  next
    case Pause
    then show ?thesis using ok_frame [of "cq_pause q" q] ok by (simp add: cq_pause_def core_iff)
  next
    case Paused
    then show ?thesis using ok_frame [of "pause_settled q" q] ok by (simp add: pause_settled_def)
  next
    case Resume
    then show ?thesis using ok_frame [of "cq_resume q" q] ok by (simp add: cq_resume_def core_iff processPendingCommands_def)
  next
    case Resumed
    then show ?thesis using ok_frame [of "resume_settled q" q] ok by (simp add: resume_settled_def)
  next
    case Reset
    then show ?thesis using ok_frame [of "cq_reset q" q] ok by (simp add: cq_reset_def cq_pause_def core_iff)
  next
    case Destroy
    then show ?thesis using ok_frame [of "cq_destroy q" q] ok by (simp add: cq_destroy_def core_iff)
  qed (simp_all add: ok ok_lookup ok_save ok_cancel ok_retry ok_conflict ok_sync ok_pass_next ok_finish ok_flush ok_load ok_clear)
qed

theorem reachable_queue_ok_witness:
  "queue_ok (snd (enqueue_save sample_env 1 (sample_params ''n'' []) ''n'' None
    (unprepared (ep_command (sample_params ''n'' []))) [] (cq_resume sample_queue)))"
proof -
  have r: "reachable_queue sample_env sample_queue (cq_resume sample_queue)"
    by (rule reachable_queue.Step [OF reachable_queue.Start]) (rule queue_step.Resume)
  have m: "mem (cq_resume sample_queue) ''n'' = None" by (rule option_none) code_simp
  have "reachable_queue sample_env sample_queue (snd (enqueue_save sample_env 1 (sample_params ''n'' []) ''n'' None
      (unprepared (ep_command (sample_params ''n'' []))) [] (cq_resume sample_queue)))"
    by (rule reachable_queue.Step [OF r queue_step.Save [OF m]])
  from reachable_queue_ok [OF this sample_queue_ok] show ?thesis .
qed

text \<open>
  C30: A cascade can leave a command waiting for one that has ended.  When the cascade from \<open>parent\<close> cancels \<open>i\<close>,
  and \<open>j\<close> waits for both \<open>parent\<close>, over an edge that does not fail it, and \<open>i\<close>, then \<open>j\<close> is left with the list it
  had when the cascade began, less \<open>parent\<close>: the cascade from \<open>i\<close> has taken \<open>i\<close> off the list, and the outer
  cascade, which worked out the new list before, writes it back.  So \<open>j\<close> still lists \<open>i\<close>, which is cancelled, for
  any queue, environment and commands.
\<close>
theorem cascade_strands_command:
  assumes ok: "queue_ok q" and run: "cascadeFromTerminal env now parent pe q = (None, q')"
    and hard: "active q i = Some h" "waits_for q i (commandId parent)" "edge_source parent h \<noteq> AggregateChainSource"
    and waiting: "active q j = Some c" "waits_for q j (commandId parent)" "i \<in> set (blockedBy c)" "i \<noteq> commandId parent"
    and soft: "\<And>es. with_events q c = Inr (c, es) \<Longrightarrow> edge_strength env parent pe (c, es) \<noteq> Hard"
  shows "has_status q' i Cancelled \<and>
    (\<exists>r. mem q' j = Some r \<and> blockedBy r = filter (\<lambda>k. k \<noteq> commandId parent) (blockedBy c) \<and> i \<in> set (blockedBy r))"
proof -
  have "cascade_post parent q None q'" by (rule cascade_settles [OF ok run])
  with hard have "has_status q' i Cancelled" by (auto simp: cascade_post_def)
  moreover have c: "c \<in> set (active_dependents (commandId parent) q)" "commandId c = j"
    using waits_dependent [OF ok waiting(2)] waiting(1) by auto
  have "edge_strength env parent pe ce \<noteq> Hard" if "with_events q c = Inr ce" for ce
  proof -
    have "fst ce = c" using that by (auto simp: with_events_def split: sum.splits)
    with that soft [of "snd ce"] show ?thesis by (cases ce) simp
  qed
  from cascade_soft_list [OF ok run [unfolded cascadeFromTerminal_def] c(1) this]
  have "\<exists>r. mem q' j = Some r \<and> blockedBy r = filter (\<lambda>k. k \<noteq> commandId parent) (blockedBy c)" by (simp add: c(2))
  ultimately show ?thesis using waiting(3,4) by auto
qed

text \<open>\<open>p\<close> is cancelled; \<open>h\<close> refers to the entity it creates, and \<open>s\<close> follows both in their aggregates' chains.\<close>

theorem cascade_strands_command_witness:
  "case cascadeFromTerminal sample_env 0 (sample_command ''p'' Cancelled [] 1) []
      (queue_of [sample_command ''h'' Blocked [(''p'', EntityRefSource)] 2,
        sample_command ''s'' Blocked [(''p'', AggregateChainSource), (''h'', AggregateChainSource)] 3]) of
    (err, q') \<Rightarrow> has_status q' ''h'' Cancelled \<and> (\<exists>r. mem q' ''s'' = Some r \<and> blockedBy r = [''h''])"
proof -
  define h where "h = sample_command ''h'' Blocked [(''p'', EntityRefSource)] 2"
  define c where "c = sample_command ''s'' Blocked [(''p'', AggregateChainSource), (''h'', AggregateChainSource)] 3"
  define p where "p = sample_command ''p'' Cancelled [] 1"
  define q where "q = queue_of [h, c]"
  have ok: "queue_ok q" unfolding q_def by (rule queue_of_ok) (simp_all add: h_def c_def sample_command_def)
  have "case cascadeFromTerminal sample_env 0 p [] q of (err, q') \<Rightarrow> (case err of None \<Rightarrow> True | Some e \<Rightarrow> False)"
    unfolding p_def q_def h_def c_def by code_simp
  then obtain q' where run: "cascadeFromTerminal sample_env 0 p [] q = (None, q')"
    by (cases "cascadeFromTerminal sample_env 0 p [] q") (auto split: option.splits)
  have a: "active q ''h'' = Some h" "active q ''s'' = Some c"
    by (simp_all add: q_def queue_of_def active_def h_def c_def sample_command_def)
  have w: "waits_for q ''h'' (commandId p)" "waits_for q ''s'' (commandId p)"
    by (simp_all add: waits_for_def a) (simp_all add: h_def c_def p_def sample_command_def)
  have src: "edge_source p h \<noteq> AggregateChainSource" "edge_source p c = AggregateChainSource"
    by (simp_all add: edge_source_def p_def h_def c_def sample_command_def)
  have soft: "edge_strength sample_env p [] (c, es) \<noteq> Hard" for es
    by (simp add: edge_strength_def classifyDependencyEdge_def src q_getRegistration_def sample_env_def)
  have s: "''h'' \<in> set (blockedBy c)" "''h'' \<noteq> commandId p" "filter (\<lambda>k. k \<noteq> commandId p) (blockedBy c) = [''h'']"
    by (simp_all add: c_def p_def sample_command_def)
  from cascade_strands_command [OF ok run a(1) w(1) src(1) a(2) w(2) s(1,2) soft] show ?thesis
    unfolding h_def [symmetric] c_def [symmetric] p_def [symmetric] q_def [symmetric] run by (auto simp: s(3))
qed

section \<open>Sending\<close>

lemma sent_id: "resolveAutoRevisionForSend env c q = Inr sent \<Longrightarrow> commandId sent = commandId c"
  by (auto simp: resolveAutoRevisionForSend_def map_result_Inr set_body_def
      split: option.splits revisionSpec.splits)

text \<open>
  C5: What the loop sends.  When a step of the processing loop hands the next command of its pass to the
  sender, the queue is not paused, the command is pending and waits for nothing at that moment, whatever the
  pass's snapshot says; it is then sending with one more attempt, the record handed over has its id,
  and no other command in memory has changed.
\<close>
theorem sends_only_ready:
  assumes ok: "queue_ok q" and pass: "q_pass q = Some (c # cs)" and idle: "q_inflight q = None"
    and known: "mem q (commandId c) = Some r"
    and sent: "q_inflight (pass_next env now q) = Some (updated, correlationId, sent)"
  shows "\<not> q_paused q \<and> cmd_status r = Pending \<and> blockedBy r = []
    \<and> mem (pass_next env now q) (commandId c) = Some updated \<and> cmd_status updated = Sending
    \<and> attempts updated = attempts r + 1 \<and> commandId sent = commandId c
    \<and> (\<forall>i. i \<noteq> commandId c \<longrightarrow> mem (pass_next env now q) i = mem q i)"
proof -
  let ?q1 = "q\<lparr>q_pass := Some cs\<rparr>"
  have ok1: "queue_ok ?q1" by (rule ok_frame [OF _ ok]) simp
  have m1: "mem ?q1 = mem q" by (rule view_cong(1)) simp
  have id: "commandId r = commandId c" by (rule queue_okD(1) [OF ok known])
  have live: "live_cmd q c = r" by (rule live_mem(1) [OF known])
  have "fst (q_get now (commandId c) ?q1) = Some r" by (rule evolves_get(5) [OF ok1]) (simp add: m1 known)
  then obtain q2 where got: "q_get now (commandId c) ?q1 = (Some r, q2)" by (cases "q_get now (commandId c) ?q1") auto
  have ok2: "queue_ok q2" using ok_get [OF ok1, of now "commandId c"] by (simp add: got)
  have m2: "mem q2 = mem q"
    using evolves_get(3) [OF ok1, of now "commandId c"] known by (simp add: fun_eq_iff m1 got)
  have bs: "\<not> q_paused q" "blockedBy r = []" "begin_send env now c ?q1 = (None, pass_next env now q)"
  proof -
    have "q_inflight (end_pass q) = None" "q_inflight (loop_abort s) = None" for s
      using idle by (simp_all add: end_pass_def loop_abort_def)
    then show "\<not> q_paused q" "blockedBy r = []" "begin_send env now c ?q1 = (None, pass_next env now q)"
      using sent idle unfolding pass_next_def pass option.case list.case live
      by (auto split: if_splits prod.splits option.splits)
  qed
  let ?add = "\<lambda>x. set_body (\<lambda>b. b\<lparr>cb_lastAttemptAt := Some now\<rparr>) (x\<lparr>attempts := attempts r + 1\<rparr>)"
  define q3 where "q3 = apply_status now [r] Sending ?add q2"
  let ?u = "live_cmd q3 r"
  have inflight: "q_inflight q2 = None"
    using idle got by (auto simp: q_get_def set_commands_def split: prod.splits)
  have st: "cmd_status r = Pending"
    using bs(3) sent inflight by (auto simp: begin_send_def got split: if_splits)
  have v: "batch_view [status_update now Sending ?add r] q2 q3"
    using apply_status_view [OF ok2, where cs = "[r]" and additional = ?add and now = now and st = Sending]
    by (simp add: set_body_def q3_def)
  then have m3: "mem q3 i = (if i = commandId c then Some (?add (r\<lparr>cmd_status := Sending, cmd_updatedAt := now\<rparr>)) else mem q i)" for i
    using known by (auto simp: batch_view_def status_update_def id m2)
  have u: "?u = ?add (r\<lparr>cmd_status := Sending, cmd_updatedAt := now\<rparr>)"
    by (rule live_mem(1)) (use m3 [of "commandId c"] id in simp)
  define corr where "corr = qe_newId env (q_nextId q3)"
  define s4 where "s4 = log_event (BusSent (commandId r) corr) (q3\<lparr>q_nextId := q_nextId q3 + 1\<rparr>)"
  have "begin_send env now c ?q1 = and_then (None, q3) (\<lambda>q2. let updated = live_cmd q2 r;
         (correlationId, q3) = new_id env q2; q4 = log_event (BusSent (commandId r) correlationId) q3
       in case resolveAutoRevisionForSend env updated q4 of
            Inl e \<Rightarrow> (Some e, q4)
          | Inr x \<Rightarrow> if \<not> assertWireHeaders (cb_headers (cmd_body x))
              then (Some (AssertionFailed (''Command '' @ cmd_type x @ '' headers must be plain strings'')), q4)
              else (None, q4\<lparr>q_inflight := Some (updated, correlationId, x)\<rparr>))"
    unfolding begin_send_def got prod.case option.case q3_def by (simp add: st updateStatus_run)
  then have "(None, pass_next env now q) = (case resolveAutoRevisionForSend env ?u s4 of
      Inl e \<Rightarrow> (Some e, s4)
    | Inr x \<Rightarrow> if \<not> assertWireHeaders (cb_headers (cmd_body x))
        then (Some (AssertionFailed (''Command '' @ cmd_type x @ '' headers must be plain strings'')), s4)
        else (None, s4\<lparr>q_inflight := Some (?u, corr, x)\<rparr>))"
    unfolding bs(3) and_then_def new_id_def Let_def prod.case option.case s4_def corr_def .
  with sent have "pass_next env now q = s4\<lparr>q_inflight := Some (?u, corr, sent)\<rparr>" "updated = ?u"
      "resolveAutoRevisionForSend env ?u s4 = Inr sent"
    by (auto split: sum.splits if_splits)
  moreover have "core s4 = core q3" by (simp add: s4_def core_iff log_event_def)
  ultimately have fin: "core (pass_next env now q) = core q3" "updated = ?u" "resolveAutoRevisionForSend env ?u s4 = Inr sent"
    by (simp_all add: core_iff)
  show ?thesis
    using bs(1,2) st m3 sent_id [OF fin(3)] by (auto simp: view_cong(1) [OF fin(1)] fin(2) u id set_body_def)
qed

definition passing_queue :: commandQueue where
  "passing_queue = pass_start sample_env (cq_resume sample_queue)"

theorem sends_only_ready_witness:
  "\<exists>updated correlationId sent. q_inflight (pass_next sample_env 7 passing_queue) = Some (updated, correlationId, sent)
    \<and> mem (pass_next sample_env 7 passing_queue) ''p'' = Some updated \<and> cmd_status updated = Sending \<and> attempts updated = 1"
proof -
  let ?p = "sample_command ''p'' Pending [] 1"
  have ok: "queue_ok passing_queue"
    by (rule ok_frame [OF _ sample_queue_ok])
      (simp add: passing_queue_def pass_start_def cq_resume_def processPendingCommands_def core_iff)
  have known: "mem passing_queue (commandId ?p) = Some ?p"
    by (simp add: passing_queue_def pass_start_def cq_resume_def processPendingCommands_def sample_queue_def queue_of_def
        mem_def memory_get_def sample_command_def)
  have pass: "q_pass passing_queue = Some (?p # [])"
    by (simp add: passing_queue_def pass_start_def cq_resume_def processPendingCommands_def sample_queue_def queue_of_def
        sample_env_def cs_getByStatus_def classifyStatuses_def commands_of_def js_sort_def sample_command_def empty_queue_def)
  have idle: "q_inflight passing_queue = None" by (rule option_none) code_simp
  have "\<not> (case q_inflight (pass_next sample_env 7 passing_queue) of None \<Rightarrow> True | Some x \<Rightarrow> False)" by code_simp
  then obtain updated correlationId sent where
    run: "q_inflight (pass_next sample_env 7 passing_queue) = Some (updated, correlationId, sent)"
    by (auto split: option.splits)
  from sends_only_ready [OF ok pass idle known run] run show ?thesis by (auto simp: sample_command_def)
qed

end
