(* ===== verification/AnticipationCleanup.thy ===== *)
theory AnticipationCleanup
  imports CommandApi
begin

text \<open>
  What the failure or cancellation of a command undoes in the local overlay
  (\<^verbatim>\<open>core/command-lifecycle/AnticipatedEventHandler.ts\<close>).
\<close>

section \<open>Tracked keys\<close>

definition names_row :: "string \<Rightarrow> bool" where
  "names_row key \<longleftrightarrow> (\<exists>c i. split_key key = Some (c, i) \<and> c \<noteq> [] \<and> i \<noteq> [])"

lemma split_key_join:
  assumes "split_key key = Some (c, i)"
  shows "getReadModelKey c i = key"
proof -
  have c: "c = takeWhile (\<lambda>x. x \<noteq> CHR '':'') key" "length c \<noteq> length key" "i = drop (Suc (length c)) key"
    using assms by (auto simp: split_key_def Let_def split: if_splits)
  have less: "length c < length key"
    using c(2) length_takeWhile_le [of "\<lambda>x. x \<noteq> CHR '':''" key] unfolding c(1) [symmetric] by simp
  have "key ! length c = CHR '':''"
    using nth_length_takeWhile [of "\<lambda>x. x \<noteq> CHR '':''" key] less unfolding c(1) [symmetric] by blast
  moreover have "c = take (length c) key"
    using takeWhile_eq_take [of "\<lambda>x. x \<noteq> CHR '':''" key] unfolding c(1) [symmetric] .
  ultimately have "key = c @ CHR '':'' # drop (Suc (length c)) key"
    using id_take_nth_drop [OF less] by simp
  then show ?thesis by (simp add: getReadModelKey_def c(3))
qed

section \<open>A row without its local changes\<close>

definition restored :: "int \<Rightarrow> readModelRecord option \<Rightarrow> readModelRecord option" where
  "restored now row = Option.bind row (\<lambda>r. if \<not> rm_hasLocalChanges r then Some r
     else map_option (\<lambda>server. r\<lparr>rm_effectiveData := server, rm_hasLocalChanges := False, rm_updatedAt := now\<rparr>) (rm_serverData r))"

lemma restored_idem [simp]: "restored now (restored now row) = restored now row"
  by (cases row; cases "rm_serverData (the row)") (auto simp: restored_def)

definition rows_keyed :: "'c inMemoryStorage \<Rightarrow> bool" where
  "rows_keyed st \<longleftrightarrow> keyed_by (\<lambda>r. getReadModelKey (rm_collection r) (rm_id r)) (readModels st)"

lemma clear_row:
  assumes "rows_keyed st"
  shows "rows_keyed (clearLocalChanges now c i st)"
    and "map_get (readModels (clearLocalChanges now c i st)) k =
      (if k = getReadModelKey c i then restored now (map_get (readModels st) k) else map_get (readModels st) k)"
    and "cachedEvents (clearLocalChanges now c i st) = cachedEvents st"
proof -
  have key: "getReadModelKey (rm_collection r) (rm_id r) = k" if "map_get (readModels st) k = Some r" for k r
    using assms that by (auto simp: rows_keyed_def keyed_by_iff)
  show "rows_keyed (clearLocalChanges now c i st)"
    using assms by (auto simp: clearLocalChanges_def rows_keyed_def saveReadModel_def deleteReadModel_def
      intro!: keyed_by_set keyed_by_delete split: option.split)
  show "map_get (readModels (clearLocalChanges now c i st)) k =
      (if k = getReadModelKey c i then restored now (map_get (readModels st) k) else map_get (readModels st) k)"
    using key [of "getReadModelKey c i"]
    by (auto simp: clearLocalChanges_def getReadModel_def restored_def saveReadModel_def deleteReadModel_def split: option.split)
  show "cachedEvents (clearLocalChanges now c i st) = cachedEvents st"
    by (simp add: clearLocalChanges_def saveReadModel_def deleteReadModel_def split: option.split)
qed

lemma clear_all:
  assumes "rows_keyed st"
  shows "rows_keyed (fold (clear_tracked now) keys st) \<and>
    cachedEvents (fold (clear_tracked now) keys st) = cachedEvents st \<and>
    map_get (readModels (fold (clear_tracked now) keys st)) k =
      (if k \<in> set keys \<and> names_row k then restored now (map_get (readModels st) k) else map_get (readModels st) k)"
  using assms
proof (induction keys arbitrary: st)
  case (Cons key keys)
  have one: "rows_keyed (clear_tracked now key st) \<and> cachedEvents (clear_tracked now key st) = cachedEvents st \<and>
      map_get (readModels (clear_tracked now key st)) k =
        (if k = key \<and> names_row k then restored now (map_get (readModels st) k) else map_get (readModels st) k)"
  proof (cases "names_row key")
    case True
    then obtain c i where s: "split_key key = Some (c, i)" "c \<noteq> []" "i \<noteq> []" by (auto simp: names_row_def)
    then have "clear_tracked now key st = clearLocalChanges now c i st" by (simp add: clear_tracked_def)
    with clear_row [OF Cons.prems] split_key_join [OF s(1)] True show ?thesis by auto
  next
    case False
    then have "clear_tracked now key st = st"
      by (auto simp: clear_tracked_def names_row_def split: option.split)
    with False Cons.prems show ?thesis by auto
  qed
  with Cons.IH [of "clear_tracked now key st"] show ?case by auto
qed simp

section \<open>Dropping the overlay of a command\<close>

text \<open>
  C28: What a failed command leaves behind.  When a command fails or is cancelled, its anticipated events are
  gone and every other cached event is unchanged; its tracked rows are forgotten and those of other commands are
  not; each tracked row shows its server data again, and a row that only had local data is gone; no other row
  changes.  A row that was deleted ahead of the server is not restored: what is not there stays away.
\<close>
theorem failed_overlay_dropped:
  assumes inv: "storage_inv (an_storage a)"
  shows "getAnticipatedEventsByCommand (an_storage (cleanupOnFailure now cid a)) cid = []
    \<and> (\<forall>i. map_get (cachedEvents (an_storage (cleanupOnFailure now cid a))) i =
        Option.bind (map_get (cachedEvents (an_storage a)) i)
          (\<lambda>e. if ev_persistence e = AnticipatedEvent \<and> ev_commandId e = Some cid then None else Some e))
    \<and> (\<forall>other. getTrackedEntries (cleanupOnFailure now cid a) other = (if other = cid then None else getTrackedEntries a other))
    \<and> (\<forall>k. map_get (readModels (an_storage (cleanupOnFailure now cid a))) k =
        (if k \<in> set (or_default (getTrackedEntries a cid) []) \<and> names_row k
         then restored now (map_get (readModels (an_storage a)) k) else map_get (readModels (an_storage a)) k))"
proof -
  let ?st = "deleteAnticipatedEventsByCommand cid (an_storage a)"
  let ?keys = "or_default (getTrackedEntries a cid) []"
  have ev: "map_get (cachedEvents ?st) i = Option.bind (map_get (cachedEvents (an_storage a)) i)
      (\<lambda>e. if ev_persistence e = AnticipatedEvent \<and> ev_commandId e = Some cid then None else Some e)" for i
    using storage_invD(3) [OF inv]
    by (cases "map_get (cachedEvents (an_storage a)) i")
      (simp_all add: deleteAnticipatedEventsByCommand_def delete_events_where_def map_get_rewrite_values)
  have inv': "storage_inv ?st" unfolding deleteAnticipatedEventsByCommand_def by (rule inv_delete_events [OF inv])
  have rows: "readModels ?st = readModels (an_storage a)"
    by (simp add: deleteAnticipatedEventsByCommand_def delete_events_where_def)
  have keyed: "rows_keyed ?st" using storage_invD(4) [OF inv'] by (simp add: rows_keyed_def)
  have eq: "an_storage (cleanupOnFailure now cid a) = fold (clear_tracked now) ?keys ?st"
    by (auto simp: cleanupOnFailure_def drop_overlay_def Let_def set_an_storage_def deleteAnticipatedEvents_def
        getTrackedEntries_def or_default_def split: option.split)
  have all: "cachedEvents (fold (clear_tracked now) ?keys ?st) = cachedEvents ?st"
    "map_get (readModels (fold (clear_tracked now) ?keys ?st)) k =
      (if k \<in> set ?keys \<and> names_row k then restored now (map_get (readModels ?st) k) else map_get (readModels ?st) k)" for k
    using clear_all [OF keyed] by blast+
  have "getAnticipatedEventsByCommand (fold (clear_tracked now) ?keys ?st) cid = []"
  proof -
    have "\<not> (ev_persistence e = AnticipatedEvent \<and> ev_commandId e = Some cid)" if "(i, e) \<in> set (cachedEvents ?st)" for i e
    proof -
      have "map_get (cachedEvents ?st) i = Some e"
        using storage_invD(3) [OF inv'] that by (simp add: keyed_by_def map_wf_get)
      then show ?thesis using ev [of i] by (auto split: Option.bind_splits if_splits)
    qed
    then show ?thesis by (auto simp: getAnticipatedEventsByCommand_def all(1) filter_empty_conv)
  qed
  moreover have "getTrackedEntries (cleanupOnFailure now cid a) other = (if other = cid then None else getTrackedEntries a other)" for other
    by (simp add: cleanupOnFailure_def drop_overlay_def Let_def set_an_storage_def getTrackedEntries_def split: option.split)
  ultimately show ?thesis using ev all by (simp add: eq rows)
qed

definition overlaid_row :: readModelRecord where
  "overlaid_row = \<lparr>rm_id = ''d1'', rm_collection = ''docs'', rm_cacheKeys = [''k''], rm_serverData = Some ''{}'',
    rm_effectiveData = ''[]'', rm_hasLocalChanges = True, rm_updatedAt = 1, rm_revision = None, rm_position = None,
    rm_clientMetadata = None\<rparr>"

definition overlaid :: "unit anticipation" where
  "overlaid = \<lparr>an_cache = new_eventCache (saveReadModel overlaid_row new_storage), an_tracked = [(''p'', [''docs:d1''])],
    an_emitted = [], an_nextEvent = 0\<rparr>"

theorem failed_overlay_dropped_witness:
  "map_get (readModels (an_storage (cleanupOnFailure 9 ''p'' overlaid))) ''docs:d1'' =
    Some (overlaid_row\<lparr>rm_effectiveData := ''{}'', rm_hasLocalChanges := False, rm_updatedAt := 9\<rparr>)"
proof -
  have inv: "storage_inv (an_storage overlaid)"
    by (simp add: overlaid_def new_eventCache_def)
      (rule inv_saveReadModel [OF storage_inv_new], simp add: overlaid_row_def plain_collection_def)
  have named: "''docs:d1'' \<in> set (or_default (getTrackedEntries overlaid ''p'') [])" "names_row ''docs:d1''"
    by (simp_all add: overlaid_def getTrackedEntries_def or_default_def names_row_def split_key_def)
  have row: "map_get (readModels (an_storage overlaid)) ''docs:d1'' = Some overlaid_row"
    by (simp add: overlaid_def new_eventCache_def saveReadModel_def overlaid_row_def getReadModelKey_def)
  have "map_get (readModels (an_storage (cleanupOnFailure 9 ''p'' overlaid))) ''docs:d1'' = restored 9 (Some overlaid_row)"
    using failed_overlay_dropped [OF inv, of 9 "''p''"] named row by simp
  then show ?thesis by (simp add: restored_def overlaid_row_def)
qed

end
