(* ===== verification/Reconcile.thy ===== *)
theory Reconcile
  imports CommandApi
begin

text \<open>
  The forward walk over the pending commands after a batch of server events,
  \<^verbatim>\<open>core/sync-manager/reconcilePendingCommands.ts\<close>, with \<^verbatim>\<open>findPrimaryCollection.ts\<close> and
  \<^verbatim>\<open>PrimaryCollectionResolver.ts\<close>.

  The code compares states by reference.  A processor is taken to return objects it has built, so that an
  object it returns is none that a map holds; \<open>rc_written\<close> lists the keys at which the walk stored one.
\<close>

section \<open>The primary collection of a command type\<close>

definition findPrimaryCollection :: "'x queueCollection_scheme list \<Rightarrow> aggregateConfig \<Rightarrow> 'x queueCollection_scheme option" where
  "findPrimaryCollection collections aggregate =
    find (\<lambda>c. matchesAggregate (getLinkMatcher (qc_aggregate c)) aggregate) collections"

text \<open>The memoised lookup.  An executor has one registration per command type, which stands for it here.\<close>

record 'x primaryResolver =
  prr_collections :: "'x queueCollection_scheme list"
  prr_cache :: "(string, 'x queueCollection_scheme option) jsmap"

definition new_primaryResolver :: "'x queueCollection_scheme list \<Rightarrow> 'x primaryResolver" where
  "new_primaryResolver collections = \<lparr>prr_collections = collections, prr_cache = []\<rparr>"

definition primary_of ::
  "'x queueCollection_scheme list \<Rightarrow> ('s, 'k) handlerRegistration \<Rightarrow> 'x queueCollection_scheme option" where
  "primary_of collections registration =
    (case hr_aggregate registration of
       Some aggregate \<Rightarrow> findPrimaryCollection collections aggregate | None \<Rightarrow> None)"

definition resolve_primary ::
  "('s, 'k) handlerRegistration \<Rightarrow> 'x primaryResolver \<Rightarrow> 'x queueCollection_scheme option \<times> 'x primaryResolver" where
  "resolve_primary registration r =
    (case map_get (prr_cache r) (hr_commandType registration) of
       Some collection \<Rightarrow> (collection, r)
     | None \<Rightarrow>
         (let collection = primary_of (prr_collections r) registration
          in (collection, r\<lparr>prr_cache := map_set (hr_commandType registration) collection (prr_cache r)\<rparr>)))"

section \<open>Working state\<close>

definition stateKey :: "string \<Rightarrow> string \<Rightarrow> string" where
  "stateKey collection entityId = collection @ '':'' @ entityId"

text \<open>A state that is \<open>undefined\<close> counts as none.\<close>

definition defined_state :: "jsval \<Rightarrow> jsval option" where
  "defined_state v = (if v = JUndef then None else Some v)"

fun applyOp :: "jsval option \<Rightarrow> updateOperation \<Rightarrow> jsval option" where
  "applyOp state (SetOp data) = defined_state data"
| "applyOp state (MergeOp data) =
    (case state of Some s \<Rightarrow> Some (JObj (spread_over s data)) | None \<Rightarrow> defined_state data)"
| "applyOp state DeleteOp = None"

type_synonym workingState = "(string, jsval) jsmap"

definition state_at :: "workingState \<Rightarrow> workingState \<Rightarrow> string \<Rightarrow> jsval option" where
  "state_at client server key = first_some (map_get client key) (map_get server key)"

record walkState =
  rc_dirty :: "string list"
  rc_client :: workingState
  rc_written :: "string list"
  rc_events :: "(string, anticipatedEvent list) jsmap"
  rc_conflicts :: "(string, conflictException) jsmap"

definition fold_row :: "workingState \<Rightarrow> processorResult \<Rightarrow> walkState \<Rightarrow> walkState" where
  "fold_row server r w =
    (case row_key (pr_id r) of
       None \<Rightarrow> w
     | Some rowKey \<Rightarrow>
         (let key = stateKey (pr_collection r) rowKey
          in case applyOp (state_at (rc_client w) server key) (pr_update r) of
               None \<Rightarrow>
                 if map_has (rc_client w) key
                 then w\<lparr>rc_client := map_delete key (rc_client w), rc_dirty := set_add key (rc_dirty w)\<rparr>
                 else w
             | Some after \<Rightarrow>
                 w\<lparr>rc_client := map_set key after (rc_client w), rc_dirty := set_add key (rc_dirty w),
                   rc_written := set_add key (rc_written w)\<rparr>))"

text \<open>
  The state a processor is given is looked up under the id of the entity alone.
\<close>

definition processor_state :: "workingState \<Rightarrow> anticipatedEvent \<Rightarrow> walkState \<Rightarrow> jsval option" where
  "processor_state server event w =
    (case row_key (js_member (an_data event) ''id'') of
       None \<Rightarrow> None | Some i \<Rightarrow> state_at (rc_client w) server i)"

definition fold_event ::
  "anticipatedEvent processorRegistry \<Rightarrow> workingState \<Rightarrow> command \<Rightarrow> anticipatedEvent \<Rightarrow> walkState \<Rightarrow> walkState" where
  "fold_event processors server c event w =
    fold (\<lambda>processor w'.
        fold (fold_row server)
          (processor_results (processor event (processor_state server event w') (anticipated_context (commandId c) event))) w')
      (getProcessors processors (an_type event) AnticipatedEvent) w"

section \<open>The walk\<close>

record 's walkInput =
  wi_executor :: "('s, cacheKeyIdentity) domainExecutor"
  wi_primary :: "('s, cacheKeyIdentity) handlerRegistration \<Rightarrow> string option"
  wi_entity :: "command \<Rightarrow> string option"
  wi_processors :: "anticipatedEvent processorRegistry"
  wi_server :: workingState

text \<open>The key of the command's own entity; the primary collection is known by its name.\<close>

definition primary_key :: "'s walkInput \<Rightarrow> command \<Rightarrow> string option" where
  "primary_key wi c =
    Option.bind (getRegistration_of (wi_executor wi) (cmd_type c)) (\<lambda>registration.
    Option.bind (wi_primary wi registration) (\<lambda>collection.
    map_option (stateKey collection) (truthy_text (wi_entity wi c))))"

text \<open>The handler runs again on what the record holds: no headers, and references left as plain ids.\<close>

definition rerun_handler :: "'s walkInput \<Rightarrow> command \<Rightarrow> string \<Rightarrow> domainOutcome" where
  "rerun_handler wi c key =
    executor_handle (wi_executor wi)
      \<lparr>hc_type = cmd_type c, hc_data = cb_data (cmd_body c), hc_path = cb_path (cmd_body c), hc_headers = JUndef,
       hc_fileRefs = cb_fileRefs (cmd_body c)\<rparr>
      (RegenerateState (cb_modelState (cmd_body c))
        (case map_get (wi_server wi) key of Some s \<Rightarrow> s | None \<Rightarrow> JUndef))
      (Updating (or_default (wi_entity wi c) []) (commandId c) (map_option creates_idStrategy (cb_creates (cmd_body c))))"

definition walk_command :: "'s walkInput \<Rightarrow> command \<Rightarrow> walkState \<Rightarrow> walkState" where
  "walk_command wi c w =
    (case primary_key wi c of
       None \<Rightarrow> w
     | Some key \<Rightarrow>
         if key \<notin> set (rc_dirty w) then w
         else (case rerun_handler wi c key of
             DomainSuccess events plan \<Rightarrow>
               fold (fold_event (wi_processors wi) (wi_server wi) c) events
                 (w\<lparr>rc_events := map_set (commandId c) events (rc_events w)\<rparr>)
           | DomainConflict e \<Rightarrow> w\<lparr>rc_conflicts := map_set (commandId c) e (rc_conflicts w)\<rparr>
           | _ \<Rightarrow> w))"

definition reconcilePendingCommands :: "'s walkInput \<Rightarrow> string list \<Rightarrow> command list \<Rightarrow> workingState \<Rightarrow> walkState" where
  "reconcilePendingCommands wi initialDirty cs initialClient =
    fold (walk_command wi) cs
      \<lparr>rc_dirty = initialDirty, rc_client = initialClient, rc_written = [], rc_events = [], rc_conflicts = []\<rparr>"

section \<open>What the walk changes\<close>

text \<open>One part of the walk: keys only become dirty, and the client state changes only at dirty keys.\<close>

definition walks :: "walkState \<Rightarrow> walkState \<Rightarrow> bool" where
  "walks w w' \<longleftrightarrow> set (rc_dirty w) \<subseteq> set (rc_dirty w') \<and> set (rc_written w) \<subseteq> set (rc_written w')
    \<and> set (rc_written w') \<subseteq> set (rc_written w) \<union> set (rc_dirty w')
    \<and> (\<forall>k. k \<notin> set (rc_dirty w') \<longrightarrow> map_get (rc_client w') k = map_get (rc_client w) k)
    \<and> (\<forall>k. k \<notin> set (rc_written w') \<longrightarrow> map_get (rc_client w') k \<in> {None, map_get (rc_client w) k})
    \<and> (\<forall>k. k \<in> set (rc_dirty w') \<longrightarrow> k \<notin> set (rc_dirty w) \<longrightarrow> (\<exists>c i. k = stateKey c i))
    \<and> (\<forall>k. map_get (rc_client w') k \<noteq> None \<longrightarrow> map_get (rc_client w) k = None \<longrightarrow> (\<exists>c i. k = stateKey c i))"

lemma walksD:
  assumes "walks w w'"
  shows "k \<in> set (rc_dirty w) \<Longrightarrow> k \<in> set (rc_dirty w')"
    "k \<in> set (rc_written w) \<Longrightarrow> k \<in> set (rc_written w')"
    "k \<in> set (rc_written w') \<Longrightarrow> k \<in> set (rc_written w) \<or> k \<in> set (rc_dirty w')"
    "k \<notin> set (rc_dirty w') \<Longrightarrow> map_get (rc_client w') k = map_get (rc_client w) k"
    "k \<notin> set (rc_written w') \<Longrightarrow> map_get (rc_client w') k = None \<or> map_get (rc_client w') k = map_get (rc_client w) k"
    "k \<in> set (rc_dirty w') \<Longrightarrow> k \<in> set (rc_dirty w) \<or> (\<exists>c i. k = stateKey c i)"
    "map_get (rc_client w') k \<noteq> None \<Longrightarrow> map_get (rc_client w) k \<noteq> None \<or> (\<exists>c i. k = stateKey c i)"
  using assms unfolding walks_def by blast+

lemma walks_refl [simp]: "walks w w"
  by (auto simp: walks_def)

lemma walks_trans:
  assumes "walks a b" "walks b c" shows "walks a c"
proof -
  note ab = walksD [OF assms(1)] and bc = walksD [OF assms(2)]
  have "k \<notin> set (rc_dirty c) \<Longrightarrow> map_get (rc_client c) k = map_get (rc_client a) k" for k
    using ab(1,4) bc(1,4) by metis
  moreover have "k \<notin> set (rc_written c) \<Longrightarrow>
      map_get (rc_client c) k = None \<or> map_get (rc_client c) k = map_get (rc_client a) k" for k
    using ab(2,5) bc(2,5) by metis
  moreover have "map_get (rc_client c) k \<noteq> None \<Longrightarrow> map_get (rc_client a) k = None \<Longrightarrow> \<exists>c i. k = stateKey c i" for k
    using ab(7) bc(7) by metis
  moreover have "k \<in> set (rc_written c) \<Longrightarrow> k \<in> set (rc_written a) \<or> k \<in> set (rc_dirty c)" for k
    using ab(3) bc(1,3) by blast
  moreover have "k \<in> set (rc_dirty c) \<Longrightarrow> k \<notin> set (rc_dirty a) \<Longrightarrow> \<exists>c i. k = stateKey c i" for k
    using ab(6) bc(6) by blast
  ultimately show ?thesis
    unfolding walks_def using ab(1,2) bc(1,2) by (intro conjI) (simp_all add: subset_iff)
qed

lemma walks_fold: "(\<And>x w. walks w (f x w)) \<Longrightarrow> walks w (fold f xs w)"
  by (induction xs arbitrary: w) (auto intro: walks_trans)

lemma walks_row: "walks w (fold_row server r w)"
  by (auto simp: walks_def fold_row_def Let_def map_has_def split: option.splits)

lemma row_keeps [simp]: "rc_events (fold_row server r w) = rc_events w" "rc_conflicts (fold_row server r w) = rc_conflicts w"
  by (simp_all add: fold_row_def Let_def split: option.split)

lemma fold_keeps: "(\<And>x w. g (f x w) = g w) \<Longrightarrow> g (fold f xs w) = g w"
  by (induction xs arbitrary: w) simp_all

lemma event_keeps [simp]:
  "rc_events (fold_event ps server c e w) = rc_events w" "rc_conflicts (fold_event ps server c e w) = rc_conflicts w"
  unfolding fold_event_def by (rule fold_keeps, rule fold_keeps, simp)+

lemma events_keep [simp]:
  "rc_events (fold (fold_event ps server c) es w) = rc_events w"
  "rc_conflicts (fold (fold_event ps server c) es w) = rc_conflicts w"
  by (rule fold_keeps, simp)+

lemma walks_event: "walks w (fold_event ps server c e w)"
  unfolding fold_event_def by (intro walks_fold walks_row)

lemma walks_command: "walks w (walk_command wi c w)"
proof -
  have "walks w (fold (fold_event ps server c) es (w\<lparr>rc_events := x\<rparr>))" for ps server es x
    by (rule walks_trans [OF _ walks_fold [OF walks_event]]) (auto simp: walks_def)
  then show ?thesis by (auto simp: walk_command_def walks_def [of w "w\<lparr>rc_conflicts := _\<rparr>"] split: option.split domainOutcome.split)
qed

lemma walks_commands: "walks w (fold (walk_command wi) cs w)"
  by (rule walks_fold [OF walks_command])

text \<open>Only the command's own entries of the two results change.\<close>

lemma walk_command_results:
  "map_get (rc_events (walk_command wi c w)) i =
    (case primary_key wi c of
       Some key \<Rightarrow> if i = commandId c \<and> key \<in> set (rc_dirty w)
         then (case rerun_handler wi c key of DomainSuccess es plan \<Rightarrow> Some es | _ \<Rightarrow> map_get (rc_events w) i)
         else map_get (rc_events w) i
     | None \<Rightarrow> map_get (rc_events w) i)"
  "map_get (rc_conflicts (walk_command wi c w)) i =
    (case primary_key wi c of
       Some key \<Rightarrow> if i = commandId c \<and> key \<in> set (rc_dirty w)
         then (case rerun_handler wi c key of DomainConflict e \<Rightarrow> Some e | _ \<Rightarrow> map_get (rc_conflicts w) i)
         else map_get (rc_conflicts w) i
     | None \<Rightarrow> map_get (rc_conflicts w) i)"
  by (simp_all add: walk_command_def split: option.split domainOutcome.split)

lemma walk_other_results:
  assumes "i \<notin> commandId ` set cs"
  shows "map_get (rc_events (fold (walk_command wi) cs w)) i = map_get (rc_events w) i"
    "map_get (rc_conflicts (fold (walk_command wi) cs w)) i = map_get (rc_conflicts w) i"
  using assms
proof (induction cs arbitrary: w)
  case (Cons c cs)
  { case 1 then show ?case using Cons.IH(1) [of "walk_command wi c w"] by (simp add: walk_command_results split: option.split) }
  { case 2 then show ?case using Cons.IH(2) [of "walk_command wi c w"] by (simp add: walk_command_results split: option.split) }
qed simp_all

section \<open>Theorems\<close>

text \<open>The walk from its initial state.\<close>

abbreviation walk_start :: "string list \<Rightarrow> workingState \<Rightarrow> walkState" where
  "walk_start dirty client \<equiv>
    \<lparr>rc_dirty = dirty, rc_client = client, rc_written = [], rc_events = [], rc_conflicts = []\<rparr>"

text \<open>
  The client state changes only at keys that end up dirty, keys never stop being dirty, and a batch that
  touches the entity of no pending command leaves everything as it was.
\<close>

lemma walk_idle:
  assumes "\<And>c key. c \<in> set cs \<Longrightarrow> primary_key wi c = Some key \<Longrightarrow> key \<notin> set (rc_dirty w)"
  shows "fold (walk_command wi) cs w = w"
  using assms
proof (induction cs)
  case (Cons c cs)
  then have "walk_command wi c w = w" by (auto simp: walk_command_def split: option.split)
  moreover have "fold (walk_command wi) cs w = w" using Cons.prems by (intro Cons.IH) auto
  ultimately show ?case by simp
qed simp

theorem reconcile_frame:
  "set dirty \<subseteq> set (rc_dirty (reconcilePendingCommands wi dirty cs client))
   \<and> (\<forall>k. k \<notin> set (rc_dirty (reconcilePendingCommands wi dirty cs client)) \<longrightarrow>
       map_get (rc_client (reconcilePendingCommands wi dirty cs client)) k = map_get client k)
   \<and> ((\<forall>c\<in>set cs. \<forall>key\<in>set dirty. primary_key wi c \<noteq> Some key) \<longrightarrow>
       reconcilePendingCommands wi dirty cs client = walk_start dirty client)"
proof (intro conjI impI)
  note w = walks_commands [of "walk_start dirty client" wi cs, folded reconcilePendingCommands_def]
  show "set dirty \<subseteq> set (rc_dirty (reconcilePendingCommands wi dirty cs client))"
    using walksD(1) [OF w] by auto
  show "\<forall>k. k \<notin> set (rc_dirty (reconcilePendingCommands wi dirty cs client)) \<longrightarrow>
       map_get (rc_client (reconcilePendingCommands wi dirty cs client)) k = map_get client k"
    using walksD(4) [OF w] by simp
  assume "\<forall>c\<in>set cs. \<forall>key\<in>set dirty. primary_key wi c \<noteq> Some key"
  then show "reconcilePendingCommands wi dirty cs client = walk_start dirty client"
    unfolding reconcilePendingCommands_def by (intro walk_idle) auto
qed

text \<open>
  Processors get no state: the maps are keyed by collection and entity, the lookup uses the entity's id.
\<close>

lemma stateKey_colon: "CHR '':'' \<in> set (stateKey c i)"
  by (simp add: stateKey_def)

theorem processors_see_no_state:
  assumes "\<And>k. map_get client k \<noteq> None \<Longrightarrow> \<exists>c i. k = stateKey c i"
    and "\<And>k. map_get (wi_server wi) k \<noteq> None \<Longrightarrow> \<exists>c i. k = stateKey c i"
    and "\<And>i. row_key (js_member (an_data event) ''id'') = Some i \<Longrightarrow> CHR '':'' \<notin> set i"
    and "w = fold (fold_event (wi_processors wi) (wi_server wi) c) es (reconcilePendingCommands wi dirty cs client)"
  shows "processor_state (wi_server wi) event w = None"
proof -
  have w: "walks (walk_start dirty client) w"
    unfolding assms(4) reconcilePendingCommands_def
    by (rule walks_trans [OF walks_commands walks_fold [OF walks_event]])
  have no: "\<not> (\<exists>c k. i = stateKey c k)" if "CHR '':'' \<notin> set i" for i
    using that stateKey_colon by metis
  have "map_get (rc_client w) i = None" "map_get (wi_server wi) i = None" if "CHR '':'' \<notin> set i" for i
    using walksD(7) [OF w, of i] assms(1,2) [of i] no [OF that]
    by (auto simp: not_None_eq [symmetric] simp del: not_None_eq)
  then show ?thesis
    using assms(3) by (auto simp: processor_state_def state_at_def first_some_def split: option.split)
qed

text \<open>The memo changes nothing: looked up in any order, every registration gets its primary collection.\<close>

fun resolve_each ::
  "('s, 'k) handlerRegistration list \<Rightarrow> 'x primaryResolver \<Rightarrow> 'x queueCollection_scheme option list" where
  "resolve_each [] r = []"
| "resolve_each (g # gs) r = (case resolve_primary g r of (c, r') \<Rightarrow> c # resolve_each gs r')"

lemma resolve_each_memo:
  assumes "\<And>g h. g \<in> set gs \<union> past \<Longrightarrow> h \<in> set gs \<union> past \<Longrightarrow> hr_commandType g = hr_commandType h \<Longrightarrow> g = h"
    and "\<And>t c. map_get (prr_cache r) t = Some c \<Longrightarrow>
      \<exists>g\<in>past. hr_commandType g = t \<and> c = primary_of (prr_collections r) g"
  shows "resolve_each gs r = map (primary_of (prr_collections r)) gs"
  using assms
proof (induction gs arbitrary: r past)
  case (Cons g gs)
  obtain c r' where r': "resolve_primary g r = (c, r')" by (metis surj_pair)
  have same: "prr_collections r' = prr_collections r"
    using r' by (auto simp: resolve_primary_def Let_def split: option.splits)
  have c: "c = primary_of (prr_collections r) g"
  proof (cases "map_get (prr_cache r) (hr_commandType g)")
    case None
    then show ?thesis using r' by (simp add: resolve_primary_def Let_def)
  next
    case (Some d)
    then obtain h where "h \<in> past" "hr_commandType h = hr_commandType g" "d = primary_of (prr_collections r) h"
      using Cons.prems(2) by blast
    then show ?thesis using Some r' Cons.prems(1) [of h g] by (auto simp: resolve_primary_def)
  qed
  have cache: "map_get (prr_cache r') t = Some d \<Longrightarrow> map_get (prr_cache r) t = Some d \<or> t = hr_commandType g \<and> d = c" for t d
    using r' by (auto simp: resolve_primary_def Let_def split: option.splits if_splits)
  have "\<exists>g'\<in>insert g past. hr_commandType g' = t \<and> d = primary_of (prr_collections r') g'"
    if "map_get (prr_cache r') t = Some d" for t d
    using cache [OF that] Cons.prems(2) [of t d] unfolding same c by blast
  then have "resolve_each gs r' = map (primary_of (prr_collections r')) gs"
    by (intro Cons.IH [of "insert g past"]) (auto intro: Cons.prems(1))
  then show ?case by (simp add: r' c same)
qed simp

theorem memoised_primary_collection:
  assumes "\<And>g h. g \<in> set gs \<Longrightarrow> h \<in> set gs \<Longrightarrow> hr_commandType g = hr_commandType h \<Longrightarrow> g = h"
  shows "resolve_each gs (new_primaryResolver collections) = map (primary_of collections) gs"
  using resolve_each_memo [of gs "{}" "new_primaryResolver collections"] assms
  by (simp add: new_primaryResolver_def)

end
