(* ===== verification/ServerFold.thy ===== *)
theory ServerFold
  imports Reconcile WsPipeline
begin

text \<open>
  How a batch of server events or records becomes a change of server state, before anything is written:
  \<^verbatim>\<open>reconcileFromWsEvents\<close> and \<^verbatim>\<open>onApplyRecords\<close> of
  \<^verbatim>\<open>packages/client/src/core/sync-manager/SyncManager.ts\<close>.  Every server event carries the id of its
  aggregate as the string \<open>data.id\<close>, which is an invariant of the servers.  As in theory \<open>Reconcile\<close>, an
  object a processor returns is none that a map holds.
\<close>

section \<open>Environment and results\<close>

record syncCollection = queueCollection +
  sc_matchesStream :: "string \<Rightarrow> bool"
  sc_revisionPath :: "string option"

record 's syncEnv =
  sy_queue :: "'s queueEnv"
  sy_collections :: "syncCollection list"
  sy_processors :: "serverEvent processorRegistry"
  sy_junctions :: "(string, junctionStep list) jsmap"

record idResolution =
  ir_serverId :: string
  ir_ref :: jsval
  ir_revision :: int
  ir_aggregate :: aggregateConfig

record deferredApplication =
  da_result :: processorResult
  da_cacheKey :: string
  da_revisionMeta :: "revisionMeta option"

record serverStateChange =
  ch_dirty :: "string list"
  ch_server :: workingState
  ch_client :: workingState
  ch_cacheKeys :: "(string, string list) jsmap"
  ch_modified :: "(string, string list) jsmap"
  ch_commandIds :: "(string, string list) jsmap"
  ch_idMap :: "(string, idResolution) jsmap"
  ch_tempIds :: "string list"
  ch_preloaded :: "(string, readModel) jsmap"
  ch_pending :: "deferredApplication list"

record eventDebug =
  ed_updatedIds :: "string list"
  ed_invalidated :: bool

text \<open>A set kept in a map: \<open>recordModified\<close>, \<open>recordCommandId\<close> and \<open>recordCacheKey\<close>.\<close>

definition record_in :: "string \<Rightarrow> string \<Rightarrow> (string, string list) jsmap \<Rightarrow> (string, string list) jsmap" where
  "record_in k v m = map_set k (set_add v (indexed m k)) m"

definition add_state :: "string \<Rightarrow> jsval option \<Rightarrow> workingState \<Rightarrow> workingState" where
  "add_state k v m = (case v of Some d \<Rightarrow> if is_object d then map_set k d m else m | None \<Rightarrow> m)"

definition load_server :: "(string, readModel) jsmap \<Rightarrow> workingState \<Rightarrow> workingState" where
  "load_server records m = fold (\<lambda>(k, r). add_state k (rdm_serverData r)) records m"

definition load_client :: "(string, readModel) jsmap \<Rightarrow> workingState \<Rightarrow> workingState" where
  "load_client records m = fold (\<lambda>(k, r). add_state k (Some (rdm_data r))) records m"

section \<open>The scan\<close>

record scannedEvent =
  sn_event :: serverEvent
  sn_primary :: syncCollection
  sn_matching :: "syncCollection list"
  sn_cacheKeys :: "string list"
  sn_serverId :: string

definition matching_collections :: "syncCollection list \<Rightarrow> string \<Rightarrow> syncCollection list" where
  "matching_collections cols streamId = filter (\<lambda>c. sc_matchesStream c streamId) cols"

definition scan_entry :: "syncCollection list \<Rightarrow> wsEntry \<Rightarrow> scannedEvent option" where
  "scan_entry cols entry =
    (case matching_collections cols (se_streamId (we_event entry)) of
       [] \<Rightarrow> None
     | primary # rest \<Rightarrow>
         Some \<lparr>sn_event = we_event entry, sn_primary = primary, sn_matching = primary # rest,
           sn_cacheKeys = we_cacheKeys entry, sn_serverId = string_of (js_member (se_data (we_event entry)) ''id'')\<rparr>)"

text \<open>The creations under a temporary id that may still be resolved: temporary id and command, by command id.\<close>

definition is_temporary_create :: "command \<Rightarrow> bool" where
  "is_temporary_create c \<longleftrightarrow> map_option creates_idStrategy (cb_creates (cmd_body c)) = Some Temporary"

definition reconcile_statuses :: "commandStatus oneOrMany" where
  "reconcile_statuses = Many [Pending, Blocked, Sending, Succeeded]"

definition pending_creates :: "'s syncEnv \<Rightarrow> commandQueue \<Rightarrow> (string, string \<times> command) jsmap" where
  "pending_creates env q =
    (if qe_executor (sy_queue env) = None then []
     else fold (\<lambda>c m. if \<not> is_temporary_create c then m
         else (case truthy_text (getEntityIdForCommand c q) of
             None \<Rightarrow> m | Some tempId \<Rightarrow> map_set (commandId c) (tempId, c) m))
       (cs_getByStatus reconcile_statuses (commands_of q)) [])"

section \<open>One event\<close>

record serverFold =
  sf_change :: serverStateChange
  sf_locked :: "string list"
  sf_results :: "(string, eventDebug) jsmap"
  sf_refetches :: "(string \<times> string list) list"

definition with_change :: "(serverStateChange \<Rightarrow> serverStateChange) \<Rightarrow> serverFold \<Rightarrow> serverFold" where
  "with_change f sf = sf\<lparr>sf_change := f (sf_change sf)\<rparr>"

definition debug_of :: "string \<Rightarrow> serverFold \<Rightarrow> eventDebug" where
  "debug_of i sf = (case map_get (sf_results sf) i of
     Some d \<Rightarrow> d | None \<Rightarrow> \<lparr>ed_updatedIds = [], ed_invalidated = False\<rparr>)"

definition note_debug :: "string \<Rightarrow> (eventDebug \<Rightarrow> eventDebug) \<Rightarrow> serverFold \<Rightarrow> serverFold" where
  "note_debug i f sf = sf\<lparr>sf_results := map_set i (f (debug_of i sf)) (sf_results sf)\<rparr>"

text \<open>The server state after one result, and the key it makes dirty.\<close>

definition server_step :: "string \<Rightarrow> updateOperation \<Rightarrow> serverStateChange \<Rightarrow> serverStateChange" where
  "server_step key op ch =
    (let before = map_get (ch_server ch) key
     in case applyOp before op of
          None \<Rightarrow>
            if before \<noteq> None
            then ch\<lparr>ch_server := map_delete key (ch_server ch), ch_dirty := set_add key (ch_dirty ch)\<rparr>
            else ch
        | Some after \<Rightarrow> ch\<lparr>ch_server := map_set key after (ch_server ch), ch_dirty := set_add key (ch_dirty ch)\<rparr>)"

definition server_meta :: "serverEvent \<Rightarrow> revisionMeta option" where
  "server_meta e =
    (if normalizeEventPersistence e = PermanentEvent
     then Some \<lparr>meta_revision = se_revision e, meta_position = Some (se_position e)\<rparr> else None)"

text \<open>What one result adds: a deferred write per cache key, the bookkeeping, and the new server state.\<close>

definition stage_change :: "scannedEvent \<Rightarrow> processorResult \<Rightarrow> string \<Rightarrow> serverStateChange \<Rightarrow> serverStateChange" where
  "stage_change s r rowKey ch =
    (let key = stateKey (pr_collection r) rowKey;
         ch1 = ch\<lparr>ch_pending := ch_pending ch @ map (\<lambda>k. \<lparr>da_result = r, da_cacheKey = k,
             da_revisionMeta = server_meta (sn_event s)\<rparr>) (sn_cacheKeys s),
           ch_modified := record_in (pr_collection r) rowKey (ch_modified ch),
           ch_commandIds := (case extractCommandId (sn_event s) of
               Some cid \<Rightarrow> record_in (pr_collection r) cid (ch_commandIds ch) | None \<Rightarrow> ch_commandIds ch)\<rparr>;
         ch2 = server_step key (pr_update r) ch1
     in ch2\<lparr>ch_cacheKeys := fold (record_in key) (sn_cacheKeys s) (ch_cacheKeys ch2)\<rparr>)"

definition stage_result :: "scannedEvent \<Rightarrow> processorResult \<Rightarrow> serverFold \<Rightarrow> serverFold" where
  "stage_result s r sf =
    (case row_key (pr_id r) of
       None \<Rightarrow> sf
     | Some rowKey \<Rightarrow>
         note_debug (se_id (sn_event s))
           (\<lambda>d. d\<lparr>ed_updatedIds := ed_updatedIds d @ [pr_collection r @ '':'' @ rowKey]\<rparr>)
           (with_change (stage_change s r rowKey) sf))"

definition server_context :: "serverEvent \<Rightarrow> processorContext" where
  "server_context e =
    (let stateful = (normalizeEventPersistence e = StatefulEvent)
     in \<lparr>ctx_persistence = normalizeEventPersistence e, ctx_commandId = None,
         ctx_revision = (if stateful then None else Some (se_revision e)),
         ctx_position = (if stateful then None else Some (se_position e)),
         ctx_streamId = se_streamId e, ctx_eventId = se_id e\<rparr>)"

definition target_key :: "scannedEvent \<Rightarrow> string" where
  "target_key s = stateKey (qc_name (sn_primary s)) (sn_serverId s)"

text \<open>The processors in turn, up to the first that invalidates; the flag says whether one did.\<close>

fun run_processors :: "scannedEvent \<Rightarrow> serverEvent eventProcessor list \<Rightarrow> serverFold \<Rightarrow> bool \<times> serverFold" where
  "run_processors s [] sf = (False, sf)"
| "run_processors s (p # ps) sf =
    (case p (sn_event s) (map_get (ch_server (sf_change sf)) (target_key s)) (server_context (sn_event s)) of
       InvalidateReturn \<Rightarrow> (True, sf)
     | result \<Rightarrow> run_processors s ps (fold (stage_result s) (processor_results result) sf))"

text \<open>An event that echoes the id of a pending creation resolves its temporary id.\<close>

definition resolve_id :: "(string, string \<times> command) jsmap \<Rightarrow> scannedEvent \<Rightarrow> serverStateChange \<Rightarrow> serverStateChange" where
  "resolve_id creates s ch =
    (case Option.bind (extractCommandId (sn_event s)) (map_get creates) of
       None \<Rightarrow> ch
     | Some (tempId, c) \<Rightarrow>
         if tempId = sn_serverId s then ch
         else ch\<lparr>ch_idMap := map_set tempId
                  \<lparr>ir_serverId = sn_serverId s, ir_ref = createEntityRef tempId (commandId c) Temporary,
                   ir_revision = se_revision (sn_event s), ir_aggregate = qc_aggregate (sn_primary s)\<rparr> (ch_idMap ch),
                 ch_tempIds := set_add (stateKey (qc_name (sn_primary s)) tempId) (ch_tempIds ch)\<rparr>)"

definition processors_for :: "'s syncEnv \<Rightarrow> serverEvent \<Rightarrow> serverEvent eventProcessor list" where
  "processors_for env e = getProcessors (sy_processors env) (se_type e) (normalizeEventPersistence e)"

definition fold_server_event ::
  "'s syncEnv \<Rightarrow> (string, string \<times> command) jsmap \<Rightarrow> scannedEvent \<Rightarrow> serverFold \<Rightarrow> serverFold" where
  "fold_server_event env creates s sf =
    (let e = sn_event s;
         sf1 = sf\<lparr>sf_results := map_set (se_id e) \<lparr>ed_updatedIds = [], ed_invalidated = False\<rparr> (sf_results sf)\<rparr>
     in if target_key s \<in> set (sf_locked sf1) then sf1
        else (case run_processors s (processors_for env e) sf1 of
            (True, sf2) \<Rightarrow>
              (note_debug (se_id e) (\<lambda>d. d\<lparr>ed_invalidated := True\<rparr>) sf2)
              \<lparr>sf_locked := set_add (target_key s) (sf_locked sf2),
               sf_refetches := sf_refetches sf2 @ map (\<lambda>c. (qc_name c, sn_cacheKeys s)) (sn_matching s)\<rparr>
          | (False, sf2) \<Rightarrow> with_change (resolve_id creates s) sf2))"

section \<open>A batch of events\<close>

definition new_change :: "(string, readModel) jsmap \<Rightarrow> serverStateChange" where
  "new_change preloaded =
    \<lparr>ch_dirty = [], ch_server = load_server preloaded [], ch_client = load_client preloaded [], ch_cacheKeys = [],
     ch_modified = [], ch_commandIds = [], ch_idMap = [], ch_tempIds = [], ch_preloaded = preloaded, ch_pending = []\<rparr>"

definition new_fold :: "(string, readModel) jsmap \<Rightarrow> serverFold" where
  "new_fold preloaded =
    \<lparr>sf_change = new_change preloaded, sf_locked = [], sf_results = [], sf_refetches = []\<rparr>"

definition fold_server_events ::
  "'s syncEnv \<Rightarrow> (string, string \<times> command) jsmap \<Rightarrow> (string, readModel) jsmap \<Rightarrow> wsEntry list \<Rightarrow> serverFold" where
  "fold_server_events env creates preloaded batch =
    fold (fold_server_event env creates) (List.map_filter (scan_entry (sy_collections env)) batch) (new_fold preloaded)"

section \<open>A page of records\<close>

record seedRecord =
  sr_id :: string
  sr_data :: jsval
  sr_revision :: "int option"
  sr_position :: "int option"

definition stage_record :: "string \<Rightarrow> string \<Rightarrow> seedRecord \<Rightarrow> serverStateChange \<Rightarrow> serverStateChange" where
  "stage_record collection cacheKey r ch =
    (let key = stateKey collection (sr_id r)
     in ch\<lparr>ch_pending := ch_pending ch @ [\<lparr>da_result = \<lparr>pr_collection = collection, pr_id = JStr (sr_id r),
               pr_update = SetOp (sr_data r), pr_isServerUpdate = True\<rparr>, da_cacheKey = cacheKey,
               da_revisionMeta = map_option (\<lambda>v. \<lparr>meta_revision = v, meta_position = sr_position r\<rparr>) (sr_revision r)\<rparr>],
           ch_server := map_set key (sr_data r) (ch_server ch), ch_dirty := set_add key (ch_dirty ch),
           ch_cacheKeys := map_set key [cacheKey] (ch_cacheKeys ch),
           ch_modified := record_in collection (sr_id r) (ch_modified ch)\<rparr>)"

definition records_change :: "string \<Rightarrow> string \<Rightarrow> seedRecord list \<Rightarrow> serverStateChange" where
  "records_change collection cacheKey records = fold (stage_record collection cacheKey) records (new_change [])"

section \<open>What the fold does\<close>

lemma note_debug_keeps [simp]:
  "sf_change (note_debug i f sf) = sf_change sf" "sf_locked (note_debug i f sf) = sf_locked sf"
  "sf_refetches (note_debug i f sf) = sf_refetches sf"
  by (simp_all add: note_debug_def)

lemma stage_result_parts [simp]:
  "sf_change (stage_result s r sf) =
    (case row_key (pr_id r) of None \<Rightarrow> sf_change sf | Some i \<Rightarrow> stage_change s r i (sf_change sf))"
  "sf_locked (stage_result s r sf) = sf_locked sf"
  "sf_refetches (stage_result s r sf) = sf_refetches sf"
  by (simp_all add: stage_result_def with_change_def split: option.split)

text \<open>Everything but the debug records.\<close>

definition fold_core :: "serverFold \<Rightarrow> serverStateChange \<times> string list \<times> (string \<times> string list) list" where
  "fold_core sf = (sf_change sf, sf_locked sf, sf_refetches sf)"

lemma stage_core: "fold_core sf = fold_core sf' \<Longrightarrow> fold_core (stage_result s r sf) = fold_core (stage_result s r sf')"
  by (auto simp: fold_core_def split: option.split)

lemma stages_core:
  "fold_core sf = fold_core sf' \<Longrightarrow> fold_core (fold (stage_result s) rs sf) = fold_core (fold (stage_result s) rs sf')"
  by (induction rs arbitrary: sf sf') (simp, unfold fold_simps, blast intro: stage_core)

lemma stages_keep [simp]:
  "sf_locked (fold (stage_result s) rs sf) = sf_locked sf" "sf_refetches (fold (stage_result s) rs sf) = sf_refetches sf"
  by (induction rs arbitrary: sf) simp_all

lemma run_core:
  "fold_core sf = fold_core sf' \<Longrightarrow>
    fst (run_processors s ps sf) = fst (run_processors s ps sf') \<and>
    fold_core (snd (run_processors s ps sf)) = fold_core (snd (run_processors s ps sf'))"
proof (induction ps arbitrary: sf sf')
  case (Cons p ps)
  have "sf_change sf = sf_change sf'" using Cons.prems by (simp add: fold_core_def)
  then show ?case using Cons.IH [OF stages_core [OF Cons.prems]] Cons.IH [OF stage_core [OF Cons.prems]] Cons.IH [OF Cons.prems] Cons.prems
    by (simp split: processorReturn.split)
qed simp

lemma run_locked: "sf_locked (snd (run_processors s ps sf)) = sf_locked sf"
  by (induction ps arbitrary: sf) (simp_all split: processorReturn.split)

lemma run_lockedD: "run_processors s ps sf = (b, sf') \<Longrightarrow> sf_locked sf' = sf_locked sf"
  using run_locked [of s ps sf] by simp

lemma event_core:
  assumes "fold_core sf = fold_core sf'"
  shows "fold_core (fold_server_event env creates s sf) = fold_core (fold_server_event env creates s sf')"
proof -
  define r where "r = (\<lambda>x :: serverFold. x\<lparr>sf_results := map_set (se_id (sn_event s))
    \<lparr>ed_updatedIds = [], ed_invalidated = False\<rparr> (sf_results x)\<rparr>)"
  have "fold_core (r sf) = fold_core (r sf')" using assms by (simp add: r_def fold_core_def)
  from run_core [OF this, of s "processors_for env (sn_event s)"]
  show ?thesis using assms
    unfolding fold_server_event_def Let_def r_def [symmetric]
    by (auto simp: r_def fold_core_def with_change_def split: prod.splits bool.splits)
qed

lemma events_core:
  "fold_core sf = fold_core sf' \<Longrightarrow>
    fold_core (fold (fold_server_event env creates) ss sf) = fold_core (fold (fold_server_event env creates) ss sf')"
  by (induction ss arbitrary: sf sf') (simp, unfold fold_simps, blast intro: event_core)

lemma locked_event:
  "target_key s \<in> set (sf_locked sf) \<Longrightarrow> fold_core (fold_server_event env creates s sf) = fold_core sf"
  by (simp add: fold_server_event_def fold_core_def)

lemma locked_grows: "k \<in> set (sf_locked sf) \<Longrightarrow> k \<in> set (sf_locked (fold_server_event env creates s sf))"
  by (auto dest: run_lockedD simp: fold_server_event_def Let_def with_change_def split: prod.split bool.split)

lemma skip_locked:
  "k \<in> set (sf_locked sf) \<Longrightarrow> fold_core (fold (fold_server_event env creates) ss sf) =
    fold_core (fold (fold_server_event env creates) (filter (\<lambda>s. target_key s \<noteq> k) ss) sf)"
proof (induction ss arbitrary: sf)
  case (Cons s ss)
  show ?case
  proof (cases "target_key s = k")
    case True
    then have "fold_core (fold_server_event env creates s sf) = fold_core sf" using Cons.prems by (intro locked_event) simp
    from events_core [OF this, of env creates ss] Cons.IH [OF Cons.prems] show ?thesis
      by (simp add: True)
  next
    case False
    then show ?thesis using Cons.IH [OF locked_grows [OF Cons.prems]] by simp
  qed
qed simp


lemma refetches_grow: "set (sf_refetches sf) \<subseteq> set (sf_refetches (fold (fold_server_event env creates) ss sf))"
proof (induction ss arbitrary: sf)
  case (Cons s ss)
  have run: "sf_refetches (snd (run_processors s ps x)) = sf_refetches x" for s ps x
    by (induction ps arbitrary: x) (simp_all split: processorReturn.split)
  have "set (sf_refetches sf) \<subseteq> set (sf_refetches (fold_server_event env creates s sf))"
    using run [of s "processors_for env (sn_event s)" "sf\<lparr>sf_results := map_set (se_id (sn_event s))
      \<lparr>ed_updatedIds = [], ed_invalidated = False\<rparr> (sf_results sf)\<rparr>"]
    by (auto simp: fold_server_event_def Let_def with_change_def split: prod.split bool.split)
  then show ?case using Cons.IH [of "fold_server_event env creates s sf"] by simp
qed simp

section \<open>Induction over what a batch stages\<close>

lemma scanned_entry:
  assumes "s \<in> set (List.map_filter (scan_entry cols) batch)"
  obtains entry where "entry \<in> set batch" "sn_event s = we_event entry" "sn_cacheKeys s = we_cacheKeys entry"
    "sn_serverId s = string_of (js_member (se_data (we_event entry)) ''id'')"
proof -
  obtain entry where "entry \<in> set batch" "scan_entry cols entry = Some s"
    using assms by (auto simp: map_filter_def)
  then show ?thesis by (intro that) (auto simp: scan_entry_def split: list.splits)
qed

lemma fold_change_induct:
  assumes "P (new_change preloaded)"
    and "\<And>s r i ch. s \<in> set (List.map_filter (scan_entry (sy_collections env)) batch) \<Longrightarrow>
      row_key (pr_id r) = Some i \<Longrightarrow> P ch \<Longrightarrow> P (stage_change s r i ch)"
    and "\<And>s ch. s \<in> set (List.map_filter (scan_entry (sy_collections env)) batch) \<Longrightarrow> P ch \<Longrightarrow> P (resolve_id creates s ch)"
  shows "P (sf_change (fold_server_events env creates preloaded batch))"
proof -
  define ss where "ss = List.map_filter (scan_entry (sy_collections env)) batch"
  have stages: "P (sf_change (fold (stage_result s) rs sf))" if "P (sf_change sf)" "s \<in> set ss" for s rs sf
    using that(1)
  proof (induction rs arbitrary: sf)
    case (Cons r rs)
    then show ?case using assms(2) [OF that(2) [unfolded ss_def]] by (simp split: option.split)
  qed simp
  have run: "P (sf_change (snd (run_processors s ps sf)))" if "P (sf_change sf)" "s \<in> set ss" for s ps sf
    using that(1)
  proof (induction ps arbitrary: sf)
    case (Cons p ps)
    then show ?case using stages [OF Cons.prems that(2)] by (auto split: processorReturn.split simp del: processor_results.simps)
  qed simp
  have event: "P (sf_change (fold_server_event env creates s sf))" if "P (sf_change sf)" "s \<in> set ss" for s sf
  proof -
    define w0 where "w0 = sf\<lparr>sf_results := map_set (se_id (sn_event s))
      \<lparr>ed_updatedIds = [], ed_invalidated = False\<rparr> (sf_results sf)\<rparr>"
    obtain b w where w: "run_processors s (processors_for env (sn_event s)) w0 = (b, w)" by (metis surj_pair)
    then have "P (sf_change w)" using run [of w0 s "processors_for env (sn_event s)"] that by (simp add: w0_def)
    then show ?thesis using w that assms(3) [OF that(2) [unfolded ss_def]]
      unfolding fold_server_event_def Let_def w0_def [symmetric]
      by (cases b) (simp_all add: w0_def with_change_def)
  qed
  have "P (sf_change (fold (fold_server_event env creates) us sf))" if "P (sf_change sf)" "set us \<subseteq> set ss" for us sf
    using that
  proof (induction us arbitrary: sf)
    case (Cons u us)
    then show ?case using event by simp
  qed simp
  from this [of "new_fold preloaded" ss] assms(1) show ?thesis
    by (simp add: fold_server_events_def ss_def new_fold_def)
qed

section \<open>The working state is what the rows will hold\<close>

lemma server_step_get:
  "map_get (ch_server (server_step key op ch)) k =
    (if k = key then applyOp (map_get (ch_server ch) k) op else map_get (ch_server ch) k)"
  by (auto simp: server_step_def Let_def split: option.split)

lemma server_step_dirty:
  "k \<in> set (ch_dirty ch) \<Longrightarrow> k \<in> set (ch_dirty (server_step key op ch))"
  "key \<notin> set (ch_dirty (server_step key op ch)) \<Longrightarrow> applyOp (map_get (ch_server ch) key) op = map_get (ch_server ch) key"
  by (auto simp: server_step_def Let_def split: option.splits if_splits)

lemma stage_change_parts:
  "map_get (ch_server (stage_change s r i ch)) k =
    (if k = stateKey (pr_collection r) i then applyOp (map_get (ch_server ch) k) (pr_update r)
     else map_get (ch_server ch) k)"
  "k \<in> set (ch_dirty ch) \<Longrightarrow> k \<in> set (ch_dirty (stage_change s r i ch))"
  "stateKey (pr_collection r) i \<notin> set (ch_dirty (stage_change s r i ch)) \<Longrightarrow>
    applyOp (map_get (ch_server ch) (stateKey (pr_collection r) i)) (pr_update r) =
      map_get (ch_server ch) (stateKey (pr_collection r) i)"
  subgoal by (simp add: stage_change_def Let_def server_step_get)
  subgoal by (simp add: stage_change_def Let_def server_step_dirty(1))
  subgoal by (simp add: stage_change_def Let_def) (drule server_step_dirty(2), simp)
  done

lemma server_step_keeps [simp]:
  "ch_pending (server_step key op ch) = ch_pending ch" "ch_idMap (server_step key op ch) = ch_idMap ch"
  "ch_tempIds (server_step key op ch) = ch_tempIds ch" "ch_client (server_step key op ch) = ch_client ch"
  "ch_modified (server_step key op ch) = ch_modified ch" "ch_cacheKeys (server_step key op ch) = ch_cacheKeys ch"
  by (simp_all add: server_step_def Let_def split: option.split)

text \<open>The updates staged for a row under one cache key, in order.\<close>

definition application_key :: "deferredApplication \<Rightarrow> string option" where
  "application_key a = map_option (stateKey (pr_collection (da_result a))) (row_key (pr_id (da_result a)))"

definition staged_updates :: "string \<Rightarrow> string \<Rightarrow> deferredApplication list \<Rightarrow> updateOperation list" where
  "staged_updates cacheKey key apps =
    map (\<lambda>a. pr_update (da_result a)) (filter (\<lambda>a. da_cacheKey a = cacheKey \<and> application_key a = Some key) apps)"

lemma staged_one:
  assumes "row_key (pr_id r) = Some i" "distinct ks" "k \<in> set ks"
  shows "staged_updates k key (map (\<lambda>c. \<lparr>da_result = r, da_cacheKey = c, da_revisionMeta = m\<rparr>) ks) =
    (if key = stateKey (pr_collection r) i then [pr_update r] else [])"
  using assms(2,3) by (induction ks) (auto simp: staged_updates_def application_key_def assms(1) filter_empty_conv)

lemma staged_append: "staged_updates k key (xs @ ys) = staged_updates k key xs @ staged_updates k key ys"
  by (simp add: staged_updates_def)

section \<open>Temporary ids\<close>

text \<open>
  Only a temporary id of a pending creation is resolved, to the id of an event of the batch that echoes the
  creation's command id.
\<close>

theorem id_resolutions_echo:
  assumes "change = sf_change (fold_server_events env creates preloaded batch)"
    and "map_get (ch_idMap change) tempId = Some r"
  shows "\<exists>entry\<in>set batch. \<exists>cid c. extractCommandId (we_event entry) = Some cid \<and> map_get creates cid = Some (tempId, c)
    \<and> ir_serverId r = string_of (js_member (se_data (we_event entry)) ''id'') \<and> ir_serverId r \<noteq> tempId"
proof -
  define P where "P = (\<lambda>ch :: serverStateChange. \<forall>r. map_get (ch_idMap ch) tempId = Some r \<longrightarrow>
    (\<exists>entry\<in>set batch. \<exists>cid c. extractCommandId (we_event entry) = Some cid \<and> map_get creates cid = Some (tempId, c)
    \<and> ir_serverId r = string_of (js_member (se_data (we_event entry)) ''id'') \<and> ir_serverId r \<noteq> tempId))"
  have "P (sf_change (fold_server_events env creates preloaded batch))"
  proof (rule fold_change_induct)
    show "P (new_change preloaded)" by (simp add: P_def new_change_def)
    show "P (stage_change s r i ch)" if "P ch" for s r i ch
      using that by (simp add: P_def stage_change_def Let_def)
    fix s ch
    assume "s \<in> set (List.map_filter (scan_entry (sy_collections env)) batch)" and IH: "P ch"
    then obtain entry where "entry \<in> set batch" "sn_event s = we_event entry"
      "sn_serverId s = string_of (js_member (se_data (we_event entry)) ''id'')"
      by (auto elim: scanned_entry)
    then show "P (resolve_id creates s ch)" using IH
      by (auto simp: P_def resolve_id_def bind_eq_Some_conv split: option.splits)
  qed
  then show ?thesis using assms by (simp add: P_def)
qed


text \<open>
  The echo is all that counts, not the aggregate the event is of.  When two events of a creation's response
  belong to different aggregates, the temporary id of the created entity is resolved to the aggregate of the
  later event.
\<close>

definition resolves :: "(string, string \<times> command) jsmap \<Rightarrow> scannedEvent \<Rightarrow> (string \<times> string) option" where
  "resolves creates s =
    Option.bind (Option.bind (extractCommandId (sn_event s)) (map_get creates)) (\<lambda>(tempId, c).
      if tempId = sn_serverId s then None else Some (tempId, sn_serverId s))"

theorem id_resolution_last_event:
  assumes "List.map_filter (scan_entry (sy_collections env)) batch = ss @ [s]"
    and "resolves creates s = Some (tempId, serverId)"
    and "w = fold (fold_server_event env creates) ss (new_fold preloaded)"
    and "target_key s \<notin> set (sf_locked w)" "\<not> fst (run_processors s (processors_for env (sn_event s)) w)"
  shows "map_option ir_serverId (map_get (ch_idMap (sf_change (fold_server_events env creates preloaded batch))) tempId)
    = Some serverId"
proof -
  define w0 where "w0 = w\<lparr>sf_results := map_set (se_id (sn_event s))
      \<lparr>ed_updatedIds = [], ed_invalidated = False\<rparr> (sf_results w)\<rparr>"
  obtain b w2 where run: "run_processors s (processors_for env (sn_event s)) w0 = (b, w2)" by (metis surj_pair)
  have "fold_core w = fold_core w0" by (simp add: fold_core_def w0_def)
  from run_core [OF this, of s "processors_for env (sn_event s)"] have "\<not> b" using assms(5) run by simp
  then have "fold_server_event env creates s w = with_change (resolve_id creates s) w2"
    using assms(4) run unfolding fold_server_event_def Let_def w0_def [symmetric] by (simp add: w0_def)
  moreover have "map_option ir_serverId (map_get (ch_idMap (resolve_id creates s ch)) tempId) = Some serverId" for ch
    using assms(2) by (auto simp: resolves_def resolve_id_def bind_eq_Some_conv split: if_splits)
  ultimately show ?thesis
    by (simp add: fold_server_events_def assms(1) assms(3) [symmetric] with_change_def)
qed

end
