(* ===== verification/ReconcilePersist.thy ===== *)
theory ReconcilePersist
  imports ServerFold
begin

text \<open>
  The end of every batch of server state, \<^verbatim>\<open>reconcileAndPersist\<close> and \<^verbatim>\<open>evaluateCoverageForBatch\<close> of
  \<^verbatim>\<open>core/sync-manager/SyncManager.ts\<close>: temporary ids are replaced, commands run again, and everything is
  written.  The stores are those of the command queue.  An operation that throws keeps what it has done.
\<close>

section \<open>State\<close>

record readModelUpdate =
  rmu_collection :: string
  rmu_created :: "string list"
  rmu_updated :: "string list"
  rmu_deleted :: "string list"
  rmu_cacheKeys :: "string list"
  rmu_commandIds :: "string list"

record syncState =
  ss_queue :: commandQueue
  ss_known :: "(string, int) jsmap"
  ss_refetches :: "(string \<times> string list) list"
  ss_emitted :: "readModelUpdate list"
  ss_reconciled :: "idReconciled list"
  ss_junctionOps :: "junctionSyncOp list"

definition on_queue :: "(commandQueue \<Rightarrow> commandQueue) \<Rightarrow> syncState \<Rightarrow> syncState" where
  "on_queue f st = st\<lparr>ss_queue := f (ss_queue st)\<rparr>"

text \<open>The collection's read model update of a batch, unless nothing changed.\<close>

definition emitReadModelUpdated ::
  "(string, string list) jsmap \<Rightarrow> string \<times> classifiedRows \<Rightarrow> syncState \<Rightarrow> syncState" where
  "emitReadModelUpdated commandIds entry st =
    (case entry of (collection, b) \<Rightarrow>
      if cls_created b = [] \<and> cls_updated b = [] \<and> cls_deleted b = [] then st
      else st\<lparr>ss_emitted := ss_emitted st @
        [\<lparr>rmu_collection = collection, rmu_created = cls_created b, rmu_updated = cls_updated b,
          rmu_deleted = cls_deleted b, rmu_cacheKeys = cls_cacheKeys b,
          rmu_commandIds = indexed commandIds collection\<rparr>]\<rparr>)"

definition commit_mutations ::
  "'s syncEnv \<Rightarrow> int \<Rightarrow> (string, string list) jsmap \<Rightarrow> readModelMutation list \<Rightarrow> syncState \<Rightarrow> (queueError, syncState) run" where
  "commit_mutations env now commandIds mutations st =
    (case commit now (sy_junctions env) mutations [] (q_storage (ss_queue st)) of (result, storage) \<Rightarrow>
      (let st1 = on_queue (\<lambda>q. q\<lparr>q_storage := storage\<rparr>) st
       in case result of
            Inl e \<Rightarrow> (Some (StoreThrown e), st1)
          | Inr r \<Rightarrow> (None, fold (emitReadModelUpdated commandIds) (cmt_class r)
              (st1\<lparr>ss_reconciled := ss_reconciled st1 @ cmt_events r,
                   ss_junctionOps := ss_junctionOps st1 @ cmt_junctions r\<rparr>))))"

section \<open>Loading\<close>

definition reconcile_commands :: "'s syncEnv \<Rightarrow> commandQueue \<Rightarrow> command list" where
  "reconcile_commands env q =
    (if qe_executor (sy_queue env) = None then [] else cs_getByStatus reconcile_statuses (commands_of q))"

text \<open>The collection and id of a command's own entity.\<close>

definition primary_row :: "'s syncEnv \<Rightarrow> commandQueue \<Rightarrow> command \<Rightarrow> (string \<times> string) option" where
  "primary_row env q c =
    Option.bind (q_getRegistration (sy_queue env) (cmd_type c)) (\<lambda>registration.
    Option.bind (primary_of (sy_collections env) registration) (\<lambda>collection.
    map_option (\<lambda>i. (qc_name collection, i)) (truthy_text (getEntityIdForCommand c q))))"

definition rows_to_load ::
  "'s syncEnv \<Rightarrow> commandQueue \<Rightarrow> (string, readModel) jsmap \<Rightarrow> command list \<Rightarrow> (string, string \<times> string) jsmap" where
  "rows_to_load env q preloaded cs =
    fold (\<lambda>c m. case primary_row env q c of
        None \<Rightarrow> m
      | Some (collection, i) \<Rightarrow>
          if map_has preloaded (stateKey collection i) \<or> map_has m (stateKey collection i) then m
          else map_set (stateKey collection i) (collection, i) m) cs []"

text \<open>The rows of the commands' entities are loaded over what the batch has staged.\<close>

definition load_rows ::
  "'s syncEnv \<Rightarrow> commandQueue \<Rightarrow> command list \<Rightarrow> serverStateChange \<Rightarrow> storeError + serverStateChange" where
  "load_rows env q cs change =
    (let rows = rows_to_load env q (ch_preloaded change) cs
     in if rows = [] then Inr change
        else map_result (\<lambda>records. change\<lparr>ch_server := load_server records (ch_server change),
                ch_client := load_client records (ch_client change)\<rparr>)
          (getManyByCollectionIds (q_storage q) (map_values rows)))"

section \<open>Which commands the read model covers\<close>

definition covered :: "'s syncEnv \<Rightarrow> (string, int) jsmap \<Rightarrow> commandQueue \<Rightarrow> command \<Rightarrow> bool" where
  "covered env known q c =
    (case Option.bind (q_getRegistration (sy_queue env) (cmd_type c)) hr_aggregate of
       None \<Rightarrow> False
     | Some aggregate \<Rightarrow>
         if \<not> existsSync (cache_of q) (cmd_cacheKey c) then True
         else (case (readResponseField (cb_serverResponse (cmd_body c)) ''id'',
                     Option.bind (readResponseField (cb_serverResponse (cmd_body c)) ''nextExpectedRevision'')
                       (\<lambda>s. parseExpectedRevision (JStr s))) of
             (Some i, Some expected) \<Rightarrow>
               (case map_get known (agg_getStreamId aggregate (JStr i)) of
                  Some current \<Rightarrow> expected \<le> current | None \<Rightarrow> False)
           | _ \<Rightarrow> False))"

definition evaluateCoverageForBatch :: "'s syncEnv \<Rightarrow> (string, int) jsmap \<Rightarrow> commandQueue \<Rightarrow> command list \<Rightarrow> command list" where
  "evaluateCoverageForBatch env known q succeeded = filter (covered env known q) succeeded"

section \<open>Mutations for ids and for staged results\<close>

definition stage_migration ::
  "(string, idResolution) jsmap \<Rightarrow> string \<Rightarrow> readModelMutation list \<times> (string, string list) jsmap \<Rightarrow>
   readModelMutation list \<times> (string, string list) jsmap" where
  "stage_migration idMap key = (\<lambda>(mutations, modified).
    (case split_key key of
       None \<Rightarrow> (mutations, modified)
     | Some (collection, tempId) \<Rightarrow>
         (case map_get idMap tempId of
            None \<Rightarrow> (mutations, modified)
          | Some r \<Rightarrow> (mutations @ [MigrateId collection tempId (ir_serverId r)],
              record_in collection (ir_serverId r) (record_in collection tempId modified)))))"

definition application_mutation :: "deferredApplication \<Rightarrow> readModelMutation option" where
  "application_mutation a =
    (let r = da_result a
     in case row_key (pr_id r) of
          None \<Rightarrow> None
        | Some i \<Rightarrow> Some (case pr_update r of
              DeleteOp \<Rightarrow> DeleteRow (pr_collection r) i
            | SetOp data \<Rightarrow>
                if pr_isServerUpdate r then SetServer (pr_collection r) i data (da_cacheKey a) (da_revisionMeta a)
                else SetLocal (pr_collection r) i data (da_cacheKey a)
            | MergeOp data \<Rightarrow>
                if pr_isServerUpdate r then MergeServer (pr_collection r) i data (da_cacheKey a) (da_revisionMeta a)
                else ApplyLocal (pr_collection r) i data (da_cacheKey a)))"

section \<open>Rewriting the active commands\<close>

definition idMap_entries :: "(string, idResolution) jsmap \<Rightarrow> rewriteIdEntry list" where
  "idMap_entries idMap = map (\<lambda>(clientId, r).
    \<lparr>entry_clientId = clientId, entry_serverId = ir_serverId r, entry_aggregate = ir_aggregate r\<rparr>) idMap"

text \<open>The rewritten commands by id, and the keys that become dirty.\<close>

definition rewrite_active ::
  "'s syncEnv \<Rightarrow> int \<Rightarrow> rewriteIdEntry list \<Rightarrow> commandQueue \<Rightarrow> command \<Rightarrow> (string, command) jsmap \<times> string list \<Rightarrow>
   queueError + (string, command) jsmap \<times> string list" where
  "rewrite_active env now entries q c = (\<lambda>(rewritten, dirty).
    (case q_getRegistration (sy_queue env) (cmd_type c) of
       None \<Rightarrow> Inr (rewritten, dirty)
     | Some registration \<Rightarrow>
         (case rewriteCommandWithIdMap (cb_data (cmd_body c)) (cb_path (cmd_body c)) (cb_headers (cmd_body c))
                 (cb_commandIdPaths (cmd_body c)) entries (hr_commandIdReferences registration) of
            Inl e \<Rightarrow> Inl (PathThrown e)
          | Inr result \<Rightarrow>
              if \<not> surf_changed result then Inr (rewritten, dirty)
              else
                (let c' = set_body (\<lambda>b. b\<lparr>cb_data := surf_data result, cb_path := surf_path result,
                         cb_commandIdPaths := surf_commandIdPaths result\<rparr>) (c\<lparr>cmd_updatedAt := now\<rparr>)
                 in Inr (map_set (commandId c) c' rewritten,
                      case primary_row env q c' of
                        None \<Rightarrow> dirty | Some (collection, i) \<Rightarrow> set_add (stateKey collection i) dirty)))))"

definition rewrite_all ::
  "'s syncEnv \<Rightarrow> int \<Rightarrow> (string, idResolution) jsmap \<Rightarrow> commandQueue \<Rightarrow> command list \<Rightarrow> string list \<Rightarrow>
   queueError + (string, command) jsmap \<times> string list" where
  "rewrite_all env now idMap q cs dirty =
    (if idMap = [] \<or> qe_executor (sy_queue env) = None then Inr ([], dirty)
     else fold_result (rewrite_active env now (idMap_entries idMap) q) cs ([], dirty))"

section \<open>The anticipated events on record\<close>

definition bucket_event ::
  "cachedEventRecord \<Rightarrow> (string, anticipatedEvent list) jsmap \<Rightarrow> storeError + (string, anticipatedEvent list) jsmap" where
  "bucket_event r m =
    (case Option.bind (ev_commandId r) (\<lambda>cid. truthy_text (Some cid)) of
       None \<Rightarrow> Inr m
     | Some cid \<Rightarrow> map_result (\<lambda>data. if \<not> is_object data then m
         else map_set cid (indexed m cid @ [\<lparr>an_type = ev_type r, an_streamId = ev_streamId r, an_data = data,
                an_metadata = None\<rparr>]) m) (parse_text (ev_data r)))"

definition anticipated_by_command :: "commandQueue \<Rightarrow> storeError + (string, anticipatedEvent list) jsmap" where
  "anticipated_by_command q = fold_result bucket_event (getAllAnticipatedEvents (q_storage q)) []"

section \<open>The walk over the commands\<close>

definition walk_input :: "'s syncEnv \<Rightarrow> commandQueue \<Rightarrow> ('s, cacheKeyIdentity) domainExecutor \<Rightarrow> workingState \<Rightarrow> 's walkInput" where
  "walk_input env q executor server =
    \<lparr>wi_executor = executor, wi_primary = (\<lambda>g. map_option qc_name (primary_of (sy_collections env) g)),
     wi_entity = (\<lambda>c. getEntityIdForCommand c q),
     wi_processors = ae_processors (qe_anticipation (sy_queue env)), wi_server = server\<rparr>"

text \<open>One event of a command that is still active: the row it is for keeps the command's cache key.\<close>

definition track_event_row ::
  "'s syncEnv \<Rightarrow> command \<Rightarrow> bool \<Rightarrow> anticipatedEvent \<Rightarrow> serverStateChange \<times> string list \<Rightarrow> serverStateChange \<times> string list" where
  "track_event_row env c rerun event = (\<lambda>(change, tracked).
    (case find (\<lambda>col. sc_matchesStream col (an_streamId event)) (sy_collections env) of
       None \<Rightarrow> (change, tracked)
     | Some col \<Rightarrow>
         (case truthy_text (row_key (js_member (an_data event) ''id'')) of
            None \<Rightarrow> (change, tracked)
          | Some i \<Rightarrow>
              (change\<lparr>ch_cacheKeys := record_in (stateKey (qc_name col) i) (cmd_cacheKey c) (ch_cacheKeys change),
                      ch_commandIds := (if rerun then record_in (qc_name col) (commandId c) (ch_commandIds change)
                                        else ch_commandIds change)\<rparr>,
               tracked @ [stateKey (qc_name col) i]))))"

definition track_command ::
  "'s syncEnv \<Rightarrow> walkState \<Rightarrow> (string, anticipatedEvent list) jsmap \<Rightarrow> command \<Rightarrow>
   serverStateChange \<times> commandQueue \<Rightarrow> serverStateChange \<times> commandQueue" where
  "track_command env out existing c = (\<lambda>(change, q).
    (let newEvents = map_get (rc_events out) (commandId c);
         events = or_default newEvents (indexed existing (commandId c));
         (change', tracked) = fold (track_event_row env c (newEvents \<noteq> None)) events (change, [])
     in (change', if newEvents \<noteq> None \<and> tracked \<noteq> []
                  then with_anticipation (setTrackedEntries (commandId c) tracked) q else q)))"

text \<open>New events have the streams of the assigned ids, so a rewritten command's aggregates are derived again.\<close>

definition derive_again :: "'s syncEnv \<Rightarrow> walkState \<Rightarrow> string \<times> command \<Rightarrow> string \<times> command" where
  "derive_again env out = (\<lambda>(cid, c).
    (cid, case map_get (rc_events out) cid of
       None \<Rightarrow> c
     | Some events \<Rightarrow>
         (case deriveAffectedAggregates (qe_aggregates (sy_queue env)) events of
            Inl e \<Rightarrow> c | Inr affected \<Rightarrow> set_body (\<lambda>b. b\<lparr>cb_affectedAggregates := Some affected\<rparr>) c)))"

section \<open>Writing\<close>

text \<open>The fields of a rewritten command that are stored; its path and headers are not among them.\<close>

definition rewritten_update :: "string \<times> command \<Rightarrow> string \<times> (command \<Rightarrow> command)" where
  "rewritten_update = (\<lambda>(cid, c). (cid, \<lambda>r. set_body (\<lambda>b. b\<lparr>cb_data := cb_data (cmd_body c),
      cb_commandIdPaths := cb_commandIdPaths (cmd_body c),
      cb_affectedAggregates := cb_affectedAggregates (cmd_body c)\<rparr>) (r\<lparr>cmd_updatedAt := cmd_updatedAt c\<rparr>)))"

definition save_rewritten :: "int \<Rightarrow> (string, command) jsmap \<Rightarrow> commandQueue \<Rightarrow> commandQueue" where
  "save_rewritten now rw q =
    (if rw = [] then q
     else with_commands (\<lambda>s. snd (cs_batchUpdate now (map rewritten_update rw) s)) q)"

definition replacement_records ::
  "(nat \<Rightarrow> string) \<Rightarrow> int \<Rightarrow> command list \<Rightarrow> (string, anticipatedEvent list) jsmap \<Rightarrow> nat \<Rightarrow> cachedEventRecord list" where
  "replacement_records newId now final events n =
    (let pairs = concat (map (\<lambda>(cid, es). case find (\<lambda>c. commandId c = cid) final of
             None \<Rightarrow> [] | Some c \<Rightarrow> map (\<lambda>e. (c, e)) es) events)
     in map (\<lambda>(i, c, e). anticipated_record json_codec now (newId i) e (commandId c) [cmd_cacheKey c])
          (zip [n ..< n + length pairs] pairs))"

text \<open>The cached anticipated events of the commands that ran again are replaced.\<close>

definition replace_events ::
  "'s syncEnv \<Rightarrow> int \<Rightarrow> command list \<Rightarrow> (string, anticipatedEvent list) jsmap \<Rightarrow> commandQueue \<Rightarrow> commandQueue" where
  "replace_events env now final events q =
    (if events = [] then q
     else with_anticipation (\<lambda>a.
         (let records = replacement_records (ae_newEventId (qe_anticipation (sy_queue env))) now final events (an_nextEvent a);
              st = deleteAnticipatedEventsByCommands (map_keys events) (an_storage a)
          in (set_an_storage (if records = [] then st else saveCachedEvents records st) a)
             \<lparr>an_nextEvent := an_nextEvent a + length records\<rparr>)) q)"

text \<open>A dirty key whose overlay the walk wrote or removed.\<close>

definition stage_overlay ::
  "walkState \<Rightarrow> workingState \<Rightarrow> serverStateChange \<Rightarrow> string \<Rightarrow>
   readModelMutation list \<times> (string, string list) jsmap \<Rightarrow> readModelMutation list \<times> (string, string list) jsmap" where
  "stage_overlay out before change key = (\<lambda>(mutations, modified).
    (if key \<in> set (ch_tempIds change) then (mutations, modified)
     else case split_key key of
       None \<Rightarrow> (mutations, modified)
     | Some (collection, i) \<Rightarrow>
         (case map_get (rc_client out) key of
            None \<Rightarrow>
              if map_get before key \<noteq> None
              then (mutations @ [DeleteRow collection i], record_in collection i modified)
              else (mutations, modified)
          | Some after \<Rightarrow>
              if key \<notin> set (rc_written out) \<or> indexed (ch_cacheKeys change) key = [] then (mutations, modified)
              else (mutations @ map (SetLocal collection i after) (indexed (ch_cacheKeys change) key),
                    record_in collection i modified))))"

definition save_idMap :: "int \<Rightarrow> (string, idResolution) jsmap \<Rightarrow> commandQueue \<Rightarrow> queueRun" where
  "save_idMap now idMap q =
    (if idMap = [] then (None, q)
     else case ims_saveMany (map (\<lambda>(tempId, r). \<lparr>map_clientId = tempId, map_serverId = ir_serverId r,
                  map_createdAt = now\<rparr>) idMap) (mappings_of q) of
            Inl e \<Rightarrow> (Some (MappingThrown e), q)
          | Inr s \<Rightarrow> (None, set_mappings s q))"

text \<open>Rows under an id that this session was assigned are stamped with the client's id.\<close>

definition metadata_stamps ::
  "int \<Rightarrow> commandBody idMappingStore \<Rightarrow> (string, string list) jsmap \<Rightarrow> queueError + readModelMutation list" where
  "metadata_stamps now ms modified =
    fold_result (\<lambda>(collection, i) mutations.
        case ims_getByServerId ms i of
          Inl e \<Rightarrow> Inl (MappingThrown e)
        | Inr None \<Rightarrow> Inr mutations
        | Inr (Some m) \<Rightarrow> Inr (mutations @ [SetClientMetadata collection i
            \<lparr>cm_clientId = map_clientId m, cm_reconciledAt = Some now\<rparr>]))
      (concat (map (\<lambda>(collection, ids). map (Pair collection) ids) modified)) []"

section \<open>After the commit\<close>

definition application_revision :: "'s syncEnv \<Rightarrow> deferredApplication \<Rightarrow> pathError + (string \<times> string) option" where
  "application_revision env a =
    (let r = da_result a
     in case find (\<lambda>c. qc_name c = pr_collection r) (sy_collections env) of
          None \<Rightarrow> Inr None
        | Some col \<Rightarrow>
            (case truthy_text (sc_revisionPath col) of
               None \<Rightarrow> Inr None
             | Some path \<Rightarrow>
                 map_result (\<lambda>v. case v of
                     JStr revision \<Rightarrow> Some (agg_getStreamId (qc_aggregate col) (pr_id r), revision) | _ \<Rightarrow> None)
                   (getAtPath (case pr_update r of SetOp d \<Rightarrow> d | MergeOp d \<Rightarrow> d | DeleteOp \<Rightarrow> JUndef) path)))"

definition chain_updates ::
  "'s syncEnv \<Rightarrow> (string, int) jsmap \<Rightarrow> deferredApplication list \<Rightarrow> pathError + (string \<times> string) list" where
  "chain_updates env known apps =
    fold_result (\<lambda>a us. map_result (\<lambda>u. case u of Some p \<Rightarrow> us @ [p] | None \<Rightarrow> us) (application_revision env a))
      apps (map (\<lambda>(streamId, r). (streamId, show_int r)) known)"

definition advance_chains ::
  "'s syncEnv \<Rightarrow> (string, int) jsmap \<Rightarrow> deferredApplication list \<Rightarrow> commandQueue \<Rightarrow> queueRun" where
  "advance_chains env known apps q =
    (case chain_updates env known apps of
       Inl e \<Rightarrow> (Some (PathThrown e), q)
     | Inr us \<Rightarrow> (None, if us = [] then q else advanceChainRevisions us q))"

definition apply_coverage :: "int \<Rightarrow> command list \<Rightarrow> commandQueue \<Rightarrow> commandQueue" where
  "apply_coverage now applied q =
    (if applied = [] then q
     else with_anticipation (cleanupOnAppliedBatch (map commandId applied)) (batchUpdateSyncStatus now (Some applied) q))"

definition finish_batch ::
  "'s syncEnv \<Rightarrow> int \<Rightarrow> (string, int) jsmap \<Rightarrow> serverStateChange \<Rightarrow> command list \<Rightarrow> walkState option \<Rightarrow>
   commandQueue \<Rightarrow> queueRun" where
  "finish_batch env now known change applied output q =
    and_then (advance_chains env known (ch_pending change) q) (\<lambda>q1.
    and_then (run_all (\<lambda>(cid, e). markFailedFromConflict (sy_queue env) now cid e)
                (case output of None \<Rightarrow> [] | Some out \<Rightarrow> rc_conflicts out)
                (apply_coverage now applied q1)) (\<lambda>q2.
      (None, with_commands (cs_flush now) q2)))"


section \<open>The whole of it\<close>

text \<open>Phases 4 and 5: the change with its bookkeeping, the commands as they are now, the rewritten ones, the walk.\<close>

definition run_commands_again ::
  "'s syncEnv \<Rightarrow> int \<Rightarrow> command list \<Rightarrow> serverStateChange \<Rightarrow> commandQueue \<Rightarrow>
   queueError + serverStateChange \<times> command list \<times> (string, command) jsmap \<times> walkState option \<times> commandQueue" where
  "run_commands_again env now cs change q =
    bind_result (rewrite_all env now (ch_idMap change) q cs (ch_dirty change)) (\<lambda>(rw, dirty).
      let final = map (\<lambda>c. or_default (map_get rw (commandId c)) c) cs
      in case qe_executor (sy_queue env) of
           None \<Rightarrow> Inr (change\<lparr>ch_dirty := dirty\<rparr>, final, rw, None, q)
         | Some executor \<Rightarrow>
             (case anticipated_by_command q of
                Inl e \<Rightarrow> Inl (StoreThrown e)
              | Inr existing \<Rightarrow>
                  (let out = reconcilePendingCommands (walk_input env q executor (ch_server change)) dirty final (ch_client change);
                       (change', q') = fold (track_command env out existing) final (change\<lparr>ch_dirty := dirty\<rparr>, q)
                   in Inr (change', final, map (derive_again env out) rw, Some out, q'))))"

text \<open>Phase 6 up to the commit; the migrations and the staged results come first in the list of mutations.\<close>

definition persist_batch ::
  "'s syncEnv \<Rightarrow> int \<Rightarrow> readModelMutation list \<Rightarrow> (string, string list) jsmap \<Rightarrow> serverStateChange \<Rightarrow> command list \<Rightarrow>
   (string, command) jsmap \<Rightarrow> walkState option \<Rightarrow> syncState \<Rightarrow> (queueError, syncState) run" where
  "persist_batch env now mutations modified change final rw output st =
    (let st1 = (case output of None \<Rightarrow> st
           | Some out \<Rightarrow> on_queue (\<lambda>q. replace_events env now final (rc_events out) (save_rewritten now rw q)) st);
         (mutations1, modified1) = (case output of None \<Rightarrow> (mutations, modified)
           | Some out \<Rightarrow> fold (stage_overlay out (ch_client change) change) (rc_dirty out) (mutations, modified));
         (err, q) = save_idMap now (ch_idMap change) (ss_queue st1)
     in and_then (err, on_queue (\<lambda>_. q) st1) (\<lambda>st2.
          case metadata_stamps now (mappings_of (ss_queue st2)) modified1 of
            Inl e \<Rightarrow> (Some e, st2)
          | Inr stamps \<Rightarrow> commit_mutations env now (ch_commandIds change) (mutations1 @ stamps) st2))"

definition reconcileAndPersist ::
  "'s syncEnv \<Rightarrow> int \<Rightarrow> serverStateChange \<Rightarrow> syncState \<Rightarrow> (queueError, syncState) run" where
  "reconcileAndPersist env now change st =
    (let q = ss_queue st;
         commands = reconcile_commands env q;
         (succeeded, activeCommands) = partition (\<lambda>c. cmd_status c = Succeeded) commands;
         applied = evaluateCoverageForBatch env (ss_known st) q succeeded
     in case load_rows env q commands change of
          Inl e \<Rightarrow> (Some (StoreThrown e), st)
        | Inr change1 \<Rightarrow>
            (let (migrations, modified) = fold (stage_migration (ch_idMap change1)) (ch_tempIds change1) ([], ch_modified change1);
                 mutations = migrations @ List.map_filter application_mutation (ch_pending change1)
             in if qe_executor (sy_queue env) = None \<and> ch_idMap change1 = []
                then commit_mutations env now (ch_commandIds change1) mutations st
                else case run_commands_again env now activeCommands change1 q of
                  Inl e \<Rightarrow> (Some e, st)
                | Inr (change2, final, rw, output, q1) \<Rightarrow>
                    and_then (persist_batch env now mutations modified change2 final rw output (on_queue (\<lambda>_. q1) st)) (\<lambda>st1.
                      case finish_batch env now (ss_known st1) change2 applied output (ss_queue st1) of
                        (err, q2) \<Rightarrow> (err, on_queue (\<lambda>_. q2) st1))))"

text \<open>A batch of server events.\<close>

definition reconcile_server_events ::
  "'s syncEnv \<Rightarrow> int \<Rightarrow> wsEntry list \<Rightarrow> (string, readModel) jsmap \<Rightarrow> syncState \<Rightarrow> (queueError, syncState) run" where
  "reconcile_server_events env now batch preloaded st =
    (if List.map_filter (scan_entry (sy_collections env)) batch = [] then (None, st)
     else (let sf = fold_server_events env (pending_creates env (ss_queue st)) preloaded batch
           in reconcileAndPersist env now (sf_change sf) (st\<lparr>ss_refetches := ss_refetches st @ sf_refetches sf\<rparr>)))"

text \<open>A page of records; their revisions are known from then on.\<close>

definition advance_record :: "syncCollection \<Rightarrow> seedRecord \<Rightarrow> syncState \<Rightarrow> syncState" where
  "advance_record col r st =
    (case sr_revision r of
       None \<Rightarrow> st
     | Some revision \<Rightarrow>
         (let streamId = agg_getStreamId (qc_aggregate col) (JStr (sr_id r))
          in if (case map_get (ss_known st) streamId of None \<Rightarrow> True | Some current \<Rightarrow> revision > current)
             then on_queue (with_anticipation (\<lambda>a. a\<lparr>an_cache := ec_setKnownPosition streamId revision (an_cache a)\<rparr>))
                    (st\<lparr>ss_known := map_set streamId revision (ss_known st)\<rparr>)
             else st))"

definition note_records :: "'s syncEnv \<Rightarrow> string \<Rightarrow> seedRecord list \<Rightarrow> syncState \<Rightarrow> syncState" where
  "note_records env collection records st =
    (case find (\<lambda>c. qc_name c = collection) (sy_collections env) of
       None \<Rightarrow> st | Some col \<Rightarrow> fold (advance_record col) records st)"

definition onApplyRecords ::
  "'s syncEnv \<Rightarrow> int \<Rightarrow> string \<Rightarrow> string \<Rightarrow> seedRecord list \<Rightarrow> syncState \<Rightarrow> (queueError, syncState) run" where
  "onApplyRecords env now collection cacheKey records st =
    (if records = [] then (None, st)
     else reconcileAndPersist env now (records_change collection cacheKey records)
       (note_records env collection records st))"

definition clearKnownRevisions :: "string list \<Rightarrow> syncState \<Rightarrow> syncState" where
  "clearKnownRevisions streamIds st = st\<lparr>ss_known := fold map_delete streamIds (ss_known st)\<rparr>"

end
