(* ===== verification/ReconcileTheorems.thy ===== *)
theory ReconcileTheorems
  imports ReconcilePersist QueueExamples CommandMoves
begin

text \<open>
  What a pass of the sync manager over the pending commands guarantees
  (\<^verbatim>\<open>core/sync-manager/SyncManager.ts\<close>).
\<close>

section \<open>What the writes leave alone\<close>

lemma commands_saveReadModels [simp]: "commands (saveReadModels rs st) = commands st"
  unfolding saveReadModels_def by (induction rs arbitrary: st) simp_all

lemma commands_deleteReadModels [simp]: "commands (deleteReadModels ps st) = commands st"
  unfolding deleteReadModels_def by (induction ps arbitrary: st) (auto split: prod.split)

lemma commands_addCacheKeys [simp]: "commands (addCacheKeysToReadModels xs st) = commands st"
  unfolding addCacheKeysToReadModels_def by (induction xs arbitrary: st) (auto split: prod.split)

lemma commands_saveCachedEvents [simp]: "commands (saveCachedEvents rs st) = commands st"
  unfolding saveCachedEvents_def by (induction rs arbitrary: st) simp_all

lemma commands_migrate: "migrateEntityIds now ms pre st = Inr (es, st') \<Longrightarrow> commands st' = commands st"
  by (auto simp: migrateEntityIds_def Let_def map_result_Inr split: if_splits)

lemma commands_commit [simp]: "commands (snd (commit now js ms pre st)) = commands st"
  by (auto simp: commit_def Let_def split: sum.split prod.split dest: commands_migrate)

lemma core_storage: "commands s = commands (q_storage q) \<Longrightarrow> core (q\<lparr>q_storage := s\<rparr>) = core q"
  by (simp add: core_iff)

lemma emitted_queue [simp]: "ss_queue (fold (emitReadModelUpdated ids) es st) = ss_queue st"
  by (induction es arbitrary: st) (simp_all add: emitReadModelUpdated_def split: prod.split)

lemma core_commit [simp]: "core (ss_queue (snd (commit_mutations env now ids ms st))) = core (ss_queue st)"
proof -
  obtain r s where r: "commit now (sy_junctions env) ms [] (q_storage (ss_queue st)) = (r, s)" by (metis surj_pair)
  have "core ((ss_queue st)\<lparr>q_storage := s\<rparr>) = core (ss_queue st)"
    using commands_commit [of now "sy_junctions env" ms "[]" "q_storage (ss_queue st)"] by (simp add: core_storage r)
  then show ?thesis by (simp add: commit_mutations_def on_queue_def Let_def r split: sum.split)
qed

lemma core_track_row: "core (snd (track_command env out existing c x)) = core (snd x)"
  by (auto simp: track_command_def Let_def setTrackedEntries_def split: prod.split)

lemma core_track [simp]: "core (snd (fold (track_command env out existing) cs x)) = core (snd x)"
  by (induction cs arbitrary: x) (simp_all add: core_track_row)

lemma core_replace_events [simp]: "core (replace_events env now final es q) = core q"
  by (auto simp: replace_events_def Let_def)

lemma core_save_idMap [simp]: "core (snd (save_idMap now idMap q)) = core q"
proof -
  have one: "ims_storage (writeInPlace r s) = ims_storage s" for r and s :: "commandBody idMappingStore"
    by (simp add: writeInPlace_def Let_def)
  have "ims_storage (fold writeInPlace rs s) = ims_storage s" for rs and s :: "commandBody idMappingStore"
    by (induction rs arbitrary: s) (simp_all add: one)
  then show ?thesis
    by (auto simp: save_idMap_def ims_saveMany_def ims_scheduleFlush_def core_iff set_mappings_def mappings_of_def split: sum.split)
qed

lemma core_advance [simp]: "core (snd (advance_chains env known apps q)) = core q"
  by (simp add: advance_chains_def advanceChainRevisions_def split: sum.split)

lemma rewrite_all_wf:
  assumes "rewrite_all env now idMap q cs dirty = Inr (rw, dirty')"
  shows "map_wf rw"
proof -
  have step: "map_wf (fst y)" if "rewrite_active env now es q c x = Inr y" "map_wf (fst x)" for es c x y
    using that by (auto simp: rewrite_active_def Let_def split: option.splits sum.splits if_splits prod.splits intro: wf_intros)
  have "map_wf (fst (rw, dirty'))" if "fold_result (rewrite_active env now es q) cs ([], dirty) = Inr (rw, dirty')" for es
    by (rule fold_result_invariant [OF that, where P = "\<lambda>x. map_wf (fst x)"]) (auto dest: step)
  then show ?thesis using assms by (auto simp: rewrite_all_def split: if_splits)
qed

lemma run_again_keeps:
  assumes "run_commands_again env now cs change q = Inr (change', final, rw, out, q')"
  shows "core q' = core q" "distinct (map fst rw)"
proof -
  obtain rw0 dirty where r: "rewrite_all env now (ch_idMap change) q cs (ch_dirty change) = Inr (rw0, dirty)"
    using assms by (auto simp: run_commands_again_def bind_result_Inr)
  have wf: "map_wf rw0" by (rule rewrite_all_wf [OF r])
  have "core q' = core q \<and> map fst rw = map fst rw0"
  proof (cases "qe_executor (sy_queue env)")
    case None
    then show ?thesis using assms by (simp add: run_commands_again_def r)
  next
    case (Some executor)
    then obtain existing where existing: "anticipated_by_command q = Inr existing"
      using assms by (auto simp: run_commands_again_def r Let_def split: sum.splits)
    define fin where "fin = map (\<lambda>c. or_default (map_get rw0 (commandId c)) c) cs"
    define out' where "out' = reconcilePendingCommands (walk_input env q executor (ch_server change)) dirty fin (ch_client change)"
    obtain ch q1 where f: "fold (track_command env out' existing) fin (change\<lparr>ch_dirty := dirty\<rparr>, q) = (ch, q1)"
      by (metis surj_pair)
    have "core q1 = core q" using core_track [of env out' existing fin "(change\<lparr>ch_dirty := dirty\<rparr>, q)"] f by simp
    moreover have "q' = q1" "rw = map (derive_again env out') rw0"
      using assms f by (simp_all add: run_commands_again_def r Some existing Let_def fin_def [symmetric] out'_def [symmetric])
    ultimately show ?thesis by (simp add: derive_again_def comp_def case_prod_unfold)
  qed
  then show "core q' = core q" "distinct (map fst rw)" using wf by (simp_all add: map_wf_def)
qed

section \<open>Every pass moves the commands forward\<close>

lemma evolves_then: "evolves q q1 \<Longrightarrow> (\<And>q. queue_ok q \<Longrightarrow> evolves q (f q)) \<Longrightarrow> evolves q (f q1)"
  by (blast intro: evolves_trans evolvesD(1))

lemma evolves_save_rewritten:
  assumes "queue_ok q" "distinct (map fst rw)"
  shows "evolves q (save_rewritten now rw q)"
proof -
  have fst_eq: "map fst (map rewritten_update rw) = map fst rw" by (simp add: rewritten_update_def comp_def case_prod_unfold)
  have u: "commandId (u c) = commandId c \<and> change_ok c (u c)" if "(i, u) \<in> set (map rewritten_update rw)" for i u c
    using that by (auto simp: rewritten_update_def set_body_def change_ok_def split: prod.splits)
  have "batch_view (map rewritten_update rw) q (with_commands (\<lambda>s. snd (cs_batchUpdate now (map rewritten_update rw) s)) q)"
  proof (rule batch_update_view [OF assms(1)])
    show "distinct (map fst (map rewritten_update rw))" unfolding fst_eq by (rule assms(2))
    show "commandId (f c) = commandId c" if "(i, f) \<in> set (map rewritten_update rw)" for i f c using u [OF that] by blast
  qed
  from evolves_batch [OF this] have "evolves q (with_commands (\<lambda>s. snd (cs_batchUpdate now (map rewritten_update rw) s)) q)"
    using u by (meson map_of_SomeD)
  then show ?thesis by (simp add: save_rewritten_def evolves_refl [OF assms(1)])
qed

lemma view_flush: "queue_ok q \<Longrightarrow> mem (with_commands (cs_doFlush now) q) = mem q \<and> active (with_commands (cs_doFlush now) q) = active q"
  by (simp add: fun_eq_iff with_commands_def mem_def active_def cs_doFlush_def flush_snapshot_def flush_write_def
      memory_get_ops commands_of_def)

lemma evolves_doFlush: "queue_ok q \<Longrightarrow> evolves q (with_commands (cs_doFlush now) q)"
  using view_flush [of q now] ok_flush [of q now] by (simp add: evolves_def)

lemma evolves_flag:
  assumes "evolves q (set_commands s q)" shows "evolves q (set_commands (s\<lparr>cs_flushInFlight := b\<rparr>) q)"
proof -
  let ?q = "set_commands s q" and ?q' = "set_commands (s\<lparr>cs_flushInFlight := b\<rparr>) q"
  have "mem ?q' = mem ?q" "active ?q' = active ?q"
    by (simp_all add: fun_eq_iff mem_def active_def memory_get_def split: option.split)
  moreover have "queue_ok ?q' = queue_ok ?q"
    by (simp add: queue_ok_def cs_inv_def)
  ultimately show ?thesis using assms by (simp add: evolves_def)
qed

lemma evolves_flush:
  assumes "queue_ok q"
  shows "evolves q (with_commands (cs_flush now) q)"
proof -
  define P where "P = (\<lambda>s. evolves q (set_commands s q))"
  have do: "P (cs_doFlush now s)" if "P s" for s
  proof -
    have "set_commands (cs_doFlush now s) q = with_commands (cs_doFlush now) (set_commands s q)"
      by (simp add: with_commands_def commands_of_def set_commands_def)
    then show ?thesis using that evolves_doFlush [of "set_commands s q" now]
      by (auto simp: P_def intro: evolves_trans evolvesD(1))
  qed
  have flag: "P (s\<lparr>cs_flushInFlight := b\<rparr>)" if "P s" for s b using that unfolding P_def by (rule evolves_flag)
  have "P (commands_of q)" unfolding P_def by (rule evolves_same [OF assms])
  then have "P (cs_flush now (commands_of q))"
    by (auto simp: cs_flush_def Let_def cs_scheduleFlush_def intro!: do flag)
  then show ?thesis by (simp add: P_def with_commands_def)
qed

lemma active_get: "queue_ok q \<Longrightarrow> map_get (cs_active (q_commandStore q)) i = Some c \<Longrightarrow> mem q i = Some c \<and> commandId c = i"
  using active_mem [of q i c] queue_okD(1) by (auto simp: active_def)

text \<open>The commands of a pass are live records of distinct commands.\<close>

lemma pass_commands:
  assumes "queue_ok q"
  shows "distinct (map commandId (reconcile_commands env q))"
    and "c \<in> set (reconcile_commands env q) \<Longrightarrow> mem q (commandId c) = Some c"
proof -
  have keyed: "keyed_by commandId (cs_active (q_commandStore q))"
    using assms by (simp add: queue_ok_def cs_inv_def)
  let ?xs = "filter (\<lambda>c. cmd_status c \<in> set [Pending, Blocked, Sending, Succeeded]) (map_values (cs_active (q_commandStore q)))"
  have eq: "cs_getByStatus reconcile_statuses (commands_of q) = sort_key cmd_seq ?xs"
    unfolding reconcile_statuses_def by (subst cs_getByStatus_memory) (auto simp: commands_of_def)
  have ids: "map commandId (map_values (cs_active (q_commandStore q))) = map_keys (cs_active (q_commandStore q))"
    using keyed by (auto simp: keyed_by_def)
  have "distinct (map commandId (map_values (cs_active (q_commandStore q))))"
    unfolding ids using keyed by (simp add: keyed_by_def map_wf_def)
  then have "distinct (map commandId ?xs)" by (rule distinct_map_filter)
  moreover have "mset (map commandId (sort_key cmd_seq ?xs)) = mset (map commandId ?xs)" by simp
  ultimately have "distinct (map commandId (sort_key cmd_seq ?xs))" by (metis mset_eq_imp_distinct_iff)
  then show "distinct (map commandId (reconcile_commands env q))" by (simp add: reconcile_commands_def eq)
  assume "c \<in> set (reconcile_commands env q)"
  then have "c \<in> set (map_values (cs_active (q_commandStore q)))" by (auto simp: reconcile_commands_def eq split: if_splits)
  then obtain i where "(i, c) \<in> set (cs_active (q_commandStore q))" by auto
  then have "map_get (cs_active (q_commandStore q)) i = Some c" using keyed by (simp add: keyed_by_def map_wf_get)
  then show "mem q (commandId c) = Some c" using active_get [OF assms] by blast
qed

lemma evolves_coverage:
  assumes "evolves q0 q" "distinct (map commandId cs)"
    and "\<And>c. c \<in> set cs \<Longrightarrow> mem q0 (commandId c) = Some c \<and> cmd_status c = Succeeded"
  shows "evolves q0 (apply_coverage now cs q)"
    and "c \<in> set cs \<Longrightarrow> \<exists>r. mem (apply_coverage now cs q) (commandId c) = Some r \<and> cmd_status r = Applied"
proof -
  let ?us = "map (status_update now Applied (\<lambda>r. r)) cs"
  let ?b = "with_commands (\<lambda>s. snd (cs_batchUpdate now ?us s)) q"
  have ids: "map fst ?us = map commandId cs" by (simp add: status_update_def comp_def)
  have now: "\<exists>r. mem q (commandId c) = Some r \<and> (cmd_status r = Succeeded \<or> cmd_status r = Applied)" if "c \<in> set cs" for c
    using evolvesD(2) [OF assms(1), of "commandId c" c] assms(3) [OF that] by (auto simp: change_ok_def status_ok_def)
  have view: "batch_view ?us q ?b"
  proof (rule batch_update_view [OF evolvesD(1) [OF assms(1)]])
    show "distinct (map fst ?us)" unfolding ids by (rule assms(2))
    show "commandId (f c) = commandId c" if "(i, f) \<in> set ?us" for i f c using that by (auto simp: status_update_def)
  qed
  have b: "evolves q ?b"
  proof (rule evolves_batch [OF view])
    fix i u r assume u: "map_of ?us i = Some u" and r: "mem q i = Some r"
    then obtain c where "c \<in> set cs" "i = commandId c" "u = (\<lambda>r. r\<lparr>cmd_status := Applied, cmd_updatedAt := now\<rparr>)"
      by (auto split: if_splits)
    then show "change_ok r (u r)" using now [of c] r by (auto simp: change_ok_def status_ok_def)
  qed
  have core: "core (apply_coverage now cs q) = core ?b" if "cs \<noteq> []"
    using that by (simp add: apply_coverage_def batchUpdateSyncStatus_def)
  show "evolves q0 (apply_coverage now cs q)"
    using evolves_trans [OF assms(1) b] evolves_then_frame [OF _ core] assms(1)
    by (cases "cs = []") (auto simp: apply_coverage_def)
  show "\<exists>r. mem (apply_coverage now cs q) (commandId c) = Some r \<and> cmd_status r = Applied" if c: "c \<in> set cs"
  proof -
    have "cs \<noteq> []" using c by auto
    moreover have "map_of ?us (commandId c) = Some (\<lambda>r. r\<lparr>cmd_status := Applied, cmd_updatedAt := now\<rparr>)"
      using c by simp
    ultimately show ?thesis
      using view now [OF c] view_cong(1) [OF core] unfolding batch_view_def by auto
  qed
qed

lemma evolves_finish:
  assumes "evolves q0 q" "distinct (map commandId cs)"
    and "\<And>c. c \<in> set cs \<Longrightarrow> mem q0 (commandId c) = Some c \<and> cmd_status c = Succeeded"
    and "finish_batch env now known change cs output q = (err, q')"
  shows "evolves q0 q'"
    and "err = None \<Longrightarrow> c \<in> set cs \<Longrightarrow> \<exists>r. mem q' (commandId c) = Some r \<and> cmd_status r = Applied"
proof -
  obtain e1 q1 where a: "advance_chains env known (ch_pending change) q = (e1, q1)" by (metis surj_pair)
  have q1: "evolves q0 q1" using evolves_then_frame [OF assms(1)] core_advance [of env known "ch_pending change" q] a by simp
  have cov: "evolves q0 (apply_coverage now cs q1)"
    by (rule evolves_coverage(1) [OF q1 assms(2)]) (rule assms(3))
  have cov_get: "\<exists>r. mem (apply_coverage now cs q1) (commandId d) = Some r \<and> cmd_status r = Applied" if "d \<in> set cs" for d
    by (rule evolves_coverage(2) [OF q1 assms(2) _ that]) (rule assms(3))
  define q2 where "q2 = apply_coverage now cs q1"
  define xs where "xs = (case output of None \<Rightarrow> [] | Some out \<Rightarrow> rc_conflicts out)"
  obtain e3 q3 where r: "run_all (\<lambda>(cid, e). markFailedFromConflict (sy_queue env) now cid e) xs q2 = (e3, q3)"
    by (metis surj_pair)
  have "evolves q2 (snd (run_all (\<lambda>(cid, e). markFailedFromConflict (sy_queue env) now cid e) xs q2))"
    by (rule evolves_run_all) (auto intro: evolves_markFailed evolvesD(1) [OF cov] simp: q2_def)
  then have q3: "evolves q2 q3" by (simp add: r)
  then have q4: "evolves q2 (with_commands (cs_flush now) q3)" by (rule evolves_then) (rule evolves_flush)
  have out: "(err, q') = (case e1 of Some e \<Rightarrow> (e1, q1) | None \<Rightarrow>
      (case e3 of Some e \<Rightarrow> (e3, q3) | None \<Rightarrow> (None, with_commands (cs_flush now) q3)))"
    using assms(4) r unfolding finish_batch_def a xs_def q2_def [symmetric]
    by (auto simp: and_then_def q2_def [symmetric] split: option.splits)
  show "evolves q0 q'"
    using out q1 evolves_trans [OF cov [folded q2_def]] q3 q4 by (auto split: option.splits)
  assume none: "err = None" and c: "c \<in> set cs"
  show "\<exists>r. mem q' (commandId c) = Some r \<and> cmd_status r = Applied"
  proof -
    obtain r where r: "mem q2 (commandId c) = Some r" "cmd_status r = Applied" using cov_get [OF c] q2_def by blast
    have "q' = with_commands (cs_flush now) q3" using out none by (auto split: option.splits)
    with evolvesD(2) [OF q4 r(1)] r(2) show ?thesis by (auto simp: change_ok_def status_ok_def)
  qed
qed

text \<open>A property of the queue that the effects of a pass keep, through the writes of the pass.\<close>

lemma persist_invariant:
  assumes start: "P (ss_queue st)" "distinct (map fst rw)"
    and frame: "\<And>q q'. P q \<Longrightarrow> core q' = core q \<Longrightarrow> P q'"
    and saved: "\<And>q. P q \<Longrightarrow> P (save_rewritten now rw q)"
  shows "P (ss_queue (snd (persist_batch env now ms modified change final rw outp st)))"
proof -
  define q1 where "q1 = (case outp of None \<Rightarrow> ss_queue st
    | Some out \<Rightarrow> replace_events env now final (rc_events out) (save_rewritten now rw (ss_queue st)))"
  have q1: "P q1"
    using start(1) frame [OF saved [OF start(1)]] by (simp add: q1_def split: option.split)
  obtain err q2 where s: "save_idMap now (ch_idMap change) q1 = (err, q2)" by (metis surj_pair)
  have q2: "P q2" using frame [OF q1] core_save_idMap [of now "ch_idMap change" q1] by (simp add: s)
  define st1 where "st1 = st\<lparr>ss_queue := q2\<rparr>"
  obtain ms1 mod1 where pair: "(case outp of None \<Rightarrow> (ms, modified)
    | Some out \<Rightarrow> fold (stage_overlay out (ch_client change) change) (rc_dirty out) (ms, modified)) = (ms1, mod1)"
    by (rule prod.exhaust)
  define st0 where "st0 = (case outp of None \<Rightarrow> st
    | Some out \<Rightarrow> on_queue (\<lambda>q. replace_events env now final (rc_events out) (save_rewritten now rw q)) st)"
  have st0: "ss_queue st0 = q1" "on_queue (\<lambda>_. q2) st0 = st1"
    by (simp_all add: st0_def q1_def on_queue_def st1_def split: option.split)
  have "persist_batch env now ms modified change final rw outp st = and_then (err, st1) (\<lambda>st2.
      case metadata_stamps now (mappings_of (ss_queue st2)) mod1 of
        Inl e \<Rightarrow> (Some e, st2)
      | Inr stamps \<Rightarrow> commit_mutations env now (ch_commandIds change) (ms1 @ stamps) st2)"
    unfolding persist_batch_def Let_def pair st0_def [symmetric] prod.case st0(1) s st0(2) ..
  then have "core (ss_queue (snd (persist_batch env now ms modified change final rw outp st))) = core q2"
    by (cases err) (simp_all add: and_then_def st1_def split: sum.split)
  then show ?thesis by (rule frame [OF q2])
qed

lemma evolves_persist:
  assumes "queue_ok (ss_queue st)" "distinct (map fst rw)"
  shows "evolves (ss_queue st) (ss_queue (snd (persist_batch env now ms modified change final rw outp st)))"
  by (rule persist_invariant [where P = "evolves (ss_queue st)", OF evolves_refl [OF assms(1)] assms(2)])
    (auto intro: evolves_then_frame evolves_trans evolves_save_rewritten [OF _ assms(2)] evolvesD(1))

text \<open>One pass, and what it does to the commands the read model covers.\<close>

lemma reconcile_pass:
  assumes ok: "queue_ok (ss_queue st)" and run: "reconcileAndPersist env now change st = (err, st')"
  shows "evolves (ss_queue st) (ss_queue st')"
    and "err = None \<Longrightarrow> c \<in> set (reconcile_commands env (ss_queue st)) \<Longrightarrow> cmd_status c = Succeeded \<Longrightarrow>
      covered env (ss_known st) (ss_queue st) c \<Longrightarrow>
      \<exists>r. mem (ss_queue st') (commandId c) = Some r \<and> cmd_status r = Applied"
proof -
  define q where "q = ss_queue st"
  define cs where "cs = reconcile_commands env q"
  define applied where "applied = evaluateCoverageForBatch env (ss_known st) q (filter (\<lambda>c. cmd_status c = Succeeded) cs)"
  have okq: "queue_ok q" using ok by (simp add: q_def)
  note pass = pass_commands [OF okq, where env = env, folded cs_def]
  have app: "distinct (map commandId applied)" "mem q (commandId d) = Some d \<and> cmd_status d = Succeeded" if "d \<in> set applied" for d
    using pass that by (auto simp: applied_def evaluateCoverageForBatch_def intro!: distinct_map_filter)
  have dist: "distinct (map commandId applied)"
    using pass(1) by (auto simp: applied_def evaluateCoverageForBatch_def intro!: distinct_map_filter)
  have goal: "evolves q (ss_queue st') \<and> (err = None \<longrightarrow> (\<forall>d\<in>set applied. \<exists>r. mem (ss_queue st') (commandId d) = Some r
      \<and> cmd_status r = Applied))"
  proof (cases "load_rows env q cs change")
    case (Inl e)
    then show ?thesis using run okq by (auto simp: reconcileAndPersist_def Let_def q_def cs_def evolves_refl)
  next
    case (Inr change1)
    obtain migrations modified where m: "fold (stage_migration (ch_idMap change1)) (ch_tempIds change1) ([], ch_modified change1)
      = (migrations, modified)" by (metis surj_pair)
    define mutations where "mutations = migrations @ List.map_filter application_mutation (ch_pending change1)"
    show ?thesis
    proof (cases "qe_executor (sy_queue env) = None \<and> ch_idMap change1 = []")
      case True
      then have "(err, st') = commit_mutations env now (ch_commandIds change1) mutations st"
        using run Inr m by (simp add: reconcileAndPersist_def Let_def q_def cs_def mutations_def)
      then have "core (ss_queue st') = core q" using core_commit [of env now _ mutations st] by (metis q_def snd_conv)
      moreover have "applied = []" using True by (simp add: applied_def cs_def reconcile_commands_def evaluateCoverageForBatch_def)
      ultimately show ?thesis using evolves_frame [OF okq] by simp
    next
      case False
      define active where "active = filter (\<lambda>c. cmd_status c \<noteq> Succeeded) cs"
      have run': "(err, st') = (case run_commands_again env now active change1 q of
          Inl e \<Rightarrow> (Some e, st)
        | Inr (change2, final, rw, output, q1) \<Rightarrow>
            and_then (persist_batch env now mutations modified change2 final rw output (on_queue (\<lambda>_. q1) st)) (\<lambda>st1.
              case finish_batch env now (ss_known st1) change2 applied output (ss_queue st1) of
                (err, q2) \<Rightarrow> (err, on_queue (\<lambda>_. q2) st1)))"
        using run Inr m False
        unfolding reconcileAndPersist_def Let_def q_def [symmetric] cs_def [symmetric] mutations_def applied_def active_def
        by (simp add: comp_def)
      show ?thesis
      proof (cases "run_commands_again env now active change1 q")
        case (Inl e)
        then show ?thesis using run' okq by (auto simp: q_def evolves_refl)
      next
        case (Inr x)
        obtain change2 fin rw outp q1 where x: "x = (change2, fin, rw, outp, q1)" by (cases x)
        note keeps = run_again_keeps [OF Inr [unfolded x]]
        define st1 where "st1 = on_queue (\<lambda>_. q1) st"
        have q1: "evolves q q1" using evolves_frame [OF okq keeps(1)] .
        obtain e2 st2 where p: "persist_batch env now mutations modified change2 fin rw outp st1 = (e2, st2)" by (metis surj_pair)
        have q2: "evolves q (ss_queue st2)"
          using evolves_trans [OF q1] evolves_persist [of st1 rw env now mutations modified change2 fin outp]
            evolvesD(1) [OF q1] keeps(2) p by (simp add: st1_def on_queue_def)
        obtain e3 q3 where f: "finish_batch env now (ss_known st2) change2 applied outp (ss_queue st2) = (e3, q3)"
          by (metis surj_pair)
        have q3: "evolves q q3"
          by (rule evolves_finish(1) [OF q2 dist _ f]) (rule app(2))
        have q3_get: "\<exists>r. mem q3 (commandId d) = Some r \<and> cmd_status r = Applied" if "e3 = None" "d \<in> set applied" for d
          by (rule evolves_finish(2) [OF q2 dist _ f that]) (rule app(2))
        have "(err, st') = (case e2 of Some e \<Rightarrow> (e2, st2) | None \<Rightarrow> (e3, on_queue (\<lambda>_. q3) st2))"
          using run' unfolding Inr x sum.case prod.case st1_def [symmetric] p by (simp add: and_then_def f split: option.split)
        then show ?thesis using q2 q3 q3_get by (cases e2) (auto simp: on_queue_def)
      qed
    qed
  qed
  then show "evolves (ss_queue st) (ss_queue st')" by (simp add: q_def)
  assume "err = None" "c \<in> set (reconcile_commands env (ss_queue st))" "cmd_status c = Succeeded"
    "covered env (ss_known st) (ss_queue st) c"
  then show "\<exists>r. mem (ss_queue st') (commandId c) = Some r \<and> cmd_status r = Applied"
    using goal by (simp add: applied_def evaluateCoverageForBatch_def cs_def q_def)
qed

section \<open>The status changes of a pass\<close>

text \<open>A property of the queue that every effect of a pass keeps.\<close>

lemma finish_invariant:
  assumes start: "P q" and frame: "\<And>q q'. P q \<Longrightarrow> core q' = core q \<Longrightarrow> P q'"
    and covers: "\<And>q. P q \<Longrightarrow> P (apply_coverage now cs q)"
    and conflicts: "\<And>cid e q. P q \<Longrightarrow> P (snd (markFailedFromConflict (sy_queue env) now cid e q))"
    and flush: "\<And>q. P q \<Longrightarrow> P (with_commands (cs_flush now) q)"
  shows "P (snd (finish_batch env now known change cs output q))"
proof -
  obtain e1 q1 where a: "advance_chains env known (ch_pending change) q = (e1, q1)" by (metis surj_pair)
  have q1: "P q1" using frame [OF start] core_advance [of env known "ch_pending change" q] by (simp add: a)
  define xs where "xs = (case output of None \<Rightarrow> [] | Some out \<Rightarrow> rc_conflicts out)"
  define f where "f = (\<lambda>(cid, e). markFailedFromConflict (sy_queue env) now cid e)"
  have "P (snd (run_all f xs s)) \<and> True" if "P s" for s
    by (rule run_all_inv [where P = P and Q = "\<lambda>_. True", OF _ that]) (auto simp: f_def intro: conflicts)
  from this [OF covers [OF q1]] have q3: "P (snd (run_all f xs (apply_coverage now cs q1)))" by simp
  show ?thesis
    using q1 q3 flush [OF q3] unfolding finish_batch_def a xs_def [symmetric] f_def [symmetric]
    by (auto simp: and_then_def split: option.split prod.split)
qed

lemma pass_invariant:
  assumes ok: "queue_ok (ss_queue st)" and start: "P (ss_queue st)"
    and frame: "\<And>q q'. P q \<Longrightarrow> core q' = core q \<Longrightarrow> P q'"
    and saved: "\<And>rw q. P q \<Longrightarrow> distinct (map fst rw) \<Longrightarrow> P (save_rewritten now rw q)"
    and covers: "\<And>q. P q \<Longrightarrow> P (apply_coverage now (evaluateCoverageForBatch env (ss_known st) (ss_queue st)
        (filter (\<lambda>c. cmd_status c = Succeeded) (reconcile_commands env (ss_queue st)))) q)"
    and conflicts: "\<And>cid e q. P q \<Longrightarrow> P (snd (markFailedFromConflict (sy_queue env) now cid e q))"
    and flush: "\<And>q. P q \<Longrightarrow> P (with_commands (cs_flush now) q)"
  shows "P (ss_queue (snd (reconcileAndPersist env now change st)))"
proof -
  define q where "q = ss_queue st"
  define cs where "cs = reconcile_commands env q"
  define applied where "applied = evaluateCoverageForBatch env (ss_known st) q (filter (\<lambda>c. cmd_status c = Succeeded) cs)"
  show ?thesis
  proof (cases "load_rows env q cs change")
    case (Inl e)
    then show ?thesis using start by (simp add: reconcileAndPersist_def Let_def q_def cs_def)
  next
    case (Inr change1)
    obtain migrations modified where m: "fold (stage_migration (ch_idMap change1)) (ch_tempIds change1) ([], ch_modified change1)
      = (migrations, modified)" by (metis surj_pair)
    define mutations where "mutations = migrations @ List.map_filter application_mutation (ch_pending change1)"
    define active where "active = filter (\<lambda>c. cmd_status c \<noteq> Succeeded) cs"
    show ?thesis
    proof (cases "qe_executor (sy_queue env) = None \<and> ch_idMap change1 = []")
      case True
      then have "reconcileAndPersist env now change st = commit_mutations env now (ch_commandIds change1) mutations st"
        using Inr m by (simp add: reconcileAndPersist_def Let_def q_def cs_def mutations_def)
      then show ?thesis using frame [OF start] by simp
    next
      case False
      have run: "reconcileAndPersist env now change st = (case run_commands_again env now active change1 q of
          Inl e \<Rightarrow> (Some e, st)
        | Inr (change2, final, rw, output, q1) \<Rightarrow>
            and_then (persist_batch env now mutations modified change2 final rw output (on_queue (\<lambda>_. q1) st)) (\<lambda>st1.
              case finish_batch env now (ss_known st1) change2 applied output (ss_queue st1) of
                (err, q2) \<Rightarrow> (err, on_queue (\<lambda>_. q2) st1)))"
        using Inr m False
        unfolding reconcileAndPersist_def Let_def q_def [symmetric] cs_def [symmetric] mutations_def applied_def active_def
        by (auto simp: comp_def)
      show ?thesis
      proof (cases "run_commands_again env now active change1 q")
        case (Inl e)
        then show ?thesis using run start by simp
      next
        case (Inr x)
        obtain change2 fin rw outp q1 where x: "x = (change2, fin, rw, outp, q1)" by (cases x)
        note keeps = run_again_keeps [OF Inr [unfolded x]]
        define st1 where "st1 = on_queue (\<lambda>_. q1) st"
        have "P (ss_queue st1)" using frame [OF start, folded q_def, OF keeps(1)] by (simp add: st1_def on_queue_def)
        from persist_invariant [where P = P and env = env and ms = mutations and modified = modified
            and change = change2 and final = fin and outp = outp, OF this keeps(2) frame saved [OF _ keeps(2)]]
        have p: "P (ss_queue (snd (persist_batch env now mutations modified change2 fin rw outp st1)))" by simp
        have "P (snd (finish_batch env now known change2 applied outp s))" if "P s" for known s
          by (rule finish_invariant [of P, OF that frame covers [folded q_def, folded cs_def, folded applied_def] conflicts flush])
        with p show ?thesis
          unfolding run Inr x sum.case prod.case st1_def [symmetric]
          by (cases "persist_batch env now mutations modified change2 fin rw outp st1")
            (auto simp: and_then_def on_queue_def split: option.split prod.split, metis snd_conv)
      qed
    qed
  qed
qed

text \<open>The status changes of a pass; the first argument tells which succeeded commands the read model covers.\<close>

definition pass_status :: "(string \<Rightarrow> bool) \<Rightarrow> string \<Rightarrow> commandStatus \<Rightarrow> commandStatus \<Rightarrow> bool" where
  "pass_status covered_id i old new \<longleftrightarrow> new = old
    \<or> \<not> isTerminalStatus old \<and> new \<in> {Failed, Cancelled}
    \<or> old = Blocked \<and> new = Pending
    \<or> old = Succeeded \<and> new = Applied \<and> covered_id i"

definition covered_command :: "'s syncEnv \<Rightarrow> syncState \<Rightarrow> string \<Rightarrow> bool" where
  "covered_command env st i \<longleftrightarrow>
    (\<exists>c \<in> set (reconcile_commands env (ss_queue st)). commandId c = i \<and> covered env (ss_known st) (ss_queue st) c)"

interpretation pass_moves: status_relation "pass_status A" for A
  by unfold_locales (auto simp: pass_status_def)

lemma pass_coverage:
  assumes q: "settles (pass_status A) q0 q" and ids: "distinct (map commandId cs)"
    and cs: "\<And>c. c \<in> set cs \<Longrightarrow> mem q0 (commandId c) = Some c \<and> cmd_status c = Succeeded \<and> A (commandId c)"
  shows "settles (pass_status A) q0 (apply_coverage now cs q)"
proof (cases "cs = []")
  case False
  let ?us = "map (status_update now Applied (\<lambda>r. r)) cs"
  let ?b = "with_commands (\<lambda>s. snd (cs_batchUpdate now ?us s)) q"
  have fst_ids: "map fst ?us = map commandId cs" by (simp add: status_update_def comp_def)
  have view: "batch_view ?us q ?b"
  proof (rule batch_update_view)
    show "queue_ok q" using q by (simp add: settles_def)
    show "distinct (map fst ?us)" unfolding fst_ids by (rule ids)
    show "commandId (f c) = commandId c" if "(i, f) \<in> set ?us" for i f c using that by (auto simp: status_update_def)
  qed
  have "settles (pass_status A) q ?b"
  proof (rule pass_moves.settles_batch [OF view])
    fix i u r assume u: "map_of ?us i = Some u" and r: "mem q i = Some r"
    then obtain c where c: "c \<in> set cs" "i = commandId c" "u = (\<lambda>r. r\<lparr>cmd_status := Applied, cmd_updatedAt := now\<rparr>)"
      by (auto split: if_splits)
    with q cs [OF c(1)] r have "pass_status A i Succeeded (cmd_status r)" by (fastforce simp: settles_def moves_def)
    with c cs [OF c(1)] show "pass_status A i (cmd_status r) (cmd_status (u r))" by (auto simp: pass_status_def)
  qed
  then have "settles (pass_status A) q0 ?b" by (rule pass_moves.settles_trans [OF q])
  then show ?thesis
    by (rule pass_moves.settles_then_frame) (simp add: apply_coverage_def batchUpdateSyncStatus_def False)
qed (simp add: apply_coverage_def q)

lemma pass_save_rewritten:
  assumes "queue_ok q" "distinct (map fst rw)"
  shows "settles (pass_status A) q (save_rewritten now rw q)"
proof -
  have fst_eq: "map fst (map rewritten_update rw) = map fst rw" by (simp add: rewritten_update_def comp_def case_prod_unfold)
  have u: "commandId (u c) = commandId c \<and> cmd_status (u c) = cmd_status c" if "(i, u) \<in> set (map rewritten_update rw)" for i u c
    using that by (auto simp: rewritten_update_def set_body_def split: prod.splits)
  have "batch_view (map rewritten_update rw) q (with_commands (\<lambda>s. snd (cs_batchUpdate now (map rewritten_update rw) s)) q)"
  proof (rule batch_update_view [OF assms(1)])
    show "distinct (map fst (map rewritten_update rw))" unfolding fst_eq by (rule assms(2))
    show "commandId (f c) = commandId c" if "(i, f) \<in> set (map rewritten_update rw)" for i f c using u [OF that] by blast
  qed
  from pass_moves.settles_batch [OF this, of A]
  have "settles (pass_status A) q (with_commands (\<lambda>s. snd (cs_batchUpdate now (map rewritten_update rw) s)) q)"
    using u by (metis map_of_SomeD pass_moves.stays)
  then show ?thesis by (simp add: save_rewritten_def pass_moves.settles_refl [OF assms(1)])
qed

lemma mem_flush: "mem (with_commands (cs_flush now) q) = mem q"
proof -
  define same where "same = (\<lambda>s :: commandBody commandStore. \<forall>i. memory_get s i = memory_get (commands_of q) i)"
  have do: "same (cs_doFlush now s)" if "same s" for s
    using that by (simp add: same_def cs_doFlush_def flush_snapshot_def flush_write_def memory_get_ops)
  have flag: "same (s\<lparr>cs_flushInFlight := b\<rparr>)" if "same s" for s b
  proof -
    have "memory_get (s\<lparr>cs_flushInFlight := b\<rparr>) = memory_get s"
      by (simp add: memory_get_def fun_eq_iff split: option.split)
    with that show ?thesis by (simp add: same_def)
  qed
  have "same (commands_of q)" by (simp add: same_def)
  then have "same (cs_flush now (commands_of q))"
    by (auto simp: cs_flush_def Let_def cs_scheduleFlush_def intro!: do flag)
  then show ?thesis
    by (simp add: fun_eq_iff same_def with_commands_def mem_def memory_get_ops commands_of_def)
qed

lemma pass_flush: "queue_ok q \<Longrightarrow> settles (pass_status A) q (with_commands (cs_flush now) q)"
  using evolvesD(1) [OF evolves_flush] by (simp add: settles_def moves_def mem_flush pass_moves.stays)

lemma pass_settles:
  assumes ok: "queue_ok (ss_queue st)"
  shows "settles (pass_status (covered_command env st)) (ss_queue st) (ss_queue (snd (reconcileAndPersist env now change st)))"
proof (rule pass_invariant [OF ok])
  let ?R = "pass_status (covered_command env st)" and ?q = "ss_queue st"
  let ?cs = "evaluateCoverageForBatch env (ss_known st) ?q
    (filter (\<lambda>c. cmd_status c = Succeeded) (reconcile_commands env ?q))"
  note pass = pass_commands [OF ok, where env = env]
  show "settles ?R ?q ?q" by (rule pass_moves.settles_refl [OF ok])
  show "settles ?R ?q q'" if "settles ?R ?q q" "core q' = core q" for q q'
    using that by (rule pass_moves.settles_then_frame)
  show "settles ?R ?q (save_rewritten now rw q)" if "settles ?R ?q q" "distinct (map fst rw)" for rw q
    using that(1) by (rule pass_moves.settles_then) (rule pass_save_rewritten [OF _ that(2)])
  show "settles ?R ?q (snd (markFailedFromConflict (sy_queue env) now cid e q))" if "settles ?R ?q q" for cid e q
    using that by (rule pass_moves.settles_then) (rule pass_moves.settles_markFailed)
  show "settles ?R ?q (with_commands (cs_flush now) q)" if "settles ?R ?q q" for q
    using that by (rule pass_moves.settles_then) (rule pass_flush)
  show "settles ?R ?q (apply_coverage now ?cs q)" if "settles ?R ?q q" for q
  proof (rule pass_coverage [OF that])
    show "distinct (map commandId ?cs)"
      using pass(1) by (auto simp: evaluateCoverageForBatch_def intro!: distinct_map_filter)
    show "mem ?q (commandId c) = Some c \<and> cmd_status c = Succeeded \<and> covered_command env st (commandId c)" if "c \<in> set ?cs" for c
      using that pass(2) [of c] by (auto simp: evaluateCoverageForBatch_def covered_command_def)
  qed
qed

section \<open>Theorems\<close>

lemma advanced_core: "core (ss_queue (fold (advance_record col) rs st)) = core (ss_queue st)"
proof (induction rs arbitrary: st)
  case (Cons r rs)
  have "core (ss_queue (advance_record col r st)) = core (ss_queue st)"
    by (auto simp: advance_record_def on_queue_def Let_def ec_setKnownPosition_def split: option.split)
  then show ?case by (simp add: Cons.IH)
qed simp

text \<open>
  C8: A pass over server events or records moves the commands in memory only forward: each of them stays, keeps
  its identity and dependencies and is blocked by no new command, and whatever else comes into memory has ended.
  Its status changes in four ways only: a command that has not ended fails or is cancelled, a blocked command
  becomes pending, and a succeeded one is applied, this last only when the pass has it among its commands and
  the read model covers it, by the revisions known to the pass.  So too when the pass throws half-way.
\<close>
theorem reconcile_moves_forward:
  assumes "queue_ok (ss_queue st)"
  shows "evolves (ss_queue st) (ss_queue (snd (reconcile_server_events env now batch preloaded st)))
    \<and> moves (pass_status (covered_command env st)) (ss_queue st)
        (ss_queue (snd (reconcile_server_events env now batch preloaded st)))
    \<and> evolves (ss_queue st) (ss_queue (snd (onApplyRecords env now collection cacheKey records st)))
    \<and> moves (pass_status (covered_command env (note_records env collection records st))) (ss_queue st)
        (ss_queue (snd (onApplyRecords env now collection cacheKey records st)))"
proof (intro conjI)
  have pass: "evolves (ss_queue s) (ss_queue (snd (reconcileAndPersist env now change s)))" if "queue_ok (ss_queue s)" for change s
    using reconcile_pass(1) [OF that] by (metis surj_pair snd_conv)
  have stay: "moves (pass_status A) q q" for A q by (simp add: moves_def pass_moves.stays)
  have refetch: "covered_command env (st\<lparr>ss_refetches := x\<rparr>) = covered_command env st" for x
    by (simp add: covered_command_def fun_eq_iff)
  have step: "moves (pass_status (covered_command env st)) (ss_queue st)
      (ss_queue (snd (reconcileAndPersist env now change (st\<lparr>ss_refetches := x\<rparr>))))" for change x
    using pass_settles [of "st\<lparr>ss_refetches := x\<rparr>" env now change] assms by (simp add: settles_def refetch)
  show "evolves (ss_queue st) (ss_queue (snd (reconcile_server_events env now batch preloaded st)))"
    using pass [of "st\<lparr>ss_refetches := x\<rparr>" for x] assms
    by (simp add: reconcile_server_events_def Let_def evolves_refl)
  show "moves (pass_status (covered_command env st)) (ss_queue st)
      (ss_queue (snd (reconcile_server_events env now batch preloaded st)))"
    by (simp add: reconcile_server_events_def Let_def stay step)
  define st' where "st' = note_records env collection records st"
  have core: "core (ss_queue st') = core (ss_queue st)" by (simp add: st'_def note_records_def advanced_core split: option.split)
  then have st': "evolves (ss_queue st) (ss_queue st')" by (rule evolves_frame [OF assms])
  from evolves_trans [OF this pass [OF evolvesD(1) [OF this]]]
  show "evolves (ss_queue st) (ss_queue (snd (onApplyRecords env now collection cacheKey records st)))"
    using assms by (simp add: onApplyRecords_def st'_def [symmetric] evolves_refl)
  have "moves R (ss_queue st') q = moves R (ss_queue st) q" for R q by (simp add: moves_def view_cong(1) [OF core])
  then show "moves (pass_status (covered_command env (note_records env collection records st))) (ss_queue st)
      (ss_queue (snd (onApplyRecords env now collection cacheKey records st)))"
    using pass_settles [OF evolvesD(1) [OF st'], of env now "records_change collection cacheKey records"]
    by (simp add: onApplyRecords_def st'_def [symmetric] settles_def stay)
qed

text \<open>One pending and one succeeded command on a stored row.\<close>

definition todo_aggregate :: aggregateConfig where
  "todo_aggregate = \<lparr>agg_service = None, agg_type = ''Todo'',
    agg_getStreamId = (\<lambda>v. case v of JStr s \<Rightarrow> ''Todo-'' @ s | _ \<Rightarrow> [])\<rparr>"

definition todo_collection :: syncCollection where
  "todo_collection = \<lparr>qc_name = ''todos'', qc_aggregate = todo_aggregate,
    sc_matchesStream = (\<lambda>s. take 5 s = ''Todo-''), sc_revisionPath = None\<rparr>"

definition todo_registration :: "(unit, cacheKeyIdentity) handlerRegistration" where
  "todo_registration = \<lparr>hr_commandType = ''T'', hr_aggregate = Some todo_aggregate, hr_schema = None, hr_validate = None,
    hr_validateAsync = None, hr_handler = (\<lambda>c st ctx. DomainSuccess [] JUndef), hr_mapFailure = None,
    hr_classifyDependency = None, hr_creates = None, hr_responseIdReferences = None, hr_responseIdMapping = None,
    hr_commandIdReferences = [], hr_resolveCacheKey = None\<rparr>"

definition todo_env :: "unit syncEnv" where
  "todo_env = \<lparr>sy_queue = sample_env\<lparr>qe_executor := Some [(''T'', todo_registration)]\<rparr>,
    sy_collections = [todo_collection], sy_processors = new_processorRegistry, sy_junctions = []\<rparr>"

definition todo_command :: "string \<Rightarrow> commandStatus \<Rightarrow> command" where
  "todo_command i status = set_body (\<lambda>b. b\<lparr>cb_affectedAggregates := Some [\<lparr>aff_streamId = ''Todo-1'',
      aff_link = JObj [(''id'', JStr ''1'')]\<rparr>]\<rparr>) (sample_command i status [] 1)"

definition todo_row :: readModelRecord where
  "todo_row = \<lparr>rm_id = ''1'', rm_collection = ''todos'', rm_cacheKeys = [''k''],
    rm_serverData = Some (json_of (JObj [(''id'', JStr ''1''), (''title'', JStr ''old'')])),
    rm_effectiveData = json_of (JObj [(''id'', JStr ''1''), (''title'', JStr ''old'')]), rm_hasLocalChanges = False,
    rm_updatedAt = 0, rm_revision = None, rm_position = None, rm_clientMetadata = None\<rparr>"

definition todo_state :: syncState where
  "todo_state = \<lparr>ss_queue = (queue_of [todo_command ''p'' Pending, todo_command ''s'' Succeeded])
      \<lparr>q_storage := new_storage\<lparr>readModels := [(''todos:1'', todo_row)]\<rparr>,
       q_mappingStore := (new_idMappingStore 60000 new_storage)\<lparr>ims_initialized := True\<rparr>\<rparr>,
    ss_known = [], ss_refetches = [], ss_emitted = [], ss_reconciled = [], ss_junctionOps = []\<rparr>"

lemma todo_ok: "queue_ok (ss_queue todo_state)"
proof -
  have "queue_ok (queue_of [todo_command ''p'' Pending, todo_command ''s'' Succeeded])"
    by (rule queue_of_ok) (simp_all add: todo_command_def set_body_def sample_command_def)
  moreover have "core (ss_queue todo_state) = core (queue_of [todo_command ''p'' Pending, todo_command ''s'' Succeeded])"
    by (simp add: todo_state_def core_iff queue_of_def empty_queue_def new_commandQueue_def)
  ultimately show ?thesis by (rule ok_frame [rotated])
qed

definition todo_record :: seedRecord where
  "todo_record = \<lparr>sr_id = ''1'', sr_data = JObj [(''id'', JStr ''1''), (''title'', JStr ''new'')],
    sr_revision = None, sr_position = None\<rparr>"

theorem reconcile_moves_forward_witness:
  "evolves (ss_queue todo_state) (ss_queue (snd (onApplyRecords todo_env 0 ''todos'' ''k'' [todo_record] todo_state)))
    \<and> (\<exists>r. mem (ss_queue (snd (onApplyRecords todo_env 0 ''todos'' ''k'' [todo_record] todo_state))) ''p'' = Some r
        \<and> cmd_status r \<in> {Pending, Failed, Cancelled})"
proof -
  let ?q = "ss_queue (snd (onApplyRecords todo_env 0 ''todos'' ''k'' [todo_record] todo_state))"
  note fwd = reconcile_moves_forward [OF todo_ok, where env = todo_env and now = 0 and collection = "''todos''"
    and cacheKey = "''k''" and records = "[todo_record]"]
  have p: "mem (ss_queue todo_state) ''p'' = Some (todo_command ''p'' Pending)"
    by (simp add: todo_state_def mem_def memory_get_def queue_of_def todo_command_def set_body_def sample_command_def)
  have "cmd_status (todo_command ''p'' Pending) = Pending" by (simp add: todo_command_def set_body_def sample_command_def)
  with fwd p have "\<exists>r. mem ?q ''p'' = Some r \<and> pass_status (covered_command todo_env
      (note_records todo_env ''todos'' [todo_record] todo_state)) ''p'' Pending (cmd_status r)"
    by (fastforce simp: moves_def)
  with fwd show ?thesis by (auto simp: pass_status_def)
qed

text \<open>
  C9: A pass that does not throw applies every succeeded command that the read model covers: one whose cache key
  is gone, or whose aggregate is known up to the revision the server answered with.
\<close>

theorem covered_commands_applied:
  assumes "queue_ok (ss_queue st)" "reconcileAndPersist env now change st = (None, st')"
    and "c \<in> set (reconcile_commands env (ss_queue st))" "cmd_status c = Succeeded"
    and "covered env (ss_known st) (ss_queue st) c"
  shows "\<exists>r. mem (ss_queue st') (commandId c) = Some r \<and> cmd_status r = Applied"
  using reconcile_pass(2) [OF assms(1,2) refl assms(3-5)] .

lemma finish_quiet:
  assumes "ch_pending change = []" "case_option True (\<lambda>out. rc_conflicts out = []) outp"
  shows "\<exists>q'. finish_batch env now known change cs outp q = (None, q')"
  using assms by (cases outp) (simp_all add: finish_batch_def advance_chains_def chain_updates_def and_then_def)

text \<open>What remains to be evaluated for a pass that stages nothing and meets no conflict.\<close>

definition quiet_until_finish :: "'s syncEnv \<Rightarrow> int \<Rightarrow> serverStateChange \<Rightarrow> syncState \<Rightarrow> bool" where
  "quiet_until_finish env now change st =
    (case load_rows env (ss_queue st) (reconcile_commands env (ss_queue st)) change of
       Inl e \<Rightarrow> False
     | Inr change1 \<Rightarrow>
         ch_tempIds change1 = [] \<and> ch_pending change1 = [] \<and> (case qe_executor (sy_queue env) of None \<Rightarrow> False | Some ex \<Rightarrow>
         (case run_commands_again env now
               (filter (\<lambda>c. cmd_status c \<noteq> Succeeded) (reconcile_commands env (ss_queue st))) change1 (ss_queue st) of
            Inl e \<Rightarrow> False
          | Inr (change2, fin, rw, outp, q1) \<Rightarrow>
              ch_pending change2 = [] \<and> (case outp of None \<Rightarrow> True | Some out \<Rightarrow> rc_conflicts out = []) \<and>
              (case persist_batch env now [] (ch_modified change1) change2 fin rw outp (on_queue (\<lambda>_. q1) st) of
                 (e, s) \<Rightarrow> (case e of None \<Rightarrow> True | Some x \<Rightarrow> False)))))"

lemma quiet_pass:
  assumes "quiet_until_finish env now change st"
  shows "\<exists>st'. reconcileAndPersist env now change st = (None, st')"
proof -
  define q where "q = ss_queue st"
  define cs where "cs = reconcile_commands env q"
  obtain change1 ex where load: "load_rows env q cs change = Inr change1" and tmp: "ch_tempIds change1 = []" "ch_pending change1 = []"
    and ex: "qe_executor (sy_queue env) = Some ex"
    using assms by (auto simp: quiet_until_finish_def q_def cs_def split: sum.splits option.splits)
  obtain change2 fin rw outp q1 where run: "run_commands_again env now (filter (\<lambda>c. cmd_status c \<noteq> Succeeded) cs) change1 q =
      Inr (change2, fin, rw, outp, q1)"
    and quiet: "ch_pending change2 = []" "case_option True (\<lambda>out. rc_conflicts out = []) outp"
    and p: "case persist_batch env now [] (ch_modified change1) change2 fin rw outp (on_queue (\<lambda>_. q1) st) of
      (e, s) \<Rightarrow> (case e of None \<Rightarrow> True | Some x \<Rightarrow> False)"
    using assms load ex
    unfolding quiet_until_finish_def q_def [symmetric] cs_def [symmetric]
    by (auto split: sum.splits)
  from p obtain st1 where p: "persist_batch env now [] (ch_modified change1) change2 fin rw outp (on_queue (\<lambda>_. q1) st) = (None, st1)"
    by (auto split: prod.splits option.splits)
  define applied where "applied = evaluateCoverageForBatch env (ss_known st) q (filter (\<lambda>c. cmd_status c = Succeeded) cs)"
  obtain q' where "finish_batch env now (ss_known st1) change2 applied outp (ss_queue st1) = (None, q')"
    using finish_quiet [OF quiet] by blast
  then show ?thesis
    using load run p unfolding reconcileAndPersist_def Let_def q_def [symmetric] cs_def [symmetric]
    by (simp add: tmp ex comp_def and_then_def applied_def [symmetric] List.map_filter_simps)
qed

theorem covered_commands_applied_witness:
  "\<exists>r. mem (ss_queue (snd (reconcileAndPersist todo_env 0 (new_change []) todo_state))) ''s'' = Some r
    \<and> cmd_status r = Applied"
proof -
  define c where "c = todo_command ''s'' Succeeded"
  have "quiet_until_finish todo_env 0 (new_change []) todo_state" by code_simp
  from quiet_pass [OF this] obtain st' where run: "reconcileAndPersist todo_env 0 (new_change []) todo_state = (None, st')" ..
  have c: "c \<in> set (reconcile_commands todo_env (ss_queue todo_state))" unfolding c_def by code_simp
  have s: "cmd_status c = Succeeded" and i: "commandId c = ''s''"
    by (simp_all add: c_def todo_command_def set_body_def sample_command_def)
  have cov: "covered todo_env (ss_known todo_state) (ss_queue todo_state) c" unfolding c_def by code_simp
  show ?thesis unfolding run snd_conv using covered_commands_applied [OF todo_ok run c s cov] unfolding i .
qed

lemma load_server_get:
  assumes "map_wf records"
  shows "map_get (load_server records m) k =
    (case Option.bind (map_get records k) rdm_serverData of
       Some d \<Rightarrow> if is_object d then Some d else map_get m k | None \<Rightarrow> map_get m k)"
  using assms
proof (induction records arbitrary: m)
  case (Cons kr records)
  obtain i r where kr: "kr = (i, r)" by (cases kr)
  have wf: "map_wf records" "i \<notin> set (map_keys records)" using Cons.prems by (simp_all add: kr map_wf_def)
  have none: "map_get records i = None" using wf(2) by (simp add: map_of_eq_None_iff)
  have "load_server (kr # records) m = load_server records (add_state i (rdm_serverData r) m)"
    by (simp add: load_server_def kr)
  moreover have "map_get (add_state i d m) k =
      (case d of Some v \<Rightarrow> if is_object v \<and> k = i then Some v else map_get m k | None \<Rightarrow> map_get m k)" for d k
    by (simp add: add_state_def split: option.split)
  ultimately show ?case using none
    by (auto simp: Cons.IH [OF wf(1)] kr split: option.split)
qed (simp add: load_server_def)

lemma rows_to_load_keys:
  assumes "c \<in> set cs" "primary_row env q c = Some (collection, i)" "\<not> map_has preloaded (stateKey collection i)"
  shows "\<exists>pair \<in> set (map_values (rows_to_load env q preloaded cs)). stateKey (fst pair) (snd pair) = stateKey collection i"
proof -
  define step where "step = (\<lambda>c m. case primary_row env q c of
        None \<Rightarrow> m
      | Some (collection, i) \<Rightarrow>
          if map_has preloaded (stateKey collection i) \<or> map_has m (stateKey collection i) then m
          else map_set (stateKey collection i) (collection, i) m)"
  define keyed where "keyed = (\<lambda>m :: (string, string \<times> string) jsmap. \<forall>k c i. map_get m k = Some (c, i) \<longrightarrow> k = stateKey c i)"
  have step: "keyed (step c m) \<and> (\<forall>k. map_has m k \<longrightarrow> map_has (step c m) k)" if "keyed m" for c m
    using that by (auto simp: step_def keyed_def split: option.split)
  have "keyed (fold step cs m) \<and> (\<forall>k. map_has m k \<longrightarrow> map_has (fold step cs m) k)
      \<and> (c \<in> set cs \<longrightarrow> map_has (fold step cs m) (stateKey collection i))" if "keyed m" for m
    using that
  proof (induction cs arbitrary: m)
    case (Cons d cs)
    have "map_has (step c m) (stateKey collection i)"
      using assms(2,3) by (simp add: step_def)
    then show ?case using Cons.IH [of "step d m"] step [OF Cons.prems, of d] by auto
  qed simp
  from this [of "[]"] assms(1) obtain c' i' where
    "map_get (rows_to_load env q preloaded cs) (stateKey collection i) = Some (c', i')" "stateKey c' i' = stateKey collection i"
    by (auto simp: keyed_def rows_to_load_def step_def [symmetric] map_has_def)
  then show ?thesis using map_of_SomeD by force
qed

lemma getMany_get:
  assumes "getManyByCollectionIds st pairs = Inr records" "pair \<in> set pairs" "stateKey (fst pair) (snd pair) = stateKey collection i"
    and "getReadModel st collection i = Some row" "recordToReadModel row = Inr m"
  shows "map_get records (stateKey collection i) = Some m" "map_wf records"
proof -
  define step where "step = (\<lambda>(c, i) m. case getReadModel st c i of
        None \<Rightarrow> Inr m
      | Some r \<Rightarrow> map_result (\<lambda>d. map_set (c @ '':'' @ i) d m) (recordToReadModel r))"
  have same: "getReadModel st (fst p) (snd p) = Some row" if "stateKey (fst p) (snd p) = stateKey collection i" for p
    using assms(4) that by (simp add: getReadModel_def getReadModelKey_def stateKey_def)
  have one: "map_get m1 (stateKey collection i) = Some m"
    if "step p m0 = Inr m1" "stateKey (fst p) (snd p) = stateKey collection i \<or> map_get m0 (stateKey collection i) = Some m" for p m0 m1
    using that same [of p] assms(5)
    by (auto simp: step_def map_result_Inr stateKey_def split: prod.splits option.splits)
  have wf: "map_wf m1" if "step p m0 = Inr m1" "map_wf m0" for p m0 m1
    using that by (auto simp: step_def map_result_Inr split: prod.splits option.splits intro: wf_intros)
  have fold: "(\<exists>p\<in>set ps. stateKey (fst p) (snd p) = stateKey collection i) \<or> map_get m0 (stateKey collection i) = Some m \<Longrightarrow>
      fold_result step ps m0 = Inr m1 \<Longrightarrow> map_get m1 (stateKey collection i) = Some m" for ps m0 m1
  proof (induction ps arbitrary: m0)
    case (Cons p ps)
    then obtain m2 where m2: "step p m0 = Inr m2" "fold_result step ps m2 = Inr m1" by (auto simp: bind_result_Inr)
    show ?case using Cons.IH [OF _ m2(2)] Cons.prems(1) one [OF m2(1)] by auto
  qed simp
  have run: "fold_result step pairs [] = Inr records" using assms(1) by (simp add: getManyByCollectionIds_def step_def)
  show "map_get records (stateKey collection i) = Some m" using fold [OF _ run] assms(2,3) by blast
  show "map_wf records" using fold_result_invariant [OF run, of map_wf] wf by (metis map_wf_Nil)
qed

text \<open>
  C13: The rows of the commands' entities are loaded over the records of a page: what a re-run handler is given as
  the state on the server is what was stored before, whatever the page says.
\<close>
theorem records_rerun_stale:
  assumes "c \<in> set (reconcile_commands env q)" "primary_row env q c = Some (collection, i)"
    and "getReadModel (q_storage q) collection i = Some row" "recordToReadModel row = Inr m"
    and "rdm_serverData m = Some d" "is_object d"
    and "load_rows env q (reconcile_commands env q) (records_change pageCollection cacheKey records) = Inr change"
  shows "map_get (ch_server change) (stateKey collection i) = Some d"
proof -
  define ch where "ch = records_change pageCollection cacheKey records"
  have "ch_preloaded (fold (stage_record pageCollection cacheKey) rs x) = ch_preloaded x" for rs x
    by (induction rs arbitrary: x) (simp_all add: stage_record_def Let_def)
  then have pre: "ch_preloaded ch = []" by (simp add: ch_def records_change_def new_change_def)
  define rows where "rows = rows_to_load env q [] (reconcile_commands env q)"
  obtain pair where pair: "pair \<in> set (map_values rows)" "stateKey (fst pair) (snd pair) = stateKey collection i"
    using rows_to_load_keys [OF assms(1,2), of "[]"] unfolding rows_def by (metis map_has_Nil)
  then have "rows \<noteq> []" by auto
  then obtain recs where recs: "getManyByCollectionIds (q_storage q) (map_values rows) = Inr recs"
    "change = ch\<lparr>ch_server := load_server recs (ch_server ch), ch_client := load_client recs (ch_client ch)\<rparr>"
    using assms(7) by (auto simp: load_rows_def ch_def [symmetric] pre rows_def [symmetric] Let_def map_result_Inr)
  from getMany_get [OF recs(1) pair assms(3,4)] show ?thesis
    using assms(5,6) by (simp add: recs(2) load_server_get)
qed

theorem records_rerun_stale_witness:
  "\<exists>change. load_rows todo_env (ss_queue todo_state) (reconcile_commands todo_env (ss_queue todo_state))
      (records_change ''todos'' ''k'' [todo_record]) = Inr change
    \<and> map_get (ch_server change) (stateKey ''todos'' ''1'') = Some (JObj [(''id'', JStr ''1''), (''title'', JStr ''old'')])"
proof -
  define q where "q = ss_queue todo_state"
  define loaded where "loaded = load_rows todo_env q (reconcile_commands todo_env q) (records_change ''todos'' ''k'' [todo_record])"
  have "(case loaded of Inl e \<Rightarrow> False | Inr ch \<Rightarrow> True)" unfolding loaded_def q_def by code_simp
  then obtain change where load: "loaded = Inr change" by (auto split: sum.splits)
  define row where "row = (case recordToReadModel todo_row of Inr m \<Rightarrow> Some m | Inl e \<Rightarrow> None)"
  have "map_option rdm_serverData row = Some (Some (JObj [(''id'', JStr ''1''), (''title'', JStr ''old'')]))"
    unfolding row_def by code_simp
  then obtain m where m: "recordToReadModel todo_row = Inr m"
    "rdm_serverData m = Some (JObj [(''id'', JStr ''1''), (''title'', JStr ''old'')])"
    by (auto simp: row_def split: sum.splits)
  have c: "todo_command ''p'' Pending \<in> set (reconcile_commands todo_env q)" unfolding q_def by code_simp
  have row: "primary_row todo_env q (todo_command ''p'' Pending) = Some (''todos'', ''1'')" unfolding q_def by code_simp
  have stored: "getReadModel (q_storage q) ''todos'' ''1'' = Some todo_row"
    by (simp add: q_def todo_state_def getReadModel_def getReadModelKey_def)
  have "map_get (ch_server change) (stateKey ''todos'' ''1'') = Some (JObj [(''id'', JStr ''1''), (''title'', JStr ''old'')])"
    by (rule records_rerun_stale [OF c row stored m _ load [unfolded loaded_def]]) simp
  with load show ?thesis unfolding loaded_def q_def by (intro exI conjI)
qed

text \<open>
  C10: A command's handler runs again exactly when the key of the command's entity is dirty once the commands
  before it are done; the outcome lands in the two results, and every other command keeps its events.
\<close>

theorem reconcile_reruns_dirty:
  assumes "cs = xs @ c # ys" "distinct (map commandId cs)"
    and "key_dirty = (\<lambda>key. key \<in> set (rc_dirty (reconcilePendingCommands wi dirty xs client)))"
    and "out = reconcilePendingCommands wi dirty cs client"
  shows "map_get (rc_events out) (commandId c) =
      (case primary_key wi c of Some key \<Rightarrow>
         if key_dirty key then (case rerun_handler wi c key of DomainSuccess es plan \<Rightarrow> Some es | _ \<Rightarrow> None) else None
       | None \<Rightarrow> None)
    \<and> map_get (rc_conflicts out) (commandId c) =
      (case primary_key wi c of Some key \<Rightarrow>
         if key_dirty key then (case rerun_handler wi c key of DomainConflict e \<Rightarrow> Some e | _ \<Rightarrow> None) else None
       | None \<Rightarrow> None)"
proof -
  define w where "w = fold (walk_command wi) xs (walk_start dirty client)"
  have i: "commandId c \<notin> commandId ` set ys" "commandId c \<notin> commandId ` set xs" using assms(1,2) by auto
  have none: "map_get (rc_events w) (commandId c) = None" "map_get (rc_conflicts w) (commandId c) = None"
    unfolding w_def by (simp_all add: walk_other_results [OF i(2)])
  have "out = fold (walk_command wi) ys (walk_command wi c w)"
    by (simp add: assms(1,4) reconcilePendingCommands_def w_def)
  moreover have "key_dirty = (\<lambda>key. key \<in> set (rc_dirty w))"
    by (simp add: assms(3) reconcilePendingCommands_def w_def)
  ultimately show ?thesis
    by (simp add: walk_other_results [OF i(1)] walk_command_results none split: option.split domainOutcome.split)
qed

theorem reconcile_reruns_dirty_witness:
  "map_get (rc_events (reconcilePendingCommands (walk_input todo_env (ss_queue todo_state) [(''T'', todo_registration)] [])
      [''todos:1''] [todo_command ''p'' Pending] [])) ''p'' = Some []"
proof -
  define wi where "wi = walk_input todo_env (ss_queue todo_state) [(''T'', todo_registration)] []"
  define c where "c = todo_command ''p'' Pending"
  have key: "primary_key wi c = Some ''todos:1''" unfolding wi_def c_def by code_simp
  have "commandId c = ''p''" "rerun_handler wi c ''todos:1'' = DomainSuccess [] JUndef"
    by (simp_all add: c_def wi_def todo_command_def set_body_def sample_command_def rerun_handler_def walk_input_def
        executor_handle_def todo_registration_def)
  then show ?thesis
    using reconcile_reruns_dirty [of "[c]" "[]" c "[]", OF _ _ refl refl, of wi "[''todos:1'']" "[]"] key
    unfolding wi_def [symmetric] c_def [symmetric] by (simp add: reconcilePendingCommands_def)
qed

text \<open>A processor that renames the row, and one that gives up.\<close>

definition with_processor :: "processorReturn \<Rightarrow> unit syncEnv" where
  "with_processor result = todo_env\<lparr>sy_processors := epr_register \<lparr>reg_eventTypes = One ''Renamed'',
      reg_processor = (\<lambda>e st ctx. result), reg_persistenceTypes = None\<rparr> new_processorRegistry\<rparr>"

definition rename_row :: processorReturn where
  "rename_row = OneResult \<lparr>pr_collection = ''todos'', pr_id = JStr ''1'',
    pr_update = MergeOp (JObj [(''title'', JStr ''new'')]), pr_isServerUpdate = True\<rparr>"

definition renamed_entry :: "string \<Rightarrow> wsEntry" where
  "renamed_entry i = \<lparr>we_event = \<lparr>se_id = i, se_type = ''Renamed'', se_streamId = ''Todo-1'', se_persistence = None,
      se_data = JObj [(''id'', JStr ''1'')], se_metadata = JUndef, se_position = 7, se_revision = 3, se_created = []\<rparr>,
    we_cacheKeys = [''k'']\<rparr>"

lemma rows_to_load_keys_iff:
  "(\<exists>pair \<in> set (map_values (rows_to_load env q preloaded cs)). stateKey (fst pair) (snd pair) = key) \<longleftrightarrow>
    (\<exists>c \<in> set cs. \<exists>collection i. primary_row env q c = Some (collection, i) \<and> stateKey collection i = key) \<and>
    \<not> map_has preloaded key"
proof
  define ok where "ok = (\<lambda>(p :: string \<times> string). (\<exists>c \<in> set cs. primary_row env q c = Some p) \<and>
    \<not> map_has preloaded (stateKey (fst p) (snd p)))"
  have sub: "ok p" if "p \<in> set (map_values (fold (\<lambda>c m. case primary_row env q c of
        None \<Rightarrow> m
      | Some (collection, i) \<Rightarrow>
          if map_has preloaded (stateKey collection i) \<or> map_has m (stateKey collection i) then m
          else map_set (stateKey collection i) (collection, i) m) ds m))"
    "set ds \<subseteq> set cs" "\<forall>p \<in> set (map_values m). ok p" for ds m p
    using that
  proof (induction ds arbitrary: m)
    case (Cons d ds)
    have keep: "\<forall>p \<in> set (map_values (map_set k v m)). ok p" if "ok v" for k v
      using Cons.prems(3) that by (auto dest: map_set_mem)
    have new: "ok (collection, i)" if "primary_row env q d = Some (collection, i)"
      "\<not> map_has preloaded (stateKey collection i)" for collection i
      using that Cons.prems(2) by (auto simp: ok_def)
    show ?case
      by (rule Cons.IH [OF Cons.prems(1) [unfolded fold_simps]])
        (use Cons.prems(2,3) keep [OF new] in \<open>auto split: option.split simp del: set_map\<close>)
  qed auto
  assume "\<exists>pair \<in> set (map_values (rows_to_load env q preloaded cs)). stateKey (fst pair) (snd pair) = key"
  then show "(\<exists>c \<in> set cs. \<exists>collection i. primary_row env q c = Some (collection, i) \<and> stateKey collection i = key) \<and>
      \<not> map_has preloaded key"
    using sub [of _ cs "[]"] unfolding rows_to_load_def ok_def by fastforce
qed (use rows_to_load_keys [of _ cs env q] in blast)

text \<open>What is read for a list of rows, key by key.\<close>

definition stored_model :: "'c inMemoryStorage \<Rightarrow> string \<Rightarrow> readModel option" where
  "stored_model st key = Option.bind (map_get (readModels st) key)
     (\<lambda>row. case recordToReadModel row of Inr m \<Rightarrow> Some m | Inl e \<Rightarrow> None)"

lemma getMany_closed:
  assumes "getManyByCollectionIds st pairs = Inr records"
  shows "map_get records key =
    (if \<exists>pair \<in> set pairs. stateKey (fst pair) (snd pair) = key then stored_model st key else None)"
proof -
  define step where "step = (\<lambda>(c, i) m. case getReadModel st c i of
        None \<Rightarrow> Inr m
      | Some r \<Rightarrow> map_result (\<lambda>d. map_set (c @ '':'' @ i) d m) (recordToReadModel r))"
  have one: "map_get m1 key = (if stateKey (fst p) (snd p) = key \<and> stored_model st key \<noteq> None
      then stored_model st key else map_get m0 key)" if "step p m0 = Inr m1" for p m0 m1
    using that by (auto simp: step_def map_result_Inr stored_model_def getReadModel_def getReadModelKey_def
        stateKey_def split: prod.splits option.splits sum.splits)
  have "map_get m1 key = (if (\<exists>p \<in> set ps. stateKey (fst p) (snd p) = key) \<and> stored_model st key \<noteq> None
      then stored_model st key else map_get m0 key)" if "fold_result step ps m0 = Inr m1" for ps m0 m1
    using that
  proof (induction ps arbitrary: m0)
    case (Cons p ps)
    then obtain m2 where m2: "step p m0 = Inr m2" "fold_result step ps m2 = Inr m1" by (auto simp: bind_result_Inr)
    show ?case using Cons.IH [OF m2(2)] one [OF m2(1)] by auto
  qed simp
  from this [of pairs "[]" records] assms show ?thesis
    by (auto simp: getManyByCollectionIds_def step_def)
qed

lemma getMany_wf:
  assumes "getManyByCollectionIds st pairs = Inr records"
  shows "map_wf records"
proof -
  define step where "step = (\<lambda>(c, i) m. case getReadModel st c i of
        None \<Rightarrow> Inr m
      | Some r \<Rightarrow> map_result (\<lambda>d. map_set (c @ '':'' @ i) d m) (recordToReadModel r))"
  have wf: "map_wf m1" if "step p m0 = Inr m1" "map_wf m0" for p m0 m1
    using that by (auto simp: step_def map_result_Inr split: prod.splits option.splits intro: wf_intros)
  show ?thesis
    using fold_result_invariant [of step pairs "[]" records map_wf] wf assms
    by (simp add: getManyByCollectionIds_def step_def)
qed

text \<open>The server data with which a row of a command's entity takes the place of what a batch has staged.\<close>

definition reloaded_state ::
  "'s syncEnv \<Rightarrow> commandQueue \<Rightarrow> (string, readModel) jsmap \<Rightarrow> command list \<Rightarrow> string \<Rightarrow> jsval option" where
  "reloaded_state env q preloaded cs key =
    (if (\<exists>c \<in> set cs. \<exists>collection i. primary_row env q c = Some (collection, i) \<and> stateKey collection i = key) \<and>
        \<not> map_has preloaded key
     then Option.bind (Option.bind (stored_model (q_storage q) key) rdm_serverData)
       (\<lambda>d. if is_object d then Some d else None)
     else None)"

lemma load_rows_get:
  assumes "load_rows env q cs change = Inr loaded"
  shows "map_get (ch_server loaded) key =
    (case reloaded_state env q (ch_preloaded change) cs key of Some d \<Rightarrow> Some d | None \<Rightarrow> map_get (ch_server change) key)"
proof -
  define rows where "rows = rows_to_load env q (ch_preloaded change) cs"
  note keys = rows_to_load_keys_iff [of env q "ch_preloaded change" cs key, folded rows_def]
  show ?thesis
  proof (cases "rows = []")
    case True
    with assms keys show ?thesis by (auto simp: load_rows_def Let_def rows_def [symmetric] reloaded_state_def)
  next
    case False
    then obtain records where r: "getManyByCollectionIds (q_storage q) (map_values rows) = Inr records"
      "loaded = change\<lparr>ch_server := load_server records (ch_server change), ch_client := load_client records (ch_client change)\<rparr>"
      using assms by (auto simp: load_rows_def Let_def rows_def [symmetric] map_result_Inr)
    have "map_get (ch_server loaded) key = (case Option.bind (map_get records key) rdm_serverData of
       Some d \<Rightarrow> if is_object d then Some d else map_get (ch_server change) key | None \<Rightarrow> map_get (ch_server change) key)"
      by (simp add: r(2) load_server_get [OF getMany_wf [OF r(1)]])
    then show ?thesis
      unfolding getMany_closed [OF r(1)] keys reloaded_state_def
      by (cases "stored_model (q_storage q) key") (auto split: option.splits if_splits)
  qed
qed

text \<open>Folding the updates staged under a cache key that every event carries gives the staged server state.\<close>

lemma staged_server_state:
  assumes "\<And>entry. entry \<in> set batch \<Longrightarrow> k \<in> set (we_cacheKeys entry) \<and> distinct (we_cacheKeys entry)"
    and "change = sf_change (fold_server_events env creates preloaded batch)"
  shows "map_get (ch_server change) key =
      fold (\<lambda>op state. applyOp state op) (staged_updates k key (ch_pending change)) (map_get (load_server preloaded []) key)"
    and "key \<notin> set (ch_dirty change) \<Longrightarrow> map_get (ch_server change) key = map_get (load_server preloaded []) key"
proof -
  define P where "P = (\<lambda>ch :: serverStateChange. map_get (ch_server ch) key =
      fold (\<lambda>op state. applyOp state op) (staged_updates k key (ch_pending ch)) (map_get (load_server preloaded []) key)
    \<and> (key \<notin> set (ch_dirty ch) \<longrightarrow> map_get (ch_server ch) key = map_get (load_server preloaded []) key))"
  have "P (sf_change (fold_server_events env creates preloaded batch))"
  proof (rule fold_change_induct)
    show "P (new_change preloaded)" by (simp add: P_def new_change_def staged_updates_def)
  next
    fix s i ch and r :: processorResult
    assume s: "s \<in> set (List.map_filter (scan_entry (sy_collections env)) batch)" and r: "row_key (pr_id r) = Some i"
      and IH: "P ch"
    have keys: "distinct (sn_cacheKeys s)" "k \<in> set (sn_cacheKeys s)"
      using scanned_entry [OF s] assms(1) by metis+
    have pending: "staged_updates k key (ch_pending (stage_change s r i ch)) =
        staged_updates k key (ch_pending ch) @ (if key = stateKey (pr_collection r) i then [pr_update r] else [])"
      by (simp add: stage_change_def Let_def staged_append staged_one [OF r keys])
    have "map_get (ch_server (stage_change s r i ch)) key = fold (\<lambda>op state. applyOp state op)
        (staged_updates k key (ch_pending (stage_change s r i ch))) (map_get (load_server preloaded []) key)"
      using IH by (auto simp: P_def pending stage_change_parts(1))
    moreover have "map_get (ch_server (stage_change s r i ch)) key = map_get (load_server preloaded []) key"
      if "key \<notin> set (ch_dirty (stage_change s r i ch))"
      using IH that stage_change_parts(2) [of key ch s r i] stage_change_parts(3) [of r i s ch]
      by (cases "key = stateKey (pr_collection r) i") (auto simp: P_def stage_change_parts(1))
    ultimately show "P (stage_change s r i ch)" by (simp add: P_def)
  next
    fix s ch
    assume "P ch"
    moreover have "P (resolve_id creates s ch) = P ch"
      by (simp add: P_def resolve_id_def cong: if_cong split: option.split)
    ultimately show "P (resolve_id creates s ch)" by simp
  qed
  then show "map_get (ch_server change) key =
      fold (\<lambda>op state. applyOp state op) (staged_updates k key (ch_pending change)) (map_get (load_server preloaded []) key)"
    "key \<notin> set (ch_dirty change) \<Longrightarrow> map_get (ch_server change) key = map_get (load_server preloaded []) key"
    unfolding P_def assms(2) by blast+
qed

lemma fold_preloaded: "ch_preloaded (sf_change (fold_server_events env creates preloaded batch)) = preloaded"
proof (rule fold_change_induct)
  show "ch_preloaded (new_change preloaded) = preloaded" by (simp add: new_change_def)
  show "ch_preloaded (stage_change s r i ch) = preloaded" if "ch_preloaded ch = preloaded" for s r i ch
    using that by (simp add: stage_change_def server_step_def Let_def split: option.split)
  show "ch_preloaded (resolve_id creates s ch) = preloaded" if "ch_preloaded ch = preloaded" for s ch
    using that by (simp add: resolve_id_def split: option.split)
qed

text \<open>
  C11: The server state that the handlers of a pass over server events run on again.  For an entity of one of the
  commands whose row is stored and was not among the rows loaded with the batch, it is the stored server data
  (whatever the batch staged for it); for every other entity it is the result of folding, over the baseline
  loaded with the batch, the updates that the batch stages for it under a cache key that every event of the
  batch carries.  An entity that is not dirty after the batch keeps its baseline there.
\<close>

theorem server_state_is_staged:
  assumes "\<And>entry. entry \<in> set batch \<Longrightarrow> k \<in> set (we_cacheKeys entry) \<and> distinct (we_cacheKeys entry)"
    and "change = sf_change (fold_server_events env creates preloaded batch)"
    and "load_rows env q cs change = Inr loaded"
  shows "map_get (wi_server (walk_input env q executor (ch_server loaded))) key =
      (case reloaded_state env q preloaded cs key of
         Some stored \<Rightarrow> Some stored
       | None \<Rightarrow> fold (\<lambda>op state. applyOp state op) (staged_updates k key (ch_pending loaded))
           (map_get (load_server preloaded []) key))
    \<and> (key \<notin> set (ch_dirty loaded) \<longrightarrow> reloaded_state env q preloaded cs key = None \<longrightarrow>
        map_get (wi_server (walk_input env q executor (ch_server loaded))) key = map_get (load_server preloaded []) key)"
proof -
  have keeps: "ch_pending loaded = ch_pending change" "ch_dirty loaded = ch_dirty change"
    using assms(3) by (auto simp: load_rows_def Let_def map_result_Inr split: if_splits)
  have pre: "ch_preloaded change = preloaded" unfolding assms(2) by (rule fold_preloaded)
  note staged = staged_server_state [OF assms(1,2), of key]
  show ?thesis
    using load_rows_get [OF assms(3), of key] staged
    by (auto simp: walk_input_def keeps pre split: option.splits)
qed

definition todo_model :: "readModel option" where
  "todo_model = stored_model (q_storage (ss_queue todo_state)) ''todos:1''"

theorem server_state_is_staged_witness:
  "case load_rows (with_processor rename_row) (ss_queue todo_state) [todo_command ''p'' Pending]
      (sf_change (fold_server_events (with_processor rename_row) [] [(''todos:1'', the todo_model)] [renamed_entry ''e1''])) of
     Inl e \<Rightarrow> False
   | Inr loaded \<Rightarrow> map_get (wi_server (walk_input (with_processor rename_row) (ss_queue todo_state) [] (ch_server loaded))) ''todos:1'' =
       Some (JObj [(''id'', JStr ''1''), (''title'', JStr ''new'')])"
proof -
  define env where "env = with_processor rename_row"
  define q where "q = ss_queue todo_state"
  define change where "change = sf_change (fold_server_events env [] [(''todos:1'', the todo_model)] [renamed_entry ''e1''])"
  define loaded where "loaded = load_rows env q [todo_command ''p'' Pending] change"
  have "case loaded of Inl e \<Rightarrow> False | Inr ch \<Rightarrow>
      staged_updates ''k'' ''todos:1'' (ch_pending ch) = [MergeOp (JObj [(''title'', JStr ''new'')])]"
    unfolding loaded_def change_def env_def q_def by code_simp
  then obtain ch where ch: "loaded = Inr ch"
    "staged_updates ''k'' ''todos:1'' (ch_pending ch) = [MergeOp (JObj [(''title'', JStr ''new'')])]"
    by (auto split: sum.splits)
  have keys: "''k'' \<in> set (we_cacheKeys entry) \<and> distinct (we_cacheKeys entry)"
    if "entry \<in> set [renamed_entry ''e1'']" for entry
    using that by (simp add: renamed_entry_def)
  have fresh: "reloaded_state env q [(''todos:1'', the todo_model)] [todo_command ''p'' Pending] ''todos:1'' = None"
    by (simp add: reloaded_state_def map_has_def)
  have base: "map_get (load_server [(''todos:1'', the todo_model)] []) ''todos:1'' =
      Some (JObj [(''id'', JStr ''1''), (''title'', JStr ''old'')])" by code_simp
  have op: "spread_over (JObj [(''id'', JStr ''1''), (''title'', JStr ''old'')]) (JObj [(''title'', JStr ''new'')]) =
      [(''id'', JStr ''1''), (''title'', JStr ''new'')]" by code_simp
  have "map_get (wi_server (walk_input env q [] (ch_server ch))) ''todos:1'' =
      Some (JObj [(''id'', JStr ''1''), (''title'', JStr ''new'')])"
    using server_state_is_staged [THEN conjunct1, OF keys change_def, of q "[todo_command ''p'' Pending]" ch "[]" "''todos:1''"]
      ch by (simp add: loaded_def fresh base op)
  with ch show ?thesis unfolding loaded_def change_def env_def q_def by simp
qed

section \<open>What the later events do to an invalidated row\<close>

text \<open>A processor may return a result for any row, not only for the entity its event is addressed to.\<close>

definition may_write :: "'s syncEnv \<Rightarrow> string \<Rightarrow> scannedEvent \<Rightarrow> bool" where
  "may_write env key s \<longleftrightarrow>
    (\<exists>p \<in> set (processors_for env (sn_event s)). \<exists>state. \<exists>r \<in> set (processor_results (p (sn_event s) state (server_context (sn_event s)))).
      map_option (stateKey (pr_collection r)) (row_key (pr_id r)) = Some key)"

text \<open>What the fold holds of one row: its working state and the writes staged for it.\<close>

definition row_part :: "string \<Rightarrow> serverFold \<Rightarrow> jsval option \<times> deferredApplication list" where
  "row_part key sf = (map_get (ch_server (sf_change sf)) key,
    filter (\<lambda>a. application_key a = Some key) (ch_pending (sf_change sf)))"

lemma row_part_stage:
  assumes "map_option (stateKey (pr_collection r)) (row_key (pr_id r)) \<noteq> Some key"
  shows "row_part key (stage_result s r sf) = row_part key sf"
  using assms
  by (auto simp: row_part_def stage_change_parts stage_change_def Let_def application_key_def server_step_get
      filter_empty_conv split: option.split)

lemma row_part_stages:
  assumes "\<forall>r \<in> set rs. map_option (stateKey (pr_collection r)) (row_key (pr_id r)) \<noteq> Some key"
  shows "row_part key (fold (stage_result s) rs sf) = row_part key sf"
  using assms by (induction rs arbitrary: sf) (simp_all add: row_part_stage)

lemma row_part_run:
  assumes "\<not> may_write env key s" "set ps \<subseteq> set (processors_for env (sn_event s))"
  shows "row_part key (snd (run_processors s ps sf)) = row_part key sf"
  using assms(2)
proof (induction ps arbitrary: sf)
  case (Cons p ps)
  have "\<forall>r \<in> set (processor_results (p (sn_event s) state (server_context (sn_event s)))).
      map_option (stateKey (pr_collection r)) (row_key (pr_id r)) \<noteq> Some key" for state
    using assms(1) Cons.prems by (auto simp: may_write_def)
  note step = row_part_stages [OF this, of s]
  show ?case
    using step [of "map_get (ch_server (sf_change sf)) (target_key s)" sf] Cons
    by (cases "p (sn_event s) (map_get (ch_server (sf_change sf)) (target_key s)) (server_context (sn_event s))")
      (simp_all del: processor_results.simps)
qed simp

lemma row_part_event:
  assumes "target_key s \<in> set (sf_locked sf) \<or> \<not> may_write env key s"
  shows "row_part key (fold_server_event env creates s sf) = row_part key sf"
proof -
  define w0 where "w0 = sf\<lparr>sf_results := map_set (se_id (sn_event s))
      \<lparr>ed_updatedIds = [], ed_invalidated = False\<rparr> (sf_results sf)\<rparr>"
  obtain b w where run: "run_processors s (processors_for env (sn_event s)) w0 = (b, w)" by (rule prod.exhaust)
  have w0: "row_part key w0 = row_part key sf" by (simp add: w0_def row_part_def)
  have "row_part key (resolved (with_change (resolve_id creates s) w)) = row_part key (resolved w)"
    if "resolved = (\<lambda>x. x)" for resolved
    using that by (simp add: row_part_def with_change_def resolve_id_def split: option.split)
  then have res: "row_part key (with_change (resolve_id creates s) w) = row_part key w" by simp
  show ?thesis
  proof (cases "target_key s \<in> set (sf_locked sf)")
    case True
    then show ?thesis by (simp add: fold_server_event_def row_part_def)
  next
    case False
    then have "row_part key w = row_part key sf"
      using row_part_run [of env key s "processors_for env (sn_event s)" w0] assms run w0 by simp
    with False res show ?thesis unfolding fold_server_event_def Let_def w0_def [symmetric]
      by (cases b) (simp_all add: run, simp_all add: w0_def row_part_def)
  qed
qed

lemma row_part_events:
  assumes "key \<in> set (sf_locked sf)" "\<forall>e \<in> set es. target_key e \<noteq> key \<longrightarrow> \<not> may_write env key e"
  shows "row_part key (fold (fold_server_event env creates) es sf) = row_part key sf"
  using assms
proof (induction es arbitrary: sf)
  case (Cons e es)
  have "row_part key (fold_server_event env creates e sf) = row_part key sf"
    using Cons.prems by (intro row_part_event) auto
  with Cons.IH [OF locked_grows [OF Cons.prems(1), of env creates e]] Cons.prems(2) show ?case by simp
qed simp

text \<open>
  C12: An entity that an event invalidates is locked for the rest of the batch: the later events addressed to it
  (by stream and \<open>data.id\<close>) are skipped, so that the batch changes what it would change without them; the
  entity's row keeps the working state and the staged writes it had when it was invalidated, unless a processor
  returns a result for the row from an event addressed to another entity, which the lock does not stop; and
  every collection that matches the invalidating event's stream is refetched under the event's cache keys.
\<close>

theorem invalidation_locks:
  assumes "List.map_filter (scan_entry (sy_collections env)) batch = xs @ s # ys"
    and "w = fold (fold_server_event env creates) xs (new_fold preloaded)"
    and "target_key s \<notin> set (sf_locked w)" "fst (run_processors s (processors_for env (sn_event s)) w)"
    and "out = fold_server_events env creates preloaded batch"
  shows "sf_change out = sf_change (fold (fold_server_event env creates)
        (xs @ s # filter (\<lambda>e. target_key e \<noteq> target_key s) ys) (new_fold preloaded))
    \<and> ((\<forall>e \<in> set ys. target_key e \<noteq> target_key s \<longrightarrow> \<not> may_write env (target_key s) e) \<longrightarrow>
        row_part (target_key s) out = row_part (target_key s) (fold_server_event env creates s w))
    \<and> (\<forall>c\<in>set (sn_matching s). (qc_name c, sn_cacheKeys s) \<in> set (sf_refetches out))"
proof -
  define w1 where "w1 = fold_server_event env creates s w"
  define w0 where "w0 = w\<lparr>sf_results := map_set (se_id (sn_event s))
      \<lparr>ed_updatedIds = [], ed_invalidated = False\<rparr> (sf_results w)\<rparr>"
  obtain b w2 where run: "run_processors s (processors_for env (sn_event s)) w0 = (b, w2)" by (metis surj_pair)
  have "fold_core w = fold_core w0" by (simp add: fold_core_def w0_def)
  from run_core [OF this, of s "processors_for env (sn_event s)"] have b using assms(4) run by simp
  then have w1: "target_key s \<in> set (sf_locked w1)" "\<forall>c\<in>set (sn_matching s). (qc_name c, sn_cacheKeys s) \<in> set (sf_refetches w1)"
    using assms(3) run unfolding w1_def fold_server_event_def Let_def w0_def [symmetric]
    by (auto simp: w0_def)
  have out: "out = fold (fold_server_event env creates) ys w1"
    by (simp add: assms(1,2,5) fold_server_events_def w1_def)
  have "fold_core out = fold_core (fold (fold_server_event env creates) (filter (\<lambda>e. target_key e \<noteq> target_key s) ys) w1)"
    unfolding out by (rule skip_locked [OF w1(1)])
  moreover have "\<forall>c\<in>set (sn_matching s). (qc_name c, sn_cacheKeys s) \<in> set (sf_refetches out)"
    using w1(2) refetches_grow [of w1 env creates ys] unfolding out by blast
  moreover have "row_part (target_key s) out = row_part (target_key s) w1"
    if "\<forall>e \<in> set ys. target_key e \<noteq> target_key s \<longrightarrow> \<not> may_write env (target_key s) e"
    unfolding out by (rule row_part_events [OF w1(1) that])
  ultimately show ?thesis by (simp add: fold_core_def assms(2) w1_def)
qed

text \<open>An event of another stream writes the row that was invalidated before it.\<close>

definition cross_env :: "unit syncEnv" where
  "cross_env = todo_env\<lparr>sy_processors := epr_register \<lparr>reg_eventTypes = One ''Renamed'',
      reg_processor = (\<lambda>e st ctx. if se_streamId e = ''Todo-1'' then InvalidateReturn else rename_row),
      reg_persistenceTypes = None\<rparr> new_processorRegistry\<rparr>"

definition renamed_other :: "string \<Rightarrow> wsEntry" where
  "renamed_other i = (renamed_entry i)\<lparr>we_event := (we_event (renamed_entry i))
      \<lparr>se_streamId := ''Todo-2'', se_data := JObj [(''id'', JStr ''2'')]\<rparr>\<rparr>"

lemma other_event_writes_locked_row:
  "sf_locked (fold_server_events cross_env [] [] [renamed_entry ''e1'', renamed_other ''e2'']) = [''todos:1'']"
  "map_get (ch_server (sf_change (fold_server_events cross_env [] [] [renamed_entry ''e1'', renamed_other ''e2'']))) ''todos:1'' =
    Some (JObj [(''title'', JStr ''new'')])"
  by code_simp+

text \<open>Two events of one entity, whose processor always gives up: the row stays as loaded.\<close>

theorem invalidation_locks_witness:
  "row_part ''todos:1'' (fold_server_events (with_processor InvalidateReturn) [] []
      [renamed_entry ''e1'', renamed_entry ''e2'', renamed_other ''e3'']) = (None, []) \<and>
   (''todos'', [''k'']) \<in> set (sf_refetches (fold_server_events (with_processor InvalidateReturn) [] []
      [renamed_entry ''e1'', renamed_entry ''e2'', renamed_other ''e3'']))"
proof -
  define env where "env = with_processor InvalidateReturn"
  define batch where "batch = [renamed_entry ''e1'', renamed_entry ''e2'', renamed_other ''e3'']"
  define s where "s = (\<lambda>entry :: wsEntry. \<lparr>sn_event = we_event entry, sn_primary = todo_collection, sn_matching = [todo_collection],
    sn_cacheKeys = [''k''], sn_serverId = string_of (js_member (se_data (we_event entry)) ''id'')\<rparr>)"
  have scan: "scan_entry (sy_collections env) (renamed_entry i) = Some (s (renamed_entry i))"
    "scan_entry (sy_collections env) (renamed_other i) = Some (s (renamed_other i))" for i
    by (simp_all add: scan_entry_def matching_collections_def env_def with_processor_def todo_env_def todo_collection_def
        renamed_entry_def renamed_other_def s_def string_of_def)
  have scanned: "List.map_filter (scan_entry (sy_collections env)) batch =
      [] @ s (renamed_entry ''e1'') # [s (renamed_entry ''e2''), s (renamed_other ''e3'')]"
    by (simp add: batch_def List.map_filter_simps scan)
  have run: "fst (run_processors (s (renamed_entry ''e1'')) (processors_for env (sn_event (s (renamed_entry ''e1'')))) (new_fold []))"
    unfolding s_def env_def by code_simp
  have none: "processors_for env (sn_event (s (renamed_other ''e3''))) = [\<lambda>e st ctx. InvalidateReturn]"
    by (simp add: s_def env_def processors_for_def with_processor_def getProcessors_def epr_register_def Let_def
        normalize_registration_def index_under_def indexed_def new_processorRegistry_def set_of_list_def
        renamed_other_def renamed_entry_def persistence_allowed_def todo_env_def set_add_def)
  have quiet: "\<not> may_write env k (s (renamed_other ''e3''))" for k
    by (simp add: may_write_def none)
  have key: "target_key (s (renamed_entry i)) = ''todos:1''" for i
    by (simp add: target_key_def s_def stateKey_def todo_collection_def renamed_entry_def string_of_def)
  have free: "target_key (s (renamed_entry ''e1'')) \<notin> set (sf_locked (new_fold []))" by (simp add: new_fold_def)
  have w1: "row_part ''todos:1'' (fold_server_event env [] (s (renamed_entry ''e1'')) (new_fold [])) = (None, [])"
    unfolding s_def env_def by code_simp
  have "row_part ''todos:1'' (fold_server_events env [] [] batch) = (None, []) \<and>
      (\<forall>c\<in>set (sn_matching (s (renamed_entry ''e1''))). (qc_name c, sn_cacheKeys (s (renamed_entry ''e1''))) \<in>
        set (sf_refetches (fold_server_events env [] [] batch)))"
    using invalidation_locks [OF scanned _ free run refl, of "[]"] by (simp add: quiet key w1)
  then show ?thesis by (simp add: s_def todo_collection_def env_def batch_def)
qed

end
