(* ===== verification/Spec2Isabelle.thy ===== *)
theory Spec2Isabelle
  imports EntityRefs GapDetector ChainRegistry SeedStatus WriteQueue Storage CommandStore IdMapping PipelineSteps CacheFreeze ReadModelRows QueueTheorems AnticipationCleanup ReconcileTheorems
begin

text \<open>
  A model of the client library of the CQRS toolkit, \<^verbatim>\<open>packages/client/src\<close>, with the theorems that
  make its parts correct.  All paths below are relative to that directory.

  \<^bold>\<open>The program.\<close>  An application enqueues commands and reads cached read models.  Commands carry entity
  references to entities that other commands have yet to create; when the server assigns an id, the
  references are rewritten.  Cache keys say which data the client holds; a key that is evicted takes its
  events and read models with it.  Server events arrive over a WebSocket, in command responses and in seed
  pages; they are buffered per stream, repaired when a revision is missing and applied to the read models
  in order.  All writes go through one write queue, and a storage backend holds the records.

  \<^bold>\<open>Theories\<close>, in the order in which they build on each other.

  \<^item> \<open>Prelude\<close>: JavaScript maps, sets, sorting and slicing, results that may be thrown errors, loops that
    rewrite a map, decimal numerals.
  \<^item> \<open>JsValue\<close>: JavaScript values and \<^verbatim>\<open>types/entities.ts\<close>.  \<open>Json\<close>: \<open>JSON.stringify\<close> and
    \<open>JSON.parse\<close> on them, with the round trip.
  \<^item> \<open>RefPath\<close>: \<^verbatim>\<open>core/entity-ref/ref-path.ts\<close>.  \<open>EntityRefs\<close>: \<^verbatim>\<open>types/aggregates.ts\<close> and the three
    walks over declared id paths in \<^verbatim>\<open>core/entity-ref\<close>.
  \<^item> \<open>GapDetector\<close>: \<^verbatim>\<open>core/event-cache/GapDetector.ts\<close>.  \<open>ChainRegistry\<close>:
    \<^verbatim>\<open>core/command-queue/AggregateChainRegistry.ts\<close> and \<open>SeedStatus\<close>:
    \<^verbatim>\<open>core/sync-manager/SeedStatusIndex.ts\<close>, both over an explicit store of mutable objects.
  \<^item> \<open>WriteQueue\<close>: \<^verbatim>\<open>core/write-queue\<close>, the queue's methods and the continuations of its asynchronous
    loop as the steps of \<open>wq_step\<close>.
  \<^item> \<open>StorageTypes\<close>, \<open>SortReadModels\<close>, \<open>Storage\<close>: the stored records, \<^verbatim>\<open>storage/sort-read-models.ts\<close> and
    \<^verbatim>\<open>storage/InMemoryStorage.ts\<close>, every operation of \<^verbatim>\<open>storage/IStorage.ts\<close>.
  \<^item> \<open>CommandStore\<close>, \<open>IdMapping\<close>: the command store and the store of client-to-server id mappings, each with
    its flush to storage.
  \<^item> \<open>EventCache\<close>, \<open>WsPipeline\<close>, \<open>PipelineSteps\<close>: the event cache, and the event pipeline of
    \<^verbatim>\<open>core/sync-manager/SyncManager.ts\<close> with \<^verbatim>\<open>GapRepairCoordinator.ts\<close>: arrival of events, the drain,
    gap repair, and the end of a session, during which the write queue refuses operations.
  \<^item> \<open>ReadModelStore\<close>: \<^verbatim>\<open>core/read-model-store/ReadModelStore.ts\<close>, the optimistic overlay over server
    data; \<open>ReadModelRows\<close> holds its theorems.
  \<^item> \<open>Failures\<close>: \<^verbatim>\<open>core/failure-mapper\<close>, \<^verbatim>\<open>utils/retry.ts\<close> and the exceptions of commands.
    \<open>EventProcessors\<close>: \<^verbatim>\<open>core/event-processor\<close>.  \<open>CommandTypes\<close>: the body of a command and the domain
    executor of \<^verbatim>\<open>types/domain.ts\<close>.  \<open>AnticipatedEvents\<close>: \<^verbatim>\<open>core/command-lifecycle/AnticipatedEventHandler.ts\<close>,
    with the theorem about its clean-up in \<open>AnticipationCleanup\<close>.
  \<^item> The command queue, \<^verbatim>\<open>core/command-queue/CommandQueue.ts\<close>: \<open>CommandQueue\<close> (state, dependencies, chains),
    \<open>CommandResponses\<close> (ids and revisions in responses), \<open>CommandRuns\<close> (status changes and the cascade),
    \<open>CommandSteps\<close> (the sender's replies), \<open>CommandApi\<close> (submission, the processing loop, the life cycle) and
    \<open>QueueSteps\<close> (the steps of a queue).  \<open>StorageFrames\<close>, \<open>QueueMemory\<close>, \<open>Cascade\<close>, \<open>CommandEffects\<close>,
    \<open>CommandMoves\<close>, \<open>CommandSuccess\<close>, \<open>QueueExamples\<close>, \<open>CommandDependencies\<close> and \<open>QueueTheorems\<close> are its theory:
    which parts of storage an operation leaves alone, the queue's view of its commands, what one step may do to it
    (\<open>evolves\<close>), which status changes an operation can make (\<open>moves\<close>), and the properties.
  \<^item> \<open>Reconcile\<close>: \<^verbatim>\<open>core/sync-manager/reconcilePendingCommands.ts\<close> and \<^verbatim>\<open>findPrimaryCollection.ts\<close>, with
    the part of \<^verbatim>\<open>PrimaryCollectionResolver.ts\<close> it uses.  \<open>ServerFold\<close> and \<open>ReconcilePersist\<close>:
    \<^verbatim>\<open>onApplyRecords\<close>, \<^verbatim>\<open>reconcileFromWsEvents\<close> and \<^verbatim>\<open>reconcileAndPersist\<close> of
    \<^verbatim>\<open>core/sync-manager/SyncManager.ts\<close>.  \<open>ReconcileTheorems\<close> holds their theorems.
  \<^item> \<open>CacheKey\<close>, \<open>CacheManager\<close>: \<^verbatim>\<open>core/cache-manager\<close> and \<^verbatim>\<open>utils/stableJson.ts\<close>.  \<open>CacheRegistry\<close>,
    \<open>CacheRuns\<close>, \<open>CacheFlush\<close>, \<open>CacheLimits\<close> and \<open>CacheFreeze\<close> hold the theorems about the manager's
    registry, its runs, its flush, its limits and freezing.

  \<^bold>\<open>How the model corresponds to the code.\<close>  The state of a class is a record with a field per private
  field; a method is a definition of the same name (with a prefix where two classes share it) that returns
  the new state.  An error that is thrown or returned is \<open>Inl\<close>.  The records of a component carry the
  storage they were constructed with.  An asynchronous method is split where another call can observe the
  state half-way: acquiring a cache key (\<open>acquire_start\<close> and \<open>acquire_new\<close>, around the eviction it awaits), the
  halves of a flush, the loop of the write queue, the fetch of a gap repair, the stretches of a session reset,
  submission of a command (preparing, looking dependencies up, saving), sending and its reply.
  The rest of an asynchronous method is one step.  A write-queue handler runs as one step, as the queue
  guarantees.  What is not in the
  repository or not determined by it is an argument: the clock, generated ids, version 5 UUIDs, the
  consumer's processors and resolvers.  A loop that the source does not bound is a
  \<open>partial_function (option)\<close> whose \<open>None\<close> is the loop that does not end; termination is then a theorem.
  The parser of \<open>Json\<close> recurses on fuel, twice the length of the text, and the round trip shows it is enough.
  The cascade after a failure recurses on fuel, one more than the number of active commands; each level
  cancels one, and \<open>Cascade.cascade_settles\<close> shows that it never runs out.  A method of the command
  queue that may throw half-way is a \<open>run\<close>, the error if there is one and the state it leaves, since the
  code keeps what was done before the throw.  The code's queue mutates command objects in place, and
  \<open>live_cmd\<close> reads such an object again.

  \<^bold>\<open>Interfaces.\<close>  \<open>status_relation\<close> (which status changes one may compose; interpreted on all changes and on those
  of a reconcile pass), \<open>stream_buffer\<close> (interpreted on the gap buffer), \<open>promise_ledger\<close> (on the write queue's
  accepted operations), \<open>keyed_store\<close> (on the events, commands and cache keys of storage), \<open>id_index\<close> (on the
  id mappings), and \<open>guarded_store\<close> (on the cache manager's registry, for eviction and expiry) state what
  one component may rely on in another; their lemmas carry the theorems of the clients.

  \<^bold>\<open>What the theorems show.\<close>  The command queue: submission blocks a command by exactly its unfinished
  dependencies; the loop sends only commands that wait for nothing; success, failure and cancellation end and
  leave no command waiting for the settled one, though a soft dependent that also waits for a command that the cascade
  cancels stays waiting for that one, as \<open>cascade_strands_command\<close> shows; and a submission whose look-up overlaps
  another's is not ordered after it (\<open>overlapping_submissions_unordered\<close>); its memory stays consistent over every sequence of steps, provided that new commands have new ids and the store is
  loaded before commands finish.  Invariants of every reachable state: the write queue never runs two handlers
  at once and settles each accepted operation once; the pipeline has at most one drain queued, and one for pending
  events as long as none is pending while a session is being reset (\<open>closed_queue_stalls\<close> shows what happens
  otherwise); the chain registry's and the seed status index's indexes stay consistent, and so do the cache
  registry's in runs where UUIDs and identity strings belong together, which the code does not ensure
  (\<open>stale_touch_hangs_evictAll\<close>, \<open>resolve_overwrites_key\<close>).  Acquisitions of cache keys that overlap can exceed
  the limit on their number, by less than the number of them in flight.
  A reconcile pass changes statuses only by failing, cancelling and unblocking commands and by applying
  succeeded ones that the server data covers, and runs again
  exactly the open commands that touch changed entities; the state their handlers see is the fold of the staged
  updates, except where stored rows are loaded over it; events addressed to an invalidated entity are inert for
  the rest of the batch.
  Functional behaviour of each operation on every branch.  Refinement: after a flush storage holds exactly
  the registered cache keys.  Termination of evicting and freezing.  Round trips of paths, references, cache
  key records.  Some theorems state a behaviour that looks unintended, each on a reachable state; the
  findings of the manifest list them.

  \<^bold>\<open>Limits.\<close>  Numbers are integers, not doubles.  The order in which an object enumerates integer-like keys
  is not modelled.  A property found on a built-in prototype is an opaque function.  Records are values: two
  components that hold the same object in the code hold equal copies here, except where an explicit store of
  objects is used.

  \<^bold>\<open>Not modelled.\<close>  The fetches of seeding and connectivity of the sync manager, waiting for a
  command's terminal event (observables), the contents of uploaded files, queries and views, the session
  manager, the SQL backend, workers, proxies and the message protocol, the devtools, the framework
  bindings, the hypermedia packages, demos, tests and build scripts.
\<close>

end
